(* ===== verification/Prelude.thy ===== *)
theory Prelude
  imports Main "HOL-Library.Word" "HOL-Library.Monad_Syntax"
begin

text \<open>
  What every component shares: the byte and string types, the big- and
  little-endian integer codecs of the Rust standard library
  (\<open>to_be_bytes\<close>, \<open>from_be_bytes\<close>, \<open>to_le_bytes\<close>), slice reads that can fail,
  the UTF-8 check of \<open>String::from_utf8\<close>, hexadecimal text, and the generic
  lemmas about them.

  A Rust \<open>String\<close> is the list of its UTF-8 bytes (type \<open>text_bytes\<close>); lengths and
  slices of strings in the source are byte lengths and byte slices, so this is
  the representation the code itself computes with.  A \<open>usize\<close> that counts or
  indexes a buffer is a \<open>nat\<close>: buffers are bounded by \<open>isize::MAX\<close>, so adding a
  length to an offset cannot wrap.
\<close>

named_theorems codec_simps \<open>rewriting rules of the byte-level codecs\<close>

unbundle bit_operations_syntax

type_synonym byte = "8 word"
type_synonym bytes = "byte list"
type_synonym text_bytes = "byte list"
type_synonym u16 = "16 word"
type_synonym u32 = "32 word"
type_synonym u64 = "64 word"

section \<open>Integers as bytes\<close>

fun nat_to_be :: "nat \<Rightarrow> nat \<Rightarrow> bytes" where
  "nat_to_be 0 v = []"
| "nat_to_be (Suc n) v = nat_to_be n (v div 256) @ [of_nat (v mod 256)]"

fun be_to_nat_acc :: "nat \<Rightarrow> bytes \<Rightarrow> nat" where
  "be_to_nat_acc acc [] = acc"
| "be_to_nat_acc acc (b # bs) = be_to_nat_acc (acc * 256 + unat b) bs"

definition be_to_nat :: "bytes \<Rightarrow> nat" where
  "be_to_nat bs = be_to_nat_acc 0 bs"

fun nat_to_le :: "nat \<Rightarrow> nat \<Rightarrow> bytes" where
  "nat_to_le 0 v = []"
| "nat_to_le (Suc n) v = of_nat (v mod 256) # nat_to_le n (v div 256)"

fun le_to_nat :: "bytes \<Rightarrow> nat" where
  "le_to_nat [] = 0"
| "le_to_nat (b # bs) = unat b + 256 * le_to_nat bs"

lemma length_nat_to_be [simp, codec_simps]: "length (nat_to_be n v) = n"
  by (induction n arbitrary: v) auto

lemma length_nat_to_le [simp, codec_simps]: "length (nat_to_le n v) = n"
  by (induction n arbitrary: v) auto

lemma be_to_nat_acc_snoc: "be_to_nat_acc a (bs @ [b]) = be_to_nat_acc a bs * 256 + unat b"
  by (induction bs arbitrary: a) auto

lemma be_to_nat_Nil [simp]: "be_to_nat [] = 0"
  by (simp add: be_to_nat_def)

lemma be_to_nat_snoc: "be_to_nat (bs @ [b]) = be_to_nat bs * 256 + unat b"
  by (simp add: be_to_nat_def be_to_nat_acc_snoc)

lemma unat_of_nat_byte [simp]: "unat (of_nat (v mod 256) :: byte) = v mod 256"
  by (simp add: unat_of_nat)

lemma unat_of_nat_byte_less: "v < 256 \<Longrightarrow> unat (of_nat v :: byte) = v"
  by (simp add: unat_of_nat)

lemma unat_byte_less [simp]: "unat (b :: byte) < 256"
  using unsigned_less [of b, where ?'a = nat] by simp

lemma be_to_nat_nat_to_be_mod: "be_to_nat (nat_to_be n v) = v mod 256 ^ n"
proof (induction n arbitrary: v)
  case 0
  then show ?case by simp
next
  case (Suc n)
  have "v mod (256 * 256 ^ n) = 256 * (v div 256 mod 256 ^ n) + v mod 256"
    by (rule mod_mult2_eq)
  then show ?case by (simp add: be_to_nat_snoc Suc)
qed

lemma be_to_nat_nat_to_be [simp, codec_simps]: "v < 256 ^ n \<Longrightarrow> be_to_nat (nat_to_be n v) = v"
  by (simp add: be_to_nat_nat_to_be_mod)

lemma be_to_nat_less: "be_to_nat bs < 256 ^ length bs"
proof (induction bs rule: rev_induct)
  case (snoc b bs)
  have "be_to_nat bs * 256 + unat b < be_to_nat bs * 256 + 256" by simp
  also have "\<dots> = (be_to_nat bs + 1) * 256" by simp
  also have "\<dots> \<le> 256 ^ length bs * 256"
    using snoc by (intro mult_le_mono) auto
  finally show ?case by (simp add: be_to_nat_snoc mult.commute)
qed simp

lemma nat_to_be_be_to_nat: "nat_to_be (length bs) (be_to_nat bs) = bs"
proof (induction bs rule: rev_induct)
  case (snoc b bs)
  have "(be_to_nat bs * 256 + unat b) div 256 = be_to_nat bs" by simp
  moreover have "of_nat ((be_to_nat bs * 256 + unat b) mod 256) = b" by simp
  ultimately show ?case using snoc by (simp add: be_to_nat_snoc del: div_mult_self3)
qed simp

lemma le_to_nat_nat_to_le_mod: "le_to_nat (nat_to_le n v) = v mod 256 ^ n"
proof (induction n arbitrary: v)
  case 0
  then show ?case by simp
next
  case (Suc n)
  have "v mod (256 * 256 ^ n) = 256 * (v div 256 mod 256 ^ n) + v mod 256"
    by (rule mod_mult2_eq)
  then show ?case by (simp add: Suc)
qed

lemma le_to_nat_less: "le_to_nat bs < 256 ^ length bs"
proof (induction bs)
  case (Cons b bs)
  have "unat b + 256 * le_to_nat bs < 256 + 256 * le_to_nat bs" by simp
  also have "\<dots> = 256 * (le_to_nat bs + 1)" by simp
  also have "\<dots> \<le> 256 * 256 ^ length bs"
    using Cons by (intro mult_le_mono) auto
  finally show ?case by simp
qed simp

lemma le_to_nat_append:
  "le_to_nat (xs @ ys) = le_to_nat xs + 256 ^ length xs * le_to_nat ys"
  by (induction xs) (auto simp: algebra_simps)

text \<open>The codecs at the widths the wire formats use.\<close>

definition be16 :: "nat \<Rightarrow> bytes" where
  "be16 v = nat_to_be 2 v"

definition be32 :: "nat \<Rightarrow> bytes" where
  "be32 v = nat_to_be 4 v"

definition be64 :: "u64 \<Rightarrow> bytes" where
  "be64 w = nat_to_be 8 (unat w)"

definition u64_of_be :: "bytes \<Rightarrow> u64" where
  "u64_of_be bs = of_nat (be_to_nat bs)"

lemma length_be [simp, codec_simps]:
  "length (be16 v) = 2" "length (be32 v) = 4" "length (be64 w) = 8"
  by (simp_all add: be16_def be32_def be64_def)

lemma be_to_nat_be16 [simp, codec_simps]: "v < 65536 \<Longrightarrow> be_to_nat (be16 v) = v"
  by (simp add: be16_def)

lemma be_to_nat_be32 [simp, codec_simps]: "v < 4294967296 \<Longrightarrow> be_to_nat (be32 v) = v"
  by (simp add: be32_def)

lemma u64_of_be_be64 [simp, codec_simps]: "u64_of_be (be64 w) = w"
proof -
  have "unat w < 256 ^ 8" using unsigned_less [of w, where ?'a = nat] by simp
  then show ?thesis by (simp add: u64_of_be_def be64_def)
qed

lemma u32_be32 [simp, codec_simps]: "of_nat (be_to_nat (be32 (unat k))) = (k :: u32)"
  using unsigned_less [of k, where ?'a = nat] by simp

lemma be64_inject [simp]: "be64 v = be64 w \<longleftrightarrow> v = w"
  by (metis u64_of_be_be64)

lemma be16_eq: "v < 65536 \<Longrightarrow> be16 v = [of_nat (v div 256), of_nat (v mod 256)]"
  by (simp add: be16_def numeral_2_eq_2)

lemma be_to_nat_two: "be_to_nat [a, b] = unat a * 256 + unat b"
  by (simp add: be_to_nat_def)

lemma word_eq_plus_one: "unat a = unat b + 1 \<Longrightarrow> (a :: 'a :: len word) = b + 1"
  using word_arith_nat_add [of b 1] by (metis of_nat_unat ucast_id unat_1)

text \<open>
  \<open>value |= (byte as u64) << (index * 8)\<close> over consecutive bytes: the little-endian value,
  as a disjunction of shifted bytes.
\<close>

fun or_bytes :: "nat \<Rightarrow> bytes \<Rightarrow> u64 \<Rightarrow> u64" where
  "or_bytes index [] v = v"
| "or_bytes index (b # bs) v = or_bytes (Suc index) bs (v OR push_bit (index * 8) (ucast b))"

lemma of_nat_le_Cons:
  "(of_nat (unat b + 256 * n) :: u64) = ucast b OR push_bit 8 (of_nat n)" for b :: byte
proof -
  have "ucast b + push_bit 8 (of_nat n :: u64) = ucast b OR push_bit 8 (of_nat n)"
    by (rule disjunctive_add) (auto simp: bit_simps dest: bit_imp_le_length)
  moreover have "(of_nat (unat b + 256 * n) :: u64) = ucast b + push_bit 8 (of_nat n)"
    by (simp add: push_bit_eq_mult)
  ultimately show ?thesis by simp
qed

lemma or_bytes_le: "or_bytes i bs v = v OR push_bit (i * 8) (of_nat (le_to_nat bs))"
proof (induction i bs v rule: or_bytes.induct)
  case (2 i b bs v)
  have "push_bit (i * 8) (of_nat (unat b + 256 * le_to_nat bs) :: u64) =
      push_bit (i * 8) (ucast b) OR push_bit (Suc i * 8) (of_nat (le_to_nat bs))"
    by (simp only: of_nat_le_Cons push_bit_or push_bit_push_bit) (simp add: add.commute)
  with 2 show ?case by (simp add: or.assoc)
qed simp

section \<open>Reads that can fail\<close>

text \<open>
  \<open>raw.get(offset)?\<close> and \<open>raw.get(offset..offset + n)?\<close> of the source, on the suffix
  of the buffer that starts at the current offset.
\<close>

fun read_u8 :: "bytes \<Rightarrow> (byte \<times> bytes) option" where
  "read_u8 [] = None"
| "read_u8 (b # bs) = Some (b, bs)"

definition read_slice :: "nat \<Rightarrow> bytes \<Rightarrow> (bytes \<times> bytes) option" where
  "read_slice n bs = (if n \<le> length bs then Some (take n bs, drop n bs) else None)"

lemma read_slice_append [simp, codec_simps]:
  "length xs = n \<Longrightarrow> read_slice n (xs @ ys) = Some (xs, ys)"
  by (simp add: read_slice_def)

lemma read_slice_SomeD:
  "read_slice n bs = Some (xs, ys) \<Longrightarrow> bs = xs @ ys \<and> length xs = n"
  by (auto simp: read_slice_def split: if_splits)

lemma read_u8_SomeD: "read_u8 bs = Some (b, ys) \<Longrightarrow> bs = b # ys"
  by (cases bs) auto

section \<open>UTF-8\<close>

text \<open>
  \<open>String::from_utf8\<close> accepts exactly the well-formed UTF-8 byte sequences: no
  overlong forms, no surrogates, nothing above U+10FFFF.
\<close>

definition is_cont :: "byte \<Rightarrow> bool" where
  "is_cont b \<longleftrightarrow> 0x80 \<le> b \<and> b \<le> 0xBF"

text \<open>
  The table of well-formed sequences: for each lead byte, how many continuation
  bytes follow and the range the first of them must lie in.
\<close>

definition utf8_lead :: "byte \<Rightarrow> (nat \<times> byte \<times> byte) option" where
  "utf8_lead b =
     (if b \<le> 0x7F then Some (0, 0x80, 0xBF)
      else if b \<le> 0xC1 then None
      else if b \<le> 0xDF then Some (1, 0x80, 0xBF)
      else if b = 0xE0 then Some (2, 0xA0, 0xBF)
      else if b = 0xED then Some (2, 0x80, 0x9F)
      else if b \<le> 0xEF then Some (2, 0x80, 0xBF)
      else if b = 0xF0 then Some (3, 0x90, 0xBF)
      else if b \<le> 0xF3 then Some (3, 0x80, 0xBF)
      else if b = 0xF4 then Some (3, 0x80, 0x8F)
      else None)"

text \<open>
  How many continuation bytes belong to the character that starts with lead byte \<open>b\<close>
  and goes on with \<open>bs\<close>; \<open>None\<close> when no well-formed character starts there.
\<close>

definition utf8_tail :: "byte \<Rightarrow> bytes \<Rightarrow> nat option" where
  "utf8_tail b bs =
     (case utf8_lead b of
        None \<Rightarrow> None
      | Some (k, lo, hi) \<Rightarrow>
          if k \<le> length bs \<and> list_all is_cont (take k bs)
             \<and> (k = 0 \<or> lo \<le> bs ! 0 \<and> bs ! 0 \<le> hi)
          then Some k else None)"

fun utf8_valid :: "bytes \<Rightarrow> bool" where
  "utf8_valid [] = True"
| "utf8_valid (b # bs) =
     (case utf8_tail b bs of None \<Rightarrow> False | Some k \<Rightarrow> utf8_valid (drop k bs))"

definition from_utf8 :: "bytes \<Rightarrow> text_bytes option" where
  "from_utf8 bs = (if utf8_valid bs then Some bs else None)"

lemma from_utf8_valid [simp, codec_simps]: "utf8_valid bs \<Longrightarrow> from_utf8 bs = Some bs"
  by (simp add: from_utf8_def)

lemma from_utf8_SomeD: "from_utf8 bs = Some s \<Longrightarrow> s = bs \<and> utf8_valid bs"
  by (simp add: from_utf8_def split: if_splits)

text \<open>Evaluating the check on concrete bytes.\<close>

lemmas utf8_eval = utf8_tail_def utf8_lead_def is_cont_def word_le_nat_alt

text \<open>
  \<open>str::is_char_boundary\<close>: both ends are boundaries, and in between a byte starts a
  character exactly when it is not a continuation byte.
\<close>

definition is_char_boundary :: "text_bytes \<Rightarrow> nat \<Rightarrow> bool" where
  "is_char_boundary s i \<longleftrightarrow>
     i = 0 \<or> i = length s \<or> (i < length s \<and> \<not> is_cont (s ! i))"

text \<open>Cutting valid UTF-8 before a byte that is not a continuation byte leaves valid UTF-8.\<close>

lemma utf8_tail_cont:
  "utf8_tail b bs = Some k \<Longrightarrow> k \<le> length bs \<and> list_all is_cont (take k bs)"
  by (simp add: utf8_tail_def split: option.splits prod.splits if_split_asm)

lemma utf8_tail_append: "utf8_tail b xs = Some k \<Longrightarrow> utf8_tail b (xs @ ys) = Some k"
  by (cases "k = 0") (auto simp: utf8_tail_def nth_append split: option.splits prod.splits if_split_asm)

lemma utf8_tail_shorten:
  "utf8_tail b (xs @ ys) = Some k \<Longrightarrow> k \<le> length xs \<Longrightarrow> utf8_tail b xs = Some k"
  by (cases "k = 0") (auto simp: utf8_tail_def nth_append split: option.splits prod.splits if_split_asm)

lemma utf8_valid_prefix:
  "utf8_valid (xs @ ys) \<Longrightarrow> ys = [] \<or> \<not> is_cont (hd ys) \<Longrightarrow> utf8_valid xs"
proof (induction xs rule: utf8_valid.induct)
  case (2 b bs)
  from "2.prems"(1) obtain k where k: "utf8_tail b (bs @ ys) = Some k"
    and rest: "utf8_valid (drop k (bs @ ys))"
    by (auto split: option.splits)
  have le: "k \<le> length bs"
  proof (rule ccontr)
    assume gt: "\<not> k \<le> length bs"
    with utf8_tail_cont [OF k] have "ys \<noteq> []" and "is_cont (take k (bs @ ys) ! length bs)"
      by (auto simp: list_all_length)
    with "2.prems"(2) gt show False by (simp add: nth_append hd_conv_nth)
  qed
  have t: "utf8_tail b bs = Some k" using k le by (rule utf8_tail_shorten)
  from rest le have "utf8_valid (drop k bs @ ys)" by simp
  then have "utf8_valid (drop k bs)" using "2.prems"(2) by (rule "2.IH" [OF t])
  with t show ?case by simp
qed simp

lemma utf8_valid_take:
  assumes "utf8_valid s" and "is_char_boundary s i"
  shows "utf8_valid (take i s)"
proof (cases "i < length s")
  case True
  with assms(2) have "i = 0 \<or> \<not> is_cont (hd (drop i s))"
    by (auto simp: is_char_boundary_def hd_drop_conv_nth)
  then show ?thesis
    using utf8_valid_prefix [of "take i s" "drop i s"] assms(1) by auto
qed (use assms(1) in simp)

lemma utf8_valid_ascii: "\<forall>b \<in> set bs. b \<le> 0x7F \<Longrightarrow> utf8_valid bs"
  by (induction bs) (simp_all add: utf8_tail_def utf8_lead_def)

lemma utf8_valid_append: "utf8_valid xs \<Longrightarrow> utf8_valid ys \<Longrightarrow> utf8_valid (xs @ ys)"
proof (induction xs rule: utf8_valid.induct)
  case (2 b bs)
  then obtain k where k: "utf8_tail b bs = Some k" and "utf8_valid (drop k bs @ ys)"
    by (auto split: option.splits)
  moreover have "k \<le> length bs" using utf8_tail_cont [OF k] by simp
  ultimately show ?case by (simp add: utf8_tail_append [OF k])
qed simp

section \<open>Hexadecimal text\<close>

text \<open>
  The \<open>hex\<close> crate's encoding: two lowercase digits per byte; decoding accepts either
  case and refuses an odd length or any other character.
\<close>

definition hex_digit :: "nat \<Rightarrow> byte" where
  "hex_digit n = (if n < 10 then of_nat (48 + n) else of_nat (87 + n))"

definition hex_value :: "byte \<Rightarrow> nat option" where
  "hex_value c =
     (let n = unat c in
      if 48 \<le> n \<and> n \<le> 57 then Some (n - 48)
      else if 97 \<le> n \<and> n \<le> 102 then Some (n - 87)
      else if 65 \<le> n \<and> n \<le> 70 then Some (n - 55)
      else None)"

fun hex_encode :: "bytes \<Rightarrow> text_bytes" where
  "hex_encode [] = []"
| "hex_encode (b # bs) = hex_digit (unat b div 16) # hex_digit (unat b mod 16) # hex_encode bs"

fun hex_decode :: "text_bytes \<Rightarrow> bytes option" where
  "hex_decode [] = Some []"
| "hex_decode [c] = None"
| "hex_decode (c # d # cs) =
     (case (hex_value c, hex_value d) of
        (Some h, Some l) \<Rightarrow> map_option ((#) (of_nat (16 * h + l))) (hex_decode cs)
      | _ \<Rightarrow> None)"

lemma length_hex_encode [simp]: "length (hex_encode bs) = 2 * length bs"
  by (induction bs) auto

lemma hex_value_hex_digit [simp]: "n < 16 \<Longrightarrow> hex_value (hex_digit n) = Some n"
  by (auto simp: hex_value_def hex_digit_def Let_def unat_of_nat simp del: of_nat_add)

lemma hex_decode_encode [simp, codec_simps]: "hex_decode (hex_encode bs) = Some bs"
proof (induction bs)
  case (Cons b bs)
  have "unat b div 16 < 16" using unat_byte_less [of b] by (simp add: less_mult_imp_div_less)
  then show ?case using Cons by (simp del: of_nat_add of_nat_mult)
qed simp

lemma hex_encode_inject [simp]: "hex_encode xs = hex_encode ys \<longleftrightarrow> xs = ys"
  by (metis hex_decode_encode option.inject)

lemma hex_digit_ascii: "n < 16 \<Longrightarrow> hex_digit n \<le> 0x7F"
  by (auto simp: hex_digit_def word_le_nat_alt unat_of_nat simp del: of_nat_add)

lemma unat_nibbles [simp]: "unat (b :: byte) div 16 < 16" "unat (b :: byte) mod 16 < 16"
  using unat_byte_less [of b] by (simp_all add: less_mult_imp_div_less)

lemma hex_encode_ascii: "c \<in> set (hex_encode bs) \<Longrightarrow> c \<le> 0x7F"
  by (induction bs) (auto intro: hex_digit_ascii)

lemma utf8_valid_hex_encode [simp]: "utf8_valid (hex_encode bs)"
  by (simp add: utf8_valid_ascii hex_encode_ascii)

section \<open>Options and lists\<close>

text \<open>A fold whose step can abort, the shape of every decoding loop.\<close>

fun fold_opt :: "('a \<Rightarrow> 's \<Rightarrow> 's option) \<Rightarrow> 'a list \<Rightarrow> 's \<Rightarrow> 's option" where
  "fold_opt f [] s = Some s"
| "fold_opt f (x # xs) s = (case f x s of None \<Rightarrow> None | Some s' \<Rightarrow> fold_opt f xs s')"

lemma fold_opt_append:
  "fold_opt f (xs @ ys) s =
     (case fold_opt f xs s of None \<Rightarrow> None | Some s' \<Rightarrow> fold_opt f ys s')"
  by (induction xs arbitrary: s) (auto split: option.splits)

text \<open>\<open>slice::chunks\<close>: consecutive runs of \<open>n\<close> bytes, the last one possibly shorter.\<close>

function chunks :: "nat \<Rightarrow> 'a list \<Rightarrow> 'a list list" where
  "chunks n xs = (if xs = [] \<or> n = 0 then [] else take n xs # chunks n (drop n xs))"
  by pat_completeness auto
termination
  by (relation "measure (\<lambda>(n, xs). length xs)") (auto simp: not_less)

declare chunks.simps [simp del]

lemma chunks_Nil [simp]: "chunks n [] = []"
  by (simp add: chunks.simps)

lemma chunks_step: "xs \<noteq> [] \<Longrightarrow> 0 < n \<Longrightarrow> chunks n xs = take n xs # chunks n (drop n xs)"
  by (simp add: chunks.simps [of n xs])

lemma concat_chunks: "0 < n \<Longrightarrow> concat (chunks n xs) = xs"
  by (induction n xs rule: chunks.induct) (simp add: chunks.simps)

lemma chunks_concat:
  "0 < n \<Longrightarrow> list_all (\<lambda>x. length x = n) xss \<Longrightarrow> chunks n (concat xss) = xss"
proof (induction xss)
  case (Cons x xss)
  then have "x @ concat xss \<noteq> []" by auto
  with Cons show ?case by (simp add: chunks_step del: append_is_Nil_conv)
qed simp

lemma sum_list_concat_length: "length (concat xss) = sum_list (map length xss)"
  by (induction xss) auto

section \<open>Signed 64-bit subtraction\<close>

text \<open>Subtraction of two \<open>i64\<close> values in a release build.\<close>

definition i64_sub :: "int \<Rightarrow> int \<Rightarrow> int" where
  "i64_sub a b = (a - b + 2 ^ 63) mod 2 ^ 64 - 2 ^ 63"

lemma i64_sub_exact: "- (2 ^ 63) \<le> a - b \<Longrightarrow> a - b < 2 ^ 63 \<Longrightarrow> i64_sub a b = a - b"
  by (simp add: i64_sub_def mod_pos_pos_trivial)

lemma i64_sub_below:
  assumes "a - b < - (2 ^ 63)" and "- (2 ^ 64) \<le> a - b"
  shows "i64_sub a b = a - b + 2 ^ 64"
proof -
  have "(a - b + 2 ^ 63) mod 2 ^ 64 = (a - b + 2 ^ 63 + 2 ^ 64) mod 2 ^ 64"
    by (rule mod_add_self2 [symmetric])
  also have "\<dots> = a - b + 2 ^ 63 + 2 ^ 64" using assms by (intro mod_pos_pos_trivial) auto
  finally show ?thesis by (simp add: i64_sub_def)
qed

end
