(* ===== verification/Tlv.thy ===== *)
theory Tlv
  imports Prelude
begin

text \<open>
  The type-length-value records that every payload codec of the client is built from.
  Two widths of the length field exist: one byte (announce, private message) and two
  bytes big-endian (sync request, courier envelope, gateway carrier), and the decoding
  loops differ in what they do with a short tail.  Each loop is a definition here,
  parameterised by the \<open>match\<close> of its body; the locale \<open>tlv_codec\<close> is the contract the
  component codecs rely on, and it is interpreted for every loop.
\<close>

section \<open>One-byte lengths\<close>

text \<open>\<open>push_tlv\<close> of announce.rs and noise_payload.rs: \<open>value.len() as u8\<close> keeps the low byte.\<close>

definition push_tlv1 :: "byte \<Rightarrow> bytes \<Rightarrow> bytes" where
  "push_tlv1 t v = t # of_nat (length v) # v"

text \<open>
  \<open>while offset + 2 <= data.len()\<close>: a value running past the end aborts, a single
  trailing byte is ignored.
\<close>

fun tlv1_loop :: "(byte \<Rightarrow> bytes \<Rightarrow> 's \<Rightarrow> 's option) \<Rightarrow> bytes \<Rightarrow> 's \<Rightarrow> 's option" where
  "tlv1_loop step (t # l # rest) s =
     (if unat l \<le> length rest
      then (case step t (take (unat l) rest) s of
              None \<Rightarrow> None
            | Some s' \<Rightarrow> tlv1_loop step (drop (unat l) rest) s')
      else None)"
| "tlv1_loop step _ s = Some s"

section \<open>Two-byte lengths\<close>

text \<open>\<open>push_tlv\<close> of courier.rs and carrier.rs, \<open>put\<close> of sync/request.rs.\<close>

definition push_tlv2 :: "byte \<Rightarrow> bytes \<Rightarrow> bytes" where
  "push_tlv2 t v = t # be16 (length v) @ v"

text \<open>
  \<open>while offset + 3 <= data.len()\<close>: a value running past the end aborts; what is left
  when fewer than three bytes remain is returned beside the state.
\<close>

fun tlv2_scan ::
  "(byte \<Rightarrow> bytes \<Rightarrow> 's \<Rightarrow> 's option) \<Rightarrow> bytes \<Rightarrow> 's \<Rightarrow> ('s \<times> bytes) option" where
  "tlv2_scan step (t # h # l # rest) s =
     (let n = be_to_nat [h, l] in
      if n \<le> length rest
      then (case step t (take n rest) s of
              None \<Rightarrow> None
            | Some s' \<Rightarrow> tlv2_scan step (drop n rest) s')
      else None)"
| "tlv2_scan step tail s = Some (s, tail)"

text \<open>The sync request ignores the tail.\<close>

definition tlv2_lenient ::
  "(byte \<Rightarrow> bytes \<Rightarrow> 's \<Rightarrow> 's option) \<Rightarrow> bytes \<Rightarrow> 's \<Rightarrow> 's option" where
  "tlv2_lenient step d s = map_option fst (tlv2_scan step d s)"

text \<open>The gateway carrier refuses any tail after the loop.\<close>

definition tlv2_exact ::
  "(byte \<Rightarrow> bytes \<Rightarrow> 's \<Rightarrow> 's option) \<Rightarrow> bytes \<Rightarrow> 's \<Rightarrow> 's option" where
  "tlv2_exact step d s =
     (case tlv2_scan step d s of
        Some (s', tail) \<Rightarrow> if tail = [] then Some s' else None
      | None \<Rightarrow> None)"

text \<open>The courier envelope loops \<open>while offset < data.len()\<close> and aborts on a short header.\<close>

fun tlv2_strict ::
  "(byte \<Rightarrow> bytes \<Rightarrow> 's \<Rightarrow> 's option) \<Rightarrow> bytes \<Rightarrow> 's \<Rightarrow> 's option" where
  "tlv2_strict step [] s = Some s"
| "tlv2_strict step (t # h # l # rest) s =
     (let n = be_to_nat [h, l] in
      if n \<le> length rest
      then (case step t (take n rest) s of
              None \<Rightarrow> None
            | Some s' \<Rightarrow> tlv2_strict step (drop n rest) s')
      else None)"
| "tlv2_strict step _ s = None"

section \<open>The contract\<close>

text \<open>
  A TLV format is a writer and a loop such that the loop consumes exactly one written
  record at a time.
\<close>

locale tlv_codec =
  fixes put :: "byte \<Rightarrow> bytes \<Rightarrow> bytes"
    and loop :: "(byte \<Rightarrow> bytes \<Rightarrow> 's \<Rightarrow> 's option) \<Rightarrow> bytes \<Rightarrow> 's \<Rightarrow> 's option"
    and max_value :: nat
  assumes loop_Nil: "loop step [] s = Some s"
    and loop_put: "length v \<le> max_value \<Longrightarrow>
          loop step (put t v @ rest) s =
          (case step t v s of None \<Rightarrow> None | Some s' \<Rightarrow> loop step rest s')"
begin

lemma loop_put_end:
  "length v \<le> max_value \<Longrightarrow> loop step (put t v) s = step t v s"
  using loop_put [of v step t "[]" s] by (simp add: loop_Nil split: option.splits)

text \<open>Decoding a concatenation of records is the fold of the loop's body over them.\<close>

lemma loop_records:
  "\<forall>(t, v) \<in> set recs. length v \<le> max_value \<Longrightarrow>
   loop step (concat (map (\<lambda>(t, v). put t v) recs) @ rest) s =
   (case fold_opt (\<lambda>(t, v). step t v) recs s of
      None \<Rightarrow> None | Some s' \<Rightarrow> loop step rest s')"
  by (induction recs arbitrary: s) (auto simp: loop_put split: option.splits)

lemma loop_records_end:
  "\<forall>(t, v) \<in> set recs. length v \<le> max_value \<Longrightarrow>
   loop step (concat (map (\<lambda>(t, v). put t v) recs)) s =
   fold_opt (\<lambda>(t, v). step t v) recs s"
  using loop_records [of recs step "[]" s] by (simp add: loop_Nil split: option.splits)

text \<open>A record the body ignores can be inserted anywhere without changing the result.\<close>

lemma loop_skip:
  assumes "\<forall>(t, v) \<in> set recs. length v \<le> max_value" and "length v \<le> max_value"
    and "\<And>s. step t v s = Some s"
  shows "loop step (concat (map (\<lambda>(t, v). put t v) recs) @ put t v @ rest) s =
         loop step (concat (map (\<lambda>(t, v). put t v) recs) @ rest) s"
  using assms by (simp add: loop_records loop_put split: option.splits)

end

section \<open>Every loop satisfies it\<close>

interpretation tlv1: tlv_codec push_tlv1 tlv1_loop 255
  by unfold_locales (auto simp: push_tlv1_def unat_of_nat_byte_less split: option.splits)

lemma tlv2_scan_put:
  "length v \<le> 65535 \<Longrightarrow>
   tlv2_scan step (push_tlv2 t v @ rest) s =
   (case step t v s of None \<Rightarrow> None | Some s' \<Rightarrow> tlv2_scan step rest s')"
  by (simp add: push_tlv2_def be16_eq be_to_nat_two unat_of_nat_byte_less split: option.splits)

interpretation tlv2l: tlv_codec push_tlv2 tlv2_lenient 65535
  by unfold_locales (auto simp: tlv2_lenient_def tlv2_scan_put split: option.splits)

interpretation tlv2x: tlv_codec push_tlv2 tlv2_exact 65535
  by unfold_locales (auto simp: tlv2_exact_def tlv2_scan_put split: option.splits)

interpretation tlv2s: tlv_codec push_tlv2 tlv2_strict 65535
  by unfold_locales
    (simp_all add: push_tlv2_def be16_eq be_to_nat_two unat_of_nat_byte_less split: option.splits)

lemma length_push_tlv [simp]:
  "length (push_tlv1 t v) = 2 + length v" "length (push_tlv2 t v) = 3 + length v"
  by (simp_all add: push_tlv1_def push_tlv2_def)

lemma push_tlv_nonempty [simp]: "push_tlv1 t v \<noteq> []" "push_tlv2 t v \<noteq> []"
  by (simp_all add: push_tlv1_def push_tlv2_def)

text \<open>
  Strict and exact differ only in when they notice a short tail: both accept exactly
  the inputs the records account for to the last byte.
\<close>

lemma tlv2_strict_eq_exact: "tlv2_strict step d s = tlv2_exact step d s"
  by (induction step d s rule: tlv2_strict.induct)
    (auto simp: tlv2_exact_def Let_def split: option.splits)

end
