(* ===== verification/Protocol.thy ===== *)
theory Protocol
  imports Prelude
begin

text \<open>
  The wire format of protocol.rs: message types, the \<open>Packet\<close> record, the frame encoder
  and decoder, PKCS#7 padding, and the bytes a packet signature covers.

  The DEFLATE decoder of the \<open>flate2\<close> crate is the parameter \<open>decompress\<close> of the
  decoder (\<open>None\<close> for its error); everything else is computed here.  The decompression
  bomb test compares two integers below 2^24 after an f64 division; at that size the
  rounded quotient exceeds 50000 exactly when the exact one does, so it is written as a
  product of naturals.
\<close>

section \<open>Message types\<close>

datatype message_type =
    Announce | Message | Leave | CourierEnvelope | NoiseHandshake | NoiseEncrypted
  | Fragment | RequestSync | FileTransfer | BoardPost | PrekeyBundle | GroupMessage
  | Ping | Pong | NostrCarrier | VoiceFrame

fun message_code :: "message_type \<Rightarrow> byte" where
  "message_code Announce = 0x01"
| "message_code Message = 0x02"
| "message_code Leave = 0x03"
| "message_code CourierEnvelope = 0x04"
| "message_code NoiseHandshake = 0x10"
| "message_code NoiseEncrypted = 0x11"
| "message_code Fragment = 0x20"
| "message_code RequestSync = 0x21"
| "message_code FileTransfer = 0x22"
| "message_code BoardPost = 0x23"
| "message_code PrekeyBundle = 0x24"
| "message_code GroupMessage = 0x25"
| "message_code Ping = 0x26"
| "message_code Pong = 0x27"
| "message_code NostrCarrier = 0x28"
| "message_code VoiceFrame = 0x29"

definition from_u8 :: "byte \<Rightarrow> message_type option" where
  "from_u8 v =
     (if v = 0x01 then Some Announce
      else if v = 0x02 then Some Message
      else if v = 0x03 then Some Leave
      else if v = 0x04 then Some CourierEnvelope
      else if v = 0x10 then Some NoiseHandshake
      else if v = 0x11 then Some NoiseEncrypted
      else if v = 0x20 then Some Fragment
      else if v = 0x21 then Some RequestSync
      else if v = 0x22 then Some FileTransfer
      else if v = 0x23 then Some BoardPost
      else if v = 0x24 then Some PrekeyBundle
      else if v = 0x25 then Some GroupMessage
      else if v = 0x26 then Some Ping
      else if v = 0x27 then Some Pong
      else if v = 0x28 then Some NostrCarrier
      else if v = 0x29 then Some VoiceFrame
      else None)"

text \<open>The sixteen types are an enumeration, so statements over all of them compute.\<close>

instantiation message_type :: enum
begin

definition enum_message_type :: "message_type list" where
  "enum_message_type =
     [Announce, Message, Leave, CourierEnvelope, NoiseHandshake, NoiseEncrypted,
      Fragment, RequestSync, FileTransfer, BoardPost, PrekeyBundle, GroupMessage,
      Ping, Pong, NostrCarrier, VoiceFrame]"

definition enum_all_message_type :: "(message_type \<Rightarrow> bool) \<Rightarrow> bool" where
  "enum_all_message_type P \<longleftrightarrow> list_all P enum_class.enum"

definition enum_ex_message_type :: "(message_type \<Rightarrow> bool) \<Rightarrow> bool" where
  "enum_ex_message_type P \<longleftrightarrow> list_ex P enum_class.enum"

instance
proof
  have univ: "(UNIV :: message_type set) = set enum_class.enum"
    by (auto simp: enum_message_type_def intro: message_type.exhaust)
  then show "(UNIV :: message_type set) = set enum_class.enum" .
  show "distinct (enum_class.enum :: message_type list)"
    by (simp add: enum_message_type_def)
  show "enum_class.enum_all P \<longleftrightarrow> Ball UNIV P" for P :: "message_type \<Rightarrow> bool"
    unfolding univ enum_all_message_type_def by (simp add: list_all_iff)
  show "enum_class.enum_ex P \<longleftrightarrow> Bex UNIV P" for P :: "message_type \<Rightarrow> bool"
    unfolding univ enum_ex_message_type_def by (simp add: list_ex_iff)
qed

end

lemma from_u8_message_code [simp, codec_simps]: "from_u8 (message_code t) = Some t"
  by (cases t) (simp_all add: from_u8_def)

lemma from_u8_SomeD: "from_u8 v = Some t \<Longrightarrow> v = message_code t"
  by (auto simp: from_u8_def split: if_split_asm)

lemma message_code_inject [simp]: "message_code s = message_code t \<longleftrightarrow> s = t"
  by (metis from_u8_message_code option.inject)

section \<open>Packets\<close>

abbreviation (input) V1_HEADER_SIZE :: nat where "V1_HEADER_SIZE \<equiv> 14"
abbreviation (input) V2_HEADER_SIZE :: nat where "V2_HEADER_SIZE \<equiv> 16"
abbreviation (input) SENDER_ID_SIZE :: nat where "SENDER_ID_SIZE \<equiv> 8"
abbreviation (input) RECIPIENT_ID_SIZE :: nat where "RECIPIENT_ID_SIZE \<equiv> 8"
abbreviation (input) SIGNATURE_SIZE :: nat where "SIGNATURE_SIZE \<equiv> 64"
abbreviation (input) HAS_RECIPIENT :: byte where "HAS_RECIPIENT \<equiv> 0x01"
abbreviation (input) HAS_SIGNATURE :: byte where "HAS_SIGNATURE \<equiv> 0x02"
abbreviation (input) IS_COMPRESSED :: byte where "IS_COMPRESSED \<equiv> 0x04"
abbreviation (input) HAS_ROUTE :: byte where "HAS_ROUTE \<equiv> 0x08"
abbreviation (input) IS_RSR :: byte where "IS_RSR \<equiv> 0x10"

definition MAX_FRAMED_PAYLOAD :: nat where
  "MAX_FRAMED_PAYLOAD = 8388608"

definition BROADCAST_RECIPIENT :: bytes where
  "BROADCAST_RECIPIENT = replicate 8 0xFF"

record packet =
  p_version :: byte
  p_msg_type :: byte
  p_ttl :: byte
  p_timestamp :: u64
  p_sender_id :: bytes
  p_recipient_id :: "bytes option"
  p_payload :: bytes
  p_signature :: "bytes option"
  p_route :: "bytes list option"
  p_is_rsr :: bool

text \<open>\<open>Packet::new\<close>; the clock is an argument.\<close>

definition packet_new :: "message_type \<Rightarrow> bytes \<Rightarrow> bytes \<Rightarrow> byte \<Rightarrow> u64 \<Rightarrow> packet" where
  "packet_new t sender pl hops now =
     \<lparr>p_version = 1, p_msg_type = message_code t, p_ttl = hops, p_timestamp = now,
      p_sender_id = sender, p_recipient_id = None, p_payload = pl, p_signature = None,
      p_route = None, p_is_rsr = False\<rparr>"

definition with_recipient :: "packet \<Rightarrow> bytes \<Rightarrow> packet" where
  "with_recipient p r = p\<lparr>p_recipient_id := Some r\<rparr>"

definition parsed_type :: "packet \<Rightarrow> message_type option" where
  "parsed_type p = from_u8 (p_msg_type p)"

definition sender_hex :: "packet \<Rightarrow> text_bytes" where
  "sender_hex p = hex_encode (p_sender_id p)"

definition recipient_hex :: "packet \<Rightarrow> text_bytes option" where
  "recipient_hex p = map_option hex_encode (p_recipient_id p)"

definition is_broadcast :: "packet \<Rightarrow> bool" where
  "is_broadcast p =
     (case p_recipient_id p of None \<Rightarrow> True | Some r \<Rightarrow> r = BROADCAST_RECIPIENT)"

text \<open>
  What the Rust types say of a packet's fields: 8-byte arrays for the IDs and hops.  A
  signature is a \<open>Vec\<close> in the source; the signer and the decoder both produce 64 bytes.
\<close>

definition wf_packet :: "packet \<Rightarrow> bool" where
  "wf_packet p \<longleftrightarrow>
     length (p_sender_id p) = 8
     \<and> (case p_recipient_id p of None \<Rightarrow> True | Some r \<Rightarrow> length r = 8)
     \<and> (case p_signature p of None \<Rightarrow> True | Some s \<Rightarrow> length s = 64)
     \<and> (case p_route p of None \<Rightarrow> True | Some hs \<Rightarrow> list_all (\<lambda>h. length h = 8) hs)"

section \<open>Padding\<close>

definition BLOCK_SIZES :: "nat list" where
  "BLOCK_SIZES = [256, 512, 1024, 2048]"

fun first_block :: "nat \<Rightarrow> nat list \<Rightarrow> nat option" where
  "first_block n [] = None"
| "first_block n (s # ss) = (if n \<le> s then Some s else first_block n ss)"

definition optimal_block_size :: "nat \<Rightarrow> nat" where
  "optimal_block_size data_size =
     (case first_block (data_size + 16) BLOCK_SIZES of
        Some s \<Rightarrow> s
      | None \<Rightarrow> data_size)"

definition pad :: "bytes \<Rightarrow> nat \<Rightarrow> bytes" where
  "pad d target =
     (if target \<le> length d then d
      else let needed = target - length d in
        if needed = 0 \<or> needed > 255 then d
        else d @ replicate needed (of_nat needed))"

definition unpad :: "bytes \<Rightarrow> bytes" where
  "unpad d =
     (if d = [] then d
      else let b = last d; n = unat b in
        if n = 0 \<or> n > length d then d
        else let start = length d - n in
          if list_ex (\<lambda>c. c \<noteq> b) (drop start d) then d else take start d)"

section \<open>Encoding\<close>

definition effective_route :: "packet \<Rightarrow> bytes list" where
  "effective_route p =
     (if 2 \<le> p_version p then (case p_route p of None \<Rightarrow> [] | Some hs \<Rightarrow> hs) else [])"

definition flag_byte :: "bool \<Rightarrow> bool \<Rightarrow> bool \<Rightarrow> bool \<Rightarrow> byte" where
  "flag_byte has_recipient has_signature has_route rsr =
     (if has_recipient then HAS_RECIPIENT else 0)
     OR (if has_signature then HAS_SIGNATURE else 0)
     OR (if has_route then HAS_ROUTE else 0)
     OR (if rsr then IS_RSR else 0)"

text \<open>The frame before padding.\<close>

definition frame_bytes :: "packet \<Rightarrow> bytes" where
  "frame_bytes p =
     (let hops = effective_route p;
          has_route = (hops \<noteq> []);
          size = length (p_payload p)
      in [p_version p, p_msg_type p, p_ttl p] @ be64 (p_timestamp p)
         @ [flag_byte (p_recipient_id p \<noteq> None) (p_signature p \<noteq> None)
              (has_route \<and> 2 \<le> p_version p) (p_is_rsr p)]
         @ (if p_version p = 2 then be32 size else be16 size)
         @ p_sender_id p
         @ (case p_recipient_id p of None \<Rightarrow> [] | Some r \<Rightarrow> r)
         @ (if has_route then of_nat (length hops) # concat hops else [])
         @ p_payload p
         @ (case p_signature p of None \<Rightarrow> [] | Some s \<Rightarrow> take (min SIGNATURE_SIZE (length s)) s))"

definition encode_with_padding :: "bool \<Rightarrow> packet \<Rightarrow> bytes option" where
  "encode_with_padding padding p =
     (if p_version p \<noteq> 1 \<and> p_version p \<noteq> 2 then None
      else if length (effective_route p) > 255 then None
      else if p_version p = 1 \<and> length (p_payload p) > 65535 then None
      else let d = frame_bytes p in
        if padding then Some (pad d (optimal_block_size (length d))) else Some d)"

definition encode :: "packet \<Rightarrow> bytes option" where
  "encode p = encode_with_padding True p"

definition signing_bytes :: "packet \<Rightarrow> bytes option" where
  "signing_bytes p =
     encode_with_padding True (p\<lparr>p_signature := None, p_ttl := 0, p_is_rsr := False\<rparr>)"

section \<open>Decoding\<close>

fun read_hops :: "nat \<Rightarrow> bytes \<Rightarrow> (bytes list \<times> bytes) option" where
  "read_hops 0 r = Some ([], r)"
| "read_hops (Suc n) r = do {
     (h, r) \<leftarrow> read_slice SENDER_ID_SIZE r;
     (hs, r) \<leftarrow> read_hops n r;
     Some (h # hs, r)
   }"

definition read_route :: "bool \<Rightarrow> bytes \<Rightarrow> (bytes list option \<times> bytes) option" where
  "read_route has_route r =
     (if has_route then do {
        (count, r) \<leftarrow> read_u8 r;
        if unat count = 0 then Some (None, r)
        else do { (hs, r) \<leftarrow> read_hops (unat count) r; Some (Some hs, r) }
      } else Some (None, r))"

definition read_optional :: "bool \<Rightarrow> nat \<Rightarrow> bytes \<Rightarrow> (bytes option \<times> bytes) option" where
  "read_optional present n r =
     (if present then do { (x, r) \<leftarrow> read_slice n r; Some (Some x, r) } else Some (None, r))"

definition read_payload ::
  "(bytes \<Rightarrow> nat \<Rightarrow> bytes option) \<Rightarrow> byte \<Rightarrow> bool \<Rightarrow> nat \<Rightarrow> bytes \<Rightarrow> (bytes \<times> bytes) option" where
  "read_payload decompress ver is_compressed payload_length r =
     (if is_compressed then
        let length_field_bytes = (if ver = 2 then 4 else 2) in
        if payload_length < length_field_bytes then None
        else do {
          (size, r) \<leftarrow> read_slice length_field_bytes r;
          let original_size = be_to_nat size;
          if original_size > MAX_FRAMED_PAYLOAD then None
          else let compressed_size = payload_length - length_field_bytes in
            if compressed_size = 0 then None
            else do {
              (compressed, r) \<leftarrow> read_slice compressed_size r;
              if original_size > 50000 * compressed_size then None
              else do {
                decompressed \<leftarrow> decompress compressed original_size;
                if length decompressed \<noteq> original_size then None
                else Some (decompressed, r)
              }
            }
        }
      else read_slice payload_length r)"

definition decode_core :: "(bytes \<Rightarrow> nat \<Rightarrow> bytes option) \<Rightarrow> bytes \<Rightarrow> packet option" where
  "decode_core decompress raw =
     (if length raw < V1_HEADER_SIZE + SENDER_ID_SIZE then None
      else do {
        (ver, r) \<leftarrow> read_u8 raw;
        if ver \<noteq> 1 \<and> ver \<noteq> 2 then None
        else if length raw < (if ver = 2 then V2_HEADER_SIZE else V1_HEADER_SIZE) + SENDER_ID_SIZE
        then None
        else do {
          (mt, r) \<leftarrow> read_u8 r;
          (hops, r) \<leftarrow> read_u8 r;
          (ts, r) \<leftarrow> read_slice 8 r;
          (flags, r) \<leftarrow> read_u8 r;
          (len, r) \<leftarrow> read_slice (if ver = 2 then 4 else 2) r;
          let payload_length = be_to_nat len;
          if payload_length > MAX_FRAMED_PAYLOAD then None
          else do {
            (sender, r) \<leftarrow> read_slice SENDER_ID_SIZE r;
            (recipient, r) \<leftarrow> read_optional (flags AND HAS_RECIPIENT \<noteq> 0) RECIPIENT_ID_SIZE r;
            (rt, r) \<leftarrow> read_route (2 \<le> ver \<and> flags AND HAS_ROUTE \<noteq> 0) r;
            (pl, r) \<leftarrow> read_payload decompress ver (flags AND IS_COMPRESSED \<noteq> 0) payload_length r;
            (sig, r) \<leftarrow> read_optional (flags AND HAS_SIGNATURE \<noteq> 0) SIGNATURE_SIZE r;
            Some \<lparr>p_version = ver, p_msg_type = mt, p_ttl = hops,
                  p_timestamp = u64_of_be ts, p_sender_id = sender,
                  p_recipient_id = recipient, p_payload = pl, p_signature = sig,
                  p_route = rt, p_is_rsr = (flags AND IS_RSR \<noteq> 0)\<rparr>
          }
        }
      })"

definition decode :: "(bytes \<Rightarrow> nat \<Rightarrow> bytes option) \<Rightarrow> bytes \<Rightarrow> packet option" where
  "decode decompress d =
     (case decode_core decompress d of
        Some p \<Rightarrow> Some p
      | None \<Rightarrow>
          let u = unpad d in
          if length u = length d then None else decode_core decompress u)"

text \<open>\<open>peer_id_to_bytes\<close>: the first eight decoded bytes, zero filled.\<close>

definition peer_id_to_bytes :: "text_bytes \<Rightarrow> bytes" where
  "peer_id_to_bytes peer_id =
     (case hex_decode peer_id of
        Some decoded \<Rightarrow>
          let n = min (length decoded) 8 in take n decoded @ replicate (8 - n) 0
      | None \<Rightarrow> replicate 8 0)"

section \<open>Facts about the pieces\<close>

lemma flag_byte_bits [simp, codec_simps]:
  "flag_byte a b c d AND 1 = 0 \<longleftrightarrow> \<not> a"
  "flag_byte a b c d AND 2 = 0 \<longleftrightarrow> \<not> b"
  "flag_byte a b c d AND 4 = 0"
  "flag_byte a b c d AND 8 = 0 \<longleftrightarrow> \<not> c"
  "flag_byte a b c d AND 16 = 0 \<longleftrightarrow> \<not> d"
  by (cases a; cases b; cases c; cases d; simp add: flag_byte_def)+

lemma read_hops_concat [simp, codec_simps]:
  "list_all (\<lambda>h. length h = 8) hs \<Longrightarrow> read_hops (length hs) (concat hs @ r) = Some (hs, r)"
  by (induction hs) auto

lemma read_hops_wf:
  "read_hops n r = Some (hs, r') \<Longrightarrow> length hs = n \<and> list_all (\<lambda>h. length h = 8) hs"
  by (induction n arbitrary: r hs)
    (auto simp: bind_eq_Some_conv dest!: read_slice_SomeD split: prod.splits)

lemma read_route_encoded:
  "list_all (\<lambda>h. length h = 8) hs \<Longrightarrow> length hs \<le> 255 \<Longrightarrow> hs \<noteq> [] \<Longrightarrow>
   read_route True (of_nat (length hs) # concat hs @ r) = Some (Some hs, r)"
  by (simp add: read_route_def unat_of_nat_byte_less)

lemma read_route_absent [simp]: "read_route False r = Some (None, r)"
  by (simp add: read_route_def)

lemma read_optional_written:
  "(case x of None \<Rightarrow> True | Some xs \<Rightarrow> length xs = n) \<Longrightarrow>
   read_optional (x \<noteq> None) n ((case x of None \<Rightarrow> [] | Some xs \<Rightarrow> xs) @ r) = Some (x, r)"
  by (simp add: read_optional_def split: option.splits)

lemma read_payload_plain [simp, codec_simps]:
  "length xs = n \<Longrightarrow> read_payload decompress ver False n (xs @ r) = Some (xs, r)"
  by (simp add: read_payload_def)

lemma pad_prefix: "\<exists>tail. pad d target = d @ tail"
  by (auto simp: pad_def Let_def)

text \<open>
  The form a packet has once it went through the wire: an empty route is the same as
  none, and version 1 has no route section at all.
\<close>

definition canonical :: "packet \<Rightarrow> packet" where
  "canonical p =
     p\<lparr>p_route := (if effective_route p = [] then None else Some (effective_route p))\<rparr>"

lemma effective_route_update [simp]:
  "effective_route (p\<lparr>p_ttl := t\<rparr>) = effective_route p"
  "effective_route (p\<lparr>p_signature := s\<rparr>) = effective_route p"
  "effective_route (p\<lparr>p_is_rsr := b\<rparr>) = effective_route p"
  by (simp_all add: effective_route_def)

lemma canonical_eq_iff:
  "canonical p = p \<longleftrightarrow>
   p_route p = (if effective_route p = [] then None else Some (effective_route p))"
  by (cases p) (auto simp: canonical_def)

lemma wf_effective_route:
  "wf_packet p \<Longrightarrow> list_all (\<lambda>h. length h = 8) (effective_route p)"
  by (auto simp: wf_packet_def effective_route_def split: option.splits)

lemma wf_canonical [simp]: "wf_packet p \<Longrightarrow> wf_packet (canonical p)"
  using wf_effective_route [of p] by (auto simp: canonical_def wf_packet_def)

lemma canonical_fields [simp]:
  "p_version (canonical p) = p_version p" "p_msg_type (canonical p) = p_msg_type p"
  "p_ttl (canonical p) = p_ttl p" "p_timestamp (canonical p) = p_timestamp p"
  "p_sender_id (canonical p) = p_sender_id p" "p_recipient_id (canonical p) = p_recipient_id p"
  "p_payload (canonical p) = p_payload p" "p_signature (canonical p) = p_signature p"
  "p_is_rsr (canonical p) = p_is_rsr p"
  by (simp_all add: canonical_def)

definition encodable :: "packet \<Rightarrow> bool" where
  "encodable p \<longleftrightarrow>
     (p_version p = 1 \<or> p_version p = 2) \<and> length (effective_route p) \<le> 255
     \<and> (p_version p = 1 \<longrightarrow> length (p_payload p) \<le> 65535)"

lemma encode_with_padding_eq:
  "encode_with_padding padding p =
     (if encodable p
      then Some (if padding then pad (frame_bytes p) (optimal_block_size (length (frame_bytes p)))
                 else frame_bytes p)
      else None)"
  by (auto simp: encode_with_padding_def encodable_def Let_def)

lemma encode_with_padding_frame:
  assumes "encode_with_padding padding p = Some d"
  obtains tail where "d = frame_bytes p @ tail" and "encodable p"
  using assms pad_prefix [of "frame_bytes p" "optimal_block_size (length (frame_bytes p))"]
  by (auto simp: encode_with_padding_eq split: if_split_asm)

section \<open>Decoding what was encoded\<close>

text \<open>The decoder on a frame given by its sections, each with what its reader makes of it.\<close>

lemma decode_core_sections:
  assumes "ver = 1 \<or> ver = 2" and "length sender = 8" and "length pl \<le> MAX_FRAMED_PAYLOAD"
    and "ver = 1 \<Longrightarrow> length pl < 65536"
    and "flags AND IS_COMPRESSED = 0"
    and "\<And>r. read_optional (flags AND HAS_RECIPIENT \<noteq> 0) 8 (recb @ r) = Some (rec, r)"
    and "\<And>r. read_route (2 \<le> ver \<and> flags AND HAS_ROUTE \<noteq> 0) (rtb @ r) = Some (rt, r)"
    and "\<And>r. read_optional (flags AND HAS_SIGNATURE \<noteq> 0) 64 (sigb @ r) = Some (sig, r)"
  shows "decode_core decompress
     (ver # mt # hops # be64 ts @ flags #
      (if ver = 2 then be32 (length pl) else be16 (length pl)) @
      sender @ recb @ rtb @ pl @ sigb @ r) =
     Some \<lparr>p_version = ver, p_msg_type = mt, p_ttl = hops, p_timestamp = ts,
       p_sender_id = sender, p_recipient_id = rec, p_payload = pl, p_signature = sig,
       p_route = rt, p_is_rsr = (flags AND IS_RSR \<noteq> 0)\<rparr>"
proof -
  have len: "be_to_nat (if ver = 2 then be32 (length pl) else be16 (length pl)) = length pl"
    using assms(1,3,4) by (auto simp: MAX_FRAMED_PAYLOAD_def)
  have lf: "length (if ver = 2 then be32 (length pl) else be16 (length pl)) = (if ver = 2 then 4 else 2)"
    by simp
  show ?thesis
    using assms(1-3,5) unfolding decode_core_def
    by (simp add: len lf assms(6-8) del: if_split_asm)
qed

lemma decode_core_frame:
  assumes wf: "wf_packet p" and enc: "encodable p"
    and size: "length (p_payload p) \<le> MAX_FRAMED_PAYLOAD"
  shows "decode_core decompress (frame_bytes p @ tail) = Some (canonical p)"
proof -
  let ?hops = "effective_route p"
  let ?rt = "if ?hops \<noteq> [] then of_nat (length ?hops) # concat ?hops else []"
  let ?fl = "flag_byte (p_recipient_id p \<noteq> None) (p_signature p \<noteq> None)
      (?hops \<noteq> [] \<and> 2 \<le> p_version p) (p_is_rsr p)"
  have sender: "length (p_sender_id p) = 8" using wf by (simp add: wf_packet_def)
  have hops: "list_all (\<lambda>h. length h = 8) ?hops" "length ?hops \<le> 255"
    using wf enc by (simp_all add: wf_effective_route encodable_def)
  have v2: "?hops \<noteq> [] \<Longrightarrow> 2 \<le> p_version p" by (simp add: effective_route_def split: if_split_asm)
  have sig: "(case p_signature p of None \<Rightarrow> [] | Some s \<Rightarrow> take (min 64 (length s)) s) =
      (case p_signature p of None \<Rightarrow> [] | Some s \<Rightarrow> s)"
    using wf by (simp add: wf_packet_def split: option.splits)
  have rt: "read_route (2 \<le> p_version p \<and> ?fl AND HAS_ROUTE \<noteq> 0) (?rt @ r) =
      Some (p_route (canonical p), r)" for r
    using read_route_encoded [OF hops] v2 by (auto simp: canonical_def)
  have "decode_core decompress (frame_bytes p @ tail) =
      Some \<lparr>p_version = p_version p, p_msg_type = p_msg_type p, p_ttl = p_ttl p,
        p_timestamp = p_timestamp p, p_sender_id = p_sender_id p,
        p_recipient_id = p_recipient_id p, p_payload = p_payload p,
        p_signature = p_signature p, p_route = p_route (canonical p),
        p_is_rsr = (?fl AND IS_RSR \<noteq> 0)\<rparr>"
    unfolding frame_bytes_def Let_def sig append_assoc append_Cons append_Nil
  proof (rule decode_core_sections)
    show "read_route (2 \<le> p_version p \<and> ?fl AND HAS_ROUTE \<noteq> 0) (?rt @ r) =
        Some (p_route (canonical p), r)" for r by (rule rt)
  qed (use wf enc size sender read_optional_written in
        \<open>auto simp: encodable_def wf_packet_def\<close>)
  then show ?thesis by (simp add: canonical_def)
qed

section \<open>What the decoder can return\<close>

lemma read_slice_length: "read_slice n r = Some (xs, r') \<Longrightarrow> length xs = n"
  by (drule read_slice_SomeD) simp

lemma read_optional_wf:
  "read_optional present n r = Some (x, r') \<Longrightarrow> (case x of None \<Rightarrow> True | Some xs \<Rightarrow> length xs = n)"
  by (auto simp: read_optional_def bind_eq_Some_conv dest: read_slice_length
      split: if_split_asm prod.splits)

lemma read_route_wf:
  "read_route present r = Some (rt, r') \<Longrightarrow>
   (case rt of None \<Rightarrow> True
    | Some hs \<Rightarrow> present \<and> hs \<noteq> [] \<and> length hs \<le> 255 \<and> list_all (\<lambda>h. length h = 8) hs)"
proof -
  assume a: "read_route present r = Some (rt, r')"
  show ?thesis
  proof (cases rt)
    case (Some hs)
    with a obtain count r1 where pr: "present" and "unat (count :: byte) \<noteq> 0"
      and "read_hops (unat count) r1 = Some (hs, r')"
      by (auto simp: read_route_def bind_eq_Some_conv split: if_split_asm prod.splits)
    moreover from this have "length hs = unat count" "list_all (\<lambda>h. length h = 8) hs"
      using read_hops_wf by blast+
    moreover have "unat count \<le> 255" using unat_byte_less [of count] by linarith
    ultimately show ?thesis using Some by auto
  qed simp
qed

lemma read_payload_bound:
  "read_payload decompress ver zipped n r = Some (pl, r') \<Longrightarrow> n \<le> MAX_FRAMED_PAYLOAD \<Longrightarrow>
   n < 256 ^ (if ver = 2 then 4 else 2) \<Longrightarrow>
   length pl \<le> MAX_FRAMED_PAYLOAD \<and> (ver \<noteq> 2 \<longrightarrow> length pl \<le> 65535)"
proof (cases zipped)
  case True
  assume a: "read_payload decompress ver zipped n r = Some (pl, r')"
  from a True obtain size r1 where "read_slice (if ver = 2 then 4 else 2) r = Some (size, r1)"
    and "be_to_nat size \<le> MAX_FRAMED_PAYLOAD" and "length pl = be_to_nat size"
    by (auto simp: read_payload_def Let_def bind_eq_Some_conv split: if_split_asm prod.splits)
  with be_to_nat_less [of size] read_slice_length show ?thesis
    by (auto split: if_split_asm)
next
  case False
  assume "read_payload decompress ver zipped n r = Some (pl, r')" "n \<le> MAX_FRAMED_PAYLOAD"
    "n < 256 ^ (if ver = 2 then 4 else 2)"
  with False show ?thesis
    by (auto simp: read_payload_def dest!: read_slice_length split: if_split_asm)
qed

lemma decode_core_wf:
  assumes "decode_core decompress raw = Some p"
  shows "wf_packet p" and "encodable p" and "length (p_payload p) \<le> MAX_FRAMED_PAYLOAD"
    and "canonical p = p"
proof -
  from assms obtain ver mt hops ts fl len sender recp rt pl sig ra rb rc rd re rf rg
    where ver: "ver = 1 \<or> ver = 2"
      and len: "read_slice (if ver = 2 then 4 else 2) ra = Some (len, rb)"
        "be_to_nat len \<le> MAX_FRAMED_PAYLOAD"
      and sender: "read_slice 8 rb = Some (sender, rc)"
      and recp: "read_optional (fl AND HAS_RECIPIENT \<noteq> 0) 8 rc = Some (recp, rd)"
      and rt: "read_route (2 \<le> ver \<and> fl AND HAS_ROUTE \<noteq> 0) rd = Some (rt, re)"
      and pl: "read_payload decompress ver (fl AND IS_COMPRESSED \<noteq> 0) (be_to_nat len) re = Some (pl, rf)"
      and sig: "read_optional (fl AND HAS_SIGNATURE \<noteq> 0) 64 rf = Some (sig, rg)"
      and p: "p = \<lparr>p_version = ver, p_msg_type = mt, p_ttl = hops,
                  p_timestamp = u64_of_be ts, p_sender_id = sender,
                  p_recipient_id = recp, p_payload = pl, p_signature = sig,
                  p_route = rt, p_is_rsr = (fl AND IS_RSR \<noteq> 0)\<rparr>"
    unfolding decode_core_def Let_def
    by (auto simp: bind_eq_Some_conv split: if_split_asm prod.splits)
  have bound: "length pl \<le> MAX_FRAMED_PAYLOAD \<and> (ver \<noteq> 2 \<longrightarrow> length pl \<le> 65535)"
    using read_payload_bound [OF pl len(2)] be_to_nat_less [of len] read_slice_length [OF len(1)]
    by simp
  have route: "effective_route p = (case rt of None \<Rightarrow> [] | Some hs \<Rightarrow> hs)"
    and "rt \<noteq> Some []" and "length (effective_route p) \<le> 255"
    using read_route_wf [OF rt] by (auto simp: p effective_route_def split: option.splits)
  then show "canonical p = p" "encodable p"
    using ver bound by (auto simp: canonical_def p encodable_def split: option.splits)
  show "wf_packet p"
    using read_slice_length [OF sender] read_optional_wf [OF recp] read_optional_wf [OF sig]
      read_route_wf [OF rt]
    by (auto simp: wf_packet_def p split: option.splits)
  show "length (p_payload p) \<le> MAX_FRAMED_PAYLOAD" using bound by (simp add: p)
qed

lemma decode_wf:
  assumes "decode decompress raw = Some p"
  shows "wf_packet p" and "encodable p" and "length (p_payload p) \<le> MAX_FRAMED_PAYLOAD"
    and "canonical p = p"
proof -
  obtain raw' where "decode_core decompress raw' = Some p"
    using assms by (auto simp: decode_def Let_def split: option.splits if_split_asm)
  note wf = decode_core_wf [OF this]
  show "wf_packet p" "encodable p" "length (p_payload p) \<le> MAX_FRAMED_PAYLOAD" "canonical p = p"
    by (fact wf)+
qed

lemma roundtrip:
  assumes "wf_packet p" and "length (p_payload p) \<le> MAX_FRAMED_PAYLOAD"
    and "encode_with_padding padding p = Some d"
  shows "decode decompress d = Some (canonical p)"
proof -
  obtain tail where "d = frame_bytes p @ tail" and "encodable p"
    using encode_with_padding_frame [OF assms(3)] .
  then show ?thesis
    using decode_core_frame [OF assms(1) _ assms(2)] by (simp add: decode_def)
qed

definition cut_signature :: "packet \<Rightarrow> packet" where
  "cut_signature p = p\<lparr>p_signature := map_option (take SIGNATURE_SIZE) (p_signature p)\<rparr>"

lemma cut_signature_fields [simp]:
  "p_version (cut_signature p) = p_version p" "p_payload (cut_signature p) = p_payload p"
  "effective_route (cut_signature p) = effective_route p"
  by (simp_all add: cut_signature_def)

lemma cut_signature_wf [simp]: "wf_packet p \<Longrightarrow> cut_signature p = p"
  by (cases p) (auto simp: cut_signature_def wf_packet_def split: option.splits)

lemma frame_cut_signature: "frame_bytes (cut_signature p) = frame_bytes p"
  by (auto simp: frame_bytes_def cut_signature_def Let_def min.commute split: option.splits)

lemma encode_cut_signature: "encode_with_padding padding (cut_signature p) = encode_with_padding padding p"
  by (simp add: encode_with_padding_def frame_cut_signature)

text \<open>A header that announces more than the framing limit is refused, whatever follows it.\<close>

lemma decode_core_oversized:
  assumes "length ts = 8" and "be_to_nat len > MAX_FRAMED_PAYLOAD" and "length len = (if ver = 2 then 4 else 2)"
  shows "decode_core decompress (take k (ver # mt # hops # ts @ fl # len @ r)) = None"
proof (cases "length (take k (ver # mt # hops # ts @ fl # len @ r)) <
    (if ver = 2 then V2_HEADER_SIZE else V1_HEADER_SIZE) + SENDER_ID_SIZE")
  case True
  then show ?thesis by (cases k) (auto simp: decode_core_def split: if_split_asm)
next
  case False
  then have k: "12 + length len \<le> k"
    using assms(3) by (auto split: if_split_asm)
  then have "take k (ver # mt # hops # ts @ fl # len @ r) = ver # mt # hops # ts @ fl # len @ take (k - (12 + length len)) r"
    using assms(1) by (simp add: take_Cons' Suc_le_eq)
  then show ?thesis
    using assms by (simp add: decode_core_def Let_def)
qed

lemma decode_oversized:
  assumes "encode_with_padding padding p = Some d" and "MAX_FRAMED_PAYLOAD < length (p_payload p)"
    and "length (p_payload p) < 2 ^ 32"
  shows "decode decompress d = None"
proof -
  obtain tail where d: "d = frame_bytes p @ tail" and ok: "encodable p"
    using encode_with_padding_frame [OF assms(1)] .
  have ver: "p_version p = 2" using ok assms(2) by (auto simp: encodable_def MAX_FRAMED_PAYLOAD_def)
  then obtain fl r where frame: "d = 2 # p_msg_type p # p_ttl p # be64 (p_timestamp p) @ fl # be32 (length (p_payload p)) @ r"
    by (simp add: d frame_bytes_def Let_def)
  have none: "decode_core decompress (take k d) = None" for k
    unfolding frame using assms(2,3) by (intro decode_core_oversized) simp_all
  have "unpad d = d \<or> (\<exists>k. unpad d = take k d)"
    by (auto simp: unpad_def Let_def)
  then show ?thesis using none none [of "length d"] by (auto simp: decode_def Let_def)
qed

section \<open>Properties\<close>

text \<open>
  C1.  Encoding and then decoding a packet, with or without padding, gives the packet
  back (its route normalised, its signature cut to the 64 bytes the encoder writes),
  whatever the DEFLATE decoder is: sender, recipient, route, payload, TTL, timestamp and
  flags all survive the wire.  A payload beyond the limit of 8 MiB, which the encoder
  writes all the same, is refused by the decoder.
\<close>

theorem decode_encode:
  assumes "wf_packet (cut_signature p)" and "length (p_payload p) < 2 ^ 32"
    and "encode_with_padding padding p = Some d"
  shows "decode decompress d =
    (if length (p_payload p) \<le> MAX_FRAMED_PAYLOAD then Some (canonical (cut_signature p)) else None)"
  using assms roundtrip [of "cut_signature p" padding d decompress] decode_oversized [of padding p d decompress]
  by (simp add: encode_cut_signature)


definition sample_packet :: packet where
  "sample_packet =
     \<lparr>p_version = 2, p_msg_type = 2, p_ttl = 7, p_timestamp = 1700000000000,
      p_sender_id = [1, 2, 3, 4, 5, 6, 7, 8], p_recipient_id = Some BROADCAST_RECIPIENT,
      p_payload = [104, 105], p_signature = None,
      p_route = Some [[8, 7, 6, 5, 4, 3, 2, 1]], p_is_rsr = False\<rparr>"

lemma sample_packet_ok:
  "wf_packet sample_packet" "length (p_payload sample_packet) \<le> MAX_FRAMED_PAYLOAD"
  "encodable sample_packet" "canonical sample_packet = sample_packet"
  by (simp_all add: sample_packet_def wf_packet_def BROADCAST_RECIPIENT_def MAX_FRAMED_PAYLOAD_def
      encodable_def effective_route_def canonical_def)

text \<open>A signature of 65 bytes loses its last one.\<close>

theorem decode_encode_witness:
  "decode (\<lambda>_ _. None) (frame_bytes (sample_packet\<lparr>p_signature := Some (replicate 65 1)\<rparr>)) =
     Some (sample_packet\<lparr>p_signature := Some (replicate 64 1)\<rparr>)"
proof -
  let ?p = "sample_packet\<lparr>p_signature := Some (replicate 65 1)\<rparr>"
  let ?q = "sample_packet\<lparr>p_signature := Some (replicate 64 1)\<rparr>"
  have cut: "cut_signature ?p = ?q" by (simp add: cut_signature_def)
  have "wf_packet ?q" "canonical ?q = ?q" "encodable ?p"
    using sample_packet_ok by (simp_all add: wf_packet_def encodable_def canonical_eq_iff)
  moreover have "length (p_payload ?p) \<le> 2" by (simp add: sample_packet_def)
  ultimately show ?thesis
    using decode_encode [of ?p False "frame_bytes ?p" "\<lambda>_ _. None"]
    by (simp add: cut encode_with_padding_eq MAX_FRAMED_PAYLOAD_def)
qed

lemma reencode_decodes:
  assumes "decode decompress raw = Some p"
  shows "\<exists>d. encode (p\<lparr>p_ttl := t\<rparr>) = Some d \<and> decode decompress' d = Some (p\<lparr>p_ttl := t\<rparr>)"
proof -
  note wf = decode_wf [OF assms]
  let ?q = "p\<lparr>p_ttl := t\<rparr>"
  have q: "wf_packet ?q" "encodable ?q" "length (p_payload ?q) \<le> MAX_FRAMED_PAYLOAD" "canonical ?q = ?q"
    using wf by (simp_all add: wf_packet_def encodable_def canonical_eq_iff)
  then obtain d where d: "encode_with_padding True ?q = Some d"
    by (simp add: encode_with_padding_eq)
  then show ?thesis
    using roundtrip [OF q(1,3) d] q(4) by (simp add: encode_def)
qed

text \<open>
  Whatever bytes a frame decoded from (compressed, padded, with unknown flags), the
  resulting packet can be re-encoded for the next hop with any TTL, and the next hop
  decodes exactly that packet: relaying never fails and never changes anything but the TTL.
\<close>

theorem relayed_packet_survives:
  assumes "decode decompress raw = Some p"
  shows "\<exists>d. encode (p\<lparr>p_ttl := t\<rparr>) = Some d \<and> decode decompress' d = Some (p\<lparr>p_ttl := t\<rparr>)"
  using assms by (rule reencode_decodes)

theorem relayed_packet_survives_witness:
  "\<exists>d. encode (sample_packet\<lparr>p_ttl := 6\<rparr>) = Some d
     \<and> decode (\<lambda>_ _. None) d = Some (sample_packet\<lparr>p_ttl := 6\<rparr>)"
proof (rule relayed_packet_survives)
  show "decode (\<lambda>_ _. None) (frame_bytes sample_packet) = Some sample_packet"
    using decode_core_frame [OF sample_packet_ok(1,3,2), of _ "[]"] sample_packet_ok(4)
    by (simp add: decode_def)
qed

text \<open>The fields a packet signature covers.\<close>

definition signed_fields ::
  "packet \<Rightarrow> byte \<times> byte \<times> u64 \<times> bytes \<times> bytes option \<times> bytes \<times> bytes list" where
  "signed_fields p =
     (p_version p, p_msg_type p, p_timestamp p, p_sender_id p, p_recipient_id p,
      p_payload p, effective_route p)"

definition unsigned :: "packet \<Rightarrow> packet" where
  "unsigned p = p\<lparr>p_signature := None, p_ttl := 0, p_is_rsr := False\<rparr>"

lemma unsigned_facts:
  "effective_route (unsigned p) = effective_route p"
  "wf_packet p \<Longrightarrow> wf_packet (unsigned p)"
  "encodable (unsigned p) = encodable p"
  "p_payload (unsigned p) = p_payload p"
  "signing_bytes p = encode_with_padding True (unsigned p)"
  by (simp_all add: unsigned_def wf_packet_def encodable_def signing_bytes_def)

lemma signed_fields_unsigned:
  "canonical (unsigned p) = canonical (unsigned q) \<longleftrightarrow> signed_fields p = signed_fields q"
  by (cases p; cases q)
    (auto simp: canonical_def unsigned_def signed_fields_def effective_route_def
      split: if_split_asm option.split_asm)

lemma frame_bytes_unsigned:
  "signed_fields p = signed_fields q \<Longrightarrow> frame_bytes (unsigned p) = frame_bytes (unsigned q)
     \<and> encodable p = encodable q"
  by (simp add: signed_fields_def frame_bytes_def unsigned_facts(1) encodable_def Let_def)
    (simp add: unsigned_def)

lemma signing_bytes_iff:
  assumes "wf_packet p" and "wf_packet q"
    and "length (p_payload p) \<le> MAX_FRAMED_PAYLOAD" and "length (p_payload q) \<le> MAX_FRAMED_PAYLOAD"
    and "signing_bytes p = Some b"
  shows "signing_bytes q = Some b \<longleftrightarrow> signed_fields p = signed_fields q"
proof
  assume q: "signing_bytes q = Some b"
  have "decode (\<lambda>_ _. None) b = Some (canonical (unsigned p))"
    using assms(1,3,5) roundtrip [of "unsigned p" True b] by (simp add: unsigned_facts)
  moreover have "decode (\<lambda>_ _. None) b = Some (canonical (unsigned q))"
    using assms(2,4) q roundtrip [of "unsigned q" True b] by (simp add: unsigned_facts)
  ultimately show "signed_fields p = signed_fields q"
    by (simp add: signed_fields_unsigned [symmetric])
next
  assume "signed_fields p = signed_fields q"
  from frame_bytes_unsigned [OF this] assms(5) show "signing_bytes q = Some b"
    by (simp add: unsigned_facts encode_with_padding_eq split: if_split_asm)
qed

text \<open>
  The canonical signing bytes bind exactly the signed fields: two packets have the
  same signing bytes if and only if they agree on version, type, timestamp, sender,
  recipient, payload and effective route.  The TTL, the RSR flag and the signature
  itself never matter, and no boundary between fields can be moved.
\<close>

theorem signing_bytes_bind:
  assumes "wf_packet p" and "wf_packet q"
    and "length (p_payload p) \<le> MAX_FRAMED_PAYLOAD" and "length (p_payload q) \<le> MAX_FRAMED_PAYLOAD"
    and "signing_bytes p = Some b"
  shows "signing_bytes q = Some b \<longleftrightarrow> signed_fields p = signed_fields q"
  using assms by (rule signing_bytes_iff)

theorem signing_bytes_bind_witness:
  "\<exists>b. signing_bytes sample_packet = Some b
     \<and> signing_bytes (sample_packet\<lparr>p_payload := [104]\<rparr>) \<noteq> Some b
     \<and> signing_bytes (sample_packet\<lparr>p_ttl := 1\<rparr>) = Some b"
proof -
  obtain b where b: "signing_bytes sample_packet = Some b"
    using sample_packet_ok(3) by (simp add: unsigned_facts encode_with_padding_eq)
  have ok: "wf_packet (sample_packet\<lparr>p_payload := [104]\<rparr>)" "wf_packet (sample_packet\<lparr>p_ttl := 1\<rparr>)"
    "length (p_payload (sample_packet\<lparr>p_payload := [104]\<rparr>)) \<le> MAX_FRAMED_PAYLOAD"
    "length (p_payload (sample_packet\<lparr>p_ttl := 1\<rparr>)) \<le> MAX_FRAMED_PAYLOAD"
    using sample_packet_ok(1,2) by (simp_all add: wf_packet_def MAX_FRAMED_PAYLOAD_def)
  show ?thesis
    using signing_bytes_bind [OF sample_packet_ok(1) ok(1) sample_packet_ok(2) ok(3) b]
      signing_bytes_bind [OF sample_packet_ok(1) ok(2) sample_packet_ok(2) ok(4) b] b
    by (simp add: signed_fields_def effective_route_def) (simp add: sample_packet_def)
qed

lemma unpad_pad:
  assumes "length d < target" and "target - length d \<le> 255"
  shows "unpad (pad d target) = d" and "length (pad d target) = target"
proof -
  obtain n where n: "target = length d + n" "0 < n" "n \<le> 255"
    using assms le_Suc_ex [of "length d" target] by auto
  have p: "pad d target = d @ replicate n (of_nat n)"
    using n by (simp add: pad_def Let_def)
  have u: "unat (of_nat n :: byte) = n" using n by (simp add: unat_of_nat_byte_less)
  show "unpad (pad d target) = d"
    unfolding p using n(2) by (simp add: unpad_def Let_def u list_ex_iff)
  show "length (pad d target) = target" unfolding p using n(1) by simp
qed

lemma pad_none: "length d < target \<Longrightarrow> 255 < target - length d \<Longrightarrow> pad d target = d"
  by (simp add: pad_def Let_def)

lemma optimal_block_size_eq:
  "optimal_block_size n =
     (if n \<le> 240 then 256 else if n \<le> 496 then 512 else if n \<le> 1008 then 1024
      else if n \<le> 2032 then 2048 else n)"
  by (simp add: optimal_block_size_def BLOCK_SIZES_def)

text \<open>
  What padding does to the frame length.  A frame whose distance to its bucket fits
  the one-byte PKCS#7 count is sent at exactly the bucket size and \<open>unpad\<close> recovers it;
  every other frame (241 to 256, 497 to 768, 1009 to 1792 and above 2032 bytes) goes out
  with its own length.
\<close>

theorem encode_pads_to_bucket:
  assumes "encode p = Some d"
  shows "if length (frame_bytes p) \<in> {1..240} \<union> {257..496} \<union> {769..1008} \<union> {1793..2032}
         then length d \<in> set BLOCK_SIZES \<and> unpad d = frame_bytes p
         else d = frame_bytes p"
proof -
  let ?n = "length (frame_bytes p)"
  have pos: "0 < ?n" by (simp add: frame_bytes_def Let_def)
  have d: "d = pad (frame_bytes p) (optimal_block_size ?n)"
    using assms by (simp add: encode_def encode_with_padding_eq split: if_split_asm)
  consider "?n \<in> {1..240} \<union> {257..496} \<union> {769..1008} \<union> {1793..2032}"
    | "?n \<in> {241..256} \<union> {497..768} \<union> {1009..1792}" | "2032 < ?n"
    using pos by (simp only: Un_iff atLeastAtMost_iff) linarith
  then show ?thesis
  proof cases
    case 1
    then have "?n < optimal_block_size ?n" "optimal_block_size ?n - ?n \<le> 255"
      "optimal_block_size ?n \<in> set BLOCK_SIZES"
      by (auto simp: optimal_block_size_eq BLOCK_SIZES_def)
    with 1 show ?thesis using unpad_pad [of "frame_bytes p"] by (simp add: d)
  next
    case 2
    then have "?n < optimal_block_size ?n" "255 < optimal_block_size ?n - ?n"
      by (auto simp: optimal_block_size_eq)
    then have "d = frame_bytes p" by (simp add: d pad_none)
    moreover from 2 have "?n \<notin> {1..240} \<union> {257..496} \<union> {769..1008} \<union> {1793..2032}" by auto
    ultimately show ?thesis by (subst if_not_P)
  next
    case 3
    then show ?thesis by (simp add: d pad_def optimal_block_size_eq)
  qed
qed

theorem encode_pads_to_bucket_witness:
  "\<exists>d. encode sample_packet = Some d \<and> length d \<in> set BLOCK_SIZES
     \<and> unpad d = frame_bytes sample_packet"
proof -
  obtain d where d: "encode sample_packet = Some d"
    using sample_packet_ok(3) by (simp add: encode_def encode_with_padding_eq)
  have "length (frame_bytes sample_packet) = 43"
    by (simp add: frame_bytes_def sample_packet_def effective_route_def BROADCAST_RECIPIENT_def)
  with encode_pads_to_bucket [OF d] d show ?thesis by simp
qed

end
