(* ===== verification/Seen.thy ===== *)
theory Seen
  imports Prelude
begin

text \<open>
  Bounded duplicate memories.  Five components keep a set of identifiers beside the
  order they arrived in and evict the oldest one past a limit: the forwarding ring of
  relay.rs, the loop-prevention sets of gateway.rs, the private-envelope record of
  nostr/processed.rs, the messages seen by mesh.rs and those of nostr/client.rs.  The contract of such a memory is the locale \<open>seen_ring\<close>; what a
  client may conclude from it (what is refused, and for how long) is proved once here.
\<close>

section \<open>Runs of insertions\<close>

text \<open>Offer the elements of a list one after the other, collecting the answers.\<close>

fun add_all :: "('a \<Rightarrow> 's \<Rightarrow> bool \<times> 's) \<Rightarrow> 'a list \<Rightarrow> 's \<Rightarrow> bool list \<times> 's" where
  "add_all add [] s = ([], s)"
| "add_all add (x # xs) s =
     (let (b, s') = add x s; (bs, s'') = add_all add xs s' in (b # bs, s''))"

text \<open>The answers an unbounded set would give.\<close>

fun first_sightings :: "'a set \<Rightarrow> 'a list \<Rightarrow> bool list" where
  "first_sightings seen [] = []"
| "first_sightings seen (x # xs) = (x \<notin> seen) # first_sightings (insert x seen) xs"

lemma add_all_Cons:
  "add_all add (x # xs) s =
   (fst (add x s) # fst (add_all add xs (snd (add x s))), snd (add_all add xs (snd (add x s))))"
  by (simp add: split_beta Let_def)

declare add_all.simps(2) [simp del]

lemma add_all_append: "snd (add_all add (xs @ ys) s) = snd (add_all add ys (snd (add_all add xs s)))"
  by (induction xs arbitrary: s) (auto simp: add_all_Cons)

section \<open>The contract\<close>

locale seen_ring =
  fixes add :: "'a \<Rightarrow> 's \<Rightarrow> bool \<times> 's"
    and entries :: "'s \<Rightarrow> 'a list"
    and valid :: "'s \<Rightarrow> bool"
    and start :: 's
    and cap :: nat
  assumes cap_pos: "0 < cap"
    and valid_start: "valid start"
    and entries_start: "entries start = []"
    and valid_entries: "valid s \<Longrightarrow> distinct (entries s) \<and> length (entries s) \<le> cap"
    and valid_add: "valid s \<Longrightarrow> valid (snd (add x s))"
    and add_known: "valid s \<Longrightarrow> x \<in> set (entries s) \<Longrightarrow> add x s = (False, s)"
    and add_fresh: "valid s \<Longrightarrow> x \<notin> set (entries s) \<Longrightarrow>
          fst (add x s) \<and>
          entries (snd (add x s)) = drop (length (entries s) + 1 - cap) (entries s @ [x])"
begin

lemma add_iff: "valid s \<Longrightarrow> fst (add x s) \<longleftrightarrow> x \<notin> set (entries s)"
  using add_known add_fresh by fastforce

lemma valid_add_all: "valid s \<Longrightarrow> valid (snd (add_all add xs s))"
  by (induction xs arbitrary: s) (auto simp: add_all_Cons valid_add)

lemma bounded: "valid s \<Longrightarrow> length (entries (snd (add_all add xs s))) \<le> cap"
  using valid_add_all valid_entries by blast

text \<open>
  An entry with \<open>k\<close> newer entries behind it survives any step, and gains at most one
  newer entry.
\<close>

lemma entry_survives:
  assumes "valid s" and "entries s = pre @ x # post" and "length post + 1 < cap"
  shows "\<exists>pre' post'. entries (snd (add y s)) = pre' @ x # post' \<and> length post' \<le> length post + 1"
proof (cases "y \<in> set (entries s)")
  case True
  with assms(1,2) add_known show ?thesis by fastforce
next
  case False
  let ?j = "length (entries s) + 1 - cap"
  have j: "?j \<le> length pre" using assms(2,3) valid_entries [OF assms(1)] by simp
  have "entries (snd (add y s)) = drop ?j (pre @ x # post @ [y])"
    using add_fresh [OF assms(1) False] assms(2) by simp
  also have "\<dots> = drop ?j pre @ x # (post @ [y])" using j by simp
  finally show ?thesis by fastforce
qed

lemma entry_survives_all:
  assumes "valid s" and "entries s = pre @ x # post" and "length post + length ys < cap"
  shows "x \<in> set (entries (snd (add_all add ys s)))"
  using assms
proof (induction ys arbitrary: s pre post)
  case (Cons y ys)
  then obtain pre' post' where "entries (snd (add y s)) = pre' @ x # post'"
    "length post' \<le> length post + 1"
    using entry_survives [of s pre x post y] by auto
  moreover have "length post' + length ys < cap" using calculation Cons.prems by simp
  ultimately show ?case
    using Cons.IH [of "snd (add y s)" pre' post'] Cons.prems(1) by (simp add: add_all_Cons valid_add)
qed simp

text \<open>
  An element accepted now is refused for at least the next \<open>cap - 1\<close> offers, whatever
  they are.
\<close>

lemma refused_in_window:
  assumes v: "valid s" and fresh: "fst (add x s)" and few: "length ys < cap"
  shows "\<not> fst (add x (snd (add_all add ys (snd (add x s)))))"
proof -
  have x: "x \<notin> set (entries s)" using v fresh add_iff by simp
  let ?s = "snd (add x s)"
  have "length (entries s) + 1 - cap \<le> length (entries s)" using cap_pos by simp
  then have "entries ?s = drop (length (entries s) + 1 - cap) (entries s) @ x # []"
    using add_fresh [OF v x] by simp
  then have "x \<in> set (entries (snd (add_all add ys ?s)))"
    using entry_survives_all [of ?s _ x "[]" ys] v few by (simp add: valid_add)
  then show ?thesis using add_iff valid_add_all valid_add v by blast
qed

text \<open>Nothing is remembered that was not offered.\<close>

lemma entries_offered: "valid s \<Longrightarrow> set (entries (snd (add_all add xs s))) \<subseteq> set (entries s) \<union> set xs"
proof (induction xs arbitrary: s)
  case (Cons x xs)
  have "set (entries (snd (add x s))) \<subseteq> insert x (set (entries s))"
  proof (cases "x \<in> set (entries s)")
    case True
    with Cons.prems show ?thesis by (auto simp: add_known)
  next
    case False
    from add_fresh [OF Cons.prems False] show ?thesis by (auto dest: in_set_dropD)
  qed
  then show ?case using Cons.IH [of "snd (add x s)"] Cons.prems
    by (auto simp: add_all_Cons valid_add)
qed simp

text \<open>An element absent after it was first offered has had \<open>cap\<close> later offers behind it.\<close>

lemma forgotten_late:
  assumes "x \<notin> set xs" and "x \<notin> set (entries (snd (add_all add (xs @ x # ys) start)))"
  shows "cap \<le> length ys"
proof (rule ccontr)
  assume "\<not> cap \<le> length ys"
  then have few: "length ys < cap" by simp
  let ?s = "snd (add_all add xs start)"
  have v: "valid ?s" by (rule valid_add_all [OF valid_start])
  have "x \<notin> set (entries ?s)"
    using entries_offered [OF valid_start, of xs] assms(1) entries_start by auto
  then have "fst (add x ?s)" using add_iff [OF v] by blast
  from refused_in_window [OF v this few]
  have "\<not> fst (add x (snd (add_all add (xs @ x # ys) start)))"
    by (simp add: add_all_append add_all_Cons)
  then show False using add_iff [OF valid_add_all [OF valid_start]] assms(2) by blast
qed

text \<open>Below the limit the memory answers exactly as an unbounded set.\<close>

lemma below_limit:
  assumes "valid s" and "length (entries s) + length xs \<le> cap"
  shows "fst (add_all add xs s) = first_sightings (set (entries s)) xs"
  using assms
proof (induction xs arbitrary: s)
  case (Cons x xs)
  show ?case
  proof (cases "x \<in> set (entries s)")
    case True
    with Cons show ?thesis by (simp add: add_all_Cons add_known insert_absorb)
  next
    case False
    then have "entries (snd (add x s)) = entries s @ [x]"
      using add_fresh [of s x] Cons.prems by simp
    with False Cons show ?thesis by (simp add: add_all_Cons add_iff valid_add)
  qed
qed simp

lemma below_limit_start:
  "length xs \<le> cap \<Longrightarrow> fst (add_all add xs start) = first_sightings {} xs"
  using below_limit [OF valid_start, of xs] by (simp add: entries_start)

end

section \<open>The representation the three share\<close>

text \<open>A hash set for membership beside a queue for eviction order.\<close>

record 'a ring =
  ring_set :: "'a set"
  ring_order :: "'a list"

definition ring_empty :: "'a ring" where
  "ring_empty = \<lparr>ring_set = {}, ring_order = []\<rparr>"

definition ring_valid :: "nat \<Rightarrow> 'a ring \<Rightarrow> bool" where
  "ring_valid n r \<longleftrightarrow>
     ring_set r = set (ring_order r) \<and> distinct (ring_order r) \<and> length (ring_order r) \<le> n"

lemma ring_valid_empty [simp]: "ring_valid n ring_empty"
  by (simp add: ring_valid_def ring_empty_def)

text \<open>
  \<open>while self.order.len() > limit\<close>: pop the oldest entry and forget it.  The loop of the
  source keeps popping; it stops because every round shortens the queue.
\<close>

fun ring_evict :: "nat \<Rightarrow> 'a set \<Rightarrow> 'a list \<Rightarrow> 'a ring" where
  "ring_evict n xs [] = \<lparr>ring_set = xs, ring_order = []\<rparr>"
| "ring_evict n xs (oldest # rest) =
     (if length (oldest # rest) > n then ring_evict n (xs - {oldest}) rest
      else \<lparr>ring_set = xs, ring_order = oldest # rest\<rparr>)"

lemma ring_evict_within [simp]:
  "length ys \<le> n \<Longrightarrow> ring_evict n xs ys = \<lparr>ring_set = xs, ring_order = ys\<rparr>"
  by (cases ys) auto

lemma ring_evict_one:
  assumes "ring_valid n r" and "0 < n" and "x \<notin> ring_set r"
  shows "ring_valid n (ring_evict n (insert x (ring_set r)) (ring_order r @ [x]))"
    and "ring_order (ring_evict n (insert x (ring_set r)) (ring_order r @ [x])) =
         drop (length (ring_order r) + 1 - n) (ring_order r @ [x])"
proof -
  have "ring_valid n (ring_evict n (insert x (ring_set r)) (ring_order r @ [x])) \<and>
    ring_order (ring_evict n (insert x (ring_set r)) (ring_order r @ [x])) =
    drop (length (ring_order r) + 1 - n) (ring_order r @ [x])"
  proof (cases "ring_order r")
    case Nil
    with assms show ?thesis by (auto simp: ring_valid_def)
  next
    case (Cons y ys)
    show ?thesis
    proof (cases "length ys + 2 \<le> n")
      case True
      with Cons assms show ?thesis by (auto simp: ring_valid_def)
    next
      case False
      with Cons assms have "length ys + 1 = n" by (auto simp: ring_valid_def)
      with Cons assms show ?thesis by (auto simp: ring_valid_def)
    qed
  qed
  then show "ring_valid n (ring_evict n (insert x (ring_set r)) (ring_order r @ [x]))"
    and "ring_order (ring_evict n (insert x (ring_set r)) (ring_order r @ [x])) =
         drop (length (ring_order r) + 1 - n) (ring_order r @ [x])"
    by simp_all
qed

text \<open>The insertion with that loop satisfies the contract at every positive limit.\<close>

definition ring_insert :: "nat \<Rightarrow> 'a \<Rightarrow> 'a ring \<Rightarrow> bool \<times> 'a ring" where
  "ring_insert n x r =
     (if x \<in> ring_set r then (False, r)
      else (True, ring_evict n (insert x (ring_set r)) (ring_order r @ [x])))"

lemma ring_insert_seen_ring:
  assumes pos: "0 < n"
  shows "seen_ring (ring_insert n) ring_order (ring_valid n) ring_empty n"
proof unfold_locales
  show "0 < n" by (rule pos)
  fix s :: "'a ring" and x
  assume v: "ring_valid n s"
  then show "distinct (ring_order s) \<and> length (ring_order s) \<le> n"
    by (simp add: ring_valid_def)
  show "ring_valid n (snd (ring_insert n x s))"
    using v ring_evict_one(1) [OF v pos, of x] by (simp add: ring_insert_def)
  show "x \<in> set (ring_order s) \<Longrightarrow> ring_insert n x s = (False, s)"
    using v by (simp add: ring_insert_def ring_valid_def)
  show "x \<notin> set (ring_order s) \<Longrightarrow> fst (ring_insert n x s) \<and>
      ring_order (snd (ring_insert n x s)) = drop (length (ring_order s) + 1 - n) (ring_order s @ [x])"
    using v ring_evict_one(2) [OF v pos, of x] by (simp add: ring_insert_def ring_valid_def)
qed (simp_all add: ring_empty_def ring_valid_def)

text \<open>
  An insertion that pops at most one entry.  On a valid ring one pop is enough, so it is
  the insertion with the loop.
\<close>

definition pop_insert :: "nat \<Rightarrow> 'a \<Rightarrow> 'a ring \<Rightarrow> bool \<times> 'a ring" where
  "pop_insert n x r =
     (if x \<in> ring_set r then (False, r)
      else let seen = insert x (ring_set r); order = ring_order r @ [x] in
        if length order > n
        then (case order of
                oldest # rest \<Rightarrow> (True, \<lparr>ring_set = seen - {oldest}, ring_order = rest\<rparr>)
              | [] \<Rightarrow> (True, \<lparr>ring_set = seen, ring_order = []\<rparr>))
        else (True, \<lparr>ring_set = seen, ring_order = order\<rparr>))"

lemma pop_insert_eq:
  assumes "0 < n" "ring_valid n r"
  shows "pop_insert n x r = ring_insert n x r"
proof (cases "length (ring_order r) < n")
  case True
  with assms show ?thesis by (simp add: pop_insert_def ring_insert_def Let_def)
next
  case False
  with assms have len: "length (ring_order r) = n" by (simp add: ring_valid_def)
  with assms(1) obtain y ys where "ring_order r = y # ys" by (cases "ring_order r") auto
  with len show ?thesis by (simp add: pop_insert_def ring_insert_def Let_def)
qed

lemma pop_insert_seen_ring:
  assumes "0 < n"
  shows "seen_ring (pop_insert n) ring_order (ring_valid n) ring_empty n"
proof -
  have r: "seen_ring (ring_insert n) ring_order (ring_valid n) ring_empty n"
    using assms by (rule ring_insert_seen_ring)
  then show ?thesis by (simp add: seen_ring_def pop_insert_eq assms)
qed

end
