(* ===== verification/Relay.thy ===== *)
theory Relay
  imports Protocol Seen
begin

text \<open>
  The forwarding policy of relay.rs and its use in main.rs (\<open>relay_plan\<close>): whether a
  frame that arrived on one link is sent on over the others, with which TTL, and at most
  once.  \<open>DefaultHasher\<close>, whose algorithm the standard library leaves unspecified, is the
  parameter \<open>hash\<close>, applied to the tuple of hashed fields in the order the code feeds
  them.
\<close>

section \<open>Policy\<close>

definition MAX_TTL :: byte where
  "MAX_TTL = 7"

datatype relay =
    Forward (forward_ttl: byte) (except_link: text_bytes)
  | Suppress string

definition plan :: "packet \<Rightarrow> text_bytes list \<Rightarrow> text_bytes \<Rightarrow> text_bytes \<Rightarrow> relay" where
  "plan packet links ingress local_peer_id =
     (if sender_hex packet = local_peer_id then Suppress ''our own packet''
      else if p_ttl packet \<le> 1 then Suppress ''time to live exhausted''
      else if p_ttl packet > MAX_TTL then Suppress ''time to live above the protocol maximum''
      else if \<not> is_broadcast packet \<and> recipient_hex packet = Some local_peer_id
      then Suppress ''addressed to us''
      else case parsed_type packet of
        Some Announce \<Rightarrow> Suppress ''presence is not relayed''
      | Some Leave \<Rightarrow> Suppress ''presence is not relayed''
      | Some RequestSync \<Rightarrow> Suppress ''a sync request does not leave its link''
      | None \<Rightarrow> Suppress ''unknown packet type''
      | Some _ \<Rightarrow>
          (let onward = filter (\<lambda>link. link \<noteq> ingress) links in
           if onward = [] then Suppress ''no link other than the one it came from''
           else Forward (p_ttl packet - 1) ingress))"

section \<open>The forwarding ring\<close>

definition FORWARDED_LIMIT :: nat where
  "FORWARDED_LIMIT = 1024"

type_synonym identity = "bytes \<times> bytes option \<times> u64 \<times> byte \<times> bytes"

definition identity :: "packet \<Rightarrow> identity" where
  "identity p =
     (p_sender_id p, p_recipient_id p, p_timestamp p, p_msg_type p, p_payload p)"

definition digest :: "(identity \<Rightarrow> u64) \<Rightarrow> packet \<Rightarrow> u64" where
  "digest hash p = hash (identity p)"

definition forwarded_insert :: "u64 \<Rightarrow> u64 ring \<Rightarrow> bool \<times> u64 ring" where
  "forwarded_insert = pop_insert FORWARDED_LIMIT"

definition accept :: "(identity \<Rightarrow> u64) \<Rightarrow> packet \<Rightarrow> u64 ring \<Rightarrow> bool \<times> u64 ring" where
  "accept hash p r = forwarded_insert (digest hash p) r"

interpretation forwarded: seen_ring
  forwarded_insert ring_order "ring_valid FORWARDED_LIMIT" ring_empty FORWARDED_LIMIT
  unfolding forwarded_insert_def by (rule pop_insert_seen_ring) (simp add: FORWARDED_LIMIT_def)

section \<open>Relaying a frame\<close>

text \<open>
  \<open>relay_plan\<close> of main.rs: decode, ask the policy, consult the ring only for what the
  policy would forward, and re-encode with the new TTL.  Returns the frame to send and
  the ring afterwards.
\<close>

definition relay_plan ::
  "(bytes \<Rightarrow> nat \<Rightarrow> bytes option) \<Rightarrow> (identity \<Rightarrow> u64) \<Rightarrow> text_bytes \<Rightarrow> bytes \<Rightarrow>
   text_bytes \<Rightarrow> text_bytes list \<Rightarrow> u64 ring \<Rightarrow> bytes option \<times> u64 ring" where
  "relay_plan decompress hash my_peer_id frame ingress links r =
     (case decode decompress frame of
        None \<Rightarrow> (None, r)
      | Some packet \<Rightarrow>
          (case plan packet links ingress my_peer_id of
             Suppress _ \<Rightarrow> (None, r)
           | Forward hops _ \<Rightarrow>
               (let (fresh, r') = accept hash packet r in
                if \<not> fresh then (None, r')
                else (encode (packet\<lparr>p_ttl := hops\<rparr>), r'))))"

section \<open>Facts\<close>

lemma plan_Forward:
  assumes "plan p links ingress me = Forward hops ex"
  shows "ex = ingress" and "hops = p_ttl p - 1" and "1 < p_ttl p" and "p_ttl p \<le> MAX_TTL"
    and "sender_hex p \<noteq> me" and "is_broadcast p \<or> recipient_hex p \<noteq> Some me"
    and "\<exists>link \<in> set links. link \<noteq> ingress"
    and "parsed_type p \<notin> {None, Some Announce, Some Leave, Some RequestSync}"
  using assms
  by (auto simp: plan_def Let_def filter_empty_conv not_le not_less
      split: if_split_asm option.split_asm message_type.split_asm)

lemma unat_pred: "1 < (t :: byte) \<Longrightarrow> unat (t - 1) = unat t - 1"
  by (simp add: unat_sub word_le_nat_alt word_less_nat_alt)

lemma relay_plan_Some:
  assumes "relay_plan decompress hash me frame ingress links r = (Some out, r')"
  obtains p where "decode decompress frame = Some p"
    and "plan p links ingress me = Forward (p_ttl p - 1) ingress"
    and "fst (accept hash p r)" and "r' = snd (accept hash p r)"
    and "encode (p\<lparr>p_ttl := p_ttl p - 1\<rparr>) = Some out"
proof -
  from assms obtain p hops ex where d: "decode decompress frame = Some p"
    and pl: "plan p links ingress me = Forward hops ex"
    and acc: "fst (accept hash p r)" "r' = snd (accept hash p r)"
    and enc: "encode (p\<lparr>p_ttl := hops\<rparr>) = Some out"
    by (auto simp: relay_plan_def split_beta Let_def split: option.split_asm relay.split_asm if_split_asm)
  have "hops = p_ttl p - 1" "ex = ingress" using plan_Forward [OF pl] by auto
  with d pl acc enc show ?thesis using that by simp
qed

lemma relay_plan_next_hop:
  assumes "relay_plan decompress hash me frame ingress links r = (Some out, r')"
  obtains p where "decode decompress frame = Some p" and "1 < p_ttl p" and "p_ttl p \<le> MAX_TTL"
    and "decode decompress' out = Some (p\<lparr>p_ttl := p_ttl p - 1\<rparr>)"
proof -
  from assms obtain p where d: "decode decompress frame = Some p"
    and pl: "plan p links ingress me = Forward (p_ttl p - 1) ingress"
    and enc: "encode (p\<lparr>p_ttl := p_ttl p - 1\<rparr>) = Some out"
    by (rule relay_plan_Some)
  from reencode_decodes [OF d, of "p_ttl p - 1" decompress'] enc
  have "decode decompress' out = Some (p\<lparr>p_ttl := p_ttl p - 1\<rparr>)" by auto
  with that d plan_Forward(3,4) [OF pl] show ?thesis by blast
qed

section \<open>Properties\<close>

text \<open>
  The policy in one equivalence: a packet is forwarded exactly when it is not our
  own, its TTL lies strictly between 1 and the maximum inclusive, it is not addressed to
  us alone, its type is known and is neither presence nor a sync request, and some link
  other than the ingress exists; the copy then has one hop less and excludes the ingress.
\<close>

theorem plan_forwards_iff:
  "plan p links ingress me = Forward hops ex \<longleftrightarrow>
     ex = ingress \<and> hops = p_ttl p - 1 \<and> 1 < p_ttl p \<and> p_ttl p \<le> MAX_TTL
     \<and> sender_hex p \<noteq> me \<and> (is_broadcast p \<or> recipient_hex p \<noteq> Some me)
     \<and> parsed_type p \<notin> {None, Some Announce, Some Leave, Some RequestSync}
     \<and> (\<exists>link \<in> set links. link \<noteq> ingress)"
proof
  assume "plan p links ingress me = Forward hops ex"
  from plan_Forward [OF this] show "ex = ingress \<and> hops = p_ttl p - 1 \<and> 1 < p_ttl p
     \<and> p_ttl p \<le> MAX_TTL \<and> sender_hex p \<noteq> me
     \<and> (is_broadcast p \<or> recipient_hex p \<noteq> Some me)
     \<and> parsed_type p \<notin> {None, Some Announce, Some Leave, Some RequestSync}
     \<and> (\<exists>link \<in> set links. link \<noteq> ingress)"
    by blast
next
  assume "ex = ingress \<and> hops = p_ttl p - 1 \<and> 1 < p_ttl p
     \<and> p_ttl p \<le> MAX_TTL \<and> sender_hex p \<noteq> me
     \<and> (is_broadcast p \<or> recipient_hex p \<noteq> Some me)
     \<and> parsed_type p \<notin> {None, Some Announce, Some Leave, Some RequestSync}
     \<and> (\<exists>link \<in> set links. link \<noteq> ingress)"
  then show "plan p links ingress me = Forward hops ex"
    by (auto simp: plan_def Let_def filter_empty_conv not_le not_less
        split: option.split message_type.split)
qed

text \<open>
  A journey of a frame: \<open>relay_chain n d e\<close> says that \<open>n\<close> nodes in a row, each with its
  own identity, links and forwarding ring, turned frame \<open>d\<close> into frame \<open>e\<close>.
\<close>

inductive relay_chain ::
  "(bytes \<Rightarrow> nat \<Rightarrow> bytes option) \<Rightarrow> (identity \<Rightarrow> u64) \<Rightarrow> nat \<Rightarrow> bytes \<Rightarrow> bytes \<Rightarrow> bool"
  for decompress hash where
  arrived: "relay_chain decompress hash 0 d d"
| relayed: "relay_plan decompress hash me d ingress links r = (Some d', r') \<Longrightarrow>
     relay_chain decompress hash n d' e \<Longrightarrow> relay_chain decompress hash (Suc n) d e"

inductive_cases relay_chain_SucE: "relay_chain decompress hash (Suc n) d e"

lemma relay_chain_ttl:
  "relay_chain decompress hash n d e \<Longrightarrow> decode decompress d = Some p \<Longrightarrow>
   n = 0 \<or> (n < unat (p_ttl p) \<and> unat (p_ttl p) \<le> 7
     \<and> decode decompress e = Some (p\<lparr>p_ttl := p_ttl p - of_nat n\<rparr>))"
proof (induction n d e arbitrary: p rule: relay_chain.induct)
  case (relayed me d ingress links r d' r' n e)
  from relay_plan_next_hop [OF relayed.hyps(1), of decompress]
  have t: "1 < p_ttl p" "p_ttl p \<le> MAX_TTL"
    and d': "decode decompress d' = Some (p\<lparr>p_ttl := p_ttl p - 1\<rparr>)"
    using relayed.prems by force+
  have u: "unat (p_ttl p - 1) = unat (p_ttl p) - 1" using t(1) by (rule unat_pred)
  have le: "unat (p_ttl p) \<le> 7" using t(2) by (simp add: MAX_TTL_def word_le_nat_alt)
  have lt: "1 < unat (p_ttl p)" using t(1) by (simp add: word_less_nat_alt)
  show ?case
  proof (cases n)
    case 0
    then have "d' = e" using relayed.hyps(2) by (auto elim: relay_chain.cases)
    with 0 d' le lt show ?thesis by simp
  next
    case (Suc m)
    with relayed.IH [OF d'] u have "n < unat (p_ttl p) - 1"
      "decode decompress e = Some (p\<lparr>p_ttl := p_ttl p - 1 - of_nat n\<rparr>)" by auto
    with le show ?thesis by (simp add: diff_diff_add)
  qed
qed simp

text \<open>
  C15.  A flood dies: however the mesh is wired, whatever the nodes' rings hold and
  however large a TTL the first sender claimed, no frame is relayed more than six times
  in a row.
\<close>

theorem flood_terminates:
  assumes "relay_chain decompress hash n d e"
  shows "n \<le> 6"
proof (cases n)
  case (Suc m)
  with assms obtain me ingress links r d' r'
    where "relay_plan decompress hash me d ingress links r = (Some d', r')"
    by (auto elim: relay_chain_SucE)
  from relay_plan_Some [OF this] obtain p where "decode decompress d = Some p" by blast
  from relay_chain_ttl [OF assms this] Suc show ?thesis by simp
qed simp

text \<open>A concrete relay step, for the witnesses: the sample frame crosses one node.\<close>

lemma sample_frame_decodes: "decode decompress (frame_bytes sample_packet) = Some sample_packet"
  using roundtrip [OF sample_packet_ok(1,2), of False _ decompress] sample_packet_ok(3,4)
  by (simp add: encode_with_padding_eq)

lemma sample_relayed:
  "\<exists>out r'. relay_plan decompress hash [] (frame_bytes sample_packet) [97] [[97], [98]] ring_empty
      = (Some out, r')"
proof -
  have "plan sample_packet [[97], [98]] [97] [] = Forward 6 [97]"
    by (simp add: plan_def sample_packet_def sender_hex_def recipient_hex_def is_broadcast_def
        parsed_type_def from_u8_def MAX_TTL_def word_le_nat_alt)
  moreover have "fst (accept hash sample_packet ring_empty)"
    by (simp add: accept_def forwarded_insert_def pop_insert_def ring_empty_def FORWARDED_LIMIT_def)
  moreover obtain out where "encode (sample_packet\<lparr>p_ttl := 6\<rparr>) = Some out"
    using reencode_decodes [OF sample_frame_decodes] by blast
  ultimately show ?thesis
    by (simp add: relay_plan_def sample_frame_decodes split_beta Let_def)
qed

theorem flood_terminates_witness:
  "\<exists>n e. relay_chain (\<lambda>_ _. None) (\<lambda>_. 0) (Suc n) (frame_bytes sample_packet) e \<and> Suc n \<le> 6"
proof -
  obtain out r' where "relay_plan (\<lambda>_ _. None) (\<lambda>_. 0) [] (frame_bytes sample_packet) [97]
      [[97], [98]] ring_empty = (Some out, r')"
    using sample_relayed by blast
  then have "relay_chain (\<lambda>_ _. None) (\<lambda>_. 0) (Suc 0) (frame_bytes sample_packet) out"
    by (rule relay_chain.relayed) (rule relay_chain.arrived)
  then show ?thesis using flood_terminates by blast
qed

text \<open>A node's traffic: the frames it hears, each with its ingress and the links of the moment.\<close>

fun relay_all ::
  "(bytes \<Rightarrow> nat \<Rightarrow> bytes option) \<Rightarrow> (identity \<Rightarrow> u64) \<Rightarrow> text_bytes \<Rightarrow>
   (bytes \<times> text_bytes \<times> text_bytes list) list \<Rightarrow> u64 ring \<Rightarrow> bytes option list \<times> u64 ring" where
  "relay_all decompress hash me [] r = ([], r)"
| "relay_all decompress hash me ((frame, ingress, links) # fs) r =
     (let (out, r') = relay_plan decompress hash me frame ingress links r;
          (outs, r'') = relay_all decompress hash me fs r'
      in (out # outs, r''))"

lemma relay_plan_ring:
  "\<exists>ds. length ds \<le> 1 \<and>
     snd (relay_plan decompress hash me frame ingress links r) = snd (add_all forwarded_insert ds r)"
proof (cases "snd (relay_plan decompress hash me frame ingress links r) = r")
  case True
  then show ?thesis by (intro exI [of _ "[]"]) simp
next
  case False
  then obtain p where
    "snd (relay_plan decompress hash me frame ingress links r) = snd (forwarded_insert (digest hash p) r)"
    by (auto simp: relay_plan_def accept_def split_beta Let_def
        split: option.split_asm relay.split_asm if_split_asm)
  then show ?thesis by (intro exI [of _ "[digest hash p]"]) (simp add: add_all_Cons)
qed

lemma add_all_append_snd:
  "snd (add_all add (xs @ ys) s) = snd (add_all add ys (snd (add_all add xs s)))"
  by (induction xs arbitrary: s) (simp_all add: add_all_Cons)

lemma relay_all_ring:
  "\<exists>ds. length ds \<le> length fs \<and>
     snd (relay_all decompress hash me fs r) = snd (add_all forwarded_insert ds r)"
proof (induction fs arbitrary: r)
  case (Cons f fs)
  obtain frame ingress links where f: "f = (frame, ingress, links)" by (cases f)
  obtain ds where ds: "length ds \<le> 1" "snd (relay_plan decompress hash me frame ingress links r) =
      snd (add_all forwarded_insert ds r)"
    using relay_plan_ring by blast
  obtain es where es: "length es \<le> length fs"
    "snd (relay_all decompress hash me fs (snd (add_all forwarded_insert ds r))) =
     snd (add_all forwarded_insert es (snd (add_all forwarded_insert ds r)))"
    using Cons.IH by blast
  from ds es show ?case
    by (intro exI [of _ "ds @ es"]) (simp add: f split_beta Let_def add_all_append_snd)
qed (intro exI [of _ "[]"], simp)

text \<open>
  C11.  A node relays one message once: after a frame was sent on, a copy of the same
  message (same sender, recipient, timestamp, type and payload, any TTL, any ingress) is
  not sent on again as long as fewer than 1024 other frames came in between.
\<close>

theorem relayed_once:
  assumes "ring_valid FORWARDED_LIMIT r"
    and "relay_plan decompress hash me frame ingress links r = (Some out, r1)"
    and "decode decompress frame = Some p" and "decode decompress copy = Some q"
    and "identity q = identity p" and "length fs < FORWARDED_LIMIT"
  shows "fst (relay_plan decompress hash me copy ingress' links'
           (snd (relay_all decompress hash me fs r1))) = None"
proof -
  let ?d = "digest hash p"
  from assms(2,3) have fresh: "fst (forwarded_insert ?d r)" and r1: "r1 = snd (forwarded_insert ?d r)"
    by (auto elim!: relay_plan_Some simp: accept_def)
  obtain ds where ds: "length ds \<le> length fs"
    "snd (relay_all decompress hash me fs r1) = snd (add_all forwarded_insert ds r1)"
    using relay_all_ring by blast
  have "\<not> fst (forwarded_insert ?d (snd (add_all forwarded_insert ds (snd (forwarded_insert ?d r)))))"
    using forwarded.refused_in_window [OF assms(1) fresh] ds(1) assms(6) by simp
  then show ?thesis
    using assms(4,5) by (auto simp: relay_plan_def accept_def digest_def r1
        ds(2) [unfolded r1 digest_def] split_beta Let_def split: relay.split)
qed

theorem relayed_once_witness:
  "\<exists>r1. fst (relay_plan (\<lambda>_ _. None) (\<lambda>_. 0) [] (frame_bytes sample_packet) [98] [[97], [98]] r1) = None
     \<and> ring_order r1 \<noteq> []"
proof -
  obtain out r1 where step: "relay_plan (\<lambda>_ _. None) (\<lambda>_. 0) [] (frame_bytes sample_packet) [97]
      [[97], [98]] ring_empty = (Some out, r1)"
    using sample_relayed by blast
  have "ring_order r1 \<noteq> []"
    using step by (elim relay_plan_Some)
      (auto simp: accept_def forwarded_insert_def pop_insert_def ring_empty_def FORWARDED_LIMIT_def Let_def)
  moreover have "fst (relay_plan (\<lambda>_ _. None) (\<lambda>_. 0) [] (frame_bytes sample_packet) [98] [[97], [98]] r1)
      = None"
    using relayed_once [OF ring_valid_empty step sample_frame_decodes sample_frame_decodes refl,
        of "[]" "[98]" "[[97], [98]]"]
    by (simp add: FORWARDED_LIMIT_def)
  ultimately show ?thesis by blast
qed

end
