(* ===== verification/Fragment.thy ===== *)
theory Fragment
  imports Protocol "HOL-Library.AList" "HOL-Library.Multiset"
begin

text \<open>
  Splitting and reassembly of fragmented packets (fragment.rs).  An \<open>Instant\<close> is a
  natural number of nanoseconds passed to the operation that reads the clock, and
  \<open>elapsed\<close> is truncated subtraction, as \<open>Instant\<close> saturates.  The hash map of assemblies
  is an association list with distinct keys.  Where the source would panic (an index
  outside the piece vector, a missing piece at completion) the operation returns \<open>None\<close>,
  and the lemmas show that parsed fragments never get there.
\<close>

section \<open>Definitions\<close>

definition MAX_ASSEMBLED_BYTES :: nat where
  "MAX_ASSEMBLED_BYTES = 1024 * 1024 + 18 + 2 * 65535 + 16 + 8 + 8 + 64"

definition MAX_IN_FLIGHT :: nat where
  "MAX_IN_FLIGHT = 128"

definition ASSEMBLY_LIFETIME :: nat where
  "ASSEMBLY_LIFETIME = 30 * 10 ^ 9"

definition MAX_FRAGMENTS :: nat where
  "MAX_FRAGMENTS = 10000"

definition SLICE_BYTES :: nat where
  "SLICE_BYTES = 213"

record fragment_key =
  fk_sender :: bytes
  fk_id :: u64

record fragment_header =
  fh_key :: fragment_key
  fh_index :: nat
  fh_total :: nat
  fh_original_type :: byte
  fh_data :: bytes

definition div_ceil :: "nat \<Rightarrow> nat \<Rightarrow> nat" where
  "div_ceil a b = (a + b - 1) div b"

definition fragment_payload :: "u64 \<Rightarrow> byte \<Rightarrow> nat \<Rightarrow> nat \<Rightarrow> bytes \<Rightarrow> bytes" where
  "fragment_payload fid original_type n index piece =
     be64 fid @ be16 index @ be16 n @ original_type # piece"

definition split_packet :: "u64 \<Rightarrow> byte \<Rightarrow> bytes \<Rightarrow> nat \<Rightarrow> bytes list" where
  "split_packet fid original_type body slice_bytes =
     (if body = [] \<or> slice_bytes = 0 then []
      else let n = div_ceil (length body) slice_bytes in
        if n > MAX_FRAGMENTS then []
        else map (\<lambda>(index, piece). fragment_payload fid original_type n index piece)
               (enumerate 0 (chunks slice_bytes body)))"

definition parse :: "packet \<Rightarrow> fragment_header option" where
  "parse packet =
     (let pl = p_payload packet in
      if length pl < 13 then None
      else let fid = u64_of_be (take 8 pl);
               index = be_to_nat (take 2 (drop 8 pl));
               n = be_to_nat (take 2 (drop 10 pl))
           in if n = 0 \<or> n > MAX_FRAGMENTS \<or> index \<ge> n then None
              else Some \<lparr>fh_key = \<lparr>fk_sender = p_sender_id packet, fk_id = fid\<rparr>,
                         fh_index = index, fh_total = n,
                         fh_original_type = pl ! 12, fh_data = drop 13 pl\<rparr>)"

record assembly =
  as_pieces :: "bytes option list"
  as_received :: nat
  as_bytes :: nat
  as_started :: nat

type_synonym assembler = "(fragment_key \<times> assembly) list"

datatype append_outcome =
    Pending (have_count: nat) (total_count: nat)
  | Complete bytes
  | Rejected string

definition assembler_new :: assembler where
  "assembler_new = []"

definition new_assembly :: "nat \<Rightarrow> nat \<Rightarrow> assembly" where
  "new_assembly n now =
     \<lparr>as_pieces = replicate n None, as_received = 0, as_bytes = 0, as_started = now\<rparr>"

definition expire :: "nat \<Rightarrow> assembler \<Rightarrow> assembler" where
  "expire now m = filter (\<lambda>(_, a). now - as_started a < ASSEMBLY_LIFETIME) m"

text \<open>The bytes of a whole assembly; \<open>None\<close> where \<open>expect\<close> would panic.\<close>

fun join_pieces :: "bytes option list \<Rightarrow> bytes option" where
  "join_pieces [] = Some []"
| "join_pieces (None # ps) = None"
| "join_pieces (Some p # ps) = map_option ((@) p) (join_pieces ps)"

definition append_fragment ::
  "nat \<Rightarrow> fragment_header \<Rightarrow> assembler \<Rightarrow> (append_outcome \<times> assembler) option" where
  "append_fragment now h m0 =
     (let m = expire now m0; k = fh_key h; is_new = (map_of m k = None) in
      if is_new \<and> length m \<ge> MAX_IN_FLIGHT
      then Some (Rejected ''too many assemblies in flight'', m)
      else let a = (case map_of m k of Some a \<Rightarrow> a | None \<Rightarrow> new_assembly (fh_total h) now);
               m1 = AList.update k a m in
        if length (as_pieces a) \<noteq> fh_total h
        then Some (Rejected ''fragment count changed mid-assembly'', AList.delete k m1)
        else if fh_index h \<ge> length (as_pieces a) then None
        else if as_pieces a ! fh_index h \<noteq> None
        then Some (Rejected ''duplicate fragment'', m1)
        else if as_bytes a + length (fh_data h) > MAX_ASSEMBLED_BYTES
        then Some (Rejected ''assembly exceeds the size limit'', AList.delete k m1)
        else let a' = a\<lparr>as_bytes := as_bytes a + length (fh_data h),
                        as_received := as_received a + 1,
                        as_pieces := (as_pieces a)[fh_index h := Some (fh_data h)]\<rparr>;
                 m2 = AList.update k a' m1 in
          if as_received a' < length (as_pieces a')
          then Some (Pending (as_received a') (length (as_pieces a')), m2)
          else (case join_pieces (as_pieces a') of
                  None \<Rightarrow> None
                | Some bs \<Rightarrow> Some (Complete bs, AList.delete k m2)))"

text \<open>
  The use in mesh.rs: a packet that does not parse is dropped, a parsed one is appended.
\<close>

fun feed :: "(nat \<times> packet) list \<Rightarrow> assembler \<Rightarrow> (append_outcome list \<times> assembler) option" where
  "feed [] m = Some ([], m)"
| "feed ((now, p) # ps) m =
     (case parse p of
        None \<Rightarrow> feed ps m
      | Some h \<Rightarrow> do {
          (r, m') \<leftarrow> append_fragment now h m;
          (rs, m'') \<leftarrow> feed ps m';
          Some (r # rs, m'')
        })"

section \<open>Splitting\<close>

lemma length_chunks: "0 < n \<Longrightarrow> length (chunks n xs) = div_ceil (length xs) n"
proof (induction n xs rule: chunks.induct)
  case (1 n xs)
  show ?case
  proof (cases "xs = []")
    case True
    with "1.prems" show ?thesis by (simp add: div_ceil_def)
  next
    case False
    with 1 have l: "length (chunks n xs) = Suc (div_ceil (length xs - n) n)"
      by (simp add: chunks_step)
    have "div_ceil (length xs) n = Suc (div_ceil (length xs - n) n)"
    proof (cases "n \<le> length xs")
      case True
      then obtain m where m: "length xs = n + m" using le_Suc_ex by blast
      have "div_ceil (n + m) n = ((m + n - 1) + n) div n"
        unfolding div_ceil_def by (rule arg_cong [where f = "\<lambda>x. x div n"]) (use "1.prems" in simp)
      also have "\<dots> = Suc (div_ceil m n)" using "1.prems" by (simp only: div_ceil_def div_add_self2)
      finally show ?thesis by (simp add: m)
    next
      case less: False
      with False "1.prems" have "(length xs + n - 1) div n = 1"
        by (intro div_nat_eqI) (auto simp: neq_Nil_conv)
      with less "1.prems" show ?thesis by (simp add: div_ceil_def)
    qed
    with l show ?thesis by simp
  qed
qed

lemma split_packet_nth:
  assumes "i < length (split_packet fid ty body n)"
  shows "split_packet fid ty body n ! i =
      fragment_payload fid ty (length (chunks n body)) i (chunks n body ! i)"
    and "i < length (chunks n body)" and "length (chunks n body) \<le> MAX_FRAGMENTS"
  using assms
  by (auto simp: split_packet_def Let_def length_chunks nth_enumerate_eq split: if_split_asm)

lemma parse_fragment_payload:
  assumes "p_payload p = fragment_payload fid ty n i piece" and "i < n" and "n \<le> MAX_FRAGMENTS"
  shows "parse p = Some \<lparr>fh_key = \<lparr>fk_sender = p_sender_id p, fk_id = fid\<rparr>, fh_index = i,
    fh_total = n, fh_original_type = ty, fh_data = piece\<rparr>"
proof -
  have lt: "n < 65536" "i < 65536" using assms(2,3) by (simp_all add: MAX_FRAGMENTS_def)
  have "take 8 (p_payload p) = be64 fid" "take 2 (drop 8 (p_payload p)) = be16 i"
    "take 2 (drop 10 (p_payload p)) = be16 n" "p_payload p ! 12 = ty" "drop 13 (p_payload p) = piece"
    "13 \<le> length (p_payload p)"
    using assms(1) by (simp_all add: fragment_payload_def nth_append)
  then show ?thesis using assms(2,3) lt by (simp add: parse_def Let_def)
qed

lemma parse_in_range:
  "parse p = Some h \<Longrightarrow> fh_index h < fh_total h \<and> fh_total h \<le> MAX_FRAGMENTS"
  by (auto simp: parse_def Let_def split: if_split_asm)

section \<open>The assembler's invariant\<close>

definition present_count :: "bytes option list \<Rightarrow> nat" where
  "present_count ps = sum_list (map (\<lambda>p. if p = None then 0 else 1) ps)"

definition present_bytes :: "bytes option list \<Rightarrow> nat" where
  "present_bytes ps = sum_list (map (\<lambda>p. case p of None \<Rightarrow> 0 | Some d \<Rightarrow> length d) ps)"

definition assembly_ok :: "assembly \<Rightarrow> bool" where
  "assembly_ok a \<longleftrightarrow>
     as_received a = present_count (as_pieces a) \<and> as_bytes a = present_bytes (as_pieces a)
     \<and> as_bytes a \<le> MAX_ASSEMBLED_BYTES \<and> as_received a < length (as_pieces a)"

definition assembler_ok :: "assembler \<Rightarrow> bool" where
  "assembler_ok m \<longleftrightarrow>
     distinct (map fst m) \<and> length m \<le> MAX_IN_FLIGHT \<and> (\<forall>(k, a) \<in> set m. assembly_ok a)"

lemma present_update:
  assumes "i < length ps" and "ps ! i = None"
  shows "present_count (ps[i := Some d]) = present_count ps + 1"
    and "present_bytes (ps[i := Some d]) = present_bytes ps + length d"
  using assms by (simp_all add: present_count_def present_bytes_def map_update sum_list_update)

lemma present_replicate [simp]:
  "present_count (replicate n None) = 0" "present_bytes (replicate n None) = 0"
  by (induction n) (simp_all add: present_count_def present_bytes_def)

lemma present_count_le: "present_count ps \<le> length ps"
  by (induction ps) (auto simp: present_count_def)

lemma present_count_full: "present_count ps = length ps \<Longrightarrow> None \<notin> set ps"
proof (induction ps)
  case (Cons p ps)
  have "present_count (p # ps) = (if p = None then 0 else 1) + present_count ps"
    by (simp add: present_count_def)
  with Cons present_count_le [of ps] show ?case by (auto split: if_split_asm)
qed simp

lemma join_pieces_full: "None \<notin> set ps \<Longrightarrow> join_pieces ps = Some (concat (map the ps))"
proof (induction ps)
  case (Cons p ps)
  then show ?case by (cases p) auto
qed simp

lemma length_update: "length (AList.update k v m) = (if k \<in> fst ` set m then length m else length m + 1)"
  by (induction m) auto

lemma set_update: "set (AList.update k v m) \<subseteq> insert (k, v) (set m)"
  by (induction m) auto

lemma set_delete: "set (AList.delete k m) \<subseteq> set m"
  by (induction m) auto

lemma length_delete: "length (AList.delete k m) \<le> length m"
  by (induction m) auto

lemma assembler_ok_expire: "assembler_ok m \<Longrightarrow> assembler_ok (expire now m)"
  by (auto simp: assembler_ok_def expire_def distinct_map_filter intro: order_trans [OF length_filter_le])

lemma assembler_ok_delete: "assembler_ok m \<Longrightarrow> assembler_ok (AList.delete k m)"
  using set_delete [of k m] length_delete [of k m]
  by (auto simp: assembler_ok_def distinct_delete)

lemma assembler_ok_update:
  assumes "assembler_ok m" and "assembly_ok a" and "map_of m k = None \<Longrightarrow> length m < MAX_IN_FLIGHT"
  shows "assembler_ok (AList.update k a m)"
proof -
  have "k \<notin> fst ` set m \<Longrightarrow> length m < MAX_IN_FLIGHT"
    using assms(3) by (simp add: map_of_eq_None_iff)
  then have "length (AList.update k a m) \<le> MAX_IN_FLIGHT"
    using assms(1) by (auto simp: length_update assembler_ok_def)
  moreover have "distinct (map fst (AList.update k a m))"
    using assms(1) by (simp add: assembler_ok_def distinct_update)
  ultimately show ?thesis
    using assms(1,2) set_update [of k a m] by (force simp: assembler_ok_def)
qed

lemma map_of_ok: "assembler_ok m \<Longrightarrow> map_of m k = Some a \<Longrightarrow> assembly_ok a"
  by (auto simp: assembler_ok_def dest!: map_of_SomeD)

lemma update_update_same: "AList.update k a (AList.update k b m) = AList.update k a m"
  by (induction m) auto

lemma delete_update_same: "distinct (map fst m) \<Longrightarrow> AList.delete k (AList.update k a m) = AList.delete k m"
  by (induction m) (auto simp: delete_id)

text \<open>The assembly a fragment is added to: the one in flight, or a fresh one.\<close>

definition target :: "nat \<Rightarrow> fragment_header \<Rightarrow> assembler \<Rightarrow> assembly" where
  "target now h m =
     (case map_of (expire now m) (fh_key h) of Some a \<Rightarrow> a | None \<Rightarrow> new_assembly (fh_total h) now)"

lemma target_ok:
  assumes "assembler_ok m" and "fh_index h < fh_total h"
  shows "assembly_ok (target now h m)"
proof (cases "map_of (expire now m) (fh_key h)")
  case None
  with assms(2) show ?thesis by (simp add: target_def assembly_ok_def new_assembly_def)
next
  case (Some a)
  with map_of_ok [OF assembler_ok_expire [OF assms(1)] Some] show ?thesis by (simp add: target_def)
qed

text \<open>A fragment that fits extends its assembly or completes it.\<close>

lemma append_fragment_extends:
  assumes "assembler_ok m" and "fh_index h < fh_total h"
    and room: "map_of (expire now m) (fh_key h) = None \<Longrightarrow> length (expire now m) < MAX_IN_FLIGHT"
    and a: "a = target now h m" and "length (as_pieces a) = fh_total h"
    and "as_pieces a ! fh_index h = None"
    and "as_bytes a + length (fh_data h) \<le> MAX_ASSEMBLED_BYTES"
    and ps: "ps = (as_pieces a)[fh_index h := Some (fh_data h)]"
  shows "append_fragment now h m =
     (if as_received a + 1 < fh_total h
      then Some (Pending (as_received a + 1) (fh_total h),
                 AList.update (fh_key h)
                   (a\<lparr>as_bytes := as_bytes a + length (fh_data h),
                      as_received := as_received a + 1, as_pieces := ps\<rparr>) (expire now m))
      else Some (Complete (concat (map the ps)), AList.delete (fh_key h) (expire now m)))"
proof -
  have ok: "assembly_ok a" using target_ok [OF assms(1,2)] a by simp
  have dist: "distinct (map fst (expire now m))"
    using assembler_ok_expire [OF assms(1)] by (simp add: assembler_ok_def)
  have full: "join_pieces ps = Some (concat (map the ps))" if "\<not> as_received a + 1 < fh_total h"
  proof (rule join_pieces_full, rule present_count_full)
    have "present_count ps = present_count (as_pieces a) + 1"
      using present_update(1) assms(2,5,6) ps by simp
    then show "present_count ps = length ps"
      using that ok assms(5) present_count_le [of ps] by (simp add: assembly_ok_def ps)
  qed
  have t: "(case map_of (expire now m) (fh_key h) of Some a \<Rightarrow> a | None \<Rightarrow> new_assembly (fh_total h) now) = a"
    by (simp add: a target_def)
  have nr: "\<not> (map_of (expire now m) (fh_key h) = None \<and> MAX_IN_FLIGHT \<le> length (expire now m))"
    using room by auto
  show ?thesis
    using assms(2,5-7) full dist unfolding append_fragment_def Let_def t if_not_P [OF nr]
    by (auto simp: ps update_update_same delete_update_same not_le)
qed

lemma append_fragment_preserves:
  assumes "assembler_ok m" and "fh_index h < fh_total h"
  shows "\<exists>r m'. append_fragment now h m = Some (r, m') \<and> assembler_ok m'"
proof -
  let ?m = "expire now m"
  let ?a = "target now h m"
  have okm: "assembler_ok ?m" using assms(1) by (rule assembler_ok_expire)
  have ok: "assembly_ok ?a" using assms by (rule target_ok)
  have t: "(case map_of ?m (fh_key h) of Some a \<Rightarrow> a | None \<Rightarrow> new_assembly (fh_total h) now) = ?a"
    by (simp add: target_def)
  show ?thesis
  proof (cases "map_of ?m (fh_key h) = None \<and> MAX_IN_FLIGHT \<le> length ?m")
    case True
    with okm show ?thesis by (simp add: append_fragment_def Let_def)
  next
    case False
    then have room: "map_of ?m (fh_key h) = None \<Longrightarrow> length ?m < MAX_IN_FLIGHT" by auto
    have ok1: "assembler_ok (AList.update (fh_key h) ?a ?m)"
      using okm ok room by (rule assembler_ok_update)
    show ?thesis
    proof (cases "length (as_pieces ?a) = fh_total h \<and> as_pieces ?a ! fh_index h = None
        \<and> as_bytes ?a + length (fh_data h) \<le> MAX_ASSEMBLED_BYTES")
      case True
      let ?ps = "(as_pieces ?a)[fh_index h := Some (fh_data h)]"
      let ?b = "?a\<lparr>as_bytes := as_bytes ?a + length (fh_data h),
        as_received := as_received ?a + 1, as_pieces := ?ps\<rparr>"
      have "as_received ?a + 1 < fh_total h \<Longrightarrow> assembly_ok ?b"
        using True ok assms(2) by (auto simp: assembly_ok_def present_update)
      then have "as_received ?a + 1 < fh_total h \<Longrightarrow> assembler_ok (AList.update (fh_key h) ?b ?m)"
        using okm room by (auto intro: assembler_ok_update)
      then show ?thesis
        using append_fragment_extends [OF assms room refl _ _ _ refl] True okm
        by (auto simp: assembler_ok_delete)
    next
      case bad: False
      show ?thesis
        using bad assms(2) ok1 unfolding append_fragment_def Let_def t if_not_P [OF False]
        by (auto simp: assembler_ok_delete)
    qed
  qed
qed

lemma feed_preserves:
  "assembler_ok m \<Longrightarrow> \<exists>rs m'. feed ps m = Some (rs, m') \<and> assembler_ok m'"
proof (induction ps m rule: feed.induct)
  case (2 now p ps m)
  show ?case
  proof (cases "parse p")
    case None
    with 2 show ?thesis by simp
  next
    case (Some h)
    with append_fragment_preserves [OF "2.prems"] parse_in_range
    obtain r m' where r: "append_fragment now h m = Some (r, m')" and ok: "assembler_ok m'" by blast
    from "2.IH"(2) [OF Some r refl ok] obtain rs m'' where "feed ps m' = Some (rs, m'')"
      "assembler_ok m''" by blast
    with Some r show ?thesis by simp
  qed
qed simp

lemma buffered_bound:
  assumes "assembler_ok m"
  shows "sum_list (map (\<lambda>(k, a). as_bytes a) m) \<le> MAX_IN_FLIGHT * MAX_ASSEMBLED_BYTES"
proof -
  have "sum_list (map (\<lambda>(k, a). as_bytes a) m) \<le> sum_list (map (\<lambda>_. MAX_ASSEMBLED_BYTES) m)"
    using assms by (intro sum_list_mono) (auto simp: assembler_ok_def assembly_ok_def)
  also have "\<dots> = length m * MAX_ASSEMBLED_BYTES" by (simp add: sum_list_triv)
  also have "\<dots> \<le> MAX_IN_FLIGHT * MAX_ASSEMBLED_BYTES"
    using assms by (intro mult_le_mono1) (simp add: assembler_ok_def)
  finally show ?thesis .
qed

section \<open>Reassembly\<close>

definition piece_state :: "bytes list \<Rightarrow> nat list \<Rightarrow> bytes option list" where
  "piece_state c is = map (\<lambda>i. if i \<in> set is then Some (c ! i) else None) [0..<length c]"

lemma length_piece_state [simp]: "length (piece_state c is) = length c"
  by (simp add: piece_state_def)

lemma piece_state_nth [simp]:
  "i < length c \<Longrightarrow> piece_state c is ! i = (if i \<in> set is then Some (c ! i) else None)"
  by (simp add: piece_state_def)

lemma piece_state_snoc:
  "j < length c \<Longrightarrow> (piece_state c is)[j := Some (c ! j)] = piece_state c (is @ [j])"
  by (rule nth_equalityI) (auto simp: nth_list_update)

lemma piece_state_all:
  "set is = {..<length c} \<Longrightarrow> concat (map the (piece_state c is)) = concat c"
proof -
  assume "set is = {..<length c}"
  then have "map the (piece_state c is) = map ((!) c) [0..<length c]"
    by (simp add: piece_state_def)
  then show ?thesis by (simp add: map_nth)
qed

lemma partial_size:
  assumes "distinct is" and "set is \<subseteq> {..<length c}"
  shows "sum_list (map (\<lambda>i. length (c ! i)) is) \<le> length (concat c)"
proof -
  have "sum_list (map (\<lambda>i. length (c ! i)) is) = (\<Sum>i \<in> set is. length (c ! i))"
    using assms(1) by (rule sum_list_distinct_conv_sum_set)
  also have "\<dots> \<le> (\<Sum>i \<in> {..<length c}. length (c ! i))"
    using assms(2) by (intro sum_mono2) auto
  also have "\<dots> = length (concat c)"
    by (simp add: length_concat sum_list_sum_nth atLeast0LessThan)
  finally show ?thesis .
qed

lemma map_of_expire:
  "distinct (map fst m) \<Longrightarrow> map_of (expire now m) k =
   (case map_of m k of
      Some a \<Rightarrow> if now - as_started a < ASSEMBLY_LIFETIME then Some a else None
    | None \<Rightarrow> None)"
proof (induction m)
  case (Cons x m)
  obtain k' a where x: "x = (k', a)" by (cases x)
  have "k' \<notin> fst ` set m" using Cons.prems x by simp
  then have "map_of m k' = None" by (simp add: map_of_eq_None_iff)
  then show ?case using Cons by (auto simp: x expire_def)
qed (simp add: expire_def)

definition stream_header :: "fragment_key \<Rightarrow> byte \<Rightarrow> bytes list \<Rightarrow> nat \<Rightarrow> fragment_header" where
  "stream_header k ty c j =
     \<lparr>fh_key = k, fh_index = j, fh_total = length c, fh_original_type = ty, fh_data = c ! j\<rparr>"

definition stream_assembly :: "bytes list \<Rightarrow> nat list \<Rightarrow> nat \<Rightarrow> assembly" where
  "stream_assembly c is t0 =
     \<lparr>as_pieces = piece_state c is, as_received = length is,
      as_bytes = sum_list (map (\<lambda>i. length (c ! i)) is), as_started = t0\<rparr>"

text \<open>One more fragment of a stream whose indices \<open>is\<close> are already in.\<close>

lemma stream_step:
  assumes ok: "assembler_ok m" and j: "j < length c" and dist: "distinct (is @ [j])"
    and sub: "set is \<subseteq> {..<length c}" and size: "length (concat c) \<le> MAX_ASSEMBLED_BYTES"
    and room: "map_of (expire t m) k = None \<Longrightarrow> length (expire t m) < MAX_IN_FLIGHT"
    and tgt: "target t (stream_header k ty c j) m = stream_assembly c is t0"
  shows "append_fragment t (stream_header k ty c j) m =
     (if length is + 1 < length c
      then Some (Pending (length is + 1) (length c),
                 AList.update k (stream_assembly c (is @ [j]) t0) (expire t m))
      else Some (Complete (concat c), AList.delete k (expire t m)))"
proof -
  let ?h = "stream_header k ty c j"
  have fit: "sum_list (map (\<lambda>i. length (c ! i)) is) + length (c ! j) \<le> MAX_ASSEMBLED_BYTES"
    using partial_size [OF dist, of c] sub j size by simp
  have ext: "append_fragment t ?h m =
     (if as_received (stream_assembly c is t0) + 1 < fh_total ?h
      then Some (Pending (as_received (stream_assembly c is t0) + 1) (fh_total ?h),
                 AList.update (fh_key ?h)
                   ((stream_assembly c is t0)
                     \<lparr>as_bytes := as_bytes (stream_assembly c is t0) + length (fh_data ?h),
                      as_received := as_received (stream_assembly c is t0) + 1,
                      as_pieces := (as_pieces (stream_assembly c is t0))[fh_index ?h := Some (fh_data ?h)]\<rparr>)
                   (expire t m))
      else Some (Complete (concat (map the
              ((as_pieces (stream_assembly c is t0))[fh_index ?h := Some (fh_data ?h)]))),
              AList.delete (fh_key ?h) (expire t m)))"
    using ok j room tgt fit dist
    by (intro append_fragment_extends) (simp_all add: stream_header_def stream_assembly_def)
  show ?thesis
  proof (cases "length is + 1 < length c")
    case True
    then show ?thesis unfolding ext
      by (simp add: stream_header_def stream_assembly_def piece_state_snoc [OF j])
  next
    case False
    have card: "card (set (is @ [j])) = length is + 1" using distinct_card [OF dist] by simp
    have incl: "set (is @ [j]) \<subseteq> {..<length c}" using sub j by auto
    have "length is + 1 \<le> length c" using card card_mono [OF _ incl] by simp
    then have "set (is @ [j]) = {..<length c}"
      using False card incl by (intro card_subset_eq) auto
    from piece_state_all [OF this] False show ?thesis unfolding ext
      by (simp add: stream_header_def stream_assembly_def piece_state_snoc [OF j])
  qed
qed

text \<open>The answers to a stream of \<open>n\<close> fragments of which \<open>k\<close> were in before.\<close>

fun progress :: "nat \<Rightarrow> bytes \<Rightarrow> nat \<Rightarrow> nat \<Rightarrow> append_outcome list" where
  "progress n body k 0 = []"
| "progress n body k (Suc 0) = [Complete body]"
| "progress n body k (Suc (Suc r)) = Pending (k + 1) n # progress n body (k + 1) (Suc r)"

definition stream_packets :: "fragment_key \<Rightarrow> byte \<Rightarrow> bytes list \<Rightarrow> (nat \<times> packet) list \<Rightarrow> nat list \<Rightarrow> bool" where
  "stream_packets k ty c evs js \<longleftrightarrow>
     length evs = length js \<and>
     (\<forall>i < length evs. parse (snd (evs ! i)) = Some (stream_header k ty c (js ! i)))"

lemma stream_packets_Cons:
  "stream_packets k ty c (e # evs) js \<longleftrightarrow>
   (\<exists>j js'. js = j # js' \<and> parse (snd e) = Some (stream_header k ty c j)
     \<and> stream_packets k ty c evs js')"
  by (cases js) (auto simp: stream_packets_def All_less_Suc2 nth_Cons split: nat.splits)

lemma feed_stream:
  assumes "assembler_ok m" and "stream_packets k ty c evs js"
    and "distinct (is @ js)" and "set is \<union> set js = {..<length c}"
    and "length (concat c) \<le> MAX_ASSEMBLED_BYTES"
    and "\<forall>(t, p) \<in> set evs. t - t0 < ASSEMBLY_LIFETIME" and "evs \<noteq> []"
    and "map_of (expire (fst (hd evs)) m) k = None \<Longrightarrow> length (expire (fst (hd evs)) m) < MAX_IN_FLIGHT"
    and "target (fst (hd evs)) (stream_header k ty c (hd js)) m = stream_assembly c is t0"
  shows "\<exists>m'. feed evs m = Some (progress (length c) (concat c) (length is) (length evs), m')
     \<and> map_of m' k = None"
  using assms
proof (induction evs arbitrary: m js "is")
  case (Cons e evs)
  obtain t p where e: "e = (t, p)" by (cases e)
  from Cons.prems(2) obtain j js' where js: "js = j # js'"
    and parse: "parse p = Some (stream_header k ty c j)" and rest: "stream_packets k ty c evs js'"
    by (auto simp: stream_packets_Cons e)
  have len: "length evs = length js'" using rest by (simp add: stream_packets_def)
  have j: "j < length c" and sub: "set is \<subseteq> {..<length c}" using Cons.prems(4) js by auto
  have card: "length is + length js = length c"
    using distinct_card [OF Cons.prems(3)] Cons.prems(4) by simp
  have step: "append_fragment t (stream_header k ty c j) m =
     (if length is + 1 < length c
      then Some (Pending (length is + 1) (length c),
                 AList.update k (stream_assembly c (is @ [j]) t0) (expire t m))
      else Some (Complete (concat c), AList.delete k (expire t m)))"
    using Cons.prems j sub by (intro stream_step) (auto simp: js e)
  show ?case
  proof (cases evs)
    case Nil
    with len card js have "\<not> length is + 1 < length c" by simp
    with step parse Nil show ?thesis by (simp add: e delete_conv')
  next
    case (Cons e' evs')
    let ?m = "AList.update k (stream_assembly c (is @ [j]) t0) (expire t m)"
    from local.Cons len card js have more: "length is + 1 < length c" by simp
    from step more have step': "append_fragment t (stream_header k ty c j) m =
      Some (Pending (length is + 1) (length c), ?m)" by simp
    have ok: "assembler_ok ?m"
      using append_fragment_preserves [OF Cons.prems(1), of "stream_header k ty c j" t] j step'
      by (simp add: stream_header_def)
    have live: "map_of (expire (fst e') ?m) k = Some (stream_assembly c (is @ [j]) t0)"
      using Cons.prems(6) local.Cons ok
      by (simp add: map_of_expire assembler_ok_def update_conv' stream_assembly_def split_beta)
    have "\<exists>m'. feed evs ?m = Some (progress (length c) (concat c) (length (is @ [j])) (length evs), m')
       \<and> map_of m' k = None"
      using ok rest Cons.prems(3-6) js local.Cons live
      by (intro Cons.IH [of ?m js' "is @ [j]"]) (auto simp: target_def stream_header_def)
    with step' parse local.Cons show ?thesis by (auto simp: e)
  qed
qed simp

definition payload_index :: "bytes \<Rightarrow> nat" where
  "payload_index pl = be_to_nat (take 2 (drop 8 pl))"

lemma payload_index_fragment [simp]:
  "i < 65536 \<Longrightarrow> payload_index (fragment_payload fid ty n i d) = i"
  by (simp add: payload_index_def fragment_payload_def)

lemma split_packet_eq:
  assumes "body \<noteq> []" and "0 < slice_bytes"
    and "div_ceil (length body) slice_bytes \<le> MAX_FRAGMENTS"
  shows "split_packet fid ty body slice_bytes =
    map (\<lambda>i. fragment_payload fid ty (length (chunks slice_bytes body)) i (chunks slice_bytes body ! i))
      [0..<length (chunks slice_bytes body)]"
  using assms
  by (intro nth_equalityI) (simp_all add: split_packet_def Let_def length_chunks nth_enumerate_eq)

lemma stream_of_permutation:
  assumes "body \<noteq> []" and "0 < n" and "div_ceil (length body) n \<le> MAX_FRAGMENTS"
    and perm: "mset (map (\<lambda>(t, p). p_payload p) evs) = mset (split_packet fid ty body n)"
    and sender: "\<forall>(t, p) \<in> set evs. p_sender_id p = s"
  shows "\<exists>js. stream_packets \<lparr>fk_sender = s, fk_id = fid\<rparr> ty (chunks n body) evs js
    \<and> distinct js \<and> set js = {..<length (chunks n body)}"
proof -
  let ?c = "chunks n body"
  let ?f = "\<lambda>i. fragment_payload fid ty (length ?c) i (?c ! i)"
  let ?js = "map payload_index (map (\<lambda>(t, p). p_payload p) evs)"
  have small: "length ?c \<le> MAX_FRAGMENTS" using assms(2,3) by (simp add: length_chunks)
  have sp: "split_packet fid ty body n = map ?f [0..<length ?c]"
    using assms(1-3) by (rule split_packet_eq)
  have "mset ?js = image_mset payload_index (mset (split_packet fid ty body n))"
    by (simp only: mset_map [of payload_index "map (\<lambda>(t, p). p_payload p) evs"] perm)
  also have "\<dots> = mset (map payload_index (map ?f [0..<length ?c]))"
    by (simp only: sp mset_map)
  also have "map payload_index (map ?f [0..<length ?c]) = [0..<length ?c]"
    using small by (intro nth_equalityI) (simp_all add: MAX_FRAGMENTS_def)
  finally have js: "mset ?js = mset [0..<length ?c]" .
  then have "distinct ?js" using mset_eq_imp_distinct_iff [OF js] by simp
  moreover have "set ?js = {..<length ?c}" using mset_eq_setD [OF js] by auto
  moreover have "stream_packets \<lparr>fk_sender = s, fk_id = fid\<rparr> ty ?c evs ?js"
    unfolding stream_packets_def
  proof (intro conjI allI impI)
    fix i assume i: "i < length evs"
    obtain t p where e: "evs ! i = (t, p)" by (cases "evs ! i")
    then have mem: "(t, p) \<in> set evs" using i nth_mem by force
    then have "p_payload p \<in> set (split_packet fid ty body n)"
      using mset_eq_setD [OF perm] by force
    then obtain j where j: "j < length ?c" "p_payload p = ?f j" by (auto simp: sp)
    then have "parse p = Some (stream_header \<lparr>fk_sender = s, fk_id = fid\<rparr> ty ?c j)"
      using small sender mem parse_fragment_payload [OF j(2) j(1)] by (auto simp: stream_header_def)
    moreover have "?js ! i = j" using i j small by (simp add: e MAX_FRAGMENTS_def)
    ultimately show "parse (snd (evs ! i)) =
        Some (stream_header \<lparr>fk_sender = s, fk_id = fid\<rparr> ty ?c (?js ! i))" by (simp add: e)
  qed simp
  ultimately show ?thesis by blast
qed

lemma reassembles:
  assumes "assembler_ok m" and "body \<noteq> []" and "0 < n"
    and "div_ceil (length body) n \<le> MAX_FRAGMENTS" and "length body \<le> MAX_ASSEMBLED_BYTES"
    and "mset (map (\<lambda>(t, p). p_payload p) evs) = mset (split_packet fid ty body n)"
    and "\<forall>(t, p) \<in> set evs. p_sender_id p = s"
    and "\<forall>(t, p) \<in> set evs. t - fst (hd evs) < ASSEMBLY_LIFETIME"
    and "map_of m \<lparr>fk_sender = s, fk_id = fid\<rparr> = None" and "length m < MAX_IN_FLIGHT"
  shows "\<exists>m'. feed evs m = Some (progress (length evs) body 0 (length evs), m')"
proof -
  let ?k = "\<lparr>fk_sender = s, fk_id = fid\<rparr>"
  let ?c = "chunks n body"
  from stream_of_permutation [OF assms(2,3,4,6,7)] obtain js where
    js: "stream_packets ?k ty ?c evs js" "distinct js" "set js = {..<length ?c}" by blast
  have len: "length evs = length ?c"
    using js distinct_card [of js] by (simp add: stream_packets_def)
  have "?c \<noteq> []" using assms(2,3) by (simp add: chunks_step)
  with len have "evs \<noteq> []" by auto
  have gone: "map_of (expire t m) ?k = None" for t
    using assms(1,9) by (simp add: map_of_expire assembler_ok_def)
  have tgt: "target (fst (hd evs)) (stream_header ?k ty ?c (hd js)) m =
      stream_assembly ?c [] (fst (hd evs))"
    using gone by (simp add: target_def stream_header_def stream_assembly_def new_assembly_def
        piece_state_def map_replicate_trivial)
  have room: "length (expire t m) < MAX_IN_FLIGHT" for t
    using assms(10) length_filter_le unfolding expire_def by (rule le_less_trans [rotated])
  have "\<exists>m'. feed evs m = Some (progress (length ?c) (concat ?c) (length ([] :: nat list)) (length evs), m')
     \<and> map_of m' ?k = None"
    using js assms(1,5,8) \<open>evs \<noteq> []\<close> tgt room concat_chunks [OF assms(3), of body]
    by (intro feed_stream) auto
  then show ?thesis using len concat_chunks [OF assms(3), of body] by auto
qed

section \<open>Properties\<close>

text \<open>
  C13.  Reassembly in any order: the fragments of a split body, delivered by one sender in
  an arbitrary order within the lifetime of an assembly, are each acknowledged as progress
  and the last one to arrive yields exactly the original bytes.
\<close>

theorem reassembly_any_order:
  assumes "assembler_ok m" and "body \<noteq> []" and "0 < n"
    and "div_ceil (length body) n \<le> MAX_FRAGMENTS" and "length body \<le> MAX_ASSEMBLED_BYTES"
    and "mset (map (\<lambda>(t, p). p_payload p) evs) = mset (split_packet fid ty body n)"
    and "\<forall>(t, p) \<in> set evs. p_sender_id p = s"
    and "\<forall>(t, p) \<in> set evs. t - fst (hd evs) < ASSEMBLY_LIFETIME"
    and "map_of m \<lparr>fk_sender = s, fk_id = fid\<rparr> = None" and "length m < MAX_IN_FLIGHT"
  shows "\<exists>m'. feed evs m = Some (progress (length evs) body 0 (length evs), m')"
  using assms by (rule reassembles)

text \<open>Three slices of a five-byte body, delivered last, first, middle.\<close>

definition sample_fragments :: "(nat \<times> packet) list" where
  "sample_fragments =
     map (\<lambda>i. (1000 * i, sample_packet\<lparr>p_payload := split_packet 9 2 [1, 2, 3, 4, 5] 2 ! i\<rparr>)) [2, 0, 1]"

lemma sample_split:
  "split_packet 9 2 [1, 2, 3, 4, 5] 2 =
   [fragment_payload 9 2 3 0 [1, 2], fragment_payload 9 2 3 1 [3, 4], fragment_payload 9 2 3 2 [5]]"
  by (simp add: split_packet_def div_ceil_def MAX_FRAGMENTS_def chunks_step Let_def)
    (simp add: eval_nat_numeral)

theorem reassembly_any_order_witness:
  "\<exists>m'. feed sample_fragments assembler_new =
     Some ([Pending 1 3, Pending 2 3, Complete [1, 2, 3, 4, 5]], m')"
proof -
  have "\<exists>m'. feed sample_fragments assembler_new =
     Some (progress (length sample_fragments) [1, 2, 3, 4, 5] 0 (length sample_fragments), m')"
  proof (rule reassembly_any_order)
    show "mset (map (\<lambda>(t, p). p_payload p) sample_fragments) = mset (split_packet 9 2 [1, 2, 3, 4, 5] 2)"
      by (simp add: sample_fragments_def sample_split)
    show "\<forall>(t, p) \<in> set sample_fragments. p_sender_id p = p_sender_id sample_packet"
      by (simp add: sample_fragments_def)
  qed (simp_all add: assembler_ok_def assembler_new_def div_ceil_def MAX_FRAGMENTS_def
      MAX_ASSEMBLED_BYTES_def MAX_IN_FLIGHT_def sample_fragments_def ASSEMBLY_LIFETIME_def)
  then show ?thesis by (simp add: sample_fragments_def numeral_3_eq_3 numeral_2_eq_2)
qed

text \<open>
  C14.  Whatever packets arrive and whenever, reassembly never panics, never holds more
  than 128 assemblies, and never buffers more than 128 times the assembly limit.
\<close>

theorem assembler_bounded:
  "\<exists>rs m. feed evs assembler_new = Some (rs, m) \<and> length m \<le> MAX_IN_FLIGHT
     \<and> sum_list (map (\<lambda>(k, a). as_bytes a) m) \<le> MAX_IN_FLIGHT * MAX_ASSEMBLED_BYTES"
proof -
  have "assembler_ok assembler_new" by (simp add: assembler_ok_def assembler_new_def)
  from feed_preserves [OF this] obtain rs m where "feed evs assembler_new = Some (rs, m)"
    and "assembler_ok m" by blast
  then show ?thesis using buffered_bound by (auto simp: assembler_ok_def)
qed

end
