(* ===== verification/Announce.thy ===== *)
theory Announce
  imports Protocol Tlv
begin

text \<open>
  The announce payload (announce.rs): capability bits, the TLV record a peer publishes
  about itself, nickname truncation, and the Ed25519 signature over a packet's canonical
  bytes.  The signature scheme of \<open>ed25519_dalek\<close> is a parameter: \<open>sign\<close> maps the
  signed bytes to the signature, \<open>key_ok\<close> is \<open>VerifyingKey::from_bytes\<close> succeeding, and
  \<open>check\<close> is \<open>verify(..).is_ok()\<close>.
\<close>

section \<open>Capabilities\<close>

definition cap_prekeys :: u64 where "cap_prekeys = push_bit 0 1"
definition cap_wifi_bulk :: u64 where "cap_wifi_bulk = push_bit 1 1"
definition cap_gateway :: u64 where "cap_gateway = push_bit 2 1"
definition cap_groups :: u64 where "cap_groups = push_bit 3 1"
definition cap_board :: u64 where "cap_board = push_bit 4 1"
definition cap_vouch :: u64 where "cap_vouch = push_bit 5 1"
definition cap_mesh_diagnostics :: u64 where "cap_mesh_diagnostics = push_bit 6 1"
definition cap_bridge :: u64 where "cap_bridge = push_bit 7 1"
definition cap_private_media :: u64 where "cap_private_media = push_bit 8 1"

definition cap_has :: "u64 \<Rightarrow> u64 \<Rightarrow> bool" where
  "cap_has v b \<longleftrightarrow> v AND b = b"

definition cap_with :: "u64 \<Rightarrow> u64 \<Rightarrow> u64" where
  "cap_with v b = v OR b"

text \<open>\<open>Capabilities::encode\<close>: push the low byte, shift, stop at zero.\<close>

function cap_encode :: "u64 \<Rightarrow> bytes" where
  "cap_encode v =
     (let rest = drop_bit 8 v in
      ucast (v AND 0xFF) # (if rest = 0 then [] else cap_encode rest))"
  by pat_completeness auto

lemma unat_drop_byte_less: "drop_bit 8 (v :: u64) \<noteq> 0 \<Longrightarrow> unat (drop_bit 8 v) < unat v"
proof -
  assume "drop_bit 8 v \<noteq> 0"
  then have "v \<noteq> 0" by auto
  then have "0 < unat v" using unat_gt_0 by blast
  then show ?thesis by (simp add: drop_bit_eq_div unat_div)
qed

termination cap_encode
  by (relation "measure unat") (simp_all add: unat_drop_byte_less)

declare cap_encode.simps [simp del]

text \<open>\<open>Capabilities::decode\<close>: the first eight bytes, each shifted to its place.\<close>

definition cap_decode :: "bytes \<Rightarrow> u64" where
  "cap_decode bs = or_bytes 0 (take 8 bs) 0"

definition cap_labels :: "u64 \<Rightarrow> string list" where
  "cap_labels v =
     map snd (filter (\<lambda>(b, _). cap_has v b)
       [(cap_gateway, ''gateway''), (cap_bridge, ''bridge''), (cap_groups, ''groups''),
        (cap_board, ''board''), (cap_vouch, ''vouch''), (cap_prekeys, ''prekeys''),
        (cap_wifi_bulk, ''wifi-bulk''), (cap_mesh_diagnostics, ''diagnostics''),
        (cap_private_media, ''private-media'')])"

lemma low_byte_and_rest: "v = ucast (ucast (v AND 0xFF) :: byte) OR push_bit 8 (drop_bit 8 (v :: u64))"
proof -
  have "v AND 0xFF = take_bit 8 v" by (simp add: take_bit_eq_mask mask_eq_exp_minus_1)
  then show ?thesis
    by (auto simp: bit_eq_iff bit_simps not_less)
qed

lemma push_bit_split:
  "push_bit n (v :: u64) =
   push_bit n (ucast (ucast (v AND 0xFF) :: byte)) OR push_bit (n + 8) (drop_bit 8 v)"
  by (subst low_byte_and_rest [of v]) (simp add: push_bit_or push_bit_push_bit)

lemma cap_or_encode: "or_bytes i (cap_encode v) acc = acc OR push_bit (i * 8) v"
proof (induction v arbitrary: i acc rule: cap_encode.induct)
  case (1 v)
  show ?case
  proof (cases "drop_bit 8 v = 0")
    case True
    then show ?thesis using push_bit_split [of "i * 8" v] by (simp add: cap_encode.simps [of v])
  next
    case False
    then show ?thesis using 1 push_bit_split [of "i * 8" v]
      by (simp add: cap_encode.simps [of v] or.assoc add.commute)
  qed
qed

lemma cap_encode_length:
  "drop_bit (8 * k) v = 0 \<Longrightarrow> 0 < k \<Longrightarrow> length (cap_encode v) \<le> k"
proof (induction v arbitrary: k rule: cap_encode.induct)
  case (1 v)
  show ?case
  proof (cases "drop_bit 8 v = 0")
    case True
    with 1 show ?thesis by (simp add: cap_encode.simps [of v])
  next
    case False
    with 1 have "k \<noteq> 1" by auto
    with 1 obtain j where k: "k = Suc j" "0 < j" by (cases k) auto
    with 1 have "drop_bit (8 * j) (drop_bit 8 v) = 0" by (simp add: add.commute)
    with 1 k False show ?thesis by (simp add: cap_encode.simps [of v])
  qed
qed

lemma cap_encode_length_le_8: "length (cap_encode v) \<le> 8"
proof (rule cap_encode_length)
  show "drop_bit (8 * 8) v = 0" by (simp add: bit_eq_iff bit_simps)
qed simp

lemma cap_encode_nonempty [simp]: "cap_encode v \<noteq> []"
  by (simp add: cap_encode.simps [of v] Let_def)

lemma cap_decode_encode: "cap_decode (cap_encode v) = v"
  using cap_encode_length_le_8 [of v] by (simp add: cap_decode_def cap_or_encode)

section \<open>The announcement\<close>

definition MAX_NICKNAME_BYTES :: nat where
  "MAX_NICKNAME_BYTES = 24"

definition COMPRESSION_THRESHOLD :: nat where
  "COMPRESSION_THRESHOLD = 100"

abbreviation (input) TLV_NICKNAME :: byte where "TLV_NICKNAME \<equiv> 0x01"
abbreviation (input) TLV_NOISE_PUBLIC_KEY :: byte where "TLV_NOISE_PUBLIC_KEY \<equiv> 0x02"
abbreviation (input) TLV_SIGNING_PUBLIC_KEY :: byte where "TLV_SIGNING_PUBLIC_KEY \<equiv> 0x03"
abbreviation (input) TLV_DIRECT_NEIGHBORS :: byte where "TLV_DIRECT_NEIGHBORS \<equiv> 0x04"
abbreviation (input) TLV_CAPABILITIES :: byte where "TLV_CAPABILITIES \<equiv> 0x05"
abbreviation (input) TLV_BRIDGE_GEOHASH :: byte where "TLV_BRIDGE_GEOHASH \<equiv> 0x06"

record announcement =
  an_nickname :: text_bytes
  an_noise_public_key :: bytes
  an_signing_public_key :: bytes
  an_direct_neighbors :: "bytes list option"
  an_capabilities :: "bytes option"
  an_bridge_geohash :: "text_bytes option"

text \<open>\<open>while end > 0 && !nickname.is_char_boundary(end)\<close>, counting down.\<close>

fun boundary_below :: "text_bytes \<Rightarrow> nat \<Rightarrow> nat" where
  "boundary_below s 0 = 0"
| "boundary_below s (Suc n) = (if is_char_boundary s (Suc n) then Suc n else boundary_below s n)"

definition truncate_nickname :: "text_bytes \<Rightarrow> text_bytes" where
  "truncate_nickname nickname =
     (if length nickname \<le> MAX_NICKNAME_BYTES then nickname
      else take (boundary_below nickname MAX_NICKNAME_BYTES) nickname)"

definition announcement_new :: "text_bytes \<Rightarrow> bytes \<Rightarrow> bytes \<Rightarrow> announcement" where
  "announcement_new nickname noise signing =
     \<lparr>an_nickname = truncate_nickname nickname, an_noise_public_key = noise,
      an_signing_public_key = signing, an_direct_neighbors = None,
      an_capabilities = None, an_bridge_geohash = None\<rparr>"

definition with_capabilities :: "announcement \<Rightarrow> u64 \<Rightarrow> announcement" where
  "with_capabilities a v = a\<lparr>an_capabilities := Some (cap_encode v)\<rparr>"

definition advertised :: "announcement \<Rightarrow> u64 option" where
  "advertised a = map_option cap_decode (an_capabilities a)"

text \<open>The closure \<open>fits\<close> and the three best-effort records, in the order they are pushed.\<close>

definition fits :: "bytes \<Rightarrow> nat \<Rightarrow> bool" where
  "fits d value_len \<longleftrightarrow> length d + 2 + value_len < COMPRESSION_THRESHOLD"

definition push_neighbors :: "bytes list option \<Rightarrow> bytes \<Rightarrow> bytes" where
  "push_neighbors neighbors d =
     (case neighbors of
        None \<Rightarrow> d
      | Some ns \<Rightarrow>
          let flat = concat (take 10 ns) in
          if flat \<noteq> [] \<and> length flat mod 8 = 0 \<and> length flat \<le> 255 \<and> fits d (length flat)
          then d @ push_tlv1 TLV_DIRECT_NEIGHBORS flat else d)"

definition push_capabilities :: "bytes option \<Rightarrow> bytes \<Rightarrow> bytes" where
  "push_capabilities caps d =
     (case caps of
        None \<Rightarrow> d
      | Some c \<Rightarrow>
          if length c \<le> 255 \<and> fits d (length c) then d @ push_tlv1 TLV_CAPABILITIES c else d)"

definition push_bridge :: "text_bytes option \<Rightarrow> bytes \<Rightarrow> bytes" where
  "push_bridge cell d =
     (case cell of
        None \<Rightarrow> d
      | Some b \<Rightarrow>
          if b \<noteq> [] \<and> length b \<le> 12 \<and> fits d (length b)
          then d @ push_tlv1 TLV_BRIDGE_GEOHASH b else d)"

definition announcement_encode :: "announcement \<Rightarrow> bytes option" where
  "announcement_encode a =
     (if length (an_nickname a) > 255 \<or> length (an_noise_public_key a) > 255
         \<or> length (an_signing_public_key a) > 255 then None
      else
        let d = push_tlv1 TLV_NICKNAME (an_nickname a)
                @ push_tlv1 TLV_NOISE_PUBLIC_KEY (an_noise_public_key a)
                @ push_tlv1 TLV_SIGNING_PUBLIC_KEY (an_signing_public_key a)
        in Some (push_bridge (an_bridge_geohash a)
             (push_capabilities (an_capabilities a)
               (push_neighbors (an_direct_neighbors a) d))))"

text \<open>The mutable variables of the decoding loop.\<close>

record announcement_draft =
  dr_nickname :: "text_bytes option"
  dr_noise :: "bytes option"
  dr_signing :: "bytes option"
  dr_neighbors :: "bytes list option"
  dr_capabilities :: "bytes option"
  dr_bridge :: "text_bytes option"

definition announcement_field :: "byte \<Rightarrow> bytes \<Rightarrow> announcement_draft \<Rightarrow> announcement_draft option" where
  "announcement_field t v s =
     Some (if t = TLV_NICKNAME then s\<lparr>dr_nickname := from_utf8 v\<rparr>
           else if t = TLV_NOISE_PUBLIC_KEY then s\<lparr>dr_noise := Some v\<rparr>
           else if t = TLV_SIGNING_PUBLIC_KEY then s\<lparr>dr_signing := Some v\<rparr>
           else if t = TLV_DIRECT_NEIGHBORS then
             (if 0 < length v \<and> length v mod 8 = 0 then s\<lparr>dr_neighbors := Some (chunks 8 v)\<rparr> else s)
           else if t = TLV_CAPABILITIES then s\<lparr>dr_capabilities := Some v\<rparr>
           else if t = TLV_BRIDGE_GEOHASH \<and> length v \<le> 12 then s\<lparr>dr_bridge := from_utf8 v\<rparr>
           else s)"

definition empty_draft :: announcement_draft where
  "empty_draft = \<lparr>dr_nickname = None, dr_noise = None, dr_signing = None,
     dr_neighbors = None, dr_capabilities = None, dr_bridge = None\<rparr>"

definition announcement_decode :: "bytes \<Rightarrow> announcement option" where
  "announcement_decode d = do {
     s \<leftarrow> tlv1_loop announcement_field d empty_draft;
     nickname \<leftarrow> dr_nickname s;
     noise \<leftarrow> dr_noise s;
     signing \<leftarrow> dr_signing s;
     Some \<lparr>an_nickname = nickname, an_noise_public_key = noise, an_signing_public_key = signing,
           an_direct_neighbors = dr_neighbors s, an_capabilities = dr_capabilities s,
           an_bridge_geohash = dr_bridge s\<rparr>
   }"

section \<open>Signatures\<close>

definition sign_packet :: "(bytes \<Rightarrow> bytes) \<Rightarrow> packet \<Rightarrow> bool \<times> packet" where
  "sign_packet sign p =
     (case signing_bytes p of
        None \<Rightarrow> (False, p)
      | Some b \<Rightarrow> (True, p\<lparr>p_signature := Some (sign b)\<rparr>))"

definition verify_packet ::
  "(bytes \<Rightarrow> bool) \<Rightarrow> (bytes \<Rightarrow> bytes \<Rightarrow> bytes \<Rightarrow> bool) \<Rightarrow> packet \<Rightarrow> bytes \<Rightarrow> bool" where
  "verify_packet key_ok check p key =
     (case p_signature p of
        None \<Rightarrow> False
      | Some sig \<Rightarrow>
          if length sig \<noteq> 64 then False
          else if length key \<noteq> 32 then False
          else if \<not> key_ok key then False
          else (case signing_bytes p of
                  None \<Rightarrow> False
                | Some b \<Rightarrow> check key b sig))"

section \<open>Truncation\<close>

lemma boundary_below_le: "boundary_below s n \<le> n"
  by (induction n) auto

lemma boundary_below_boundary: "is_char_boundary s (boundary_below s n)"
  by (induction n) (auto simp: is_char_boundary_def)

lemma boundary_below_maximal:
  "boundary_below s n < i \<Longrightarrow> i \<le> n \<Longrightarrow> \<not> is_char_boundary s i"
  by (induction n) (auto simp: le_Suc_eq split: if_split_asm)

lemma truncate_nickname_length: "length (truncate_nickname s) \<le> MAX_NICKNAME_BYTES"
  using boundary_below_le [of s MAX_NICKNAME_BYTES] by (auto simp: truncate_nickname_def)

lemma truncate_nickname_utf8: "utf8_valid s \<Longrightarrow> utf8_valid (truncate_nickname s)"
  by (simp add: truncate_nickname_def utf8_valid_take boundary_below_boundary)

section \<open>Encoding and decoding\<close>

text \<open>
  Each best-effort record appends either nothing or one record within the budget, and
  reading it back sets its own field and no other.
\<close>

definition best_effort ::
  "bytes \<Rightarrow> bytes \<Rightarrow> (announcement_draft \<Rightarrow> announcement_draft) \<Rightarrow> bool" where
  "best_effort d d' f \<longleftrightarrow>
     (\<exists>e. d' = d @ e \<and> (length d < COMPRESSION_THRESHOLD \<longrightarrow> length d' < COMPRESSION_THRESHOLD)
       \<and> (\<forall>rest s. tlv1_loop announcement_field (e @ rest) s =
            tlv1_loop announcement_field rest (if e = [] then s else f s)))"

lemma best_effort_absent: "best_effort d d f"
  unfolding best_effort_def by (rule exI [of _ "[]"]) simp

lemma best_effort_record:
  assumes "fits d (length v)" and "length v \<le> 255"
    and "\<And>s. announcement_field t v s = Some (f s)"
  shows "best_effort d (d @ push_tlv1 t v) f"
  unfolding best_effort_def
  by (rule exI [of _ "push_tlv1 t v"]) (use assms in \<open>simp add: fits_def tlv1.loop_put\<close>)

lemma push_neighbors_record:
  assumes "case ns of None \<Rightarrow> True | Some hs \<Rightarrow> list_all (\<lambda>h. length h = 8) hs"
  shows "best_effort d (push_neighbors ns d) (\<lambda>s. s\<lparr>dr_neighbors := map_option (take 10) ns\<rparr>)"
proof (cases "push_neighbors ns d = d")
  case False
  then obtain hs where ns: "ns = Some hs" by (auto simp: push_neighbors_def split: option.splits)
  obtain flat where flat: "flat = concat (take 10 hs)" by simp
  from False ns have e: "push_neighbors ns d = d @ push_tlv1 TLV_DIRECT_NEIGHBORS flat"
    and c: "flat \<noteq> []" "length flat mod 8 = 0" "length flat \<le> 255" "fits d (length flat)"
    by (auto simp: push_neighbors_def Let_def flat split: if_split_asm)
  have "list_all (\<lambda>h. length h = 8) (take 10 hs)"
    using assms ns by (auto simp: list_all_iff dest: in_set_takeD)
  then have "chunks 8 flat = take 10 hs" by (simp add: flat chunks_concat)
  with c ns show ?thesis unfolding e
    by (intro best_effort_record) (simp_all add: announcement_field_def)
qed (simp add: best_effort_absent)

lemma push_capabilities_record:
  "best_effort d (push_capabilities c d) (\<lambda>s. s\<lparr>dr_capabilities := c\<rparr>)"
  by (auto simp: push_capabilities_def announcement_field_def best_effort_absent
      intro!: best_effort_record split: option.splits)

lemma push_bridge_record:
  assumes "case g of None \<Rightarrow> True | Some b \<Rightarrow> utf8_valid b"
  shows "best_effort d (push_bridge g d) (\<lambda>s. s\<lparr>dr_bridge := g\<rparr>)"
  using assms by (auto simp: push_bridge_def announcement_field_def best_effort_absent
      intro!: best_effort_record split: option.splits)

definition wf_announcement :: "announcement \<Rightarrow> bool" where
  "wf_announcement a \<longleftrightarrow>
     utf8_valid (an_nickname a) \<and> length (an_nickname a) \<le> MAX_NICKNAME_BYTES
     \<and> length (an_noise_public_key a) = 32 \<and> length (an_signing_public_key a) = 32
     \<and> (case an_direct_neighbors a of None \<Rightarrow> True | Some hs \<Rightarrow> list_all (\<lambda>h. length h = 8) hs)
     \<and> (case an_bridge_geohash a of None \<Rightarrow> True | Some b \<Rightarrow> utf8_valid b)"

definition mandatory_records :: "announcement \<Rightarrow> bytes" where
  "mandatory_records a =
     push_tlv1 TLV_NICKNAME (an_nickname a) @ push_tlv1 TLV_NOISE_PUBLIC_KEY (an_noise_public_key a)
     @ push_tlv1 TLV_SIGNING_PUBLIC_KEY (an_signing_public_key a)"

lemma mandatory_records_length: "wf_announcement a \<Longrightarrow> length (mandatory_records a) \<le> 94"
  by (simp add: mandatory_records_def wf_announcement_def MAX_NICKNAME_BYTES_def)

lemma mandatory_records_loop:
  "wf_announcement a \<Longrightarrow>
   tlv1_loop announcement_field (mandatory_records a @ rest) empty_draft =
   tlv1_loop announcement_field rest (empty_draft\<lparr>dr_nickname := Some (an_nickname a),
     dr_noise := Some (an_noise_public_key a), dr_signing := Some (an_signing_public_key a)\<rparr>)"
  by (simp add: mandatory_records_def wf_announcement_def MAX_NICKNAME_BYTES_def tlv1.loop_put
      announcement_field_def)

lemma encode_mandatory:
  "wf_announcement a \<Longrightarrow>
   announcement_encode a = Some (push_bridge (an_bridge_geohash a)
     (push_capabilities (an_capabilities a)
       (push_neighbors (an_direct_neighbors a) (mandatory_records a))))"
  by (simp add: announcement_encode_def wf_announcement_def MAX_NICKNAME_BYTES_def
      mandatory_records_def Let_def)

text \<open>What of an announcement reaches the far end: the optional fields may be dropped.\<close>

definition trimmed :: "announcement \<Rightarrow> announcement \<Rightarrow> bool" where
  "trimmed a b \<longleftrightarrow>
     an_nickname b = an_nickname a \<and> an_noise_public_key b = an_noise_public_key a
     \<and> an_signing_public_key b = an_signing_public_key a
     \<and> an_direct_neighbors b \<in> {None, map_option (take 10) (an_direct_neighbors a)}
     \<and> an_capabilities b \<in> {None, an_capabilities a}
     \<and> an_bridge_geohash b \<in> {None, an_bridge_geohash a}"

lemma announcement_travels:
  assumes "wf_announcement a"
  shows "\<exists>d b. announcement_encode a = Some d \<and> length d < COMPRESSION_THRESHOLD
     \<and> announcement_decode d = Some b \<and> trimmed a b"
proof -
  let ?m = "mandatory_records a"
  let ?n = "push_neighbors (an_direct_neighbors a) ?m"
  let ?c = "push_capabilities (an_capabilities a) ?n"
  let ?d = "push_bridge (an_bridge_geohash a) ?c"
  have m: "length ?m < COMPRESSION_THRESHOLD"
    using mandatory_records_length [OF assms] by (simp add: COMPRESSION_THRESHOLD_def)
  obtain e1 where e1: "?n = ?m @ e1" "length ?n < COMPRESSION_THRESHOLD"
    "\<And>rest s. tlv1_loop announcement_field (e1 @ rest) s =
       tlv1_loop announcement_field rest (if e1 = [] then s
         else s\<lparr>dr_neighbors := map_option (take 10) (an_direct_neighbors a)\<rparr>)"
    using push_neighbors_record [of "an_direct_neighbors a" ?m] m assms
    by (auto simp: best_effort_def wf_announcement_def)
  obtain e2 where e2: "?c = ?n @ e2" "length ?c < COMPRESSION_THRESHOLD"
    "\<And>rest s. tlv1_loop announcement_field (e2 @ rest) s =
       tlv1_loop announcement_field rest (if e2 = [] then s
         else s\<lparr>dr_capabilities := an_capabilities a\<rparr>)"
    using push_capabilities_record [of ?n "an_capabilities a"] e1(2) by (auto simp: best_effort_def)
  obtain e3 where e3: "?d = ?c @ e3" "length ?d < COMPRESSION_THRESHOLD"
    "\<And>rest s. tlv1_loop announcement_field (e3 @ rest) s =
       tlv1_loop announcement_field rest (if e3 = [] then s
         else s\<lparr>dr_bridge := an_bridge_geohash a\<rparr>)"
    using push_bridge_record [of "an_bridge_geohash a" ?c] e2(2) assms
    by (auto simp: best_effort_def wf_announcement_def)
  have "?d = ?m @ e1 @ e2 @ e3 @ []" using e1(1) e2(1) e3(1) by simp
  then have "\<exists>b. announcement_decode ?d = Some b \<and> trimmed a b"
    by (simp only: announcement_decode_def mandatory_records_loop [OF assms] e1(3) e2(3) e3(3))
      (simp add: trimmed_def empty_draft_def)
  with e3(2) show ?thesis using encode_mandatory [OF assms] by blast
qed

text \<open>What the client says of itself: three capability bytes fit beside any nickname.\<close>

lemma cap_encode_three: "v < 0x1000000 \<Longrightarrow> length (cap_encode v) \<le> 3"
proof (rule cap_encode_length)
  assume v: "v < 0x1000000"
  then have "unat (drop_bit (8 * 3) v) = 0"
    by (simp add: drop_bit_eq_div unat_div word_less_nat_alt)
  then show "drop_bit (8 * 3) v = 0" by (simp add: word_unat_eq_iff)
qed simp

lemma own_announcement:
  assumes "utf8_valid nick" and "length noise = 32" and "length signing = 32" and "v < 0x1000000"
  defines "a \<equiv> with_capabilities (announcement_new nick noise signing) v"
  shows "\<exists>d. announcement_encode a = Some d \<and> announcement_decode d = Some a \<and> advertised a = Some v"
proof -
  have wf: "wf_announcement a"
    using assms(1-3) truncate_nickname_length [of nick] truncate_nickname_utf8 [of nick]
    by (simp add: a_def wf_announcement_def with_capabilities_def announcement_new_def)
  let ?d = "mandatory_records a @ push_tlv1 TLV_CAPABILITIES (cap_encode v)"
  have "fits (mandatory_records a) (length (cap_encode v))"
    using mandatory_records_length [OF wf] cap_encode_three [OF assms(4)]
    by (simp add: fits_def COMPRESSION_THRESHOLD_def)
  then have "announcement_encode a = Some ?d"
    using cap_encode_three [OF assms(4)] unfolding encode_mandatory [OF wf]
    by (simp add: a_def with_capabilities_def announcement_new_def push_bridge_def
        push_neighbors_def push_capabilities_def)
  moreover have "announcement_decode ?d = Some a"
    using cap_encode_three [OF assms(4)] mandatory_records_loop [OF wf]
    by (simp add: announcement_decode_def tlv1.loop_put_end announcement_field_def)
      (simp add: a_def empty_draft_def with_capabilities_def announcement_new_def)
  ultimately show ?thesis
    by (simp add: a_def with_capabilities_def advertised_def cap_decode_encode)
qed

section \<open>Who signed what\<close>

lemma sign_packet_True:
  "sign_packet sign p = (True, q) \<Longrightarrow>
   \<exists>b. signing_bytes p = Some b \<and> q = p\<lparr>p_signature := Some (sign b)\<rparr>"
  by (auto simp: sign_packet_def split: option.splits)

lemma verify_signed:
  assumes "wf_packet p" and "wf_packet q"
    and "length (p_payload p) \<le> MAX_FRAMED_PAYLOAD" and "length (p_payload q) \<le> MAX_FRAMED_PAYLOAD"
    and "sign_packet sign p = (True, p')" and "p_signature q = p_signature p'"
    and "length key = 32" and "key_ok key"
    and "\<And>b c. signing_bytes p = Some b \<Longrightarrow> check key c (sign b) \<longleftrightarrow> c = b"
  shows "verify_packet key_ok check q key \<longleftrightarrow> signed_fields p = signed_fields q"
proof -
  from sign_packet_True [OF assms(5)] assms(6) obtain b
    where b: "signing_bytes p = Some b" and s: "p_signature q = Some (sign b)" by auto
  have "length (sign b) = 64" using assms(2) s by (simp add: wf_packet_def)
  then have "verify_packet key_ok check q key \<longleftrightarrow> signing_bytes q = Some b"
    using assms(7-9) s b by (auto simp: verify_packet_def split: option.splits)
  then show ?thesis using signing_bytes_iff [OF assms(1-4) b] by simp
qed

section \<open>Properties\<close>

text \<open>
  An announcement always travels: with two 32-byte keys and a nickname within its
  limit, encoding succeeds below the 100-byte compression threshold whatever the optional
  fields hold, and decoding returns the nickname and both keys exactly and each optional
  field either whole (the neighbours cut to ten) or not at all.
\<close>

theorem announcement_roundtrip:
  assumes "wf_announcement a"
  shows "\<exists>d b. announcement_encode a = Some d \<and> length d < COMPRESSION_THRESHOLD
     \<and> announcement_decode d = Some b \<and> trimmed a b"
  using assms by (rule announcement_travels)

definition sample_announcement :: announcement where
  "sample_announcement =
     \<lparr>an_nickname = [98, 111, 98], an_noise_public_key = replicate 32 1,
      an_signing_public_key = replicate 32 2, an_direct_neighbors = Some [replicate 8 3],
      an_capabilities = Some [4], an_bridge_geohash = Some [117, 52]\<rparr>"

theorem announcement_roundtrip_witness:
  "\<exists>d b. announcement_encode sample_announcement = Some d \<and> length d < COMPRESSION_THRESHOLD
     \<and> announcement_decode d = Some b \<and> trimmed sample_announcement b"
  by (rule announcement_roundtrip)
    (simp add: wf_announcement_def sample_announcement_def MAX_NICKNAME_BYTES_def utf8_eval)

text \<open>
  What this client announces of itself comes back unchanged: any nickname, however
  long, is cut to valid UTF-8 that leaves room for the capability record, and the receiver
  reads exactly the capability bits that were set (any of the low 24).
\<close>

theorem own_announcement_roundtrip:
  assumes "utf8_valid nick" and "length noise = 32" and "length signing = 32" and "v < 0x1000000"
  shows "\<exists>d. announcement_encode (with_capabilities (announcement_new nick noise signing) v) = Some d
     \<and> announcement_decode d = Some (with_capabilities (announcement_new nick noise signing) v)
     \<and> advertised (with_capabilities (announcement_new nick noise signing) v) = Some v"
  using assms by (rule own_announcement)

theorem own_announcement_roundtrip_witness:
  "\<exists>d. announcement_encode (with_capabilities
         (announcement_new (replicate 40 97) (replicate 32 1) (replicate 32 2)) cap_gateway) = Some d
     \<and> announcement_decode d = Some (with_capabilities
         (announcement_new (replicate 40 97) (replicate 32 1) (replicate 32 2)) cap_gateway)
     \<and> advertised (with_capabilities
         (announcement_new (replicate 40 97) (replicate 32 1) (replicate 32 2)) cap_gateway) = Some cap_gateway"
  by (rule own_announcement_roundtrip) (simp_all add: cap_gateway_def utf8_valid_ascii)

text \<open>
  A packet signature vouches for exactly the signed fields: if the signature of a
  packet is attached to any packet, verification against the signer's key succeeds if and
  only if the two agree on version, type, timestamp, sender, recipient, payload and route.
  Relays may change the TTL and the RSR flag freely.  The hypothesis on \<open>check\<close> is what
  Ed25519 promises of the one signature that was issued.
\<close>

theorem signature_covers_fields:
  assumes "wf_packet p" and "wf_packet q"
    and "length (p_payload p) \<le> MAX_FRAMED_PAYLOAD" and "length (p_payload q) \<le> MAX_FRAMED_PAYLOAD"
    and "sign_packet sign p = (True, p')" and "p_signature q = p_signature p'"
    and "length key = 32" and "key_ok key"
    and "\<And>b c. signing_bytes p = Some b \<Longrightarrow> check key c (sign b) \<longleftrightarrow> c = b"
  shows "verify_packet key_ok check q key \<longleftrightarrow> signed_fields p = signed_fields q"
  using assms by (rule verify_signed)

definition sample_signed :: packet where
  "sample_signed = sample_packet\<lparr>p_signature := Some (replicate 64 7), p_ttl := 3\<rparr>"

theorem signature_covers_fields_witness:
  "let check = (\<lambda>key c s. Some c = signing_bytes sample_packet \<and> s = replicate 64 7) in
   verify_packet (\<lambda>_. True) check sample_signed (replicate 32 0)
   \<and> \<not> verify_packet (\<lambda>_. True) check (sample_signed\<lparr>p_payload := [104]\<rparr>) (replicate 32 0)"
proof -
  let ?check = "\<lambda>(key :: bytes) c s. Some c = signing_bytes sample_packet \<and> s = replicate 64 7"
  let ?q = "sample_signed\<lparr>p_payload := [104]\<rparr>"
  obtain b where b: "signing_bytes sample_packet = Some b"
    using sample_packet_ok(3) by (simp add: unsigned_facts encode_with_padding_eq)
  then have sp: "sign_packet (\<lambda>_. replicate 64 7) sample_packet =
      (True, sample_packet\<lparr>p_signature := Some (replicate 64 7)\<rparr>)"
    by (simp add: sign_packet_def)
  have ok: "wf_packet sample_signed" "wf_packet ?q"
    "length (p_payload sample_signed) \<le> MAX_FRAMED_PAYLOAD" "length (p_payload ?q) \<le> MAX_FRAMED_PAYLOAD"
    using sample_packet_ok(1,2) by (simp_all add: sample_signed_def wf_packet_def MAX_FRAMED_PAYLOAD_def)
  have "verify_packet (\<lambda>_. True) ?check sample_signed (replicate 32 0)"
    using signature_covers_fields [OF sample_packet_ok(1) ok(1) sample_packet_ok(2) ok(3) sp,
        of "replicate 32 0" "\<lambda>_. True" ?check] b
    by (auto simp: sample_signed_def signed_fields_def effective_route_def)
  moreover have "\<not> verify_packet (\<lambda>_. True) ?check ?q (replicate 32 0)"
    using signature_covers_fields [OF sample_packet_ok(1) ok(2) sample_packet_ok(2) ok(4) sp,
        of "replicate 32 0" "\<lambda>_. True" ?check] b
    by (auto simp: sample_signed_def signed_fields_def effective_route_def sample_packet_def)
  ultimately show ?thesis by (simp add: Let_def)
qed

end
