(* ===== verification/Noise_Payload.thy ===== *)
theory Noise_Payload
  imports Tlv
begin

text \<open>
  What rides inside an encrypted frame (noise_payload.rs): the type byte in front of the
  plaintext, receipts, and the two-field record of a private message.  The random UUID of
  a new message is an argument.
\<close>

section \<open>Payload types\<close>

datatype noise_payload_type =
    PrivateMessage | ReadReceipt | Delivered | GroupInvite | GroupKeyUpdate | VoiceFramePayload
  | VerifyChallenge | VerifyResponse | Vouch | PrivateFile | AuthenticatedPeerState

fun payload_code :: "noise_payload_type \<Rightarrow> byte" where
  "payload_code PrivateMessage = 0x01"
| "payload_code ReadReceipt = 0x02"
| "payload_code Delivered = 0x03"
| "payload_code GroupInvite = 0x06"
| "payload_code GroupKeyUpdate = 0x07"
| "payload_code VoiceFramePayload = 0x08"
| "payload_code VerifyChallenge = 0x10"
| "payload_code VerifyResponse = 0x11"
| "payload_code Vouch = 0x12"
| "payload_code PrivateFile = 0x20"
| "payload_code AuthenticatedPeerState = 0x21"

definition payload_from_byte :: "byte \<Rightarrow> noise_payload_type option" where
  "payload_from_byte b =
     (if b = 0x01 then Some PrivateMessage
      else if b = 0x02 then Some ReadReceipt
      else if b = 0x03 then Some Delivered
      else if b = 0x06 then Some GroupInvite
      else if b = 0x07 then Some GroupKeyUpdate
      else if b = 0x08 then Some VoiceFramePayload
      else if b = 0x10 then Some VerifyChallenge
      else if b = 0x11 then Some VerifyResponse
      else if b = 0x12 then Some Vouch
      else if b = 0x20 then Some PrivateFile
      else if b = 0x21 then Some AuthenticatedPeerState
      else None)"

fun payload_label :: "noise_payload_type \<Rightarrow> string" where
  "payload_label PrivateMessage = ''private message''"
| "payload_label ReadReceipt = ''read receipt''"
| "payload_label Delivered = ''delivery ack''"
| "payload_label GroupInvite = ''group invite''"
| "payload_label GroupKeyUpdate = ''group key update''"
| "payload_label VoiceFramePayload = ''voice frame''"
| "payload_label VerifyChallenge = ''verify challenge''"
| "payload_label VerifyResponse = ''verify response''"
| "payload_label Vouch = ''vouch''"
| "payload_label PrivateFile = ''private file''"
| "payload_label AuthenticatedPeerState = ''peer state''"

lemma payload_from_code [simp, codec_simps]: "payload_from_byte (payload_code t) = Some t"
  by (cases t) (simp_all add: payload_from_byte_def)

lemma payload_from_byte_SomeD: "payload_from_byte b = Some t \<Longrightarrow> b = payload_code t"
  by (auto simp: payload_from_byte_def split: if_split_asm)

section \<open>The frame\<close>

record noise_payload =
  np_kind :: noise_payload_type
  np_body :: bytes

definition payload_receipt :: "noise_payload_type \<Rightarrow> text_bytes \<Rightarrow> noise_payload" where
  "payload_receipt kind message_id = \<lparr>np_kind = kind, np_body = message_id\<rparr>"

definition payload_message_id :: "noise_payload \<Rightarrow> text_bytes option" where
  "payload_message_id p = from_utf8 (np_body p)"

definition payload_encode :: "noise_payload \<Rightarrow> bytes" where
  "payload_encode p = payload_code (np_kind p) # np_body p"

fun payload_decode :: "bytes \<Rightarrow> noise_payload option" where
  "payload_decode [] = None"
| "payload_decode (b # rest) =
     (case payload_from_byte b of
        None \<Rightarrow> None
      | Some kind \<Rightarrow> Some \<lparr>np_kind = kind, np_body = rest\<rparr>)"

lemma payload_decode_encode [simp, codec_simps]: "payload_decode (payload_encode p) = Some p"
  by (simp add: payload_encode_def)

lemma payload_decode_SomeD: "payload_decode d = Some p \<Longrightarrow> d = payload_encode p"
  by (cases d) (auto simp: payload_encode_def split: option.splits dest: payload_from_byte_SomeD)

section \<open>Private messages\<close>

definition MAX_TLV_VALUE :: nat where
  "MAX_TLV_VALUE = 255"

abbreviation (input) TLV_MESSAGE_ID :: byte where "TLV_MESSAGE_ID \<equiv> 0x00"
abbreviation (input) TLV_PM_CONTENT :: byte where "TLV_PM_CONTENT \<equiv> 0x01"

record private_message =
  pm_message_id :: text_bytes
  pm_content :: text_bytes

definition pm_new :: "text_bytes \<Rightarrow> text_bytes \<Rightarrow> private_message" where
  "pm_new uuid content = \<lparr>pm_message_id = uuid, pm_content = content\<rparr>"

definition pm_encode :: "private_message \<Rightarrow> bytes option" where
  "pm_encode m =
     (if length (pm_message_id m) > MAX_TLV_VALUE \<or> length (pm_content m) > MAX_TLV_VALUE then None
      else Some (push_tlv1 TLV_MESSAGE_ID (pm_message_id m) @ push_tlv1 TLV_PM_CONTENT (pm_content m)))"

definition pm_field ::
  "byte \<Rightarrow> bytes \<Rightarrow> text_bytes option \<times> text_bytes option
     \<Rightarrow> (text_bytes option \<times> text_bytes option) option" where
  "pm_field t v s =
     (if t = TLV_MESSAGE_ID then
        (case from_utf8 v of None \<Rightarrow> None | Some x \<Rightarrow> Some (Some x, snd s))
      else if t = TLV_PM_CONTENT then
        (case from_utf8 v of None \<Rightarrow> None | Some x \<Rightarrow> Some (fst s, Some x))
      else None)"

definition pm_decode :: "bytes \<Rightarrow> private_message option" where
  "pm_decode d = do {
     (message_id, content) \<leftarrow> tlv1_loop pm_field d (None, None);
     i \<leftarrow> message_id;
     c \<leftarrow> content;
     Some \<lparr>pm_message_id = i, pm_content = c\<rparr>
   }"

lemma pm_decode_encode:
  assumes "utf8_valid (pm_message_id m)" and "utf8_valid (pm_content m)" and "pm_encode m = Some d"
  shows "pm_decode d = Some m"
  using assms
  by (auto simp: pm_encode_def pm_decode_def pm_field_def MAX_TLV_VALUE_def tlv1.loop_put
      tlv1.loop_put_end split: if_split_asm)

lemma pm_unknown_record:
  assumes "1 < t" and "length v \<le> 255" and "\<forall>(t, v) \<in> set recs. length v \<le> 255"
  shows "pm_decode (concat (map (\<lambda>(t, v). push_tlv1 t v) recs) @ push_tlv1 t v @ rest) = None"
proof -
  have "pm_field t v s = None" for s using assms(1) by (auto simp: pm_field_def)
  then show ?thesis using assms(2,3)
    by (simp add: pm_decode_def tlv1.loop_records tlv1.loop_put split: option.splits)
qed

section \<open>Properties\<close>

text \<open>
  A private message survives the encrypted channel: whenever it can be encoded, the
  typed frame decodes to a private-message payload whose body is the same message; and it
  can be encoded exactly when both fields are at most 255 bytes, never by truncating one.
\<close>

theorem private_message_roundtrip:
  assumes "utf8_valid (pm_message_id m)" and "utf8_valid (pm_content m)"
  shows "if length (pm_message_id m) \<le> 255 \<and> length (pm_content m) \<le> 255
     then \<exists>d. pm_encode m = Some d
       \<and> payload_decode (payload_encode \<lparr>np_kind = PrivateMessage, np_body = d\<rparr>)
           = Some \<lparr>np_kind = PrivateMessage, np_body = d\<rparr>
       \<and> pm_decode d = Some m
     else pm_encode m = None"
proof (cases "pm_encode m")
  case None
  then show ?thesis by (auto simp: pm_encode_def MAX_TLV_VALUE_def split: if_split_asm)
next
  case (Some d)
  with pm_decode_encode [OF assms] show ?thesis
    by (auto simp: pm_encode_def MAX_TLV_VALUE_def split: if_split_asm)
qed

theorem private_message_roundtrip_witness:
  "\<exists>d. pm_encode \<lparr>pm_message_id = [97], pm_content = [0xC3, 0xA9]\<rparr> = Some d
     \<and> pm_decode d = Some \<lparr>pm_message_id = [97], pm_content = [0xC3, 0xA9]\<rparr>"
proof -
  have "utf8_valid [97]" "utf8_valid [0xC3, 0xA9]" by (simp_all add: utf8_eval)
  then show ?thesis
    using private_message_roundtrip [of "\<lparr>pm_message_id = [97], pm_content = [0xC3, 0xA9]\<rparr>"] by simp
qed

text \<open>
  A record type the decoder does not know is fatal: wherever it stands among
  well-formed records, the whole message is refused rather than rendered in part.
\<close>

theorem unknown_record_refused:
  assumes "1 < t" and "length v \<le> 255" and "\<forall>(t, v) \<in> set recs. length v \<le> 255"
  shows "pm_decode (concat (map (\<lambda>(t, v). push_tlv1 t v) recs) @ push_tlv1 t v @ rest) = None"
  using assms by (rule pm_unknown_record)

theorem unknown_record_refused_witness:
  "pm_decode (push_tlv1 0 [97] @ push_tlv1 1 [98] @ push_tlv1 7 [] @ []) = None"
  using unknown_record_refused [of 7 "[]" "[(0, [97]), (1, [98])]" "[]"]
  by (simp add: word_less_nat_alt)

end
