(* ===== verification/Carrier.thy ===== *)
theory Carrier
  imports Tlv
begin

text \<open>
  The gateway carrier (nostr/carrier.rs): a signed event as JSON text, the cell it belongs
  to and the direction it travels, in two-byte-length records.  The JSON parser behind
  \<open>Carrier::event\<close> is not modelled; the text is carried byte for byte.
\<close>

datatype direction = ToGateway | FromGateway | ToBridge | FromBridge

fun direction_code :: "direction \<Rightarrow> byte" where
  "direction_code ToGateway = 0x01"
| "direction_code FromGateway = 0x02"
| "direction_code ToBridge = 0x03"
| "direction_code FromBridge = 0x04"

definition direction_from_byte :: "byte \<Rightarrow> direction option" where
  "direction_from_byte b =
     (if b = 0x01 then Some ToGateway
      else if b = 0x02 then Some FromGateway
      else if b = 0x03 then Some ToBridge
      else if b = 0x04 then Some FromBridge
      else None)"

lemma direction_from_code [simp, codec_simps]: "direction_from_byte (direction_code d) = Some d"
  by (cases d) (simp_all add: direction_from_byte_def)

definition MAX_EVENT_JSON_BYTES :: nat where
  "MAX_EVENT_JSON_BYTES = 16 * 1024"

definition MAX_GEOHASH_LENGTH :: nat where
  "MAX_GEOHASH_LENGTH = 12"

abbreviation (input) TLV_DIRECTION :: byte where "TLV_DIRECTION \<equiv> 0x01"
abbreviation (input) TLV_GEOHASH :: byte where "TLV_GEOHASH \<equiv> 0x02"
abbreviation (input) TLV_EVENT_JSON :: byte where "TLV_EVENT_JSON \<equiv> 0x03"

record carrier =
  ca_direction :: direction
  ca_geohash :: text_bytes
  ca_event_json :: text_bytes

definition carrier_new :: "direction \<Rightarrow> text_bytes \<Rightarrow> text_bytes \<Rightarrow> carrier option" where
  "carrier_new direction geohash event_json =
     (if geohash = [] \<or> length geohash > MAX_GEOHASH_LENGTH \<or> event_json = []
         \<or> length event_json > MAX_EVENT_JSON_BYTES then None
      else Some \<lparr>ca_direction = direction, ca_geohash = geohash, ca_event_json = event_json\<rparr>)"

definition carrier_encode :: "carrier \<Rightarrow> bytes" where
  "carrier_encode c =
     push_tlv2 TLV_DIRECTION [direction_code (ca_direction c)]
     @ push_tlv2 TLV_GEOHASH (ca_geohash c)
     @ push_tlv2 TLV_EVENT_JSON (ca_event_json c)"

type_synonym carrier_draft = "direction option \<times> text_bytes option \<times> text_bytes option"

definition carrier_field :: "byte \<Rightarrow> bytes \<Rightarrow> carrier_draft \<Rightarrow> carrier_draft option" where
  "carrier_field t v s =
     (case s of (direction, geohash, event_json) \<Rightarrow>
        if t = TLV_DIRECTION then
          (if length v \<noteq> 1 then None
           else case direction_from_byte (v ! 0) of
                  None \<Rightarrow> None
                | Some x \<Rightarrow> Some (Some x, geohash, event_json))
        else if t = TLV_GEOHASH then
          (case from_utf8 v of None \<Rightarrow> None | Some x \<Rightarrow> Some (direction, Some x, event_json))
        else if t = TLV_EVENT_JSON then
          (case from_utf8 v of None \<Rightarrow> None | Some x \<Rightarrow> Some (direction, geohash, Some x))
        else Some s)"

definition carrier_decode :: "bytes \<Rightarrow> carrier option" where
  "carrier_decode d = do {
     (direction, geohash, event_json) \<leftarrow> tlv2_exact carrier_field d (None, None, None);
     x \<leftarrow> direction;
     g \<leftarrow> geohash;
     e \<leftarrow> event_json;
     carrier_new x g e
   }"

definition wf_carrier :: "carrier \<Rightarrow> bool" where
  "wf_carrier c \<longleftrightarrow>
     carrier_new (ca_direction c) (ca_geohash c) (ca_event_json c) = Some c
     \<and> utf8_valid (ca_geohash c) \<and> utf8_valid (ca_event_json c)"

lemma carrier_newD:
  "carrier_new x g e = Some c \<Longrightarrow>
   c = \<lparr>ca_direction = x, ca_geohash = g, ca_event_json = e\<rparr>
   \<and> g \<noteq> [] \<and> length g \<le> 12 \<and> e \<noteq> [] \<and> length e \<le> 16384"
  by (auto simp: carrier_new_def MAX_GEOHASH_LENGTH_def MAX_EVENT_JSON_BYTES_def split: if_split_asm)

lemma wf_carrier_lengths: "wf_carrier c \<Longrightarrow> length (ca_geohash c) \<le> 12 \<and> length (ca_event_json c) \<le> 16384"
  using carrier_newD wf_carrier_def by blast

lemma carrier_decode_encode_with:
  assumes "wf_carrier c" and "list_all (\<lambda>(t, v). 3 < t \<and> length v \<le> 65535) extra"
  shows "carrier_decode (carrier_encode c @ concat (map (\<lambda>(t, v). push_tlv2 t v) extra)) = Some c"
proof -
  have skip: "fold_opt (\<lambda>(t, v). carrier_field t v) extra s = Some s" for s
    using assms(2)
  proof (induction extra arbitrary: s)
    case (Cons r extra)
    obtain t v where r: "r = (t, v)" by (cases r)
    with Cons.prems have "t \<noteq> 1" "t \<noteq> 2" "t \<noteq> 3" by auto
    then have "carrier_field t v s = Some s" by (cases s) (simp add: carrier_field_def)
    with Cons r show ?case by simp
  qed simp
  have tail: "tlv2_exact carrier_field (concat (map (\<lambda>(t, v). push_tlv2 t v) extra)) s = Some s" for s
    using assms(2) skip [of s]
    by (subst tlv2x.loop_records_end) (auto simp: list_all_iff)
  have "tlv2_exact carrier_field (carrier_encode c @ concat (map (\<lambda>(t, v). push_tlv2 t v) extra))
      (None, None, None) = Some (Some (ca_direction c), Some (ca_geohash c), Some (ca_event_json c))"
    using wf_carrier_lengths [OF assms(1)] assms(1)
    by (simp add: carrier_encode_def tlv2x.loop_put carrier_field_def tail wf_carrier_def)
  then show ?thesis using assms(1) by (simp add: carrier_decode_def wf_carrier_def)
qed

lemma tlv2_scan_tail: "length d < 3 \<Longrightarrow> tlv2_scan f d s = Some (s, d)"
  by (induction f d s rule: tlv2_scan.induct) auto

lemma carrier_trailing:
  assumes "wf_carrier c" and "tail \<noteq> []" and "length tail < 3"
  shows "carrier_decode (carrier_encode c @ tail) = None"
proof -
  have "tlv2_exact carrier_field tail s = None" for s
    using assms(2,3) by (simp add: tlv2_exact_def tlv2_scan_tail)
  then show ?thesis
    using wf_carrier_lengths [OF assms(1)] assms(1)
    by (simp add: carrier_decode_def carrier_encode_def tlv2x.loop_put carrier_field_def wf_carrier_def)
qed

section \<open>Properties\<close>

text \<open>
  A carried event arrives byte for byte: the decoder returns the direction, the cell
  and the exact JSON text the signature covers, also when a newer sender appends records of
  types this client does not know, and refuses a frame with one or two stray bytes at the
  end.
\<close>

theorem carrier_roundtrip:
  assumes "wf_carrier c" and "list_all (\<lambda>(t, v). 3 < t \<and> length v \<le> 65535) extra"
    and "length tail < 3"
  shows "carrier_decode (carrier_encode c @ concat (map (\<lambda>(t, v). push_tlv2 t v) extra)) = Some c
     \<and> carrier_decode (carrier_encode c @ tail) = (if tail = [] then Some c else None)"
  using assms carrier_decode_encode_with [OF assms(1), of "[]"] carrier_trailing [OF assms(1)]
  by (simp_all add: carrier_decode_encode_with)

definition sample_carrier :: carrier where
  "sample_carrier = \<lparr>ca_direction = ToGateway, ca_geohash = [117, 52], ca_event_json = [123, 125]\<rparr>"

theorem carrier_roundtrip_witness:
  "carrier_decode (carrier_encode sample_carrier @ concat [push_tlv2 9 [1]]) = Some sample_carrier
   \<and> carrier_decode (carrier_encode sample_carrier @ [0]) = None"
proof -
  have "wf_carrier sample_carrier"
    by (simp add: wf_carrier_def sample_carrier_def carrier_new_def MAX_GEOHASH_LENGTH_def
        MAX_EVENT_JSON_BYTES_def utf8_eval)
  then show ?thesis
    using carrier_roundtrip [of sample_carrier "[(9, [1])]" "[0]"] by (simp add: word_less_nat_alt)
qed

end
