(* ===== verification/Text.thy ===== *)
theory Text
  imports Prelude
begin

text \<open>
  The string operations of the standard library that the persistence formats use: decimal
  printing and \<open>parse\<close> of unsigned integers, \<open>split\<close> on a separator, \<open>lines\<close> and
  \<open>join\<close>, on the UTF-8 bytes of the string.  Separators are ASCII, so splitting the bytes
  is splitting the characters.
\<close>

text \<open>The bytes of an ASCII literal of the source.\<close>

definition ascii :: "string \<Rightarrow> text_bytes" where
  "ascii cs = map (\<lambda>c. of_nat (of_char c :: nat)) cs"

section \<open>Decimal numbers\<close>

function show_nat :: "nat \<Rightarrow> text_bytes" where
  "show_nat n = (if n < 10 then [of_nat (48 + n)] else show_nat (n div 10) @ [of_nat (48 + n mod 10)])"
  by pat_completeness auto
termination by (relation "measure (\<lambda>n. n)") auto

declare show_nat.simps [simp del]

definition digit_value :: "byte \<Rightarrow> nat option" where
  "digit_value c = (let n = unat c in if 48 \<le> n \<and> n \<le> 57 then Some (n - 48) else None)"

text \<open>Digits accumulated with the overflow check of \<open>from_str\<close>.\<close>

fun parse_digits :: "nat \<Rightarrow> text_bytes \<Rightarrow> nat \<Rightarrow> nat option" where
  "parse_digits limit [] acc = Some acc"
| "parse_digits limit (c # cs) acc =
     (case digit_value c of
        None \<Rightarrow> None
      | Some d \<Rightarrow> if acc * 10 + d < limit then parse_digits limit cs (acc * 10 + d) else None)"

text \<open>\<open>str::parse\<close> at an unsigned type with \<open>limit\<close> values: a leading plus sign is accepted.\<close>

definition parse_unsigned :: "nat \<Rightarrow> text_bytes \<Rightarrow> nat option" where
  "parse_unsigned limit s =
     (let digits = (case s of c # cs \<Rightarrow> if c = 43 then cs else s | [] \<Rightarrow> s) in
      if digits = [] then None else parse_digits limit digits 0)"

definition parse_u64 :: "text_bytes \<Rightarrow> u64 option" where
  "parse_u64 s = map_option of_nat (parse_unsigned (2 ^ 64) s)"

lemma digit_value_digit [simp]: "d < 10 \<Longrightarrow> digit_value (of_nat (48 + d)) = Some d"
  by (simp add: digit_value_def Let_def unat_of_nat del: of_nat_add)

lemma parse_digits_append:
  "parse_digits limit (xs @ ys) acc =
   (case parse_digits limit xs acc of None \<Rightarrow> None | Some a \<Rightarrow> parse_digits limit ys a)"
  by (induction limit xs acc rule: parse_digits.induct) (auto split: option.splits)

lemma parse_digits_show:
  "n < limit \<Longrightarrow> parse_digits limit (show_nat n) 0 = Some n"
proof (induction n rule: show_nat.induct)
  case (1 n)
  show ?case
  proof (cases "n < 10")
    case True
    with 1 show ?thesis by (simp add: show_nat.simps [of n] del: of_nat_add)
  next
    case False
    then have "n div 10 < limit" using 1 by simp
    with False 1 show ?thesis
      by (simp add: show_nat.simps [of n] parse_digits_append del: of_nat_add)
  qed
qed

lemma show_nat_digits: "c \<in> set (show_nat n) \<Longrightarrow> digit_value c \<noteq> None"
proof (induction n rule: show_nat.induct)
  case (1 n)
  have d: "digit_value (of_nat (48 + n mod 10)) = Some (n mod 10)" by (rule digit_value_digit) simp
  show ?case
  proof (cases "n < 10")
    case True
    with 1 d show ?thesis by (auto simp: show_nat.simps [of n] simp del: of_nat_add)
  next
    case False
    with 1 d show ?thesis by (auto simp: show_nat.simps [of n] simp del: of_nat_add)
  qed
qed

lemma show_nat_nonempty [simp]: "show_nat n \<noteq> []"
  by (simp add: show_nat.simps [of n])

lemma not_digit [simp]:
  "digit_value 43 = None" "digit_value 9 = None" "digit_value 10 = None" "digit_value 13 = None"
  "digit_value 32 = None" "digit_value 58 = None" "digit_value 124 = None"
  by (simp_all add: digit_value_def)

lemma parse_unsigned_show:
  assumes "n < limit"
  shows "parse_unsigned limit (show_nat n) = Some n"
proof -
  obtain c cs where s: "show_nat n = c # cs" by (cases "show_nat n") auto
  then have "c \<noteq> 43" using show_nat_digits [of c n] by auto
  with s parse_digits_show [OF assms] show ?thesis by (simp add: parse_unsigned_def)
qed

lemma parse_u64_show [simp, codec_simps]: "parse_u64 (show_nat (unat w)) = Some w"
proof -
  have "unat w < 2 ^ 64" using unsigned_less [of w, where ?'a = nat] by simp
  then show ?thesis by (simp add: parse_u64_def parse_unsigned_show)
qed

section \<open>Splitting and joining\<close>

text \<open>\<open>str::parse\<close> at \<open>i64\<close>, and its decimal printing.\<close>

definition parse_i64 :: "text_bytes \<Rightarrow> int option" where
  "parse_i64 s =
     (case s of
        c # digits \<Rightarrow>
          if c = 45
          then (if digits = [] then None
                else map_option (\<lambda>n. - int n) (parse_digits (2 ^ 63 + 1) digits 0))
          else map_option int (parse_unsigned (2 ^ 63) s)
      | [] \<Rightarrow> None)"

definition show_int :: "int \<Rightarrow> text_bytes" where
  "show_int i = (if i < 0 then 45 # show_nat (nat (- i)) else show_nat (nat i))"

text \<open>\<open>str::split\<close> on one character: \<open>n\<close> separators make \<open>n + 1\<close> pieces.\<close>

fun split_on :: "byte \<Rightarrow> text_bytes \<Rightarrow> text_bytes list" where
  "split_on sep [] = [[]]"
| "split_on sep (c # cs) =
     (if c = sep then [] # split_on sep cs
      else (case split_on sep cs of p # ps \<Rightarrow> (c # p) # ps | [] \<Rightarrow> [[c]]))"

text \<open>\<open>split_once(':')\<close>\<close>

fun split_once :: "byte \<Rightarrow> text_bytes \<Rightarrow> (text_bytes \<times> text_bytes) option" where
  "split_once sep [] = None"
| "split_once sep (c # cs) =
     (if c = sep then Some ([], cs) else map_option (\<lambda>(a, b). (c # a, b)) (split_once sep cs))"

lemma split_once_append: "sep \<notin> set m \<Longrightarrow> split_once sep (m @ sep # r) = Some (m, r)"
  by (induction m) auto

fun join_with :: "text_bytes \<Rightarrow> text_bytes list \<Rightarrow> text_bytes" where
  "join_with sep [] = []"
| "join_with sep [x] = x"
| "join_with sep (x # y # xs) = x @ sep @ join_with sep (y # xs)"

definition strip_cr :: "text_bytes \<Rightarrow> text_bytes" where
  "strip_cr s = (if s \<noteq> [] \<and> last s = 13 then butlast s else s)"

text \<open>
  \<open>str::lines\<close>: a line ends at a newline, a carriage return before it is dropped, and
  nothing follows a final newline.
\<close>

definition text_lines :: "text_bytes \<Rightarrow> text_bytes list" where
  "text_lines s =
     (let ps = split_on 10 s in
      map strip_cr (butlast ps) @ (if last ps = [] then [] else [last ps]))"

lemma split_on_nonempty [simp]: "split_on sep s \<noteq> []"
  by (cases s) (auto split: list.splits)

lemma split_on_none: "sep \<notin> set s \<Longrightarrow> split_on sep s = [s]"
  by (induction s) auto

lemma split_on_append: "sep \<notin> set xs \<Longrightarrow> split_on sep (xs @ sep # ys) = xs # split_on sep ys"
  by (induction xs) auto

lemma split_on_join:
  "xs \<noteq> [] \<Longrightarrow> \<forall>x \<in> set xs. sep \<notin> set x \<Longrightarrow> split_on sep (join_with [sep] xs) = xs"
  by (induction "[sep]" xs rule: join_with.induct) (auto simp: split_on_none split_on_append)

lemma text_lines_join:
  assumes "\<forall>x \<in> set xs. 10 \<notin> set x \<and> x \<noteq> [] \<and> last x \<noteq> 13"
  shows "text_lines (join_with [10] xs) = xs"
proof (cases "xs = []")
  case False
  then have "split_on 10 (join_with [10] xs) = xs" using assms by (simp add: split_on_join)
  moreover have "map strip_cr (butlast xs) = butlast xs"
    using assms by (intro map_idI) (auto simp: strip_cr_def dest: in_set_butlastD)
  moreover have "last xs \<noteq> []" using assms False by simp
  ultimately show ?thesis using False by (simp add: text_lines_def)
qed (simp add: text_lines_def)

section \<open>Case and white space\<close>

text \<open>
  \<open>str::to_lowercase\<close> lowers ASCII text byte by byte.  What it does to other text is the
  Unicode case table of the standard library, the parameter \<open>unicode\<close>.
\<close>

definition ascii_lower :: "byte \<Rightarrow> byte" where
  "ascii_lower c = (if 65 \<le> unat c \<and> unat c \<le> 90 then c + 32 else c)"

definition to_lowercase :: "(text_bytes \<Rightarrow> text_bytes) \<Rightarrow> text_bytes \<Rightarrow> text_bytes" where
  "to_lowercase unicode s =
     (if list_all (\<lambda>c. unat c < 128) s then map ascii_lower s else unicode s)"

definition eq_ignore_ascii_case :: "text_bytes \<Rightarrow> text_bytes \<Rightarrow> bool" where
  "eq_ignore_ascii_case s t \<longleftrightarrow> map ascii_lower s = map ascii_lower t"

text \<open>The UTF-8 forms of the characters with the property \<open>White_Space\<close>, which \<open>trim\<close> removes.\<close>

definition white_chars :: "text_bytes list" where
  "white_chars =
     [[9], [10], [11], [12], [13], [32], [0xC2, 0x85], [0xC2, 0xA0], [0xE1, 0x9A, 0x80],
      [0xE2, 0x80, 0x80], [0xE2, 0x80, 0x81], [0xE2, 0x80, 0x82], [0xE2, 0x80, 0x83],
      [0xE2, 0x80, 0x84], [0xE2, 0x80, 0x85], [0xE2, 0x80, 0x86], [0xE2, 0x80, 0x87],
      [0xE2, 0x80, 0x88], [0xE2, 0x80, 0x89], [0xE2, 0x80, 0x8A], [0xE2, 0x80, 0xA8],
      [0xE2, 0x80, 0xA9], [0xE2, 0x80, 0xAF], [0xE2, 0x81, 0x9F], [0xE3, 0x80, 0x80]]"

definition starts_with :: "text_bytes \<Rightarrow> text_bytes \<Rightarrow> bool" where
  "starts_with s p \<longleftrightarrow> take (length p) s = p"

definition ends_with :: "text_bytes \<Rightarrow> text_bytes \<Rightarrow> bool" where
  "ends_with s p \<longleftrightarrow> length p \<le> length s \<and> drop (length s - length p) s = p"

text \<open>Drop leading occurrences of any of the given non-empty strings.\<close>

function strip_chars :: "text_bytes list \<Rightarrow> text_bytes \<Rightarrow> text_bytes" where
  "strip_chars ws s =
     (case find (\<lambda>w. w \<noteq> [] \<and> starts_with s w) ws of
        None \<Rightarrow> s
      | Some w \<Rightarrow> strip_chars ws (drop (length w) s))"
  by pat_completeness auto
termination
proof (relation "measure (\<lambda>(ws, s). length s)")
  fix ws s w assume "find (\<lambda>w. w \<noteq> [] \<and> starts_with s w) ws = Some w"
  then have w: "w \<noteq> []" "starts_with s w" by (auto simp: find_Some_iff)
  then have "s \<noteq> []" by (auto simp: starts_with_def)
  with w show "((ws, drop (length w) s), (ws, s)) \<in> measure (\<lambda>(ws, s). length s)" by simp
qed simp

declare strip_chars.simps [simp del]

definition trim :: "text_bytes \<Rightarrow> text_bytes" where
  "trim s = rev (strip_chars (map rev white_chars) (rev (strip_chars white_chars s)))"

text \<open>Text with no white space at either end is its own trimming.\<close>

definition trimmed_text :: "text_bytes \<Rightarrow> bool" where
  "trimmed_text s \<longleftrightarrow>
     list_all (\<lambda>w. \<not> starts_with s w \<and> \<not> starts_with (rev s) (rev w)) white_chars"

lemma strip_chars_none: "list_all (\<lambda>w. \<not> starts_with s w) ws \<Longrightarrow> strip_chars ws s = s"
  by (subst strip_chars.simps) (auto simp: find_Some_iff list_all_length split: option.splits)

lemma trim_trimmed: "trimmed_text s \<Longrightarrow> trim s = s"
  by (simp add: trim_def trimmed_text_def strip_chars_none list_all_iff)

end
