(* ===== verification/File_Packet.thy ===== *)
theory File_Packet
  imports Text
begin

text \<open>
  The file-transfer payload (file_packet.rs).  Its records have two-byte lengths except
  the content, whose length is four bytes, or two when written by an older sender; the
  decoder tells them apart by whether the wide reading fits.  The parameter \<open>unicode\<close> of
  \<open>is_image\<close> is the lower-casing of text that is not ASCII.
\<close>

section \<open>Definitions\<close>

definition MAX_PAYLOAD_BYTES :: nat where
  "MAX_PAYLOAD_BYTES = 1024 * 1024"

abbreviation (input) TLV_FILE_NAME :: byte where "TLV_FILE_NAME \<equiv> 0x01"
abbreviation (input) TLV_FILE_SIZE :: byte where "TLV_FILE_SIZE \<equiv> 0x02"
abbreviation (input) TLV_MIME_TYPE :: byte where "TLV_MIME_TYPE \<equiv> 0x03"
abbreviation (input) TLV_CONTENT :: byte where "TLV_CONTENT \<equiv> 0x04"

record file_packet =
  fp_name :: "text_bytes option"
  fp_size :: "u64 option"
  fp_mime :: "text_bytes option"
  fp_content :: bytes

definition image_extensions :: "text_bytes list" where
  "image_extensions = map ascii [''png'', ''jpg'', ''jpeg'', ''gif'', ''webp'', ''bmp'']"

text \<open>The name to show, and what stands in for a missing or blank one.\<close>

definition untitled :: "text_bytes option \<Rightarrow> text_bytes" where
  "untitled mime =
     (case mime of Some m \<Rightarrow> ascii ''untitled ('' @ m @ ascii '')'' | None \<Rightarrow> ascii ''untitled'')"

definition display_name :: "file_packet \<Rightarrow> text_bytes" where
  "display_name f =
     (case fp_name f of
        Some name \<Rightarrow> if trim name \<noteq> [] then name else untitled (fp_mime f)
      | None \<Rightarrow> untitled (fp_mime f))"

definition is_image :: "(text_bytes \<Rightarrow> text_bytes) \<Rightarrow> file_packet \<Rightarrow> bool" where
  "is_image unicode f =
     (case fp_mime f of
        Some mime \<Rightarrow> starts_with (to_lowercase unicode mime) (ascii ''image/'')
      | None \<Rightarrow>
          (case fp_name f of
             None \<Rightarrow> False
           | Some name \<Rightarrow>
               list_ex (\<lambda>extension. ends_with (to_lowercase unicode name) (ascii ''.'' @ extension)) image_extensions))"

text \<open>
  \<open>read_be\<close> at the start of the remaining bytes.  Eight bytes at most are folded into a
  \<open>u64\<close>, so nothing is shifted out.
\<close>

definition file_read_be :: "bytes \<Rightarrow> nat \<Rightarrow> nat option" where
  "file_read_be d width =
     (if width = 0 \<or> width > 8 \<or> width > length d then None else Some (be_to_nat (take width d)))"

definition text_record :: "byte \<Rightarrow> text_bytes option \<Rightarrow> bytes" where
  "text_record t x =
     (case x of
        None \<Rightarrow> []
      | Some s \<Rightarrow> if length s \<le> 65535 then t # be16 (length s) @ s else [])"

definition declared_size :: "file_packet \<Rightarrow> u64" where
  "declared_size f =
     (case fp_size f of Some n \<Rightarrow> n | None \<Rightarrow> of_nat (length (fp_content f)))"

definition file_encode :: "file_packet \<Rightarrow> bytes option" where
  "file_encode f =
     (if length (fp_content f) > MAX_PAYLOAD_BYTES then None
      else
        let size = declared_size f
        in if size > 0xFFFFFFFF then None
           else Some (text_record TLV_FILE_NAME (fp_name f)
                  @ TLV_FILE_SIZE # be16 4 @ be32 (unat size)
                  @ text_record TLV_MIME_TYPE (fp_mime f)
                  @ TLV_CONTENT # be32 (length (fp_content f)) @ fp_content f))"

text \<open>The length of the next record and what follows it.\<close>

definition narrow_length :: "bytes \<Rightarrow> (nat \<times> bytes) option" where
  "narrow_length r = (case file_read_be r 2 of None \<Rightarrow> None | Some v \<Rightarrow> Some (v, drop 2 r))"

definition record_length :: "byte \<Rightarrow> bytes \<Rightarrow> (nat \<times> bytes) option" where
  "record_length t r =
     (if t = TLV_CONTENT then
        (case file_read_be r 4 of
           Some v \<Rightarrow> if v \<le> length r - 4 then Some (v, drop 4 r) else narrow_length r
         | None \<Rightarrow> narrow_length r)
      else narrow_length r)"

definition file_field :: "byte \<Rightarrow> bytes \<Rightarrow> file_packet \<Rightarrow> file_packet option" where
  "file_field t v f =
     (if t = TLV_FILE_NAME then Some (f\<lparr>fp_name := from_utf8 v\<rparr>)
      else if t = TLV_FILE_SIZE then
        Some (f\<lparr>fp_size := map_option of_nat (file_read_be v (length v))\<rparr>)
      else if t = TLV_MIME_TYPE then Some (f\<lparr>fp_mime := from_utf8 v\<rparr>)
      else if t = TLV_CONTENT then
        (if length v > MAX_PAYLOAD_BYTES then None else Some (f\<lparr>fp_content := v\<rparr>))
      else Some f)"

lemma record_length_shorter: "record_length t r = Some (n, r') \<Longrightarrow> length r' \<le> length r"
  by (auto simp: record_length_def narrow_length_def split: option.splits if_split_asm)

function file_loop :: "bytes \<Rightarrow> file_packet \<Rightarrow> file_packet option" where
  "file_loop [] f = Some f"
| "file_loop (t # r) f =
     (case record_length t r of
        None \<Rightarrow> None
      | Some (n, r') \<Rightarrow>
          if n > length r' then None
          else (case file_field t (take n r') f of
                  None \<Rightarrow> None
                | Some f' \<Rightarrow> file_loop (drop n r') f'))"
  by pat_completeness auto
termination
  by (relation "measure (\<lambda>(d, f). length d)") (auto dest: record_length_shorter)

definition file_empty :: file_packet where
  "file_empty = \<lparr>fp_name = None, fp_size = None, fp_mime = None, fp_content = []\<rparr>"

definition file_decode :: "bytes \<Rightarrow> file_packet option" where
  "file_decode d =
     (case file_loop d file_empty of
        None \<Rightarrow> None
      | Some f \<Rightarrow> if fp_content f = [] then None else Some f)"

section \<open>Reading one record\<close>

declare file_loop.simps(2) [simp del]

text \<open>The text that is written at all: the encoder drops one longer than 65535 bytes.\<close>

definition short_text :: "text_bytes option \<Rightarrow> text_bytes option" where
  "short_text x = (case x of Some s \<Rightarrow> if length s \<le> 65535 then Some s else None | None \<Rightarrow> None)"

lemma file_loop_narrow:
  assumes "t \<noteq> TLV_CONTENT" and "length v \<le> 65535"
  shows "file_loop (t # be16 (length v) @ v @ rest) f =
    (case file_field t v f of None \<Rightarrow> None | Some f' \<Rightarrow> file_loop rest f')"
proof -
  have "record_length t (be16 (length v) @ v @ rest) = Some (length v, v @ rest)"
    using assms by (simp add: record_length_def narrow_length_def file_read_be_def)
  then show ?thesis by (simp add: file_loop.simps(2) split: option.splits)
qed

lemma short_text_valid:
  "case x of None \<Rightarrow> True | Some s \<Rightarrow> utf8_valid s \<Longrightarrow> short_text x = Some s \<Longrightarrow>
   x = Some s \<and> length s \<le> 65535 \<and> utf8_valid s"
  by (auto simp: short_text_def split: option.splits if_split_asm)

lemma text_record_short:
  "text_record t x = (case short_text x of None \<Rightarrow> [] | Some s \<Rightarrow> t # be16 (length s) @ s)"
  by (simp add: text_record_def short_text_def split: option.splits)

lemma file_loop_name:
  assumes "case x of None \<Rightarrow> True | Some s \<Rightarrow> utf8_valid s" and "fp_name f = None"
  shows "file_loop (text_record TLV_FILE_NAME x @ rest) f = file_loop rest (f\<lparr>fp_name := short_text x\<rparr>)"
proof (cases "short_text x")
  case (Some s)
  with short_text_valid [OF assms(1)] show ?thesis
    by (simp add: text_record_short file_loop_narrow file_field_def)
next
  case None
  then show ?thesis using assms(2) by (cases f) (simp add: text_record_short)
qed

lemma file_loop_mime:
  assumes "case x of None \<Rightarrow> True | Some s \<Rightarrow> utf8_valid s" and "fp_mime f = None"
  shows "file_loop (text_record TLV_MIME_TYPE x @ rest) f = file_loop rest (f\<lparr>fp_mime := short_text x\<rparr>)"
proof (cases "short_text x")
  case (Some s)
  with short_text_valid [OF assms(1)] show ?thesis
    by (simp add: text_record_short file_loop_narrow file_field_def)
next
  case None
  then show ?thesis using assms(2) by (cases f) (simp add: text_record_short)
qed

lemma file_loop_size:
  assumes "n < 4294967296"
  shows "file_loop (TLV_FILE_SIZE # be16 4 @ be32 n @ rest) f = file_loop rest (f\<lparr>fp_size := Some (of_nat n)\<rparr>)"
  using file_loop_narrow [of TLV_FILE_SIZE "be32 n" rest f] assms
  by (simp add: file_field_def file_read_be_def)

lemma file_loop_content:
  "length c \<le> MAX_PAYLOAD_BYTES \<Longrightarrow>
   file_loop (TLV_CONTENT # be32 (length c) @ c) f = Some (f\<lparr>fp_content := c\<rparr>)"
  by (simp add: file_loop.simps(2) record_length_def file_read_be_def file_field_def MAX_PAYLOAD_BYTES_def)

text \<open>
  An older sender's two-byte length is never mistaken for a four-byte one: read wide it
  is at least 65536 times the content's length, which is more than what follows.
\<close>

lemma wide_of_narrow:
  assumes "c \<noteq> []" and "length c \<le> 65535"
    and "file_read_be (be16 (length c) @ c) 4 = Some v"
  shows "length (be16 (length c) @ c) - 4 < v"
proof -
  from assms(3) have l: "2 \<le> length c"
    and v: "v = be_to_nat (take 4 (be16 (length c) @ c))"
    by (auto simp: file_read_be_def split: if_split_asm)
  have "v = be_to_nat (be16 (length c) @ [c ! 0, c ! 1])"
  proof -
    have "take 2 c = [c ! 0, c ! 1]" using l by (cases c; cases "tl c") auto
    then show ?thesis by (simp add: v)
  qed
  also have "\<dots> = (length c * 256 + unat (c ! 0)) * 256 + unat (c ! 1)"
    using assms(2) be_to_nat_snoc [of "be16 (length c) @ [c ! 0]" "c ! 1"]
    by (simp add: be_to_nat_snoc)
  finally show ?thesis using l by simp
qed

lemma file_loop_legacy_content:
  assumes "c \<noteq> []" and "length c \<le> 65535"
  shows "file_loop (TLV_CONTENT # be16 (length c) @ c) f = Some (f\<lparr>fp_content := c\<rparr>)"
proof -
  have "narrow_length (be16 (length c) @ c) = Some (length c, c)"
    using assms(2) by (simp add: narrow_length_def file_read_be_def)
  then have "record_length TLV_CONTENT (be16 (length c) @ c) = Some (length c, c)"
    using wide_of_narrow [OF assms] by (auto simp: record_length_def split: option.splits)
  then show ?thesis using assms(2)
    by (simp add: file_loop.simps(2) file_field_def MAX_PAYLOAD_BYTES_def)
qed

section \<open>Properties\<close>

text \<open>The bytes in front of the content, and what the far end makes of them.\<close>

definition file_head :: "file_packet \<Rightarrow> bytes" where
  "file_head f =
     text_record TLV_FILE_NAME (fp_name f)
     @ TLV_FILE_SIZE # be16 4
         @ be32 (unat (declared_size f))
     @ text_record TLV_MIME_TYPE (fp_mime f)"

definition wf_file :: "file_packet \<Rightarrow> bool" where
  "wf_file f \<longleftrightarrow>
     (case fp_name f of None \<Rightarrow> True | Some s \<Rightarrow> utf8_valid s)
     \<and> (case fp_mime f of None \<Rightarrow> True | Some s \<Rightarrow> utf8_valid s)
     \<and> (case fp_size f of None \<Rightarrow> True | Some n \<Rightarrow> n \<le> 0xFFFFFFFF)
     \<and> fp_content f \<noteq> [] \<and> length (fp_content f) \<le> MAX_PAYLOAD_BYTES"

definition file_received :: "file_packet \<Rightarrow> file_packet" where
  "file_received f =
     f\<lparr>fp_name := short_text (fp_name f), fp_mime := short_text (fp_mime f),
       fp_size := Some (declared_size f)\<rparr>"

lemma file_size_bound:
  "wf_file f \<Longrightarrow> unat (declared_size f) < 4294967296"
proof (cases "fp_size f")
  case None
  assume "wf_file f"
  then have "length (fp_content f) \<le> 1048576" by (simp add: wf_file_def MAX_PAYLOAD_BYTES_def)
  then show ?thesis using None by (simp add: declared_size_def unat_of_nat)
qed (simp add: declared_size_def wf_file_def word_le_nat_alt)

lemma file_loop_head:
  assumes "wf_file f"
  shows "file_loop (file_head f @ rest) file_empty =
    file_loop rest ((file_received f)\<lparr>fp_content := []\<rparr>)"
  using assms file_size_bound [OF assms]
  by (cases f) (simp add: file_head_def file_loop_name file_loop_size file_loop_mime wf_file_def file_empty_def
      file_received_def)

lemma file_encode_head:
  "wf_file f \<Longrightarrow> file_encode f =
   Some (file_head f @ TLV_CONTENT # be32 (length (fp_content f)) @ fp_content f)"
  using file_size_bound [of f]
  by (auto simp: file_encode_def file_head_def wf_file_def Let_def word_less_nat_alt)

text \<open>
  A file arrives whole: its content comes back byte for byte with its name, MIME type
  and declared size (the content's own length when none was declared); and the same file
  written by an older sender, whose content length has two bytes, is read just the same.
\<close>

theorem file_roundtrip:
  assumes "wf_file f"
  shows "(\<exists>d. file_encode f = Some d \<and> file_decode d = Some (file_received f))
     \<and> (length (fp_content f) \<le> 65535 \<longrightarrow>
          file_decode (file_head f @ TLV_CONTENT # be16 (length (fp_content f)) @ fp_content f)
            = Some (file_received f))"
  using assms file_loop_content [of "fp_content f"] file_loop_legacy_content [of "fp_content f"]
  by (simp add: file_encode_head file_decode_def file_loop_head wf_file_def)
    (simp add: file_received_def)

definition sample_file :: file_packet where
  "sample_file = \<lparr>fp_name = Some [97], fp_size = None, fp_mime = Some [98], fp_content = [1, 2, 3, 4, 5]\<rparr>"

theorem file_roundtrip_witness:
  "file_decode (file_head sample_file @ TLV_CONTENT # be16 (length (fp_content sample_file))
       @ fp_content sample_file) = Some (sample_file\<lparr>fp_size := Some 5\<rparr>)"
proof -
  have "wf_file sample_file"
    by (simp add: wf_file_def sample_file_def MAX_PAYLOAD_BYTES_def utf8_eval)
  moreover have "length (fp_content sample_file) \<le> 65535" by (simp add: sample_file_def)
  moreover have "file_received sample_file = sample_file\<lparr>fp_size := Some 5\<rparr>"
    by (simp add: sample_file_def file_received_def short_text_def declared_size_def)
  ultimately show ?thesis using file_roundtrip [of sample_file] by simp
qed

lemma file_loop_content_bound:
  "file_loop d f = Some f' \<Longrightarrow> length (fp_content f) \<le> MAX_PAYLOAD_BYTES \<Longrightarrow>
   length (fp_content f') \<le> MAX_PAYLOAD_BYTES"
proof (induction d f rule: file_loop.induct)
  case (2 t r f)
  then obtain n r' g where g: "record_length t r = Some (n, r')" "\<not> length r' < n"
    "file_field t (take n r') f = Some g" "file_loop (drop n r') g = Some f'"
    by (auto simp: file_loop.simps(2) split: option.splits if_split_asm)
  then have "length (fp_content g) \<le> MAX_PAYLOAD_BYTES"
    using "2.prems"(2) by (auto simp: file_field_def split: if_split_asm)
  with g 2 show ?case by auto
qed simp

text \<open>
  Whatever bytes arrive, a decoded file has content and never more than the one
  mebibyte a transfer may carry.
\<close>

theorem file_content_bounded:
  "file_decode d = Some f \<Longrightarrow> fp_content f \<noteq> [] \<and> length (fp_content f) \<le> MAX_PAYLOAD_BYTES"
  using file_loop_content_bound [of d file_empty f]
  by (auto simp: file_decode_def file_empty_def split: option.splits if_split_asm)

theorem file_content_bounded_witness:
  "\<exists>f. file_decode [4, 0, 1, 7] = Some f \<and> fp_content f \<noteq> [] \<and> length (fp_content f) \<le> MAX_PAYLOAD_BYTES"
proof -
  have "file_decode [4, 0, 1, 7] = Some (file_empty\<lparr>fp_content := [7]\<rparr>)"
    by (simp add: file_decode_def file_loop.simps(2) record_length_def narrow_length_def
        file_read_be_def be_to_nat_def file_field_def MAX_PAYLOAD_BYTES_def)
  with file_content_bounded [OF this] show ?thesis by blast
qed

end
