(* ===== verification/Courier.thy ===== *)
theory Courier
  imports Tlv
begin

text \<open>
  Courier envelopes (courier.rs): the sealed message addressed by a rotating tag, its
  two-byte-length records, its identity, and the tags that tell a peer its own mail.  The
  hash functions are parameters: \<open>sha256\<close> of the \<open>sha2\<close> crate and \<open>hmac\<close> of the \<open>hmac\<close>
  crate (key, then message).  Sealing and opening are the one-way Noise pattern and are
  not modelled here.
\<close>

section \<open>Definitions\<close>

definition TAG_BYTES :: nat where
  "TAG_BYTES = 16"

definition MAX_CIPHERTEXT_BYTES :: nat where
  "MAX_CIPHERTEXT_BYTES = 16 * 1024"

definition MAX_LIFETIME_SECONDS :: u64 where
  "MAX_LIFETIME_SECONDS = 24 * 60 * 60"

definition MAX_COPIES :: byte where
  "MAX_COPIES = 8"

text \<open>\<open>bitchat-courier-tag-v1\<close>\<close>

definition TAG_CONTEXT :: bytes where
  "TAG_CONTEXT = [98, 105, 116, 99, 104, 97, 116, 45, 99, 111, 117, 114, 105, 101, 114, 45,
                  116, 97, 103, 45, 118, 49]"

abbreviation (input) TLV_RECIPIENT_TAG :: byte where "TLV_RECIPIENT_TAG \<equiv> 0x01"
abbreviation (input) TLV_EXPIRY :: byte where "TLV_EXPIRY \<equiv> 0x02"
abbreviation (input) TLV_CIPHERTEXT :: byte where "TLV_CIPHERTEXT \<equiv> 0x03"
abbreviation (input) TLV_COPIES :: byte where "TLV_COPIES \<equiv> 0x04"
abbreviation (input) TLV_PREKEY_ID :: byte where "TLV_PREKEY_ID \<equiv> 0x05"

record envelope =
  en_tag :: bytes
  en_expiry :: u64
  en_ciphertext :: bytes
  en_copies :: byte
  en_prekey :: "u32 option"

definition clamp_copies :: "byte \<Rightarrow> byte" where
  "clamp_copies c = (if c < 1 then 1 else if c > MAX_COPIES then MAX_COPIES else c)"

definition envelope_new ::
  "bytes \<Rightarrow> u64 \<Rightarrow> bytes \<Rightarrow> byte \<Rightarrow> u32 option \<Rightarrow> envelope option" where
  "envelope_new tag expiry ciphertext copies prekey =
     (if ciphertext = [] \<or> length ciphertext > MAX_CIPHERTEXT_BYTES then None
      else Some \<lparr>en_tag = tag, en_expiry = expiry, en_ciphertext = ciphertext,
                 en_copies = clamp_copies copies, en_prekey = prekey\<rparr>)"

definition is_expired :: "envelope \<Rightarrow> u64 \<Rightarrow> bool" where
  "is_expired e now \<longleftrightarrow> now \<ge> en_expiry e"

definition remaining_seconds :: "envelope \<Rightarrow> u64 \<Rightarrow> u64" where
  "remaining_seconds e now = (if now \<le> en_expiry e then en_expiry e - now else 0) div 1000"

definition envelope_encode :: "envelope \<Rightarrow> bytes option" where
  "envelope_encode e =
     (if en_ciphertext e = [] \<or> length (en_ciphertext e) > MAX_CIPHERTEXT_BYTES then None
      else Some
        (push_tlv2 TLV_RECIPIENT_TAG (en_tag e)
         @ push_tlv2 TLV_EXPIRY (be64 (en_expiry e))
         @ push_tlv2 TLV_CIPHERTEXT (en_ciphertext e)
         @ (if en_copies e > 1 then push_tlv2 TLV_COPIES [en_copies e] else [])
         @ (case en_prekey e of None \<Rightarrow> [] | Some k \<Rightarrow> push_tlv2 TLV_PREKEY_ID (be32 (unat k)))))"

record envelope_draft =
  ed_tag :: "bytes option"
  ed_expiry :: "u64 option"
  ed_ciphertext :: "bytes option"
  ed_copies :: byte
  ed_prekey :: "u32 option"

definition envelope_field :: "byte \<Rightarrow> bytes \<Rightarrow> envelope_draft \<Rightarrow> envelope_draft option" where
  "envelope_field t v s =
     (if t = TLV_RECIPIENT_TAG then
        (if length v = TAG_BYTES then Some (s\<lparr>ed_tag := Some v\<rparr>) else None)
      else if t = TLV_EXPIRY then
        (if length v = 8 then Some (s\<lparr>ed_expiry := Some (u64_of_be v)\<rparr>) else None)
      else if t = TLV_CIPHERTEXT then
        (if v = [] \<or> length v > MAX_CIPHERTEXT_BYTES then None
         else Some (s\<lparr>ed_ciphertext := Some v\<rparr>))
      else if t = TLV_COPIES then
        (if length v \<noteq> 1 then None else Some (s\<lparr>ed_copies := v ! 0\<rparr>))
      else if t = TLV_PREKEY_ID then
        (if length v = 4 then Some (s\<lparr>ed_prekey := Some (of_nat (be_to_nat v))\<rparr>) else None)
      else Some s)"

definition envelope_empty :: envelope_draft where
  "envelope_empty = \<lparr>ed_tag = None, ed_expiry = None, ed_ciphertext = None, ed_copies = 1,
     ed_prekey = None\<rparr>"

definition envelope_decode :: "bytes \<Rightarrow> envelope option" where
  "envelope_decode d = do {
     s \<leftarrow> tlv2_strict envelope_field d envelope_empty;
     tag \<leftarrow> ed_tag s;
     expiry \<leftarrow> ed_expiry s;
     ciphertext \<leftarrow> ed_ciphertext s;
     envelope_new tag expiry ciphertext (ed_copies s) (ed_prekey s)
   }"

text \<open>The identity of an envelope leaves out the copy budget.\<close>

definition fingerprint :: "(bytes \<Rightarrow> bytes) \<Rightarrow> envelope \<Rightarrow> text_bytes" where
  "fingerprint sha256 e =
     hex_encode (take 16 (sha256 (en_tag e @ be64 (en_expiry e) @ en_ciphertext e)))"

definition epoch_day :: "u64 \<Rightarrow> u32" where
  "epoch_day now_seconds = ucast (now_seconds div 86400)"

definition recipient_tag :: "(bytes \<Rightarrow> bytes \<Rightarrow> bytes) \<Rightarrow> bytes \<Rightarrow> u32 \<Rightarrow> bytes" where
  "recipient_tag hmac key day = take TAG_BYTES (hmac key (TAG_CONTEXT @ be32 (unat day)))"

definition candidate_tags :: "(bytes \<Rightarrow> bytes \<Rightarrow> bytes) \<Rightarrow> bytes \<Rightarrow> u64 \<Rightarrow> bytes list" where
  "candidate_tags hmac key now_seconds =
     (let today = epoch_day now_seconds in
      [recipient_tag hmac key (if today = 0 then 0 else today - 1),
       recipient_tag hmac key today,
       recipient_tag hmac key (if today = 0xFFFFFFFF then 0xFFFFFFFF else today + 1)])"

section \<open>Encoding and decoding\<close>

definition wf_envelope :: "envelope \<Rightarrow> bool" where
  "wf_envelope e \<longleftrightarrow>
     length (en_tag e) = TAG_BYTES \<and> en_ciphertext e \<noteq> []
     \<and> length (en_ciphertext e) \<le> MAX_CIPHERTEXT_BYTES
     \<and> clamp_copies (en_copies e) = en_copies e"

lemma clamp_copies_idem [simp]: "clamp_copies (clamp_copies c) = clamp_copies c"
  by (simp add: clamp_copies_def MAX_COPIES_def)

lemma clamp_copies_omitted: "clamp_copies c = c \<Longrightarrow> \<not> 1 < c \<Longrightarrow> c = 1"
  by (cases "c = 0") (simp_all add: clamp_copies_def MAX_COPIES_def word_less_nat_alt word_unat_eq_iff)

lemma envelope_encode_wf:
  assumes "wf_envelope e"
  shows "\<exists>d. envelope_encode e = Some d
    \<and> tlv2_strict envelope_field d envelope_empty =
        Some \<lparr>ed_tag = Some (en_tag e), ed_expiry = Some (en_expiry e),
              ed_ciphertext = Some (en_ciphertext e), ed_copies = en_copies e,
              ed_prekey = en_prekey e\<rparr>"
proof -
  have w: "length (en_tag e) = 16" "en_ciphertext e \<noteq> []" "length (en_ciphertext e) \<le> 16384"
    "\<not> 1 < en_copies e \<Longrightarrow> en_copies e = 1"
    using assms clamp_copies_omitted
    by (auto simp: wf_envelope_def TAG_BYTES_def MAX_CIPHERTEXT_BYTES_def)
  show ?thesis
    using w by (cases "en_prekey e"; cases "1 < en_copies e")
      (simp_all add: envelope_encode_def MAX_CIPHERTEXT_BYTES_def tlv2s.loop_put
        tlv2s.loop_put_end envelope_field_def TAG_BYTES_def envelope_empty_def)
qed

lemma envelope_decode_encode:
  assumes "wf_envelope e"
  shows "\<exists>d. envelope_encode e = Some d \<and> envelope_decode d = Some e"
  using envelope_encode_wf [OF assms] assms
  by (auto simp: envelope_decode_def envelope_new_def wf_envelope_def)

lemma envelope_field_invariant:
  assumes "tlv2_strict envelope_field d s = Some s'"
    and "\<forall>tag. ed_tag s = Some tag \<longrightarrow> length tag = TAG_BYTES"
  shows "\<forall>tag. ed_tag s' = Some tag \<longrightarrow> length tag = TAG_BYTES"
  using assms
proof (induction envelope_field d s rule: tlv2_strict.induct)
  case (2 t h l rest s)
  obtain n where n: "n = be_to_nat [h, l]" by simp
  with "2.prems"(1) obtain s1 where s1: "envelope_field t (take n rest) s = Some s1"
    and rest: "tlv2_strict envelope_field (drop n rest) s1 = Some s'" and len: "n \<le> length rest"
    by (auto simp: Let_def split: if_split_asm option.split_asm)
  have "\<forall>tag. ed_tag s1 = Some tag \<longrightarrow> length tag = TAG_BYTES"
    using s1 "2.prems"(2) by (auto simp: envelope_field_def split: if_split_asm)
  then show ?case using "2.hyps" [OF n len s1] rest by blast
qed auto

lemma envelope_new_wf:
  "length tag = TAG_BYTES \<Longrightarrow> envelope_new tag expiry c k p = Some e \<Longrightarrow> wf_envelope e"
  by (auto simp: envelope_new_def wf_envelope_def split: if_split_asm)

lemma envelope_decode_wf: "envelope_decode d = Some e \<Longrightarrow> wf_envelope e"
  using envelope_field_invariant [of d envelope_empty]
  by (auto simp: envelope_decode_def envelope_empty_def bind_eq_Some_conv intro: envelope_new_wf)

text \<open>A carry-only, statically sealed envelope is the three mandatory records and no more.\<close>

lemma envelope_encode_plain:
  "wf_envelope e \<Longrightarrow> en_copies e = 1 \<Longrightarrow> en_prekey e = None \<Longrightarrow>
   envelope_encode e = Some (push_tlv2 TLV_RECIPIENT_TAG (en_tag e)
     @ push_tlv2 TLV_EXPIRY (be64 (en_expiry e)) @ push_tlv2 TLV_CIPHERTEXT (en_ciphertext e))"
  by (auto simp: envelope_encode_def wf_envelope_def)

lemma fingerprint_copies [simp]: "fingerprint sha256 (e\<lparr>en_copies := k\<rparr>) = fingerprint sha256 e"
  by (simp add: fingerprint_def)

section \<open>Recognising one's own mail\<close>

lemma unat_epoch_day:
  "unat t < 86400 * 2 ^ 32 \<Longrightarrow> unat (epoch_day t) = unat t div 86400"
proof -
  assume t: "unat t < 86400 * 2 ^ 32"
  have "unat (t div 86400) = unat t div 86400" by (simp add: unat_div)
  moreover have "\<dots> < 2 ^ 32" using t by (simp add: less_mult_imp_div_less)
  ultimately show ?thesis by (simp add: epoch_day_def unsigned_ucast_eq take_bit_eq_mod)
qed

lemma recipient_tag_candidate:
  assumes "unat s < 86400 * 2 ^ 32" and "unat t < 86400 * 2 ^ 32"
    and "unat s \<le> unat t + 86400" and "unat t \<le> unat s + 86400"
  shows "recipient_tag hmac key (epoch_day s) \<in> set (candidate_tags hmac key t)"
proof -
  let ?d = "unat s div 86400" and ?e = "unat t div 86400"
  have d: "unat (epoch_day s) = ?d" and e: "unat (epoch_day t) = ?e"
    using assms(1,2) by (simp_all add: unat_epoch_day)
  have near: "?d = ?e \<or> ?d = ?e + 1 \<or> ?e = ?d + 1" using assms(3,4) by linarith
  from near consider "epoch_day s = epoch_day t"
    | "unat (epoch_day s) = unat (epoch_day t) + 1" | "unat (epoch_day t) = unat (epoch_day s) + 1"
    using d e by (metis word_unat_eq_iff)
  then show ?thesis
  proof cases
    case 1
    then show ?thesis by (simp add: candidate_tags_def Let_def)
  next
    case 2
    then have "epoch_day s = epoch_day t + 1"
      by (rule word_eq_plus_one)
    moreover have "epoch_day t \<noteq> 0xFFFFFFFF"
      using 2 unsigned_less [of "epoch_day s", where ?'a = nat] by auto
    ultimately show ?thesis by (simp add: candidate_tags_def Let_def)
  next
    case 3
    then have "epoch_day t = epoch_day s + 1"
      by (rule word_eq_plus_one)
    moreover have "epoch_day t \<noteq> 0" using 3 by auto
    ultimately show ?thesis by (simp add: candidate_tags_def Let_def)
  qed
qed

section \<open>Properties\<close>

text \<open>
  Mail is carried without loss: whatever bytes a courier accepts decode to an envelope
  that it can encode again, and decoding that encoding gives the same envelope; a
  carry-only envelope is written without a copies record.
\<close>

theorem envelope_survives_carrying:
  assumes "envelope_decode d = Some e"
  shows "\<exists>d'. envelope_encode e = Some d' \<and> envelope_decode d' = Some e
     \<and> (en_copies e = 1 \<longrightarrow> en_prekey e = None \<longrightarrow>
          d' = push_tlv2 TLV_RECIPIENT_TAG (en_tag e) @ push_tlv2 TLV_EXPIRY (be64 (en_expiry e))
               @ push_tlv2 TLV_CIPHERTEXT (en_ciphertext e))"
proof -
  have wf: "wf_envelope e" using assms by (rule envelope_decode_wf)
  then show ?thesis using envelope_decode_encode [OF wf] envelope_encode_plain [OF wf] by auto
qed

definition sample_envelope :: envelope where
  "sample_envelope = \<lparr>en_tag = replicate 16 5, en_expiry = 1000000, en_ciphertext = [1, 2, 3],
     en_copies = 4, en_prekey = Some 77\<rparr>"

lemma sample_envelope_wf [simp]: "wf_envelope sample_envelope"
  by (simp add: wf_envelope_def sample_envelope_def TAG_BYTES_def MAX_CIPHERTEXT_BYTES_def
      clamp_copies_def MAX_COPIES_def word_less_nat_alt)

theorem envelope_survives_carrying_witness:
  "\<exists>d d'. envelope_decode d = Some sample_envelope \<and> envelope_encode sample_envelope = Some d'
     \<and> envelope_decode d' = Some sample_envelope"
proof -
  obtain d where "envelope_decode d = Some sample_envelope"
    using envelope_decode_encode [OF sample_envelope_wf] by blast
  with envelope_survives_carrying [OF this] show ?thesis by blast
qed

text \<open>
  A recipient recognises mail sealed up to a day before or after: the tag computed
  from the sealing time is among the three candidates computed from the recipient's clock
  whenever the two clocks read within 86400 seconds of each other, across any midnight.
\<close>

theorem own_mail_recognised:
  assumes "unat s < 86400 * 2 ^ 32" and "unat t < 86400 * 2 ^ 32"
    and "unat s \<le> unat t + 86400" and "unat t \<le> unat s + 86400"
  shows "recipient_tag hmac key (epoch_day s) \<in> set (candidate_tags hmac key t)"
  using assms by (rule recipient_tag_candidate)

theorem own_mail_recognised_witness:
  "recipient_tag (@) [7] (epoch_day 86399) \<in> set (candidate_tags (@) [7] 172799)"
  by (rule own_mail_recognised) simp_all

end
