(* ===== verification/Mailbox.thy ===== *)
theory Mailbox
  imports Courier Text "HOL-Library.Sublist"
begin

text \<open>
  The shelf for other people's mail (mailbox.rs): deposits with their quotas, eviction,
  collection, expiry, and the file it survives restarts in.  The file is the state
  component \<open>mb_disk\<close> (\<open>None\<close> when it does not exist); writing, renaming and removing it
  are taken to succeed.  \<open>sha256\<close> is the hash behind \<open>fingerprint\<close>.  Times are \<open>u64\<close>
  milliseconds and sums of them wrap, as they do in a release build.
\<close>

section \<open>State\<close>

definition MAX_HELD :: nat where "MAX_HELD = 40"
definition MAX_VERIFIED_HELD :: nat where "MAX_VERIFIED_HELD = 20"
definition MAX_PER_FAVOURITE :: nat where "MAX_PER_FAVOURITE = 5"
definition MAX_PER_VERIFIED :: nat where "MAX_PER_VERIFIED = 2"
definition EXPIRY_SLACK_SECONDS :: u64 where "EXPIRY_SLACK_SECONDS = 60 * 60"

datatype tier = Favourite | Verified

fun quota :: "tier \<Rightarrow> nat" where
  "quota Favourite = MAX_PER_FAVOURITE"
| "quota Verified = MAX_PER_VERIFIED"

fun tier_label :: "tier \<Rightarrow> text_bytes" where
  "tier_label Favourite = ascii ''favourite''"
| "tier_label Verified = ascii ''verified''"

datatype deposit = Accepted | AlreadyHeld | Refused string

record held =
  hd_envelope :: envelope
  hd_depositor :: text_bytes
  hd_tier :: tier
  hd_stored :: u64

record mailbox =
  mb_enabled :: bool
  mb_held :: "held list"
  mb_path :: bool
  mb_disk :: "text_bytes option"
  mb_delivered :: nat

definition verified_held :: "held list \<Rightarrow> nat" where
  "verified_held hs = length (filter (\<lambda>i. hd_tier i = Verified) hs)"

definition alive :: "u64 \<Rightarrow> held list \<Rightarrow> held list" where
  "alive now hs = filter (\<lambda>i. \<not> is_expired (hd_envelope i) now) hs"

section \<open>Persistence\<close>

definition held_row :: "held \<Rightarrow> text_bytes option" where
  "held_row i =
     (case envelope_encode (hd_envelope i) of
        None \<Rightarrow> None
      | Some wire \<Rightarrow> Some (join_with [9]
          [hex_encode wire, hd_depositor i, tier_label (hd_tier i), show_nat (unat (hd_stored i))]))"

definition save :: "mailbox \<Rightarrow> mailbox" where
  "save m =
     (if \<not> mb_path m then m
      else if mb_held m = [] then m\<lparr>mb_disk := None\<rparr>
      else m\<lparr>mb_disk := Some (join_with [10] (List.map_filter held_row (mb_held m)))\<rparr>)"

definition parse_tier :: "text_bytes \<Rightarrow> tier option" where
  "parse_tier s =
     (if s = ascii ''favourite'' then Some Favourite
      else if s = ascii ''verified'' then Some Verified
      else None)"

definition parse_row :: "text_bytes \<Rightarrow> held option" where
  "parse_row row =
     (case split_on 9 row of
        f0 # f1 # f2 # f3 # _ \<Rightarrow> do {
          wire \<leftarrow> hex_decode f0;
          e \<leftarrow> envelope_decode wire;
          t \<leftarrow> parse_tier f2;
          stored \<leftarrow> parse_u64 f3;
          Some \<lparr>hd_envelope = e, hd_depositor = f1, hd_tier = t, hd_stored = stored\<rparr>
        }
      | _ \<Rightarrow> None)"

definition read_from_disk :: "mailbox \<Rightarrow> held list" where
  "read_from_disk m =
     (if \<not> mb_path m then []
      else case mb_disk m of
        None \<Rightarrow> []
      | Some text \<Rightarrow> if utf8_valid text then List.map_filter parse_row (text_lines text) else [])"

definition open_at :: "bool \<Rightarrow> text_bytes option \<Rightarrow> u64 \<Rightarrow> mailbox" where
  "open_at path disk now =
     (let m = \<lparr>mb_enabled = False, mb_held = [], mb_path = path, mb_disk = disk, mb_delivered = 0\<rparr>
      in m\<lparr>mb_held := alive now (read_from_disk m)\<rparr>)"

section \<open>Operations\<close>

definition set_enabled :: "bool \<Rightarrow> mailbox \<Rightarrow> nat \<times> mailbox" where
  "set_enabled on m =
     (let m = m\<lparr>mb_enabled := on\<rparr> in
      if on then (0, m) else (length (mb_held m), save (m\<lparr>mb_held := []\<rparr>)))"

definition prune :: "u64 \<Rightarrow> mailbox \<Rightarrow> nat \<times> mailbox" where
  "prune now m =
     (let kept = alive now (mb_held m);
          dropped = length (mb_held m) - length kept;
          m = m\<lparr>mb_held := kept\<rparr>
      in (dropped, if 0 < dropped then save m else m))"

text \<open>The first item with the fingerprint keeps the larger copy budget.\<close>

fun merge_copies :: "(bytes \<Rightarrow> bytes) \<Rightarrow> envelope \<Rightarrow> held list \<Rightarrow> held list" where
  "merge_copies sha256 e [] = []"
| "merge_copies sha256 e (i # is) =
     (if fingerprint sha256 (hd_envelope i) = fingerprint sha256 e
      then i\<lparr>hd_envelope := (hd_envelope i)\<lparr>en_copies := max (en_copies (hd_envelope i)) (en_copies e)\<rparr>\<rparr> # is
      else i # merge_copies sha256 e is)"

text \<open>Remove the first stranger's item, or report that there is none.\<close>

fun remove_verified :: "held list \<Rightarrow> held list option" where
  "remove_verified [] = None"
| "remove_verified (i # is) =
     (if hd_tier i = Verified then Some is else map_option ((#) i) (remove_verified is))"

definition make_room :: "tier \<Rightarrow> held list \<Rightarrow> held list option" where
  "make_room incoming hs =
     (case remove_verified hs of
        Some hs' \<Rightarrow> Some hs'
      | None \<Rightarrow> if incoming = Favourite \<and> hs \<noteq> [] then Some (tl hs) else None)"

definition accept ::
  "(bytes \<Rightarrow> bytes) \<Rightarrow> envelope \<Rightarrow> text_bytes \<Rightarrow> tier \<Rightarrow> u64 \<Rightarrow> mailbox \<Rightarrow> deposit \<times> mailbox" where
  "accept sha256 e depositor tier now m =
     (if \<not> mb_enabled m then (Refused ''not holding mail'', m)
      else if is_expired e now then (Refused ''already expired'', m)
      else if en_expiry e > now + (MAX_LIFETIME_SECONDS + EXPIRY_SLACK_SECONDS) * 1000
      then (Refused ''wants holding for longer than we hold anything'', m)
      else
        let m = snd (prune now m); hs = mb_held m in
        if list_ex (\<lambda>i. fingerprint sha256 (hd_envelope i) = fingerprint sha256 e) hs
        then (AlreadyHeld, save (m\<lparr>mb_held := merge_copies sha256 e hs\<rparr>))
        else if quota tier \<le> length (filter (\<lambda>i. hd_depositor i = depositor) hs)
        then (Refused ''this peer's share of the shelf is full'', m)
        else if tier = Verified \<and> verified_held hs \<ge> MAX_VERIFIED_HELD
        then (Refused ''no room left for mail from peers we do not know'', m)
        else
          case (if length hs \<ge> MAX_HELD then make_room tier hs else Some hs) of
            None \<Rightarrow> (Refused ''the shelf is full of favourites' mail'', m)
          | Some hs' \<Rightarrow>
              (Accepted, save (m\<lparr>mb_held := hs' @ [\<lparr>hd_envelope = e, hd_depositor = depositor,
                                                    hd_tier = tier, hd_stored = now\<rparr>]\<rparr>)))"

definition collect :: "bytes list \<Rightarrow> mailbox \<Rightarrow> envelope list \<times> mailbox" where
  "collect tags m =
     (let theirs = map hd_envelope (filter (\<lambda>i. en_tag (hd_envelope i) \<in> set tags) (mb_held m));
          m = m\<lparr>mb_held := filter (\<lambda>i. en_tag (hd_envelope i) \<notin> set tags) (mb_held m)\<rparr>
      in (theirs,
          if theirs \<noteq> [] then save (m\<lparr>mb_delivered := mb_delivered m + length theirs\<rparr>) else m))"

definition wipe :: "mailbox \<Rightarrow> mailbox" where
  "wipe m =
     (let m = m\<lparr>mb_held := [], mb_delivered := 0\<rparr> in
      if mb_path m then m\<lparr>mb_disk := None\<rparr> else m)"

section \<open>The file\<close>

definition wf_held :: "held \<Rightarrow> bool" where
  "wf_held i \<longleftrightarrow>
     wf_envelope (hd_envelope i) \<and> utf8_valid (hd_depositor i)
     \<and> 9 \<notin> set (hd_depositor i) \<and> 10 \<notin> set (hd_depositor i)"

lemma hex_digit_not_separator: "n < 16 \<Longrightarrow> hex_digit n \<noteq> 9 \<and> hex_digit n \<noteq> 10"
  by (auto simp: hex_digit_def word_unat_eq_iff unat_of_nat simp del: of_nat_add)

lemma hex_encode_separator: "9 \<notin> set (hex_encode bs)" "10 \<notin> set (hex_encode bs)"
  by (induction bs) (use hex_digit_not_separator in force)+

lemma show_nat_separator: "9 \<notin> set (show_nat n)" "10 \<notin> set (show_nat n)" "13 \<notin> set (show_nat n)"
  using show_nat_digits [of _ n] by fastforce+

lemma show_nat_utf8: "utf8_valid (show_nat n)"
proof (rule utf8_valid_ascii, rule ballI)
  fix c assume "c \<in> set (show_nat n)"
  from show_nat_digits [OF this] show "c \<le> 0x7F"
    by (auto simp: digit_value_def Let_def word_le_nat_alt split: if_split_asm)
qed

lemma tier_label_facts:
  "9 \<notin> set (tier_label t)" "10 \<notin> set (tier_label t)" "utf8_valid (tier_label t)"
  "parse_tier (tier_label t) = Some t"
  by (cases t; simp add: ascii_def parse_tier_def utf8_eval)+

lemma held_row_parse:
  assumes "wf_held i"
  shows "\<exists>row. held_row i = Some row \<and> parse_row row = Some i \<and> 10 \<notin> set row \<and> utf8_valid row
     \<and> row \<noteq> [] \<and> last row \<noteq> 13"
proof -
  obtain wire where w: "envelope_encode (hd_envelope i) = Some wire"
    "envelope_decode wire = Some (hd_envelope i)"
    using assms envelope_decode_encode by (auto simp: wf_held_def)
  let ?fields = "[hex_encode wire, hd_depositor i, tier_label (hd_tier i), show_nat (unat (hd_stored i))]"
  let ?row = "join_with [9] ?fields"
  have row: "held_row i = Some ?row" using w by (simp add: held_row_def)
  have "split_on 9 ?row = ?fields"
    using assms by (intro split_on_join) (auto simp: wf_held_def hex_encode_separator
        show_nat_separator tier_label_facts)
  then have "parse_row ?row = Some i" using w(2) by (simp add: parse_row_def tier_label_facts)
  moreover have "10 \<notin> set ?row"
    using assms by (auto simp: wf_held_def hex_encode_separator show_nat_separator tier_label_facts)
  moreover have "utf8_valid ?row"
    using assms utf8_valid_append [of "[9]"]
    by (simp add: wf_held_def show_nat_utf8 tier_label_facts utf8_valid_append utf8_eval)
  moreover have "?row \<noteq> []" by simp
  moreover have "last ?row = last (show_nat (unat (hd_stored i)))" by simp
  then have "last ?row \<noteq> 13"
    using show_nat_separator(3) last_in_set [OF show_nat_nonempty] by metis
  ultimately show ?thesis using row by blast
qed

lemma map_filter_inverse:
  "\<forall>x \<in> set xs. \<exists>y. f x = Some y \<and> g y = Some x \<Longrightarrow>
   List.map_filter g (List.map_filter f xs) = xs"
  by (induction xs) (auto simp: List.map_filter_simps)

lemma set_map_filter: "y \<in> set (List.map_filter f xs) \<longleftrightarrow> (\<exists>x \<in> set xs. f x = Some y)"
  by (induction xs) (auto simp: List.map_filter_simps split: option.splits)

lemma utf8_valid_join:
  "utf8_valid sep \<Longrightarrow> \<forall>x \<in> set xs. utf8_valid x \<Longrightarrow> utf8_valid (join_with sep xs)"
  by (induction sep xs rule: join_with.induct) (auto intro!: utf8_valid_append)

lemma read_after_save:
  assumes "\<forall>i \<in> set (mb_held m). wf_held i" and "mb_path m"
  shows "read_from_disk (save m) = mb_held m"
proof (cases "mb_held m = []")
  case False
  let ?rows = "List.map_filter held_row (mb_held m)"
  have rows: "\<forall>row \<in> set ?rows. 10 \<notin> set row \<and> utf8_valid row \<and> row \<noteq> [] \<and> last row \<noteq> 13"
    using held_row_parse assms(1) by (fastforce simp: set_map_filter)
  then have "utf8_valid (join_with [10] ?rows)"
    by (intro utf8_valid_join) (auto simp: utf8_eval)
  moreover have "text_lines (join_with [10] ?rows) = ?rows"
    using rows by (intro text_lines_join) blast
  moreover have "List.map_filter parse_row ?rows = mb_held m"
    using held_row_parse assms(1) by (intro map_filter_inverse) blast
  ultimately show ?thesis using False assms(2) by (simp add: save_def read_from_disk_def)
qed (use assms(2) in \<open>simp add: save_def read_from_disk_def\<close>)

section \<open>What the shelf promises\<close>

definition shelf_ok :: "(bytes \<Rightarrow> bytes) \<Rightarrow> held list \<Rightarrow> bool" where
  "shelf_ok sha256 hs \<longleftrightarrow>
     length hs \<le> MAX_HELD \<and> verified_held hs \<le> MAX_VERIFIED_HELD
     \<and> (\<forall>d. length (filter (\<lambda>i. hd_depositor i = d) hs) \<le> MAX_PER_FAVOURITE)
     \<and> (\<forall>d. length (filter (\<lambda>i. hd_depositor i = d \<and> hd_tier i = Verified) hs) \<le> MAX_PER_VERIFIED)
     \<and> distinct (map (\<lambda>i. fingerprint sha256 (hd_envelope i)) hs)
     \<and> (\<forall>i \<in> set hs. wf_held i)"

lemma subseq_filter_length: "subseq xs ys \<Longrightarrow> length (filter P xs) \<le> length (filter P ys)"
  using list_emb_length [OF subseq_filter [of xs ys P]] by simp

lemma subseq_distinct: "subseq xs ys \<Longrightarrow> distinct ys \<Longrightarrow> distinct xs"
  by (induction rule: list_emb.induct) (auto dest: list_emb_set)

lemma subseq_in: "subseq xs ys \<Longrightarrow> x \<in> set xs \<Longrightarrow> x \<in> set ys"
  by (induction rule: list_emb.induct) auto

lemma shelf_ok_subseq:
  assumes "subseq hs' hs" and "shelf_ok sha256 hs"
  shows "shelf_ok sha256 hs'"
proof -
  have f: "length (filter P hs') \<le> length (filter P hs)" for P
    using assms(1) by (rule subseq_filter_length)
  have "length hs' \<le> MAX_HELD"
    using assms list_emb_length [OF assms(1)] by (simp add: shelf_ok_def)
  moreover have "verified_held hs' \<le> MAX_VERIFIED_HELD"
    using assms(2) f le_trans unfolding shelf_ok_def verified_held_def by blast
  moreover have "\<forall>d. length (filter (\<lambda>i. hd_depositor i = d) hs') \<le> MAX_PER_FAVOURITE"
    using assms(2) f le_trans unfolding shelf_ok_def by blast
  moreover have "\<forall>d. length (filter (\<lambda>i. hd_depositor i = d \<and> hd_tier i = Verified) hs') \<le> MAX_PER_VERIFIED"
    using assms(2) f le_trans unfolding shelf_ok_def by blast
  moreover have "distinct (map (\<lambda>i. fingerprint sha256 (hd_envelope i)) hs')"
    using assms(2) subseq_distinct [OF subseq_map [OF assms(1)]] unfolding shelf_ok_def by blast
  moreover have "\<forall>i \<in> set hs'. wf_held i"
    using assms(2) subseq_in [OF assms(1)] by (auto simp: shelf_ok_def)
  ultimately show ?thesis by (simp add: shelf_ok_def)
qed

lemma alive_subseq: "subseq (alive now hs) hs"
  by (simp add: alive_def)

lemma remove_verified_subseq: "remove_verified hs = Some hs' \<Longrightarrow> subseq hs' hs"
  by (induction hs arbitrary: hs') (auto split: if_split_asm)

lemma make_room_subseq: "make_room t hs = Some hs' \<Longrightarrow> subseq hs' hs"
  by (cases hs) (auto simp: make_room_def remove_verified_subseq split: option.splits if_split_asm)

lemma remove_verified_length: "remove_verified hs = Some hs' \<Longrightarrow> length hs = Suc (length hs')"
  by (induction hs arbitrary: hs') (auto split: if_split_asm)

lemma make_room_length: "make_room t hs = Some hs' \<Longrightarrow> length hs = Suc (length hs')"
  by (auto simp: make_room_def remove_verified_length split: option.splits if_split_asm)

lemma remove_verified_favourites:
  "remove_verified hs = Some hs' \<Longrightarrow>
   filter (\<lambda>i. hd_tier i = Favourite) hs' = filter (\<lambda>i. hd_tier i = Favourite) hs"
  by (induction hs arbitrary: hs') (auto split: if_split_asm)

text \<open>Raising a copy budget changes no count, no identity and no validity.\<close>

definition same_mail :: "(bytes \<Rightarrow> bytes) \<Rightarrow> held \<Rightarrow> text_bytes \<times> text_bytes \<times> tier \<times> u64" where
  "same_mail sha256 i =
     (fingerprint sha256 (hd_envelope i), hd_depositor i, hd_tier i, hd_stored i)"

lemma merge_copies_same: "map (same_mail sha256) (merge_copies sha256 e hs) = map (same_mail sha256) hs"
  by (induction sha256 e hs rule: merge_copies.induct) (auto simp: same_mail_def)

lemma clamp_max: "clamp_copies a = a \<Longrightarrow> clamp_copies b = b \<Longrightarrow> clamp_copies (max a b) = max a b"
  by (simp add: max_def)

lemma merge_copies_wf:
  "wf_envelope e \<Longrightarrow> \<forall>i \<in> set hs. wf_held i \<Longrightarrow> \<forall>i \<in> set (merge_copies sha256 e hs). wf_held i"
  by (induction sha256 e hs rule: merge_copies.induct)
    (auto simp: wf_held_def wf_envelope_def clamp_max)

lemma filter_map_length: "map f xs = map f ys \<Longrightarrow> length (filter (P \<circ> f) xs) = length (filter (P \<circ> f) ys)"
  by (metis filter_map length_map)

lemma shelf_ok_same:
  assumes "map (same_mail sha256) hs' = map (same_mail sha256) hs"
    and "shelf_ok sha256 hs" and "\<forall>i \<in> set hs'. wf_held i"
  shows "shelf_ok sha256 hs'"
proof -
  have l: "length hs' = length hs" using assms(1) map_eq_imp_length_eq by blast
  have f: "length (filter (\<lambda>i. Q (hd_depositor i) (hd_tier i)) hs') =
      length (filter (\<lambda>i. Q (hd_depositor i) (hd_tier i)) hs)" for Q
    using filter_map_length [OF assms(1), of "\<lambda>(_, d, t, _). Q d t"] by (simp add: same_mail_def comp_def)
  have d: "map (\<lambda>i. fingerprint sha256 (hd_envelope i)) hs' = map (\<lambda>i. fingerprint sha256 (hd_envelope i)) hs"
    using arg_cong [OF assms(1), of "map fst"] by (simp add: same_mail_def comp_def)
  show ?thesis
    using assms(2,3) f [of "\<lambda>d t. t = Verified"] f [of "\<lambda>d' t. d' = d" for d]
      f [of "\<lambda>d' t. d' = d \<and> t = Verified" for d] l d
    by (simp add: shelf_ok_def verified_held_def)
qed

lemma shelf_ok_snoc:
  assumes "shelf_ok sha256 hs" and "wf_held i" and "length hs < MAX_HELD"
    and "hd_tier i = Verified \<Longrightarrow> verified_held hs < MAX_VERIFIED_HELD"
    and "length (filter (\<lambda>j. hd_depositor j = hd_depositor i) hs) < quota (hd_tier i)"
    and "\<not> list_ex (\<lambda>j. fingerprint sha256 (hd_envelope j) = fingerprint sha256 (hd_envelope i)) hs"
  shows "shelf_ok sha256 (hs @ [i])"
proof -
  let ?n = "length (filter (\<lambda>j. hd_depositor j = hd_depositor i) hs)"
  have q: "?n < MAX_PER_FAVOURITE" "hd_tier i = Verified \<Longrightarrow> ?n < MAX_PER_VERIFIED"
    using assms(5) by (cases "hd_tier i"; simp add: MAX_PER_FAVOURITE_def MAX_PER_VERIFIED_def)+
  have "filter (\<lambda>j. hd_depositor j = hd_depositor i \<and> hd_tier j = Verified) hs =
      filter (\<lambda>j. hd_tier j = Verified) (filter (\<lambda>j. hd_depositor j = hd_depositor i) hs)"
    by (simp add: conj_commute)
  then have "length (filter (\<lambda>j. hd_depositor j = hd_depositor i \<and> hd_tier j = Verified) hs) \<le> ?n"
    by (simp only: length_filter_le)
  with q assms show ?thesis
    by (auto simp: shelf_ok_def verified_held_def list_ex_iff)
qed

definition mailbox_ok :: "(bytes \<Rightarrow> bytes) \<Rightarrow> mailbox \<Rightarrow> bool" where
  "mailbox_ok sha256 m \<longleftrightarrow> shelf_ok sha256 (mb_held m) \<and> shelf_ok sha256 (read_from_disk m)"

lemma save_fields [simp]:
  "mb_held (save m) = mb_held m" "mb_enabled (save m) = mb_enabled m" "mb_path (save m) = mb_path m"
  "mb_delivered (save m) = mb_delivered m"
  by (simp_all add: save_def)

lemma read_ignores [simp]:
  "read_from_disk (m\<lparr>mb_held := hs\<rparr>) = read_from_disk m"
  "read_from_disk (m\<lparr>mb_enabled := b\<rparr>) = read_from_disk m"
  "read_from_disk (m\<lparr>mb_delivered := n\<rparr>) = read_from_disk m"
  by (simp_all add: read_from_disk_def)

lemma shelf_ok_Nil [simp]: "shelf_ok sha256 []"
  by (simp add: shelf_ok_def verified_held_def)

lemma shelf_ok_wf: "shelf_ok sha256 hs \<Longrightarrow> \<forall>i \<in> set hs. wf_held i"
  by (simp add: shelf_ok_def)

lemma mailbox_ok_save: "shelf_ok sha256 (mb_held m) \<Longrightarrow> mailbox_ok sha256 (save m)"
  using read_after_save [OF shelf_ok_wf]
  by (cases "mb_path m") (auto simp: mailbox_ok_def read_from_disk_def save_def)

lemma prune_held [simp]: "mb_held (snd (prune now m)) = alive now (mb_held m)"
  "mb_enabled (snd (prune now m)) = mb_enabled m" "mb_path (snd (prune now m)) = mb_path m"
  by (simp_all add: prune_def Let_def)

lemma shelf_ok_alive: "shelf_ok sha256 hs \<Longrightarrow> shelf_ok sha256 (alive now hs)"
  using shelf_ok_subseq [OF alive_subseq] .

lemma mailbox_ok_prune: "mailbox_ok sha256 m \<Longrightarrow> mailbox_ok sha256 (snd (prune now m))"
  using mailbox_ok_save [of sha256 "m\<lparr>mb_held := alive now (mb_held m)\<rparr>"] shelf_ok_alive
  by (auto simp: prune_def Let_def mailbox_ok_def)

lemma mailbox_ok_accept:
  assumes "mailbox_ok sha256 m" and "wf_envelope e" and "utf8_valid d" "9 \<notin> set d" "10 \<notin> set d"
  shows "mailbox_ok sha256 (snd (accept sha256 e d t now m))"
proof -
  let ?m = "snd (prune now m)"
  let ?hs = "mb_held ?m"
  let ?i = "\<lparr>hd_envelope = e, hd_depositor = d, hd_tier = t, hd_stored = now\<rparr>"
  have m: "mailbox_ok sha256 ?m" using assms(1) by (rule mailbox_ok_prune)
  then have hs: "shelf_ok sha256 ?hs" by (simp add: mailbox_ok_def)
  have "mailbox_ok sha256 (save (?m\<lparr>mb_held := merge_copies sha256 e ?hs\<rparr>))"
    using shelf_ok_same [OF merge_copies_same hs merge_copies_wf [OF assms(2) shelf_ok_wf [OF hs]]]
    by (intro mailbox_ok_save) simp
  moreover have "mailbox_ok sha256 (save (?m\<lparr>mb_held := hs' @ [?i]\<rparr>))"
    if room: "(if length ?hs \<ge> MAX_HELD then make_room t ?hs else Some ?hs) = Some hs'"
      and fresh: "\<not> list_ex (\<lambda>j. fingerprint sha256 (hd_envelope j) = fingerprint sha256 e) ?hs"
      and share: "\<not> quota t \<le> length (filter (\<lambda>j. hd_depositor j = d) ?hs)"
      and strangers: "\<not> (t = Verified \<and> verified_held ?hs \<ge> MAX_VERIFIED_HELD)" for hs'
  proof -
    have sub: "subseq hs' ?hs" using room make_room_subseq by (auto split: if_split_asm)
    have "length hs' < MAX_HELD"
      using room hs make_room_length [of t ?hs hs'] by (auto simp: shelf_ok_def split: if_split_asm)
    moreover have "\<not> list_ex (\<lambda>j. fingerprint sha256 (hd_envelope j) = fingerprint sha256 e) hs'"
      using fresh subseq_in [OF sub] by (auto simp: list_ex_iff)
    moreover have "length (filter (\<lambda>j. hd_depositor j = d) hs') < quota t"
      using share subseq_filter_length [OF sub, of "\<lambda>j. hd_depositor j = d"] by linarith
    moreover have "t = Verified \<Longrightarrow> verified_held hs' < MAX_VERIFIED_HELD"
      using strangers subseq_filter_length [OF sub, of "\<lambda>j. hd_tier j = Verified"]
      by (simp add: verified_held_def)
    ultimately have "shelf_ok sha256 (hs' @ [?i])"
      using shelf_ok_snoc [OF shelf_ok_subseq [OF sub hs], of ?i] assms by (simp add: wf_held_def)
    then show ?thesis by (intro mailbox_ok_save) simp
  qed
  ultimately show ?thesis using assms(1) m
    unfolding accept_def by (auto simp: Let_def simp del: prune_held split: option.splits)
qed

section \<open>Runs\<close>

text \<open>Everything that can happen to a shelf, a restart at any moment included.\<close>

datatype mailbox_op =
    OpAccept envelope text_bytes tier u64
  | OpCollect "bytes list"
  | OpPrune u64
  | OpEnable bool
  | OpWipe
  | OpRestart u64

fun mailbox_step :: "(bytes \<Rightarrow> bytes) \<Rightarrow> mailbox_op \<Rightarrow> mailbox \<Rightarrow> mailbox" where
  "mailbox_step sha256 (OpAccept e d t now) m = snd (accept sha256 e d t now m)"
| "mailbox_step sha256 (OpCollect tags) m = snd (collect tags m)"
| "mailbox_step sha256 (OpPrune now) m = snd (prune now m)"
| "mailbox_step sha256 (OpEnable on) m = snd (set_enabled on m)"
| "mailbox_step sha256 OpWipe m = wipe m"
| "mailbox_step sha256 (OpRestart now) m = open_at (mb_path m) (mb_disk m) now"

fun wf_op :: "mailbox_op \<Rightarrow> bool" where
  "wf_op (OpAccept e d t now) \<longleftrightarrow> wf_envelope e \<and> utf8_valid d \<and> 9 \<notin> set d \<and> 10 \<notin> set d"
| "wf_op _ \<longleftrightarrow> True"

lemma mailbox_ok_collect: "mailbox_ok sha256 m \<Longrightarrow> mailbox_ok sha256 (snd (collect tags m))"
proof -
  assume m: "mailbox_ok sha256 m"
  let ?m = "m\<lparr>mb_held := filter (\<lambda>i. en_tag (hd_envelope i) \<notin> set tags) (mb_held m)\<rparr>"
  have "shelf_ok sha256 (mb_held ?m)"
    using m shelf_ok_subseq [OF subseq_filter_left] by (simp add: mailbox_ok_def)
  moreover from this have "mailbox_ok sha256 (save (?m\<lparr>mb_delivered := n\<rparr>))" for n
    by (intro mailbox_ok_save) simp
  ultimately show ?thesis using m by (simp add: collect_def Let_def mailbox_ok_def)
qed

lemma mailbox_ok_set_enabled: "mailbox_ok sha256 m \<Longrightarrow> mailbox_ok sha256 (snd (set_enabled on m))"
  using mailbox_ok_save [of sha256 "m\<lparr>mb_enabled := on, mb_held := []\<rparr>"]
  by (cases on) (simp_all add: set_enabled_def Let_def mailbox_ok_def)

lemma mailbox_ok_wipe: "mailbox_ok sha256 (wipe m)"
  by (simp add: wipe_def Let_def mailbox_ok_def read_from_disk_def)

lemma read_open_at:
  "read_from_disk (open_at (mb_path m) (mb_disk m) now) = read_from_disk m"
  "mb_held (open_at (mb_path m) (mb_disk m) now) = alive now (read_from_disk m)"
  by (simp_all add: open_at_def Let_def read_from_disk_def)

lemma mailbox_ok_restart:
  "mailbox_ok sha256 m \<Longrightarrow> mailbox_ok sha256 (open_at (mb_path m) (mb_disk m) now)"
  by (simp add: mailbox_ok_def read_open_at shelf_ok_alive)

lemma mailbox_ok_step: "mailbox_ok sha256 m \<Longrightarrow> wf_op op \<Longrightarrow> mailbox_ok sha256 (mailbox_step sha256 op m)"
  by (cases op) (simp_all add: mailbox_ok_accept mailbox_ok_collect mailbox_ok_prune
      mailbox_ok_set_enabled mailbox_ok_wipe mailbox_ok_restart)

lemma mailbox_ok_run:
  "mailbox_ok sha256 m \<Longrightarrow> list_all wf_op ops \<Longrightarrow> mailbox_ok sha256 (fold (mailbox_step sha256) ops m)"
  by (induction ops arbitrary: m) (simp_all add: mailbox_ok_step)

lemma mailbox_ok_fresh: "mailbox_ok sha256 (open_at path None now)"
  by (simp add: open_at_def mailbox_ok_def read_from_disk_def alive_def)

section \<open>Deposits\<close>

lemma accept_cases:
  assumes "accept sha256 e d t now m = (Accepted, m')"
  shows "\<exists>hs'. m' = save (snd (prune now m)\<lparr>mb_held :=
      hs' @ [\<lparr>hd_envelope = e, hd_depositor = d, hd_tier = t, hd_stored = now\<rparr>]\<rparr>)"
  using assms by (auto simp: accept_def Let_def split: if_split_asm option.split_asm)

lemma accepted_mail_kept:
  assumes "mailbox_ok sha256 m" and "wf_envelope e" and "utf8_valid d" "9 \<notin> set d" "10 \<notin> set d"
    and "accept sha256 e d t now m = (Accepted, m')"
    and "mb_path m" and "\<not> is_expired e later" and "en_tag e \<in> set tags"
  shows "e \<in> set (fst (collect tags (open_at (mb_path m') (mb_disk m') later)))"
proof -
  have "mailbox_ok sha256 m'"
    using mailbox_ok_accept [OF assms(1-5), of t now] assms(6) by simp
  then have wf: "\<forall>i \<in> set (mb_held m'). wf_held i"
    by (auto simp: mailbox_ok_def shelf_ok_def)
  obtain hs' where m': "m' = save (snd (prune now m)\<lparr>mb_held :=
      hs' @ [\<lparr>hd_envelope = e, hd_depositor = d, hd_tier = t, hd_stored = now\<rparr>]\<rparr>)"
    using accept_cases [OF assms(6)] by blast
  have "read_from_disk m' = mb_held m'"
    using read_after_save [of "snd (prune now m)\<lparr>mb_held :=
      hs' @ [\<lparr>hd_envelope = e, hd_depositor = d, hd_tier = t, hd_stored = now\<rparr>]\<rparr>"]
      wf assms(7) by (simp add: m')
  then have "mb_held (open_at (mb_path m') (mb_disk m') later) = alive later (mb_held m')"
    by (simp add: read_open_at)
  then show ?thesis using assms(8,9) by (force simp: collect_def Let_def m' alive_def)
qed

text \<open>Favourites' mail on the shelf, by everything but its copy budget.\<close>

definition favourites :: "(bytes \<Rightarrow> bytes) \<Rightarrow> held list \<Rightarrow> (text_bytes \<times> text_bytes \<times> tier \<times> u64) list" where
  "favourites sha256 hs = map (same_mail sha256) (filter (\<lambda>i. hd_tier i = Favourite) hs)"

lemma favourites_same:
  assumes "map (same_mail sha256) hs' = map (same_mail sha256) hs"
  shows "favourites sha256 hs' = favourites sha256 hs"
proof -
  have "favourites sha256 xs = filter (\<lambda>(_, _, t, _). t = Favourite) (map (same_mail sha256) xs)" for xs
    by (simp add: favourites_def filter_map comp_def) (simp add: same_mail_def)
  then show ?thesis using assms by simp
qed

lemma make_room_favourites:
  "make_room Verified hs = Some hs' \<Longrightarrow> favourites sha256 hs' = favourites sha256 hs"
  using remove_verified_favourites [of hs hs']
  by (auto simp: make_room_def favourites_def split: option.splits)

lemma favourites_snoc_verified [simp]:
  "hd_tier i = Verified \<Longrightarrow> favourites sha256 (hs @ [i]) = favourites sha256 hs"
  by (simp add: favourites_def)

lemma stranger_displaces_no_favourite:
  "favourites sha256 (mb_held (snd (accept sha256 e d Verified now m))) =
     favourites sha256 (mb_held m)
   \<or> favourites sha256 (mb_held (snd (accept sha256 e d Verified now m))) =
     favourites sha256 (alive now (mb_held m))"
  unfolding accept_def
  by (simp add: Let_def favourites_same [OF merge_copies_same] make_room_favourites split: option.split)

lemma favourite_stays:
  assumes "i \<in> set (mb_held m)" and "hd_tier i = Favourite" and "\<not> is_expired (hd_envelope i) now"
  shows "\<exists>j \<in> set (mb_held (snd (accept sha256 e d Verified now m))). same_mail sha256 j = same_mail sha256 i"
proof -
  let ?m = "snd (accept sha256 e d Verified now m)"
  have "same_mail sha256 i \<in> set (favourites sha256 (mb_held m))"
    and "same_mail sha256 i \<in> set (favourites sha256 (alive now (mb_held m)))"
    using assms by (auto simp: favourites_def alive_def)
  then have "same_mail sha256 i \<in> set (favourites sha256 (mb_held ?m))"
    using stranger_displaces_no_favourite [of sha256 e d now m] by (elim disjE) simp_all
  then show ?thesis by (auto simp: favourites_def)
qed

lemma collect_once:
  assumes "mailbox_ok sha256 m" and "mb_path m" and "collect tags m = (theirs, m')" and "theirs \<noteq> []"
  shows "fst (collect tags m') = [] \<and> fst (collect tags (open_at True (mb_disk m') later)) = []"
proof -
  have "m' = snd (collect tags m)" using assms(3) by simp
  then have wf: "\<forall>i \<in> set (mb_held m'). wf_held i"
    using mailbox_ok_collect [OF assms(1), of tags] by (simp add: mailbox_ok_def shelf_ok_def)
  obtain m0 where m0: "m0 = m\<lparr>mb_held := filter (\<lambda>i. en_tag (hd_envelope i) \<notin> set tags) (mb_held m),
      mb_delivered := mb_delivered m + length theirs\<rparr>" by simp
  moreover have "filter (\<lambda>i. en_tag (hd_envelope i) \<in> set tags) (mb_held m) \<noteq> []"
    using assms(3,4) by (auto simp: collect_def Let_def)
  ultimately have m': "m' = save m0" using assms(3) by (auto simp: collect_def Let_def)
  then have "read_from_disk m' = mb_held m'" using read_after_save [of m0] wf m0 assms(2) by simp
  moreover have "mb_path m'" using m0 m' assms(2) by simp
  ultimately have "mb_held (open_at True (mb_disk m') later) = alive later (mb_held m')"
    using read_open_at(2) [of m' later] by simp
  then show ?thesis using m0 m' by (auto simp: collect_def Let_def alive_def filter_empty_conv)
qed

section \<open>Properties\<close>

text \<open>
  C17.  Whatever happens to a shelf, restarts included, it holds at most 40 items, at most
  20 of them from strangers, at most 5 per depositor and 2 per stranger, never the same
  mail twice, and only envelopes that can be encoded; the same is true of what its file
  would restore.
\<close>

theorem shelf_stays_within_quotas:
  assumes "list_all wf_op ops"
  shows "mailbox_ok sha256 (fold (mailbox_step sha256) ops (open_at path None now))"
  using mailbox_ok_run [OF mailbox_ok_fresh assms] .

definition sample_ops :: "mailbox_op list" where
  "sample_ops = [OpEnable True, OpAccept sample_envelope [97, 98] Verified 5, OpRestart 6]"

theorem shelf_stays_within_quotas_witness:
  "mailbox_ok (\<lambda>d. d) (fold (mailbox_step (\<lambda>d. d)) sample_ops (open_at True None 0))"
  by (rule shelf_stays_within_quotas) (simp add: sample_ops_def utf8_eval)

text \<open>
  Accepted mail is delivered, even across a restart: once a deposit was accepted, a
  client restarted at any time before the expiry hands the very same envelope to a peer
  whose tags include its tag.
\<close>

theorem accepted_mail_survives_restart:
  assumes "mailbox_ok sha256 m" and "wf_envelope e" and "utf8_valid d" "9 \<notin> set d" "10 \<notin> set d"
    and "accept sha256 e d t now m = (Accepted, m')"
    and "mb_path m" and "\<not> is_expired e later" and "en_tag e \<in> set tags"
  shows "e \<in> set (fst (collect tags (open_at (mb_path m') (mb_disk m') later)))"
  using assms by (rule accepted_mail_kept)

lemma sample_accept:
  "\<exists>m'. accept (\<lambda>d. d) sample_envelope [97, 98] Verified 5
     (snd (set_enabled True (open_at True None 0))) = (Accepted, m')"
  by (simp add: accept_def set_enabled_def open_at_def prune_def alive_def read_from_disk_def
      is_expired_def sample_envelope_def MAX_LIFETIME_SECONDS_def EXPIRY_SLACK_SECONDS_def
      verified_held_def MAX_VERIFIED_HELD_def MAX_HELD_def MAX_PER_VERIFIED_def Let_def)

theorem accepted_mail_survives_restart_witness:
  "\<exists>m'. accept (\<lambda>d. d) sample_envelope [97, 98] Verified 5
       (snd (set_enabled True (open_at True None 0))) = (Accepted, m')
     \<and> sample_envelope \<in> set (fst (collect [replicate 16 5] (open_at True (mb_disk m') 900000)))"
proof -
  obtain m' where a: "accept (\<lambda>d. d) sample_envelope [97, 98] Verified 5
     (snd (set_enabled True (open_at True None 0))) = (Accepted, m')"
    using sample_accept by blast
  have ok: "mailbox_ok (\<lambda>d. d) (snd (set_enabled True (open_at True None 0)))"
    by (rule mailbox_ok_set_enabled) (rule mailbox_ok_fresh)
  have path: "mb_path (snd (set_enabled True (open_at True None 0)))"
    by (simp add: set_enabled_def open_at_def)
  have "mb_path m'" using accept_cases [OF a] path by auto
  then show ?thesis
    using accepted_mail_survives_restart [OF ok sample_envelope_wf _ _ _ a path, of 900000 "[replicate 16 5]"] a
    by (simp add: utf8_eval is_expired_def sample_envelope_def)
qed

text \<open>
  A stranger's deposit never costs a favourite's mail: every unexpired item of a
  favourite that was on the shelf before is still on it afterwards, unchanged but for a
  possibly larger copy budget, whatever the answer to the deposit.
\<close>

theorem favourites_not_displaced:
  assumes "i \<in> set (mb_held m)" and "hd_tier i = Favourite" and "\<not> is_expired (hd_envelope i) now"
  shows "\<exists>j \<in> set (mb_held (snd (accept sha256 e d Verified now m))). same_mail sha256 j = same_mail sha256 i"
  using assms by (rule favourite_stays)

definition sample_shelf :: mailbox where
  "sample_shelf = \<lparr>mb_enabled = True,
     mb_held = replicate 40 \<lparr>hd_envelope = sample_envelope, hd_depositor = [97], hd_tier = Favourite, hd_stored = 1\<rparr>,
     mb_path = False, mb_disk = None, mb_delivered = 0\<rparr>"

theorem favourites_not_displaced_witness:
  "\<exists>j \<in> set (mb_held (snd (accept (\<lambda>_. []) (sample_envelope\<lparr>en_tag := []\<rparr>) [98] Verified 5 sample_shelf))).
     hd_depositor j = [97]"
proof -
  let ?i = "\<lparr>hd_envelope = sample_envelope, hd_depositor = [97], hd_tier = Favourite, hd_stored = 1\<rparr>"
  have "?i \<in> set (mb_held sample_shelf)" by (simp add: sample_shelf_def)
  moreover have "\<not> is_expired (hd_envelope ?i) 5" by (simp add: is_expired_def sample_envelope_def)
  ultimately show ?thesis
    using favourites_not_displaced [of ?i sample_shelf 5 "\<lambda>_. []"] by (auto simp: same_mail_def)
qed

text \<open>
  Mail is handed over once: what a collection returned is gone from the shelf and from
  its file, so neither a second collection nor one after a restart returns anything for the
  same tags.
\<close>

theorem mail_collected_once:
  assumes "mailbox_ok sha256 m" and "mb_path m" and "collect tags m = (theirs, m')" and "theirs \<noteq> []"
  shows "fst (collect tags m') = [] \<and> fst (collect tags (open_at True (mb_disk m') later)) = []"
  using assms by (rule collect_once)

theorem mail_collected_once_witness:
  "let m = fold (mailbox_step (\<lambda>d. d)) sample_ops (open_at True None 0);
       m' = snd (collect [replicate 16 5] m)
   in fst (collect [replicate 16 5] m) = [sample_envelope]
      \<and> fst (collect [replicate 16 5] (open_at True (mb_disk m') 7)) = []"
proof -
  let ?fresh = "snd (set_enabled True (open_at True None 0))"
  let ?m = "fold (mailbox_step (\<lambda>d. d)) sample_ops (open_at True None 0)"
  obtain m1 where a: "accept (\<lambda>d. d) sample_envelope [97, 98] Verified 5 ?fresh = (Accepted, m1)"
    using sample_accept by blast
  have m1: "m1 = save (snd (prune 5 ?fresh)\<lparr>mb_held := [\<lparr>hd_envelope = sample_envelope,
      hd_depositor = [97, 98], hd_tier = Verified, hd_stored = 5\<rparr>]\<rparr>)"
    using a by (auto simp: accept_def set_enabled_def open_at_def prune_def alive_def
        read_from_disk_def MAX_HELD_def Let_def split: if_split_asm)
  then have path: "mb_path m1" by (simp add: set_enabled_def open_at_def)
  have "read_from_disk m1 = mb_held m1"
    unfolding m1 using read_after_save [of "snd (prune 5 ?fresh)\<lparr>mb_held := [\<lparr>hd_envelope = sample_envelope,
      hd_depositor = [97, 98], hd_tier = Verified, hd_stored = 5\<rparr>]\<rparr>"]
    by (simp add: wf_held_def utf8_eval set_enabled_def open_at_def)
  then have "mb_held (open_at (mb_path m1) (mb_disk m1) 6) = alive 6 (mb_held m1)"
    by (simp only: read_open_at(2))
  also have "\<dots> = mb_held m1" by (simp add: m1 alive_def is_expired_def sample_envelope_def)
  finally have "mb_held (open_at (mb_path m1) (mb_disk m1) 6) = mb_held m1" .
  moreover have m: "?m = open_at (mb_path m1) (mb_disk m1) 6" using a by (simp add: sample_ops_def)
  ultimately have c: "fst (collect [replicate 16 5] ?m) = [sample_envelope]"
    by (simp add: collect_def Let_def m1) (simp add: sample_envelope_def)
  have ok: "mailbox_ok (\<lambda>d. d) ?m"
    by (rule mailbox_ok_run [OF mailbox_ok_fresh]) (simp add: sample_ops_def utf8_eval)
  have "mb_path ?m" using path m by (simp add: open_at_def)
  from mail_collected_once [OF ok this, of "[replicate 16 5]" "[sample_envelope]"] c
  show ?thesis by (cases "collect [replicate 16 5] ?m") (simp add: Let_def)
qed

end
