(* ===== verification/Budget.thy ===== *)
theory Budget
  imports Prelude
begin

text \<open>
  Sliding-window budgets.  The gateway limits deposits per peer and rebroadcasts per
  minute, the sync responder limits replies per peer: each keeps the times it granted,
  forgets those outside the window, and refuses while as many as the budget remain.  The
  locale \<open>window_budget\<close> is that contract; what it buys (no window ever holds more grants
  than the budget) is proved once here, for a caller that may also decline a grant.
\<close>

text \<open>
  Requests at their times; the boolean says whether the caller goes ahead when granted.
  The result lists the times that were granted and used.
\<close>

fun budget_run ::
  "('t \<Rightarrow> 's \<Rightarrow> bool \<times> 's) \<Rightarrow> ('t \<Rightarrow> 's \<Rightarrow> 's) \<Rightarrow> ('t \<times> bool) list \<Rightarrow> 's \<Rightarrow> 't list \<times> 's" where
  "budget_run check spend [] s = ([], s)"
| "budget_run check spend ((t, commit) # ev) s =
     (let (ok, s1) = check t s in
      if ok \<and> commit
      then (let (ts, s2) = budget_run check spend ev (spend t s1) in (t # ts, s2))
      else budget_run check spend ev s1)"

lemma budget_run_append:
  "budget_run check spend (xs @ ys) s =
   (fst (budget_run check spend xs s) @ fst (budget_run check spend ys (snd (budget_run check spend xs s))),
    snd (budget_run check spend ys (snd (budget_run check spend xs s))))"
  proof (induction xs arbitrary: s)
  case (Cons x xs)
  then show ?case by (cases x) (simp add: split_beta Let_def)
qed simp

locale window_budget =
  fixes check :: "'t :: linorder \<Rightarrow> 's \<Rightarrow> bool \<times> 's"
    and spend :: "'t \<Rightarrow> 's \<Rightarrow> 's"
    and stamps :: "'s \<Rightarrow> 't list"
    and live :: "'t \<Rightarrow> 't \<Rightarrow> bool"
    and cap :: nat
  assumes check_stamps: "sorted (stamps s) \<Longrightarrow> stamps (snd (check t s)) = filter (live t) (stamps s)"
    and check_answer: "sorted (stamps s) \<Longrightarrow>
          fst (check t s) \<longleftrightarrow> length (filter (live t) (stamps s)) < cap"
    and spend_stamps: "stamps (spend t s) = stamps s @ [t]"
    and live_mono: "t \<le> t' \<Longrightarrow> live t' x \<Longrightarrow> live t x"
begin

lemma filter_live_later:
  "t \<le> t' \<Longrightarrow> filter (live t') (filter (live t) xs) = filter (live t') xs"
  using live_mono by (auto intro: filter_cong)

lemma live_fewer: "t \<le> t' \<Longrightarrow> length (filter (live t') xs) \<le> length (filter (live t) xs)"
  using live_mono by (induction xs) auto

definition in_window :: "'t \<Rightarrow> 't list \<Rightarrow> nat" where
  "in_window t xs = length (filter (\<lambda>x. x \<le> t \<and> live t x) xs)"

lemma in_window_le: "in_window t xs \<le> length (filter (live t) xs)"
  by (induction xs) (auto simp: in_window_def)

lemma run_in_window:
  assumes "sorted (map fst ev)" and "sorted (stamps s)"
    and "\<forall>x \<in> set (stamps s). \<forall>(t, c) \<in> set ev. x \<le> t"
    and "\<forall>t. in_window t h \<le> cap"
    and "\<forall>(t, c) \<in> set ev. \<forall>t' \<ge> t. filter (live t') h = filter (live t') (stamps s)"
  shows "in_window t (h @ fst (budget_run check spend ev s)) \<le> cap"
  using assms
proof (induction ev arbitrary: s h)
  case (Cons e ev)
  obtain u c where e: "e = (u, c)" by (cases e)
  obtain ok s1 where ch: "check u s = (ok, s1)" by (cases "check u s")
  have st: "stamps s1 = filter (live u) (stamps s)"
    using check_stamps [OF Cons.prems(2), of u] ch by simp
  have ok: "ok \<longleftrightarrow> length (filter (live u) (stamps s)) < cap"
    using check_answer [OF Cons.prems(2), of u] ch by simp
  have le: "\<forall>(t, c) \<in> set ev. u \<le> t" and sorted: "sorted (map fst ev)"
    using Cons.prems(1) e by auto
  have same: "filter (live t') h = filter (live t') (stamps s)" if "u \<le> t'" for t'
    using Cons.prems(5) e that by simp
  show ?case
  proof (cases "ok \<and> c")
    case False
    have "in_window t (h @ fst (budget_run check spend ev s1)) \<le> cap"
    proof (rule Cons.IH [OF sorted _ _ Cons.prems(4)])
      show "sorted (stamps s1)" using Cons.prems(2) by (simp add: st sorted_wrt_filter)
      show "\<forall>x \<in> set (stamps s1). \<forall>(t, c) \<in> set ev. x \<le> t" using Cons.prems(3) by (auto simp: st)
      show "\<forall>(t, c) \<in> set ev. \<forall>t' \<ge> t. filter (live t') h = filter (live t') (stamps s1)"
        using le same filter_live_later by (fastforce simp: st)
    qed
    then show ?thesis using False by (auto simp: e ch split_beta Let_def)
  next
    case True
    let ?s = "spend u s1"
    have "in_window t ((h @ [u]) @ fst (budget_run check spend ev ?s)) \<le> cap"
    proof (rule Cons.IH [OF sorted])
      show "sorted (stamps ?s)"
        using Cons.prems(2,3) e by (auto simp: spend_stamps st sorted_append sorted_wrt_filter)
      show "\<forall>x \<in> set (stamps ?s). \<forall>(t, c) \<in> set ev. x \<le> t"
        using Cons.prems(3) le by (auto simp: spend_stamps st)
      show "\<forall>(t, c) \<in> set ev. \<forall>t' \<ge> t. filter (live t') (h @ [u]) = filter (live t') (stamps ?s)"
        using le same filter_live_later by (fastforce simp: st spend_stamps)
      show "\<forall>t. in_window t (h @ [u]) \<le> cap"
      proof
        fix t show "in_window t (h @ [u]) \<le> cap"
        proof (cases "u \<le> t")
          case True
          have "in_window t (h @ [u]) \<le> length (filter (live t) (stamps s)) + 1"
            using in_window_le [of t "h @ [u]"] same [OF True] by (simp split: if_split_asm)
          also have "\<dots> \<le> cap"
            using live_fewer [OF True, of "stamps s"] ok \<open>ok \<and> c\<close> by simp
          finally show ?thesis .
        qed (use Cons.prems(4) in \<open>simp add: in_window_def\<close>)
      qed
    qed
    then show ?thesis using True by (simp add: e ch split_beta Let_def)
  qed
qed simp

text \<open>No window of the budget's length ever holds more than \<open>cap\<close> used grants.\<close>

lemma never_exceeded:
  assumes "sorted (map fst ev)" and "stamps s = []"
  shows "length (filter (\<lambda>x. x \<le> t \<and> live t x) (fst (budget_run check spend ev s))) \<le> cap"
  using run_in_window [OF assms(1), of s "[]" t] assms(2) by (simp add: in_window_def)

end

end
