(* ===== verification/Rate_Limit.thy ===== *)
theory Rate_Limit
  imports Budget
begin

text \<open>
  The sync response rate limiter (sync/rate_limit.rs): how often one peer may make this
  client replay its store.  Milliseconds are naturals (they are only compared and
  subtracted with saturation) and the history is a finite map from peers to times.
\<close>

definition MAX_RESPONSES :: nat where "MAX_RESPONSES = 8"
definition WINDOW_MS :: nat where "WINDOW_MS = 30 * 1000"

record limiter =
  rl_max_responses :: nat
  rl_window_ms :: nat
  rl_history :: "bytes \<rightharpoonup> nat list"

definition limiter_new :: "nat \<Rightarrow> nat \<Rightarrow> limiter" where
  "limiter_new max_responses window_ms =
     \<lparr>rl_max_responses = max max_responses 1, rl_window_ms = window_ms, rl_history = Map.empty\<rparr>"

definition limiter_default :: limiter where
  "limiter_default = limiter_new MAX_RESPONSES WINDOW_MS"

definition history_of :: "limiter \<Rightarrow> bytes \<Rightarrow> nat list" where
  "history_of l peer = (case rl_history l peer of None \<Rightarrow> [] | Some ts \<Rightarrow> ts)"

definition should_respond :: "bytes \<Rightarrow> nat \<Rightarrow> limiter \<Rightarrow> bool \<times> limiter" where
  "should_respond peer now_ms l =
     (let cutoff = now_ms - rl_window_ms l;
          recent = filter (\<lambda>at. cutoff \<le> at) (history_of l peer)
      in if rl_max_responses l \<le> length recent
         then (False, l\<lparr>rl_history := (rl_history l)(peer \<mapsto> recent)\<rparr>)
         else (True, l\<lparr>rl_history := (rl_history l)(peer \<mapsto> recent @ [now_ms])\<rparr>))"

definition limiter_prune :: "nat \<Rightarrow> limiter \<Rightarrow> limiter" where
  "limiter_prune now_ms l =
     (let cutoff = now_ms - rl_window_ms l in
      l\<lparr>rl_history := (\<lambda>peer.
          case rl_history l peer of
            None \<Rightarrow> None
          | Some ts \<Rightarrow>
              let kept = filter (\<lambda>at. cutoff \<le> at) ts in if kept = [] then None else Some kept)\<rparr>)"

section \<open>One peer's share is a window budget\<close>

definition peer_check :: "nat \<Rightarrow> nat \<Rightarrow> nat \<Rightarrow> nat list \<Rightarrow> bool \<times> nat list" where
  "peer_check n window t ts =
     (let recent = filter (\<lambda>at. t - window \<le> at) ts in (length recent < n, recent))"

interpretation responses: window_budget "peer_check n w" "\<lambda>t ts. ts @ [t]" "\<lambda>ts. ts"
  "\<lambda>t at. t - w \<le> at" n for n w
  by unfold_locales (auto simp: peer_check_def Let_def)

text \<open>What can happen to the limiter: a request of some peer, or the periodic pruning.\<close>

datatype limiter_event = Ask bytes | Tick

fun limiter_run :: "(nat \<times> limiter_event) list \<Rightarrow> limiter \<Rightarrow> (nat \<times> bytes) list \<times> limiter" where
  "limiter_run [] l = ([], l)"
| "limiter_run ((t, Ask peer) # ev) l =
     (let (ok, l1) = should_respond peer t l; (gs, l2) = limiter_run ev l1
      in (if ok then (t, peer) # gs else gs, l2))"
| "limiter_run ((t, Tick) # ev) l = limiter_run ev (limiter_prune t l)"

text \<open>The same events as one peer's budget sees them: others' requests do not concern it.\<close>

fun peer_view :: "bytes \<Rightarrow> (nat \<times> limiter_event) list \<Rightarrow> (nat \<times> bool) list" where
  "peer_view p [] = []"
| "peer_view p ((t, Ask q) # ev) = (if p = q then (t, True) # peer_view p ev else peer_view p ev)"
| "peer_view p ((t, Tick) # ev) = (t, False) # peer_view p ev"

lemma should_respond_history:
  "history_of (snd (should_respond q t l)) p =
     (if p = q then snd (peer_check (rl_max_responses l) (rl_window_ms l) t (history_of l p))
        @ (if fst (should_respond q t l) then [t] else [])
      else history_of l p)"
  "fst (should_respond q t l) \<longleftrightarrow> fst (peer_check (rl_max_responses l) (rl_window_ms l) t (history_of l q))"
  "rl_max_responses (snd (should_respond q t l)) = rl_max_responses l"
  "rl_window_ms (snd (should_respond q t l)) = rl_window_ms l"
  by (auto simp: should_respond_def peer_check_def history_of_def Let_def)

lemma limiter_prune_history:
  "history_of (limiter_prune t l) p = snd (peer_check (rl_max_responses l) (rl_window_ms l) t (history_of l p))"
  "rl_max_responses (limiter_prune t l) = rl_max_responses l"
  "rl_window_ms (limiter_prune t l) = rl_window_ms l"
  by (simp_all add: limiter_prune_def history_of_def peer_check_def Let_def split: option.splits)

lemma limiter_run_view:
  "map fst (filter (\<lambda>(t, q). q = p) (fst (limiter_run ev l))) =
   fst (budget_run (peer_check (rl_max_responses l) (rl_window_ms l)) (\<lambda>t ts. ts @ [t])
     (peer_view p ev) (history_of l p))"
proof (induction ev l rule: limiter_run.induct)
  case (2 t peer ev l)
  obtain ok l1 where sr: "should_respond peer t l = (ok, l1)" by (cases "should_respond peer t l")
  note IH = "2.IH" [OF sr [symmetric] refl]
  show ?case
    using IH should_respond_history [of peer t l] sr
    by (auto simp: split_beta Let_def)
next
  case (3 t ev l)
  then show ?case by (simp add: limiter_prune_history split_beta Let_def)
qed simp

lemma peer_view_times: "x \<in> set (peer_view p ev) \<Longrightarrow> fst x \<in> fst ` set ev"
  by (induction p ev rule: peer_view.induct) (auto split: if_split_asm)

lemma peer_view_sorted: "sorted (map fst ev) \<Longrightarrow> sorted (map fst (peer_view p ev))"
  by (induction p ev rule: peer_view.induct) (use peer_view_times in fastforce)+

section \<open>Properties\<close>

text \<open>
  No peer ever draws more than the budget: however requests of all peers and pruning
  ticks interleave, the responses granted to one peer in any window number at most the
  configured maximum (eight in thirty seconds by default).
\<close>

theorem responses_bounded:
  assumes "sorted (map fst ev)"
  shows "length (filter (\<lambda>(at, q). q = p \<and> at \<le> t \<and> t - w \<le> at)
           (fst (limiter_run ev (limiter_new n w)))) \<le> max n 1"
proof -
  let ?gs = "fst (limiter_run ev (limiter_new n w))"
  have "length (filter (\<lambda>x. x \<le> t \<and> t - w \<le> x) (map fst (filter (\<lambda>(t, q). q = p) ?gs))) \<le> max n 1"
    using responses.never_exceeded [OF peer_view_sorted [OF assms], of "history_of (limiter_new n w) p" t w "max n 1" p]
      limiter_run_view [of p ev "limiter_new n w"]
    by (simp add: limiter_new_def history_of_def)
  then show ?thesis by (simp add: filter_map comp_def case_prod_unfold conj_ac)
qed

theorem responses_bounded_witness:
  "length (filter (\<lambda>(at, q). q = [1] \<and> at \<le> 9 \<and> 9 - 5 \<le> at)
     (fst (limiter_run [(1, Ask [1]), (6, Ask [1]), (7, Tick), (8, Ask [1]), (9, Ask [1])]
       (limiter_new 2 5)))) \<le> 2"
  using responses_bounded [of "[(1, Ask [1]), (6, Ask [1]), (7, Tick), (8, Ask [1]), (9, Ask [1])]" "[1]" 9 5 2]
  by simp

end
