(* ===== verification/Gateway.thy ===== *)
theory Gateway
  imports Seen Budget
begin

text \<open>
  The gateway's policy (gateway.rs): which deposited events are published, which relay
  events are put on the mesh, and the memories and budgets behind the answers.  Seconds
  are integers.  The creation time of an event is chosen by its author, so the two age
  tests subtract with the wrap-around of \<open>i64\<close>; the stamps of the budgets are readings of
  the local clock.
\<close>

section \<open>State\<close>

definition MAX_QUEUED_UPLINKS :: nat where "MAX_QUEUED_UPLINKS = 20"
definition MAX_QUEUED_PER_DEPOSITOR :: nat where "MAX_QUEUED_PER_DEPOSITOR = 5"
definition UPLINKS_PER_MINUTE_PER_DEPOSITOR :: nat where "UPLINKS_PER_MINUTE_PER_DEPOSITOR = 10"
definition DOWNLINKS_PER_MINUTE :: nat where "DOWNLINKS_PER_MINUTE = 30"
definition MAX_EVENT_AGE_SECONDS :: int where "MAX_EVENT_AGE_SECONDS = 15 * 60"
definition MAX_TRACKED_IDS :: nat where "MAX_TRACKED_IDS = 512"
definition RATE_WINDOW_SECONDS :: int where "RATE_WINDOW_SECONDS = 60"

datatype uplink = Publish | Queued | UplinkRefused string

datatype downlink = Broadcast | DownlinkRefused string

record held_event =
  he_depositor :: text_bytes
  he_geohash :: text_bytes
  he_event_id :: text_bytes
  he_event_json :: text_bytes

definition seen_insert :: "text_bytes \<Rightarrow> text_bytes ring \<Rightarrow> bool \<times> text_bytes ring" where
  "seen_insert x r =
     (if x \<in> ring_set r then (False, r)
      else (True, ring_evict MAX_TRACKED_IDS (insert x (ring_set r)) (ring_order r @ [x])))"

definition seen_contains :: "text_bytes \<Rightarrow> text_bytes ring \<Rightarrow> bool" where
  "seen_contains x r \<longleftrightarrow> x \<in> ring_set r"

record gateway =
  gw_enabled :: bool
  gw_from_mesh :: "text_bytes ring"
  gw_published :: "text_bytes ring"
  gw_rebroadcast :: "text_bytes ring"
  gw_deposits :: "text_bytes \<rightharpoonup> int list"
  gw_broadcasts :: "int list"
  gw_held :: "held_event list"

definition gateway_new :: gateway where
  "gateway_new = \<lparr>gw_enabled = False, gw_from_mesh = ring_empty, gw_published = ring_empty,
     gw_rebroadcast = ring_empty, gw_deposits = Map.empty, gw_broadcasts = [], gw_held = []\<rparr>"

section \<open>Operations\<close>

fun prune_stamps :: "int \<Rightarrow> int list \<Rightarrow> int list" where
  "prune_stamps now [] = []"
| "prune_stamps now (stamp # rest) =
     (if now - stamp \<ge> RATE_WINDOW_SECONDS then prune_stamps now rest else stamp # rest)"

definition gateway_set_enabled :: "bool \<Rightarrow> gateway \<Rightarrow> nat \<times> gateway" where
  "gateway_set_enabled on g =
     (let g = g\<lparr>gw_enabled := on\<rparr> in
      if on then (0, g) else (length (gw_held g), g\<lparr>gw_held := []\<rparr>))"

definition note_carried_on_mesh :: "text_bytes \<Rightarrow> gateway \<Rightarrow> gateway" where
  "note_carried_on_mesh event_id g = g\<lparr>gw_from_mesh := snd (seen_insert event_id (gw_from_mesh g))\<rparr>"

definition stamps_of :: "text_bytes \<Rightarrow> gateway \<Rightarrow> int list" where
  "stamps_of depositor g = (case gw_deposits g depositor of None \<Rightarrow> [] | Some ts \<Rightarrow> ts)"

definition within_deposit_budget :: "text_bytes \<Rightarrow> int \<Rightarrow> gateway \<Rightarrow> bool \<times> gateway" where
  "within_deposit_budget depositor now g =
     (let recent = prune_stamps now (stamps_of depositor g) in
      (length recent < UPLINKS_PER_MINUTE_PER_DEPOSITOR,
       g\<lparr>gw_deposits := (gw_deposits g)(depositor \<mapsto> recent)\<rparr>))"

definition note_deposit :: "text_bytes \<Rightarrow> int \<Rightarrow> gateway \<Rightarrow> gateway" where
  "note_deposit depositor now g =
     g\<lparr>gw_deposits := (gw_deposits g)(depositor \<mapsto> stamps_of depositor g @ [now])\<rparr>"

definition within_broadcast_budget :: "int \<Rightarrow> gateway \<Rightarrow> bool \<times> gateway" where
  "within_broadcast_budget now g =
     (let recent = prune_stamps now (gw_broadcasts g) in
      (length recent < DOWNLINKS_PER_MINUTE, g\<lparr>gw_broadcasts := recent\<rparr>))"

definition accept_uplink ::
  "text_bytes \<Rightarrow> text_bytes \<Rightarrow> text_bytes \<Rightarrow> text_bytes \<Rightarrow> int \<Rightarrow> int \<Rightarrow> bool \<Rightarrow> gateway
     \<Rightarrow> uplink \<times> gateway" where
  "accept_uplink depositor geohash event_id event_json created_at now relays_up g =
     (if \<not> gw_enabled g then (UplinkRefused ''not acting as a gateway'', g)
      else if seen_contains event_id (gw_from_mesh g)
      then (UplinkRefused ''already carried over the mesh'', g)
      else if seen_contains event_id (gw_published g) then (UplinkRefused ''already published'', g)
      else if i64_sub now created_at > MAX_EVENT_AGE_SECONDS
      then (UplinkRefused ''too old to be worth carrying'', g)
      else if i64_sub created_at now > MAX_EVENT_AGE_SECONDS
      then (UplinkRefused ''dated in the future'', g)
      else
        let (ok, g) = within_deposit_budget depositor now g in
        if \<not> ok then (UplinkRefused ''depositing too fast'', g)
        else if relays_up
        then (Publish,
              note_deposit depositor now (g\<lparr>gw_published := snd (seen_insert event_id (gw_published g))\<rparr>))
        else if length (filter (\<lambda>h. he_depositor h = depositor) (gw_held g)) \<ge> MAX_QUEUED_PER_DEPOSITOR
        then (UplinkRefused ''already holding all we will for this peer'', g)
        else
          let g = note_deposit depositor now g;
              held = (if length (gw_held g) \<ge> MAX_QUEUED_UPLINKS then tl (gw_held g) else gw_held g)
          in (Queued, g\<lparr>gw_held := held @
                [\<lparr>he_depositor = depositor, he_geohash = geohash, he_event_id = event_id,
                  he_event_json = event_json\<rparr>]\<rparr>))"

definition take_held :: "gateway \<Rightarrow> held_event list \<times> gateway" where
  "take_held g =
     (let ready = gw_held g in
      (ready, g\<lparr>gw_held := [],
         gw_published := fold (\<lambda>h r. snd (seen_insert (he_event_id h) r)) ready (gw_published g)\<rparr>))"

definition accept_downlink :: "text_bytes \<Rightarrow> int \<Rightarrow> gateway \<Rightarrow> downlink \<times> gateway" where
  "accept_downlink event_id now g =
     (if \<not> gw_enabled g then (DownlinkRefused ''not acting as a gateway'', g)
      else if seen_contains event_id (gw_published g)
      then (DownlinkRefused ''we published this ourselves'', g)
      else if seen_contains event_id (gw_from_mesh g)
      then (DownlinkRefused ''already carried over the mesh'', g)
      else if seen_contains event_id (gw_rebroadcast g) then (DownlinkRefused ''already broadcast'', g)
      else
        let (ok, g) = within_broadcast_budget now g in
        if \<not> ok then (DownlinkRefused ''out of airtime for this minute'', g)
        else (Broadcast,
              g\<lparr>gw_rebroadcast := snd (seen_insert event_id (gw_rebroadcast g)),
                gw_broadcasts := gw_broadcasts g @ [now]\<rparr>))"

section \<open>The memories and the budgets meet their contracts\<close>

lemma seen_insert_ring: "seen_insert = ring_insert MAX_TRACKED_IDS"
  by (intro ext) (simp add: seen_insert_def ring_insert_def)

interpretation tracked: seen_ring seen_insert ring_order "ring_valid MAX_TRACKED_IDS" ring_empty MAX_TRACKED_IDS
  unfolding seen_insert_ring by (rule ring_insert_seen_ring) (simp add: MAX_TRACKED_IDS_def)

definition recent_stamp :: "int \<Rightarrow> int \<Rightarrow> bool" where
  "recent_stamp now stamp \<longleftrightarrow> now - stamp < RATE_WINDOW_SECONDS"

lemma prune_stamps_filter: "sorted ts \<Longrightarrow> prune_stamps now ts = filter (recent_stamp now) ts"
proof (induction now ts rule: prune_stamps.induct)
  case (2 now stamp rest)
  then show ?case by (auto simp: recent_stamp_def RATE_WINDOW_SECONDS_def intro!: filter_True [symmetric])
qed simp

definition stamp_check :: "nat \<Rightarrow> int \<Rightarrow> int list \<Rightarrow> bool \<times> int list" where
  "stamp_check n now ts = (let recent = prune_stamps now ts in (length recent < n, recent))"

interpretation airtime: window_budget "stamp_check n" "\<lambda>t ts. ts @ [t]" "\<lambda>ts. ts" recent_stamp n for n
  by unfold_locales
    (auto simp: stamp_check_def Let_def prune_stamps_filter recent_stamp_def)

section \<open>Runs\<close>

text \<open>What can happen to a gateway, and what it does to the outside world.\<close>

datatype gateway_op =
    GUplink text_bytes text_bytes text_bytes text_bytes int int bool
  | GDownlink text_bytes int
  | GCarried text_bytes
  | GTake
  | GEnable bool

datatype gateway_act =
    ActDeposit text_bytes int
  | ActPublish text_bytes
  | ActBroadcast text_bytes int

fun gateway_step :: "gateway_op \<Rightarrow> gateway \<Rightarrow> gateway_act list \<times> gateway" where
  "gateway_step (GUplink d geohash event_id json created now up) g =
     (let (answer, g') = accept_uplink d geohash event_id json created now up g in
      (case answer of
         Publish \<Rightarrow> [ActDeposit d now, ActPublish event_id]
       | Queued \<Rightarrow> [ActDeposit d now]
       | UplinkRefused _ \<Rightarrow> [], g'))"
| "gateway_step (GDownlink event_id now) g =
     (let (answer, g') = accept_downlink event_id now g in
      (case answer of Broadcast \<Rightarrow> [ActBroadcast event_id now] | DownlinkRefused _ \<Rightarrow> [], g'))"
| "gateway_step (GCarried event_id) g = ([], note_carried_on_mesh event_id g)"
| "gateway_step GTake g =
     (let (ready, g') = take_held g in (map (\<lambda>h. ActPublish (he_event_id h)) ready, g'))"
| "gateway_step (GEnable on) g = ([], snd (gateway_set_enabled on g))"

fun gateway_run :: "gateway_op list \<Rightarrow> gateway \<Rightarrow> gateway_act list \<times> gateway" where
  "gateway_run [] g = ([], g)"
| "gateway_run (op # ops) g =
     (let (as, g') = gateway_step op g; (bs, g'') = gateway_run ops g' in (as @ bs, g''))"

lemma gateway_run_Cons:
  "gateway_run (op # ops) g =
   (fst (gateway_step op g) @ fst (gateway_run ops (snd (gateway_step op g))),
    snd (gateway_run ops (snd (gateway_step op g))))"
  by (simp add: split_beta Let_def)

declare gateway_run.simps(2) [simp del]

fun published_id :: "gateway_act \<Rightarrow> text_bytes option" where
  "published_id (ActPublish x) = Some x"
| "published_id _ = None"

definition published_ids :: "gateway_act list \<Rightarrow> text_bytes list" where
  "published_ids acts = List.map_filter published_id acts"

lemma published_ids_simps [simp]:
  "published_ids [] = []"
  "published_ids (ActPublish x # as) = x # published_ids as"
  "published_ids (ActDeposit d t # as) = published_ids as"
  "published_ids (ActBroadcast x t # as) = published_ids as"
  "published_ids (as @ bs) = published_ids as @ published_ids bs"
  "published_ids (map (\<lambda>h. ActPublish (f h)) hs) = map f hs"
  by (auto simp: published_ids_def List.map_filter_def)

lemma budget_fields [simp]:
  "gw_published (snd (within_deposit_budget d t g)) = gw_published g"
  "gw_published (note_deposit d t g) = gw_published g"
  "gw_published (snd (within_broadcast_budget t g)) = gw_published g"
  by (simp_all add: within_deposit_budget_def note_deposit_def within_broadcast_budget_def Let_def)

lemma fold_seen_insert:
  "fold (\<lambda>h r. snd (seen_insert (he_event_id h) r)) hs r =
   snd (add_all seen_insert (map he_event_id hs) r)"
  by (induction hs arbitrary: r) (simp_all add: add_all_Cons)

lemma step_published:
  "gw_published (snd (gateway_step op g)) =
   snd (add_all seen_insert (published_ids (fst (gateway_step op g))) (gw_published g))"
proof (cases op)
  case (GUplink d gh x json c now up)
  then show ?thesis
    using budget_fields(1) [of d now g]
    by (cases "within_deposit_budget d now g")
      (auto simp: accept_uplink_def Let_def add_all_Cons)
next
  case (GDownlink x now)
  then show ?thesis
    using budget_fields(3) [of now g]
    by (cases "within_broadcast_budget now g") (auto simp: accept_downlink_def Let_def)
next
  case GTake
  then show ?thesis by (simp add: take_held_def Let_def fold_seen_insert)
qed (simp_all add: note_carried_on_mesh_def gateway_set_enabled_def Let_def)

lemma run_published:
  "gw_published (snd (gateway_run ops g)) =
   snd (add_all seen_insert (published_ids (fst (gateway_run ops g))) (gw_published g))"
  by (induction ops arbitrary: g) (simp_all add: gateway_run_Cons step_published add_all_append)

text \<open>A broadcast is the whole of its step, and its event was not remembered as published.\<close>

lemma broadcast_not_published:
  "ActBroadcast x t \<in> set (fst (gateway_step op g)) \<Longrightarrow>
   fst (gateway_step op g) = [ActBroadcast x t] \<and> x \<notin> ring_set (gw_published g)"
  by (cases op; cases "within_broadcast_budget t g")
    (auto simp: accept_uplink_def accept_downlink_def seen_contains_def take_held_def Let_def
      split: uplink.splits downlink.splits if_split_asm prod.splits)

lemma broadcast_split:
  "fst (gateway_run ops g) = as @ ActBroadcast x t # bs \<Longrightarrow>
   \<exists>ops1. fst (gateway_run ops1 g) = as \<and> x \<notin> ring_set (gw_published (snd (gateway_run ops1 g)))"
proof (induction ops arbitrary: g as)
  case (Cons op ops)
  let ?st = "fst (gateway_step op g)" and ?g = "snd (gateway_step op g)"
  from Cons.prems have eq: "?st @ fst (gateway_run ops ?g) = as @ ActBroadcast x t # bs"
    by (simp add: gateway_run_Cons)
  show ?case
  proof (cases "length ?st \<le> length as")
    case True
    then obtain as' where as: "as = ?st @ as'" and "fst (gateway_run ops ?g) = as' @ ActBroadcast x t # bs"
      using eq by (auto simp: append_eq_append_conv2)
    with Cons.IH obtain ops1 where "fst (gateway_run ops1 ?g) = as'"
      "x \<notin> ring_set (gw_published (snd (gateway_run ops1 ?g)))" by blast
    then show ?thesis using as by (intro exI [of _ "op # ops1"]) (simp add: gateway_run_Cons)
  next
    case False
    then have "ActBroadcast x t \<in> set ?st"
      using eq by (auto simp: append_eq_append_conv2 append_eq_Cons_conv)
    from broadcast_not_published [OF this] eq False
    have "as = []" and "x \<notin> ring_set (gw_published g)" by (auto simp: Cons_eq_append_conv)
    then show ?thesis by (intro exI [of _ "[]"]) simp
  qed
qed simp

lemma self_echo_late:
  assumes "fst (gateway_run ops gateway_new) = as @ ActPublish x # bs @ ActBroadcast x t # cs"
    and "x \<notin> set (published_ids as)"
  shows "MAX_TRACKED_IDS \<le> length (published_ids bs)"
proof -
  obtain ops1 where o: "fst (gateway_run ops1 gateway_new) = as @ ActPublish x # bs"
    "x \<notin> ring_set (gw_published (snd (gateway_run ops1 gateway_new)))"
    using broadcast_split [of ops gateway_new "as @ ActPublish x # bs" x t cs] assms(1) by auto
  let ?r = "snd (add_all seen_insert (published_ids as @ x # published_ids bs) ring_empty)"
  have r: "gw_published (snd (gateway_run ops1 gateway_new)) = ?r"
    using run_published [of ops1 gateway_new] o(1) by (simp add: gateway_new_def)
  have "ring_valid MAX_TRACKED_IDS ?r" by (rule tracked.valid_add_all [OF tracked.valid_start])
  then have "x \<notin> set (ring_order ?r)" using o(2) r by (simp add: ring_valid_def)
  then show ?thesis using tracked.forgotten_late [OF assms(2)] by simp
qed

section \<open>Budgets over a run\<close>

fun op_times :: "gateway_op \<Rightarrow> int list" where
  "op_times (GUplink _ _ _ _ _ now _) = [now]"
| "op_times (GDownlink _ now) = [now]"
| "op_times _ = []"

fun broadcast_time :: "gateway_act \<Rightarrow> int option" where
  "broadcast_time (ActBroadcast _ t) = Some t"
| "broadcast_time _ = None"

fun deposit_time :: "text_bytes \<Rightarrow> gateway_act \<Rightarrow> int option" where
  "deposit_time d (ActDeposit d' t) = (if d' = d then Some t else None)"
| "deposit_time _ _ = None"

definition broadcast_times :: "gateway_act list \<Rightarrow> int list" where
  "broadcast_times acts = List.map_filter broadcast_time acts"

definition deposit_times :: "text_bytes \<Rightarrow> gateway_act list \<Rightarrow> int list" where
  "deposit_times d acts = List.map_filter (deposit_time d) acts"

lemma act_times_simps [simp]:
  "broadcast_times [] = []" "broadcast_times (ActBroadcast x t # as) = t # broadcast_times as"
  "broadcast_times (ActPublish x # as) = broadcast_times as"
  "broadcast_times (ActDeposit d t # as) = broadcast_times as"
  "broadcast_times (as @ bs) = broadcast_times as @ broadcast_times bs"
  "broadcast_times (map (\<lambda>h. ActPublish (f h)) hs) = []"
  "deposit_times d [] = []"
  "deposit_times d (ActDeposit d' t # as) = (if d' = d then t # deposit_times d as else deposit_times d as)"
  "deposit_times d (ActPublish x # as) = deposit_times d as"
  "deposit_times d (ActBroadcast x t # as) = deposit_times d as"
  "deposit_times d (as @ bs) = deposit_times d as @ deposit_times d bs"
  "deposit_times d (map (\<lambda>h. ActPublish (f h)) hs) = []"
  by (auto simp: broadcast_times_def deposit_times_def List.map_filter_def)

abbreviation (input) stamp_run :: "nat \<Rightarrow> (int \<times> bool) list \<Rightarrow> int list \<Rightarrow> int list \<times> int list" where
  "stamp_run n \<equiv> budget_run (stamp_check n) (\<lambda>t ts. ts @ [t])"

text \<open>One step asks a budget at most once, at its own time.\<close>

lemma step_broadcast_budget:
  "\<exists>ev. (ev = [] \<or> map fst ev = op_times op) \<and>
     stamp_run DOWNLINKS_PER_MINUTE ev (gw_broadcasts g) =
       (broadcast_times (fst (gateway_step op g)), gw_broadcasts (snd (gateway_step op g)))"
proof (cases "gw_broadcasts (snd (gateway_step op g)) = gw_broadcasts g
    \<and> broadcast_times (fst (gateway_step op g)) = []")
  case True
  then show ?thesis by (intro exI [of _ "[]"]) simp
next
  case False
  then obtain x now where op: "op = GDownlink x now"
    by (cases op) (auto simp: accept_uplink_def within_deposit_budget_def note_deposit_def
        note_carried_on_mesh_def take_held_def gateway_set_enabled_def Let_def
        split: if_split_asm)
  with False show ?thesis
    by (intro exI [of _ "[(now, True)]"])
      (auto simp: accept_downlink_def within_broadcast_budget_def stamp_check_def Let_def
        split: if_split_asm)
qed

lemma step_deposit_budget:
  "\<exists>ev. (ev = [] \<or> map fst ev = op_times op) \<and>
     stamp_run UPLINKS_PER_MINUTE_PER_DEPOSITOR ev (stamps_of d g) =
       (deposit_times d (fst (gateway_step op g)), stamps_of d (snd (gateway_step op g)))"
proof (cases "stamps_of d (snd (gateway_step op g)) = stamps_of d g
    \<and> deposit_times d (fst (gateway_step op g)) = []")
  case True
  then show ?thesis by (intro exI [of _ "[]"]) simp
next
  case False
  then obtain gh x json c now up where op: "op = GUplink d gh x json c now up"
    by (cases op) (auto simp: accept_uplink_def accept_downlink_def within_deposit_budget_def
        within_broadcast_budget_def note_deposit_def stamps_of_def
        note_carried_on_mesh_def take_held_def gateway_set_enabled_def Let_def
        split: if_split_asm)
  with False show ?thesis
    by (intro exI [of _ "[(now, up \<or> length (filter (\<lambda>h. he_depositor h = d) (gw_held g)) < MAX_QUEUED_PER_DEPOSITOR)]"])
      (auto simp: accept_uplink_def within_deposit_budget_def note_deposit_def stamps_of_def
        stamp_check_def Let_def split: if_split_asm)
qed

lemma run_broadcast_budget:
  assumes "sorted (concat (map op_times ops))"
  shows "\<exists>ev. sorted (map fst ev) \<and> set (map fst ev) \<subseteq> set (concat (map op_times ops))
     \<and> fst (stamp_run DOWNLINKS_PER_MINUTE ev (gw_broadcasts g)) = broadcast_times (fst (gateway_run ops g))"
  using assms
proof (induction ops arbitrary: g)
  case (Cons op ops)
  obtain e1 where e1: "e1 = [] \<or> map fst e1 = op_times op"
    "stamp_run DOWNLINKS_PER_MINUTE e1 (gw_broadcasts g) =
       (broadcast_times (fst (gateway_step op g)), gw_broadcasts (snd (gateway_step op g)))"
    using step_broadcast_budget by blast
  have so: "sorted (op_times op)" "sorted (concat (map op_times ops))"
    "\<forall>x \<in> set (op_times op). \<forall>y \<in> set (concat (map op_times ops)). x \<le> y"
    using Cons.prems by (simp_all add: sorted_append)
  obtain e2 where e2: "sorted (map fst e2)" "set (map fst e2) \<subseteq> set (concat (map op_times ops))"
    "fst (stamp_run DOWNLINKS_PER_MINUTE e2 (gw_broadcasts (snd (gateway_step op g)))) =
       broadcast_times (fst (gateway_run ops (snd (gateway_step op g))))"
    using Cons.IH [OF so(2)] by blast
  have "sorted (map fst (e1 @ e2))" "set (map fst (e1 @ e2)) \<subseteq> set (concat (map op_times (op # ops)))"
    using e1(1) e2(1,2) so by (fastforce simp: sorted_append)+
  then show ?case using e1(2) e2(3)
    by (intro exI [of _ "e1 @ e2"]) (simp add: budget_run_append gateway_run_Cons)
qed (auto intro!: exI [of _ "[]"])

lemma run_deposit_budget:
  assumes "sorted (concat (map op_times ops))"
  shows "\<exists>ev. sorted (map fst ev) \<and> set (map fst ev) \<subseteq> set (concat (map op_times ops))
     \<and> fst (stamp_run UPLINKS_PER_MINUTE_PER_DEPOSITOR ev (stamps_of d g)) = deposit_times d (fst (gateway_run ops g))"
  using assms
proof (induction ops arbitrary: g)
  case (Cons op ops)
  obtain e1 where e1: "e1 = [] \<or> map fst e1 = op_times op"
    "stamp_run UPLINKS_PER_MINUTE_PER_DEPOSITOR e1 (stamps_of d g) =
       (deposit_times d (fst (gateway_step op g)), stamps_of d (snd (gateway_step op g)))"
    using step_deposit_budget by blast
  have so: "sorted (op_times op)" "sorted (concat (map op_times ops))"
    "\<forall>x \<in> set (op_times op). \<forall>y \<in> set (concat (map op_times ops)). x \<le> y"
    using Cons.prems by (simp_all add: sorted_append)
  obtain e2 where e2: "sorted (map fst e2)" "set (map fst e2) \<subseteq> set (concat (map op_times ops))"
    "fst (stamp_run UPLINKS_PER_MINUTE_PER_DEPOSITOR e2 (stamps_of d (snd (gateway_step op g)))) =
       deposit_times d (fst (gateway_run ops (snd (gateway_step op g))))"
    using Cons.IH [OF so(2)] by blast
  have "sorted (map fst (e1 @ e2))" "set (map fst (e1 @ e2)) \<subseteq> set (concat (map op_times (op # ops)))"
    using e1(1) e2(1,2) so by (fastforce simp: sorted_append)+
  then show ?case using e1(2) e2(3)
    by (intro exI [of _ "e1 @ e2"]) (simp add: budget_run_append gateway_run_Cons)
qed (auto intro!: exI [of _ "[]"])

lemma airtime_within:
  assumes "sorted (concat (map op_times ops))"
  shows "length (filter (\<lambda>x. x \<le> t \<and> t - x < 60) (broadcast_times (fst (gateway_run ops gateway_new)))) \<le> 30"
proof -
  obtain ev where "sorted (map fst ev)"
    "fst (stamp_run DOWNLINKS_PER_MINUTE ev []) = broadcast_times (fst (gateway_run ops gateway_new))"
    using run_broadcast_budget [OF assms, of gateway_new] by (auto simp: gateway_new_def)
  then show ?thesis
    using airtime.never_exceeded [of ev "[]" t DOWNLINKS_PER_MINUTE]
    by (simp add: recent_stamp_def RATE_WINDOW_SECONDS_def DOWNLINKS_PER_MINUTE_def)
qed

lemma deposits_within:
  assumes "sorted (concat (map op_times ops))"
  shows "length (filter (\<lambda>x. x \<le> t \<and> t - x < 60) (deposit_times d (fst (gateway_run ops gateway_new)))) \<le> 10"
proof -
  obtain ev where "sorted (map fst ev)"
    "fst (stamp_run UPLINKS_PER_MINUTE_PER_DEPOSITOR ev []) = deposit_times d (fst (gateway_run ops gateway_new))"
    using run_deposit_budget [OF assms, of d gateway_new] by (auto simp: gateway_new_def stamps_of_def)
  then show ?thesis
    using airtime.never_exceeded [of ev "[]" t UPLINKS_PER_MINUTE_PER_DEPOSITOR]
    by (simp add: recent_stamp_def RATE_WINDOW_SECONDS_def UPLINKS_PER_MINUTE_PER_DEPOSITOR_def)
qed

section \<open>The mailbag\<close>

definition mailbag_ok :: "held_event list \<Rightarrow> bool" where
  "mailbag_ok hs \<longleftrightarrow> length hs \<le> MAX_QUEUED_UPLINKS
     \<and> (\<forall>d. length (filter (\<lambda>h. he_depositor h = d) hs) \<le> MAX_QUEUED_PER_DEPOSITOR)"

lemma mailbag_tl: "mailbag_ok hs \<Longrightarrow> mailbag_ok (tl hs)"
proof (cases hs)
  case (Cons h rest)
  assume ok: "mailbag_ok hs"
  have "length (filter (\<lambda>h. he_depositor h = d) rest) \<le> length (filter (\<lambda>h. he_depositor h = d) hs)" for d
    by (simp add: Cons)
  then have "length (filter (\<lambda>h. he_depositor h = d) rest) \<le> MAX_QUEUED_PER_DEPOSITOR" for d
    using ok le_trans unfolding mailbag_ok_def by blast
  with ok Cons show ?thesis by (simp add: mailbag_ok_def)
qed simp

lemma mailbag_step: "mailbag_ok (gw_held g) \<Longrightarrow> mailbag_ok (gw_held (snd (gateway_step op g)))"
proof (cases op)
  case (GUplink d gh x json c now up)
  assume ok: "mailbag_ok (gw_held g)"
  let ?e = "\<lparr>he_depositor = d, he_geohash = gh, he_event_id = x, he_event_json = json\<rparr>"
  let ?h = "if length (gw_held g) \<ge> MAX_QUEUED_UPLINKS then tl (gw_held g) else gw_held g"
  have sub: "length (filter P ?h) \<le> length (filter P (gw_held g))" for P by (cases "gw_held g") auto
  have "mailbag_ok (?h @ [?e])"
    if "\<not> length (filter (\<lambda>h. he_depositor h = d) (gw_held g)) \<ge> MAX_QUEUED_PER_DEPOSITOR"
  proof -
    have "length ?h < MAX_QUEUED_UPLINKS"
      using ok by (cases "gw_held g") (auto simp: mailbag_ok_def MAX_QUEUED_UPLINKS_def)
    moreover have "length (filter (\<lambda>h. he_depositor h = d') (?h @ [?e])) \<le> MAX_QUEUED_PER_DEPOSITOR" for d'
      using that ok sub [of "\<lambda>h. he_depositor h = d'"] unfolding mailbag_ok_def
      by (cases "d' = d") (auto intro: le_trans)
    ultimately show ?thesis unfolding mailbag_ok_def by simp
  qed
  then show ?thesis using ok GUplink
    by (cases "within_deposit_budget d now g")
      (auto simp: accept_uplink_def note_deposit_def within_deposit_budget_def Let_def)
next
  case (GDownlink x now)
  assume "mailbag_ok (gw_held g)"
  with GDownlink show ?thesis
    by (auto simp: accept_downlink_def within_broadcast_budget_def Let_def)
qed (auto simp: note_carried_on_mesh_def take_held_def gateway_set_enabled_def Let_def mailbag_ok_def)

lemma mailbag_run: "mailbag_ok (gw_held g) \<Longrightarrow> mailbag_ok (gw_held (snd (gateway_run ops g)))"
  by (induction ops arbitrary: g) (simp_all add: gateway_run_Cons mailbag_step)

section \<open>Age of a carried event\<close>

lemma accepted_age:
  assumes "- (2 ^ 63) \<le> created" and "created < 2 ^ 63" and "0 \<le> now" and "now < 2 ^ 62"
    and "created \<noteq> now - 2 ^ 63"
    and "accept_uplink d gh x json created now up g = (answer, g')"
    and "\<forall>why. answer \<noteq> UplinkRefused why"
  shows "\<bar>now - created\<bar> \<le> MAX_EVENT_AGE_SECONDS"
proof -
  have age: "i64_sub now created \<le> 900" "i64_sub created now \<le> 900"
    using assms(6,7) by (auto simp: accept_uplink_def MAX_EVENT_AGE_SECONDS_def split: if_split_asm)
  have near: "- (2 ^ 63) \<le> created - now"
  proof (rule ccontr)
    assume "\<not> - (2 ^ 63) \<le> created - now"
    then have "i64_sub created now = created - now + 2 ^ 64"
      using assms(1,4) by (intro i64_sub_below) auto
    then show False using age(2) assms(1,4) by simp
  qed
  moreover have "created - now < 2 ^ 63" using assms(2,3) by simp
  ultimately have "i64_sub created now = created - now" by (rule i64_sub_exact)
  moreover have "i64_sub now created = now - created"
    using near assms(2,3,5) by (intro i64_sub_exact) auto
  ultimately show ?thesis using age by (simp add: MAX_EVENT_AGE_SECONDS_def)
qed

lemma ancient_event:
  "accept_uplink d gh x json (now - 2 ^ 63) now True (gateway_new\<lparr>gw_enabled := True\<rparr>) =
     (Publish, snd (accept_uplink d gh x json now now True (gateway_new\<lparr>gw_enabled := True\<rparr>)))"
  by (simp add: accept_uplink_def gateway_new_def seen_contains_def ring_empty_def i64_sub_def
      MAX_EVENT_AGE_SECONDS_def within_deposit_budget_def stamps_of_def
      UPLINKS_PER_MINUTE_PER_DEPOSITOR_def Let_def)

lemma queued_twice:
  assumes "\<bar>now - created\<bar> \<le> MAX_EVENT_AGE_SECONDS"
  shows "fst (gateway_run [GEnable True, GUplink d gh x json created now False,
      GUplink d gh x json created now False, GTake] gateway_new) =
    [ActDeposit d now, ActDeposit d now, ActPublish x, ActPublish x]"
proof -
  have "i64_sub now created = now - created" "i64_sub created now = created - now"
    using assms by (auto simp: MAX_EVENT_AGE_SECONDS_def intro!: i64_sub_exact)
  then show ?thesis using assms
    by (simp add: gateway_run_Cons gateway_set_enabled_def gateway_new_def accept_uplink_def
        seen_contains_def ring_empty_def within_deposit_budget_def stamps_of_def note_deposit_def
        UPLINKS_PER_MINUTE_PER_DEPOSITOR_def MAX_QUEUED_PER_DEPOSITOR_def MAX_QUEUED_UPLINKS_def
        RATE_WINDOW_SECONDS_def take_held_def abs_le_iff Let_def)
qed

section \<open>Properties\<close>

text \<open>
  C22.  No early self-echo: once the gateway has published an event, it puts that event back
  on the mesh only after at least 512 further publications (the size of its memory),
  whatever deposits, relay events and mode changes come in between.
\<close>

theorem no_self_echo:
  assumes "fst (gateway_run ops gateway_new) = as @ ActPublish x # bs @ ActBroadcast x t # cs"
    and "x \<notin> set (published_ids as)"
  shows "MAX_TRACKED_IDS \<le> length (published_ids bs)"
  using assms by (rule self_echo_late)

theorem no_self_echo_witness:
  "fst (gateway_run [GEnable True, GUplink [1] [2] [3] [4] 0 0 True, GDownlink [3] 5] gateway_new)
     \<noteq> [ActDeposit [1] 0] @ ActPublish [3] # [] @ ActBroadcast [3] 5 # []"
  using no_self_echo [of "[GEnable True, GUplink [1] [2] [3] [4] 0 0 True, GDownlink [3] 5]"
      "[ActDeposit [1] 0]" "[3]" "[]" 5 "[]"]
  by (auto simp: MAX_TRACKED_IDS_def)

text \<open>
  The airtime budget: as long as the clock does not run backwards, no minute ever
  contains more than thirty rebroadcasts, however many relay events arrive.
\<close>

theorem airtime_bounded:
  assumes "sorted (concat (map op_times ops))"
  shows "length (filter (\<lambda>x. x \<le> t \<and> t - x < 60) (broadcast_times (fst (gateway_run ops gateway_new)))) \<le> 30"
  using assms by (rule airtime_within)

definition burst :: "gateway_op list" where
  "burst = GEnable True # map (\<lambda>i. GDownlink [of_nat i] 7) [0..<40]"

theorem airtime_bounded_witness:
  "length (filter (\<lambda>x. x \<le> 7 \<and> 7 - x < 60) (broadcast_times (fst (gateway_run burst gateway_new)))) \<le> 30"
proof (rule airtime_bounded)
  have "concat (map op_times burst) = replicate 40 7"
    by (simp add: burst_def comp_def map_replicate_const concat_map_singleton)
  then show "sorted (concat (map op_times burst))" by simp
qed

text \<open>
  The deposit budget and the mailbag: no depositor has more than ten deposits accepted
  in any minute, relays up or down, and the events waiting for the relays never exceed
  twenty, nor five of one depositor.
\<close>

theorem deposits_bounded:
  assumes "sorted (concat (map op_times ops))"
  shows "length (filter (\<lambda>x. x \<le> t \<and> t - x < 60) (deposit_times d (fst (gateway_run ops gateway_new)))) \<le> 10
    \<and> mailbag_ok (gw_held (snd (gateway_run ops gateway_new)))"
  using deposits_within [OF assms] mailbag_run [of gateway_new ops]
  by (simp add: gateway_new_def mailbag_ok_def)

theorem deposits_bounded_witness:
  "mailbag_ok (gw_held (snd (gateway_run
     [GEnable True, GUplink [1] [2] [3] [4] 0 0 False, GUplink [1] [2] [5] [4] 0 1 False] gateway_new)))"
  using deposits_bounded [of "[GEnable True, GUplink [1] [2] [3] [4] 0 0 False, GUplink [1] [2] [5] [4] 0 1 False]"]
  by simp

text \<open>
  A carried event is fresh: a deposit is published or held only if its claimed creation
  time lies within fifteen minutes of the clock.  The claimed time is the author's choice,
  and the subtraction wraps; the single exception is the time exactly 2^63 seconds in the
  past, which the wrapped subtraction maps to a negative age on both sides.
\<close>

theorem carried_events_fresh:
  assumes "- (2 ^ 63) \<le> created" and "created < 2 ^ 63" and "0 \<le> now" and "now < 2 ^ 62"
    and "created \<noteq> now - 2 ^ 63"
    and "accept_uplink d gh x json created now up g = (answer, g')"
    and "\<forall>why. answer \<noteq> UplinkRefused why"
  shows "\<bar>now - created\<bar> \<le> MAX_EVENT_AGE_SECONDS"
  using assms by (rule accepted_age)

theorem carried_events_fresh_witness:
  "\<exists>g'. accept_uplink [1] [2] [3] [4] 100 200 True (gateway_new\<lparr>gw_enabled := True\<rparr>) = (Publish, g')
     \<and> \<bar>200 - 100\<bar> \<le> MAX_EVENT_AGE_SECONDS"
proof -
  have "\<exists>g'. accept_uplink [1] [2] [3] [4] 100 200 True (gateway_new\<lparr>gw_enabled := True\<rparr>) = (Publish, g')"
    by (simp add: accept_uplink_def gateway_new_def seen_contains_def ring_empty_def i64_sub_def
      MAX_EVENT_AGE_SECONDS_def within_deposit_budget_def stamps_of_def
      UPLINKS_PER_MINUTE_PER_DEPOSITOR_def Let_def)
  then obtain g' where g': "accept_uplink [1] [2] [3] [4] 100 200 True (gateway_new\<lparr>gw_enabled := True\<rparr>) = (Publish, g')"
    by blast
  with carried_events_fresh [OF _ _ _ _ _ g'] show ?thesis by simp
qed

text \<open>
  The age test has a hole: an event dated exactly 2^63 seconds before the clock is
  published like one written now.
\<close>

theorem ancient_event_published:
  "accept_uplink d gh x json (now - 2 ^ 63) now True (gateway_new\<lparr>gw_enabled := True\<rparr>) =
     (Publish, snd (accept_uplink d gh x json now now True (gateway_new\<lparr>gw_enabled := True\<rparr>)))"
  by (rule ancient_event)

text \<open>
  Publishing once does not extend to the mailbag: the same event deposited twice while
  the relays are unreachable is held twice and published twice when they return.
\<close>

theorem held_event_published_twice:
  assumes "\<bar>now - created\<bar> \<le> MAX_EVENT_AGE_SECONDS"
  shows "fst (gateway_run [GEnable True, GUplink d gh x json created now False,
      GUplink d gh x json created now False, GTake] gateway_new) =
    [ActDeposit d now, ActDeposit d now, ActPublish x, ActPublish x]"
  using assms by (rule queued_twice)

theorem held_event_published_twice_witness:
  "fst (gateway_run [GEnable True, GUplink [1] [2] [3] [4] 10 20 False,
      GUplink [1] [2] [3] [4] 10 20 False, GTake] gateway_new) =
    [ActDeposit [1] 20, ActDeposit [1] 20, ActPublish [3], ActPublish [3]]"
  by (rule held_event_published_twice) (simp add: MAX_EVENT_AGE_SECONDS_def)

end
