(* ===== verification/Processed.thy ===== *)
theory Processed
  imports Seen
begin

text \<open>
  The record of private envelopes already opened (nostr/processed.rs): a ring of 4096
  event ids written through to a file.  The file is the list of strings it encodes
  (\<open>serde_json\<close> reads back the list it wrote); a write that is attempted succeeds.
\<close>

definition CAPACITY :: nat where
  "CAPACITY = 4096"

record processed =
  pe_path :: bool
  pe_file :: "text_bytes list option"
  pe_ring :: "text_bytes ring"

definition processed_insert :: "text_bytes \<Rightarrow> text_bytes ring \<Rightarrow> bool \<times> text_bytes ring" where
  "processed_insert x r =
     (if x \<in> ring_set r then (False, r)
      else (True, ring_evict CAPACITY (insert x (ring_set r)) (ring_order r @ [x])))"

definition processed_save :: "processed \<Rightarrow> processed" where
  "processed_save p = (if pe_path p then p\<lparr>pe_file := Some (ring_order (pe_ring p))\<rparr> else p)"

definition processed_open :: "bool \<Rightarrow> text_bytes list option \<Rightarrow> processed" where
  "processed_open path file =
     (let stored = (if path then (case file of None \<Rightarrow> [] | Some xs \<Rightarrow> xs) else []) in
      \<lparr>pe_path = path, pe_file = file,
       pe_ring = fold (\<lambda>x r. snd (processed_insert x r)) stored ring_empty\<rparr>)"

definition remember :: "text_bytes \<Rightarrow> processed \<Rightarrow> bool \<times> processed" where
  "remember x p =
     (if x \<in> ring_set (pe_ring p) then (False, p)
      else (True, processed_save (p\<lparr>pe_ring := snd (processed_insert x (pe_ring p))\<rparr>)))"

definition processed_wipe :: "processed \<Rightarrow> processed" where
  "processed_wipe p =
     (let p = p\<lparr>pe_ring := ring_empty\<rparr> in if pe_path p then p\<lparr>pe_file := None\<rparr> else p)"

lemma processed_insert_ring: "processed_insert = ring_insert CAPACITY"
  by (intro ext) (simp add: processed_insert_def ring_insert_def)

interpretation opened: seen_ring processed_insert ring_order "ring_valid CAPACITY" ring_empty CAPACITY
  unfolding processed_insert_ring by (rule ring_insert_seen_ring) (simp add: CAPACITY_def)

section \<open>A restart changes nothing\<close>

text \<open>Inserting the contents of a ring into an empty one, in order, rebuilds it.\<close>

lemma rebuild:
  assumes "distinct xs" and "length xs \<le> CAPACITY"
  shows "fold (\<lambda>x r. snd (processed_insert x r)) xs ring_empty = \<lparr>ring_set = set xs, ring_order = xs\<rparr>"
  using assms
proof (induction xs rule: rev_induct)
  case (snoc x xs)
  then show ?case by (simp add: processed_insert_def insert_commute)
qed (simp add: ring_empty_def)

definition in_sync :: "processed \<Rightarrow> bool" where
  "in_sync p \<longleftrightarrow>
     ring_valid CAPACITY (pe_ring p) \<and> pe_path p
     \<and> (case pe_file p of None \<Rightarrow> ring_order (pe_ring p) = [] | Some xs \<Rightarrow> ring_order (pe_ring p) = xs)"

lemma restart_same:
  assumes "in_sync p"
  shows "processed_open (pe_path p) (pe_file p) = p"
proof -
  have r: "distinct (ring_order (pe_ring p))" "length (ring_order (pe_ring p)) \<le> CAPACITY"
    "pe_ring p = \<lparr>ring_set = set (ring_order (pe_ring p)), ring_order = ring_order (pe_ring p)\<rparr>"
    using assms by (auto simp: in_sync_def ring_valid_def)
  have "(case pe_file p of None \<Rightarrow> [] | Some xs \<Rightarrow> xs) = ring_order (pe_ring p)"
    using assms by (auto simp: in_sync_def split: option.splits)
  then show ?thesis using assms rebuild [OF r(1,2)] r(3)
    by (cases p) (simp add: processed_open_def in_sync_def)
qed

lemma remember_answer:
  "fst (remember x p) = fst (processed_insert x (pe_ring p))"
  "pe_ring (snd (remember x p)) = snd (processed_insert x (pe_ring p))"
  by (simp_all add: remember_def processed_insert_def processed_save_def)

lemma remember_in_sync: "in_sync p \<Longrightarrow> in_sync (snd (remember x p))"
  using opened.valid_add [of "pe_ring p" x]
  by (cases "x \<in> ring_set (pe_ring p)") (simp_all add: in_sync_def remember_def processed_save_def)

lemma open_fresh: "in_sync (processed_open True None)" "pe_ring (processed_open True None) = ring_empty"
  by (simp_all add: processed_open_def in_sync_def) (simp add: ring_empty_def)

datatype processed_op = Remember text_bytes | Reopen

fun processed_run :: "processed_op list \<Rightarrow> processed \<Rightarrow> bool list \<times> processed" where
  "processed_run [] p = ([], p)"
| "processed_run (Remember x # ops) p =
     (let (b, p') = remember x p; (bs, p'') = processed_run ops p' in (b # bs, p''))"
| "processed_run (Reopen # ops) p = processed_run ops (processed_open (pe_path p) (pe_file p))"

fun remembered :: "processed_op list \<Rightarrow> text_bytes list" where
  "remembered [] = []"
| "remembered (Remember x # ops) = x # remembered ops"
| "remembered (Reopen # ops) = remembered ops"

lemma processed_run_answers:
  "in_sync p \<Longrightarrow> fst (processed_run ops p) = fst (add_all processed_insert (remembered ops) (pe_ring p))"
proof (induction ops p rule: processed_run.induct)
  case (2 x ops p)
  obtain b p' where r: "remember x p = (b, p')" by (cases "remember x p")
  with "2.IH" [OF r [symmetric] refl] remember_in_sync [OF "2.prems", of x] show ?case
    using remember_answer [of x p] by (simp add: add_all_Cons split_beta Let_def)
next
  case (3 ops p)
  with restart_same [OF "3.prems"] show ?case by simp
qed simp

section \<open>Properties\<close>

text \<open>
  Private mail is processed once, across restarts: whatever restarts happen in
  between, an envelope is reported as new exactly when its id was never seen before, as
  long as at most 4096 ids were offered.
\<close>

theorem processed_once:
  assumes "length (remembered ops) \<le> CAPACITY"
  shows "fst (processed_run ops (processed_open True None)) = first_sightings {} (remembered ops)"
  using processed_run_answers [OF open_fresh(1), of ops] opened.below_limit_start [OF assms]
  by (simp add: open_fresh(2))

theorem processed_once_witness:
  "fst (processed_run [Remember [1], Reopen, Remember [1], Remember [2]] (processed_open True None))
     = [True, False, True]"
  using processed_once [of "[Remember [1], Reopen, Remember [1], Remember [2]]"]
  by (simp add: CAPACITY_def)

end
