(* ===== verification/Relay_Health.thy ===== *)
theory Relay_Health
  imports Prelude
begin

text \<open>
  What the user is told about relays that stop answering (nostr/health.rs): one record per
  host, created on its first failure.  The count of failures is a \<open>u32\<close> that grows by one
  per reported fall and is taken not to reach 2^32.
\<close>

definition FLAP_LIMIT :: nat where
  "FLAP_LIMIT = 3"

datatype notice = Silent | Down | Unstable | BackUp

record health_record =
  hr_reported_down :: bool
  hr_falls :: nat
  hr_muted :: bool

definition health_default :: health_record where
  "health_default = \<lparr>hr_reported_down = False, hr_falls = 0, hr_muted = False\<rparr>"

type_synonym relay_health = "text_bytes \<rightharpoonup> health_record"

definition fell_over :: "text_bytes \<Rightarrow> relay_health \<Rightarrow> notice \<times> relay_health" where
  "fell_over relay h =
     (let r = (case h relay of None \<Rightarrow> health_default | Some r \<Rightarrow> r) in
      if hr_reported_down r then (Silent, h(relay \<mapsto> r))
      else
        let r = r\<lparr>hr_reported_down := True, hr_falls := hr_falls r + 1\<rparr> in
        if hr_muted r then (Silent, h(relay \<mapsto> r))
        else if hr_falls r > FLAP_LIMIT then (Unstable, h(relay \<mapsto> r\<lparr>hr_muted := True\<rparr>))
        else (Down, h(relay \<mapsto> r)))"

definition recovered :: "text_bytes \<Rightarrow> relay_health \<Rightarrow> notice \<times> relay_health" where
  "recovered relay h =
     (case h relay of
        Some r \<Rightarrow>
          if hr_reported_down r
          then (if hr_muted r then Silent else BackUp, h(relay \<mapsto> r\<lparr>hr_reported_down := False\<rparr>))
          else (Silent, h)
      | None \<Rightarrow> (Silent, h))"

datatype health_event = Fell text_bytes | Answered text_bytes

fun health_step :: "health_event \<Rightarrow> relay_health \<Rightarrow> (text_bytes \<times> notice) \<times> relay_health" where
  "health_step (Fell relay) h = (let (n, h') = fell_over relay h in ((relay, n), h'))"
| "health_step (Answered relay) h = (let (n, h') = recovered relay h in ((relay, n), h'))"

fun health_run :: "health_event list \<Rightarrow> relay_health \<Rightarrow> (text_bytes \<times> notice) list" where
  "health_run [] h = []"
| "health_run (e # es) h = (let (n, h') = health_step e h in n # health_run es h')"

text \<open>
  What one relay may still cause: a record that is muted causes nothing, otherwise each
  fall left before the limit allows two notices, and the last fall one.
\<close>

definition allowance :: "health_record \<Rightarrow> nat" where
  "allowance r =
     (if hr_muted r then 0
      else 2 * (FLAP_LIMIT - hr_falls r) + 1 + (if hr_reported_down r then 1 else 0))"

definition record_of :: "relay_health \<Rightarrow> text_bytes \<Rightarrow> health_record" where
  "record_of h relay = (case h relay of None \<Rightarrow> health_default | Some r \<Rightarrow> r)"

definition health_ok :: "health_record \<Rightarrow> bool" where
  "health_ok r \<longleftrightarrow> (hr_muted r \<or> hr_falls r \<le> FLAP_LIMIT)"

lemma health_step_allowance:
  assumes "health_ok (record_of h relay)"
  shows "health_ok (record_of (snd (health_step e h)) relay)
    \<and> allowance (record_of (snd (health_step e h)) relay)
        + (if fst (fst (health_step e h)) = relay \<and> snd (fst (health_step e h)) \<noteq> Silent then 1 else 0)
      \<le> allowance (record_of h relay)"
  using assms
  by (cases e; cases "h relay")
    (auto simp: fell_over_def recovered_def record_of_def allowance_def health_ok_def
      health_default_def Let_def split: if_split_asm option.splits)

lemma health_run_allowance:
  "health_ok (record_of h relay) \<Longrightarrow>
   length (filter (\<lambda>(r, n). r = relay \<and> n \<noteq> Silent) (health_run es h)) \<le> allowance (record_of h relay)"
proof (induction es arbitrary: h)
  case (Cons e es)
  from health_step_allowance [OF Cons.prems, of e]
  have ok: "health_ok (record_of (snd (health_step e h)) relay)"
    and le: "allowance (record_of (snd (health_step e h)) relay)
        + (if fst (fst (health_step e h)) = relay \<and> snd (fst (health_step e h)) \<noteq> Silent then 1 else 0)
      \<le> allowance (record_of h relay)" by blast+
  from Cons.IH [OF ok] le show ?case by (auto simp: split_beta Let_def split: if_split_asm)
qed simp

section \<open>Properties\<close>

text \<open>
  A failing relay cannot flood the user: over any sequence of failures and recoveries
  of any relays, at most seven notices concern one relay.
\<close>

theorem notices_bounded:
  "length (filter (\<lambda>(r, n). r = relay \<and> n \<noteq> Silent) (health_run es Map.empty)) \<le> 7"
  using health_run_allowance [of Map.empty relay es]
  by (simp add: record_of_def health_default_def health_ok_def allowance_def FLAP_LIMIT_def)

end
