(* ===== verification/Outbox.thy ===== *)
theory Outbox
  imports Prelude "HOL-Library.List_Lexorder" "HOL-Library.Product_Lexorder"
begin

text \<open>
  Which way a private message goes and how it waits (outbox.rs).  Instants and durations
  are nanoseconds; \<open>duration_since\<close> saturates at zero.  The hash map of queues is an
  association list with distinct keys whose order stands for the map's iteration order.
\<close>

section \<open>State\<close>

definition MAX_PER_PEER :: nat where "MAX_PER_PEER = 32"
definition MAX_AGE :: nat where "MAX_AGE = 24 * 60 * 60 * 10 ^ 9"
definition BASE_BACKOFF :: nat where "BASE_BACKOFF = 30 * 10 ^ 9"
definition MAX_BACKOFF :: nat where "MAX_BACKOFF = 15 * 60 * 10 ^ 9"

datatype route = RouteMesh | RouteNostr | RouteHold

definition choose_route :: "bool \<Rightarrow> text_bytes option \<Rightarrow> route" where
  "choose_route mesh_session nostr_address =
     (if mesh_session then RouteMesh
      else case nostr_address of
        Some address \<Rightarrow> if address \<noteq> [] then RouteNostr else RouteHold
      | None \<Rightarrow> RouteHold)"

record pending =
  pn_message_id :: text_bytes
  pn_content :: text_bytes
  pn_queued_at :: nat
  pn_attempts :: nat
  pn_last_attempt :: "nat option"

definition backoff :: "pending \<Rightarrow> nat" where
  "backoff p = (let exponent = min (pn_attempts p - 1) 16 in min (BASE_BACKOFF * 2 ^ exponent) MAX_BACKOFF)"

definition is_due :: "nat \<Rightarrow> pending \<Rightarrow> bool" where
  "is_due now p \<longleftrightarrow>
     (case pn_last_attempt p of None \<Rightarrow> True | Some at \<Rightarrow> now - at \<ge> backoff p)"

definition pending_expired :: "nat \<Rightarrow> pending \<Rightarrow> bool" where
  "pending_expired now p \<longleftrightarrow> now - pn_queued_at p \<ge> MAX_AGE"

datatype departure = Acknowledged | Abandoned | Displaced

type_synonym outbox = "(text_bytes \<times> pending list) list"

section \<open>Operations\<close>

definition queue_of :: "outbox \<Rightarrow> text_bytes \<Rightarrow> pending list" where
  "queue_of b fp = (case map_of b fp of None \<Rightarrow> [] | Some q \<Rightarrow> q)"

text \<open>\<open>entry(fp).or_default()\<close> followed by an assignment to the queue.\<close>

fun set_queue :: "text_bytes \<Rightarrow> pending list \<Rightarrow> outbox \<Rightarrow> outbox" where
  "set_queue fp q [] = [(fp, q)]"
| "set_queue fp q ((k, v) # rest) = (if k = fp then (k, q) # rest else (k, v) # set_queue fp q rest)"

definition hold ::
  "text_bytes \<Rightarrow> text_bytes \<Rightarrow> text_bytes \<Rightarrow> nat \<Rightarrow> outbox \<Rightarrow> (text_bytes \<times> departure) option \<times> outbox" where
  "hold fp message_id content now b =
     (let queue = queue_of b fp in
      if list_ex (\<lambda>p. pn_message_id p = message_id) queue then (None, set_queue fp queue b)
      else
        let queue = queue @ [\<lparr>pn_message_id = message_id, pn_content = content, pn_queued_at = now,
                              pn_attempts = 0, pn_last_attempt = None\<rparr>] in
        if length queue > MAX_PER_PEER
        then (Some (pn_message_id (hd queue), Displaced), set_queue fp (tl queue) b)
        else (None, set_queue fp queue b))"

text \<open>Update the first message with the id in one queue; \<open>None\<close> when the queue has none.\<close>

fun update_first :: "text_bytes \<Rightarrow> (pending \<Rightarrow> pending) \<Rightarrow> pending list \<Rightarrow> pending list option" where
  "update_first i f [] = None"
| "update_first i f (p # ps) =
     (if pn_message_id p = i then Some (f p # ps) else map_option ((#) p) (update_first i f ps))"

fun mark_attempted :: "text_bytes \<Rightarrow> nat \<Rightarrow> outbox \<Rightarrow> outbox" where
  "mark_attempted i now [] = []"
| "mark_attempted i now ((fp, q) # rest) =
     (case update_first i (\<lambda>p. p\<lparr>pn_attempts := min (pn_attempts p + 1) (2 ^ 32 - 1),
                                 pn_last_attempt := Some now\<rparr>) q of
        Some q' \<Rightarrow> (fp, q') # rest
      | None \<Rightarrow> (fp, q) # mark_attempted i now rest)"

fun remove_id :: "text_bytes \<Rightarrow> pending list \<Rightarrow> pending list option" where
  "remove_id i [] = None"
| "remove_id i (p # ps) =
     (if pn_message_id p = i then Some ps else map_option ((#) p) (remove_id i ps))"

fun acknowledge :: "text_bytes \<Rightarrow> outbox \<Rightarrow> bool \<times> outbox" where
  "acknowledge i [] = (False, [])"
| "acknowledge i ((fp, q) # rest) =
     (case remove_id i q of
        Some q' \<Rightarrow> (True, (fp, q') # rest)
      | None \<Rightarrow> (let (b, rest') = acknowledge i rest in (b, (fp, q) # rest')))"

definition due :: "nat \<Rightarrow> outbox \<Rightarrow> (text_bytes \<times> pending) list" where
  "due now b =
     sort_key (\<lambda>(fp, p). (pn_queued_at p, fp))
       (concat (map (\<lambda>(fp, q). map (Pair fp) (filter (\<lambda>p. is_due now p \<and> \<not> pending_expired now p) q)) b))"

definition expire_outbox :: "nat \<Rightarrow> outbox \<Rightarrow> (text_bytes \<times> text_bytes) list \<times> outbox" where
  "expire_outbox now b =
     (concat (map (\<lambda>(fp, q). map (\<lambda>p. (fp, pn_message_id p)) (filter (pending_expired now) q)) b),
      filter (\<lambda>(_, q). q \<noteq> []) (map (\<lambda>(fp, q). (fp, filter (\<lambda>p. \<not> pending_expired now p) q)) b))"

definition waiting_for :: "text_bytes \<Rightarrow> outbox \<Rightarrow> nat" where
  "waiting_for fp b = length (queue_of b fp)"

definition outbox_total :: "outbox \<Rightarrow> nat" where
  "outbox_total b = sum_list (map (\<lambda>(_, q). length q) b)"

definition outbox_clear :: "outbox \<Rightarrow> outbox" where
  "outbox_clear b = []"

section \<open>Backoff\<close>

lemma backoff_schedule:
  assumes "1 \<le> pn_attempts p"
  shows "backoff p = min (BASE_BACKOFF * 2 ^ (pn_attempts p - 1)) MAX_BACKOFF"
proof (cases "pn_attempts p - 1 \<le> 16")
  case False
  then have "(2 :: nat) ^ 16 \<le> 2 ^ (pn_attempts p - 1)" by (intro power_increasing) auto
  then have "MAX_BACKOFF \<le> BASE_BACKOFF * 2 ^ (pn_attempts p - 1)"
    using mult_le_mono [of BASE_BACKOFF BASE_BACKOFF "2 ^ 16" "2 ^ (pn_attempts p - 1)"]
    by (simp add: MAX_BACKOFF_def BASE_BACKOFF_def)
  moreover have "MAX_BACKOFF \<le> BASE_BACKOFF * 2 ^ 16"
    by (simp add: MAX_BACKOFF_def BASE_BACKOFF_def)
  ultimately show ?thesis using False by (simp add: backoff_def Let_def min_def)
qed (simp add: backoff_def)

section \<open>What is waiting\<close>

definition outbox_ok :: "outbox \<Rightarrow> bool" where
  "outbox_ok b \<longleftrightarrow>
     distinct (map fst b)
     \<and> (\<forall>(fp, q) \<in> set b. length q \<le> MAX_PER_PEER \<and> distinct (map pn_message_id q))"

definition waiting :: "outbox \<Rightarrow> (text_bytes \<times> text_bytes) set" where
  "waiting b = {(fp, pn_message_id p) | fp p q. (fp, q) \<in> set b \<and> p \<in> set q}"

lemma waiting_simps [simp]:
  "waiting [] = {}"
  "waiting ((fp, q) # b) = Pair fp ` pn_message_id ` set q \<union> waiting b"
  by (auto simp: waiting_def)

lemma set_queue_keys: "fst ` set (set_queue fp q b) = insert fp (fst ` set b)"
  by (induction fp q b rule: set_queue.induct) auto

lemma outbox_ok_Cons:
  "outbox_ok ((fp, q) # b) \<longleftrightarrow>
   fp \<notin> fst ` set b \<and> length q \<le> MAX_PER_PEER \<and> distinct (map pn_message_id q) \<and> outbox_ok b"
  by (auto simp: outbox_ok_def)

lemma outbox_ok_set_queue:
  "outbox_ok b \<Longrightarrow> length q \<le> MAX_PER_PEER \<Longrightarrow> distinct (map pn_message_id q) \<Longrightarrow>
   outbox_ok (set_queue fp q b)"
  by (induction fp q b rule: set_queue.induct)
    (auto simp: outbox_ok_Cons set_queue_keys outbox_ok_def [of "[]"])

lemma waiting_keys: "(fp, i) \<in> waiting b \<Longrightarrow> fp \<in> fst ` set b"
  by (force simp: waiting_def)

lemma queue_of_simps [simp]:
  "queue_of [] fp = []"
  "queue_of ((k, v) # b) fp = (if k = fp then v else queue_of b fp)"
  by (simp_all add: queue_of_def)

lemma waiting_set_queue:
  "outbox_ok b \<Longrightarrow>
   waiting (set_queue fp q b) =
     (waiting b - Pair fp ` pn_message_id ` set (queue_of b fp)) \<union> Pair fp ` pn_message_id ` set q"
  by (induction fp q b rule: set_queue.induct) (auto simp: outbox_ok_Cons dest: waiting_keys)

lemma outbox_ok_queue: "outbox_ok b \<Longrightarrow> length (queue_of b fp) \<le> MAX_PER_PEER \<and> distinct (map pn_message_id (queue_of b fp))"
  by (induction b) (auto simp: outbox_ok_Cons)

lemma queue_of_waiting: "(fp, pn_message_id p) \<in> waiting b" if "p \<in> set (queue_of b fp)"
  using that by (induction b) (auto split: if_split_asm)

section \<open>Steps\<close>

datatype outbox_op =
    OHold text_bytes text_bytes text_bytes nat
  | OMark text_bytes nat
  | OAck text_bytes
  | OExpire nat
  | OClear

text \<open>The second component lists what the step reports as having left without acknowledgement.\<close>

fun outbox_step :: "outbox_op \<Rightarrow> outbox \<Rightarrow> (text_bytes \<times> text_bytes) list \<times> outbox" where
  "outbox_step (OHold fp i content now) b =
     (let (r, b') = hold fp i content now b in
      (case r of None \<Rightarrow> [] | Some (displaced, _) \<Rightarrow> [(fp, displaced)], b'))"
| "outbox_step (OMark i now) b = ([], mark_attempted i now b)"
| "outbox_step (OAck i) b = ([], snd (acknowledge i b))"
| "outbox_step (OExpire now) b = expire_outbox now b"
| "outbox_step OClear b = ([], outbox_clear b)"

fun outbox_run :: "outbox_op list \<Rightarrow> outbox \<Rightarrow> (text_bytes \<times> text_bytes) list \<times> outbox" where
  "outbox_run [] b = ([], b)"
| "outbox_run (op # ops) b =
     (let (r, b') = outbox_step op b; (rs, b'') = outbox_run ops b' in (r @ rs, b''))"

fun op_holds :: "outbox_op \<Rightarrow> (text_bytes \<times> text_bytes) set" where
  "op_holds (OHold fp i _ _) = {(fp, i)}"
| "op_holds _ = {}"

text \<open>The messages a step may take away without a report: what is acknowledged, and all that is wiped.\<close>

fun op_acks :: "outbox_op \<Rightarrow> text_bytes set" where
  "op_acks (OAck i) = {i}"
| "op_acks OClear = UNIV"
| "op_acks _ = {}"

lemma update_first_ids:
  "(\<And>p. pn_message_id (f p) = pn_message_id p) \<Longrightarrow> update_first i f q = Some q' \<Longrightarrow>
   map pn_message_id q' = map pn_message_id q"
  by (induction i f q arbitrary: q' rule: update_first.induct) (auto split: if_split_asm)

lemma in_Pair_image [simp]: "(a, x) \<in> Pair b ` A \<longleftrightarrow> a = b \<and> x \<in> A"
  by auto

lemma same_ids:
  assumes "map pn_message_id q' = map pn_message_id q"
  shows "length q' = length q" "pn_message_id ` set q' = pn_message_id ` set q"
    "distinct (map pn_message_id q') = distinct (map pn_message_id q)"
  using assms by (metis length_map, metis list.set_map, simp)

lemma mark_keys: "fst ` set (mark_attempted i now b) = fst ` set b"
  by (induction i now b rule: mark_attempted.induct) (auto split: option.splits)

lemma mark_facts:
  "(outbox_ok b \<longrightarrow> outbox_ok (mark_attempted i now b)) \<and> waiting (mark_attempted i now b) = waiting b"
proof (induction i now b rule: mark_attempted.induct)
  case (2 i now fp q rest)
  let ?f = "\<lambda>p. p\<lparr>pn_attempts := min (pn_attempts p + 1) (2 ^ 32 - 1), pn_last_attempt := Some now\<rparr>"
  show ?case
  proof (cases "update_first i ?f q")
    case None
    with 2 show ?thesis by (simp add: outbox_ok_Cons mark_keys)
  next
    case (Some q')
    have "map pn_message_id q' = map pn_message_id q"
      by (rule update_first_ids [OF _ Some]) simp
    from same_ids [OF this] Some show ?thesis by (simp add: outbox_ok_Cons)
  qed
qed simp

lemma remove_id_set: "remove_id i q = Some q' \<Longrightarrow> set q' \<subseteq> set q \<and> length q' \<le> length q"
  by (induction i q arbitrary: q' rule: remove_id.induct) (fastforce split: if_split_asm)+

lemma remove_id_distinct:
  "remove_id i q = Some q' \<Longrightarrow> distinct (map pn_message_id q) \<Longrightarrow> distinct (map pn_message_id q')"
proof (induction i q arbitrary: q' rule: remove_id.induct)
  case (2 i p ps)
  show ?case
  proof (cases "pn_message_id p = i")
    case False
    then obtain z where z: "remove_id i ps = Some z" "q' = p # z" using "2.prems"(1) by auto
    have "pn_message_id ` set z \<subseteq> pn_message_id ` set ps"
      using remove_id_set [OF z(1)] by (simp add: image_mono)
    with "2.IH" [OF False z(1)] "2.prems"(2) z(2) show ?thesis by auto
  qed (use 2 in auto)
qed simp

lemma remove_id_kept:
  "remove_id i q = Some q' \<Longrightarrow> pn_message_id ` set q \<subseteq> insert i (pn_message_id ` set q')"
proof (induction i q arbitrary: q' rule: remove_id.induct)
  case (2 i p ps)
  show ?case
  proof (cases "pn_message_id p = i")
    case False
    then obtain z where z: "remove_id i ps = Some z" "q' = p # z" using "2.prems" by auto
    with "2.IH" [OF False z(1)] show ?thesis by auto
  qed (use 2 in auto)
qed simp

lemma acknowledge_keys: "fst ` set (snd (acknowledge i b)) = fst ` set b"
  by (induction i b rule: acknowledge.induct) (auto simp: split_beta Let_def split: option.splits)

lemma acknowledge_ok: "outbox_ok b \<Longrightarrow> outbox_ok (snd (acknowledge i b))"
proof (induction i b rule: acknowledge.induct)
  case (2 i fp q rest)
  then show ?case
    using remove_id_set [of i q] remove_id_distinct [of i q]
    by (cases "remove_id i q") (force simp: outbox_ok_Cons acknowledge_keys split_beta Let_def)+
qed simp

lemma acknowledge_kept: "waiting b \<subseteq> waiting (snd (acknowledge i b)) \<union> {(fp, j). j = i}"
proof (induction i b rule: acknowledge.induct)
  case (2 i fp q rest)
  then show ?case
    using remove_id_kept [of i q]
    by (cases "remove_id i q") (auto simp: split_beta Let_def)
qed simp

lemma hold_facts:
  assumes "outbox_ok b" and "hold fp i content now b = (r, b')"
  shows "outbox_ok b'"
    and "insert (fp, i) (waiting b) \<subseteq> waiting b' \<union> (case r of None \<Rightarrow> {} | Some (j, _) \<Rightarrow> {(fp, j)})"
proof -
  let ?q = "queue_of b fp"
  let ?p = "\<lparr>pn_message_id = i, pn_content = content, pn_queued_at = now,
              pn_attempts = 0, pn_last_attempt = None\<rparr>"
  have q: "length ?q \<le> MAX_PER_PEER" "distinct (map pn_message_id ?q)"
    using outbox_ok_queue [OF assms(1)] by simp_all
  have known: "Pair fp ` pn_message_id ` set ?q \<subseteq> waiting b"
    using queue_of_waiting by auto
  consider "list_ex (\<lambda>p. pn_message_id p = i) ?q" "r = None" "b' = set_queue fp ?q b"
    | "\<not> list_ex (\<lambda>p. pn_message_id p = i) ?q" "length ?q < MAX_PER_PEER" "r = None"
      "b' = set_queue fp (?q @ [?p]) b"
    | "\<not> list_ex (\<lambda>p. pn_message_id p = i) ?q" "length ?q = MAX_PER_PEER"
      "r = Some (pn_message_id (hd ?q), Displaced)" "b' = set_queue fp (tl ?q @ [?p]) b"
    using assms(2) q(1) by (cases "?q") (auto simp: hold_def Let_def MAX_PER_PEER_def split: if_split_asm)
  then have "outbox_ok b' \<and> insert (fp, i) (waiting b) \<subseteq>
      waiting b' \<union> (case r of None \<Rightarrow> {} | Some (j, _) \<Rightarrow> {(fp, j)})"
  proof cases
    case 1
    then have "i \<in> pn_message_id ` set ?q" by (auto simp: list_ex_iff)
    with 1 q known show ?thesis
      by (auto simp: outbox_ok_set_queue [OF assms(1)] waiting_set_queue [OF assms(1)])
  next
    case 2
    then have "i \<notin> pn_message_id ` set ?q" by (auto simp: list_ex_iff)
    with 2 q show ?thesis
      by (auto simp: outbox_ok_set_queue [OF assms(1)] waiting_set_queue [OF assms(1)])
  next
    case 3
    then obtain p0 rest where c: "?q = p0 # rest" by (cases ?q) (auto simp: MAX_PER_PEER_def)
    from 3 have "i \<notin> pn_message_id ` set ?q" by (auto simp: list_ex_iff)
    with 3 q c have "outbox_ok b'"
      by (auto intro!: outbox_ok_set_queue [OF assms(1)])
    moreover have "waiting b' = (waiting b - Pair fp ` pn_message_id ` set ?q)
        \<union> Pair fp ` pn_message_id ` set (rest @ [?p])"
      using 3 c by (simp add: waiting_set_queue [OF assms(1)])
    ultimately show ?thesis using 3 c by auto
  qed
  then show "outbox_ok b'"
    and "insert (fp, i) (waiting b) \<subseteq> waiting b' \<union> (case r of None \<Rightarrow> {} | Some (j, _) \<Rightarrow> {(fp, j)})"
    by simp_all
qed

lemma expire_facts:
  "outbox_ok b \<Longrightarrow> outbox_ok (snd (expire_outbox now b))"
  "waiting b \<subseteq> waiting (snd (expire_outbox now b)) \<union> set (fst (expire_outbox now b))"
proof -
  show "waiting b \<subseteq> waiting (snd (expire_outbox now b)) \<union> set (fst (expire_outbox now b))"
  proof
    fix x assume "x \<in> waiting b"
    then obtain fp q p where x: "x = (fp, pn_message_id p)" "(fp, q) \<in> set b" "p \<in> set q"
      by (auto simp: waiting_def)
    show "x \<in> waiting (snd (expire_outbox now b)) \<union> set (fst (expire_outbox now b))"
    proof (cases "pending_expired now p")
      case True
      with x have "x \<in> set (fst (expire_outbox now b))"
        unfolding expire_outbox_def by (auto intro!: bexI [of _ "(fp, q)"])
      then show ?thesis ..
    next
      case False
      let ?q = "filter (\<lambda>p. \<not> pending_expired now p) q"
      from x False have "p \<in> set ?q" "?q \<noteq> []" by (auto simp: filter_empty_conv)
      moreover from this x(2) have "(fp, ?q) \<in> set (snd (expire_outbox now b))"
        unfolding expire_outbox_def by (auto intro!: image_eqI [of _ _ "(fp, q)"])
      ultimately show ?thesis using x(1) unfolding waiting_def by blast
    qed
  qed
  assume "outbox_ok b"
  then show "outbox_ok (snd (expire_outbox now b))"
  proof (induction b)
    case (Cons x b)
    obtain fp q where x: "x = (fp, q)" by (cases x)
    have keys: "fst ` set (snd (expire_outbox now b)) \<subseteq> fst ` set b"
      by (auto simp: expire_outbox_def intro: rev_image_eqI)
    have "length (filter (\<lambda>p. \<not> pending_expired now p) q) \<le> MAX_PER_PEER"
      using Cons.prems x by (auto simp: outbox_ok_Cons intro: le_trans [OF length_filter_le])
    moreover have "distinct (map pn_message_id (filter (\<lambda>p. \<not> pending_expired now p) q))"
      using Cons.prems x by (simp add: outbox_ok_Cons distinct_map_filter)
    ultimately show ?case
      using Cons x keys by (auto simp: expire_outbox_def outbox_ok_Cons)
  qed (simp add: expire_outbox_def)
qed

lemma outbox_step_facts:
  assumes "outbox_ok b"
  shows "outbox_ok (snd (outbox_step op b))"
    and "waiting b \<union> op_holds op \<subseteq>
      waiting (snd (outbox_step op b)) \<union> set (fst (outbox_step op b)) \<union> {(fp, i). i \<in> op_acks op}"
proof -
  have "outbox_ok (snd (outbox_step op b)) \<and> waiting b \<union> op_holds op \<subseteq>
      waiting (snd (outbox_step op b)) \<union> set (fst (outbox_step op b)) \<union> {(fp, i). i \<in> op_acks op}"
  proof (cases op)
    case (OHold fp i content now)
    obtain r b' where h: "hold fp i content now b = (r, b')" by (cases "hold fp i content now b")
    from hold_facts [OF assms h] show ?thesis
      by (auto simp: OHold h split: option.splits)
  next
    case (OMark i now)
    with mark_facts [of b i now] assms show ?thesis by simp
  next
    case (OAck i)
    with acknowledge_ok [OF assms] acknowledge_kept [of b i] show ?thesis by auto
  next
    case (OExpire now)
    with expire_facts [of b now] assms show ?thesis by auto
  next
    case OClear
    then show ?thesis by (simp add: outbox_clear_def outbox_ok_def)
  qed
  then show "outbox_ok (snd (outbox_step op b))"
    and "waiting b \<union> op_holds op \<subseteq>
      waiting (snd (outbox_step op b)) \<union> set (fst (outbox_step op b)) \<union> {(fp, i). i \<in> op_acks op}"
    by simp_all
qed

lemma outbox_run_ok: "outbox_ok b \<Longrightarrow> outbox_ok (snd (outbox_run ops b))"
  by (induction ops arbitrary: b) (simp_all add: split_beta Let_def outbox_step_facts(1))

text \<open>
  Nothing is lost silently: a message that was waiting is waiting, reported, or acknowledged,
  unless everything is wiped.
\<close>

lemma outbox_run_accounts:
  "outbox_ok b \<Longrightarrow> (fp, i) \<in> waiting b \<or> (\<exists>op \<in> set ops. (fp, i) \<in> op_holds op) \<Longrightarrow>
   (fp, i) \<in> waiting (snd (outbox_run ops b)) \<or> (fp, i) \<in> set (fst (outbox_run ops b))
     \<or> OAck i \<in> set ops \<or> OClear \<in> set ops"
proof (induction ops arbitrary: b)
  case (Cons op ops)
  have acks: "i \<in> op_acks op \<longleftrightarrow> op = OAck i \<or> op = OClear" by (cases op) auto
  let ?b = "snd (outbox_step op b)"
  have ok: "outbox_ok ?b" using Cons.prems(1) by (rule outbox_step_facts(1))
  have "(fp, i) \<in> waiting ?b \<or> (fp, i) \<in> set (fst (outbox_step op b)) \<or> op = OAck i \<or> op = OClear
      \<or> (\<exists>op \<in> set ops. (fp, i) \<in> op_holds op)"
    using Cons.prems(2) outbox_step_facts(2) [OF Cons.prems(1), of op] acks by auto
  then show ?case using Cons.IH [OF ok] by (auto simp: split_beta Let_def)
qed simp

section \<open>Properties\<close>

text \<open>
  C21.  No private message disappears silently: a message handed over at any point of a
  run of sends, attempts, acknowledgements, expiries and wipes is at its end still
  waiting for its peer, or has since been reported to the user as displaced or
  abandoned, or an acknowledgement of its identifier has come in since (the outbox does
  not ask from whom), or the outbox has been wiped since; and no queue exceeds 32
  messages or holds one twice.
\<close>

theorem messages_accounted_for:
  "case outbox_run (OHold fp i content now # later) (snd (outbox_run before [])) of (reports, b) \<Rightarrow>
     ((fp, i) \<in> waiting b \<or> (fp, i) \<in> set reports \<or> OAck i \<in> set later \<or> OClear \<in> set later)
     \<and> outbox_ok b"
proof -
  have ok: "outbox_ok (snd (outbox_run before []))"
    by (rule outbox_run_ok) (simp add: outbox_ok_def)
  show ?thesis
    using outbox_run_accounts [OF ok, of fp i "OHold fp i content now # later"]
      outbox_run_ok [OF ok, of "OHold fp i content now # later"]
    by (simp add: split_beta del: outbox_run.simps(2))
qed

text \<open>Held again after an acknowledgement, a message is waiting again.\<close>

theorem messages_accounted_for_witness:
  "([1], [2]) \<in> waiting (snd (outbox_run [OHold [1] [2] [3] 7, OMark [2] 8] (snd (outbox_run [OHold [1] [2] [3] 0, OAck [2]] []))))
   \<or> ([1], [2]) \<in> set (fst (outbox_run [OHold [1] [2] [3] 7, OMark [2] 8] (snd (outbox_run [OHold [1] [2] [3] 0, OAck [2]] []))))"
  using messages_accounted_for [where fp = "[1]" and i = "[2]" and content = "[3]" and now = 7 and later = "[OMark [2] 8]"
      and before = "[OHold [1] [2] [3] 0, OAck [2]]"]
  by (simp add: split_beta del: outbox_run.simps(2))

text \<open>
  The retry schedule: after \<open>n\<close> sends the next one waits 30 seconds doubled \<open>n - 1\<close>
  times, never more than fifteen minutes; the clamp on the exponent that keeps the shift
  in range never shows.
\<close>

theorem backoff_doubles:
  assumes "1 \<le> pn_attempts p"
  shows "backoff p = min (BASE_BACKOFF * 2 ^ (pn_attempts p - 1)) MAX_BACKOFF"
  using assms by (rule backoff_schedule)

theorem backoff_doubles_witness:
  "backoff \<lparr>pn_message_id = [], pn_content = [], pn_queued_at = 0, pn_attempts = 3, pn_last_attempt = None\<rparr>
     = 120 * 10 ^ 9"
  using backoff_doubles [of "\<lparr>pn_message_id = [], pn_content = [], pn_queued_at = 0, pn_attempts = 3, pn_last_attempt = None\<rparr>"]
  by (simp add: BASE_BACKOFF_def MAX_BACKOFF_def)

end
