(* ===== verification/Favorites.thy ===== *)
theory Favorites
  imports Text "HOL-Library.List_Lexorder"
begin

text \<open>
  Who can be reached without Bluetooth (favorites.rs): the two halves of a relationship,
  the notices that change them, and the lookups.  The hash map is an association list with
  distinct keys whose order stands for the map's iteration order; \<open>unicode\<close> is the
  lower-casing of text that is not ASCII.
\<close>

section \<open>State\<close>

text \<open>\<open>[FAVORITED]\<close> and \<open>[UNFAVORITED]\<close>\<close>

definition FAVORITED :: text_bytes where
  "FAVORITED = [91, 70, 65, 86, 79, 82, 73, 84, 69, 68, 93]"

definition UNFAVORITED :: text_bytes where
  "UNFAVORITED = [91, 85, 78, 70, 65, 86, 79, 82, 73, 84, 69, 68, 93]"

record relationship =
  rs_we_favorited :: bool
  rs_they_favorited :: bool
  rs_nostr_key :: "text_bytes option"
  rs_nickname :: text_bytes
  rs_noise_key :: "bytes option"

definition relationship_default :: relationship where
  "relationship_default = \<lparr>rs_we_favorited = False, rs_they_favorited = False, rs_nostr_key = None,
     rs_nickname = [], rs_noise_key = None\<rparr>"

definition reachable_over_nostr :: "relationship \<Rightarrow> bool" where
  "reachable_over_nostr r \<longleftrightarrow> rs_nostr_key r \<noteq> None"

definition mutual :: "relationship \<Rightarrow> bool" where
  "mutual r \<longleftrightarrow> rs_we_favorited r \<and> rs_they_favorited r"

type_synonym favorites = "(text_bytes \<times> relationship) list"

record favorite_notice =
  fn_is_favorite :: bool
  fn_nostr_key :: "text_bytes option"

section \<open>Notices\<close>

definition parse_notice :: "text_bytes \<Rightarrow> favorite_notice option" where
  "parse_notice content =
     (let (marker, rest) = (case split_once 58 content of
                              Some (m, r) \<Rightarrow> (m, Some r)
                            | None \<Rightarrow> (content, None));
          key = (case rest of
                   None \<Rightarrow> None
                 | Some r \<Rightarrow> let k = trim r in if k = [] then None else Some k)
      in if marker = FAVORITED then Some \<lparr>fn_is_favorite = True, fn_nostr_key = key\<rparr>
         else if marker = UNFAVORITED then Some \<lparr>fn_is_favorite = False, fn_nostr_key = key\<rparr>
         else None)"

definition notice_text :: "bool \<Rightarrow> text_bytes \<Rightarrow> text_bytes" where
  "notice_text is_favorite our_key = (if is_favorite then FAVORITED else UNFAVORITED) @ 58 # our_key"

section \<open>Operations\<close>

text \<open>\<open>entry(key).or_default()\<close> followed by an update of the entry.\<close>

fun update_entry :: "text_bytes \<Rightarrow> (relationship \<Rightarrow> relationship) \<Rightarrow> favorites \<Rightarrow> favorites" where
  "update_entry k f [] = [(k, f relationship_default)]"
| "update_entry k f ((j, r) # rest) = (if j = k then (j, f r) # rest else (j, r) # update_entry k f rest)"

definition favorites_load :: "favorites \<Rightarrow> favorites \<Rightarrow> favorites" where
  [simp]: "favorites_load entries f = entries"

definition favorites_clear :: "favorites \<Rightarrow> favorites" where
  [simp]: "favorites_clear f = []"

definition fav_entry ::
  "(text_bytes \<Rightarrow> text_bytes) \<Rightarrow> text_bytes \<Rightarrow> (relationship \<Rightarrow> relationship) \<Rightarrow> favorites \<Rightarrow> favorites" where
  "fav_entry unicode fp f fav = update_entry (to_lowercase unicode fp) f fav"

definition note_key ::
  "(text_bytes \<Rightarrow> text_bytes) \<Rightarrow> text_bytes \<Rightarrow> bytes \<Rightarrow> favorites \<Rightarrow> favorites" where
  "note_key unicode fp key fav =
     (if map_of fav (to_lowercase unicode fp) = None then fav
      else update_entry (to_lowercase unicode fp) (\<lambda>r. r\<lparr>rs_noise_key := Some key\<rparr>) fav)"

definition with_nickname :: "text_bytes \<Rightarrow> relationship \<Rightarrow> relationship" where
  "with_nickname nickname r = (if nickname \<noteq> [] then r\<lparr>rs_nickname := nickname\<rparr> else r)"

definition set_ours ::
  "(text_bytes \<Rightarrow> text_bytes) \<Rightarrow> text_bytes \<Rightarrow> text_bytes \<Rightarrow> bool \<Rightarrow> favorites \<Rightarrow> favorites" where
  "set_ours unicode fp nickname favorited fav =
     fav_entry unicode fp (\<lambda>r. with_nickname nickname (r\<lparr>rs_we_favorited := favorited\<rparr>)) fav"

definition apply_notice ::
  "(text_bytes \<Rightarrow> text_bytes) \<Rightarrow> text_bytes \<Rightarrow> text_bytes \<Rightarrow> favorite_notice \<Rightarrow> favorites \<Rightarrow> favorites" where
  "apply_notice unicode fp nickname notice fav =
     fav_entry unicode fp
       (\<lambda>r. let r = with_nickname nickname (r\<lparr>rs_they_favorited := fn_is_favorite notice\<rparr>) in
            case fn_nostr_key notice of Some key \<Rightarrow> r\<lparr>rs_nostr_key := Some key\<rparr> | None \<Rightarrow> r) fav"

definition nostr_key_for :: "favorites \<Rightarrow> text_bytes \<Rightarrow> text_bytes option" where
  "nostr_key_for fav fp = Option.bind (map_of fav fp) rs_nostr_key"

definition resolve ::
  "(text_bytes \<Rightarrow> text_bytes) \<Rightarrow> text_bytes \<Rightarrow> favorites \<Rightarrow> (text_bytes \<times> relationship) option" where
  "resolve unicode i fav =
     (let needle = to_lowercase unicode i in
      find (\<lambda>(fp, _). starts_with fp needle \<or> starts_with needle fp) fav)"

definition by_nickname :: "text_bytes \<Rightarrow> favorites \<Rightarrow> (text_bytes \<times> relationship) list" where
  "by_nickname nickname fav =
     sort_key fst (filter (\<lambda>(_, r). eq_ignore_ascii_case (rs_nickname r) nickname) fav)"

definition fingerprint_for_nostr_key :: "text_bytes \<Rightarrow> favorites \<Rightarrow> text_bytes option" where
  "fingerprint_for_nostr_key key fav =
     map_option fst (find (\<lambda>(_, r). rs_nostr_key r = Some key) fav)"

definition ours :: "favorites \<Rightarrow> (text_bytes \<times> relationship) list" where
  "ours fav = sort_key (\<lambda>(_, r). rs_nickname r) (filter (\<lambda>(_, r). rs_we_favorited r) fav)"

section \<open>Lemmas\<close>

lemma parse_notice_text:
  assumes "trimmed_text key" and "key \<noteq> []"
  shows "parse_notice (notice_text b key) = Some \<lparr>fn_is_favorite = b, fn_nostr_key = Some key\<rparr>"
proof -
  have "58 \<notin> set FAVORITED" "58 \<notin> set UNFAVORITED" "UNFAVORITED \<noteq> FAVORITED"
    by (simp_all add: FAVORITED_def UNFAVORITED_def)
  then show ?thesis using assms
    by (cases b) (simp_all add: parse_notice_def notice_text_def split_once_append trim_trimmed Let_def)
qed

lemma map_of_update_entry:
  "map_of (update_entry k f fav) j =
   (if j = k then Some (f (case map_of fav k of None \<Rightarrow> relationship_default | Some r \<Rightarrow> r))
    else map_of fav j)"
  by (induction k f fav rule: update_entry.induct) auto

lemma keys_update_entry: "fst ` set (update_entry k f fav) = insert k (fst ` set fav)"
  by (induction k f fav rule: update_entry.induct) auto

lemma distinct_update_entry:
  "distinct (map fst fav) \<Longrightarrow> distinct (map fst (update_entry k f fav))"
  by (induction k f fav rule: update_entry.induct) (auto simp: keys_update_entry)

text \<open>Everything the client does to the table.\<close>

datatype favorites_op =
    FNoteKey text_bytes bytes
  | FSetOurs text_bytes text_bytes bool
  | FNotice text_bytes text_bytes favorite_notice

fun favorites_step :: "(text_bytes \<Rightarrow> text_bytes) \<Rightarrow> favorites_op \<Rightarrow> favorites \<Rightarrow> favorites" where
  "favorites_step unicode (FNoteKey fp key) fav = note_key unicode fp key fav"
| "favorites_step unicode (FSetOurs fp nickname b) fav = set_ours unicode fp nickname b fav"
| "favorites_step unicode (FNotice fp nickname n) fav = apply_notice unicode fp nickname n fav"

text \<open>The last address a peer sent, \<open>None\<close> while it sent none.\<close>

fun last_address ::
  "(text_bytes \<Rightarrow> text_bytes) \<Rightarrow> text_bytes \<Rightarrow> favorites_op list \<Rightarrow> text_bytes option \<Rightarrow> text_bytes option" where
  "last_address unicode fp [] a = a"
| "last_address unicode fp (FNotice g _ n # ops) a =
     last_address unicode fp ops
       (if to_lowercase unicode g = fp \<and> fn_nostr_key n \<noteq> None then fn_nostr_key n else a)"
| "last_address unicode fp (_ # ops) a = last_address unicode fp ops a"

lemma with_nickname_key [simp]: "rs_nostr_key (with_nickname n r) = rs_nostr_key r"
  by (simp add: with_nickname_def)

lemma step_address:
  "nostr_key_for (favorites_step unicode op fav) fp =
   (case op of
      FNotice g _ n \<Rightarrow> if to_lowercase unicode g = fp \<and> fn_nostr_key n \<noteq> None then fn_nostr_key n
        else nostr_key_for fav fp
    | _ \<Rightarrow> nostr_key_for fav fp)"
  by (cases op)
    (auto simp: nostr_key_for_def note_key_def set_ours_def apply_notice_def fav_entry_def
      map_of_update_entry relationship_default_def Let_def split: option.splits)

lemma run_address:
  "nostr_key_for (fold (favorites_step unicode) ops fav) fp =
   last_address unicode fp ops (nostr_key_for fav fp)"
proof (induction ops arbitrary: fav)
  case (Cons op ops)
  then show ?case using step_address [of unicode op fav fp] by (cases op) auto
qed simp

text \<open>Only a relationship creates an entry; a stranger's announced key does not.\<close>

lemma step_keys:
  "fst ` set (favorites_step unicode op fav) =
   (case op of FNoteKey _ _ \<Rightarrow> fst ` set fav
    | FSetOurs g _ _ \<Rightarrow> insert (to_lowercase unicode g) (fst ` set fav)
    | FNotice g _ _ \<Rightarrow> insert (to_lowercase unicode g) (fst ` set fav))"
proof (cases op)
  case (FNoteKey g key)
  then show ?thesis
    by (auto simp: note_key_def keys_update_entry map_of_eq_None_iff)
qed (simp_all add: set_ours_def apply_notice_def fav_entry_def keys_update_entry)

section \<open>Properties\<close>

text \<open>
  A favourite notice is understood: the text announcing an address is read back as the
  same statement with the same address, colons in the address included.
\<close>

theorem notice_roundtrip:
  assumes "trimmed_text key" and "key \<noteq> []"
  shows "parse_notice (notice_text b key) = Some \<lparr>fn_is_favorite = b, fn_nostr_key = Some key\<rparr>"
  using assms by (rule parse_notice_text)

theorem notice_roundtrip_witness:
  "parse_notice (notice_text True [110, 58, 49]) = Some \<lparr>fn_is_favorite = True, fn_nostr_key = Some [110, 58, 49]\<rparr>"
  by (rule notice_roundtrip) (simp_all add: trimmed_text_def white_chars_def starts_with_def)

text \<open>
  An address once received is never lost: whatever favourites, unfavourites and key
  announcements follow, the address held for a peer is the last one a notice of that peer
  carried.
\<close>

theorem address_is_last_received:
  "nostr_key_for (fold (favorites_step unicode) ops []) fp = last_address unicode fp ops None"
  using run_address [of unicode ops "[]" fp] by (simp add: nostr_key_for_def)

end
