(* ===== verification/Bits.thy ===== *)
theory Bits
  imports Prelude
begin

text \<open>
  The bit streams of sync/gcs.rs: the most-significant-bit-first writer and reader, each
  refined to a plain list of bits: \<open>written\<close> and \<open>unread\<close> are the abstraction functions,
  writing appends to the one and reading consumes the front of the other.
\<close>

text \<open>A byte as its eight bits, the highest first.\<close>

definition byte_bits :: "byte \<Rightarrow> bool list" where
  "byte_bits b = map (\<lambda>i. bit b (7 - i)) [0..<8]"

lemma length_byte_bits [simp]: "length (byte_bits b) = 8"
  by (simp add: byte_bits_def)

lemma byte_bits_unfold:
  "byte_bits b = [bit b 7, bit b 6, bit b 5, bit b 4, bit b 3, bit b 2, bit b 1, bit b 0]"
  by (simp add: byte_bits_def upt_rec)

declare push_bit_Suc [simp del]

lemma byte_bits_shift: "byte_bits (push_bit 1 c) = tl (byte_bits c) @ [False]"
  by (simp add: byte_bits_unfold bit_simps)

lemma byte_bits_shift_or: "byte_bits (push_bit 1 c OR of_bool b) = tl (byte_bits c) @ [b]"
  by (simp add: byte_bits_unfold bit_simps)

section \<open>Writing\<close>

record bit_writer =
  wr_buf :: bytes
  wr_cur :: byte
  wr_nbits :: nat

definition writer_new :: bit_writer where
  "writer_new = \<lparr>wr_buf = [], wr_cur = 0, wr_nbits = 0\<rparr>"

definition write_bit :: "bool \<Rightarrow> bit_writer \<Rightarrow> bit_writer" where
  "write_bit b w =
     (let cur = push_bit 1 (wr_cur w) OR of_bool b; nbits = wr_nbits w + 1 in
      if nbits = 8 then \<lparr>wr_buf = wr_buf w @ [cur], wr_cur = 0, wr_nbits = 0\<rparr>
      else \<lparr>wr_buf = wr_buf w, wr_cur = cur, wr_nbits = nbits\<rparr>)"

fun write_ones :: "nat \<Rightarrow> bit_writer \<Rightarrow> bit_writer" where
  "write_ones 0 w = w"
| "write_ones (Suc n) w = write_ones n (write_bit True w)"

text \<open>\<open>for i in (0..count).rev()\<close>: the bits of the value from position \<open>count - 1\<close> down.\<close>

fun write_bits :: "nat \<Rightarrow> nat \<Rightarrow> bit_writer \<Rightarrow> bit_writer" where
  "write_bits value 0 w = w"
| "write_bits value (Suc i) w = write_bits value i (write_bit (odd (value div 2 ^ i)) w)"

definition writer_finish :: "bit_writer \<Rightarrow> bytes" where
  "writer_finish w =
     (if 0 < wr_nbits w then wr_buf w @ [push_bit (8 - wr_nbits w) (wr_cur w)] else wr_buf w)"

definition writer_ok :: "bit_writer \<Rightarrow> bool" where
  "writer_ok w \<longleftrightarrow> wr_nbits w < 8"

definition written :: "bit_writer \<Rightarrow> bool list" where
  "written w = concat (map byte_bits (wr_buf w)) @ drop (8 - wr_nbits w) (byte_bits (wr_cur w))"

lemma written_new [simp]: "written writer_new = []" "writer_ok writer_new"
  by (simp_all add: written_def writer_new_def writer_ok_def)

lemma drop_shift:
  assumes "n < 8"
  shows "drop (8 - Suc n) (byte_bits (push_bit 1 c OR of_bool b)) = drop (8 - n) (byte_bits c) @ [b]"
proof -
  have "Suc (7 - n) = 8 - n" using assms by simp
  then have "drop (7 - n) (tl (byte_bits c)) = drop (8 - n) (byte_bits c)"
    by (metis drop_Suc)
  then show ?thesis using assms by (simp add: byte_bits_shift_or del: One_nat_def)
qed

lemma write_bit_refines:
  assumes "writer_ok w"
  shows "written (write_bit b w) = written w @ [b]" and "writer_ok (write_bit b w)"
proof -
  have n: "wr_nbits w < 8" using assms by (simp add: writer_ok_def)
  from drop_shift [OF n, of "wr_cur w" b] show "written (write_bit b w) = written w @ [b]"
    by (cases "wr_nbits w = 7") (simp_all add: written_def write_bit_def Let_def)
  show "writer_ok (write_bit b w)" using n by (simp add: write_bit_def writer_ok_def Let_def)
qed

lemma write_ones_refines:
  "writer_ok w \<Longrightarrow> written (write_ones n w) = written w @ replicate n True \<and> writer_ok (write_ones n w)"
  by (induction n arbitrary: w) (simp_all add: write_bit_refines replicate_append_same)

fun fixed_bits :: "nat \<Rightarrow> nat \<Rightarrow> bool list" where
  "fixed_bits value 0 = []"
| "fixed_bits value (Suc i) = odd (value div 2 ^ i) # fixed_bits value i"

lemma write_bits_refines:
  "writer_ok w \<Longrightarrow> written (write_bits value n w) = written w @ fixed_bits value n \<and> writer_ok (write_bits value n w)"
  by (induction n arbitrary: w) (simp_all add: write_bit_refines)

lemma byte_bits_push: "n \<le> 8 \<Longrightarrow> byte_bits (push_bit n c) = drop n (byte_bits c) @ replicate n False"
proof (induction n arbitrary: c)
  case (Suc n)
  have "byte_bits (push_bit (Suc n) c) = byte_bits (push_bit n (push_bit 1 c))"
    by (simp add: push_bit_push_bit)
  also have "\<dots> = drop n (tl (byte_bits c) @ [False]) @ replicate n False"
    using Suc by (simp only: byte_bits_shift)
  also have "\<dots> = drop (Suc n) (byte_bits c) @ replicate (Suc n) False"
    using Suc.prems by (simp add: drop_Suc replicate_append_same)
  finally show ?case .
qed simp

text \<open>Finishing pads with zero bits to a whole byte.\<close>

lemma writer_finish_bits:
  "writer_ok w \<Longrightarrow> concat (map byte_bits (writer_finish w)) =
     written w @ replicate (if wr_nbits w = 0 then 0 else 8 - wr_nbits w) False"
  by (simp add: writer_finish_def written_def writer_ok_def byte_bits_push)

section \<open>Reading\<close>

record bit_reader =
  rd_data :: bytes
  rd_idx :: nat
  rd_cur :: byte
  rd_left :: nat

definition reader_new :: "bytes \<Rightarrow> bit_reader" where
  "reader_new d =
     (case d of
        b # _ \<Rightarrow> \<lparr>rd_data = d, rd_idx = 0, rd_cur = b, rd_left = 8\<rparr>
      | [] \<Rightarrow> \<lparr>rd_data = d, rd_idx = 0, rd_cur = 0, rd_left = 0\<rparr>)"

definition read_bit :: "bit_reader \<Rightarrow> (bool \<times> bit_reader) option" where
  "read_bit r =
     (if rd_idx r \<ge> length (rd_data r) then None
      else
        let b = bit (rd_cur r) 7;
            r = r\<lparr>rd_cur := push_bit 1 (rd_cur r), rd_left := rd_left r - 1\<rparr>
        in if rd_left r = 0
           then (let r = r\<lparr>rd_idx := rd_idx r + 1\<rparr> in
                 if rd_idx r < length (rd_data r)
                 then Some (b, r\<lparr>rd_cur := rd_data r ! rd_idx r, rd_left := 8\<rparr>)
                 else Some (b, r))
           else Some (b, r))"

text \<open>Every read either advances the byte index or leaves fewer bits in the current byte.\<close>

lemma read_bit_progress:
  "read_bit r = Some (b, r') \<Longrightarrow>
   length (rd_data r') - rd_idx r' < length (rd_data r) - rd_idx r \<or>
   (length (rd_data r') - rd_idx r' = length (rd_data r) - rd_idx r \<and> rd_left r' < rd_left r)"
  by (auto simp: read_bit_def Let_def split: if_split_asm)

function read_unary_from :: "nat \<Rightarrow> bit_reader \<Rightarrow> (nat \<times> bit_reader) option" where
  "read_unary_from q r =
     (case read_bit r of
        None \<Rightarrow> None
      | Some (b, r') \<Rightarrow> if b then read_unary_from (q + 1) r' else Some (q, r'))"
  by pat_completeness auto
termination
  by (relation "inv_image (less_than <*lex*> less_than) (\<lambda>(q, r). (length (rd_data r) - rd_idx r, rd_left r))")
    (auto dest!: read_bit_progress)

declare read_unary_from.simps [simp del]

definition read_unary :: "bit_reader \<Rightarrow> (nat \<times> bit_reader) option" where
  "read_unary r = read_unary_from 0 r"

fun read_bits_acc :: "nat \<Rightarrow> nat \<Rightarrow> bit_reader \<Rightarrow> (nat \<times> bit_reader) option" where
  "read_bits_acc value 0 r = Some (value, r)"
| "read_bits_acc value (Suc n) r =
     (case read_bit r of
        None \<Rightarrow> None
      | Some (b, r') \<Rightarrow> read_bits_acc (value * 2 + of_bool b) n r')"

definition read_bits :: "nat \<Rightarrow> bit_reader \<Rightarrow> (nat \<times> bit_reader) option" where
  "read_bits count r = read_bits_acc 0 count r"

definition reader_ok :: "bit_reader \<Rightarrow> bool" where
  "reader_ok r \<longleftrightarrow> (rd_idx r < length (rd_data r) \<longrightarrow> 0 < rd_left r \<and> rd_left r \<le> 8)"

definition unread :: "bit_reader \<Rightarrow> bool list" where
  "unread r =
     (if rd_idx r < length (rd_data r)
      then take (rd_left r) (byte_bits (rd_cur r))
           @ concat (map byte_bits (drop (Suc (rd_idx r)) (rd_data r)))
      else [])"

lemma reader_new_unread [simp]:
  "unread (reader_new d) = concat (map byte_bits d)" "reader_ok (reader_new d)"
  by (cases d; simp add: unread_def reader_new_def reader_ok_def)+

lemma read_bit_refines:
  assumes "reader_ok r"
  shows "case unread r of
      [] \<Rightarrow> read_bit r = None
    | b # bs \<Rightarrow> \<exists>r'. read_bit r = Some (b, r') \<and> unread r' = bs \<and> reader_ok r'"
proof (cases "rd_idx r < length (rd_data r)")
  case False
  then show ?thesis by (simp add: unread_def read_bit_def)
next
  case True
  with assms have left: "0 < rd_left r" "rd_left r \<le> 8" by (simp_all add: reader_ok_def)
  obtain n where n: "rd_left r = Suc n" "n < 8" using left by (cases "rd_left r") auto
  have hd: "byte_bits c = bit c 7 # tl (byte_bits c)" for c by (simp add: byte_bits_unfold)
  have unread: "unread r = bit (rd_cur r) 7 # take n (tl (byte_bits (rd_cur r)))
      @ concat (map byte_bits (drop (Suc (rd_idx r)) (rd_data r)))"
    using True n hd [of "rd_cur r"] by (simp add: unread_def) (metis append_Cons take_Suc_Cons)
  have shift: "take n (byte_bits (push_bit 1 (rd_cur r))) = take n (tl (byte_bits (rd_cur r)))"
    using n by (simp add: byte_bits_shift del: One_nat_def)
  show ?thesis
  proof (cases "n = 0")
    case False
    then show ?thesis using unread True n shift
      by (auto simp: read_bit_def Let_def unread_def reader_ok_def)
  next
    case n0: True
    show ?thesis
    proof (cases "Suc (rd_idx r) < length (rd_data r)")
      case more: True
      then have "drop (Suc (rd_idx r)) (rd_data r) =
          rd_data r ! Suc (rd_idx r) # drop (Suc (Suc (rd_idx r))) (rd_data r)"
        by (simp add: Cons_nth_drop_Suc)
      then show ?thesis using unread True n n0 more
        by (auto simp: read_bit_def Let_def unread_def reader_ok_def)
    next
      case False
      then show ?thesis using unread True n n0
        by (auto simp: read_bit_def Let_def unread_def reader_ok_def)
    qed
  qed
qed

lemma read_bit_Cons:
  assumes "reader_ok r" and "unread r = b # bs"
  obtains r' where "read_bit r = Some (b, r')" "unread r' = bs" "reader_ok r'"
  using read_bit_refines [OF assms(1)] assms(2) by auto

lemma read_bit_Nil: "reader_ok r \<Longrightarrow> unread r = [] \<Longrightarrow> read_bit r = None"
  using read_bit_refines [of r] by simp

lemma read_unary_from_refines:
  "reader_ok r \<Longrightarrow> unread r = replicate n True @ False # rest \<Longrightarrow>
   \<exists>r'. read_unary_from q r = Some (q + n, r') \<and> unread r' = rest \<and> reader_ok r'"
proof (induction n arbitrary: q r)
  case 0
  then have "unread r = False # rest" by simp
  then obtain r' where "read_bit r = Some (False, r')" "unread r' = rest" "reader_ok r'"
    using read_bit_Cons [OF 0(1)] by blast
  then show ?case by (simp add: read_unary_from.simps [of q r])
next
  case (Suc n)
  then have "unread r = True # replicate n True @ False # rest" by simp
  then obtain r' where r': "read_bit r = Some (True, r')" "unread r' = replicate n True @ False # rest"
    "reader_ok r'"
    using read_bit_Cons [OF Suc.prems(1)] by blast
  from Suc.IH [OF r'(3,2), of "q + 1"] r'(1) show ?case by (simp add: read_unary_from.simps [of q r])
qed

lemma read_unary_refines:
  "reader_ok r \<Longrightarrow> unread r = replicate n True @ False # rest \<Longrightarrow>
   \<exists>r'. read_unary r = Some (n, r') \<and> unread r' = rest \<and> reader_ok r'"
  using read_unary_from_refines [of r n rest 0] by (simp add: read_unary_def)

text \<open>The value of a run of bits read after \<open>v\<close>.\<close>

fun bits_value :: "nat \<Rightarrow> bool list \<Rightarrow> nat" where
  "bits_value v [] = v"
| "bits_value v (b # bs) = bits_value (v * 2 + of_bool b) bs"

lemma read_bits_acc_refines:
  "reader_ok r \<Longrightarrow> unread r = bs @ rest \<Longrightarrow> length bs = n \<Longrightarrow>
   \<exists>r'. read_bits_acc v n r = Some (bits_value v bs, r') \<and> unread r' = rest \<and> reader_ok r'"
proof (induction n arbitrary: v bs r)
  case (Suc n)
  then obtain b bs' where bs: "bs = b # bs'" by (cases bs) auto
  with Suc.prems(2) have "unread r = b # (bs' @ rest)" by simp
  then obtain r' where "read_bit r = Some (b, r')" "unread r' = bs' @ rest" "reader_ok r'"
    using read_bit_Cons [OF Suc.prems(1)] by blast
  with Suc.IH [of r' bs' "v * 2 + of_bool b"] Suc.prems(3) bs show ?case by simp
qed simp

lemma read_bits_refines:
  "reader_ok r \<Longrightarrow> unread r = bs @ rest \<Longrightarrow>
   \<exists>r'. read_bits (length bs) r = Some (bits_value 0 bs, r') \<and> unread r' = rest \<and> reader_ok r'"
  using read_bits_acc_refines [of r bs rest "length bs" 0] by (simp add: read_bits_def)

lemma bits_value_fixed: "value < 2 ^ n \<Longrightarrow> bits_value v (fixed_bits value n) = v * 2 ^ n + value"
proof (induction n arbitrary: v "value")
  case (Suc n)
  have split: "fixed_bits value n = fixed_bits (value mod 2 ^ n) n"
  proof -
    have "odd (value div 2 ^ i) = odd (value mod 2 ^ n div 2 ^ i)" if "i < n" for i
      using that by (simp only: bit_iff_odd [symmetric] take_bit_eq_mod [symmetric] bit_take_bit_iff simp_thms)
    then have "fixed_bits value j = fixed_bits (value mod 2 ^ n) j" if "j \<le> n" for j
      using that by (induction j) auto
    then show ?thesis by simp
  qed
  have "value div 2 ^ n < 2" using Suc.prems by (simp add: less_mult_imp_div_less)
  then have q: "of_bool (odd (value div 2 ^ n)) = value div 2 ^ n"
    by (cases "value div 2 ^ n") auto
  have "bits_value v (fixed_bits value (Suc n)) =
      (v * 2 + of_bool (odd (value div 2 ^ n))) * 2 ^ n + value mod 2 ^ n"
    using Suc.IH [of "value mod 2 ^ n"] split by simp
  also have "\<dots> = v * 2 ^ Suc n + (value div 2 ^ n * 2 ^ n + value mod 2 ^ n)"
    by (simp only: q) (simp add: algebra_simps)
  finally show ?case by (simp only: div_mult_mod_eq)
qed simp

lemma length_fixed_bits [simp]: "length (fixed_bits value n) = n"
  by (induction n) auto

section \<open>Progress\<close>

definition reader_size :: "bit_reader \<Rightarrow> nat \<times> nat" where
  "reader_size r = (length (rd_data r) - rd_idx r, rd_left r)"

abbreviation reader_less :: "(bit_reader \<times> bit_reader) set" where
  "reader_less \<equiv> inv_image (less_than <*lex*> less_than) reader_size"

lemma read_bit_less: "read_bit r = Some (b, r') \<Longrightarrow> (r', r) \<in> reader_less"
  by (auto simp: reader_size_def dest!: read_bit_progress)

lemma trans_reader_less: "trans reader_less"
  by (intro trans_inv_image trans_lex_prod) (auto intro: transI)

lemma read_unary_from_less: "read_unary_from q r = Some (n, r') \<Longrightarrow> (r', r) \<in> reader_less"
proof (induction q r rule: read_unary_from.induct)
  case (1 q r)
  then obtain b r1 where b: "read_bit r = Some (b, r1)"
    by (auto simp: read_unary_from.simps [of q r] split: option.splits)
  show ?case
  proof (cases b)
    case True
    with 1 b have "(r', r1) \<in> reader_less" by (auto simp: read_unary_from.simps [of q r])
    with read_bit_less [OF b] show ?thesis using trans_reader_less by (blast dest: transD)
  next
    case False
    with 1 b read_bit_less show ?thesis by (auto simp: read_unary_from.simps [of q r])
  qed
qed

lemma read_bits_acc_le: "read_bits_acc v n r = Some (x, r') \<Longrightarrow> r' = r \<or> (r', r) \<in> reader_less"
proof (induction n arbitrary: v r)
  case (Suc n)
  then obtain b r1 where b: "read_bit r = Some (b, r1)" "read_bits_acc (v * 2 + of_bool b) n r1 = Some (x, r')"
    by (auto split: option.splits)
  from Suc.IH [OF b(2)] read_bit_less [OF b(1)] show ?case
    using trans_reader_less by (blast dest: transD)
qed simp

lemma read_record_less:
  "read_unary r = Some (q, r1) \<Longrightarrow> read_bits p r1 = Some (x, r2) \<Longrightarrow> (r2, r) \<in> reader_less"
  using read_unary_from_less [of 0 r q r1] read_bits_acc_le [of 0 p r1 x r2] trans_reader_less
  unfolding read_unary_def read_bits_def by (blast dest: transD)

lemma wf_reader_less: "wf reader_less"
  by (intro wf_inv_image wf_lex_prod) auto

end
