(* ===== verification/Gcs.thy ===== *)
theory Gcs
  imports Bits
begin

text \<open>
  Golomb-coded set filters (sync/gcs.rs).  \<open>sha256\<close> is the hash of the \<open>sha2\<close> crate, with
  32 bytes of output.  The parameter \<open>p\<close> of a built filter comes from \<open>derive_p\<close>, a
  floating-point computation whose clamp keeps it between 2 and 20; it is an argument
  here.  Values are naturals with the wrap-around and saturation of \<open>u64\<close> written out.
\<close>

definition MAX_P :: nat where
  "MAX_P = 32"

abbreviation (input) U64 :: nat where "U64 \<equiv> 18446744073709551616"
abbreviation (input) U32_MAX :: nat where "U32_MAX \<equiv> 4294967295"

record filter_params =
  gp_p :: nat
  gp_m :: nat
  gp_data :: bytes
  gp_included :: nat

definition estimate_max_elements :: "nat \<Rightarrow> nat \<Rightarrow> nat" where
  "estimate_max_elements size_bytes p =
     (let bits = max (size_bytes * 8) 8; per = max (p + 2) 3 in max (bits div per) 1)"

definition hash_range :: "nat \<Rightarrow> nat \<Rightarrow> nat" where
  "hash_range count p =
     (if count = 0 then 1
      else if p \<ge> 64 then U32_MAX
      else let product = min (count * 2 ^ p) (U64 - 1) in
        if product = 0 then 1 else min product U32_MAX)"

definition h64 :: "(bytes \<Rightarrow> bytes) \<Rightarrow> bytes \<Rightarrow> nat" where
  "h64 sha256 i = unat (u64_of_be (take 8 (sha256 i)) AND 0x7fffffffffffffff)"

definition map_hash :: "nat \<Rightarrow> nat \<Rightarrow> nat" where
  "map_hash h modulus = (if modulus \<le> 1 then 0 else if h mod modulus = 0 then 1 else h mod modulus)"

fun normalize_from :: "nat \<Rightarrow> nat \<Rightarrow> nat list \<Rightarrow> nat list" where
  "normalize_from modulus latest [] = []"
| "normalize_from modulus latest (v # vs) =
     (let normalized = min v (modulus - 1) in
      if normalized > latest then normalized # normalize_from modulus normalized vs
      else normalize_from modulus latest vs)"

definition normalize_mapped_values :: "nat list \<Rightarrow> nat \<Rightarrow> nat list" where
  "normalize_mapped_values vs modulus = (if modulus \<le> 1 then [] else normalize_from modulus 0 vs)"

definition bucket :: "(bytes \<Rightarrow> bytes) \<Rightarrow> bytes \<Rightarrow> nat \<Rightarrow> nat" where
  "bucket sha256 i m =
     (let modulus = max m 1 in if modulus \<le> 1 then 0 else map_hash (h64 sha256 i) modulus)"

section \<open>Encoding\<close>

text \<open>\<open>wrapping_sub\<close> on \<open>u64\<close>.\<close>

definition u64_wrapping_sub :: "nat \<Rightarrow> nat \<Rightarrow> nat" where
  "u64_wrapping_sub a b = (a + (U64 - b)) mod U64"

lemma u64_wrapping_sub_le: "b \<le> a \<Longrightarrow> a < U64 \<Longrightarrow> u64_wrapping_sub a b = a - b"
proof -
  assume ab: "b \<le> a" "a < U64"
  then have "a + (U64 - b) = (a - b) + U64" by simp
  then have "u64_wrapping_sub a b = (a - b) mod U64"
    unfolding u64_wrapping_sub_def by (simp only: mod_add_self2)
  also have "\<dots> = a - b" using ab by (intro mod_less) simp
  finally show ?thesis .
qed

fun encode_from :: "nat \<Rightarrow> nat \<Rightarrow> nat list \<Rightarrow> bit_writer \<Rightarrow> bit_writer" where
  "encode_from p prev [] w = w"
| "encode_from p prev (v # vs) w =
     (let x = u64_wrapping_sub v prev in
      if x = 0 then encode_from p v vs w
      else encode_from p v vs
        (write_bits ((x - 1) mod 2 ^ p) p
          (write_bit False (write_ones ((x - 1) div 2 ^ p) w))))"

definition encode_sorted :: "nat list \<Rightarrow> nat \<Rightarrow> bytes" where
  "encode_sorted vs p = writer_finish (encode_from p 0 vs writer_new)"

definition encode_first :: "(bytes \<Rightarrow> bytes) \<Rightarrow> bytes list \<Rightarrow> nat \<Rightarrow> nat \<Rightarrow> nat \<Rightarrow> bytes" where
  "encode_first sha256 ids modulus p count =
     (let mapped = normalize_mapped_values (sort (map (\<lambda>i. map_hash (h64 sha256 i) modulus) (take count ids))) modulus
      in if mapped = [] then [] else encode_sorted mapped p)"

text \<open>\<open>while encoded.len() > max_bytes && count > 1\<close>\<close>

function shrink_count :: "(nat \<Rightarrow> bytes) \<Rightarrow> nat \<Rightarrow> nat \<Rightarrow> nat" where
  "shrink_count enc max_bytes count =
     (if length (enc count) > max_bytes \<and> count > 1
      then shrink_count enc max_bytes (max (count * 9 div 10) 1) else count)"
  by pat_completeness auto
termination
  by (relation "measure (\<lambda>(enc, max_bytes, count). count)") auto

declare shrink_count.simps [simp del]

definition build_filter :: "(bytes \<Rightarrow> bytes) \<Rightarrow> bytes list \<Rightarrow> nat \<Rightarrow> nat \<Rightarrow> filter_params" where
  "build_filter sha256 ids max_bytes p =
     (if ids = [] then \<lparr>gp_p = p, gp_m = 1, gp_data = [], gp_included = 0\<rparr>
      else
        let cap = estimate_max_elements max_bytes p;
            range = max (hash_range (min (length ids) cap) p) 1;
            enc = encode_first sha256 ids range p;
            count = shrink_count enc max_bytes (min (length ids) cap);
            encoded = enc count
        in if length encoded > max_bytes
           then \<lparr>gp_p = p, gp_m = range, gp_data = [], gp_included = 0\<rparr>
           else \<lparr>gp_p = p, gp_m = range, gp_data = encoded,
                 gp_included = (if encoded = [] then 0 else count)\<rparr>)"

section \<open>Decoding\<close>

definition sat_add :: "nat \<Rightarrow> nat \<Rightarrow> nat" where
  "sat_add a b = min (a + b) (U64 - 1)"

function decode_loop :: "nat \<Rightarrow> nat \<Rightarrow> nat \<Rightarrow> bit_reader \<Rightarrow> nat list" where
  "decode_loop p m acc r =
     (case read_unary r of
        None \<Rightarrow> []
      | Some (q, r1) \<Rightarrow>
          (case read_bits p r1 of
             None \<Rightarrow> []
           | Some (v, r2) \<Rightarrow>
               let x = sat_add (sat_add (q * 2 ^ p mod U64) v) 1;
                   acc' = (acc + x) mod U64
               in if acc' \<ge> m then [] else acc' # decode_loop p m acc' r2))"
  by pat_completeness auto
termination
proof (relation "inv_image reader_less (\<lambda>(p, m, acc, r). r)")
  show "wf (inv_image reader_less (\<lambda>(p, m, acc, r). r))"
    by (intro wf_inv_image wf_reader_less)
qed (use read_record_less in auto)

declare decode_loop.simps [simp del]

definition decode_to_sorted_set :: "nat \<Rightarrow> nat \<Rightarrow> bytes \<Rightarrow> nat list" where
  "decode_to_sorted_set p m d =
     (if \<not> (1 \<le> p \<and> p \<le> MAX_P) \<or> m \<le> 1 then [] else decode_loop p m 0 (reader_new d))"

text \<open>
  \<open>binary_search(..).is_ok()\<close>, which on a sorted slice is membership; the decoder's result
  is sorted (\<open>decode_sorted\<close> below).
\<close>

definition filter_contains :: "nat list \<Rightarrow> nat \<Rightarrow> bool" where
  "filter_contains sorted_values candidate \<longleftrightarrow> candidate \<in> set sorted_values"

section \<open>The encoded bits\<close>

fun golomb_bits :: "nat \<Rightarrow> nat \<Rightarrow> nat list \<Rightarrow> bool list" where
  "golomb_bits p prev [] = []"
| "golomb_bits p prev (v # vs) =
     replicate ((v - prev - 1) div 2 ^ p) True @ False # fixed_bits ((v - prev - 1) mod 2 ^ p) p
       @ golomb_bits p v vs"

text \<open>Strictly increasing above \<open>prev\<close> and below \<open>m\<close>.\<close>

definition increasing :: "nat \<Rightarrow> nat \<Rightarrow> nat list \<Rightarrow> bool" where
  "increasing prev m vs \<longleftrightarrow> sorted_wrt (<) (prev # vs) \<and> (\<forall>v \<in> set vs. v < m)"

lemma increasing_Cons: "increasing prev m (v # vs) \<longleftrightarrow> prev < v \<and> v < m \<and> increasing v m vs"
  by (auto simp: increasing_def)

lemma increasing_Nil [simp]: "increasing prev m []"
  by (simp add: increasing_def)

lemma encode_from_bits:
  "increasing prev m vs \<Longrightarrow> m \<le> U64 \<Longrightarrow> writer_ok w \<Longrightarrow>
   written (encode_from p prev vs w) = written w @ golomb_bits p prev vs
   \<and> writer_ok (encode_from p prev vs w)"
proof (induction p prev vs w rule: encode_from.induct)
  case (2 p prev v vs w)
  from "2.prems"(1,2) have v: "prev < v" "v < U64" and rest: "increasing v m vs"
    by (auto simp: increasing_Cons)
  have x: "u64_wrapping_sub v prev = v - prev" using v by (intro u64_wrapping_sub_le) simp_all
  let ?w = "write_bits ((v - prev - 1) mod 2 ^ p) p
      (write_bit False (write_ones ((v - prev - 1) div 2 ^ p) w))"
  have "written ?w = written w @ replicate ((v - prev - 1) div 2 ^ p) True
      @ False # fixed_bits ((v - prev - 1) mod 2 ^ p) p \<and> writer_ok ?w"
    using "2.prems"(3) by (simp add: write_bits_refines write_bit_refines write_ones_refines)
  moreover have "v - prev \<noteq> 0" using v(1) by simp
  ultimately show ?case
    using "2.IH"(2) [OF refl] "2.prems"(2) rest x by (simp add: Let_def)
qed simp

lemma decode_loop_bits:
  "reader_ok r \<Longrightarrow> unread r = golomb_bits p prev vs @ tail \<Longrightarrow> increasing prev m vs \<Longrightarrow> m \<le> U32_MAX \<Longrightarrow>
   \<exists>extra. decode_loop p m prev r = vs @ extra"
proof (induction vs arbitrary: prev r)
  case (Cons v vs)
  obtain x where xdef: "x = v - prev - 1" by simp
  from Cons.prems(3,4) have v: "prev < v" "v < m" "v < U32_MAX" and rest: "increasing v m vs"
    by (auto simp: increasing_Cons)
  obtain r1 where r1: "read_unary r = Some (x div 2 ^ p, r1)"
    "unread r1 = fixed_bits (x mod 2 ^ p) p @ golomb_bits p v vs @ tail" "reader_ok r1"
    using read_unary_refines [OF Cons.prems(1), of "x div 2 ^ p"] Cons.prems(2)
    by (auto simp: xdef)
  obtain r2 where r2: "read_bits p r1 = Some (x mod 2 ^ p, r2)"
    "unread r2 = golomb_bits p v vs @ tail" "reader_ok r2"
    using read_bits_refines [OF r1(3,2)] bits_value_fixed [of "x mod 2 ^ p" p 0]
    unfolding length_fixed_bits by fastforce
  have q: "x div 2 ^ p * 2 ^ p mod U64 = x div 2 ^ p * 2 ^ p"
  proof (rule mod_less)
    have "x div 2 ^ p * 2 ^ p \<le> x" by simp
    also have "\<dots> < U64" using v(3) by (simp add: xdef)
    finally show "x div 2 ^ p * 2 ^ p < U64" .
  qed
  have "x div 2 ^ p * 2 ^ p + x mod 2 ^ p = x" by (rule div_mult_mod_eq)
  then have x: "sat_add (sat_add (x div 2 ^ p * 2 ^ p mod U64) (x mod 2 ^ p)) 1 = v - prev"
    unfolding q using v by (simp add: sat_add_def xdef)
  have "(prev + (v - prev)) mod U64 = v" using v by (simp add: mod_less)
  then have "decode_loop p m prev r = v # decode_loop p m v r2"
    using r1(1) r2(1) x v(2) by (simp add: decode_loop.simps [of p m prev r] Let_def)
  with Cons.IH [OF r2(3,2) rest Cons.prems(4)] show ?case by auto
qed simp

section \<open>The decoder's result is sorted\<close>

lemma read_unary_bound: "reader_ok r \<Longrightarrow> read_unary r = Some (q, r1) \<Longrightarrow>
  reader_ok r1 \<and> q + length (unread r1) < length (unread r)"
proof -
  have "reader_ok r \<Longrightarrow> read_unary_from n r = Some (q, r1) \<Longrightarrow>
      reader_ok r1 \<and> q + length (unread r1) < n + length (unread r)" for n
  proof (induction n r rule: read_unary_from.induct)
    case (1 n r)
    show ?case
    proof (cases "unread r")
      case Nil
      with "1.prems" show ?thesis by (simp add: read_bit_Nil read_unary_from.simps [of n r])
    next
      case (Cons b bs)
      obtain r' where r': "read_bit r = Some (b, r')" "unread r' = bs" "reader_ok r'"
        using read_bit_Cons [OF "1.prems"(1) Cons] by blast
      show ?thesis
      proof (cases b)
        case True
        with 1 r' Cons show ?thesis by (fastforce simp: read_unary_from.simps [of n r])
      next
        case False
        with 1 r' Cons show ?thesis by (simp add: read_unary_from.simps [of n r])
      qed
    qed
  qed
  from this [of 0] show "reader_ok r \<Longrightarrow> read_unary r = Some (q, r1) \<Longrightarrow>
      reader_ok r1 \<and> q + length (unread r1) < length (unread r)"
    by (simp add: read_unary_def)
qed

lemma read_bits_bound:
  "reader_ok r \<Longrightarrow> read_bits p r = Some (x, r') \<Longrightarrow>
   reader_ok r' \<and> length (unread r') \<le> length (unread r) \<and> x < 2 ^ p"
proof -
  have "reader_ok r \<Longrightarrow> read_bits_acc v p r = Some (x, r') \<Longrightarrow>
      reader_ok r' \<and> length (unread r') \<le> length (unread r) \<and> x < (v + 1) * 2 ^ p" for v
  proof (induction p arbitrary: v r)
    case (Suc p)
    show ?case
    proof (cases "unread r")
      case Nil
      with Suc.prems show ?thesis by (simp add: read_bit_Nil)
    next
      case (Cons b bs)
      obtain r1 where r1: "read_bit r = Some (b, r1)" "unread r1 = bs" "reader_ok r1"
        using read_bit_Cons [OF Suc.prems(1) Cons] by blast
      have "read_bits_acc (v * 2 + of_bool b) p r1 = Some (x, r')" using Suc.prems(2) r1(1) by simp
      from Suc.IH [OF r1(3) this] have r': "reader_ok r'" "length (unread r') \<le> length (unread r1)"
        "x < (v * 2 + of_bool b + 1) * 2 ^ p" by simp_all
      have "(v * 2 + of_bool b + 1) * 2 ^ p \<le> (v * 2 + 2) * (2 :: nat) ^ p"
        by (intro mult_le_mono1) simp
      also have "\<dots> = (v + 1) * 2 ^ Suc p" by simp
      finally have "x < (v + 1) * 2 ^ Suc p" using r'(3) by simp
      with r' r1 Cons show ?thesis by simp
    qed
  qed simp
  from this [of 0] show "reader_ok r \<Longrightarrow> read_bits p r = Some (x, r') \<Longrightarrow>
      reader_ok r' \<and> length (unread r') \<le> length (unread r) \<and> x < 2 ^ p"
    by (simp add: read_bits_def)
qed

lemma decode_loop_increasing:
  "reader_ok r \<Longrightarrow> length (unread r) \<le> 2 ^ 24 \<Longrightarrow> p \<le> 32 \<Longrightarrow> m \<le> U32_MAX \<Longrightarrow> acc < m \<Longrightarrow>
   increasing acc m (decode_loop p m acc r)"
proof (induction p m acc r rule: decode_loop.induct)
  case (1 p m acc r)
  show ?case
  proof (cases "\<exists>q r1 v r2. read_unary r = Some (q, r1) \<and> read_bits p r1 = Some (v, r2)")
    case False
    then show ?thesis by (auto simp: decode_loop.simps [of p m acc r] split: option.splits)
  next
    case True
    then obtain q r1 v r2 where r1: "read_unary r = Some (q, r1)" and r2: "read_bits p r1 = Some (v, r2)"
      by blast
    note b1 = read_unary_bound [OF "1.prems"(1) r1]
    then have b2: "reader_ok r2" "length (unread r2) \<le> length (unread r1)" "v < 2 ^ p"
      using read_bits_bound [OF _ r2] by auto
    have p: "(2 :: nat) ^ p \<le> 2 ^ 32" using "1.prems"(3) by (intro power_increasing) auto
    have "q * 2 ^ p \<le> 2 ^ 24 * 2 ^ 32" using b1 "1.prems"(2) p by (intro mult_le_mono) auto
    then have q: "q * 2 ^ p mod U64 \<le> 2 ^ 56"
      by (intro le_trans [OF mod_less_eq_dividend]) simp
    obtain z where z: "z = q * 2 ^ p mod U64" by simp
    have v: "v < 2 ^ 32" using b2(3) p by (rule less_le_trans)
    obtain x where x: "x = sat_add (sat_add (q * 2 ^ p mod U64) v) 1" by simp
    then have "x = z + v + 1" using q v unfolding z [symmetric] by (simp add: sat_add_def)
    then have xb: "0 < x" "x \<le> 2 ^ 57" using q v unfolding z [symmetric] by simp_all
    have acc: "(acc + x) mod U64 = acc + x"
      using xb "1.prems"(4,5) by (intro mod_less) simp
    have step: "decode_loop p m acc r = (if acc + x \<ge> m then [] else (acc + x) # decode_loop p m (acc + x) r2)"
      using r1 r2 acc x by (simp add: decode_loop.simps [of p m acc r] Let_def)
    show ?thesis
    proof (cases "acc + x \<ge> m")
      case False
      have "increasing (acc + x) m (decode_loop p m (acc + x) r2)"
        using "1.IH" [OF r1 refl r2 refl x refl] b1 b2 "1.prems" acc False by simp
      then show ?thesis using step False xb by (simp add: increasing_Cons)
    qed (simp add: step)
  qed
qed

lemma decode_sorted:
  "length d \<le> 2 ^ 21 \<Longrightarrow> m \<le> U32_MAX \<Longrightarrow> sorted_wrt (<) (decode_to_sorted_set p m d)"
proof -
  assume d: "length d \<le> 2 ^ 21" and m: "m \<le> U32_MAX"
  have "length (concat (map byte_bits d)) = 8 * length d" by (induction d) auto
  then have u: "length (unread (reader_new d)) \<le> 2 ^ 24" using d by simp
  show ?thesis
  proof (cases "\<not> (1 \<le> p \<and> p \<le> MAX_P) \<or> m \<le> 1")
    case False
    then have "increasing 0 m (decode_loop p m 0 (reader_new d))"
      by (intro decode_loop_increasing reader_new_unread(2) u m) (simp_all add: MAX_P_def)
    with False show ?thesis by (simp add: decode_to_sorted_set_def increasing_def)
  qed (auto simp: decode_to_sorted_set_def)
qed

section \<open>No false negatives\<close>

lemma normalize_from_facts:
  "sorted vs \<Longrightarrow> \<forall>v \<in> set vs. latest \<le> v \<and> v < modulus \<Longrightarrow>
   increasing latest modulus (normalize_from modulus latest vs)
   \<and> set vs \<subseteq> insert latest (set (normalize_from modulus latest vs))"
proof (induction modulus latest vs rule: normalize_from.induct)
  case (2 modulus latest v vs)
  then have v: "min v (modulus - 1) = v" "v < modulus" and rest: "sorted vs" "\<forall>w \<in> set vs. v \<le> w \<and> w < modulus"
    by auto
  show ?case
  proof (cases "latest < v")
    case True
    with "2.IH"(1) [OF refl] rest v show ?thesis by (auto simp: Let_def increasing_Cons)
  next
    case False
    with "2.prems"(2) have "v = latest" by auto
    with "2.IH"(2) [OF refl] rest v False show ?thesis by (auto simp: Let_def)
  qed
qed simp

lemma encode_sorted_bits:
  assumes "increasing 0 m vs" and "m \<le> U64"
  shows "\<exists>tail. concat (map byte_bits (encode_sorted vs p)) = golomb_bits p 0 vs @ tail"
  using encode_from_bits [OF assms, of writer_new p] writer_finish_bits
  by (auto simp: encode_sorted_def)

lemma shrink_count_le: "shrink_count enc max_bytes count \<le> count"
proof (induction enc max_bytes count rule: shrink_count.induct)
  case (1 enc max_bytes count)
  then show ?case by (cases "length (enc count) > max_bytes \<and> count > 1")
      (auto simp: shrink_count.simps [of enc max_bytes count])
qed

lemma hash_range_le: "hash_range count p \<le> U32_MAX"
  by (simp add: hash_range_def Let_def)

lemma map_hash_range: "1 < modulus \<Longrightarrow> 0 < map_hash h modulus \<and> map_hash h modulus < modulus"
  by (simp add: map_hash_def)

lemma encode_first_contains:
  assumes "encode_first sha256 ids m p count \<noteq> []" and "m \<le> U32_MAX" and "1 \<le> p" "p \<le> MAX_P"
    and "i < count" and "i < length ids"
  shows "filter_contains (decode_to_sorted_set p m (encode_first sha256 ids m p count)) (bucket sha256 (ids ! i) m)"
proof -
  let ?vs = "sort (map (\<lambda>i. map_hash (h64 sha256 i) m) (take count ids))"
  let ?mapped = "normalize_mapped_values ?vs m"
  have m: "1 < m" and enc: "encode_first sha256 ids m p count = encode_sorted ?mapped p"
    using assms(1) by (auto simp: encode_first_def normalize_mapped_values_def Let_def split: if_split_asm)
  have facts: "increasing 0 m ?mapped" "set ?vs \<subseteq> insert 0 (set ?mapped)"
    using normalize_from_facts [of ?vs 0 m] map_hash_range [OF m] m
    by (auto simp: normalize_mapped_values_def)
  have "ids ! i \<in> set (take count ids)" using assms(5,6) by (auto simp: in_set_conv_nth)
  then have "map_hash (h64 sha256 (ids ! i)) m \<in> set ?mapped"
    using facts(2) map_hash_range [OF m, of "h64 sha256 (ids ! i)"] by auto
  moreover obtain tail where "unread (reader_new (encode_sorted ?mapped p)) = golomb_bits p 0 ?mapped @ tail"
    using encode_sorted_bits [OF facts(1)] assms(2) by auto
  with decode_loop_bits [OF reader_new_unread(2) this facts(1) assms(2)]
  obtain extra where "decode_loop p m 0 (reader_new (encode_sorted ?mapped p)) = ?mapped @ extra" by blast
  ultimately show ?thesis
    using assms(3,4) m enc by (simp add: filter_contains_def decode_to_sorted_set_def bucket_def Let_def)
qed

lemma build_filter_contains:
  assumes "1 \<le> p" "p \<le> MAX_P" and "build_filter sha256 ids max_bytes p = f"
  shows "length (gp_data f) \<le> max_bytes \<and> gp_included f \<le> length ids
    \<and> (\<forall>i < gp_included f.
         filter_contains (decode_to_sorted_set (gp_p f) (gp_m f) (gp_data f)) (bucket sha256 (ids ! i) (gp_m f)))"
proof (cases "ids = []")
  case False
  let ?c = "min (length ids) (estimate_max_elements max_bytes p)"
  let ?range = "max (hash_range ?c p) 1"
  let ?enc = "encode_first sha256 ids ?range p"
  let ?count = "shrink_count ?enc max_bytes ?c"
  have f: "f = (if length (?enc ?count) > max_bytes
      then \<lparr>gp_p = p, gp_m = ?range, gp_data = [], gp_included = 0\<rparr>
      else \<lparr>gp_p = p, gp_m = ?range, gp_data = ?enc ?count,
            gp_included = (if ?enc ?count = [] then 0 else ?count)\<rparr>)"
    using assms(3) [symmetric] False by (simp only: build_filter_def Let_def if_False)
  have r: "?range \<le> U32_MAX" using hash_range_le by simp
  have "?count \<le> ?c" by (rule shrink_count_le)
  then have "?count \<le> length ids" by simp
  then show ?thesis
    using encode_first_contains [OF _ r assms(1,2)] f by (auto split: if_split_asm)
qed (use assms(3) in \<open>auto simp: build_filter_def\<close>)

section \<open>Properties\<close>

text \<open>
  A filter has no false negatives: it fits its byte budget, and every identifier it
  counts as included is found in the values the receiver decodes from it, whatever the hash
  does, padding bits and trimming included.
\<close>

theorem filter_no_false_negatives:
  assumes "1 \<le> p" "p \<le> MAX_P" and "build_filter sha256 ids max_bytes p = f"
  shows "length (gp_data f) \<le> max_bytes \<and> gp_included f \<le> length ids
    \<and> (\<forall>i < gp_included f.
         filter_contains (decode_to_sorted_set (gp_p f) (gp_m f) (gp_data f)) (bucket sha256 (ids ! i) (gp_m f)))"
  using assms by (rule build_filter_contains)

theorem filter_no_false_negatives_witness:
  "let f = build_filter (\<lambda>d. d) [replicate 16 3, replicate 16 200] 64 7 in
   length (gp_data f) \<le> 64 \<and> gp_included f \<le> 2"
  using filter_no_false_negatives [of 7 "\<lambda>d. d" "[replicate 16 3, replicate 16 200]" 64, OF _ _ refl]
  by (simp add: MAX_P_def Let_def)

text \<open>
  Whatever bytes a peer sends as a filter, the decoded values are strictly increasing,
  which is what the responder's binary search relies on.
\<close>

theorem decoded_filter_sorted:
  assumes "length d \<le> 2 ^ 21" and "m \<le> 4294967295"
  shows "sorted_wrt (<) (decode_to_sorted_set p m d)"
  using assms by (rule decode_sorted)

theorem decoded_filter_sorted_witness:
  "sorted_wrt (<) (decode_to_sorted_set 7 1000 [1, 2, 3, 255, 254])"
  by (rule decoded_filter_sorted) simp_all

end
