(* ===== verification/Type_Flags.thy ===== *)
theory Type_Flags
  imports Protocol
begin

text \<open>
  Which message types a sync round covers (sync/type_flags.rs) and the identity a packet
  has in it (sync/packet_id.rs).  A set of types is its raw bit field; \<open>sha256\<close> is the hash
  of the \<open>sha2\<close> crate.
\<close>

section \<open>The bit table\<close>

fun bit_index :: "message_type \<Rightarrow> nat option" where
  "bit_index Announce = Some 0"
| "bit_index Message = Some 1"
| "bit_index Leave = Some 2"
| "bit_index NoiseHandshake = Some 3"
| "bit_index NoiseEncrypted = Some 4"
| "bit_index Fragment = Some 5"
| "bit_index RequestSync = Some 6"
| "bit_index FileTransfer = Some 7"
| "bit_index BoardPost = Some 8"
| "bit_index PrekeyBundle = Some 9"
| "bit_index GroupMessage = Some 10"
| "bit_index _ = None"

definition MAPPED_TYPES :: "message_type list" where
  "MAPPED_TYPES =
     [Announce, Message, Leave, NoiseHandshake, NoiseEncrypted, Fragment, RequestSync,
      FileTransfer, BoardPost, PrekeyBundle, GroupMessage]"

definition type_bits :: "message_type list \<Rightarrow> u64" where
  "type_bits ts =
     fold (\<lambda>t raw. case bit_index t of Some b \<Rightarrow> raw OR push_bit b 1 | None \<Rightarrow> raw) ts 0"

definition known_mask :: u64 where
  "known_mask = type_bits MAPPED_TYPES"

definition flags_from_raw :: "u64 \<Rightarrow> u64" where
  "flags_from_raw raw = raw AND known_mask"

definition flags_from_types :: "message_type list \<Rightarrow> u64" where
  "flags_from_types ts = flags_from_raw (type_bits ts)"

definition public_messages :: u64 where
  "public_messages = flags_from_types [Announce, Message]"

definition flags_contains :: "u64 \<Rightarrow> message_type \<Rightarrow> bool" where
  "flags_contains f t = (case bit_index t of Some b \<Rightarrow> f AND push_bit b 1 \<noteq> 0 | None \<Rightarrow> False)"

definition flags_to_types :: "u64 \<Rightarrow> message_type list" where
  "flags_to_types f = filter (flags_contains f) MAPPED_TYPES"

section \<open>The wire form\<close>

fun pop_zeros :: "bytes \<Rightarrow> bytes" where
  "pop_zeros [] = []"
| "pop_zeros (b # bs) = (let r = pop_zeros bs in if r = [] \<and> b = 0 then [] else b # r)"

text \<open>
  \<open>while bytes.last() == Some(&0) { bytes.pop(); }\<close>, described from the front: what is
  left is the longest prefix that does not end in zero.
\<close>

definition flags_to_bytes :: "u64 \<Rightarrow> bytes option" where
  "flags_to_bytes f = (if f = 0 then None else Some (pop_zeros (nat_to_le 8 (unat f))))"

definition flags_from_bytes :: "bytes \<Rightarrow> u64 option" where
  "flags_from_bytes bs =
     (if bs = [] \<or> length bs > 8 then None else Some (flags_from_raw (or_bytes 0 bs 0)))"

section \<open>Packet identity\<close>

definition PACKET_ID_LEN :: nat where
  "PACKET_ID_LEN = 16"

definition packet_id :: "(bytes \<Rightarrow> bytes) \<Rightarrow> packet \<Rightarrow> bytes" where
  "packet_id sha256 p =
     take PACKET_ID_LEN
       (sha256 ([p_msg_type p] @ p_sender_id p @ be64 (p_timestamp p) @ p_payload p))"

section \<open>Lemmas\<close>

lemma known_mask_value: "known_mask = 0x7FF"
  by (simp add: known_mask_def type_bits_def MAPPED_TYPES_def)

lemma bit_index_less: "bit_index t = Some b \<Longrightarrow> b < 11"
  by (cases t) auto

lemma flags_contains_bit: "flags_contains f t \<longleftrightarrow> (\<exists>b. bit_index t = Some b \<and> bit f b)"
proof -
  have "f AND push_bit b 1 \<noteq> 0 \<longleftrightarrow> bit f b" for b
    by (simp add: bit_iff_and_push_bit_not_eq_0)
  then show ?thesis by (auto simp: flags_contains_def dest: bit_index_less split: option.splits)
qed

lemma type_bits_bit:
  "n < 64 \<Longrightarrow> bit (type_bits ts) n \<longleftrightarrow> (\<exists>t \<in> set ts. bit_index t = Some n)"
proof -
  assume n: "n < 64"
  have "bit (fold (\<lambda>t raw. case bit_index t of Some b \<Rightarrow> raw OR push_bit b 1 | None \<Rightarrow> raw) ts f) n \<longleftrightarrow>
      bit f n \<or> (\<exists>t \<in> set ts. bit_index t = Some n)" for f :: u64
  proof (induction ts arbitrary: f)
    case (Cons t ts)
    show ?case
    proof (cases "bit_index t")
      case (Some b)
      then show ?thesis using n by (auto simp: Cons bit_simps)
    qed (simp add: Cons)
  qed simp
  from this [of 0] show ?thesis by (simp add: type_bits_def)
qed

lemma bit_index_inject: "bit_index s = Some b \<Longrightarrow> bit_index t = Some b \<Longrightarrow> s = t"
  by (cases s; cases t) auto

lemma bit_known_mask: "bit_index t = Some b \<Longrightarrow> bit known_mask b"
proof -
  assume t: "bit_index t = Some b"
  then have "b < 64" using bit_index_less [OF t] by simp
  moreover have "t \<in> set MAPPED_TYPES" using t by (cases t) (simp_all add: MAPPED_TYPES_def)
  ultimately show ?thesis using t by (auto simp: known_mask_def type_bits_bit)
qed

lemma flags_contains_from_types:
  "flags_contains (flags_from_types ts) t \<longleftrightarrow> t \<in> set ts \<and> bit_index t \<noteq> None"
proof (cases "bit_index t")
  case (Some b)
  have b: "b < 64" using bit_index_less [OF Some] by simp
  have "bit (type_bits ts) b \<longleftrightarrow> t \<in> set ts"
    unfolding type_bits_bit [OF b] using Some bit_index_inject [OF _ Some] by blast
  then show ?thesis
    using Some bit_known_mask [OF Some]
    by (simp add: flags_contains_bit flags_from_types_def flags_from_raw_def bit_and_iff)
qed (simp add: flags_contains_def)

lemma pop_zeros_le: "le_to_nat (pop_zeros bs) = le_to_nat bs"
  by (induction bs) (auto simp: Let_def)

lemma pop_zeros_length: "length (pop_zeros bs) \<le> length bs"
  by (induction bs) (auto simp: Let_def)

lemma le_to_nat_pos: "0 < le_to_nat bs \<Longrightarrow> pop_zeros bs \<noteq> []"
  by (metis pop_zeros_le le_to_nat.simps(1) less_irrefl)

lemma flags_from_to_bytes:
  assumes "f \<noteq> 0" and "flags_from_raw f = f"
  shows "\<exists>bs. flags_to_bytes f = Some bs \<and> bs \<noteq> [] \<and> length bs \<le> 8 \<and> flags_from_bytes bs = Some f"
proof -
  let ?bs = "pop_zeros (nat_to_le 8 (unat f))"
  have "unat f < 256 ^ 8" using unsigned_less [of f, where ?'a = nat] by simp
  then have le: "le_to_nat ?bs = unat f" by (simp add: pop_zeros_le le_to_nat_nat_to_le_mod)
  have pos: "0 < unat f" using assms(1) unat_gt_0 by blast
  have "?bs \<noteq> []" using le pos by auto
  moreover have "length ?bs \<le> 8" using pop_zeros_length [of "nat_to_le 8 (unat f)"] by simp
  moreover have "or_bytes 0 ?bs 0 = f" by (simp add: or_bytes_le le)
  ultimately show ?thesis using assms by (simp add: flags_to_bytes_def flags_from_bytes_def)
qed

lemma flags_from_raw_idem [simp]: "flags_from_raw (flags_from_raw f) = flags_from_raw f"
  by (simp add: flags_from_raw_def and.assoc)

section \<open>Properties\<close>

text \<open>
  The set of types survives the wire: for any list of message types, the receiver of
  the encoded flags covers exactly the listed types that sync carries; an empty set has no
  encoding.
\<close>

theorem type_flags_roundtrip:
  "case flags_to_bytes (flags_from_types ts) of
     None \<Rightarrow> \<forall>t \<in> set ts. bit_index t = None
   | Some bs \<Rightarrow> \<exists>f. flags_from_bytes bs = Some f
       \<and> (\<forall>t. flags_contains f t \<longleftrightarrow> t \<in> set ts \<and> bit_index t \<noteq> None)"
proof (cases "flags_from_types ts = 0")
  case True
  then have "flags_to_bytes (flags_from_types ts) = None" by (simp add: flags_to_bytes_def)
  moreover have "bit_index t = None" if "t \<in> set ts" for t
    using flags_contains_from_types [of ts t] True that
    by (cases "bit_index t") (simp_all add: flags_contains_def)
  ultimately show ?thesis by simp
next
  case False
  have "flags_from_raw (flags_from_types ts) = flags_from_types ts" by (simp add: flags_from_types_def)
  from flags_from_to_bytes [OF False this] flags_contains_from_types show ?thesis by auto
qed

theorem type_flags_roundtrip_witness:
  "flags_to_bytes (flags_from_types [Ping]) = None \<and>
   (\<exists>bs f. flags_to_bytes (flags_from_types [GroupMessage]) = Some bs \<and> flags_from_bytes bs = Some f
     \<and> flags_contains f GroupMessage)"
proof (cases "flags_to_bytes (flags_from_types [GroupMessage])")
  case None
  then show ?thesis using type_flags_roundtrip [of "[GroupMessage]"] by simp
next
  case (Some bs)
  then obtain f where "flags_from_bytes bs = Some f" "flags_contains f GroupMessage"
    using type_flags_roundtrip [of "[GroupMessage]"] by auto
  moreover have "flags_to_bytes (flags_from_types [Ping]) = None"
    by (simp add: flags_to_bytes_def flags_from_types_def flags_from_raw_def type_bits_def)
  ultimately show ?thesis using Some by blast
qed

end
