(* ===== verification/Sync_Request.thy ===== *)
theory Sync_Request
  imports Type_Flags Gcs Tlv Text
begin

text \<open>
  The REQUEST_SYNC payload (sync/request.rs): its TLV codec, the filter of fragment
  streams and the default type set.  \<open>p\<close> and \<open>m\<close> are naturals below \<open>2 ^ 32\<close>, as in
  the filter they parametrise.
\<close>

definition MAX_ACCEPT_BYTES :: nat where "MAX_ACCEPT_BYTES = 1024"
definition MAX_FRAGMENT_ID_FILTER_COUNT :: nat where "MAX_FRAGMENT_ID_FILTER_COUNT = 60"

abbreviation (input) TAG_P :: byte where "TAG_P \<equiv> 0x01"
abbreviation (input) TAG_M :: byte where "TAG_M \<equiv> 0x02"
abbreviation (input) TAG_DATA :: byte where "TAG_DATA \<equiv> 0x03"
abbreviation (input) TAG_TYPES :: byte where "TAG_TYPES \<equiv> 0x04"
abbreviation (input) TAG_SINCE :: byte where "TAG_SINCE \<equiv> 0x05"
abbreviation (input) TAG_FRAGMENT_FILTER :: byte where "TAG_FRAGMENT_FILTER \<equiv> 0x06"

record request =
  rq_p :: nat
  rq_m :: nat
  rq_data :: bytes
  rq_types :: "u64 option"
  rq_since :: "u64 option"
  rq_filter :: "text_bytes option"

section \<open>The filter of fragment streams\<close>

definition encode_fragment_id_filter :: "bytes list \<Rightarrow> text_bytes option" where
  "encode_fragment_id_filter ids =
     (if ids = [] then None
      else Some (join_with [44] (map hex_encode (take MAX_FRAGMENT_ID_FILTER_COUNT ids))))"

text \<open>One token: 16 characters of hexadecimal, not seen before.\<close>

definition filter_token :: "text_bytes \<Rightarrow> bytes list \<Rightarrow> bytes list" where
  "filter_token token ids =
     (if length token \<noteq> 16 then ids
      else case hex_decode token of
        None \<Rightarrow> ids
      | Some i \<Rightarrow> if length i \<noteq> 8 then ids else if i \<in> set ids then ids else ids @ [i])"

definition decode_fragment_id_filter :: "text_bytes option \<Rightarrow> bytes list option" where
  "decode_fragment_id_filter flt =
     (case flt of
        None \<Rightarrow> None
      | Some s \<Rightarrow>
          let ids = fold filter_token (take MAX_FRAGMENT_ID_FILTER_COUNT (split_on 44 s)) []
          in if ids = [] then None else Some ids)"

section \<open>Encoding\<close>

definition request_encode :: "request \<Rightarrow> bytes" where
  "request_encode r =
     push_tlv2 TAG_P [of_nat (rq_p r mod 256)]
     @ push_tlv2 TAG_M (be32 (rq_m r))
     @ push_tlv2 TAG_DATA (rq_data r)
     @ (case Option.bind (rq_types r) flags_to_bytes of Some v \<Rightarrow> push_tlv2 TAG_TYPES v | None \<Rightarrow> [])
     @ (case rq_since r of Some since \<Rightarrow> push_tlv2 TAG_SINCE (be64 since) | None \<Rightarrow> [])
     @ (case rq_filter r of Some s \<Rightarrow> push_tlv2 TAG_FRAGMENT_FILTER s | None \<Rightarrow> [])"

section \<open>Decoding\<close>

record request_draft =
  dr_p :: "nat option"
  dr_m :: "nat option"
  dr_data :: "bytes option"
  dr_types :: "u64 option"
  dr_since :: "u64 option"
  dr_filter :: "text_bytes option"

definition request_empty :: request_draft where
  "request_empty = \<lparr>dr_p = None, dr_m = None, dr_data = None, dr_types = None, dr_since = None, dr_filter = None\<rparr>"

definition request_field :: "nat \<Rightarrow> byte \<Rightarrow> bytes \<Rightarrow> request_draft \<Rightarrow> request_draft option" where
  "request_field max_accept_bytes t v d =
     (if t = TAG_P \<and> length v = 1 then Some (d\<lparr>dr_p := Some (unat (hd v))\<rparr>)
      else if t = TAG_M \<and> length v = 4 then Some (d\<lparr>dr_m := Some (be_to_nat v)\<rparr>)
      else if t = TAG_DATA then
        (if length v > max_accept_bytes then None else Some (d\<lparr>dr_data := Some v\<rparr>))
      else if t = TAG_TYPES then
        (case flags_from_bytes v of Some f \<Rightarrow> Some (d\<lparr>dr_types := Some f\<rparr>) | None \<Rightarrow> Some d)
      else if t = TAG_SINCE \<and> length v = 8 then Some (d\<lparr>dr_since := Some (u64_of_be v)\<rparr>)
      else if t = TAG_FRAGMENT_FILTER \<and> length v \<le> max_accept_bytes then
        (case from_utf8 v of Some s \<Rightarrow> Some (d\<lparr>dr_filter := Some s\<rparr>) | None \<Rightarrow> Some d)
      else Some d)"

definition decode_with_cap :: "nat \<Rightarrow> bytes \<Rightarrow> request option" where
  "decode_with_cap max_accept_bytes data = do {
     d \<leftarrow> tlv2_lenient (request_field max_accept_bytes) data request_empty;
     p \<leftarrow> dr_p d;
     m \<leftarrow> dr_m d;
     payload \<leftarrow> dr_data d;
     if \<not> (1 \<le> p \<and> p \<le> MAX_P) \<or> m = 0 then None
     else Some \<lparr>rq_p = p, rq_m = m, rq_data = payload, rq_types = dr_types d,
                rq_since = dr_since d, rq_filter = dr_filter d\<rparr>
   }"

definition request_decode :: "bytes \<Rightarrow> request option" where
  "request_decode = decode_with_cap MAX_ACCEPT_BYTES"

definition requested_types :: "request \<Rightarrow> u64" where
  "requested_types r = (case rq_types r of Some f \<Rightarrow> f | None \<Rightarrow> public_messages)"

section \<open>Facts\<close>

text \<open>What a requester may build: the parameters of a real filter within the limits.\<close>

definition wf_request :: "request \<Rightarrow> bool" where
  "wf_request r \<longleftrightarrow>
     1 \<le> rq_p r \<and> rq_p r \<le> MAX_P \<and> 0 < rq_m r \<and> rq_m r < 2 ^ 32
     \<and> length (rq_data r) \<le> MAX_ACCEPT_BYTES
     \<and> (case rq_types r of None \<Rightarrow> True | Some f \<Rightarrow> flags_from_raw f = f)
     \<and> (case rq_filter r of None \<Rightarrow> True | Some s \<Rightarrow> utf8_valid s \<and> length s \<le> MAX_ACCEPT_BYTES)"

text \<open>What arrives: an empty set of types has no encoding.\<close>

definition on_the_wire :: "request \<Rightarrow> request" where
  "on_the_wire r = (if rq_types r = Some 0 then r\<lparr>rq_types := None\<rparr> else r)"

lemma request_skip:
  assumes "6 < t" shows "request_field cap t v d = Some d"
proof -
  have "t \<noteq> 1" "t \<noteq> 2" "t \<noteq> 3" "t \<noteq> 4" "t \<noteq> 5" "t \<noteq> 6" using assms by auto
  then show ?thesis by (simp add: request_field_def)
qed

lemma request_loop_types:
  assumes "case fl of None \<Rightarrow> True | Some f \<Rightarrow> flags_from_raw f = f" and "dr_types d = None"
  shows "tlv2_lenient (request_field cap)
     ((case Option.bind fl flags_to_bytes of Some v \<Rightarrow> push_tlv2 TAG_TYPES v | None \<Rightarrow> []) @ rest) d =
    tlv2_lenient (request_field cap) rest (d\<lparr>dr_types := (if fl = Some 0 then None else fl)\<rparr>)"
proof (cases "fl = None \<or> fl = Some 0")
  case True
  then show ?thesis using assms(2) by (cases d) (auto simp: flags_to_bytes_def)
next
  case False
  then obtain f where f: "fl = Some f" "f \<noteq> 0" by auto
  then have "flags_from_raw f = f" using assms(1) by simp
  from flags_from_to_bytes [OF f(2) this] obtain bs
    where "flags_to_bytes f = Some bs" "length bs \<le> 8" "flags_from_bytes bs = Some f" by auto
  then show ?thesis using f by (simp add: tlv2l.loop_put request_field_def)
qed

lemma request_loop_since:
  "dr_since d = None \<Longrightarrow>
   tlv2_lenient (request_field cap)
     ((case x of Some since \<Rightarrow> push_tlv2 TAG_SINCE (be64 since) | None \<Rightarrow> []) @ rest) d =
   tlv2_lenient (request_field cap) rest (d\<lparr>dr_since := x\<rparr>)"
  by (cases d) (simp add: tlv2l.loop_put request_field_def split: option.splits)

lemma request_loop_filter:
  "dr_filter d = None \<Longrightarrow> cap \<le> 65535 \<Longrightarrow> case x of None \<Rightarrow> True | Some s \<Rightarrow> utf8_valid s \<and> length s \<le> cap \<Longrightarrow>
   tlv2_lenient (request_field cap)
     ((case x of Some s \<Rightarrow> push_tlv2 TAG_FRAGMENT_FILTER s | None \<Rightarrow> []) @ rest) d =
   tlv2_lenient (request_field cap) rest (d\<lparr>dr_filter := x\<rparr>)"
  by (cases d) (simp add: tlv2l.loop_put request_field_def from_utf8_def split: option.splits)

lemma request_decode_encode_with:
  assumes "wf_request r" and "list_all (\<lambda>(t, v). 6 < t \<and> length v \<le> 65535) extra"
  shows "request_decode (request_encode r @ concat (map (\<lambda>(t, v). push_tlv2 t v) extra)) = Some (on_the_wire r)"
proof -
  let ?loop = "tlv2_lenient (request_field 1024)"
  have flt: "case rq_filter r of None \<Rightarrow> True | Some s \<Rightarrow> utf8_valid s \<and> length s \<le> 1024"
    using assms(1) unfolding wf_request_def MAX_ACCEPT_BYTES_def by simp
  have tail: "?loop (concat (map (\<lambda>(t, v). push_tlv2 t v) extra)) d = Some d" for d
  proof -
    have "fold_opt (\<lambda>(t, v). request_field 1024 t v) extra d = Some d"
      using assms(2) by (induction extra arbitrary: d) (auto simp: request_skip)
    then show ?thesis using assms(2) by (subst tlv2l.loop_records_end) (auto simp: list_all_iff)
  qed
  have p: "rq_p r \<le> 32" "1 \<le> rq_p r" and m: "rq_m r < 4294967296" "0 < rq_m r"
    and "length (rq_data r) \<le> 1024"
    using assms(1) by (simp_all add: wf_request_def MAX_P_def MAX_ACCEPT_BYTES_def)
  moreover from p have "unat (of_nat (rq_p r) :: byte) = rq_p r" by (simp add: unat_of_nat_byte_less)
  moreover from m have "be_to_nat (be32 (rq_m r)) = rq_m r" by (simp add: be32_def)
  moreover have "length (be32 (rq_m r)) = 4" by (simp add: be32_def)
  ultimately have "?loop (request_encode r @ concat (map (\<lambda>(t, v). push_tlv2 t v) extra)) request_empty
      = Some \<lparr>dr_p = Some (rq_p r), dr_m = Some (rq_m r), dr_data = Some (rq_data r),
          dr_types = (if rq_types r = Some 0 then None else rq_types r), dr_since = rq_since r,
          dr_filter = rq_filter r\<rparr>"
    using assms(1)
    by (simp add: request_encode_def tlv2l.loop_put request_field_def request_empty_def
        request_loop_types request_loop_since request_loop_filter [OF _ _ flt] wf_request_def tail)
  then show ?thesis using p m
    by (cases r) (simp add: request_decode_def decode_with_cap_def MAX_ACCEPT_BYTES_def on_the_wire_def MAX_P_def)
qed

lemma filter_tokens:
  "\<forall>i \<in> set ids. length i = 8 \<Longrightarrow> distinct acc \<Longrightarrow>
   set (fold filter_token (map hex_encode ids) acc) = set acc \<union> set ids
   \<and> distinct (fold filter_token (map hex_encode ids) acc)"
  by (induction ids arbitrary: acc) (auto simp: filter_token_def)

lemma no_comma: "44 \<notin> set (hex_encode bs)"
proof
  assume "44 \<in> set (hex_encode bs)"
  then obtain n where "n < 16" "hex_digit n = 44"
    by (induction bs) (auto simp: unat_nibbles(1) unat_nibbles(2) intro: unat_nibbles)
  then have "unat (hex_digit n) = 44" by simp
  with \<open>n < 16\<close> show False by (auto simp: hex_digit_def unat_of_nat split: if_splits simp del: of_nat_add)
qed

lemma fragment_filter_decoded:
  assumes "ids \<noteq> []" and "\<forall>i \<in> set ids. length i = 8"
  shows "\<exists>back. decode_fragment_id_filter (encode_fragment_id_filter ids) = Some back
    \<and> distinct back \<and> set back = set (take 60 ids)"
proof -
  let ?ids = "take 60 ids"
  have "\<forall>i \<in> set ?ids. length i = 8" using assms(2) by (auto dest: in_set_takeD)
  from filter_tokens [OF this, of "[]"]
  have "distinct (fold filter_token (map hex_encode ?ids) [])"
    and set: "set (fold filter_token (map hex_encode ?ids) []) = set ?ids" by simp_all
  moreover have "split_on 44 (join_with [44] (map hex_encode ?ids)) = map hex_encode ?ids"
    using assms(1) by (intro split_on_join) (auto simp: no_comma)
  moreover have "fold filter_token (map hex_encode ?ids) [] \<noteq> []"
  proof
    assume "fold filter_token (map hex_encode ?ids) [] = []"
    with set have "set ?ids = {}" by simp
    with assms(1) show False by simp
  qed
  ultimately show ?thesis using assms(1)
    by (simp add: decode_fragment_id_filter_def encode_fragment_id_filter_def
        MAX_FRAGMENT_ID_FILTER_COUNT_def take_map Let_def)
qed

section \<open>Properties\<close>

text \<open>
  A sync request arrives as it was meant: filter, parameters, cursor and stream
  filter come back unchanged even when fields this client does not know follow, and so
  does the type set, with one exception the encoding forces: a request for no type at all
  arrives as the default, public messages.
\<close>

theorem request_roundtrip:
  assumes "wf_request r" and "list_all (\<lambda>(t, v). 6 < t \<and> length v \<le> 65535) extra"
  shows "request_decode (request_encode r @ concat (map (\<lambda>(t, v). push_tlv2 t v) extra)) = Some (on_the_wire r)
    \<and> requested_types (on_the_wire r) =
          (if rq_types r = Some 0 then public_messages else requested_types r)"
  using request_decode_encode_with [OF assms] by (simp add: on_the_wire_def requested_types_def)

definition sample_request :: request where
  "sample_request = \<lparr>rq_p = 7, rq_m = 1280, rq_data = [0x5A, 0x01], rq_types = Some 0x21,
     rq_since = Some 1000, rq_filter = Some (hex_encode [1, 2, 3, 4, 5, 6, 7, 8])\<rparr>"

theorem request_roundtrip_witness:
  "request_decode (request_encode sample_request @ push_tlv2 9 [1, 2]) = Some sample_request"
proof -
  have "wf_request sample_request"
    by (simp add: wf_request_def sample_request_def MAX_P_def MAX_ACCEPT_BYTES_def flags_from_raw_def known_mask_value
        del: hex_encode.simps)
  from request_roundtrip [OF this, of "[(9, [1, 2])]"] show ?thesis
    by (simp add: on_the_wire_def sample_request_def)
qed

text \<open>
  A filter of stalled fragment streams names the same streams at the responder, each
  once, up to the sixty that fit a request.
\<close>

theorem fragment_filter_roundtrip:
  assumes "ids \<noteq> []" and "\<forall>i \<in> set ids. length i = 8"
  shows "\<exists>s back. encode_fragment_id_filter ids = Some s \<and> length s \<le> MAX_ACCEPT_BYTES
    \<and> decode_fragment_id_filter (Some s) = Some back \<and> distinct back \<and> set back = set (take 60 ids)"
proof -
  have le: "length (join_with [44] (map hex_encode xs)) \<le> 17 * length xs" if "\<forall>i \<in> set xs. length i = 8" for xs
    using that
  proof (induction xs)
    case (Cons x xs)
    then show ?case by (cases xs) simp_all
  qed simp
  have "\<forall>i \<in> set (take 60 ids). length i = 8" using assms(2) by (auto dest: in_set_takeD)
  from le [OF this] have "length (join_with [44] (map hex_encode (take 60 ids))) \<le> 1024" by simp
  with fragment_filter_decoded [OF assms] assms(1) show ?thesis
    by (simp add: encode_fragment_id_filter_def MAX_FRAGMENT_ID_FILTER_COUNT_def MAX_ACCEPT_BYTES_def)
qed

theorem fragment_filter_roundtrip_witness:
  "\<exists>s back. encode_fragment_id_filter [[1, 2, 3, 4, 5, 6, 7, 8], [0, 0, 0, 0, 0, 0, 0, 9]] = Some s
    \<and> decode_fragment_id_filter (Some s) = Some back
    \<and> set back = {[1, 2, 3, 4, 5, 6, 7, 8], [0, 0, 0, 0, 0, 0, 0, 9]}"
  using fragment_filter_roundtrip [of "[[1, 2, 3, 4, 5, 6, 7, 8], [0, 0, 0, 0, 0, 0, 0, 9]]"] by fastforce

end
