(* ===== verification/Archive.thy ===== *)
theory Archive
  imports Type_Flags "HOL-Library.AList" "HOL-Library.List_Lexorder"
begin

text \<open>
  The public history held for the room (sync/archive.rs).  A packet store is a map from
  packet ids to packets with the order of their arrival; the announces are an association
  list keyed by sender.  Times are milliseconds in a \<open>u64\<close>; natural subtraction is the
  code's \<open>saturating_sub\<close>.
\<close>

definition MESSAGE_CAPACITY :: nat where "MESSAGE_CAPACITY = 1000"
definition FRAGMENT_CAPACITY :: nat where "FRAGMENT_CAPACITY = 600"
definition FILE_CAPACITY :: nat where "FILE_CAPACITY = 200"
definition MAX_AGE_MS :: nat where "MAX_AGE_MS = 900 * 1000"
definition ANNOUNCE_RECORD_MAX_AGE_MS :: nat where "ANNOUNCE_RECORD_MAX_AGE_MS = 60 * 1000"

datatype kind = KMessage | KFragment | KFile

fun kind_of :: "message_type \<Rightarrow> kind option" where
  "kind_of Message = Some KMessage"
| "kind_of Fragment = Some KFragment"
| "kind_of FileTransfer = Some KFile"
| "kind_of _ = None"

fun kind_capacity :: "kind \<Rightarrow> nat" where
  "kind_capacity KMessage = MESSAGE_CAPACITY"
| "kind_capacity KFragment = FRAGMENT_CAPACITY"
| "kind_capacity KFile = FILE_CAPACITY"

definition is_fresh :: "packet \<Rightarrow> u64 \<Rightarrow> bool" where
  "is_fresh p now \<longleftrightarrow> unat now - unat (p_timestamp p) \<le> MAX_AGE_MS"

section \<open>The packet store\<close>

record packet_store =
  ps_packets :: "bytes \<rightharpoonup> packet"
  ps_order :: "bytes list"

definition store_empty :: packet_store where
  "store_empty = \<lparr>ps_packets = Map.empty, ps_order = []\<rparr>"

text \<open>\<open>while self.order.len() > capacity\<close>\<close>

fun evict_oldest :: "nat \<Rightarrow> (bytes \<rightharpoonup> packet) \<Rightarrow> bytes list \<Rightarrow> packet_store" where
  "evict_oldest capacity m [] = \<lparr>ps_packets = m, ps_order = []\<rparr>"
| "evict_oldest capacity m (victim # rest) =
     (if length (victim # rest) > capacity then evict_oldest capacity (m(victim := None)) rest
      else \<lparr>ps_packets = m, ps_order = victim # rest\<rparr>)"

definition store_insert :: "bytes \<Rightarrow> packet \<Rightarrow> nat \<Rightarrow> packet_store \<Rightarrow> packet_store" where
  "store_insert i p capacity s =
     (if capacity = 0 then s
      else
        let m = (ps_packets s)(i \<mapsto> p) in
        if ps_packets s i \<noteq> None then s\<lparr>ps_packets := m\<rparr>
        else evict_oldest capacity m (ps_order s @ [i]))"

definition store_fresh :: "u64 \<Rightarrow> packet_store \<Rightarrow> packet list" where
  "store_fresh now s = filter (\<lambda>p. is_fresh p now) (List.map_filter (ps_packets s) (ps_order s))"

fun retain_fresh :: "u64 \<Rightarrow> (bytes \<rightharpoonup> packet) \<Rightarrow> bytes list \<Rightarrow> packet_store" where
  "retain_fresh now m [] = \<lparr>ps_packets = m, ps_order = []\<rparr>"
| "retain_fresh now m (i # is) =
     (if (case m i of Some p \<Rightarrow> is_fresh p now | None \<Rightarrow> False)
      then (let s = retain_fresh now m is in s\<lparr>ps_order := i # ps_order s\<rparr>)
      else retain_fresh now (m(i := None)) is)"

definition store_drop_stale :: "u64 \<Rightarrow> packet_store \<Rightarrow> packet_store" where
  "store_drop_stale now s = retain_fresh now (ps_packets s) (ps_order s)"

section \<open>The archive\<close>

record archive =
  ar_messages :: packet_store
  ar_fragments :: packet_store
  ar_files :: packet_store
  ar_announces :: "(bytes \<times> packet) list"

definition archive_new :: archive where
  "archive_new = \<lparr>ar_messages = store_empty, ar_fragments = store_empty, ar_files = store_empty,
     ar_announces = []\<rparr>"

fun store_of :: "kind \<Rightarrow> archive \<Rightarrow> packet_store" where
  "store_of KMessage a = ar_messages a"
| "store_of KFragment a = ar_fragments a"
| "store_of KFile a = ar_files a"

fun store_mut :: "kind \<Rightarrow> (packet_store \<Rightarrow> packet_store) \<Rightarrow> archive \<Rightarrow> archive" where
  "store_mut KMessage f a = a\<lparr>ar_messages := f (ar_messages a)\<rparr>"
| "store_mut KFragment f a = a\<lparr>ar_fragments := f (ar_fragments a)\<rparr>"
| "store_mut KFile f a = a\<lparr>ar_files := f (ar_files a)\<rparr>"

definition archive_record :: "(bytes \<Rightarrow> bytes) \<Rightarrow> packet \<Rightarrow> u64 \<Rightarrow> archive \<Rightarrow> bool \<times> archive" where
  "archive_record sha256 p now a =
     (if \<not> is_broadcast p then (False, a)
      else case parsed_type p of
        None \<Rightarrow> (False, a)
      | Some t \<Rightarrow>
          if \<not> is_fresh p now then (False, a)
          else if t = Announce then
            (if unat now - unat (p_timestamp p) > ANNOUNCE_RECORD_MAX_AGE_MS
             then (False, a\<lparr>ar_announces := AList.delete (p_sender_id p) (ar_announces a)\<rparr>)
             else (True, a\<lparr>ar_announces := AList.update (p_sender_id p) p (ar_announces a)\<rparr>))
          else case kind_of t of
            None \<Rightarrow> (False, a)
          | Some k \<Rightarrow> (True, store_mut k (store_insert (packet_id sha256 p) p (kind_capacity k)) a))"

definition archive_fresh :: "kind \<Rightarrow> u64 \<Rightarrow> archive \<Rightarrow> packet list" where
  "archive_fresh k now a = store_fresh now (store_of k a)"

definition fresh_announces :: "u64 \<Rightarrow> archive \<Rightarrow> packet list" where
  "fresh_announces now a =
     sort_key p_sender_id (filter (\<lambda>p. is_fresh p now) (map snd (ar_announces a)))"

definition archive_drop_stale :: "u64 \<Rightarrow> archive \<Rightarrow> archive" where
  "archive_drop_stale now a =
     \<lparr>ar_messages = store_drop_stale now (ar_messages a),
      ar_fragments = store_drop_stale now (ar_fragments a),
      ar_files = store_drop_stale now (ar_files a),
      ar_announces = filter (\<lambda>(_, p). is_fresh p now) (ar_announces a)\<rparr>"

definition forget_peer :: "bytes \<Rightarrow> archive \<Rightarrow> archive" where
  "forget_peer sender a = a\<lparr>ar_announces := AList.delete sender (ar_announces a)\<rparr>"

definition archive_clear :: "archive \<Rightarrow> archive" where
  "archive_clear a = \<lparr>ar_messages = store_empty, ar_fragments = store_empty, ar_files = store_empty,
     ar_announces = []\<rparr>"

section \<open>The store's contract\<close>

text \<open>
  What the archive relies on: ids are listed once and are exactly the keys of the map,
  there are at most \<open>cap\<close> of them, and every packet satisfies \<open>P\<close> with its id.
\<close>

definition store_ok :: "nat \<Rightarrow> (bytes \<Rightarrow> packet \<Rightarrow> bool) \<Rightarrow> packet_store \<Rightarrow> bool" where
  "store_ok cap P s \<longleftrightarrow>
     distinct (ps_order s) \<and> dom (ps_packets s) = set (ps_order s) \<and> length (ps_order s) \<le> cap
     \<and> (\<forall>i p. ps_packets s i = Some p \<longrightarrow> P i p)"

lemma store_okI:
  "distinct (ps_order s) \<Longrightarrow> dom (ps_packets s) = set (ps_order s) \<Longrightarrow> length (ps_order s) \<le> cap
   \<Longrightarrow> (\<And>i p. ps_packets s i = Some p \<Longrightarrow> P i p) \<Longrightarrow> store_ok cap P s"
  by (simp add: store_ok_def)

lemma evict_ok:
  "distinct is \<Longrightarrow> dom m = set is \<Longrightarrow> \<forall>i p. m i = Some p \<longrightarrow> P i p \<Longrightarrow>
   store_ok cap P (evict_oldest cap m is)"
proof (induction cap m "is" rule: evict_oldest.induct)
  case (2 cap m v r)
  show ?case
  proof (cases "length (v # r) > cap")
    case True
    have "dom (m(v := None)) = set r" using 2(2,3) by auto
    moreover have "\<forall>i p. (m(v := None)) i = Some p \<longrightarrow> P i p" using 2(4) by simp
    ultimately have "store_ok cap P (evict_oldest cap (m(v := None)) r)"
      using 2(2) by (intro 2(1) [OF True]) (simp_all add: fun_upd_def)
    then show ?thesis using True by simp
  qed (use 2 in \<open>auto simp: store_ok_def\<close>)
qed (simp add: store_ok_def)

lemma evict_id: "length is \<le> cap \<Longrightarrow> evict_oldest cap m is = \<lparr>ps_packets = m, ps_order = is\<rparr>"
  by (cases "is") auto

lemma evict_sub: "ps_packets (evict_oldest cap m is) i = Some p \<Longrightarrow> m i = Some p"
  by (induction cap m "is" rule: evict_oldest.induct) (auto split: if_splits)

lemma store_insert_ok:
  assumes "store_ok cap P s" and "P i p"
  shows "store_ok cap P (store_insert i p cap s)"
proof (cases "cap = 0 \<or> ps_packets s i \<noteq> None")
  case True
  then show ?thesis
  proof
    assume "ps_packets s i \<noteq> None"
    moreover from this have "insert i (set (ps_order s)) = set (ps_order s)"
      using assms(1) by (auto simp: store_ok_def)
    ultimately show ?thesis
      using assms by (auto simp: store_insert_def Let_def store_ok_def dom_fun_upd split: if_split_asm)
  qed (use assms in \<open>simp add: store_insert_def\<close>)
next
  case False
  moreover have "i \<in> set (ps_order s) \<longleftrightarrow> i \<in> dom (ps_packets s)" using assms(1) by (simp add: store_ok_def)
  ultimately have "i \<notin> set (ps_order s)" by auto
  moreover from this have "dom ((ps_packets s)(i \<mapsto> p)) = set (ps_order s @ [i])"
    using assms(1) by (auto simp: store_ok_def)
  moreover have "\<forall>j q. ((ps_packets s)(i \<mapsto> p)) j = Some q \<longrightarrow> P j q"
    using assms by (simp add: store_ok_def)
  moreover have "distinct (ps_order s)" using assms(1) by (simp add: store_ok_def)
  ultimately show ?thesis
    using False evict_ok [of "ps_order s @ [i]" "(ps_packets s)(i \<mapsto> p)" P cap]
    by (simp add: store_insert_def Let_def)
qed

lemma store_insert_sub:
  "ps_packets (store_insert i p cap s) j = Some q \<Longrightarrow> q = p \<and> j = i \<or> ps_packets s j = Some q"
  by (auto simp: store_insert_def Let_def split: if_splits dest!: evict_sub)

lemma retain_facts:
  "distinct is \<Longrightarrow> dom m = set is \<union> D \<Longrightarrow> set is \<inter> D = {} \<Longrightarrow>
   (let s = retain_fresh now m is in
    ps_order s = filter (\<lambda>i. case m i of Some p \<Rightarrow> is_fresh p now | None \<Rightarrow> False) is
    \<and> ps_packets s = (\<lambda>i. if i \<in> set is \<and> \<not> (case m i of Some p \<Rightarrow> is_fresh p now | None \<Rightarrow> False)
                        then None else m i))"
proof (induction now m "is" arbitrary: D rule: retain_fresh.induct)
  case (2 now m i r)
  let ?f = "case m i of Some p \<Rightarrow> is_fresh p now | None \<Rightarrow> False"
  show ?case
  proof (cases ?f)
    case True
    have "dom m = set r \<union> insert i D" "set r \<inter> insert i D = {}" using 2 by auto
    with 2(1) [OF True, of "insert i D"] 2(3) True show ?thesis
      by (auto simp: Let_def fun_eq_iff)
  next
    case False
    have "dom (m(i := None)) = set r \<union> D" "set r \<inter> D = {}" using 2 by auto
    moreover have "(case (m(i := None)) j of Some p \<Rightarrow> is_fresh p now | None \<Rightarrow> False)
        \<longleftrightarrow> (case m j of Some p \<Rightarrow> is_fresh p now | None \<Rightarrow> False)" if "j \<in> set r" for j
      using 2(3) that by auto
    ultimately show ?thesis
      using 2(2) [OF False, of D] 2(3) False
      by (auto simp: Let_def fun_eq_iff simp del: fun_upd_apply cong: filter_cong) (auto split: if_splits)
  qed
qed simp

lemma drop_stale_ok:
  assumes "store_ok cap P s"
  shows "store_ok cap P (store_drop_stale now s)"
    and "ps_packets (store_drop_stale now s) i = Some p \<longleftrightarrow> ps_packets s i = Some p \<and> is_fresh p now"
proof -
  have s: "distinct (ps_order s)" "dom (ps_packets s) = set (ps_order s)" "length (ps_order s) \<le> cap"
    "\<forall>i p. ps_packets s i = Some p \<longrightarrow> P i p"
    using assms by (simp_all add: store_ok_def)
  from s(1,2) have "dom (ps_packets s) = set (ps_order s) \<union> {}" by simp
  from retain_facts [OF s(1) this, of now]
  have o: "ps_order (store_drop_stale now s)
      = filter (\<lambda>i. case ps_packets s i of Some p \<Rightarrow> is_fresh p now | None \<Rightarrow> False) (ps_order s)"
    and m: "\<And>i. ps_packets (store_drop_stale now s) i
      = (if i \<in> set (ps_order s) \<and> \<not> (case ps_packets s i of Some p \<Rightarrow> is_fresh p now | None \<Rightarrow> False)
         then None else ps_packets s i)"
    by (simp_all add: store_drop_stale_def Let_def)
  have d: "i \<in> set (ps_order s) \<longleftrightarrow> ps_packets s i \<noteq> None" for i using s(2) by auto
  show i: "ps_packets (store_drop_stale now s) i = Some p \<longleftrightarrow> ps_packets s i = Some p \<and> is_fresh p now" for i p
    by (auto simp: m d split: option.splits)
  show "store_ok cap P (store_drop_stale now s)"
  proof (rule store_okI)
    show "dom (ps_packets (store_drop_stale now s)) = set (ps_order (store_drop_stale now s))"
      by (auto simp: i o d dom_def split: option.splits)
    show "length (ps_order (store_drop_stale now s)) \<le> cap"
      using s(3) unfolding o by (rule le_trans [OF length_filter_le])
  qed (use s in \<open>auto simp: i o\<close>)
qed

lemma store_empty_ok [simp]: "store_ok cap P store_empty"
  by (simp add: store_ok_def store_empty_def)

lemma store_fresh_iff:
  assumes "store_ok cap P s"
  shows "p \<in> set (store_fresh now s) \<longleftrightarrow> (\<exists>i. ps_packets s i = Some p) \<and> is_fresh p now"
proof -
  have "i \<in> set (ps_order s) \<longleftrightarrow> ps_packets s i \<noteq> None" for i
    using assms unfolding store_ok_def by blast
  then show ?thesis
    by (auto simp: store_fresh_def List.map_filter_def image_iff intro!: exI) (metis option.sel)
qed

section \<open>Histories\<close>

datatype archive_op =
    RecordPacket packet u64
  | DropStale u64
  | ForgetPeer bytes
  | ClearArchive

fun archive_step :: "(bytes \<Rightarrow> bytes) \<Rightarrow> archive_op \<Rightarrow> archive \<Rightarrow> archive" where
  "archive_step sha256 (RecordPacket p now) a = snd (archive_record sha256 p now a)"
| "archive_step sha256 (DropStale now) a = archive_drop_stale now a"
| "archive_step sha256 (ForgetPeer sender) a = forget_peer sender a"
| "archive_step sha256 ClearArchive a = archive_clear a"

definition archive_run :: "(bytes \<Rightarrow> bytes) \<Rightarrow> archive_op list \<Rightarrow> archive" where
  "archive_run sha256 ops = fold (archive_step sha256) ops archive_new"

text \<open>
  The invariant: every store satisfies its contract, every packet is one of the set
  \<open>known\<close>, broadcast, filed under its id and its kind, and each announce under its sender.
\<close>

definition filed :: "(bytes \<Rightarrow> bytes) \<Rightarrow> packet set \<Rightarrow> kind \<Rightarrow> bytes \<Rightarrow> packet \<Rightarrow> bool" where
  "filed sha256 known k i p \<longleftrightarrow>
     p \<in> known \<and> is_broadcast p \<and> i = packet_id sha256 p \<and> Option.bind (parsed_type p) kind_of = Some k"

definition archive_ok :: "(bytes \<Rightarrow> bytes) \<Rightarrow> packet set \<Rightarrow> archive \<Rightarrow> bool" where
  "archive_ok sha256 known a \<longleftrightarrow>
     (\<forall>k. store_ok (kind_capacity k) (filed sha256 known k) (store_of k a))
     \<and> distinct (map fst (ar_announces a))
     \<and> (\<forall>(s, p) \<in> set (ar_announces a).
          p \<in> known \<and> is_broadcast p \<and> s = p_sender_id p \<and> parsed_type p = Some Announce)"

lemma store_of_mut [simp]:
  "store_of k (store_mut j f a) = (if k = j then f (store_of k a) else store_of k a)"
  "ar_announces (store_mut j f a) = ar_announces a"
  by (cases j; cases k; simp)+

lemma store_of_announces [simp]: "store_of k (a\<lparr>ar_announces := x\<rparr>) = store_of k a"
  by (cases k) simp_all

lemma store_of_drop [simp]: "store_of k (archive_drop_stale now a) = store_drop_stale now (store_of k a)"
  by (cases k) (simp_all add: archive_drop_stale_def)

lemma store_of_empty [simp]:
  "store_of k archive_new = store_empty" "store_of k (archive_clear a) = store_empty"
  by (cases k; simp add: archive_new_def archive_clear_def)+

lemma announces_facts [simp]:
  "ar_announces archive_new = []" "ar_announces (archive_clear a) = []"
  "ar_announces (archive_drop_stale now a) = filter (\<lambda>(_, p). is_fresh p now) (ar_announces a)"
  by (simp_all add: archive_new_def archive_clear_def archive_drop_stale_def)

lemma archive_ok_mono:
  "archive_ok sha256 K a \<Longrightarrow> K \<subseteq> L \<Longrightarrow> archive_ok sha256 L a"
  by (auto simp: archive_ok_def store_ok_def filed_def)

lemma archive_new_ok: "archive_ok sha256 K archive_new"
  by (simp add: archive_ok_def)

lemma set_AList_update: "set (AList.update k v xs) \<subseteq> insert (k, v) (set xs)"
  by (induction xs) auto

lemma set_AList_delete: "set (AList.delete k xs) \<subseteq> set xs"
  by (auto simp: AList.delete_eq)

lemma archive_ok_delete:
  "archive_ok sha256 K a \<Longrightarrow> archive_ok sha256 K (a\<lparr>ar_announces := AList.delete s (ar_announces a)\<rparr>)"
  using set_AList_delete [of s "ar_announces a"]
  by (auto simp: archive_ok_def distinct_delete)

lemma archive_record_ok:
  assumes "archive_ok sha256 K a" and "p \<in> K"
  shows "archive_ok sha256 K (snd (archive_record sha256 p now a))"
proof -
  have put: "archive_ok sha256 K (a\<lparr>ar_announces := AList.update (p_sender_id p) p (ar_announces a)\<rparr>)"
    if "is_broadcast p" "parsed_type p = Some Announce"
    using assms that set_AList_update [of "p_sender_id p" p "ar_announces a"]
    by (auto simp: archive_ok_def distinct_update)
  have store: "archive_ok sha256 K (store_mut k (store_insert (packet_id sha256 p) p (kind_capacity k)) a)"
    if "is_broadcast p" "parsed_type p = Some t" "kind_of t = Some k" for t k
    using assms that by (auto simp: archive_ok_def filed_def intro!: store_insert_ok)
  show ?thesis
    using assms(1) put store archive_ok_delete [OF assms(1)]
    by (simp add: archive_record_def split: option.split)
qed

lemma archive_step_ok:
  assumes "archive_ok sha256 K a" and "\<And>p now. op = RecordPacket p now \<Longrightarrow> p \<in> K"
  shows "archive_ok sha256 K (archive_step sha256 op a)"
proof (cases op)
  case (DropStale now)
  have "distinct (map fst (filter f xs))" if "distinct (map fst xs)" for f and xs :: "(bytes \<times> packet) list"
    using that by (rule distinct_map_filter)
  then show ?thesis using assms(1) DropStale by (auto simp: archive_ok_def drop_stale_ok(1))
qed (use assms archive_record_ok archive_ok_delete in
     \<open>auto simp: forget_peer_def archive_ok_def [of _ _ "archive_clear a"]\<close>)

definition recorded :: "archive_op list \<Rightarrow> packet set" where
  "recorded ops = {p. \<exists>now. RecordPacket p now \<in> set ops}"

lemma archive_run_ok: "archive_ok sha256 (recorded ops) (archive_run sha256 ops)"
proof -
  have "archive_ok sha256 K (fold (archive_step sha256) ops a)"
    if "archive_ok sha256 K a" "recorded ops \<subseteq> K" for K a
    using that
  proof (induction ops arbitrary: a)
    case (Cons op ops)
    have "archive_ok sha256 K (archive_step sha256 op a)"
      using Cons.prems by (intro archive_step_ok) (auto simp: recorded_def)
    moreover have "recorded ops \<subseteq> K" using Cons.prems(2) by (auto simp: recorded_def)
    ultimately show ?case using Cons.IH by simp
  qed simp
  from this [OF archive_new_ok subset_refl] show ?thesis by (simp add: archive_run_def)
qed

lemma fresh_iff:
  assumes "archive_ok sha256 K a" and "p \<in> set (archive_fresh k now a)"
  shows "p \<in> K \<and> is_broadcast p \<and> Option.bind (parsed_type p) kind_of = Some k \<and> is_fresh p now"
proof -
  have "store_ok (kind_capacity k) (filed sha256 K k) (store_of k a)"
    using assms(1) by (simp add: archive_ok_def)
  with assms(2) show ?thesis
    by (auto simp: archive_fresh_def store_fresh_iff) (auto simp: store_ok_def filed_def)
qed

lemma fresh_announces_iff:
  assumes "archive_ok sha256 K a" and "p \<in> set (fresh_announces now a)"
  shows "p \<in> K \<and> is_broadcast p \<and> parsed_type p = Some Announce \<and> is_fresh p now"
  using assms by (auto simp: fresh_announces_def archive_ok_def)

end
