(* ===== verification/Responder.thy ===== *)
theory Responder
  imports Archive Sync_Request Relay
begin

text \<open>
  Answering a sync request from the archive (sync/responder.rs): which packets are missing
  at the requester, the since-cursor, the fragment streams, and the one-hop reply form.
\<close>

text \<open>Half of \<open>LINK_INBOX_DEPTH\<close>, which is 64 in transport.rs.\<close>

definition MAX_REPLIES_PER_ROUND :: nat where
  "MAX_REPLIES_PER_ROUND = 64 div 2"

definition before_cursor :: "packet \<Rightarrow> u64 option \<Rightarrow> bool" where
  "before_cursor p since = (case since of Some s \<Rightarrow> p_timestamp p < s | None \<Rightarrow> False)"

definition as_reply :: "packet \<Rightarrow> packet" where
  "as_reply p = p\<lparr>p_ttl := 0, p_is_rsr := True\<rparr>"

text \<open>Whether a fragment is in the answer, before the filter is asked.\<close>

definition fragment_wanted :: "bytes list option \<Rightarrow> u64 option \<Rightarrow> packet \<Rightarrow> bool" where
  "fragment_wanted wanted since p =
     (case wanted of
        Some streams \<Rightarrow>
          if length (p_payload p) < 8 then False else take 8 (p_payload p) \<in> set streams
      | None \<Rightarrow> \<not> before_cursor p since)"

definition missing_at :: "(bytes \<Rightarrow> bytes) \<Rightarrow> request \<Rightarrow> packet \<Rightarrow> bool" where
  "missing_at sha256 r p \<longleftrightarrow>
     \<not> filter_contains (decode_to_sorted_set (rq_p r) (rq_m r) (rq_data r))
         (bucket sha256 (packet_id sha256 p) (rq_m r))"

definition answer :: "(bytes \<Rightarrow> bytes) \<Rightarrow> archive \<Rightarrow> request \<Rightarrow> u64 \<Rightarrow> packet list" where
  "answer sha256 a r now =
     (let types = requested_types r; missing = missing_at sha256 r; since = rq_since r in
      (if flags_contains types Announce then filter missing (fresh_announces now a) else [])
      @ (if flags_contains types Message
         then filter (\<lambda>p. \<not> before_cursor p since \<and> missing p) (archive_fresh KMessage now a) else [])
      @ (if flags_contains types Fragment
         then (let wanted = decode_fragment_id_filter (rq_filter r) in
               filter (\<lambda>p. fragment_wanted wanted since p \<and> missing p) (archive_fresh KFragment now a))
         else [])
      @ (if flags_contains types FileTransfer
         then filter (\<lambda>p. \<not> before_cursor p since \<and> missing p) (archive_fresh KFile now a) else []))"

definition respond :: "(bytes \<Rightarrow> bytes) \<Rightarrow> archive \<Rightarrow> request \<Rightarrow> u64 \<Rightarrow> packet list" where
  "respond sha256 a r now = take MAX_REPLIES_PER_ROUND (map as_reply (answer sha256 a r now))"

section \<open>Facts\<close>

lemma as_reply_fields [simp]:
  "p_ttl (as_reply p) = 0" "p_is_rsr (as_reply p) = True" "p_payload (as_reply p) = p_payload p"
  "p_timestamp (as_reply p) = p_timestamp p" "p_msg_type (as_reply p) = p_msg_type p"
  "p_sender_id (as_reply p) = p_sender_id p" "p_signature (as_reply p) = p_signature p"
  by (simp_all add: as_reply_def)

lemma packet_id_reply [simp]: "packet_id sha256 (as_reply p) = packet_id sha256 p"
  by (simp add: packet_id_def)

lemma plan_reply: "\<exists>why. plan (as_reply p) links ingress me = Suppress why"
  by (simp add: plan_def)

lemma length_respond: "length (respond sha256 a r now) \<le> 32"
  by (simp add: respond_def MAX_REPLIES_PER_ROUND_def)

lemma respond_origin:
  "q \<in> set (respond sha256 a r now) \<Longrightarrow> \<exists>p. p \<in> set (answer sha256 a r now) \<and> q = as_reply p"
  unfolding respond_def by (drule in_set_takeD) auto

text \<open>Everything in the answer was recorded, public, fresh, asked for and missing.\<close>

lemma answer_facts:
  assumes "archive_ok sha256 K a" and "p \<in> set (answer sha256 a r now)"
  shows "p \<in> K \<and> is_broadcast p \<and> is_fresh p now \<and> missing_at sha256 r p
    \<and> (\<exists>t. parsed_type p = Some t \<and> t \<in> {Announce, Message, Fragment, FileTransfer}
         \<and> flags_contains (requested_types r) t)"
proof -
  have kind: "t = Message \<longleftrightarrow> kind_of t = Some KMessage" "t = Fragment \<longleftrightarrow> kind_of t = Some KFragment"
    "t = FileTransfer \<longleftrightarrow> kind_of t = Some KFile" for t
    by (cases t; simp)+
  show ?thesis
    using assms(2) fresh_iff [OF assms(1)] fresh_announces_iff [OF assms(1)]
    by (fastforce simp: answer_def Let_def bind_eq_Some_conv kind [symmetric] split: if_splits)
qed

text \<open>Nothing the requester put into its filter is missing.\<close>

lemma included_not_missing:
  assumes "1 \<le> p" "p \<le> MAX_P" and "build_filter sha256 ids max_bytes p = f"
    and "rq_p r = gp_p f" "rq_m r = gp_m f" "rq_data r = gp_data f"
    and "packet_id sha256 x \<in> set (take (gp_included f) ids)"
  shows "\<not> missing_at sha256 r x"
proof -
  from build_filter_contains [OF assms(1-3)]
  have inc: "gp_included f \<le> length ids"
    and all: "\<forall>i < gp_included f. filter_contains (decode_to_sorted_set (gp_p f) (gp_m f) (gp_data f))
      (bucket sha256 (ids ! i) (gp_m f))" by blast+
  from assms(7) obtain i where "i < gp_included f" "packet_id sha256 x = ids ! i"
    using inc by (auto simp: in_set_conv_nth)
  with all show ?thesis using assms(4-6) by (simp add: missing_at_def)
qed

lemma answered:
  assumes "flags_contains (requested_types r) t" and "missing_at sha256 r p"
    and "t = Announce \<and> p \<in> set (fresh_announces now a)
       \<or> \<not> before_cursor p (rq_since r) \<and> decode_fragment_id_filter (rq_filter r) = None
         \<and> (\<exists>k. kind_of t = Some k \<and> p \<in> set (archive_fresh k now a))"
  shows "as_reply p \<in> set (respond sha256 a r now) \<or> length (respond sha256 a r now) = 32"
proof -
  have "p \<in> set (answer sha256 a r now)"
    using assms by (cases t) (auto simp: answer_def Let_def fragment_wanted_def)
  then have "as_reply p \<in> set (map as_reply (answer sha256 a r now))" by simp
  then show ?thesis
    by (cases "length (answer sha256 a r now) \<le> 32")
      (auto simp: respond_def MAX_REPLIES_PER_ROUND_def)
qed

section \<open>Properties\<close>

text \<open>
  C20.  What the archive may hold, whatever the history: within its three capacities, and
  only packets that were recorded and addressed to everyone, so no private packet is ever
  held for the room.
\<close>

theorem archive_holds_public_history:
  "let a = archive_run sha256 ops in
   length (ps_order (ar_messages a)) \<le> 1000 \<and> length (ps_order (ar_fragments a)) \<le> 600
   \<and> length (ps_order (ar_files a)) \<le> 200 \<and> distinct (map fst (ar_announces a))
   \<and> set (fresh_announces now a) \<union> (\<Union>k. set (archive_fresh k now a)) \<subseteq> {p \<in> recorded ops. is_broadcast p}"
proof -
  let ?a = "archive_run sha256 ops"
  have ok: "archive_ok sha256 (recorded ops) ?a" by (rule archive_run_ok)
  then have len: "length (ps_order (store_of k ?a)) \<le> kind_capacity k" for k
    by (simp add: archive_ok_def store_ok_def)
  from len [of KMessage] len [of KFragment] len [of KFile] ok
    fresh_iff [OF ok] fresh_announces_iff [OF ok]
  show ?thesis
    by (auto simp: Let_def archive_ok_def MESSAGE_CAPACITY_def FRAGMENT_CAPACITY_def FILE_CAPACITY_def)
qed

text \<open>
  C19.  A sync answer is safe: it has at most thirty-two packets, and each is a recorded
  public packet inside the freshness window, of a requested type and absent from the
  requester's filter, changed only in its hop count and reply flag, and no node that
  receives it relays it.
\<close>

theorem replies_are_safe:
  assumes "q \<in> set (respond sha256 (archive_run sha256 ops) r now)"
  shows "(\<exists>p \<in> recorded ops. q = p\<lparr>p_ttl := 0, p_is_rsr := True\<rparr> \<and> is_broadcast p \<and> is_fresh p now
      \<and> missing_at sha256 r p \<and> (\<exists>t. parsed_type p = Some t \<and> flags_contains (requested_types r) t))
    \<and> (\<exists>why. plan q links ingress me = Suppress why)
    \<and> length (respond sha256 (archive_run sha256 ops) r now) \<le> 32"
proof -
  from respond_origin [OF assms] obtain p
    where "p \<in> set (answer sha256 (archive_run sha256 ops) r now)" and q: "q = as_reply p" by blast
  from answer_facts [OF archive_run_ok this(1)] q plan_reply length_respond
  show ?thesis unfolding as_reply_def by blast
qed

definition sample_message :: packet where
  "sample_message = packet_new Message [1, 1, 1, 1, 1, 1, 1, 1] [0x68, 0x69] 7 1000"

definition sample_round :: request where
  "sample_round = \<lparr>rq_p = 7, rq_m = 1, rq_data = [], rq_types = None, rq_since = None, rq_filter = None\<rparr>"

lemma sample_types [simp]:
  "flags_contains public_messages t \<longleftrightarrow> t = Announce \<or> t = Message"
  by (cases t) (simp_all add: public_messages_def flags_contains_from_types)

lemma sample_fields [simp]:
  "parsed_type sample_message = Some Message" "is_broadcast sample_message" "p_timestamp sample_message = 1000"
  by (simp_all add: sample_message_def packet_new_def parsed_type_def from_u8_def is_broadcast_def)

lemma sample_archive:
  "archive_run sha256 [RecordPacket sample_message 2000] =
   archive_new\<lparr>ar_messages := \<lparr>ps_packets = [packet_id sha256 sample_message \<mapsto> sample_message],
                             ps_order = [packet_id sha256 sample_message]\<rparr>\<rparr>"
  by (simp add: archive_run_def archive_record_def is_fresh_def MAX_AGE_MS_def store_insert_def
      archive_new_def store_empty_def MESSAGE_CAPACITY_def)

lemma sample_respond:
  "respond sha256 (archive_run sha256 [RecordPacket sample_message 2000]) sample_round 2000
     = [as_reply sample_message]"
  by (simp add: sample_archive respond_def answer_def Let_def sample_round_def requested_types_def
      fresh_announces_def archive_new_def archive_fresh_def store_fresh_def List.map_filter_def is_fresh_def
      MAX_AGE_MS_def before_cursor_def missing_at_def decode_to_sorted_set_def filter_contains_def
      MAX_REPLIES_PER_ROUND_def)

theorem replies_are_safe_witness:
  "\<exists>why. plan (as_reply sample_message) [] [] [] = Suppress why"
  using replies_are_safe [of "as_reply sample_message" "\<lambda>d. d" "[RecordPacket sample_message 2000]" sample_round 2000]
  by (simp add: sample_respond)

text \<open>
  C16.  What an answered sync request brings and what it does not.  The packets whose
  identifiers the requester's filter was built from (the first ones, as many as fitted
  into it) are not sent to it again.  Of the packets the filter does not match, every
  fresh announce and, when the request names no fragment streams, every fresh packet
  within the cursor, that is of a requested type, is in the answer, unless the answer has
  already reached its thirty-two packets.  A packet the filter matches by accident is not
  sent.
\<close>

theorem sync_round_converges:
  assumes "1 \<le> p" "p \<le> MAX_P" and "build_filter sha256 ids max_bytes p = f"
    and "rq_p r = gp_p f" "rq_m r = gp_m f" "rq_data r = gp_data f"
  shows "(\<forall>q \<in> set (respond sha256 a r now). packet_id sha256 q \<notin> set (take (gp_included f) ids))
    \<and> (\<forall>t x. flags_contains (requested_types r) t \<and> missing_at sha256 r x
        \<and> (t = Announce \<and> x \<in> set (fresh_announces now a)
           \<or> \<not> before_cursor x (rq_since r) \<and> decode_fragment_id_filter (rq_filter r) = None
             \<and> (\<exists>k. kind_of t = Some k \<and> x \<in> set (archive_fresh k now a)))
        \<longrightarrow> as_reply x \<in> set (respond sha256 a r now) \<or> length (respond sha256 a r now) = 32)"
proof (intro conjI ballI allI impI)
  fix q assume "q \<in> set (respond sha256 a r now)"
  then obtain x where "x \<in> set (answer sha256 a r now)" and q: "q = as_reply x"
    using respond_origin by blast
  then have "missing_at sha256 r x" by (auto simp: answer_def Let_def split: if_splits)
  with included_not_missing [OF assms, of x] q
  show "packet_id sha256 q \<notin> set (take (gp_included f) ids)" by auto
next
  fix t x
  assume "flags_contains (requested_types r) t \<and> missing_at sha256 r x
        \<and> (t = Announce \<and> x \<in> set (fresh_announces now a)
           \<or> \<not> before_cursor x (rq_since r) \<and> decode_fragment_id_filter (rq_filter r) = None
             \<and> (\<exists>k. kind_of t = Some k \<and> x \<in> set (archive_fresh k now a)))"
  then show "as_reply x \<in> set (respond sha256 a r now) \<or> length (respond sha256 a r now) = 32"
    using answered by blast
qed

theorem sync_round_converges_witness:
  "as_reply sample_message \<in>
     set (respond (\<lambda>d. d) (archive_run (\<lambda>d. d) [RecordPacket sample_message 2000]) sample_round 2000)"
proof -
  let ?a = "archive_run (\<lambda>d. d) [RecordPacket sample_message 2000]"
  have f: "build_filter (\<lambda>d. d) [] 400 7 = \<lparr>gp_p = 7, gp_m = 1, gp_data = [], gp_included = 0\<rparr>"
    by (simp add: build_filter_def)
  have "sample_message \<in> set (archive_fresh KMessage 2000 ?a)"
    by (simp add: sample_archive archive_new_def archive_fresh_def store_fresh_def List.map_filter_def
        is_fresh_def MAX_AGE_MS_def)
  moreover have "missing_at (\<lambda>d. d) sample_round sample_message"
    by (simp add: missing_at_def sample_round_def decode_to_sorted_set_def filter_contains_def)
  moreover have "flags_contains (requested_types sample_round) Message"
    "\<not> before_cursor sample_message (rq_since sample_round)"
    "decode_fragment_id_filter (rq_filter sample_round) = None"
    by (simp_all add: requested_types_def sample_round_def before_cursor_def decode_fragment_id_filter_def)
  moreover have "length (respond (\<lambda>d. d) ?a sample_round 2000) \<noteq> 32" by (simp add: sample_respond)
  ultimately show ?thesis
    using sync_round_converges [of 7 "\<lambda>d. d" "[]" 400, OF _ _ f, of sample_round ?a 2000]
    by (fastforce simp: MAX_P_def sample_round_def)
qed

text \<open>
  Announces are replaced by arrival, not by date: while both are within a minute of
  the clock, an announce of the same peer received later takes the place of the one on
  file even when it is the older of the two.
\<close>

theorem later_announce_replaces:
  assumes "is_broadcast p" "parsed_type p = Some Announce"
    and "unat now - unat (p_timestamp p) \<le> 60000"
  shows "map_of (ar_announces (snd (archive_record sha256 p now a))) (p_sender_id p) = Some p"
  using assms
  by (simp add: archive_record_def is_fresh_def MAX_AGE_MS_def ANNOUNCE_RECORD_MAX_AGE_MS_def update_conv')

theorem later_announce_replaces_witness:
  "let new = packet_new Announce [1, 1, 1, 1, 1, 1, 1, 1] [] 7 5000;
       old = packet_new Announce [1, 1, 1, 1, 1, 1, 1, 1] [] 7 1000;
       a = snd (archive_record (\<lambda>_. []) new 6000 archive_new)
   in map_of (ar_announces (snd (archive_record (\<lambda>_. []) old 6000 a))) [1, 1, 1, 1, 1, 1, 1, 1] = Some old"
proof -
  let ?old = "packet_new Announce [1, 1, 1, 1, 1, 1, 1, 1] [] 7 1000"
  have "is_broadcast ?old" "parsed_type ?old = Some Announce"
    "unat (6000 :: u64) - unat (p_timestamp ?old) \<le> 60000" "p_sender_id ?old = [1, 1, 1, 1, 1, 1, 1, 1]"
    by (simp_all add: packet_new_def parsed_type_def from_u8_def is_broadcast_def)
  then show ?thesis unfolding Let_def using later_announce_replaces [of ?old 6000 "\<lambda>_. []"] by metis
qed

end
