(* ===== verification/Noise_Cipher.thy ===== *)
theory Noise_Cipher
  imports Prelude
begin

text \<open>
  The cipher state of noise_protocol.rs: ChaCha20-Poly1305 with its two nonce regimes and
  the sliding window against replays.  The primitives of the crates are the fields of a
  record \<open>crypto\<close>; \<open>crypto_ok\<close> states what the code relies on.  A received nonce is a
  natural, since it is read from four bytes; the send counter is a \<open>u64\<close>.
\<close>

section \<open>The primitives\<close>

record crypto =
  aead_enc :: "bytes \<Rightarrow> bytes \<Rightarrow> bytes \<Rightarrow> bytes \<Rightarrow> bytes option"
  aead_dec :: "bytes \<Rightarrow> bytes \<Rightarrow> bytes \<Rightarrow> bytes \<Rightarrow> bytes option"
  sha256 :: "bytes \<Rightarrow> bytes"
  hmac256 :: "bytes \<Rightarrow> bytes \<Rightarrow> bytes"
  public_key :: "bytes \<Rightarrow> bytes"
  diffie_hellman :: "bytes \<Rightarrow> bytes \<Rightarrow> bytes"

text \<open>
  Documented behaviour: the AEAD appends a 16-byte tag and opens exactly what it sealed
  (key, nonce, associated data, text); a public key has 32 bytes; both sides of a
  Diffie-Hellman exchange get the same secret.
\<close>

definition aead_ok :: "crypto \<Rightarrow> bool" where
  "aead_ok c \<longleftrightarrow>
     (\<forall>k n ad pt. \<exists>ct. aead_enc c k n ad pt = Some ct \<and> length ct = length pt + 16
        \<and> aead_dec c k n ad ct = Some pt)
     \<and> (\<forall>k n ad ct pt. aead_dec c k n ad ct = Some pt \<longrightarrow> aead_enc c k n ad pt = Some ct)"

definition dh_ok :: "crypto \<Rightarrow> bool" where
  "dh_ok c \<longleftrightarrow>
     (\<forall>a. length (public_key c a) = 32)
     \<and> (\<forall>a b. diffie_hellman c a (public_key c b) = diffie_hellman c b (public_key c a))"

datatype noise_error =
    UninitializedCipher | InvalidCiphertext | HandshakeComplete | HandshakeNotComplete
  | MissingLocalStaticKey | MissingKeys | InvalidMessage | AuthenticationFailure
  | InvalidPublicKey | ReplayDetected | NonceExceeded | EncryptionFailed | DecryptionFailed
  | InvalidState | NotEstablished | SessionNotFound | AlreadyEstablished

section \<open>The cipher state\<close>

definition NONCE_SIZE_BYTES :: nat where "NONCE_SIZE_BYTES = 4"
definition REPLAY_WINDOW_SIZE :: nat where "REPLAY_WINDOW_SIZE = 1024"

record cipher_state =
  cs_key :: "bytes option"
  cs_nonce :: u64
  cs_use_extracted_nonce :: bool
  cs_replay_window :: "nat list"
  cs_highest :: nat

definition cipher_new :: cipher_state where
  "cipher_new = \<lparr>cs_key = None, cs_nonce = 0, cs_use_extracted_nonce = False, cs_replay_window = [],
     cs_highest = 0\<rparr>"

definition new_with_key :: "bytes \<Rightarrow> bool \<Rightarrow> cipher_state" where
  "new_with_key k extracted = \<lparr>cs_key = Some k, cs_nonce = 0, cs_use_extracted_nonce = extracted,
     cs_replay_window = [], cs_highest = 0\<rparr>"

definition initialize_key :: "bytes \<Rightarrow> cipher_state \<Rightarrow> cipher_state" where
  "initialize_key k s = s\<lparr>cs_key := Some k, cs_nonce := 0, cs_replay_window := [], cs_highest := 0\<rparr>"

definition has_key :: "cipher_state \<Rightarrow> bool" where
  "has_key s \<longleftrightarrow> cs_key s \<noteq> None"

definition is_valid_nonce :: "nat \<Rightarrow> cipher_state \<Rightarrow> bool" where
  "is_valid_nonce n s \<longleftrightarrow>
     (if n + REPLAY_WINDOW_SIZE \<le> cs_highest s then False
      else if n > cs_highest s then True
      else n \<notin> set (cs_replay_window s))"

definition mark_nonce_as_seen :: "nat \<Rightarrow> cipher_state \<Rightarrow> cipher_state" where
  "mark_nonce_as_seen n s =
     (let s = (if n > cs_highest s
               then (let shift = n - cs_highest s in
                     s\<lparr>cs_replay_window :=
                         (if shift \<ge> REPLAY_WINDOW_SIZE then []
                          else filter (\<lambda>m. m + REPLAY_WINDOW_SIZE > n) (cs_replay_window s)),
                       cs_highest := n\<rparr>)
               else s)
      in s\<lparr>cs_replay_window := List.insert n (cs_replay_window s)\<rparr>)"

definition extract_nonce :: "bytes \<Rightarrow> (nat \<times> bytes) option" where
  "extract_nonce d =
     (if length d < NONCE_SIZE_BYTES then None
      else Some (le_to_nat (take NONCE_SIZE_BYTES d), drop NONCE_SIZE_BYTES d))"

definition nonce_to_bytes :: "u64 \<Rightarrow> bytes" where
  "nonce_to_bytes n = take NONCE_SIZE_BYTES (nat_to_le 8 (unat n))"

text \<open>The 12-byte nonce of the AEAD: four zeros and the little-endian counter.\<close>

definition aead_nonce :: "nat \<Rightarrow> bytes" where
  "aead_nonce n = replicate 4 0 @ nat_to_le 8 n"

definition cipher_encrypt ::
  "crypto \<Rightarrow> bytes \<Rightarrow> bytes \<Rightarrow> cipher_state \<Rightarrow> (noise_error + bytes) \<times> cipher_state" where
  "cipher_encrypt c plaintext ad s =
     (case cs_key s of
        None \<Rightarrow> (Inl UninitializedCipher, s)
      | Some k \<Rightarrow>
          (case aead_enc c k (aead_nonce (unat (cs_nonce s))) ad plaintext of
             None \<Rightarrow> (Inl EncryptionFailed, s)
           | Some ct \<Rightarrow>
               (Inr (if cs_use_extracted_nonce s then nonce_to_bytes (cs_nonce s) @ ct else ct),
                s\<lparr>cs_nonce := cs_nonce s + 1\<rparr>)))"

definition decrypt_with ::
  "crypto \<Rightarrow> bytes \<Rightarrow> nat \<Rightarrow> bytes \<Rightarrow> bytes \<Rightarrow> cipher_state \<Rightarrow> (noise_error + bytes) \<times> cipher_state" where
  "decrypt_with c k n ct ad s =
     (case aead_dec c k (aead_nonce n) ad ct of
        None \<Rightarrow> (Inl DecryptionFailed, s)
      | Some pt \<Rightarrow>
          (Inr pt, if cs_use_extracted_nonce s then mark_nonce_as_seen n s
                   else s\<lparr>cs_nonce := cs_nonce s + 1\<rparr>))"

definition cipher_decrypt ::
  "crypto \<Rightarrow> bytes \<Rightarrow> bytes \<Rightarrow> cipher_state \<Rightarrow> (noise_error + bytes) \<times> cipher_state" where
  "cipher_decrypt c ct ad s =
     (case cs_key s of
        None \<Rightarrow> (Inl UninitializedCipher, s)
      | Some k \<Rightarrow>
          if cs_use_extracted_nonce s then
            (case extract_nonce ct of
               None \<Rightarrow> (Inl InvalidCiphertext, s)
             | Some (n, payload) \<Rightarrow>
                 if \<not> is_valid_nonce n s then (Inl ReplayDetected, s)
                 else decrypt_with c k n payload ad s)
          else decrypt_with c k (unat (cs_nonce s)) ct ad s)"

section \<open>The contract of a replay window\<close>

text \<open>
  \<open>rep A s\<close>: the state \<open>s\<close> stands for the set \<open>A\<close> of nonces accepted so far.  What is
  valid is new; and a new nonce less than \<open>width\<close> behind every accepted one is valid.
\<close>

locale replay_filter =
  fixes valid :: "nat \<Rightarrow> 's \<Rightarrow> bool"
    and mark :: "nat \<Rightarrow> 's \<Rightarrow> 's"
    and rep :: "nat set \<Rightarrow> 's \<Rightarrow> bool"
    and width :: nat
  assumes valid_new: "rep A s \<Longrightarrow> valid n s \<Longrightarrow> n \<notin> A"
    and valid_recent: "rep A s \<Longrightarrow> n \<notin> A \<Longrightarrow> \<forall>m \<in> A. m < n + width \<Longrightarrow> valid n s"
    and mark_rep: "rep A s \<Longrightarrow> valid n s \<Longrightarrow> rep (insert n A) (mark n s)"
begin

primrec accept_all :: "nat list \<Rightarrow> 's \<Rightarrow> nat list \<times> 's" where
  "accept_all [] s = ([], s)"
| "accept_all (n # ns) s =
     (if valid n s then (let (out, s') = accept_all ns (mark n s) in (n # out, s')) else accept_all ns s)"

lemma accepted_once:
  "rep A s \<Longrightarrow> distinct (fst (accept_all ns s)) \<and> set (fst (accept_all ns s)) \<inter> A = {}
   \<and> rep (A \<union> set (fst (accept_all ns s))) (snd (accept_all ns s))"
proof (induction ns arbitrary: A s)
  case (Cons n ns)
  show ?case
  proof (cases "valid n s")
    case True
    with Cons.IH [OF mark_rep [OF Cons.prems True]] valid_new [OF Cons.prems True]
    show ?thesis by (simp add: split_beta)
  qed (use Cons in simp)
qed simp

lemma recent_accepted:
  assumes "rep A s" and "distinct ns" and "set ns \<inter> A = {}"
    and "\<And>n m. n \<in> set ns \<Longrightarrow> m \<in> A \<union> set ns \<Longrightarrow> m < n + width"
  shows "fst (accept_all ns s) = ns"
  using assms
proof (induction ns arbitrary: A s)
  case (Cons n ns)
  have v: "valid n s" using Cons.prems(3,4) by (intro valid_recent [OF Cons.prems(1)]) auto
  have "fst (accept_all ns (mark n s)) = ns"
  proof (rule Cons.IH [OF mark_rep [OF Cons.prems(1) v]])
    show "m < k + width" if "k \<in> set ns" "m \<in> insert n A \<union> set ns" for k m
      using that by (intro Cons.prems(4)) auto
  qed (use Cons.prems(2,3) in auto)
  with v show ?case by (simp add: split_beta)
qed simp

end

section \<open>The cipher state satisfies it\<close>

text \<open>
  The window holds exactly the accepted nonces less than \<open>REPLAY_WINDOW_SIZE\<close> behind the
  highest one, which is the maximum of the accepted nonces.
\<close>

definition window_rep :: "nat set \<Rightarrow> cipher_state \<Rightarrow> bool" where
  "window_rep A s \<longleftrightarrow>
     set (cs_replay_window s) = {n \<in> A. cs_highest s < n + REPLAY_WINDOW_SIZE}
     \<and> distinct (cs_replay_window s)
     \<and> (\<forall>n \<in> A. n \<le> cs_highest s) \<and> (A \<noteq> {} \<longrightarrow> cs_highest s \<in> A) \<and> (A = {} \<longrightarrow> cs_highest s = 0)"

lemma window_rep_mark:
  assumes "window_rep A s" and "is_valid_nonce n s"
  shows "window_rep (insert n A) (mark_nonce_as_seen n s)"
proof (cases "n > cs_highest s")
  case True
  have "{m \<in> A. n < m + 1024} = {}" if "n - cs_highest s \<ge> 1024"
    using that assms(1) by (force simp: window_rep_def)
  then show ?thesis using assms True
    by (auto simp: window_rep_def mark_nonce_as_seen_def Let_def REPLAY_WINDOW_SIZE_def)
next
  case False
  then show ?thesis using assms
    by (auto simp: window_rep_def mark_nonce_as_seen_def Let_def is_valid_nonce_def REPLAY_WINDOW_SIZE_def
        split: if_split_asm)
qed

interpretation window: replay_filter is_valid_nonce mark_nonce_as_seen window_rep REPLAY_WINDOW_SIZE
proof
  show "n \<notin> A" if "window_rep A s" "is_valid_nonce n s" for A s n
    using that by (auto simp: window_rep_def is_valid_nonce_def split: if_split_asm)
  show "is_valid_nonce n s" if "window_rep A s" "n \<notin> A" "\<forall>m \<in> A. m < n + REPLAY_WINDOW_SIZE" for A s n
    using that by (auto simp: window_rep_def is_valid_nonce_def REPLAY_WINDOW_SIZE_def)
qed (rule window_rep_mark)

lemma window_rep_new [simp]: "window_rep {} (new_with_key k b)"
  by (simp add: window_rep_def new_with_key_def)

lemma window_bounded:
  assumes "window_rep A s" shows "length (cs_replay_window s) \<le> 1024"
proof -
  have "set (cs_replay_window s) \<subseteq> {cs_highest s + 1 - 1024 .. cs_highest s}"
    using assms by (auto simp: window_rep_def REPLAY_WINDOW_SIZE_def)
  then have "card (set (cs_replay_window s)) \<le> card {cs_highest s + 1 - 1024 .. cs_highest s}"
    by (intro card_mono) auto
  moreover have "card (set (cs_replay_window s)) = length (cs_replay_window s)"
    using assms by (intro distinct_card) (simp add: window_rep_def)
  ultimately show ?thesis by simp
qed

section \<open>A transport channel\<close>

fun send_all :: "crypto \<Rightarrow> bytes list \<Rightarrow> cipher_state \<Rightarrow> (noise_error + bytes) list \<times> cipher_state" where
  "send_all c [] s = ([], s)"
| "send_all c (pt # pts) s =
     (let (r, s) = cipher_encrypt c pt [] s; (rs, s) = send_all c pts s in (r # rs, s))"

fun receive_all :: "crypto \<Rightarrow> bytes list \<Rightarrow> cipher_state \<Rightarrow> (noise_error + bytes) list \<times> cipher_state" where
  "receive_all c [] s = ([], s)"
| "receive_all c (f # fs) s =
     (let (r, s) = cipher_decrypt c f [] s; (rs, s) = receive_all c fs s in (r # rs, s))"

definition wire_nonce :: "bytes \<Rightarrow> nat" where
  "wire_nonce f = le_to_nat (take 4 f)"

text \<open>The nonces of the frames that were accepted.\<close>

definition accepted_nonces :: "bytes list \<Rightarrow> (noise_error + bytes) list \<Rightarrow> nat list" where
  "accepted_nonces fs rs = map (wire_nonce \<circ> fst) (filter (\<lambda>(f, r). \<not> isl r) (zip fs rs))"

definition authentic :: "crypto \<Rightarrow> bytes \<Rightarrow> bytes \<Rightarrow> bool" where
  "authentic c k f \<longleftrightarrow> 4 \<le> length f \<and> aead_dec c k (aead_nonce (wire_nonce f)) [] (drop 4 f) \<noteq> None"

lemma mark_fields [simp]:
  "cs_key (mark_nonce_as_seen n s) = cs_key s"
  "cs_use_extracted_nonce (mark_nonce_as_seen n s) = cs_use_extracted_nonce s"
  by (simp_all add: mark_nonce_as_seen_def Let_def)

lemma transport_decrypt:
  assumes "cs_key s = Some k" and "cs_use_extracted_nonce s"
  shows "cipher_decrypt c f [] s =
    (if length f < 4 then (Inl InvalidCiphertext, s)
     else if \<not> is_valid_nonce (wire_nonce f) s then (Inl ReplayDetected, s)
     else case aead_dec c k (aead_nonce (wire_nonce f)) [] (drop 4 f) of
       None \<Rightarrow> (Inl DecryptionFailed, s)
     | Some pt \<Rightarrow> (Inr pt, mark_nonce_as_seen (wire_nonce f) s))"
  using assms
  by (simp add: cipher_decrypt_def extract_nonce_def NONCE_SIZE_BYTES_def decrypt_with_def wire_nonce_def
      split: option.splits)

text \<open>Accepting is the replay filter's run over the frames that authenticate.\<close>

lemma receive_all_window:
  "cs_key s = Some k \<Longrightarrow> cs_use_extracted_nonce s \<Longrightarrow>
   accepted_nonces fs (fst (receive_all c fs s))
     = fst (window.accept_all (map wire_nonce (filter (authentic c k) fs)) s)
   \<and> snd (receive_all c fs s) = snd (window.accept_all (map wire_nonce (filter (authentic c k) fs)) s)"
proof (induction fs arbitrary: s)
  case (Cons f fs)
  show ?case
  proof (cases "authentic c k f \<and> is_valid_nonce (wire_nonce f) s")
    case True
    then obtain pt where "aead_dec c k (aead_nonce (wire_nonce f)) [] (drop 4 f) = Some pt" "4 \<le> length f"
      by (auto simp: authentic_def)
    then have "cipher_decrypt c f [] s = (Inr pt, mark_nonce_as_seen (wire_nonce f) s)"
      using True Cons.prems by (simp add: transport_decrypt)
    then show ?thesis
      using Cons.IH [of "mark_nonce_as_seen (wire_nonce f) s"] True Cons.prems
      by (simp add: accepted_nonces_def split_beta)
  next
    case False
    then have "\<exists>e. cipher_decrypt c f [] s = (Inl e, s)"
      using Cons.prems
      by (cases "aead_dec c k (aead_nonce (wire_nonce f)) [] (drop 4 f)")
        (simp_all add: transport_decrypt authentic_def)
    then obtain e where "cipher_decrypt c f [] s = (Inl e, s)" ..
    then show ?thesis
      using Cons.IH [of s] False Cons.prems by (auto simp: accepted_nonces_def split_beta)
  qed
qed (simp add: accepted_nonces_def)

lemma frames_accepted_once:
  "distinct (accepted_nonces fs (fst (receive_all c fs (new_with_key k True))))
   \<and> length (cs_replay_window (snd (receive_all c fs (new_with_key k True)))) \<le> 1024"
proof -
  let ?ns = "map wire_nonce (filter (authentic c k) fs)" and ?s = "new_with_key k True"
  have "cs_key ?s = Some k" "cs_use_extracted_nonce ?s" by (simp_all add: new_with_key_def)
  note receive_all_window [OF this, of fs c]
  moreover from window.accepted_once [OF window_rep_new, of ?ns k True]
  have "distinct (fst (window.accept_all ?ns ?s))"
    and rep: "window_rep (set (fst (window.accept_all ?ns ?s))) (snd (window.accept_all ?ns ?s))" by simp_all
  moreover from window_bounded [OF rep]
  have "length (cs_replay_window (snd (window.accept_all ?ns ?s))) \<le> 1024" .
  ultimately show ?thesis by simp
qed

section \<open>Sending\<close>

definition frame_of :: "crypto \<Rightarrow> bytes \<Rightarrow> nat \<Rightarrow> bytes \<Rightarrow> bytes" where
  "frame_of c k n pt = take 4 (nat_to_le 8 n) @ the (aead_enc c k (aead_nonce n) [] pt)"

lemma send_all_frames:
  "aead_ok c \<Longrightarrow> cs_key s = Some k \<Longrightarrow> cs_use_extracted_nonce s \<Longrightarrow>
   unat (cs_nonce s) + length pts < 2 ^ 64 \<Longrightarrow>
   fst (send_all c pts s) = map (\<lambda>i. Inr (frame_of c k (unat (cs_nonce s) + i) (pts ! i))) [0..<length pts]"
proof (induction pts arbitrary: s)
  case (Cons pt pts)
  obtain ct where ct: "aead_enc c k (aead_nonce (unat (cs_nonce s))) [] pt = Some ct"
    using Cons.prems(1) unfolding aead_ok_def by blast
  let ?s = "s\<lparr>cs_nonce := cs_nonce s + 1\<rparr>"
  have enc: "cipher_encrypt c pt [] s = (Inr (frame_of c k (unat (cs_nonce s)) pt), ?s)"
    using Cons.prems(2,3) ct
    by (simp add: cipher_encrypt_def frame_of_def nonce_to_bytes_def NONCE_SIZE_BYTES_def)
  have "unat (cs_nonce s + 1) = unat (cs_nonce s) + 1"
    using Cons.prems(4) by (subst unat_add_lem [THEN iffD1]) simp_all
  with Cons.IH [of ?s] Cons.prems
  have "fst (send_all c pts ?s)
      = map (\<lambda>i. Inr (frame_of c k (unat (cs_nonce s) + 1 + i) (pts ! i))) [0..<length pts]"
    by simp
  then show ?case using enc by (simp add: split_beta upt_conv_Cons map_Suc_upt [symmetric] del: upt_Suc)
qed simp

lemma take_nat_to_le: "k \<le> n \<Longrightarrow> take k (nat_to_le n v) = nat_to_le k v"
proof (induction n arbitrary: k v)
  case (Suc n)
  then show ?case by (cases k) simp_all
qed simp

lemma le_to_nat_take_le8: "le_to_nat (take 4 (nat_to_le 8 n)) = n mod 2 ^ 32"
proof -
  have "take 4 (nat_to_le 8 n) = nat_to_le 4 n" by (simp add: take_nat_to_le)
  then show ?thesis by (simp add: le_to_nat_nat_to_le_mod)
qed

lemma wire_nonce_frame [simp]: "wire_nonce (frame_of c k n pt) = n mod 2 ^ 32"
proof -
  have "length (take 4 (nat_to_le 8 n)) = 4" by (simp add: take_nat_to_le)
  then show ?thesis
    using le_to_nat_take_le8 [of n] unfolding wire_nonce_def frame_of_def by simp
qed

lemma frame_opens:
  assumes "aead_ok c" and "n < 2 ^ 32"
  shows "4 \<le> length (frame_of c k n pt)
    \<and> aead_dec c k (aead_nonce (wire_nonce (frame_of c k n pt))) [] (drop 4 (frame_of c k n pt)) = Some pt"
proof -
  have len: "length (take 4 (nat_to_le 8 n)) = 4" by (simp add: take_nat_to_le)
  obtain ct where "aead_enc c k (aead_nonce n) [] pt = Some ct" "aead_dec c k (aead_nonce n) [] ct = Some pt"
    using assms(1) unfolding aead_ok_def by blast
  then show ?thesis using assms(2) len by (simp add: wire_nonce_frame) (simp add: frame_of_def)
qed

text \<open>
  Frames that are new to the receiver and less than the window behind every other one open,
  in whatever order they come.
\<close>

lemma receive_new:
  assumes "aead_ok c" and "cs_key s = Some k" "cs_use_extracted_nonce s" and "window_rep A s"
    and "distinct is" "set is \<inter> A = {}" "\<forall>i \<in> set is. i < 2 ^ 32"
    and "\<And>n m. n \<in> set is \<Longrightarrow> m \<in> A \<union> set is \<Longrightarrow> m < n + 1024"
  shows "fst (receive_all c (map (\<lambda>i. frame_of c k i (pts i)) is) s) = map (\<lambda>i. Inr (pts i)) is"
  using assms(2-)
proof (induction "is" arbitrary: A s)
  case (Cons i "is")
  have "is_valid_nonce i s"
    using Cons.prems(5,7) by (intro window.valid_recent [OF Cons.prems(3)]) (auto simp: REPLAY_WINDOW_SIZE_def)
  moreover have i: "i < 2 ^ 32" using Cons.prems(6) by simp
  ultimately have d: "cipher_decrypt c (frame_of c k i (pts i)) [] s = (Inr (pts i), mark_nonce_as_seen i s)"
    and v: "is_valid_nonce i s"
    using frame_opens [OF assms(1) i, of k "pts i"] Cons.prems(1,2) by (auto simp: transport_decrypt)
  have "fst (receive_all c (map (\<lambda>i. frame_of c k i (pts i)) is) (mark_nonce_as_seen i s)) = map (\<lambda>i. Inr (pts i)) is"
  proof (rule Cons.IH [OF _ _ window_rep_mark [OF Cons.prems(3) v]])
    show "m < n + 1024" if "n \<in> set is" "m \<in> insert i A \<union> set is" for n m
      using that by (intro Cons.prems(7)) auto
  qed (use Cons.prems in auto)
  with d show ?case by (simp add: split_beta)
qed simp

section \<open>Properties\<close>

text \<open>Primitives that satisfy the assumptions, for the witnesses.\<close>

definition pad32 :: "bytes \<Rightarrow> bytes" where
  "pad32 a = take 32 (a @ replicate 32 9)"

definition demo_crypto :: crypto where
  "demo_crypto = \<lparr>
     aead_enc = (\<lambda>k n ad pt. Some (pt @ replicate 16 0)),
     aead_dec = (\<lambda>k n ad ct. let m = length ct - 16 in
        if 16 \<le> length ct \<and> drop m ct = replicate 16 0 then Some (take m ct) else None),
     sha256 = (\<lambda>d. replicate 32 0),
     hmac256 = (\<lambda>k d. replicate 32 0),
     public_key = pad32,
     diffie_hellman = (\<lambda>a p. map2 (XOR) (pad32 a) p)\<rparr>"

lemma demo_aead_ok: "aead_ok demo_crypto"
proof -
  have "take (length ct - 16) ct @ replicate 16 0 = ct"
    if "drop (length ct - 16) ct = replicate 16 0" for ct :: bytes
    using that append_take_drop_id [of "length ct - 16" ct] by simp
  then show ?thesis by (auto simp: aead_ok_def demo_crypto_def Let_def)
qed

lemma demo_dh_ok: "dh_ok demo_crypto"
proof -
  have "map2 (XOR) xs ys = map2 (XOR) ys xs" for xs ys :: bytes
    by (simp add: zip_commute [of xs ys] xor.commute split_def)
  then show ?thesis by (auto simp: dh_ok_def demo_crypto_def pad32_def min_def)
qed

text \<open>
  C10.  Replay protection: over any sequence of frames, whoever sent them, no nonce is
  accepted twice (the first one included), and the memory the window takes stays bounded.
\<close>

theorem no_frame_accepted_twice:
  "distinct (accepted_nonces fs (fst (receive_all c fs (new_with_key k True))))
   \<and> length (cs_replay_window (snd (receive_all c fs (new_with_key k True)))) \<le> 1024"
  by (rule frames_accepted_once)

text \<open>
  Delivery out of order: the messages a sender encrypts open to their plaintexts in
  any order and with any losses, as long as no frame comes 1024 or more positions behind
  another.
\<close>

theorem out_of_order_delivery:
  assumes "aead_ok c" and "length pts \<le> 2 ^ 32"
    and "distinct is" "\<forall>i \<in> set is. i < length pts" "\<forall>i \<in> set is. \<forall>j \<in> set is. j < i + 1024"
  shows "fst (receive_all c
            (map (\<lambda>i. projr (fst (send_all c pts (new_with_key k True)) ! i)) is) (new_with_key k True))
         = map (\<lambda>i. Inr (pts ! i)) is"
proof -
  let ?s = "new_with_key k True"
  have s: "cs_key ?s = Some k" "cs_use_extracted_nonce ?s" "unat (cs_nonce ?s) = 0"
    by (simp_all add: new_with_key_def)
  have "fst (send_all c pts ?s) = map (\<lambda>i. Inr (frame_of c k i (pts ! i))) [0..<length pts]"
    using send_all_frames [OF assms(1) s(1,2), of pts] assms(2) s(3) by simp
  then have "map (\<lambda>i. projr (fst (send_all c pts ?s) ! i)) is = map (\<lambda>i. frame_of c k i (pts ! i)) is"
    using assms(4) by (intro map_cong) simp_all
  moreover have "fst (receive_all c (map (\<lambda>i. frame_of c k i (pts ! i)) is) ?s) = map (\<lambda>i. Inr (pts ! i)) is"
    using assms by (intro receive_new [OF assms(1) s(1,2) window_rep_new]) force+
  ultimately show ?thesis by (simp only:)
qed

theorem out_of_order_delivery_witness:
  "fst (receive_all demo_crypto
     (map (\<lambda>i. projr (fst (send_all demo_crypto [[1], [2], [3]] (new_with_key [] True)) ! i)) [2, 0])
     (new_with_key [] True)) = [Inr [3], Inr [1]]"
  using out_of_order_delivery [OF demo_aead_ok, of "[[1], [2], [3]]" "[2, 0]" "[]"] by simp

text \<open>
  A session has an end nobody announces: the frame carries four bytes of an
  eight-byte counter, so once the receiver has opened message \<open>2 ^ 32 - 1\<close>, the sender
  keeps encrypting without an error, and the receiver takes each of the following messages
  for a replay.
\<close>

theorem session_stalls:
  assumes "aead_ok c" and "cs_key sender = Some k" "cs_use_extracted_nonce sender"
    and "2 ^ 32 \<le> unat (cs_nonce sender)" "unat (cs_nonce sender) < 2 ^ 33 - 1024"
    and "cs_key receiver = Some k" "cs_use_extracted_nonce receiver" "cs_highest receiver = 2 ^ 32 - 1"
  shows "\<exists>f. fst (cipher_encrypt c pt [] sender) = Inr f
    \<and> cipher_decrypt c f [] receiver = (Inl ReplayDetected, receiver)"
proof -
  let ?n = "unat (cs_nonce sender)"
  obtain ct where ct: "aead_enc c k (aead_nonce ?n) [] pt = Some ct"
    using assms(1) unfolding aead_ok_def by blast
  then have enc: "fst (cipher_encrypt c pt [] sender) = Inr (frame_of c k ?n pt)"
    using assms(2,3) by (simp add: cipher_encrypt_def frame_of_def nonce_to_bytes_def NONCE_SIZE_BYTES_def)
  have "?n mod 2 ^ 32 = ?n - 2 ^ 32" using assms(4,5) by (simp add: le_mod_geq)
  moreover have "?n - 2 ^ 32 + 1024 \<le> 2 ^ 32 - 1"
    using assms(4,5) by (simp add: le_diff_conv)
  ultimately have "\<not> is_valid_nonce (?n mod 2 ^ 32) receiver"
    using assms(8) by (simp only: is_valid_nonce_def REPLAY_WINDOW_SIZE_def if_True not_False_eq_True)
  moreover have "4 \<le> length (frame_of c k ?n pt)" by (simp add: frame_of_def take_nat_to_le)
  ultimately show ?thesis
    using enc assms(6,7) by (simp add: transport_decrypt)
qed

theorem session_stalls_witness:
  "\<exists>f. fst (cipher_encrypt demo_crypto [7] [] ((new_with_key [] True)\<lparr>cs_nonce := 4294967296\<rparr>)) = Inr f
    \<and> fst (cipher_decrypt demo_crypto f [] (mark_nonce_as_seen 4294967295 (new_with_key [] True)))
      = Inl ReplayDetected"
proof -
  have "cs_highest (mark_nonce_as_seen 4294967295 (new_with_key [] True)) = 2 ^ 32 - 1"
    by (simp add: mark_nonce_as_seen_def new_with_key_def Let_def)
  then show ?thesis
    using session_stalls [OF demo_aead_ok, of "(new_with_key [] True)\<lparr>cs_nonce := 4294967296\<rparr>" "[]"
        "mark_nonce_as_seen 4294967295 (new_with_key [] True)" "[7]"]
    by (fastforce simp: new_with_key_def)
qed

end
