(* ===== verification/Noise_Handshake.thy ===== *)
theory Noise_Handshake
  imports Noise_Cipher Text
begin

text \<open>
  The Noise handshakes of noise_protocol.rs: the symmetric state, the tokens of a message
  pattern, writing and reading messages, key validation and the transport ciphers; and the
  one-way sealing of courier.rs built on them.  Every step returns its result beside the
  state it leaves, also when it fails, because the code mutates in place.  The random
  ephemeral key is an argument of the writer.
\<close>

datatype noise_pattern = XX | IK | NK | X

datatype noise_role = Initiator | Responder

datatype token = TE | TS | TEE | TES | TSE | TSS

fun pattern_name :: "noise_pattern \<Rightarrow> text_bytes" where
  "pattern_name XX = ascii ''XX''"
| "pattern_name IK = ascii ''IK''"
| "pattern_name NK = ascii ''NK''"
| "pattern_name X = ascii ''X''"

fun message_patterns :: "noise_pattern \<Rightarrow> token list list" where
  "message_patterns XX = [[TE], [TE, TEE, TS, TES], [TS, TSE]]"
| "message_patterns IK = [[TE, TES, TS, TSS], [TE, TEE, TSE]]"
| "message_patterns NK = [[TE, TES], [TE, TEE]]"
| "message_patterns X = [[TE, TES, TS, TSS]]"

definition full_name :: "noise_pattern \<Rightarrow> text_bytes" where
  "full_name p = ascii ''Noise_'' @ pattern_name p @ ascii ''_25519_ChaChaPoly_SHA256''"

section \<open>The symmetric state\<close>

record symmetric =
  ss_cipher :: cipher_state
  ss_chaining_key :: bytes
  ss_hash :: bytes

definition symmetric_new :: "crypto \<Rightarrow> text_bytes \<Rightarrow> symmetric" where
  "symmetric_new c name =
     (let h = (if length name \<le> 32 then name @ replicate (32 - length name) 0 else sha256 c name)
      in \<lparr>ss_cipher = cipher_new, ss_chaining_key = h, ss_hash = h\<rparr>)"

text \<open>\<open>for i in 1..=num_outputs\<close>\<close>

fun hkdf_outputs :: "crypto \<Rightarrow> bytes \<Rightarrow> nat \<Rightarrow> nat \<Rightarrow> bytes \<Rightarrow> bytes list" where
  "hkdf_outputs c temp_key 0 i current = []"
| "hkdf_outputs c temp_key (Suc n) i current =
     (let out = hmac256 c temp_key (current @ [of_nat i]) in out # hkdf_outputs c temp_key n (Suc i) out)"

definition hkdf :: "crypto \<Rightarrow> bytes \<Rightarrow> bytes \<Rightarrow> nat \<Rightarrow> bytes list" where
  "hkdf c chaining_key ikm n = hkdf_outputs c (hmac256 c chaining_key ikm) n 1 []"

definition mix_key :: "crypto \<Rightarrow> bytes \<Rightarrow> symmetric \<Rightarrow> symmetric" where
  "mix_key c ikm s =
     (let out = hkdf c (ss_chaining_key s) ikm 2
      in s\<lparr>ss_chaining_key := out ! 0, ss_cipher := initialize_key (out ! 1) (ss_cipher s)\<rparr>)"

definition mix_hash :: "crypto \<Rightarrow> bytes \<Rightarrow> symmetric \<Rightarrow> symmetric" where
  "mix_hash c d s = s\<lparr>ss_hash := sha256 c (ss_hash s @ d)\<rparr>"

definition mix_key_and_hash :: "crypto \<Rightarrow> bytes \<Rightarrow> symmetric \<Rightarrow> symmetric" where
  "mix_key_and_hash c ikm s =
     (let out = hkdf c (ss_chaining_key s) ikm 3;
          s = mix_hash c (out ! 1) (s\<lparr>ss_chaining_key := out ! 0\<rparr>)
      in s\<lparr>ss_cipher := initialize_key (out ! 2) (ss_cipher s)\<rparr>)"

definition encrypt_and_hash :: "crypto \<Rightarrow> bytes \<Rightarrow> symmetric \<Rightarrow> (noise_error + bytes) \<times> symmetric" where
  "encrypt_and_hash c plaintext s =
     (if has_key (ss_cipher s) then
        (case cipher_encrypt c plaintext (ss_hash s) (ss_cipher s) of
           (Inl e, cs) \<Rightarrow> (Inl e, s\<lparr>ss_cipher := cs\<rparr>)
         | (Inr ct, cs) \<Rightarrow> (Inr ct, mix_hash c ct (s\<lparr>ss_cipher := cs\<rparr>)))
      else (Inr plaintext, mix_hash c plaintext s))"

definition decrypt_and_hash :: "crypto \<Rightarrow> bytes \<Rightarrow> symmetric \<Rightarrow> (noise_error + bytes) \<times> symmetric" where
  "decrypt_and_hash c ciphertext s =
     (if has_key (ss_cipher s) then
        (if ciphertext = [] then (Inr [], mix_hash c ciphertext s)
         else case cipher_decrypt c ciphertext (ss_hash s) (ss_cipher s) of
           (Inl e, cs) \<Rightarrow> (Inl e, s\<lparr>ss_cipher := cs\<rparr>)
         | (Inr pt, cs) \<Rightarrow> (Inr pt, mix_hash c ciphertext (s\<lparr>ss_cipher := cs\<rparr>)))
      else (Inr ciphertext, mix_hash c ciphertext s))"

definition symmetric_split :: "crypto \<Rightarrow> symmetric \<Rightarrow> cipher_state \<times> cipher_state" where
  "symmetric_split c s =
     (let out = hkdf c (ss_chaining_key s) [] 2 in (new_with_key (out ! 0) True, new_with_key (out ! 1) True))"

section \<open>Key validation\<close>

text \<open>The seven low-order points of the table, with bit 255 masked off.\<close>

definition LOW_ORDER_POINTS :: "bytes list" where
  "LOW_ORDER_POINTS =
     [replicate 32 0,
      1 # replicate 31 0,
      [0xe0, 0xeb, 0x7a, 0x7c, 0x3b, 0x41, 0xb8, 0xae, 0x16, 0x56, 0xe3, 0xfa, 0xf1, 0x9f, 0xc4,
       0x6a, 0xda, 0x09, 0x8d, 0xeb, 0x9c, 0x32, 0xb1, 0xfd, 0x86, 0x62, 0x05, 0x16, 0x5f, 0x49,
       0xb8, 0x00],
      [0x5f, 0x9c, 0x95, 0xbc, 0xa3, 0x50, 0x8c, 0x24, 0xb1, 0xd0, 0xb1, 0x55, 0x9c, 0x83, 0xef,
       0x5b, 0x04, 0x44, 0x5c, 0xc4, 0x58, 0x1c, 0x8e, 0x86, 0xd8, 0x22, 0x4e, 0xdd, 0xd0, 0x9f,
       0x11, 0x57],
      0xec # replicate 30 0xff @ [0x7f],
      0xed # replicate 30 0xff @ [0x7f],
      0xee # replicate 30 0xff @ [0x7f]]"

definition validate_public_key :: "bytes \<Rightarrow> noise_error + bytes" where
  "validate_public_key k =
     (if length k \<noteq> 32 then Inl InvalidPublicKey
      else
        let canonical = k[31 := k ! 31 AND 0x7f] in
        if list_all (\<lambda>b. b = 0) canonical then Inl InvalidPublicKey
        else if canonical \<in> set LOW_ORDER_POINTS then Inl InvalidPublicKey
        else Inr k)"

section \<open>The handshake state\<close>

text \<open>
  The public halves of the local keys are functions of the private ones, so they are not
  fields here.
\<close>

record handshake =
  hs_role :: noise_role
  hs_pattern :: noise_pattern
  hs_symmetric :: symmetric
  hs_local_static :: "bytes option"
  hs_local_ephemeral :: "bytes option"
  hs_remote_static :: "bytes option"
  hs_remote_ephemeral :: "bytes option"
  hs_patterns :: "token list list"
  hs_current :: nat

definition mix_pre_message_keys :: "crypto \<Rightarrow> bytes \<Rightarrow> handshake \<Rightarrow> handshake" where
  "mix_pre_message_keys c prologue h =
     (let s = mix_hash c prologue (hs_symmetric h) in
      h\<lparr>hs_symmetric :=
         (if hs_pattern h = XX then s
          else case (if hs_role h = Initiator then hs_remote_static h
                     else map_option (public_key c) (hs_local_static h)) of
            Some key \<Rightarrow> mix_hash c key s
          | None \<Rightarrow> s)\<rparr>)"

definition with_prologue ::
  "crypto \<Rightarrow> noise_role \<Rightarrow> noise_pattern \<Rightarrow> bytes option \<Rightarrow> bytes option \<Rightarrow> bytes \<Rightarrow> handshake" where
  "with_prologue c role pat local_static remote_static prologue =
     mix_pre_message_keys c prologue
       \<lparr>hs_role = role, hs_pattern = pat, hs_symmetric = symmetric_new c (full_name pat),
        hs_local_static = local_static, hs_local_ephemeral = None, hs_remote_static = remote_static,
        hs_remote_ephemeral = None, hs_patterns = message_patterns pat, hs_current = 0\<rparr>"

definition handshake_new ::
  "crypto \<Rightarrow> noise_role \<Rightarrow> noise_pattern \<Rightarrow> bytes option \<Rightarrow> bytes option \<Rightarrow> handshake" where
  "handshake_new c role pat local_static remote_static = with_prologue c role pat local_static remote_static []"

text \<open>The private and the public key a Diffie-Hellman token uses, by role.\<close>

definition dh_keys :: "token \<Rightarrow> handshake \<Rightarrow> bytes option \<times> bytes option" where
  "dh_keys t h =
     (if t = TEE then (hs_local_ephemeral h, hs_remote_ephemeral h)
      else if t = TES then
        (if hs_role h = Initiator then (hs_local_ephemeral h, hs_remote_static h)
         else (hs_local_static h, hs_remote_ephemeral h))
      else if t = TSE then
        (if hs_role h = Initiator then (hs_local_static h, hs_remote_ephemeral h)
         else (hs_local_ephemeral h, hs_remote_static h))
      else (hs_local_static h, hs_remote_static h))"

definition mix_dh :: "crypto \<Rightarrow> token \<Rightarrow> handshake \<Rightarrow> noise_error option \<times> handshake" where
  "mix_dh c t h =
     (case dh_keys t h of
        (Some private, Some public) \<Rightarrow>
          (None, h\<lparr>hs_symmetric := mix_key c (diffie_hellman c private public) (hs_symmetric h)\<rparr>)
      | _ \<Rightarrow> (Some MissingKeys, h))"

section \<open>Writing\<close>

definition write_token ::
  "crypto \<Rightarrow> bytes \<Rightarrow> token \<Rightarrow> handshake \<Rightarrow> (noise_error + bytes) \<times> handshake" where
  "write_token c ephemeral t h =
     (if t = TE then
        (let public = public_key c ephemeral in
         (Inr public, h\<lparr>hs_local_ephemeral := Some ephemeral,
                        hs_symmetric := mix_hash c public (hs_symmetric h)\<rparr>))
      else if t = TS then
        (case hs_local_static h of
           None \<Rightarrow> (Inl MissingLocalStaticKey, h)
         | Some k \<Rightarrow>
             (let (r, s) = encrypt_and_hash c (public_key c k) (hs_symmetric h)
              in (r, h\<lparr>hs_symmetric := s\<rparr>)))
      else
        (case mix_dh c t h of (Some e, h) \<Rightarrow> (Inl e, h) | (None, h) \<Rightarrow> (Inr [], h)))"

fun write_tokens ::
  "crypto \<Rightarrow> bytes \<Rightarrow> token list \<Rightarrow> handshake \<Rightarrow> (noise_error + bytes) \<times> handshake" where
  "write_tokens c ephemeral [] h = (Inr [], h)"
| "write_tokens c ephemeral (t # ts) h =
     (case write_token c ephemeral t h of
        (Inl e, h) \<Rightarrow> (Inl e, h)
      | (Inr bs, h) \<Rightarrow>
          (case write_tokens c ephemeral ts h of
             (Inl e, h) \<Rightarrow> (Inl e, h)
           | (Inr cs, h) \<Rightarrow> (Inr (bs @ cs), h)))"

definition write_message ::
  "crypto \<Rightarrow> bytes \<Rightarrow> bytes \<Rightarrow> handshake \<Rightarrow> (noise_error + bytes) \<times> handshake" where
  "write_message c ephemeral payload h =
     (if hs_current h \<ge> length (hs_patterns h) then (Inl HandshakeComplete, h)
      else case write_tokens c ephemeral (hs_patterns h ! hs_current h) h of
        (Inl e, h) \<Rightarrow> (Inl e, h)
      | (Inr buffer, h) \<Rightarrow>
          (case encrypt_and_hash c payload (hs_symmetric h) of
             (Inl e, s) \<Rightarrow> (Inl e, h\<lparr>hs_symmetric := s\<rparr>)
           | (Inr encrypted, s) \<Rightarrow>
               (Inr (buffer @ encrypted), h\<lparr>hs_symmetric := s, hs_current := hs_current h + 1\<rparr>)))"

section \<open>Reading\<close>

text \<open>Reading a token returns what is left of the message.\<close>

definition read_token ::
  "crypto \<Rightarrow> token \<Rightarrow> bytes \<Rightarrow> handshake \<Rightarrow> (noise_error + bytes) \<times> handshake" where
  "read_token c t m h =
     (if t = TE then
        (if length m < 32 then (Inl InvalidMessage, h)
         else case validate_public_key (take 32 m) of
           Inl e \<Rightarrow> (Inl e, h)
         | Inr key \<Rightarrow>
             (Inr (drop 32 m), h\<lparr>hs_remote_ephemeral := Some key,
                                 hs_symmetric := mix_hash c (take 32 m) (hs_symmetric h)\<rparr>))
      else if t = TS then
        (let key_length = (if has_key (ss_cipher (hs_symmetric h)) then 48 else 32) in
         if length m < key_length then (Inl InvalidMessage, h)
         else case decrypt_and_hash c (take key_length m) (hs_symmetric h) of
           (Inl e, s) \<Rightarrow> (Inl e, h\<lparr>hs_symmetric := s\<rparr>)
         | (Inr static, s) \<Rightarrow>
             (let h = h\<lparr>hs_symmetric := s\<rparr> in
              if length static \<noteq> 32 then (Inl InvalidMessage, h)
              else case validate_public_key static of
                Inl e \<Rightarrow> (Inl AuthenticationFailure, h)
              | Inr key \<Rightarrow> (Inr (drop key_length m), h\<lparr>hs_remote_static := Some key\<rparr>)))
      else
        (case mix_dh c t h of (Some e, h) \<Rightarrow> (Inl e, h) | (None, h) \<Rightarrow> (Inr m, h)))"

fun read_tokens ::
  "crypto \<Rightarrow> token list \<Rightarrow> bytes \<Rightarrow> handshake \<Rightarrow> (noise_error + bytes) \<times> handshake" where
  "read_tokens c [] m h = (Inr m, h)"
| "read_tokens c (t # ts) m h =
     (case read_token c t m h of
        (Inl e, h) \<Rightarrow> (Inl e, h)
      | (Inr m, h) \<Rightarrow> read_tokens c ts m h)"

definition read_message ::
  "crypto \<Rightarrow> bytes \<Rightarrow> handshake \<Rightarrow> (noise_error + bytes) \<times> handshake" where
  "read_message c m h =
     (if hs_current h \<ge> length (hs_patterns h) then (Inl HandshakeComplete, h)
      else case read_tokens c (hs_patterns h ! hs_current h) m h of
        (Inl e, h) \<Rightarrow> (Inl e, h)
      | (Inr payload, h) \<Rightarrow>
          (case decrypt_and_hash c payload (hs_symmetric h) of
             (Inl e, s) \<Rightarrow> (Inl e, h\<lparr>hs_symmetric := s\<rparr>)
           | (Inr pt, s) \<Rightarrow> (Inr pt, h\<lparr>hs_symmetric := s, hs_current := hs_current h + 1\<rparr>)))"

definition is_handshake_complete :: "handshake \<Rightarrow> bool" where
  "is_handshake_complete h \<longleftrightarrow> hs_current h \<ge> length (hs_patterns h)"

text \<open>The sending and the receiving cipher.\<close>

definition get_transport_ciphers :: "crypto \<Rightarrow> handshake \<Rightarrow> noise_error + cipher_state \<times> cipher_state" where
  "get_transport_ciphers c h =
     (if \<not> is_handshake_complete h then Inl HandshakeNotComplete
      else let (c1, c2) = symmetric_split c (hs_symmetric h)
           in Inr (if hs_role h = Initiator then (c1, c2) else (c2, c1)))"

section \<open>One-way sealing\<close>

definition SEAL_PROLOGUE :: bytes where
  "SEAL_PROLOGUE = ascii ''bitchat-courier-v1''"

definition seal :: "crypto \<Rightarrow> bytes \<Rightarrow> bytes \<Rightarrow> bytes \<Rightarrow> bytes \<Rightarrow> bytes option" where
  "seal c ephemeral payload recipient_static_key our_static =
     (case validate_public_key recipient_static_key of
        Inl e \<Rightarrow> None
      | Inr recipient \<Rightarrow>
          (case fst (write_message c ephemeral payload
                  (with_prologue c Initiator X (Some our_static) (Some recipient) SEAL_PROLOGUE)) of
             Inl e \<Rightarrow> None
           | Inr m \<Rightarrow> Some m))"

definition open_sealed :: "crypto \<Rightarrow> bytes \<Rightarrow> bytes \<Rightarrow> (bytes \<times> bytes) option" where
  "open_sealed c ciphertext our_static =
     (case read_message c ciphertext
             (with_prologue c Responder X (Some our_static) None SEAL_PROLOGUE) of
        (Inl e, h) \<Rightarrow> None
      | (Inr payload, h) \<Rightarrow>
          (case hs_remote_static h of None \<Rightarrow> None | Some sender \<Rightarrow> Some (payload, sender)))"

section \<open>Writer and reader in step\<close>

text \<open>
  The two ends of a handshake, one about to write and one about to read: opposite roles,
  the same transcript, and every remote key that is known is the public half of the other
  end's local key.
\<close>

definition in_step :: "crypto \<Rightarrow> handshake \<Rightarrow> handshake \<Rightarrow> bool" where
  "in_step c w r \<longleftrightarrow>
     hs_role w \<noteq> hs_role r \<and> hs_symmetric w = hs_symmetric r
     \<and> hs_patterns w = hs_patterns r \<and> hs_current w = hs_current r
     \<and> hs_remote_ephemeral r = map_option (public_key c) (hs_local_ephemeral w)
     \<and> hs_remote_ephemeral w = map_option (public_key c) (hs_local_ephemeral r)
     \<and> (\<forall>x. hs_remote_static r = Some x \<longrightarrow> (\<exists>k. hs_local_static w = Some k \<and> x = public_key c k))
     \<and> (\<forall>x. hs_remote_static w = Some x \<longrightarrow> (\<exists>k. hs_local_static r = Some k \<and> x = public_key c k))"

lemma Some_eq_map_option: "Some y = map_option f x \<longleftrightarrow> (\<exists>k. x = Some k \<and> y = f k)"
  by (cases x) auto

lemma in_step_sym: "in_step c w r \<Longrightarrow> in_step c r w"
  by (auto simp: in_step_def)

text \<open>A key whose public half passes validation.\<close>

definition sound_key :: "crypto \<Rightarrow> bytes \<Rightarrow> bool" where
  "sound_key c k \<longleftrightarrow> validate_public_key (public_key c k) = Inr (public_key c k)"

text \<open>
  The tokens for which the reader has its keys, given whether it knows the writer's static
  key: that key must come before the tokens that use it.
\<close>

fun ready_tokens :: "noise_role \<Rightarrow> bool \<Rightarrow> token list \<Rightarrow> bool" where
  "ready_tokens ro known [] = True"
| "ready_tokens ro known (TS # ts) = ready_tokens ro True ts"
| "ready_tokens ro known (TES # ts) = ((ro = Initiator \<or> known) \<and> ready_tokens ro known ts)"
| "ready_tokens ro known (TSE # ts) = ((ro = Responder \<or> known) \<and> ready_tokens ro known ts)"
| "ready_tokens ro known (TSS # ts) = (known \<and> ready_tokens ro known ts)"
| "ready_tokens ro known (t # ts) = ready_tokens ro known ts"

lemma sound_key_length: "sound_key c k \<Longrightarrow> length (public_key c k) = 32"
  by (auto simp: sound_key_def validate_public_key_def split: if_splits)

lemma encrypt_decrypt_hash:
  assumes "aead_ok c" and "encrypt_and_hash c pt s = (Inr ct, s')"
    and "\<not> cs_use_extracted_nonce (ss_cipher s)"
  shows "decrypt_and_hash c ct s = (Inr pt, s')
    \<and> length ct = length pt + (if has_key (ss_cipher s) then 16 else 0)
    \<and> \<not> cs_use_extracted_nonce (ss_cipher s') \<and> has_key (ss_cipher s') = has_key (ss_cipher s)"
proof (cases "cs_key (ss_cipher s)")
  case None
  then show ?thesis using assms by (auto simp: encrypt_and_hash_def decrypt_and_hash_def has_key_def mix_hash_def)
next
  case (Some k)
  obtain x where "aead_enc c k (aead_nonce (unat (cs_nonce (ss_cipher s)))) (ss_hash s) pt = Some x"
    "length x = length pt + 16" "aead_dec c k (aead_nonce (unat (cs_nonce (ss_cipher s)))) (ss_hash s) x = Some pt"
    using assms(1) unfolding aead_ok_def by blast
  then show ?thesis using assms(2,3) Some
    by (auto simp: encrypt_and_hash_def decrypt_and_hash_def has_key_def cipher_encrypt_def cipher_decrypt_def
        decrypt_with_def mix_hash_def)
qed

definition internal_nonce :: "handshake \<Rightarrow> bool" where
  "internal_nonce h \<longleftrightarrow> \<not> cs_use_extracted_nonce (ss_cipher (hs_symmetric h))"

lemma write_token_step:
  assumes "aead_ok c" "dh_ok c" and "in_step c w r" "internal_nonce w"
    and "sound_key c e" "\<And>k. hs_local_static w = Some k \<Longrightarrow> sound_key c k"
    and "known \<longrightarrow> hs_remote_static r \<noteq> None" "ready_tokens (hs_role w) known [t]"
    and "write_token c e t w = (Inr bs, w')"
  shows "\<exists>r'. read_token c t (bs @ rest) r = (Inr rest, r') \<and> in_step c w' r' \<and> internal_nonce w'
    \<and> hs_role w' = hs_role w \<and> hs_local_static w' = hs_local_static w \<and> hs_pattern w' = hs_pattern w
    \<and> hs_patterns w' = hs_patterns w \<and> hs_current w' = hs_current w
    \<and> (known \<or> t = TS \<longrightarrow> hs_remote_static r' \<noteq> None)"
proof -
  note st = assms(3) [unfolded in_step_def]
  have ini: "initialize_key k s = (initialize_key k s)\<lparr>cs_use_extracted_nonce := cs_use_extracted_nonce s\<rparr>" for k s
    by (simp add: initialize_key_def)
  have ext: "cs_use_extracted_nonce (ss_cipher (mix_key c x s)) = cs_use_extracted_nonce (ss_cipher s)" for x s
    by (simp add: mix_key_def Let_def initialize_key_def)
  consider "t = TE" | "t = TS" | "t \<noteq> TE" "t \<noteq> TS" by blast
  then show ?thesis
  proof cases
    case 1
    with assms show ?thesis
      by (auto simp: write_token_def read_token_def Let_def in_step_def internal_nonce_def sound_key_def
          sound_key_length mix_hash_def)
  next
    case 2
    with assms(9) obtain k s where k: "hs_local_static w = Some k"
      and enc: "encrypt_and_hash c (public_key c k) (hs_symmetric w) = (Inr bs, s)"
      and w': "w' = w\<lparr>hs_symmetric := s\<rparr>"
      by (auto simp: write_token_def Let_def split: option.splits prod.splits)
    have "length (public_key c k) = 32" "validate_public_key (public_key c k) = Inr (public_key c k)"
      using assms(6) [OF k] sound_key_length by (simp_all add: sound_key_def)
    moreover have "\<not> cs_use_extracted_nonce (ss_cipher (hs_symmetric w))"
      using assms(4) by (simp add: internal_nonce_def)
    note encrypt_decrypt_hash [OF assms(1) enc this]
    ultimately show ?thesis using 2 w' k st
      by (auto simp: read_token_def Let_def in_step_def internal_nonce_def)
  next
    case 3
    with assms(9) obtain a p where keys: "dh_keys t w = (Some a, Some p)"
      and w': "w' = w\<lparr>hs_symmetric := mix_key c (diffie_hellman c a p) (hs_symmetric w)\<rparr>" and "bs = []"
      by (auto simp: write_token_def mix_dh_def split: option.splits prod.splits)
    have "\<exists>b q. dh_keys t r = (Some b, Some q) \<and> diffie_hellman c b q = diffie_hellman c a p"
    proof -
      have comm: "diffie_hellman c x (public_key c y) = diffie_hellman c y (public_key c x)" for x y
        using assms(2) by (simp add: dh_ok_def)
      have "hs_role r = (if hs_role w = Initiator then Responder else Initiator)"
        using st by (cases "hs_role w"; cases "hs_role r") auto
      then show ?thesis
        using keys st assms(7,8) 3 comm
        by (cases t) (auto simp: dh_keys_def Some_eq_map_option split: if_splits)
    qed
    then have "read_token c t rest r = (Inr rest, r\<lparr>hs_symmetric := mix_key c (diffie_hellman c a p) (hs_symmetric r)\<rparr>)"
      using 3 by (auto simp: read_token_def mix_dh_def)
    then show ?thesis using st w' \<open>bs = []\<close> 3 assms(4,7)
      by (auto simp: in_step_def internal_nonce_def ext)
  qed
qed

lemma ready_tokens_Cons:
  "ready_tokens ro known (t # ts) \<longleftrightarrow> ready_tokens ro known [t] \<and> ready_tokens ro (known \<or> t = TS) ts"
  by (cases t) auto

lemma write_tokens_step:
  assumes "aead_ok c" "dh_ok c" and "sound_key c e"
  shows "in_step c w r \<Longrightarrow> internal_nonce w \<Longrightarrow> (\<And>k. hs_local_static w = Some k \<Longrightarrow> sound_key c k) \<Longrightarrow>
    known \<longrightarrow> hs_remote_static r \<noteq> None \<Longrightarrow> ready_tokens (hs_role w) known ts \<Longrightarrow>
    write_tokens c e ts w = (Inr bs, w') \<Longrightarrow>
    \<exists>r'. read_tokens c ts (bs @ rest) r = (Inr rest, r') \<and> in_step c w' r' \<and> internal_nonce w'
      \<and> hs_role w' = hs_role w \<and> hs_local_static w' = hs_local_static w
      \<and> hs_patterns w' = hs_patterns w \<and> hs_current w' = hs_current w
      \<and> (known \<or> TS \<in> set ts \<longrightarrow> hs_remote_static r' \<noteq> None)"
proof (induction ts arbitrary: w r known bs)
  case (Cons t ts)
  from Cons.prems(6) obtain xs v ys where t: "write_token c e t w = (Inr xs, v)"
    and ts: "write_tokens c e ts v = (Inr ys, w')" and bs: "bs = xs @ ys"
    by (auto split: prod.splits sum.splits)
  have rt: "ready_tokens (hs_role w) known [t]" "ready_tokens (hs_role w) (known \<or> t = TS) ts"
    using Cons.prems(5) ready_tokens_Cons by blast+
  from write_token_step [OF assms(1,2) Cons.prems(1,2) assms(3) Cons.prems(3,4) rt(1) t, of "ys @ rest"]
  obtain r1 where r1: "read_token c t (xs @ ys @ rest) r = (Inr (ys @ rest), r1)" "in_step c v r1" "internal_nonce v"
    "hs_role v = hs_role w" "hs_local_static v = hs_local_static w" "hs_patterns v = hs_patterns w"
    "hs_current v = hs_current w" "known \<or> t = TS \<longrightarrow> hs_remote_static r1 \<noteq> None" by blast
  have "\<And>k. hs_local_static v = Some k \<Longrightarrow> sound_key c k" using Cons.prems(3) r1(5) by simp
  from Cons.IH [OF r1(2,3) this r1(8) rt(2) [folded r1(4)] ts] r1 bs show ?case by auto
qed auto

lemma write_message_step:
  assumes "aead_ok c" "dh_ok c" "sound_key c e"
    and "in_step c w r" "internal_nonce w" "\<And>k. hs_local_static w = Some k \<Longrightarrow> sound_key c k"
    and "ready_tokens (hs_role w) (hs_remote_static r \<noteq> None) (hs_patterns w ! hs_current w)"
    and "write_message c e payload w = (Inr m, w')"
  shows "\<exists>r'. read_message c m r = (Inr payload, r') \<and> in_step c w' r' \<and> internal_nonce w'
    \<and> hs_role w' = hs_role w \<and> hs_local_static w' = hs_local_static w
    \<and> hs_patterns w' = hs_patterns w \<and> hs_current w' = hs_current w + 1
    \<and> (hs_remote_static r \<noteq> None \<or> TS \<in> set (hs_patterns w ! hs_current w) \<longrightarrow> hs_remote_static r' \<noteq> None)"
proof -
  let ?ts = "hs_patterns w ! hs_current w"
  from assms(8) obtain buf v ct s where cur: "\<not> hs_current w \<ge> length (hs_patterns w)"
    and toks: "write_tokens c e ?ts w = (Inr buf, v)"
    and enc: "encrypt_and_hash c payload (hs_symmetric v) = (Inr ct, s)"
    and m: "m = buf @ ct" and w': "w' = v\<lparr>hs_symmetric := s, hs_current := hs_current v + 1\<rparr>"
    by (auto simp: write_message_def split: if_splits prod.splits sum.splits)
  from write_tokens_step [OF assms(1-6) _ assms(7) toks, of ct] obtain r1
    where r1: "read_tokens c ?ts (buf @ ct) r = (Inr ct, r1)" "in_step c v r1" "internal_nonce v"
    "hs_role v = hs_role w" "hs_local_static v = hs_local_static w" "hs_patterns v = hs_patterns w"
    "hs_current v = hs_current w" "hs_remote_static r \<noteq> None \<or> TS \<in> set ?ts \<longrightarrow> hs_remote_static r1 \<noteq> None"
    by blast
  have "hs_symmetric v = hs_symmetric r1" "hs_current r = hs_current w" "hs_patterns r = hs_patterns w"
    "hs_current r1 = hs_current v" using r1(2) assms(4) by (simp_all add: in_step_def)
  moreover have "\<not> cs_use_extracted_nonce (ss_cipher (hs_symmetric v))" using r1(3) by (simp add: internal_nonce_def)
  note encrypt_decrypt_hash [OF assms(1) enc this]
  ultimately show ?thesis using r1 cur m w'
    by (auto simp: read_message_def in_step_def internal_nonce_def)
qed

section \<open>A message exchanged\<close>

text \<open>When the writer has every key its tokens use.\<close>

fun can_write :: "noise_role \<Rightarrow> bool \<Rightarrow> bool \<Rightarrow> bool \<Rightarrow> bool \<Rightarrow> token list \<Rightarrow> bool" where
  "can_write ro ls le rs re [] = True"
| "can_write ro ls le rs re (TE # ts) = can_write ro ls True rs re ts"
| "can_write ro ls le rs re (TS # ts) = (ls \<and> can_write ro ls le rs re ts)"
| "can_write ro ls le rs re (TEE # ts) = (le \<and> re \<and> can_write ro ls le rs re ts)"
| "can_write ro ls le rs re (TES # ts) =
     ((if ro = Initiator then le \<and> rs else ls \<and> re) \<and> can_write ro ls le rs re ts)"
| "can_write ro ls le rs re (TSE # ts) =
     ((if ro = Initiator then ls \<and> re else le \<and> rs) \<and> can_write ro ls le rs re ts)"
| "can_write ro ls le rs re (TSS # ts) = (ls \<and> rs \<and> can_write ro ls le rs re ts)"

lemma encrypt_succeeds: "aead_ok c \<Longrightarrow> \<exists>ct s'. encrypt_and_hash c pt s = (Inr ct, s')"
proof -
  assume "aead_ok c"
  then have "\<exists>ct. aead_enc c k n ad pt = Some ct" for k n ad unfolding aead_ok_def by blast
  then show ?thesis
    by (cases "cs_key (ss_cipher s)")
      (auto simp: encrypt_and_hash_def has_key_def cipher_encrypt_def split: option.split)
qed

lemma write_token_fields:
  "write_token c e t h = (r, h') \<Longrightarrow>
   hs_role h' = hs_role h \<and> hs_local_static h' = hs_local_static h \<and> hs_remote_static h' = hs_remote_static h
   \<and> hs_remote_ephemeral h' = hs_remote_ephemeral h
   \<and> hs_local_ephemeral h' = (if t = TE then Some e else hs_local_ephemeral h)
   \<and> hs_patterns h' = hs_patterns h \<and> hs_current h' = hs_current h"
  by (auto simp: write_token_def mix_dh_def Let_def split: if_splits option.splits prod.splits)

lemma write_tokens_fields:
  "write_tokens c e ts h = (r, h') \<Longrightarrow>
   hs_role h' = hs_role h \<and> hs_local_static h' = hs_local_static h \<and> hs_remote_static h' = hs_remote_static h
   \<and> hs_remote_ephemeral h' = hs_remote_ephemeral h
   \<and> (hs_local_ephemeral h \<noteq> None \<longrightarrow> hs_local_ephemeral h' \<noteq> None)
   \<and> (isl r \<or> (TE \<in> set ts \<longrightarrow> hs_local_ephemeral h' \<noteq> None))
   \<and> hs_patterns h' = hs_patterns h \<and> hs_current h' = hs_current h"
proof (induction ts arbitrary: h r h')
  case (Cons t ts)
  obtain r1 h1 where 1: "write_token c e t h = (r1, h1)" by force
  obtain r2 h2 where 2: "write_tokens c e ts h1 = (r2, h2)" by force
  from Cons.IH [OF 2] write_token_fields [OF 1] Cons.prems 1 2 show ?case
    by (auto split: sum.splits)
qed simp

lemma write_token_succeeds:
  assumes "aead_ok c"
    and "can_write (hs_role h) (hs_local_static h \<noteq> None) (hs_local_ephemeral h \<noteq> None)
       (hs_remote_static h \<noteq> None) (hs_remote_ephemeral h \<noteq> None) [t]"
  shows "\<exists>bs h'. write_token c e t h = (Inr bs, h')"
proof (cases "t = TS")
  case True
  with assms(2) obtain k where "hs_local_static h = Some k" by auto
  moreover obtain ct s where "encrypt_and_hash c (public_key c k) (hs_symmetric h) = (Inr ct, s)"
    using encrypt_succeeds [OF assms(1)] by blast
  ultimately show ?thesis using True by (simp add: write_token_def)
next
  case False
  then show ?thesis using assms(2)
    by (cases t) (auto simp: write_token_def mix_dh_def dh_keys_def Let_def split: if_split_asm)
qed

lemma can_write_Cons:
  "can_write ro ls le rs re (t # ts) \<longleftrightarrow> can_write ro ls le rs re [t] \<and> can_write ro ls (le \<or> t = TE) rs re ts"
  by (cases t) auto

lemma write_tokens_succeed:
  "aead_ok c \<Longrightarrow> can_write (hs_role h) (hs_local_static h \<noteq> None) (hs_local_ephemeral h \<noteq> None)
     (hs_remote_static h \<noteq> None) (hs_remote_ephemeral h \<noteq> None) ts \<Longrightarrow>
   \<exists>bs h'. write_tokens c e ts h = (Inr bs, h')"
proof (induction ts arbitrary: h)
  case (Cons t ts)
  note can = Cons.prems(2) [THEN can_write_Cons [THEN iffD1]]
  obtain bs h1 where 1: "write_token c e t h = (Inr bs, h1)"
    using write_token_succeeds [OF Cons.prems(1)] can by blast
  have "(hs_local_ephemeral h1 \<noteq> None) = (hs_local_ephemeral h \<noteq> None \<or> t = TE)"
    using write_token_fields [OF 1] by simp
  then obtain cs h2 where "write_tokens c e ts h1 = (Inr cs, h2)"
    using Cons.IH [OF Cons.prems(1), of h1] can write_token_fields [OF 1] by auto
  then show ?case using 1 by simp
qed simp

lemma read_token_fields:
  "read_token c t m h = (r, h') \<Longrightarrow>
   hs_role h' = hs_role h \<and> hs_local_static h' = hs_local_static h \<and> hs_local_ephemeral h' = hs_local_ephemeral h
   \<and> hs_patterns h' = hs_patterns h \<and> hs_current h' = hs_current h"
  by (auto simp: read_token_def mix_dh_def Let_def split: if_splits option.splits prod.splits sum.splits)

lemma read_tokens_fields:
  "read_tokens c ts m h = (r, h') \<Longrightarrow>
   hs_role h' = hs_role h \<and> hs_local_static h' = hs_local_static h \<and> hs_local_ephemeral h' = hs_local_ephemeral h
   \<and> hs_patterns h' = hs_patterns h \<and> hs_current h' = hs_current h"
proof (induction ts arbitrary: h m r h')
  case (Cons t ts)
  obtain r1 h1 where 1: "read_token c t m h = (r1, h1)" by force
  from Cons.IH [of _ h1] read_token_fields [OF 1] Cons.prems 1 show ?case
    by (cases r1) auto
qed simp

lemma read_message_fields:
  "read_message c m h = (r, h') \<Longrightarrow>
   hs_role h' = hs_role h \<and> hs_local_static h' = hs_local_static h \<and> hs_local_ephemeral h' = hs_local_ephemeral h
   \<and> hs_patterns h' = hs_patterns h"
  by (auto simp: read_message_def split: if_splits prod.splits sum.splits dest!: read_tokens_fields)

text \<open>One message, from a writer that has its keys to a reader that will have its own.\<close>

lemma exchange:
  assumes "aead_ok c" "dh_ok c" "sound_key c e"
    and "in_step c w r" "internal_nonce w" "\<And>k. hs_local_static w = Some k \<Longrightarrow> sound_key c k"
    and "hs_current w < length (hs_patterns w)" "hs_patterns w ! hs_current w = ts"
    and "ready_tokens (hs_role w) (hs_remote_static r \<noteq> None) ts"
    and "can_write (hs_role w) (hs_local_static w \<noteq> None) (hs_local_ephemeral w \<noteq> None)
       (hs_remote_static w \<noteq> None) (hs_remote_ephemeral w \<noteq> None) ts"
  shows "\<exists>m w' r'. write_message c e payload w = (Inr m, w')
    \<and> read_message c m r = (Inr payload, r')
    \<and> in_step c w' r'
    \<and> internal_nonce w'
    \<and> internal_nonce r'
    \<and> hs_role w' = hs_role w
    \<and> hs_role r' = hs_role r
    \<and> hs_local_static w' = hs_local_static w
    \<and> hs_local_static r' = hs_local_static r
    \<and> hs_patterns w' = hs_patterns w
    \<and> hs_patterns r' = hs_patterns w
    \<and> hs_current w' = hs_current w + 1
    \<and> hs_current r' = hs_current w + 1
    \<and> hs_remote_static w' = hs_remote_static w
    \<and> hs_remote_ephemeral w' = hs_remote_ephemeral w
    \<and> hs_local_ephemeral r' = hs_local_ephemeral r
    \<and> (hs_local_ephemeral w \<noteq> None \<or> TE \<in> set ts \<longrightarrow> hs_remote_ephemeral r' \<noteq> None)
    \<and> (hs_remote_static r \<noteq> None \<or> TS \<in> set ts \<longrightarrow> hs_remote_static r' \<noteq> None)
    \<and> (hs_local_ephemeral w \<noteq> None \<or> TE \<in> set ts \<longrightarrow> hs_local_ephemeral w' \<noteq> None)"
proof -
  obtain buf v where toks: "write_tokens c e ts w = (Inr buf, v)"
    using write_tokens_succeed [OF assms(1,10)] by blast
  obtain ct s where "encrypt_and_hash c payload (hs_symmetric v) = (Inr ct, s)"
    using encrypt_succeeds [OF assms(1)] by blast
  then have w: "write_message c e payload w = (Inr (buf @ ct), v\<lparr>hs_symmetric := s, hs_current := hs_current v + 1\<rparr>)"
    (is "_ = (_, ?w)") using assms(7,8) toks by (simp add: write_message_def)
  from write_message_step [OF assms(1-6) _ w] assms(8,9) obtain r'
    where r: "read_message c (buf @ ct) r = (Inr payload, r')" "in_step c ?w r'" "internal_nonce ?w"
      "hs_current ?w = hs_current w + 1"
      "hs_remote_static r \<noteq> None \<or> TS \<in> set ts \<longrightarrow> hs_remote_static r' \<noteq> None" by blast
  note f = write_tokens_fields [OF toks] read_message_fields [OF r(1)]
  have "internal_nonce r'" using r(2,3) by (simp add: in_step_def internal_nonce_def)
  moreover have "hs_patterns r = hs_patterns w" using assms(4) by (simp add: in_step_def)
  moreover have "hs_remote_ephemeral r' = map_option (public_key c) (hs_local_ephemeral v)"
    "hs_current r' = hs_current w + 1"
    using r(2,4) by (simp_all add: in_step_def)
  ultimately show ?thesis using r f
    by (intro exI [of _ "buf @ ct"] exI [of _ ?w] exI [of _ r'] conjI w) simp_all
qed

lemma start_in_step:
  assumes "rs = None \<or> pat \<noteq> XX \<and> rs = Some (public_key c sr)" "pat = XX \<or> rs \<noteq> None"
  shows "in_step c (with_prologue c Initiator pat ls rs prologue) (with_prologue c Responder pat (Some sr) None prologue)
    \<and> internal_nonce (with_prologue c Initiator pat ls rs prologue)"
  using assms
  by (auto simp: in_step_def with_prologue_def mix_pre_message_keys_def internal_nonce_def symmetric_new_def
      mix_hash_def cipher_new_def Let_def)

lemma start_fields [simp]:
  "hs_role (with_prologue c ro pat ls rs d) = ro" "hs_local_static (with_prologue c ro pat ls rs d) = ls"
  "hs_remote_static (with_prologue c ro pat ls rs d) = rs" "hs_local_ephemeral (with_prologue c ro pat ls rs d) = None"
  "hs_remote_ephemeral (with_prologue c ro pat ls rs d) = None"
  "hs_patterns (with_prologue c ro pat ls rs d) = message_patterns pat" "hs_current (with_prologue c ro pat ls rs d) = 0"
  by (simp_all add: with_prologue_def mix_pre_message_keys_def Let_def)

section \<open>Complete runs\<close>

text \<open>What both ends hold once the three messages of XX are through.\<close>

definition xx_agreed :: "crypto \<Rightarrow> bytes \<Rightarrow> bytes \<Rightarrow> handshake \<Rightarrow> handshake \<Rightarrow> bool" where
  "xx_agreed c si sr hi hr \<longleftrightarrow>
     is_handshake_complete hi \<and> is_handshake_complete hr
     \<and> hs_remote_static hi = Some (public_key c sr) \<and> hs_remote_static hr = Some (public_key c si)
     \<and> hs_symmetric hi = hs_symmetric hr
     \<and> (\<exists>k1 k2. get_transport_ciphers c hi = Inr (new_with_key k1 True, new_with_key k2 True)
              \<and> get_transport_ciphers c hr = Inr (new_with_key k2 True, new_with_key k1 True))"

lemma xx_run:
  assumes "aead_ok c" "dh_ok c" and sound: "sound_key c si" "sound_key c sr" "sound_key c ei" "sound_key c er"
    and i: "i = handshake_new c Initiator XX (Some si) None" and r: "r = handshake_new c Responder XX (Some sr) None"
  shows "\<exists>m1 i1 r1 m2 r2 i2 m3 i3 r3.
     write_message c ei p1 i = (Inr m1, i1) \<and> read_message c m1 r = (Inr p1, r1)
     \<and> write_message c er p2 r1 = (Inr m2, r2) \<and> read_message c m2 i1 = (Inr p2, i2)
     \<and> write_message c ei p3 i2 = (Inr m3, i3) \<and> read_message c m3 r2 = (Inr p3, r3)
     \<and> \<not> is_handshake_complete r1 \<and> \<not> is_handshake_complete i2 \<and> \<not> is_handshake_complete r2
     \<and> hs_role i3 = Initiator \<and> hs_role r3 = Responder \<and> xx_agreed c si sr i3 r3"
proof -
  have st: "in_step c i r" "internal_nonce i"
    using start_in_step [of None XX c sr "Some si" "[]"] by (simp_all add: i r handshake_new_def)
  note f = i [unfolded handshake_new_def] r [unfolded handshake_new_def]
  from exchange [OF assms(1,2) sound(3) st, of "[TE]" p1] sound(1) f
  obtain m1 i1 r1 where 1: "write_message c ei p1 i = (Inr m1, i1)" "read_message c m1 r = (Inr p1, r1)"
    "in_step c i1 r1" "internal_nonce r1" "hs_role i1 = Initiator" "hs_role r1 = Responder"
    "hs_local_static i1 = Some si" "hs_local_static r1 = Some sr" "hs_patterns i1 = message_patterns XX"
    "hs_patterns r1 = message_patterns XX" "hs_current i1 = 1" "hs_current r1 = 1"
    "hs_remote_static i1 = None" "hs_remote_ephemeral r1 \<noteq> None" "hs_local_ephemeral i1 \<noteq> None"
    by auto
  from exchange [OF assms(1,2) sound(4) in_step_sym [OF 1(3)] 1(4), of "[TE, TEE, TS, TES]" p2] sound(2) 1
  obtain m2 r2 i2 where 2: "write_message c er p2 r1 = (Inr m2, r2)" "read_message c m2 i1 = (Inr p2, i2)"
    "in_step c r2 i2" "internal_nonce i2" "hs_role r2 = Responder" "hs_role i2 = Initiator"
    "hs_local_static i2 = Some si" "hs_local_static r2 = Some sr" "hs_patterns i2 = message_patterns XX"
    "hs_patterns r2 = message_patterns XX" "hs_current i2 = 2" "hs_current r2 = 2"
    "hs_remote_static i2 \<noteq> None" "hs_remote_ephemeral i2 \<noteq> None" "hs_local_ephemeral i2 \<noteq> None"
    by auto
  from exchange [OF assms(1,2) sound(3) in_step_sym [OF 2(3)] 2(4), of "[TS, TSE]" p3] sound(1) 2
  obtain m3 i3 r3 where 3: "write_message c ei p3 i2 = (Inr m3, i3)" "read_message c m3 r2 = (Inr p3, r3)"
    "in_step c i3 r3" "hs_role i3 = Initiator" "hs_role r3 = Responder" "hs_local_static i3 = Some si"
    "hs_local_static r3 = Some sr" "hs_patterns i3 = message_patterns XX"
    "hs_patterns r3 = message_patterns XX" "hs_current i3 = 3" "hs_current r3 = 3"
    "hs_remote_static i3 \<noteq> None" "hs_remote_static r3 \<noteq> None"
    by auto
  have sym: "hs_symmetric i3 = hs_symmetric r3" using 3(3) by (simp add: in_step_def)
  have "hs_remote_static i3 = Some (public_key c sr)" "hs_remote_static r3 = Some (public_key c si)"
    using 3 by (auto simp: in_step_def)
  then have "xx_agreed c si sr i3 r3"
    using 3(4-11) sym
    unfolding xx_agreed_def is_handshake_complete_def get_transport_ciphers_def symmetric_split_def Let_def
    by (intro conjI exI) simp_all
  then show ?thesis using 1 2 3 by (auto simp: is_handshake_complete_def)
qed

lemma x_step:
  assumes "aead_ok c" "dh_ok c" "sound_key c so" "sound_key c sr" "sound_key c e"
  shows "\<exists>ct buf v r0 enc s. seal c e payload (public_key c sr) so = Some ct
    \<and> open_sealed c ct sr = Some (payload, public_key c so)
    \<and> ct = buf @ enc \<and> encrypt_and_hash c payload (hs_symmetric v) = (Inr enc, s)
    \<and> read_tokens c [TE, TES, TS, TSS] buf
         (with_prologue c Responder X (Some sr) None SEAL_PROLOGUE) = (Inr [], r0)
    \<and> in_step c v r0 \<and> internal_nonce v \<and> hs_remote_static r0 = Some (public_key c so)
    \<and> hs_patterns r0 = message_patterns X \<and> hs_current r0 = 0 \<and> has_key (ss_cipher (hs_symmetric v))"
proof -
  let ?w = "with_prologue c Initiator X (Some so) (Some (public_key c sr)) SEAL_PROLOGUE"
  let ?r = "with_prologue c Responder X (Some sr) None SEAL_PROLOGUE"
  let ?ts = "[TE, TES, TS, TSS]"
  have st: "in_step c ?w ?r" "internal_nonce ?w"
    using start_in_step [of "Some (public_key c sr)" X c sr "Some so" SEAL_PROLOGUE] by simp_all
  from exchange [OF assms(1,2,5) st, of ?ts payload] assms(3)
  obtain m w' r' where ex: "write_message c e payload ?w = (Inr m, w')" "read_message c m ?r = (Inr payload, r')"
    "in_step c w' r'" "hs_local_static w' = Some so" "hs_remote_static r' \<noteq> None" by auto
  then have opens: "seal c e payload (public_key c sr) so = Some m" "open_sealed c m sr = Some (payload, public_key c so)"
    using assms(4) by (auto simp: seal_def open_sealed_def sound_key_def in_step_def)
  from ex(1) obtain buf v enc s where toks: "write_tokens c e ?ts ?w = (Inr buf, v)"
    and enc: "encrypt_and_hash c payload (hs_symmetric v) = (Inr enc, s)" and m: "m = buf @ enc"
    by (auto simp: write_message_def split: if_splits prod.splits sum.splits)
  from write_tokens_step [OF assms(1,2,5) st _ _ _ toks, of False "[]"] assms(3)
  obtain r0 where r0: "read_tokens c ?ts buf ?r = (Inr [], r0)" "in_step c v r0" "internal_nonce v"
    "hs_remote_static r0 \<noteq> None" "hs_local_static v = Some so" by auto
  then have "hs_remote_static r0 = Some (public_key c so)" by (auto simp: in_step_def)
  moreover have "has_key (ss_cipher (hs_symmetric v))"
  proof -
    obtain b1 v1 where "write_tokens c e [TE, TES, TS] ?w = (Inr b1, v1)" "write_token c e TSS v1 = (Inr [], v)"
      using toks by (auto simp: write_token_def split: prod.splits sum.splits option.splits)
    then show ?thesis
      by (auto simp: write_token_def mix_dh_def mix_key_def initialize_key_def has_key_def Let_def
          split: prod.splits option.splits)
  qed
  ultimately show ?thesis
    using opens enc m r0 read_tokens_fields [OF r0(1)]
    by (intro exI [of _ m] exI [of _ buf] exI [of _ v] exI [of _ r0] exI [of _ enc] exI [of _ s] conjI)
      (simp_all del: read_tokens.simps)
qed

lemma truncated_opens:
  assumes "aead_ok c" "dh_ok c" "sound_key c so" "sound_key c sr" "sound_key c e"
  shows "\<exists>ct. seal c e payload (public_key c sr) so = Some ct
    \<and> open_sealed c (take (length ct - (length payload + 16)) ct) sr = Some ([], public_key c so)"
proof -
  from x_step [OF assms, of payload] obtain ct buf v r0 enc s
    where ct: "seal c e payload (public_key c sr) so = Some ct" "ct = buf @ enc"
      and enc: "encrypt_and_hash c payload (hs_symmetric v) = (Inr enc, s)"
      and toks: "read_tokens c [TE, TES, TS, TSS] buf
       (with_prologue c Responder X (Some sr) None SEAL_PROLOGUE) = (Inr [], r0)"
      and r0: "internal_nonce v" "hs_remote_static r0 = Some (public_key c so)" "hs_current r0 = 0"
      and key: "has_key (ss_cipher (hs_symmetric v))" by metis
  have "length enc = length payload + 16"
    using encrypt_decrypt_hash [OF assms(1) enc] r0(1) key by (simp add: internal_nonce_def)
  then have "take (length ct - (length payload + 16)) ct = buf" using ct(2) by simp
  moreover have "decrypt_and_hash c [] (hs_symmetric r0) = (Inr [], mix_hash c [] (hs_symmetric r0))"
    by (simp add: decrypt_and_hash_def)
  then have "read_message c buf (with_prologue c Responder X (Some sr) None SEAL_PROLOGUE)
    = (Inr [], r0\<lparr>hs_symmetric := mix_hash c [] (hs_symmetric r0), hs_current := hs_current r0 + 1\<rparr>)"
    using toks by (simp add: read_message_def del: read_tokens.simps)
  then have "open_sealed c buf sr = Some ([], public_key c so)"
    using r0(2) by (simp add: open_sealed_def)
  ultimately show ?thesis using ct(1) by simp
qed

lemma masked_bit: "(b XOR 0x80) AND 0x7f = b AND (0x7f :: byte)"
proof -
  have "(0x7f :: byte) = mask 7" "(0x80 :: byte) = push_bit 7 1"
    by (simp_all add: mask_eq_exp_minus_1 push_bit_eq_mult)
  then show ?thesis
    by (simp only: take_bit_eq_mask [symmetric] take_bit_xor take_bit_push_bit) simp
qed

lemma validate_unmasked:
  "isl (validate_public_key (k[31 := k ! 31 XOR 0x80])) = isl (validate_public_key k)"
proof (cases "length k = 32")
  case True
  then have "(k[31 := k ! 31 XOR 0x80])[31 := k[31 := k ! 31 XOR 0x80] ! 31 AND 0x7f] = k[31 := k ! 31 AND 0x7f]"
    by (simp add: masked_bit)
  then show ?thesis using True unfolding validate_public_key_def Let_def
    by (simp only: length_list_update) simp
qed (simp add: validate_public_key_def)

lemma refused_ephemeral:
  assumes "validate_public_key (take 32 m) = Inl e" and "32 \<le> length m"
    and "hs_current h < length (hs_patterns h)" "hs_patterns h ! hs_current h = TE # ts"
  shows "read_message c m h = (Inl e, h)"
  using assms by (simp add: read_message_def read_token_def)

lemma table_refused: "p \<in> set LOW_ORDER_POINTS \<Longrightarrow> validate_public_key p = Inl InvalidPublicKey"
proof -
  have "list_all (\<lambda>p. length p = 32 \<and> p[31 := p ! 31 AND 0x7f] = p) LOW_ORDER_POINTS" by code_simp
  then show "p \<in> set LOW_ORDER_POINTS \<Longrightarrow> validate_public_key p = Inl InvalidPublicKey"
    by (auto simp: list_all_iff validate_public_key_def Let_def)
qed

section \<open>Properties\<close>

lemma demo_keys: "sound_key demo_crypto [1]" "sound_key demo_crypto [2]"
  by code_simp+

text \<open>
  C18.  The XX handshake works: with any payloads, three messages take an honest initiator
  and an honest responder from nothing to the same transcript, every payload is read as it
  was written, each end holds the other's static key, the sending cipher of one is the
  receiving cipher of the other, and neither end is complete before the last message.
\<close>

theorem xx_handshake_agrees:
  assumes "aead_ok c" "dh_ok c" "sound_key c si" "sound_key c sr" "sound_key c ei" "sound_key c er"
    and "i = handshake_new c Initiator XX (Some si) None" and "r = handshake_new c Responder XX (Some sr) None"
  shows "\<exists>m1 i1 r1 m2 r2 i2 m3 i3 r3.
     write_message c ei p1 i = (Inr m1, i1) \<and> read_message c m1 r = (Inr p1, r1)
     \<and> write_message c er p2 r1 = (Inr m2, r2) \<and> read_message c m2 i1 = (Inr p2, i2)
     \<and> write_message c ei p3 i2 = (Inr m3, i3) \<and> read_message c m3 r2 = (Inr p3, r3)
     \<and> \<not> is_handshake_complete r1 \<and> \<not> is_handshake_complete i2 \<and> \<not> is_handshake_complete r2
     \<and> hs_role i3 = Initiator \<and> hs_role r3 = Responder \<and> xx_agreed c si sr i3 r3"
  using assms by (rule xx_run)

theorem xx_handshake_agrees_witness:
  "\<exists>i3 r3. xx_agreed demo_crypto [1] [2] i3 r3"
  using xx_handshake_agrees [OF demo_aead_ok demo_dh_ok demo_keys demo_keys refl refl] by blast

text \<open>
  Couriered mail opens at its recipient, and only says what it said: what was sealed
  to a key opens with the private half of that key to the same payload and to the static
  key of whoever sealed it.
\<close>

theorem sealed_mail_opens:
  assumes "aead_ok c" "dh_ok c" "sound_key c so" "sound_key c sr" "sound_key c e"
  shows "\<exists>ct. seal c e payload (public_key c sr) so = Some ct
    \<and> open_sealed c ct sr = Some (payload, public_key c so)"
  using x_step [OF assms, of payload] by metis

theorem sealed_mail_opens_witness:
  "\<exists>ct. seal demo_crypto [1] [104, 105] (public_key demo_crypto [2]) [1] = Some ct
    \<and> open_sealed demo_crypto ct [2] = Some ([104, 105], public_key demo_crypto [1])"
  using sealed_mail_opens [OF demo_aead_ok demo_dh_ok demo_keys demo_keys(1)] by blast

text \<open>
  Cut mail opens too: a courier that removes the sealed payload and its tag from an
  envelope leaves a message that opens to the empty payload, still authenticated as coming
  from its sender, because an empty ciphertext is never given to the cipher.
\<close>

theorem cut_mail_opens_empty:
  assumes "aead_ok c" "dh_ok c" "sound_key c so" "sound_key c sr" "sound_key c e"
  shows "\<exists>ct. seal c e payload (public_key c sr) so = Some ct
    \<and> open_sealed c (take (length ct - (length payload + 16)) ct) sr = Some ([], public_key c so)"
  using assms by (rule truncated_opens)

theorem cut_mail_opens_empty_witness:
  "\<exists>ct. seal demo_crypto [1] [104, 105] (public_key demo_crypto [2]) [1] = Some ct
    \<and> open_sealed demo_crypto (take (length ct - 18) ct) [2] = Some ([], public_key demo_crypto [1])"
  using cut_mail_opens_empty [OF demo_aead_ok demo_dh_ok demo_keys demo_keys(1), of "[104, 105]"] by simp

text \<open>
  No low-order key gets in: a key is accepted exactly when it has 32 bytes and is not
  in the table once bit 255 is masked, so both encodings of a point get the same answer; and
  an opening message with a refused ephemeral key is refused before it touches the
  handshake.
\<close>

theorem low_order_keys_refused:
  "(validate_public_key k = Inr k \<longleftrightarrow>
      length k = 32 \<and> k[31 := k ! 31 AND 0x7f] \<notin> set LOW_ORDER_POINTS)
   \<and> (p \<in> set LOW_ORDER_POINTS \<longrightarrow> isl (validate_public_key p)
       \<and> isl (validate_public_key (p[31 := p ! 31 XOR 0x80])))
   \<and> (length k = 32 \<and> validate_public_key k = Inl e \<longrightarrow>
        read_message c (k @ rest) (handshake_new c Responder XX ls None)
          = (Inl e, handshake_new c Responder XX ls None))"
proof (intro conjI impI)
  have zero: "list_all (\<lambda>b. b = 0) x \<Longrightarrow> length x = 32 \<Longrightarrow> x \<in> set LOW_ORDER_POINTS" for x :: bytes
    by (simp add: LOW_ORDER_POINTS_def list_all_iff replicate_eqI)
  show "validate_public_key k = Inr k \<longleftrightarrow> length k = 32 \<and> k[31 := k ! 31 AND 0x7f] \<notin> set LOW_ORDER_POINTS"
    using zero [of "k[31 := k ! 31 AND 0x7f]"] by (auto simp: validate_public_key_def Let_def)
qed (use refused_ephemeral [of "k @ rest" e "handshake_new c Responder XX ls None" "[]" c]
  in \<open>auto simp: table_refused validate_unmasked handshake_new_def\<close>)

theorem low_order_keys_refused_witness:
  "isl (validate_public_key (replicate 32 0)) \<and> isl (validate_public_key ((replicate 32 0)[31 := 0 XOR 0x80]))"
  using low_order_keys_refused [of "[]" "replicate 32 0"] by (simp add: LOW_ORDER_POINTS_def)

end
