(* ===== verification/Noise_Session.thy ===== *)
theory Noise_Session
  imports Noise_Handshake
begin

text \<open>
  Sessions and the session manager of noise_session.rs.  The mutexes are not modelled: a
  manager is used by one task, so every operation is a function on its state.  Where an
  operation makes a fresh ephemeral key, the key is its argument.  The trace log is left
  out, except that the slice \<open>&fingerprint[..16]\<close> it takes can panic.
\<close>

datatype session_state = Uninitialized | Handshaking | Established

record session =
  sn_role :: noise_role
  sn_state :: session_state
  sn_handshake :: "handshake option"
  sn_send :: "cipher_state option"
  sn_receive :: "cipher_state option"
  sn_local_static :: bytes
  sn_remote_static :: "bytes option"
  sn_sent :: "bytes list"
  sn_hash :: "bytes option"

section \<open>A session\<close>

definition initiator_session :: "crypto \<Rightarrow> bytes \<Rightarrow> session" where
  "initiator_session c local_static =
     \<lparr>sn_role = Initiator, sn_state = Handshaking,
      sn_handshake = Some (handshake_new c Initiator XX (Some local_static) None),
      sn_send = None, sn_receive = None, sn_local_static = local_static, sn_remote_static = None,
      sn_sent = [], sn_hash = None\<rparr>"

definition responder_session :: "bytes \<Rightarrow> session" where
  "responder_session local_static =
     \<lparr>sn_role = Responder, sn_state = Uninitialized, sn_handshake = None, sn_send = None,
      sn_receive = None, sn_local_static = local_static, sn_remote_static = None, sn_sent = [], sn_hash = None\<rparr>"

text \<open>The handshake is complete: take its ciphers, key and hash.\<close>

definition establish :: "crypto \<Rightarrow> handshake \<Rightarrow> bytes option \<Rightarrow> session \<Rightarrow> (noise_error + bytes option) \<times> session" where
  "establish c h response s =
     (case get_transport_ciphers c h of
        Inl e \<Rightarrow> (Inl e, s)
      | Inr (send, receive) \<Rightarrow>
          (Inr response,
           s\<lparr>sn_send := Some send, sn_receive := Some receive, sn_remote_static := hs_remote_static h,
             sn_hash := Some (ss_hash (hs_symmetric h)), sn_state := Established, sn_handshake := None\<rparr>))"

definition process_handshake_message ::
  "crypto \<Rightarrow> bytes \<Rightarrow> bytes \<Rightarrow> session \<Rightarrow> (noise_error + bytes option) \<times> session" where
  "process_handshake_message c ephemeral message s =
     (let s = (if sn_state s = Uninitialized \<and> sn_role s = Responder
               then s\<lparr>sn_handshake := Some (handshake_new c Responder XX (Some (sn_local_static s)) None),
                      sn_state := Handshaking\<rparr>
               else s)
      in if sn_state s \<noteq> Handshaking then (Inl InvalidState, s)
         else case sn_handshake s of
           None \<Rightarrow> (Inl InvalidState, s)
         | Some h \<Rightarrow>
             (case read_message c message h of
                (Inl e, h) \<Rightarrow> (Inl e, s\<lparr>sn_handshake := Some h\<rparr>)
              | (Inr payload, h) \<Rightarrow>
                  if is_handshake_complete h then establish c h None (s\<lparr>sn_handshake := Some h\<rparr>)
                  else (case write_message c ephemeral [] h of
                          (Inl e, h) \<Rightarrow> (Inl e, s\<lparr>sn_handshake := Some h\<rparr>)
                        | (Inr response, h) \<Rightarrow>
                            let s = s\<lparr>sn_handshake := Some h, sn_sent := sn_sent s @ [response]\<rparr> in
                            if is_handshake_complete h then establish c h (Some response) s
                            else (Inr (Some response), s))))"

definition session_encrypt :: "crypto \<Rightarrow> bytes \<Rightarrow> session \<Rightarrow> (noise_error + bytes) \<times> session" where
  "session_encrypt c plaintext s =
     (if sn_state s \<noteq> Established then (Inl NotEstablished, s)
      else case sn_send s of
        None \<Rightarrow> (Inl NotEstablished, s)
      | Some cs \<Rightarrow>
          (let (r, cs) = cipher_encrypt c plaintext [] cs in (r, s\<lparr>sn_send := Some cs\<rparr>)))"

definition session_decrypt :: "crypto \<Rightarrow> bytes \<Rightarrow> session \<Rightarrow> (noise_error + bytes) \<times> session" where
  "session_decrypt c ciphertext s =
     (if sn_state s \<noteq> Established then (Inl NotEstablished, s)
      else case sn_receive s of
        None \<Rightarrow> (Inl NotEstablished, s)
      | Some cs \<Rightarrow>
          (let (r, cs) = cipher_decrypt c ciphertext [] cs in (r, s\<lparr>sn_receive := Some cs\<rparr>)))"

definition is_established :: "session \<Rightarrow> bool" where
  "is_established s \<longleftrightarrow> sn_state s = Established"

section \<open>The manager\<close>

record manager =
  mg_sessions :: "text_bytes \<rightharpoonup> session"
  mg_local_static :: bytes
  mg_fingerprints :: "text_bytes \<rightharpoonup> text_bytes"
  mg_verified :: "text_bytes list"

definition manager_new :: "bytes \<Rightarrow> manager" where
  "manager_new local_static =
     \<lparr>mg_sessions = Map.empty, mg_local_static = local_static, mg_fingerprints = Map.empty, mg_verified = []\<rparr>"

definition get_peer_fingerprint :: "text_bytes \<Rightarrow> manager \<Rightarrow> text_bytes option" where
  "get_peer_fingerprint peer m = mg_fingerprints m peer"

text \<open>\<open>None\<close> is the panic of the slice in the trace message.\<close>

definition verify_fingerprint :: "text_bytes \<Rightarrow> manager \<Rightarrow> manager option" where
  "verify_fingerprint fp m =
     (let m = m\<lparr>mg_verified := List.insert fp (mg_verified m)\<rparr> in
      if is_char_boundary fp 16 then Some m else None)"

definition get_verified_fingerprints :: "manager \<Rightarrow> text_bytes list" where
  "get_verified_fingerprints m = mg_verified m"

definition load_verified_fingerprints :: "text_bytes list \<Rightarrow> manager \<Rightarrow> manager" where
  "load_verified_fingerprints fps m = m\<lparr>mg_verified := fps\<rparr>"

definition calculate_fingerprint :: "crypto \<Rightarrow> bytes \<Rightarrow> text_bytes" where
  "calculate_fingerprint c public = hex_encode (sha256 c public)"

definition handle_session_established :: "crypto \<Rightarrow> text_bytes \<Rightarrow> bytes \<Rightarrow> manager \<Rightarrow> manager" where
  "handle_session_established c peer remote m =
     m\<lparr>mg_fingerprints := (mg_fingerprints m)(peer \<mapsto> calculate_fingerprint c remote)\<rparr>"

definition remove_session :: "text_bytes \<Rightarrow> manager \<Rightarrow> manager" where
  "remove_session peer m =
     m\<lparr>mg_sessions := (mg_sessions m)(peer := None), mg_fingerprints := (mg_fingerprints m)(peer := None)\<rparr>"

definition migrate_session :: "text_bytes \<Rightarrow> text_bytes \<Rightarrow> manager \<Rightarrow> manager" where
  "migrate_session old new m =
     (let m = (case mg_sessions m old of
                 None \<Rightarrow> m
               | Some s \<Rightarrow> m\<lparr>mg_sessions := (mg_sessions m)(old := None, new \<mapsto> s)\<rparr>)
      in case mg_fingerprints m old of
           None \<Rightarrow> m
         | Some fp \<Rightarrow> m\<lparr>mg_fingerprints := (mg_fingerprints m)(old := None, new \<mapsto> fp)\<rparr>)"

definition has_established_session :: "text_bytes \<Rightarrow> manager \<Rightarrow> bool" where
  "has_established_session peer m =
     (case mg_sessions m peer of Some s \<Rightarrow> sn_state s = Established | None \<Rightarrow> False)"

definition initiate_handshake ::
  "crypto \<Rightarrow> bytes \<Rightarrow> text_bytes \<Rightarrow> manager \<Rightarrow> (noise_error + bytes) \<times> manager" where
  "initiate_handshake c ephemeral peer m =
     (let s = (case mg_sessions m peer of
                 Some s \<Rightarrow> s
               | None \<Rightarrow> initiator_session c (mg_local_static m));
          m = m\<lparr>mg_sessions := (mg_sessions m)(peer \<mapsto> s)\<rparr>
      in case sn_handshake s of
           None \<Rightarrow> (Inl InvalidState, m)
         | Some h \<Rightarrow>
             (case write_message c ephemeral [] h of
                (Inl e, h) \<Rightarrow> (Inl e, m\<lparr>mg_sessions := (mg_sessions m)(peer \<mapsto> s\<lparr>sn_handshake := Some h\<rparr>)\<rparr>)
              | (Inr msg, h) \<Rightarrow>
                  (Inr msg, m\<lparr>mg_sessions := (mg_sessions m)(peer \<mapsto>
                     s\<lparr>sn_handshake := Some h, sn_sent := sn_sent s @ [msg]\<rparr>)\<rparr>)))"

definition handle_incoming_handshake ::
  "crypto \<Rightarrow> bytes \<Rightarrow> text_bytes \<Rightarrow> bytes \<Rightarrow> manager \<Rightarrow> (noise_error + bytes option) \<times> manager" where
  "handle_incoming_handshake c ephemeral peer data m =
     (if has_established_session peer m then (Inr None, m)
      else
        let s = (case mg_sessions m peer of Some s \<Rightarrow> s | None \<Rightarrow> responder_session (mg_local_static m));
            (r, s) = process_handshake_message c ephemeral data s;
            m = m\<lparr>mg_sessions := (mg_sessions m)(peer \<mapsto> s)\<rparr>
        in (r, if \<not> isl r \<and> is_established s
               then (case sn_remote_static s of
                       Some key \<Rightarrow> handle_session_established c peer key m
                     | None \<Rightarrow> m)
               else m))"

definition manager_encrypt :: "crypto \<Rightarrow> bytes \<Rightarrow> text_bytes \<Rightarrow> manager \<Rightarrow> (noise_error + bytes) \<times> manager" where
  "manager_encrypt c plaintext peer m =
     (case mg_sessions m peer of
        None \<Rightarrow> (Inl SessionNotFound, m)
      | Some s \<Rightarrow>
          (let (r, s) = session_encrypt c plaintext s in (r, m\<lparr>mg_sessions := (mg_sessions m)(peer \<mapsto> s)\<rparr>)))"

definition manager_decrypt :: "crypto \<Rightarrow> bytes \<Rightarrow> text_bytes \<Rightarrow> manager \<Rightarrow> (noise_error + bytes) \<times> manager" where
  "manager_decrypt c ciphertext peer m =
     (case mg_sessions m peer of
        None \<Rightarrow> (Inl SessionNotFound, m)
      | Some s \<Rightarrow>
          (let (r, s) = session_decrypt c ciphertext s in (r, m\<lparr>mg_sessions := (mg_sessions m)(peer \<mapsto> s)\<rparr>)))"

definition open_courier :: "crypto \<Rightarrow> bytes \<Rightarrow> manager \<Rightarrow> (bytes \<times> bytes) option" where
  "open_courier c ciphertext m = open_sealed c ciphertext (mg_local_static m)"

definition seal_courier :: "crypto \<Rightarrow> bytes \<Rightarrow> bytes \<Rightarrow> bytes \<Rightarrow> manager \<Rightarrow> bytes option" where
  "seal_courier c ephemeral payload recipient m = seal c ephemeral payload recipient (mg_local_static m)"

section \<open>The session invariant\<close>

text \<open>
  How the mesh drives a manager: it removes the session when an incoming handshake
  message fails (\<open>handle_noise_handshake\<close> of mesh.rs), and leaves it when an initiation fails.
\<close>

datatype manager_op =
    OpInitiate bytes text_bytes
  | OpHandshake bytes text_bytes bytes
  | OpEncrypt bytes text_bytes
  | OpDecrypt bytes text_bytes
  | OpRemove text_bytes

definition answer_handshake ::
  "crypto \<Rightarrow> bytes \<Rightarrow> text_bytes \<Rightarrow> bytes \<Rightarrow> manager \<Rightarrow> (noise_error + bytes option) \<times> manager" where
  "answer_handshake c ephemeral peer data m =
     (case handle_incoming_handshake c ephemeral peer data m of
        (Inl e, m) \<Rightarrow> (Inl e, remove_session peer m)
      | (Inr r, m) \<Rightarrow> (Inr r, m))"

fun manager_step :: "crypto \<Rightarrow> manager_op \<Rightarrow> manager \<Rightarrow> manager" where
  "manager_step c (OpInitiate e peer) m = snd (initiate_handshake c e peer m)"
| "manager_step c (OpHandshake e peer d) m = snd (answer_handshake c e peer d m)"
| "manager_step c (OpEncrypt d peer) m = snd (manager_encrypt c d peer m)"
| "manager_step c (OpDecrypt d peer) m = snd (manager_decrypt c d peer m)"
| "manager_step c (OpRemove peer) m = remove_session peer m"

text \<open>
  A running handshake waits for the peer: the initiator has written one message, the
  responder read one and written one, and neither knows the other's static key.
\<close>

definition running :: "session \<Rightarrow> handshake \<Rightarrow> bool" where
  "running s h \<longleftrightarrow>
     hs_role h = sn_role s \<and> hs_patterns h = message_patterns XX
     \<and> hs_local_static h = Some (sn_local_static s) \<and> hs_remote_static h = None
     \<and> hs_current h = (if sn_role s = Initiator then 1 else 2)"

text \<open>
  An established session has no handshake, both transport ciphers with explicit nonces, and
  the validated static key of its peer, whose fingerprint is on record.
\<close>

definition cipher_ready :: "cipher_state option \<Rightarrow> bool" where
  "cipher_ready x \<longleftrightarrow> (\<exists>cs. x = Some cs \<and> has_key cs \<and> cs_use_extracted_nonce cs)"

definition session_ok :: "crypto \<Rightarrow> text_bytes option \<Rightarrow> session \<Rightarrow> bool" where
  "session_ok c fingerprint s \<longleftrightarrow>
     (case sn_state s of
        Uninitialized \<Rightarrow> False
      | Handshaking \<Rightarrow> (\<exists>h. sn_handshake s = Some h \<and> running s h) \<and> sn_send s = None \<and> sn_receive s = None
      | Established \<Rightarrow>
          sn_handshake s = None \<and> cipher_ready (sn_send s) \<and> cipher_ready (sn_receive s)
          \<and> (\<exists>k. sn_remote_static s = Some k \<and> validate_public_key k = Inr k
               \<and> fingerprint = Some (calculate_fingerprint c k)))"

definition manager_ok :: "crypto \<Rightarrow> manager \<Rightarrow> bool" where
  "manager_ok c m \<longleftrightarrow>
     (\<forall>peer s. mg_sessions m peer = Some s \<longrightarrow>
        session_ok c (mg_fingerprints m peer) s \<and> sn_local_static s = mg_local_static m)"

section \<open>What a message does to a handshake\<close>

lemma validate_Inr: "validate_public_key k = Inr x \<Longrightarrow> x = k"
  by (auto simp: validate_public_key_def Let_def split: if_splits)

lemma validate_idem: "validate_public_key k = Inr x \<Longrightarrow> validate_public_key x = Inr x"
  using validate_Inr by metis

lemma read_token_remote:
  "read_token c t m h = (Inr rest, h') \<Longrightarrow>
   hs_remote_static h' = hs_remote_static h \<and> t \<noteq> TS
   \<or> t = TS \<and> (\<exists>k. hs_remote_static h' = Some k \<and> validate_public_key k = Inr k)"
  by (auto simp: read_token_def mix_dh_def Let_def intro: validate_idem
      split: if_splits option.splits prod.splits sum.splits)

lemma read_token_ephemeral:
  "read_token c t m h = (Inr rest, h') \<Longrightarrow>
   hs_remote_ephemeral h' = hs_remote_ephemeral h \<and> t \<noteq> TE \<or> hs_remote_ephemeral h' \<noteq> None \<and> t = TE"
  by (auto simp: read_token_def mix_dh_def Let_def split: if_splits option.splits prod.splits sum.splits)

lemma read_tokens_remote:
  "read_tokens c ts m h = (Inr rest, h') \<Longrightarrow>
   (TS \<in> set ts \<or> (\<exists>k. hs_remote_static h = Some k \<and> validate_public_key k = Inr k) \<longrightarrow>
      (\<exists>k. hs_remote_static h' = Some k \<and> validate_public_key k = Inr k))
   \<and> (TS \<notin> set ts \<longrightarrow> hs_remote_static h' = hs_remote_static h)
   \<and> (TE \<in> set ts \<or> hs_remote_ephemeral h \<noteq> None \<longrightarrow> hs_remote_ephemeral h' \<noteq> None)"
proof (induction ts arbitrary: h m)
  case (Cons t ts)
  from Cons.prems obtain m1 h1 where 1: "read_token c t m h = (Inr m1, h1)"
    and 2: "read_tokens c ts m1 h1 = (Inr rest, h')" by (auto split: prod.splits sum.splits)
  from Cons.IH [OF 2] read_token_remote [OF 1] read_token_ephemeral [OF 1]
  show ?case by fastforce
qed simp

lemma read_message_remote:
  assumes "read_message c m h = (Inr pt, h')"
  shows "hs_current h < length (hs_patterns h) \<and> hs_current h' = hs_current h + 1"
    and "TS \<in> set (hs_patterns h ! hs_current h) \<Longrightarrow>
       \<exists>k. hs_remote_static h' = Some k \<and> validate_public_key k = Inr k"
    and "TS \<notin> set (hs_patterns h ! hs_current h) \<Longrightarrow> hs_remote_static h' = hs_remote_static h"
    and "TE \<in> set (hs_patterns h ! hs_current h) \<Longrightarrow> hs_remote_ephemeral h' \<noteq> None"
proof -
  from assms obtain rest v s where *: "read_tokens c (hs_patterns h ! hs_current h) m h = (Inr rest, v)"
    "h' = v\<lparr>hs_symmetric := s, hs_current := hs_current v + 1\<rparr>" "hs_current h < length (hs_patterns h)"
    by (auto simp: read_message_def split: if_splits prod.splits sum.splits)
  show "hs_current h < length (hs_patterns h) \<and> hs_current h' = hs_current h + 1"
    using * read_tokens_fields [OF *(1)] by simp
  show "TS \<in> set (hs_patterns h ! hs_current h) \<Longrightarrow>
       \<exists>k. hs_remote_static h' = Some k \<and> validate_public_key k = Inr k"
    "TS \<notin> set (hs_patterns h ! hs_current h) \<Longrightarrow> hs_remote_static h' = hs_remote_static h"
    "TE \<in> set (hs_patterns h ! hs_current h) \<Longrightarrow> hs_remote_ephemeral h' \<noteq> None"
    using read_tokens_remote [OF *(1)] *(2) by simp_all
qed

lemma write_message_fields:
  "write_message c e payload h = (r, h') \<Longrightarrow>
   hs_role h' = hs_role h \<and> hs_local_static h' = hs_local_static h \<and> hs_remote_static h' = hs_remote_static h
   \<and> hs_remote_ephemeral h' = hs_remote_ephemeral h \<and> hs_patterns h' = hs_patterns h
   \<and> hs_current h' = (if isl r then hs_current h else hs_current h + 1)"
  by (auto simp: write_message_def split: if_splits prod.splits sum.splits dest!: write_tokens_fields)

lemma write_message_succeeds:
  assumes "aead_ok c" "hs_current h < length (hs_patterns h)"
    and "can_write (hs_role h) (hs_local_static h \<noteq> None) (hs_local_ephemeral h \<noteq> None)
       (hs_remote_static h \<noteq> None) (hs_remote_ephemeral h \<noteq> None) (hs_patterns h ! hs_current h)"
  shows "\<exists>m h'. write_message c e payload h = (Inr m, h')"
proof -
  obtain buf v where v: "write_tokens c e (hs_patterns h ! hs_current h) h = (Inr buf, v)"
    using write_tokens_succeed [OF assms(1,3)] by blast
  obtain ct s where "encrypt_and_hash c payload (hs_symmetric v) = (Inr ct, s)"
    using encrypt_succeeds [OF assms(1)] by blast
  then show ?thesis using v assms(2) by (simp add: write_message_def)
qed

lemma establish_ok:
  assumes "is_handshake_complete h" and "hs_remote_static h = Some k" "validate_public_key k = Inr k"
  shows "\<exists>s'. establish c h r s = (Inr r, s') \<and> sn_local_static s' = sn_local_static s
    \<and> sn_state s' = Established \<and> sn_remote_static s' = Some k
    \<and> session_ok c (Some (calculate_fingerprint c k)) s'"
  using assms
  by (simp add: establish_def get_transport_ciphers_def symmetric_split_def Let_def session_ok_def
      cipher_ready_def new_with_key_def has_key_def)

section \<open>Every operation keeps the invariant\<close>

lemma process_ok:
  assumes "aead_ok c" and "s = responder_session ls \<or> session_ok c fp s \<and> sn_state s = Handshaking"
    and "process_handshake_message c e d s = (Inr r, s')"
  shows "sn_local_static s' = sn_local_static s \<and>
    (sn_state s' = Handshaking \<and> session_ok c fp s'
     \<or> sn_state s' = Established \<and> (\<exists>k. sn_remote_static s' = Some k \<and> session_ok c (Some (calculate_fingerprint c k)) s'))"
proof -
  consider (fresh) "s = responder_session ls"
    | (initiator) h where "sn_state s = Handshaking" "sn_handshake s = Some h" "running s h" "sn_role s = Initiator"
        "sn_send s = None" "sn_receive s = None"
    | (responder) h where "sn_state s = Handshaking" "sn_handshake s = Some h" "running s h" "sn_role s = Responder"
        "sn_send s = None" "sn_receive s = None"
    using assms(2) by (cases "sn_role s") (auto simp: session_ok_def)
  then show ?thesis
  proof cases
    case fresh
    let ?h = "handshake_new c Responder XX (Some ls) None"
    have h: "hs_patterns ?h = message_patterns XX" "hs_current ?h = 0" "hs_role ?h = Responder"
      "hs_local_static ?h = Some ls" "hs_remote_static ?h = None" by (simp_all add: handshake_new_def)
    have proc: "process_handshake_message c e d s =
       process_handshake_message c e d (s\<lparr>sn_handshake := Some ?h, sn_state := Handshaking\<rparr>)"
      by (simp add: process_handshake_message_def fresh responder_session_def)
    with assms(3) obtain pt h1 where 1: "read_message c d ?h = (Inr pt, h1)"
      by (auto simp: process_handshake_message_def fresh responder_session_def Let_def split: prod.splits sum.splits)
    note rd = read_message_remote [OF 1] read_message_fields [OF 1]
    have "can_write (hs_role h1) (hs_local_static h1 \<noteq> None) (hs_local_ephemeral h1 \<noteq> None)
       (hs_remote_static h1 \<noteq> None) (hs_remote_ephemeral h1 \<noteq> None) (hs_patterns h1 ! hs_current h1)"
      using rd h by simp
    then obtain msg h2 where 2: "write_message c e [] h1 = (Inr msg, h2)"
      using write_message_succeeds [OF assms(1), of h1 e "[]"] rd h by auto
    note wr = write_message_fields [OF 2]
    have "s' = s\<lparr>sn_handshake := Some h2, sn_state := Handshaking, sn_sent := [msg]\<rparr>"
      using assms(3) 1 2 rd wr h
      by (simp add: process_handshake_message_def fresh responder_session_def is_handshake_complete_def Let_def)
    then show ?thesis using rd wr h
      by (simp add: fresh responder_session_def session_ok_def running_def)
  next
    case initiator
    from assms(3) initiator obtain pt h1 where 1: "read_message c d h = (Inr pt, h1)"
      by (auto simp: process_handshake_message_def split: prod.splits sum.splits)
    note rd = read_message_remote [OF 1] read_message_fields [OF 1] and h = initiator(3) [unfolded running_def]
    obtain k where k: "hs_remote_static h1 = Some k" "validate_public_key k = Inr k"
      using rd(2) h initiator(4) by auto
    have "can_write (hs_role h1) (hs_local_static h1 \<noteq> None) (hs_local_ephemeral h1 \<noteq> None)
       (hs_remote_static h1 \<noteq> None) (hs_remote_ephemeral h1 \<noteq> None) (hs_patterns h1 ! hs_current h1)"
      using rd h initiator(4) by (simp add: numeral_2_eq_2)
    then obtain msg h2 where 2: "write_message c e [] h1 = (Inr msg, h2)"
      using write_message_succeeds [OF assms(1), of h1 e "[]"] rd h initiator(4) by auto
    note wr = write_message_fields [OF 2]
    have "is_handshake_complete h2" "hs_remote_static h2 = Some k"
      using wr rd h k initiator(4) by (simp_all add: is_handshake_complete_def)
    from establish_ok [OF this k(2), of c "Some msg" "s\<lparr>sn_handshake := Some h2, sn_sent := sn_sent s @ [msg]\<rparr>"]
    show ?thesis using assms(3) 1 2 rd wr h initiator
      by (auto simp: process_handshake_message_def is_handshake_complete_def Let_def)
  next
    case responder
    from assms(3) responder obtain pt h1 where 1: "read_message c d h = (Inr pt, h1)"
      by (auto simp: process_handshake_message_def split: prod.splits sum.splits)
    note rd = read_message_remote [OF 1] read_message_fields [OF 1] and h = responder(3) [unfolded running_def]
    obtain k where k: "hs_remote_static h1 = Some k" "validate_public_key k = Inr k"
      using rd(2) h responder(4) by auto
    have "is_handshake_complete h1" using rd h responder(4) by (simp add: is_handshake_complete_def)
    from establish_ok [OF this k, of c None "s\<lparr>sn_handshake := Some h1\<rparr>"] this
    show ?thesis using assms(3) 1 responder
      by (auto simp: process_handshake_message_def)
  qed
qed

lemma manager_okD:
  "manager_ok c m \<Longrightarrow> mg_sessions m peer = Some s \<Longrightarrow>
   session_ok c (mg_fingerprints m peer) s \<and> sn_local_static s = mg_local_static m"
  by (simp add: manager_ok_def)

lemma manager_ok_update:
  "manager_ok c m \<Longrightarrow> session_ok c (mg_fingerprints m peer) s \<Longrightarrow> sn_local_static s = mg_local_static m \<Longrightarrow>
   manager_ok c (m\<lparr>mg_sessions := (mg_sessions m)(peer \<mapsto> s)\<rparr>)"
  by (simp add: manager_ok_def)

lemma manager_ok_remove: "manager_ok c m \<Longrightarrow> manager_ok c (remove_session peer m)"
  by (simp add: manager_ok_def remove_session_def)

lemma session_ok_cases:
  "session_ok c fp s \<Longrightarrow> sn_state s = Handshaking \<or> sn_state s = Established"
  by (cases "sn_state s") (simp_all add: session_ok_def)

lemma initiate_ok:
  assumes "aead_ok c" "manager_ok c m"
  shows "manager_ok c (snd (initiate_handshake c e peer m))"
proof (cases "mg_sessions m peer")
  case None
  let ?h = "handshake_new c Initiator XX (Some (mg_local_static m)) None"
  obtain msg h1 where 1: "write_message c e [] ?h = (Inr msg, h1)"
    using write_message_succeeds [OF assms(1), of ?h e "[]"] by (auto simp: handshake_new_def)
  note wr = write_message_fields [OF 1]
  show ?thesis using None 1 wr
    by (auto simp: initiate_handshake_def initiator_session_def Let_def handshake_new_def session_ok_def running_def
        intro!: manager_ok_update assms(2))
next
  case (Some s)
  note s = manager_okD [OF assms(2) Some]
  show ?thesis
  proof (cases "sn_state s = Established")
    case True
    then have "sn_handshake s = None" using s by (simp add: session_ok_def)
    then show ?thesis using Some assms(2) by (simp add: initiate_handshake_def fun_upd_idem)
  next
    case False
    then obtain h where h: "sn_state s = Handshaking" "sn_handshake s = Some h" "running s h" "sn_send s = None"
      "sn_receive s = None" using s by (cases "sn_state s") (auto simp: session_ok_def)
    obtain r h1 where 1: "write_message c e [] h = (r, h1)" by force
    have "isl r"
    proof (rule ccontr)
      assume "\<not> isl r"
      then obtain msg where "write_message c e [] h = (Inr msg, h1)" using 1 by (cases r) auto
      then show False using h(3)
        by (cases "sn_role s")
          (auto simp: write_message_def running_def write_token_def mix_dh_def dh_keys_def Let_def numeral_2_eq_2
            split: if_splits prod.splits sum.splits option.splits)
    qed
    then obtain x where x: "r = Inl x" by (cases r) auto
    from \<open>isl r\<close> write_message_fields [OF 1] have "running s h1" using h(3) by (simp add: running_def)
    then have "session_ok c (mg_fingerprints m peer) (s\<lparr>sn_handshake := Some h1\<rparr>)"
      using h by (simp add: session_ok_def running_def)
    moreover have "snd (initiate_handshake c e peer m)
        = m\<lparr>mg_sessions := (mg_sessions m)(peer \<mapsto> s\<lparr>sn_handshake := Some h1\<rparr>)\<rparr>"
      using Some 1 x h by (simp add: initiate_handshake_def Let_def)
    ultimately show ?thesis using s by (simp add: manager_ok_update assms(2))
  qed
qed

definition session_for :: "text_bytes \<Rightarrow> manager \<Rightarrow> session" where
  "session_for peer m =
     (case mg_sessions m peer of Some s \<Rightarrow> s | None \<Rightarrow> responder_session (mg_local_static m))"

lemma handle_incoming_eq:
  assumes "\<not> has_established_session peer m" and "process_handshake_message c e d (session_for peer m) = (r, s')"
  shows "handle_incoming_handshake c e peer d m =
    (r, let m' = m\<lparr>mg_sessions := (mg_sessions m)(peer \<mapsto> s')\<rparr> in
        if \<not> isl r \<and> is_established s'
        then (case sn_remote_static s' of Some key \<Rightarrow> handle_session_established c peer key m' | None \<Rightarrow> m')
        else m')"
  using assms by (simp add: handle_incoming_handshake_def session_for_def Let_def)

lemma answer_ok:
  assumes "aead_ok c" "manager_ok c m"
  shows "manager_ok c (snd (answer_handshake c e peer d m))"
proof (cases "has_established_session peer m")
  case True
  then show ?thesis using assms(2) by (simp add: answer_handshake_def handle_incoming_handshake_def)
next
  case False
  obtain s where s: "s = session_for peer m" by simp
  obtain r s' where p: "process_handshake_message c e d s = (r, s')" by force
  note eq = handle_incoming_eq [OF False p [unfolded s]]
  show ?thesis
  proof (cases r)
    case (Inl x)
    then show ?thesis using assms(2) eq
      by (simp add: answer_handshake_def manager_ok_def remove_session_def Let_def)
  next
    case (Inr x)
    have start: "s = responder_session (mg_local_static m)
       \<or> session_ok c (mg_fingerprints m peer) s \<and> sn_state s = Handshaking"
      and ls: "sn_local_static s = mg_local_static m"
    proof -
      show "s = responder_session (mg_local_static m)
         \<or> session_ok c (mg_fingerprints m peer) s \<and> sn_state s = Handshaking"
      proof (cases "mg_sessions m peer")
        case (Some t)
        then have "sn_state t \<noteq> Established" using False by (simp add: has_established_session_def)
        then show ?thesis using manager_okD [OF assms(2) Some] session_ok_cases Some
          by (auto simp: s session_for_def)
      qed (simp add: s session_for_def)
      show "sn_local_static s = mg_local_static m"
        using manager_okD [OF assms(2)] by (auto simp: s session_for_def responder_session_def split: option.split)
    qed
    from process_ok [OF assms(1) start p [unfolded Inr]]
    consider "sn_local_static s' = mg_local_static m" "sn_state s' = Handshaking"
        "session_ok c (mg_fingerprints m peer) s'"
      | k where "sn_local_static s' = mg_local_static m" "sn_state s' = Established" "sn_remote_static s' = Some k"
        "session_ok c (Some (calculate_fingerprint c k)) s'"
      using ls by auto
    then show ?thesis
    proof cases
      case 1
      then show ?thesis using eq Inr
        by (simp add: answer_handshake_def is_established_def Let_def manager_ok_update assms(2))
    next
      case 2
      then show ?thesis using eq Inr assms(2)
        by (simp add: answer_handshake_def is_established_def Let_def handle_session_established_def manager_ok_def)
    qed
  qed
qed

lemma crypt_ok:
  assumes "manager_ok c m"
  shows "manager_ok c (snd (manager_encrypt c d peer m))" and "manager_ok c (snd (manager_decrypt c d peer m))"
proof -
  have enc: "cipher_ready (Some cs) \<Longrightarrow> cipher_ready (Some (snd (cipher_encrypt c d [] cs)))" for cs
    by (auto simp: cipher_ready_def cipher_encrypt_def has_key_def split: option.split)
  have dec: "cipher_ready (Some cs) \<Longrightarrow> cipher_ready (Some (snd (cipher_decrypt c d [] cs)))" for cs
    by (auto simp: cipher_ready_def has_key_def transport_decrypt split: option.split)
  have senc: "session_ok c fp (snd (session_encrypt c d s)) \<and> sn_local_static (snd (session_encrypt c d s)) = sn_local_static s"
    if "session_ok c fp s" for s fp
  proof (cases "sn_state s = Established")
    case True
    with that obtain cs where "sn_send s = Some cs" "cipher_ready (Some cs)"
      by (auto simp: session_ok_def cipher_ready_def)
    with that True enc [of cs] show ?thesis by (simp add: session_encrypt_def session_ok_def split_beta)
  qed (use that in \<open>simp add: session_encrypt_def\<close>)
  have sdec: "session_ok c fp (snd (session_decrypt c d s)) \<and> sn_local_static (snd (session_decrypt c d s)) = sn_local_static s"
    if "session_ok c fp s" for s fp
  proof (cases "sn_state s = Established")
    case True
    with that obtain cs where "sn_receive s = Some cs" "cipher_ready (Some cs)"
      by (auto simp: session_ok_def cipher_ready_def)
    with that True dec [of cs] show ?thesis by (simp add: session_decrypt_def session_ok_def split_beta)
  qed (use that in \<open>simp add: session_decrypt_def\<close>)
  show "manager_ok c (snd (manager_encrypt c d peer m))"
  proof (cases "mg_sessions m peer")
    case (Some s)
    note s = manager_okD [OF assms Some]
    from manager_ok_update [OF assms senc [THEN conjunct1]] senc s Some show ?thesis
      by (simp add: manager_encrypt_def split_beta)
  qed (simp add: manager_encrypt_def assms)
  show "manager_ok c (snd (manager_decrypt c d peer m))"
  proof (cases "mg_sessions m peer")
    case (Some s)
    note s = manager_okD [OF assms Some]
    from manager_ok_update [OF assms sdec [THEN conjunct1]] sdec s Some show ?thesis
      by (simp add: manager_decrypt_def split_beta)
  qed (simp add: manager_decrypt_def assms)
qed

lemma manager_run_ok:
  assumes "aead_ok c"
  shows "manager_ok c (fold (manager_step c) ops (manager_new k))"
proof -
  have "manager_ok c (manager_step c op m)" if "manager_ok c m" for op m
    using that initiate_ok [OF assms] answer_ok [OF assms] crypt_ok manager_ok_remove
    by (cases op) simp_all
  then have "manager_ok c (fold (manager_step c) ops m)" if "manager_ok c m" for m
    using that by (induction ops arbitrary: m) simp_all
  then show ?thesis by (simp add: manager_ok_def manager_new_def)
qed

section \<open>Two managers\<close>

lemma write_tokens_no_ephemeral: "TE \<notin> set ts \<Longrightarrow> write_tokens c e ts h = write_tokens c e' ts h"
proof (induction ts arbitrary: h)
  case (Cons t ts)
  then have "write_token c e t h = write_token c e' t h" by (cases t) (simp_all add: write_token_def)
  with Cons show ?case by (simp split: prod.split sum.split)
qed simp

lemma write_message_no_ephemeral:
  "TE \<notin> set (hs_patterns h ! hs_current h) \<Longrightarrow> write_message c e d h = write_message c e' d h"
  unfolding write_message_def by (subst write_tokens_no_ephemeral) simp_all

lemma establish_eq:
  "get_transport_ciphers c h = Inr (x, y) \<Longrightarrow>
   establish c h r s = (Inr r, s\<lparr>sn_send := Some x, sn_receive := Some y, sn_remote_static := hs_remote_static h,
      sn_hash := Some (ss_hash (hs_symmetric h)), sn_state := Established, sn_handshake := None\<rparr>)"
  by (simp add: establish_def)

text \<open>Handshake messages are short: a public key and a tag per token at most.\<close>

lemma cipher_encrypt_length:
  assumes "aead_ok c" "cipher_encrypt c pt ad s = (Inr ct, s')"
  shows "length ct \<le> length pt + 20"
proof -
  have "length (nonce_to_bytes n) \<le> 4" for n by (simp add: nonce_to_bytes_def NONCE_SIZE_BYTES_def)
  moreover obtain k where "cs_key s = Some k" using assms(2) by (auto simp: cipher_encrypt_def split: option.splits)
  moreover obtain x where "aead_enc c k (aead_nonce (unat (cs_nonce s))) ad pt = Some x" "length x = length pt + 16"
    using assms(1) unfolding aead_ok_def by blast
  ultimately show ?thesis using assms(2) by (auto simp: cipher_encrypt_def split: if_splits)
qed

lemma encrypt_and_hash_length:
  "aead_ok c \<Longrightarrow> encrypt_and_hash c pt s = (Inr ct, s') \<Longrightarrow> length ct \<le> length pt + 20"
  by (auto simp: encrypt_and_hash_def split: if_splits prod.splits sum.splits dest: cipher_encrypt_length)

lemma write_tokens_length:
  "aead_ok c \<Longrightarrow> dh_ok c \<Longrightarrow> write_tokens c e ts h = (Inr bs, h') \<Longrightarrow> length bs \<le> 52 * length ts"
proof (induction ts arbitrary: h bs h')
  case (Cons t ts)
  from Cons.prems(3) obtain a h1 b where a: "write_token c e t h = (Inr a, h1)" and b: "write_tokens c e ts h1 = (Inr b, h')"
    and bs: "bs = a @ b" by (auto split: prod.splits sum.splits)
  have "length (public_key c k) = 32" for k using Cons.prems(2) by (simp add: dh_ok_def)
  then have "length a \<le> 52"
    using a encrypt_and_hash_length [OF Cons.prems(1)]
    by (fastforce simp: write_token_def Let_def split: if_splits option.splits prod.splits)
  with Cons.IH [OF Cons.prems(1,2) b] bs show ?case by simp
qed simp

lemma write_message_length:
  assumes "aead_ok c" "dh_ok c" "write_message c e p h = (Inr m, h')"
  shows "length m \<le> 52 * length (hs_patterns h ! hs_current h) + length p + 20"
proof -
  from assms(3) obtain a h1 b s where "write_tokens c e (hs_patterns h ! hs_current h) h = (Inr a, h1)"
    "encrypt_and_hash c p (hs_symmetric h1) = (Inr b, s)" "m = a @ b"
    by (auto simp: write_message_def split: if_splits prod.splits sum.splits)
  with write_tokens_length [OF assms(1,2)] encrypt_and_hash_length [OF assms(1)] show ?thesis by fastforce
qed

lemma transport_step:
  assumes "aead_ok c"
    and "mg_sessions A b = Some s" "sn_state s = Established" "sn_send s = Some (new_with_key k True)"
    and "mg_sessions B a = Some t" "sn_state t = Established" "sn_receive t = Some (new_with_key k True)"
  shows "\<exists>f s' t'. manager_encrypt c text b A = (Inr f, A\<lparr>mg_sessions := (mg_sessions A)(b \<mapsto> s')\<rparr>)
     \<and> manager_decrypt c f a B = (Inr text, B\<lparr>mg_sessions := (mg_sessions B)(a \<mapsto> t')\<rparr>)
     \<and> sn_state s' = Established \<and> sn_receive s' = sn_receive s
     \<and> sn_state t' = Established \<and> sn_send t' = sn_send t \<and> length f \<le> length text + 20"
proof -
  let ?cs = "new_with_key k True"
  have cs: "cs_key ?cs = Some k" "cs_use_extracted_nonce ?cs" "unat (cs_nonce ?cs) = 0"
    by (simp_all add: new_with_key_def)
  obtain cs' where enc: "cipher_encrypt c text [] ?cs = (Inr (frame_of c k 0 text), cs')"
    using send_all_frames [OF assms(1) cs(1,2), of "[text]"] cs(3)
    by (cases "cipher_encrypt c text [] ?cs") simp
  obtain cr where dec: "cipher_decrypt c (frame_of c k 0 text) [] ?cs = (Inr text, cr)"
    using receive_new [OF assms(1) cs(1,2) window_rep_new, of "[0]" "\<lambda>_. text"]
    by (cases "cipher_decrypt c (frame_of c k 0 text) [] ?cs") simp
  have "manager_encrypt c text b A = (Inr (frame_of c k 0 text), A\<lparr>mg_sessions := (mg_sessions A)(b \<mapsto> s\<lparr>sn_send := Some cs'\<rparr>)\<rparr>)"
    using assms(2-4) enc by (simp add: manager_encrypt_def session_encrypt_def)
  moreover have "manager_decrypt c (frame_of c k 0 text) a B
      = (Inr text, B\<lparr>mg_sessions := (mg_sessions B)(a \<mapsto> t\<lparr>sn_receive := Some cr\<rparr>)\<rparr>)"
    using assms(5-7) dec by (simp add: manager_decrypt_def session_decrypt_def)
  moreover have "sn_state (s\<lparr>sn_send := Some cs'\<rparr>) = Established" "sn_receive (s\<lparr>sn_send := Some cs'\<rparr>) = sn_receive s"
    "sn_state (t\<lparr>sn_receive := Some cr\<rparr>) = Established" "sn_send (t\<lparr>sn_receive := Some cr\<rparr>) = sn_send t"
    using assms(3,6) by simp_all
  ultimately show ?thesis using cipher_encrypt_length [OF assms(1) enc] by blast
qed

lemma transport_delivers:
  assumes "aead_ok c"
    and "mg_sessions A b = Some s" "sn_state s = Established" "sn_send s = Some (new_with_key k True)"
    and "mg_sessions B a = Some t" "sn_state t = Established" "sn_receive t = Some (new_with_key k True)"
  shows "\<exists>f. fst (manager_encrypt c text b A) = Inr f \<and> fst (manager_decrypt c f a B) = Inr text"
  using transport_step [OF assms, of "text"] by force

lemma xx_managers:
  assumes "aead_ok c" "dh_ok c" and "sound_key c si" "sound_key c sr" "sound_key c ei" "sound_key c er"
    and "mg_sessions A b = None" "mg_local_static A = si" and "mg_sessions B a = None" "mg_local_static B = sr"
  shows "\<exists>m1 A1 m2 B1 m3 A2 B2.
     initiate_handshake c ei b A = (Inr m1, A1)
     \<and> handle_incoming_handshake c er a m1 B = (Inr (Some m2), B1)
     \<and> handle_incoming_handshake c ex b m2 A1 = (Inr (Some m3), A2)
     \<and> handle_incoming_handshake c ey a m3 B1 = (Inr None, B2)
     \<and> (\<exists>s t k1 k2. mg_sessions A2 b = Some s \<and> mg_sessions B2 a = Some t
          \<and> sn_state s = Established \<and> sn_state t = Established
          \<and> sn_send s = Some (new_with_key k1 True) \<and> sn_receive t = Some (new_with_key k1 True)
          \<and> sn_send t = Some (new_with_key k2 True) \<and> sn_receive s = Some (new_with_key k2 True)
          \<and> sn_hash s = sn_hash t)
     \<and> mg_fingerprints A2 b = Some (calculate_fingerprint c (public_key c sr))
     \<and> mg_fingerprints B2 a = Some (calculate_fingerprint c (public_key c si))
     \<and> length m1 \<le> 1000 \<and> length m2 \<le> 1000 \<and> length m3 \<le> 1000
     \<and> \<not> has_established_session b A1 \<and> \<not> has_established_session a B1"
proof -
  let ?i = "handshake_new c Initiator XX (Some si) None" and ?r = "handshake_new c Responder XX (Some sr) None"
  from xx_run [OF assms(1-6) refl refl, of "[]" "[]" "[]"] obtain m1 i1 r1 m2 r2 i2 m3 i3 r3
    where w1: "write_message c ei [] ?i = (Inr m1, i1)" and rd1: "read_message c m1 ?r = (Inr [], r1)"
      and w2: "write_message c er [] r1 = (Inr m2, r2)" and rd2: "read_message c m2 i1 = (Inr [], i2)"
      and w3: "write_message c ei [] i2 = (Inr m3, i3)" and rd3: "read_message c m3 r2 = (Inr [], r3)"
      and nc: "\<not> is_handshake_complete r1" "\<not> is_handshake_complete i2" "\<not> is_handshake_complete r2"
      and ag: "xx_agreed c si sr i3 r3" by blast
  note wf1 = write_message_fields [OF w1] and rf2 = read_message_remote(1) [OF rd2] read_message_fields [OF rd2]
  have "hs_patterns i2 ! hs_current i2 = [TS, TSE]"
    using wf1 rf2 by (simp add: handshake_new_def numeral_2_eq_2)
  moreover have "hs_patterns r1 ! hs_current r1 = [TE, TEE, TS, TES]"
    using read_message_remote(1) [OF rd1] read_message_fields [OF rd1] by (simp add: handshake_new_def)
  moreover have "hs_patterns ?i ! hs_current ?i = [TE]" by (simp add: handshake_new_def)
  ultimately have short: "length m1 \<le> 1000 \<and> length m2 \<le> 1000 \<and> length m3 \<le> 1000"
    using write_message_length [OF assms(1,2) w1] write_message_length [OF assms(1,2) w2]
      write_message_length [OF assms(1,2) w3] by simp
  have "hs_patterns i2 ! hs_current i2 = [TS, TSE]"
    using wf1 rf2 by (simp add: handshake_new_def numeral_2_eq_2)
  then have w3': "write_message c ex [] i2 = (Inr m3, i3)"
    using w3 write_message_no_ephemeral [of i2 c ex "[]" ei] by simp
  from ag obtain k1 k2 where k: "get_transport_ciphers c i3 = Inr (new_with_key k1 True, new_with_key k2 True)"
    "get_transport_ciphers c r3 = Inr (new_with_key k2 True, new_with_key k1 True)"
    and comp: "is_handshake_complete i3" "is_handshake_complete r3"
    and remote: "hs_remote_static i3 = Some (public_key c sr)" "hs_remote_static r3 = Some (public_key c si)"
    and sym: "hs_symmetric i3 = hs_symmetric r3"
    by (auto simp: xx_agreed_def)
  obtain s1 where s1: "s1 = (initiator_session c si)\<lparr>sn_handshake := Some i1, sn_sent := [m1]\<rparr>" by simp
  obtain A1 where A1: "A1 = A\<lparr>mg_sessions := (mg_sessions A)(b \<mapsto> s1)\<rparr>" by simp
  have 1: "initiate_handshake c ei b A = (Inr m1, A1)"
    using assms(7,8) w1 by (simp add: initiate_handshake_def Let_def initiator_session_def s1 A1)
  obtain t1 where t1: "t1 = (responder_session sr)\<lparr>sn_handshake := Some r2, sn_state := Handshaking, sn_sent := [m2]\<rparr>" by simp
  obtain B1 where B1: "B1 = B\<lparr>mg_sessions := (mg_sessions B)(a \<mapsto> t1)\<rparr>" by simp
  have "process_handshake_message c er m1 (session_for a B) = (Inr (Some m2), t1)"
    using assms(9,10) rd1 w2 nc
    by (simp add: process_handshake_message_def session_for_def responder_session_def Let_def t1)
  from handle_incoming_eq [OF _ this] assms(9)
  have 2: "handle_incoming_handshake c er a m1 B = (Inr (Some m2), B1)"
    by (simp add: has_established_session_def is_established_def t1 B1 responder_session_def Let_def)
  obtain s2 where s2: "establish c i3 (Some m3) (s1\<lparr>sn_handshake := Some i3, sn_sent := [m1, m3]\<rparr>) = (Inr (Some m3), s2)"
    "sn_state s2 = Established" "sn_send s2 = Some (new_with_key k1 True)" "sn_receive s2 = Some (new_with_key k2 True)"
    "sn_remote_static s2 = Some (public_key c sr)" "sn_hash s2 = Some (ss_hash (hs_symmetric r3))"
    using establish_eq [OF k(1)] remote sym by simp
  have "process_handshake_message c ex m2 (session_for b A1) = (Inr (Some m3), s2)"
    using rd2 w3' nc(2) comp(1) s2(1)
    by (simp add: process_handshake_message_def session_for_def A1 s1 initiator_session_def Let_def)
  from handle_incoming_eq [OF _ this]
  have 3: "handle_incoming_handshake c ex b m2 A1
    = (Inr (Some m3), handle_session_established c b (public_key c sr) (A1\<lparr>mg_sessions := (mg_sessions A1)(b \<mapsto> s2)\<rparr>))"
    using s2 by (simp add: has_established_session_def is_established_def A1 s1 initiator_session_def Let_def)
  obtain t2 where t2: "establish c r3 None (t1\<lparr>sn_handshake := Some r3\<rparr>) = (Inr None, t2)"
    "sn_state t2 = Established" "sn_send t2 = Some (new_with_key k2 True)" "sn_receive t2 = Some (new_with_key k1 True)"
    "sn_remote_static t2 = Some (public_key c si)" "sn_hash t2 = Some (ss_hash (hs_symmetric r3))"
    using establish_eq [OF k(2)] remote by simp
  have "process_handshake_message c ey m3 (session_for a B1) = (Inr None, t2)"
    using rd3 comp(2) t2(1)
    by (simp add: process_handshake_message_def session_for_def B1 t1 responder_session_def Let_def)
  from handle_incoming_eq [OF _ this]
  have 4: "handle_incoming_handshake c ey a m3 B1
    = (Inr None, handle_session_established c a (public_key c si) (B1\<lparr>mg_sessions := (mg_sessions B1)(a \<mapsto> t2)\<rparr>))"
    using t2 by (simp add: has_established_session_def is_established_def B1 t1 responder_session_def Let_def)
  obtain A2 where A2: "A2 = handle_session_established c b (public_key c sr) (A1\<lparr>mg_sessions := (mg_sessions A1)(b \<mapsto> s2)\<rparr>)"
    by simp
  obtain B2 where B2: "B2 = handle_session_established c a (public_key c si) (B1\<lparr>mg_sessions := (mg_sessions B1)(a \<mapsto> t2)\<rparr>)"
    by simp
  have "mg_sessions A2 b = Some s2" "mg_sessions B2 a = Some t2"
    "mg_fingerprints A2 b = Some (calculate_fingerprint c (public_key c sr))"
    "mg_fingerprints B2 a = Some (calculate_fingerprint c (public_key c si))"
    by (simp_all add: A2 B2 handle_session_established_def)
  moreover have "\<not> has_established_session b A1" "\<not> has_established_session a B1"
    by (simp_all add: A1 B1 s1 t1 has_established_session_def initiator_session_def Let_def)
  ultimately show ?thesis
    using 1 2 3 [folded A2] 4 [folded B2] s2(2-4) t2(2-4) s2(6) t2(6) short by (metis (no_types))
qed

text \<open>A whole conversation: the handshake, a text from the initiator and one back.\<close>

lemma xx_conversation:
  assumes "aead_ok c" "dh_ok c" and "sound_key c si" "sound_key c sr" "sound_key c ei" "sound_key c er"
    and "mg_sessions A b = None" "mg_local_static A = si" and "mg_sessions B a = None" "mg_local_static B = sr"
  shows "\<exists>m1 A1 m2 B1 m3 A2 B2 f A3 B3 g A4 B4.
     initiate_handshake c ei b A = (Inr m1, A1) \<and> length m1 \<le> 1000 \<and> \<not> has_established_session b A1
     \<and> handle_incoming_handshake c er a m1 B = (Inr (Some m2), B1) \<and> length m2 \<le> 1000
     \<and> \<not> has_established_session a B1
     \<and> handle_incoming_handshake c ex b m2 A1 = (Inr (Some m3), A2) \<and> length m3 \<le> 1000
     \<and> has_established_session b A2 \<and> get_peer_fingerprint b A2 = Some (calculate_fingerprint c (public_key c sr))
     \<and> handle_incoming_handshake c ey a m3 B1 = (Inr None, B2)
     \<and> has_established_session a B2 \<and> get_peer_fingerprint a B2 = Some (calculate_fingerprint c (public_key c si))
     \<and> manager_encrypt c there b A2 = (Inr f, A3) \<and> length f \<le> length there + 20
     \<and> manager_decrypt c f a B2 = (Inr there, B3) \<and> has_established_session a B3
     \<and> manager_encrypt c return a B3 = (Inr g, B4) \<and> length g \<le> length return + 20
     \<and> manager_decrypt c g b A3 = (Inr return, A4)"
proof -
  from xx_managers [OF assms, of ex ey] obtain m1 A1 m2 B1 m3 A2 B2 s t k1 k2
    where run: "initiate_handshake c ei b A = (Inr m1, A1)"
      "handle_incoming_handshake c er a m1 B = (Inr (Some m2), B1)"
      "handle_incoming_handshake c ex b m2 A1 = (Inr (Some m3), A2)"
      "handle_incoming_handshake c ey a m3 B1 = (Inr None, B2)"
      and s: "mg_sessions A2 b = Some s" "sn_state s = Established" "sn_send s = Some (new_with_key k1 True)"
        "sn_receive s = Some (new_with_key k2 True)"
      and t: "mg_sessions B2 a = Some t" "sn_state t = Established" "sn_receive t = Some (new_with_key k1 True)"
        "sn_send t = Some (new_with_key k2 True)"
      and fp: "mg_fingerprints A2 b = Some (calculate_fingerprint c (public_key c sr))"
        "mg_fingerprints B2 a = Some (calculate_fingerprint c (public_key c si))"
      and short: "length m1 \<le> 1000" "length m2 \<le> 1000" "length m3 \<le> 1000"
      and started: "\<not> has_established_session b A1" "\<not> has_established_session a B1"
    by blast
  from transport_step [OF assms(1) s(1-3) t(1-3), of there] obtain f s' t' A3 B3
    where f: "manager_encrypt c there b A2 = (Inr f, A3)" "manager_decrypt c f a B2 = (Inr there, B3)"
      "length f \<le> length there + 20"
      and A3: "mg_sessions A3 b = Some s'" "sn_state s' = Established" "sn_receive s' = Some (new_with_key k2 True)"
      and B3: "mg_sessions B3 a = Some t'" "sn_state t' = Established" "sn_send t' = Some (new_with_key k2 True)"
    using s(4) t(4) by fastforce
  from transport_step [OF assms(1) B3 A3, of return] obtain g A4 B4
    where "manager_encrypt c return a B3 = (Inr g, B4)" "manager_decrypt c g b A3 = (Inr return, A4)"
      "length g \<le> length return + 20" by blast
  moreover have "has_established_session b A2" "has_established_session a B2" "has_established_session a B3"
    using s(1,2) t(1,2) B3 by (simp_all add: has_established_session_def)
  ultimately show ?thesis
    using run f short started fp unfolding get_peer_fingerprint_def by blast
qed

lemma initiate_fresh:
  assumes "mg_sessions m peer = None"
  shows "\<exists>m1 h1 s1. initiate_handshake c e peer m = (Inr (public_key c e), m1)
    \<and> mg_sessions m1 peer = Some s1 \<and> sn_handshake s1 = Some h1 \<and> running s1 h1
    \<and> sn_role s1 = Initiator \<and> hs_local_ephemeral h1 = Some e \<and> hs_remote_ephemeral h1 = None
    \<and> sn_state s1 = Handshaking"
  using assms
  by (simp add: initiate_handshake_def initiator_session_def handshake_new_def with_prologue_def Let_def
      mix_pre_message_keys_def write_message_def write_token_def running_def
      encrypt_and_hash_def has_key_def cipher_new_def mix_hash_def symmetric_new_def)

lemma initiate_again:
  assumes "mg_sessions m peer = Some s" "sn_handshake s = Some h" "running s h" "sn_role s = Initiator"
    and "hs_remote_ephemeral h = None"
  shows "\<exists>h'. initiate_handshake c e peer m
      = (Inl MissingKeys, m\<lparr>mg_sessions := (mg_sessions m)(peer \<mapsto> s\<lparr>sn_handshake := Some h'\<rparr>)\<rparr>)
    \<and> hs_local_ephemeral h' = Some e
    \<and> ss_hash (hs_symmetric h') = sha256 c (ss_hash (hs_symmetric h) @ public_key c e)"
  using assms
  by (intro exI [of _ "h\<lparr>hs_local_ephemeral := Some e,
      hs_symmetric := mix_hash c (public_key c e) (hs_symmetric h)\<rparr>"])
    (simp add: initiate_handshake_def running_def write_message_def write_token_def
      mix_dh_def dh_keys_def mix_hash_def Let_def)

section \<open>Properties\<close>

text \<open>
  C12.  Sessions are authenticated: whatever a manager is asked to do and whatever bytes
  arrive, a session that is established has both transport ciphers with their keys, has
  dropped its handshake, and holds a static key that passed validation and whose
  fingerprint is the one on record for the peer.
\<close>

theorem sessions_authenticated:
  assumes "aead_ok c"
    and "mg_sessions (fold (manager_step c) ops (manager_new k)) peer = Some s" "sn_state s = Established"
  shows "sn_handshake s = None \<and> cipher_ready (sn_send s) \<and> cipher_ready (sn_receive s)
    \<and> (\<exists>key. sn_remote_static s = Some key \<and> validate_public_key key = Inr key
        \<and> get_peer_fingerprint peer (fold (manager_step c) ops (manager_new k)) = Some (calculate_fingerprint c key))"
  using manager_okD [OF manager_run_ok [OF assms(1)] assms(2)] assms(3)
  by (simp add: session_ok_def get_peer_fingerprint_def)

theorem sessions_authenticated_witness:
  "\<exists>ops s. mg_sessions (fold (manager_step demo_crypto) ops (manager_new [2])) [97] = Some s
     \<and> sn_state s = Established \<and> cipher_ready (sn_send s) \<and> cipher_ready (sn_receive s)"
proof -
  have "\<exists>m1 B1 m2 m3 B2 t. handle_incoming_handshake demo_crypto [2] [97] m1 (manager_new [2]) = (Inr (Some m2), B1)
      \<and> handle_incoming_handshake demo_crypto [] [97] m3 B1 = (Inr None, B2)
      \<and> mg_sessions B2 [97] = Some t \<and> sn_state t = Established"
    using xx_managers [OF demo_aead_ok demo_dh_ok demo_keys demo_keys,
        of "manager_new [1]" "[98]" "manager_new [2]" "[97]" "[]" "[]"]
    by (fastforce simp: manager_new_def)
  then obtain m1 B1 m2 m3 B2 t
    where 1: "handle_incoming_handshake demo_crypto [2] [97] m1 (manager_new [2]) = (Inr (Some m2), B1)"
      and 2: "handle_incoming_handshake demo_crypto [] [97] m3 B1 = (Inr None, B2)"
      and t: "mg_sessions B2 [97] = Some t" "sn_state t = Established"
    by blast
  let ?ops = "[OpHandshake [2] [97] m1, OpHandshake [] [97] m3]"
  have run: "fold (manager_step demo_crypto) ?ops (manager_new [2]) = B2"
    using 1 2 by (simp add: answer_handshake_def)
  with sessions_authenticated [OF demo_aead_ok, of ?ops "[2]" "[97]" t] t show ?thesis by metis
qed

text \<open>
  C2.  Two clients end up talking: an initiator and a responder that do not know each other
  yet pass three messages through their managers, after which each has the other's
  fingerprint on record, and text one of them encrypts is what the other decrypts, in both
  directions.
\<close>

theorem two_clients_talk:
  assumes "aead_ok c" "dh_ok c" and "sound_key c si" "sound_key c sr" "sound_key c ei" "sound_key c er"
    and "mg_sessions A b = None" "mg_local_static A = si" and "mg_sessions B a = None" "mg_local_static B = sr"
  shows "\<exists>m1 A1 m2 B1 m3 A2 B2 f g.
     initiate_handshake c ei b A = (Inr m1, A1)
     \<and> handle_incoming_handshake c er a m1 B = (Inr (Some m2), B1)
     \<and> handle_incoming_handshake c ex b m2 A1 = (Inr (Some m3), A2)
     \<and> handle_incoming_handshake c ey a m3 B1 = (Inr None, B2)
     \<and> get_peer_fingerprint b A2 = Some (calculate_fingerprint c (public_key c sr))
     \<and> get_peer_fingerprint a B2 = Some (calculate_fingerprint c (public_key c si))
     \<and> fst (manager_encrypt c text b A2) = Inr f \<and> fst (manager_decrypt c f a B2) = Inr text
     \<and> fst (manager_encrypt c text a B2) = Inr g \<and> fst (manager_decrypt c g b A2) = Inr text"
proof -
  from xx_managers [OF assms, of ex ey] obtain m1 A1 m2 B1 m3 A2 B2 s t k1 k2
    where run: "initiate_handshake c ei b A = (Inr m1, A1)"
      "handle_incoming_handshake c er a m1 B = (Inr (Some m2), B1)"
      "handle_incoming_handshake c ex b m2 A1 = (Inr (Some m3), A2)"
      "handle_incoming_handshake c ey a m3 B1 = (Inr None, B2)"
      and s: "mg_sessions A2 b = Some s" "sn_state s = Established" "sn_send s = Some (new_with_key k1 True)"
        "sn_receive s = Some (new_with_key k2 True)"
      and t: "mg_sessions B2 a = Some t" "sn_state t = Established" "sn_receive t = Some (new_with_key k1 True)"
        "sn_send t = Some (new_with_key k2 True)"
      and fp: "mg_fingerprints A2 b = Some (calculate_fingerprint c (public_key c sr))"
        "mg_fingerprints B2 a = Some (calculate_fingerprint c (public_key c si))"
    by blast
  from transport_delivers [OF assms(1) s(1-3) t(1-3), of "text"]
    transport_delivers [OF assms(1) t(1,2,4) s(1,2,4), of "text"] run fp
  show ?thesis unfolding get_peer_fingerprint_def by metis
qed

theorem two_clients_talk_witness:
  "\<exists>m1 A1. initiate_handshake demo_crypto [1] [98] (manager_new [1]) = (Inr m1, A1)"
  using two_clients_talk [OF demo_aead_ok demo_dh_ok demo_keys demo_keys,
      of "manager_new [1]" "[98]" "manager_new [2]" "[97]" "[]" "[]" "[]"]
  by (auto simp: manager_new_def)

text \<open>
  Initiating twice breaks the handshake that was under way: the second call reports
  missing keys and sends nothing, but it has replaced the ephemeral private key behind the
  first message and mixed the new public half into the transcript, so the session no longer
  matches what the peer received.
\<close>

theorem second_initiate_poisons:
  assumes "mg_sessions m peer = None"
  shows "\<exists>m1 s1 h1 m2 s2 h2.
     initiate_handshake c e1 peer m = (Inr (public_key c e1), m1)
     \<and> mg_sessions m1 peer = Some s1 \<and> sn_handshake s1 = Some h1 \<and> hs_local_ephemeral h1 = Some e1
     \<and> initiate_handshake c e2 peer m1 = (Inl MissingKeys, m2)
     \<and> mg_sessions m2 peer = Some s2 \<and> sn_handshake s2 = Some h2 \<and> hs_local_ephemeral h2 = Some e2
     \<and> ss_hash (hs_symmetric h2) = sha256 c (ss_hash (hs_symmetric h1) @ public_key c e2)
     \<and> sn_state s2 = sn_state s1"
proof -
  from initiate_fresh [OF assms, of c e1] obtain m1 h1 s1
    where 1: "initiate_handshake c e1 peer m = (Inr (public_key c e1), m1)" "hs_local_ephemeral h1 = Some e1"
      and s: "mg_sessions m1 peer = Some s1" "sn_handshake s1 = Some h1" "running s1 h1"
        "sn_role s1 = Initiator" "hs_remote_ephemeral h1 = None"
    by blast
  from initiate_again [OF s, of c e2] 1 s show ?thesis by fastforce
qed

theorem second_initiate_poisons_witness:
  "fst (initiate_handshake demo_crypto [4] [98] (snd (initiate_handshake demo_crypto [3] [98] (manager_new [1]))))
     = Inl MissingKeys"
  using second_initiate_poisons [of "manager_new [1]" "[98]" demo_crypto "[3]" "[4]"] by (auto simp: manager_new_def)

end
