(* ===== verification/Chunks.thy ===== *)
theory Chunks
  imports Text Announce
begin

text \<open>
  Splitting text for the wire (\<open>split_into_chunks\<close> and \<open>split_for_signing\<close> of mesh.rs):
  by words where it can, at character boundaries where it must.
\<close>

section \<open>Words\<close>

text \<open>
  \<open>str::split_whitespace\<close>: cut at every character with the property \<open>White_Space\<close>, drop
  the empty pieces.
\<close>

function scan_words :: "text_bytes \<Rightarrow> text_bytes list" where
  "scan_words [] = [[]]"
| "scan_words (c # cs) =
     (case find (starts_with (c # cs)) white_chars of
        Some w \<Rightarrow> [] # scan_words (drop (length w - 1) cs)
      | None \<Rightarrow> (case scan_words cs of p # ps \<Rightarrow> (c # p) # ps | [] \<Rightarrow> [[c]]))"
  by pat_completeness auto
termination by (relation "measure length") auto

definition split_whitespace :: "text_bytes \<Rightarrow> text_bytes list" where
  "split_whitespace s = filter (\<lambda>w. w \<noteq> []) (scan_words s)"

section \<open>Chunks\<close>

text \<open>
  A word over the budget is cut at the last boundary that fits.  When even the first
  character does not fit the loop makes no progress and never ends: \<open>None\<close>.
\<close>

partial_function (option) hard_split :: "nat \<Rightarrow> text_bytes \<Rightarrow> text_bytes list option" where
  "hard_split n s =
     (if s = [] then Some []
      else let e = boundary_below s (min n (length s)) in
        Option.bind (hard_split n (drop e s)) (\<lambda>ps. Some (take e s # ps)))"

text \<open>The loop over the words: the chunks so far and the current one.\<close>

fun chunk_words ::
  "nat \<Rightarrow> text_bytes list \<Rightarrow> text_bytes list \<Rightarrow> text_bytes \<Rightarrow> text_bytes list option" where
  "chunk_words n [] sofar current = Some (if current = [] then sofar else sofar @ [current])"
| "chunk_words n (w # ws) sofar current =
     (if length w > n
      then (let sofar = (if current = [] then sofar else sofar @ [current]) in
            case hard_split n w of
              None \<Rightarrow> None
            | Some ps \<Rightarrow> chunk_words n ws (sofar @ ps) [])
      else
        let separator = (if current = [] then 0 else 1) in
        if length current + separator + length w > n
        then chunk_words n ws (sofar @ [current]) w
        else chunk_words n ws sofar (if current = [] then w else current @ [32] @ w))"

definition split_into_chunks :: "text_bytes \<Rightarrow> nat \<Rightarrow> text_bytes list option" where
  "split_into_chunks content n =
     (if content = [] then Some []
      else if length content \<le> n then Some [content]
      else chunk_words n (split_whitespace content) [] [])"

definition split_for_signing :: "text_bytes \<Rightarrow> text_bytes list option" where
  "split_for_signing content = split_into_chunks content 99"

section \<open>Cutting at characters\<close>

text \<open>A character has at most four bytes, so a boundary is never far.\<close>

lemma utf8_tail_le_3: "utf8_tail b bs = Some k \<Longrightarrow> k \<le> 3"
  by (auto simp: utf8_tail_def utf8_lead_def split: if_splits option.splits)

lemma utf8_lead_not_cont: "utf8_lead b \<noteq> None \<Longrightarrow> \<not> is_cont b"
  by (auto simp: utf8_lead_def is_cont_def word_le_nat_alt split: if_splits)

lemma utf8_tail_not_cont: "utf8_tail b bs = Some k \<Longrightarrow> \<not> is_cont b"
  by (rule utf8_lead_not_cont) (auto simp: utf8_tail_def split: option.splits)

lemma valid_starts: "utf8_valid s \<Longrightarrow> s = [] \<or> \<not> is_cont (hd s)"
  by (cases s) (auto dest: utf8_tail_not_cont split: option.splits)

lemma first_char:
  assumes "utf8_valid s" "s \<noteq> []"
  shows "\<exists>k. 1 \<le> k \<and> k \<le> 4 \<and> k \<le> length s \<and> is_char_boundary s k \<and> utf8_valid (drop k s)"
proof -
  from assms(2) obtain b bs where s: "s = b # bs" by (cases s) auto
  with assms(1) obtain k where k: "utf8_tail b bs = Some k" "utf8_valid (drop k bs)"
    by (auto split: option.splits)
  have "k \<le> length bs" using utf8_tail_cont [OF k(1)] by simp
  moreover have "is_char_boundary s (Suc k)"
    using valid_starts [OF k(2)] \<open>k \<le> length bs\<close>
    by (auto simp: s is_char_boundary_def hd_drop_conv_nth)
  ultimately show ?thesis
    using k(2) utf8_tail_le_3 [OF k(1)] by (intro exI [of _ "Suc k"]) (simp add: s)
qed

lemma utf8_valid_drop:
  "utf8_valid s \<Longrightarrow> is_char_boundary s i \<Longrightarrow> utf8_valid (drop i s)"
proof (induction s arbitrary: i rule: utf8_valid.induct)
  case (2 b bs)
  from "2.prems"(1) obtain k where k: "utf8_tail b bs = Some k" "utf8_valid (drop k bs)"
    by (auto split: option.splits)
  note cont = utf8_tail_cont [OF k(1)]
  show ?case
  proof (cases i)
    case (Suc j)
    have "k \<le> j \<or> length bs \<le> j"
    proof (rule ccontr)
      assume "\<not> (k \<le> j \<or> length bs \<le> j)"
      then have "is_cont (bs ! j)" "j < length bs" using cont by (auto simp: list_all_length)
      then show False using "2.prems"(2) Suc by (auto simp: is_char_boundary_def)
    qed
    moreover have "is_char_boundary (drop k bs) (j - k)" if "k \<le> j"
      using "2.prems"(2) Suc that cont by (auto simp: is_char_boundary_def)
    ultimately show ?thesis using "2.IH" [OF k(1,2), of "j - k"] Suc by (cases "length bs \<le> j") auto
  qed (use "2.prems"(1) in simp)
qed simp

lemma hard_split_ok:
  assumes "4 \<le> n" "utf8_valid s"
  shows "\<exists>ps. hard_split n s = Some ps \<and> concat ps = s
    \<and> (\<forall>p \<in> set ps. p \<noteq> [] \<and> length p \<le> n \<and> utf8_valid p)"
  using assms(2)
proof (induction s rule: length_induct)
  case (1 s)
  show ?case
  proof (cases "s = []")
    case True
    then show ?thesis by (subst hard_split.simps) simp
  next
    case False
    obtain e where e: "e = boundary_below s (min n (length s))" by simp
    from first_char [OF "1.prems" False] obtain k where k: "1 \<le> k" "k \<le> 4" "k \<le> length s" "is_char_boundary s k"
      by blast
    have "\<not> e < k"
      using boundary_below_maximal [of s "min n (length s)" k] k assms(1) e by auto
    then have pos: "0 < e" using k(1) by simp
    have le: "e \<le> n" "e \<le> length s" using boundary_below_le [of s "min n (length s)"] e by simp_all
    have bound: "is_char_boundary s e" unfolding e by (rule boundary_below_boundary)
    have "length (drop e s) < length s" using pos False by simp
    with "1.IH" utf8_valid_drop [OF "1.prems" bound]
    obtain ps where ps: "hard_split n (drop e s) = Some ps" "concat ps = drop e s"
      "\<forall>p \<in> set ps. p \<noteq> [] \<and> length p \<le> n \<and> utf8_valid p" by blast
    have "hard_split n s = Some (take e s # ps)"
      using False ps(1) by (subst hard_split.simps) (simp add: e [symmetric] Let_def)
    moreover have "utf8_valid (take e s)" using "1.prems" bound by (rule utf8_valid_take)
    ultimately show ?thesis using ps(2,3) pos le False by simp
  qed
qed

section \<open>Words are valid text\<close>

lemma white_char_first:
  "w \<in> set white_chars \<Longrightarrow> w \<noteq> [] \<and> utf8_tail (hd w) (tl w) = Some (length w - 1)"
proof -
  have "list_all (\<lambda>w. w \<noteq> [] \<and> utf8_tail (hd w) (tl w) = Some (length w - 1)) white_chars" by code_simp
  then show "w \<in> set white_chars \<Longrightarrow> ?thesis" by (simp add: list_all_iff)
qed

lemma white_not_cont: "w \<in> set white_chars \<Longrightarrow> is_cont c \<Longrightarrow> \<not> starts_with (c # cs) w"
  using white_char_first [of w] utf8_tail_not_cont [of "hd w" "tl w"]
  by (cases w) (auto simp: starts_with_def)

lemma scan_words_nonempty: "scan_words s \<noteq> []"
  by (cases s) (auto split: option.splits list.splits simp del: find_Some_iff)

lemma scan_words_cont:
  "list_all is_cont xs \<Longrightarrow> scan_words (xs @ ys) = (case scan_words ys of p # ps \<Rightarrow> (xs @ p) # ps | [] \<Rightarrow> [])"
proof (induction xs)
  case Nil
  then show ?case using scan_words_nonempty [of ys] by (cases "scan_words ys") auto
next
  case (Cons x xs)
  have "find (starts_with (x # xs @ ys)) white_chars = None"
    using white_not_cont Cons.prems by (auto simp: find_None_iff)
  then show ?case using Cons scan_words_nonempty [of ys] by (auto split: list.splits)
qed

lemma scan_words_valid: "utf8_valid s \<Longrightarrow> \<forall>p \<in> set (scan_words s). utf8_valid p"
proof (induction s rule: length_induct)
  case (1 s)
  show ?case
  proof (cases s)
    case (Cons b bs)
    from "1.prems" Cons obtain k where k: "utf8_tail b bs = Some k" "utf8_valid (drop k bs)"
      by (auto split: option.splits)
    note cont = utf8_tail_cont [OF k(1)]
    have IH: "\<forall>p \<in> set (scan_words (drop k bs)). utf8_valid p"
      using "1.IH" [rule_format, of "drop k bs"] k(2) Cons by auto
    show ?thesis
    proof (cases "find (starts_with (b # bs)) white_chars")
      case (Some w)
      then have w: "w \<in> set white_chars" "starts_with (b # bs) w"
        by (auto simp: find_Some_iff)
      obtain a v where "w = a # v" using white_char_first [OF w(1)] by (cases w) auto
      with w(2) have v: "w = b # v" "take (length v) bs = v" by (auto simp: starts_with_def)
      then have "utf8_tail b (v @ drop (length v) bs) = Some (length v)"
        using white_char_first [OF w(1)] by (auto intro: utf8_tail_append)
      then have "k = length w - 1" using v k(1) by (metis append_take_drop_id diff_Suc_1 length_Cons option.inject)
      then show ?thesis using Some IH Cons by simp
    next
      case None
      have bs: "bs = take k bs @ drop k bs" by simp
      have scan: "scan_words bs = (case scan_words (drop k bs) of p # ps \<Rightarrow> (take k bs @ p) # ps | [] \<Rightarrow> [])"
        using scan_words_cont [of "take k bs" "drop k bs"] cont by simp
      obtain p ps where p: "scan_words (drop k bs) = p # ps"
        using scan_words_nonempty [of "drop k bs"] by (cases "scan_words (drop k bs)") auto
      have "utf8_tail b (take k bs) = Some k"
        using k(1) cont utf8_tail_shorten [of b "take k bs" "drop k bs" k] by simp
      then have "utf8_tail b (take k bs @ p) = Some k" by (rule utf8_tail_append)
      moreover have "drop k (take k bs @ p) = p" using cont by simp
      ultimately have "utf8_valid (b # take k bs @ p)" using IH p by simp
      then show ?thesis using None scan p IH Cons by simp
    qed
  qed simp
qed

text \<open>A word is scanned as one word, and so is every piece of it.\<close>

lemma starts_with_append: "starts_with xs w \<Longrightarrow> starts_with (xs @ ys) w"
  by (auto simp: starts_with_def) (metis length_take min.cobounded1)

lemma scan_words_prefix: "scan_words s = p # ps \<Longrightarrow> \<exists>r. s = p @ r"
proof (induction s arbitrary: p ps)
  case (Cons c cs)
  obtain q qs where "scan_words cs = q # qs" using scan_words_nonempty [of cs] by (cases "scan_words cs") auto
  with Cons show ?case by (auto split: option.splits)
qed simp

lemma find_white_None: "find (starts_with s) white_chars = None \<longleftrightarrow> (\<forall>w \<in> set white_chars. \<not> starts_with s w)"
  by (auto simp: find_None_iff)

lemma scan_words_one: "p \<in> set (scan_words s) \<Longrightarrow> scan_words p = [p]"
proof (induction s arbitrary: p rule: scan_words.induct)
  case (2 c cs)
  show ?case
  proof (cases "find (starts_with (c # cs)) white_chars")
    case None
    obtain q qs where q: "scan_words cs = q # qs" using scan_words_nonempty [of cs] by (cases "scan_words cs") auto
    then obtain r where r: "cs = q @ r" using scan_words_prefix by blast
    from None have "find (starts_with (c # q)) white_chars = None"
      using starts_with_append [of "c # q" _ r] by (auto simp: find_white_None r)
    then show ?thesis using "2.prems" None q "2.IH"(1) [OF None] by auto
  qed (use 2 in auto)
qed simp

lemma scan_words_part: "scan_words (xs @ ys) = [xs @ ys] \<Longrightarrow> scan_words xs = [xs] \<and> scan_words ys = [ys]"
proof (induction xs)
  case (Cons c cs)
  have none: "find (starts_with (c # cs @ ys)) white_chars = None"
    using Cons.prems by (auto split: option.splits)
  obtain q qs where q: "scan_words (cs @ ys) = q # qs"
    using scan_words_nonempty [of "cs @ ys"] by (cases "scan_words (cs @ ys)") auto
  with Cons.prems none have "scan_words (cs @ ys) = [cs @ ys]" by simp
  moreover have "find (starts_with (c # cs)) white_chars = None"
    using none starts_with_append [of "c # cs" _ ys] by (auto simp: find_white_None)
  ultimately show ?case using Cons.IH by simp
qed simp

lemma scan_words_pieces: "scan_words (concat ps) = [concat ps] \<Longrightarrow> p \<in> set ps \<Longrightarrow> scan_words p = [p]"
proof (induction ps)
  case (Cons q ps)
  then show ?case using scan_words_part [of q "concat ps"] by auto
qed simp

text \<open>A space between two texts separates their words.\<close>

lemma white_not_space: "w \<in> set white_chars \<Longrightarrow> w \<noteq> [] \<and> (w = [32] \<or> 32 \<notin> set w)"
proof -
  have "list_all (\<lambda>w. w \<noteq> [] \<and> (w = [32] \<or> 32 \<notin> set w)) white_chars" by code_simp
  then show "w \<in> set white_chars \<Longrightarrow> ?thesis" by (simp add: list_all_iff)
qed

lemma starts_with_space:
  "w \<in> set white_chars \<Longrightarrow> xs \<noteq> [] \<Longrightarrow> starts_with (xs @ 32 # ys) w \<longleftrightarrow> starts_with xs w"
proof -
  assume "w \<in> set white_chars" and xs: "xs \<noteq> []"
  then have w: "w = [32] \<or> 32 \<notin> set w" using white_not_space by blast
  have "length w \<le> length xs" if take: "take (length w) (xs @ 32 # ys) = w"
  proof (rule ccontr)
    assume "\<not> length w \<le> length xs"
    then obtain k where k: "length w = Suc (length xs + k)" by (metis less_imp_Suc_add not_le)
    with take have "w = xs @ 32 # take k ys" by simp
    then have "32 \<in> set w" by (metis in_set_conv_decomp)
    with w have "length w = 1" by auto
    with k xs show False by simp
  qed
  note short = this
  show ?thesis
  proof
    assume "starts_with (xs @ 32 # ys) w"
    then have take: "take (length w) (xs @ 32 # ys) = w" by (simp only: starts_with_def)
    with short [OF take] show "starts_with xs w" by (simp add: starts_with_def)
  qed (rule starts_with_append)
qed

lemma scan_words_space: "scan_words (xs @ 32 # ys) = scan_words xs @ scan_words ys"
proof (induction xs rule: scan_words.induct)
  case 1
  have "find (starts_with (32 # ys)) white_chars \<noteq> None"
    by (simp add: find_white_None) (auto simp: white_chars_def starts_with_def)
  then obtain w where w: "find (starts_with (32 # ys)) white_chars = Some w" by auto
  then have "w \<in> set white_chars" "starts_with (32 # ys) w" by (auto simp: find_Some_iff)
  moreover from this have "w \<noteq> []" "take (length w) (32 # ys) = w" using white_not_space [of w] by (simp_all add: starts_with_def)
  then have "32 \<in> set w" by (cases w) auto
  ultimately have "w = [32]" using white_not_space [of w] by blast
  then show ?case using w by simp
next
  case (2 c cs)
  have "find (starts_with (c # cs @ 32 # ys)) white_chars = find (starts_with (c # cs)) white_chars"
    using starts_with_space [of _ "c # cs" ys] by (intro find_cong) auto
  note same = this
  show ?case
  proof (cases "find (starts_with (c # cs)) white_chars")
    case None
    obtain q qs where "scan_words cs = q # qs" using scan_words_nonempty [of cs] by (cases "scan_words cs") auto
    then show ?thesis using "2.IH"(1) [OF None] None same by simp
  next
    case (Some w)
    then have "starts_with (c # cs) w" by (auto simp: find_Some_iff)
    then have "length w - 1 \<le> length cs" by (cases w) (auto simp: starts_with_def dest: arg_cong [of _ _ length])
    then show ?thesis using "2.IH"(2) [OF Some] Some same by simp
  qed
qed

section \<open>What the chunks hold\<close>

definition chunk_ok :: "nat \<Rightarrow> text_bytes \<Rightarrow> bool" where
  "chunk_ok n p \<longleftrightarrow> p \<noteq> [] \<and> length p \<le> n \<and> utf8_valid p"

text \<open>
  The words of the chunks: a word within the budget comes as it is, a longer one in pieces.
\<close>

definition carries :: "nat \<Rightarrow> text_bytes list \<Rightarrow> text_bytes list \<Rightarrow> bool" where
  "carries n ws parts \<longleftrightarrow>
     (\<exists>pss. concat pss = parts \<and> map concat pss = ws \<and> (\<forall>ps \<in> set pss. length ps = 1 \<or> n < length (concat ps)))"

lemma carries_Nil [simp]: "carries n [] parts \<longleftrightarrow> parts = []"
  by (auto simp: carries_def)

lemma carries_short: "carries n ws parts \<Longrightarrow> carries n (w # ws) (w # parts)"
  unfolding carries_def by (elim exE) (rule_tac x = "[w] # pss" in exI, simp)

lemma carries_long: "carries n ws parts \<Longrightarrow> n < length (concat ps) \<Longrightarrow> carries n (concat ps # ws) (ps @ parts)"
  unfolding carries_def by (elim exE) (rule_tac x = "ps # pss" in exI, simp)

text \<open>Without words over the budget, these are the words of the text themselves.\<close>

lemma carries_exact:
  assumes "carries n ws parts" and "\<forall>w \<in> set ws. length w \<le> n"
  shows "parts = ws"
proof -
  obtain pss where pss: "concat pss = parts" "map concat pss = ws" "\<forall>ps \<in> set pss. length ps = 1 \<or> n < length (concat ps)"
    using assms(1) by (auto simp: carries_def)
  then have one: "\<forall>ps \<in> set pss. length ps = 1" using assms(2) by fastforce
  then have "concat pss = map concat pss" by (induction pss) (auto simp: length_Suc_conv)
  then show ?thesis using pss by simp
qed

lemma one_word: "scan_words w = [w] \<Longrightarrow> w \<noteq> [] \<Longrightarrow> split_whitespace w = [w]"
  by (simp add: split_whitespace_def)

lemma chunk_words_ok:
  assumes "4 \<le> n"
  shows "\<forall>w \<in> set ws. w \<noteq> [] \<and> utf8_valid w \<and> scan_words w = [w] \<Longrightarrow> \<forall>p \<in> set sofar. chunk_ok n p \<Longrightarrow>
    current = [] \<or> chunk_ok n current \<Longrightarrow>
    \<exists>cs parts. chunk_words n ws sofar current = Some cs \<and> (\<forall>p \<in> set cs. chunk_ok n p) \<and> carries n ws parts
      \<and> concat (map split_whitespace cs) = concat (map split_whitespace sofar) @ split_whitespace current @ parts"
proof (induction ws arbitrary: sofar current)
  case Nil
  then show ?case by (auto simp: split_whitespace_def)
next
  case (Cons w ws)
  have w: "w \<noteq> []" "utf8_valid w" "scan_words w = [w]" using Cons.prems(1) by auto
  have ws: "\<forall>w \<in> set ws. w \<noteq> [] \<and> utf8_valid w \<and> scan_words w = [w]" using Cons.prems(1) by simp
  show ?case
  proof (cases "length w > n")
    case True
    from hard_split_ok [OF assms w(2)] obtain ps where ps: "hard_split n w = Some ps" "concat ps = w"
      "\<forall>p \<in> set ps. chunk_ok n p" by (auto simp: chunk_ok_def)
    let ?cs = "(if current = [] then sofar else sofar @ [current]) @ ps"
    have "\<forall>p \<in> set ps. split_whitespace p = [p]"
      using scan_words_pieces [of ps] ps w(3) by (auto simp: chunk_ok_def intro: one_word)
    then have "concat (map split_whitespace ps) = ps" by (induction ps) simp_all
    moreover have "split_whitespace [] = []" by (simp add: split_whitespace_def)
    ultimately have words: "concat (map split_whitespace ?cs) @ split_whitespace [] @ parts
      = concat (map split_whitespace sofar) @ split_whitespace current @ ps @ parts" for parts by simp
    have "\<forall>p \<in> set ?cs. chunk_ok n p" using Cons.prems ps(3) by auto
    from Cons.IH [OF ws this, of "[]"] obtain cs parts where
      "chunk_words n ws ?cs [] = Some cs" "\<forall>p \<in> set cs. chunk_ok n p" "carries n ws parts"
      "concat (map split_whitespace cs) = concat (map split_whitespace sofar) @ split_whitespace current @ ps @ parts"
      unfolding words by blast
    moreover from this(3) have "carries n (w # ws) (ps @ parts)"
      using carries_long [of n ws parts ps] ps(2) True by simp
    ultimately show ?thesis using True ps(1) by (intro exI [of _ cs] exI [of _ "ps @ parts"]) (auto simp: Let_def)
  next
    case False
    show ?thesis
    proof (cases "length current + (if current = [] then 0 else 1) + length w > n")
      case True
      then have "current \<noteq> []" using False by auto
      then obtain cs parts where "chunk_words n ws (sofar @ [current]) w = Some cs" "\<forall>p \<in> set cs. chunk_ok n p" "carries n ws parts"
        "concat (map split_whitespace cs) = concat (map split_whitespace (sofar @ [current])) @ split_whitespace w @ parts"
        using Cons.IH [OF ws, of "sofar @ [current]" w] False w Cons.prems(2,3) by (auto simp: chunk_ok_def)
      then show ?thesis using True False one_word [OF w(3,1)] carries_short [of n ws parts w]
        by (intro exI [of _ cs] exI [of _ "w # parts"]) (simp add: Let_def)
    next
      case fits: False
      let ?next = "if current = [] then w else current @ [32] @ w"
      have "utf8_valid (32 # w)" using w(2) by (simp add: utf8_tail_def utf8_lead_def)
      then have "chunk_ok n ?next"
        using fits False w Cons.prems(3) by (auto simp: chunk_ok_def intro: utf8_valid_append)
      moreover have "split_whitespace ?next = split_whitespace current @ [w]"
        using scan_words_space [of current w] w by (simp add: split_whitespace_def)
      ultimately obtain cs parts where "chunk_words n ws sofar ?next = Some cs" "\<forall>p \<in> set cs. chunk_ok n p" "carries n ws parts"
        "concat (map split_whitespace cs) = concat (map split_whitespace sofar) @ split_whitespace current @ [w] @ parts"
        using Cons.IH [OF ws Cons.prems(2), of ?next] by auto
      then show ?thesis using fits False carries_short [of n ws parts w]
        by (intro exI [of _ cs] exI [of _ "w # parts"]) (simp add: Let_def)
    qed
  qed
qed

text \<open>Splitting ends, and every chunk is valid text within the budget.\<close>

lemma split_words:
  assumes "4 \<le> n" "utf8_valid content"
  shows "\<exists>cs. split_into_chunks content n = Some cs \<and> (\<forall>c \<in> set cs. chunk_ok n c)
    \<and> (if length content \<le> n then cs = (if content = [] then [] else [content])
       else carries n (split_whitespace content) (concat (map split_whitespace cs)))"
proof -
  have "\<forall>w \<in> set (split_whitespace content). w \<noteq> [] \<and> utf8_valid w \<and> scan_words w = [w]"
    using scan_words_valid [OF assms(2)] scan_words_one [of _ content] by (auto simp: split_whitespace_def)
  from chunk_words_ok [OF assms(1) this, of "[]" "[]"] show ?thesis
    using assms(2) by (auto simp: split_into_chunks_def chunk_ok_def split_whitespace_def)
qed

lemma split_ok:
  assumes "4 \<le> n" "utf8_valid content"
  shows "\<exists>cs. split_into_chunks content n = Some cs \<and> (\<forall>c \<in> set cs. chunk_ok n c)"
  using split_words [OF assms] by blast

section \<open>Properties\<close>

text \<open>
  C37.  Splitting ends and loses no word: with room for a character, text of any shape
  becomes chunks that are valid text, not empty and within the budget; text that fits is
  one chunk as it is; and otherwise the words of the chunks are, in order, the words of the
  text, a word over the budget in pieces that make it up, byte for byte.  So no word is
  lost, altered or run together with its neighbour.
\<close>

theorem chunks_carry_the_text:
  assumes "4 \<le> n" "utf8_valid content"
  shows "\<exists>cs. split_into_chunks content n = Some cs \<and> (\<forall>c \<in> set cs. chunk_ok n c)
    \<and> (if length content \<le> n then cs = (if content = [] then [] else [content])
       else (\<exists>pss. concat pss = concat (map split_whitespace cs) \<and> map concat pss = split_whitespace content
               \<and> (\<forall>ps \<in> set pss. length ps = 1 \<or> n < length (concat ps))))"
  using split_words [OF assms] unfolding carries_def .

text \<open>\<open>aa bb cc\<close> with six bytes to a chunk.\<close>

theorem chunks_carry_the_text_witness:
  "\<exists>cs. split_into_chunks (ascii ''aa bb cc'') 6 = Some cs \<and> (\<forall>c \<in> set cs. length c \<le> 6)
     \<and> concat (map split_whitespace cs) = [ascii ''aa'', ascii ''bb'', ascii ''cc'']"
proof -
  have "utf8_valid (ascii ''aa bb cc'')" by (rule utf8_valid_ascii) (simp add: ascii_def)
  moreover have "length (ascii ''aa bb cc'') = 8" by (simp add: ascii_def)
  moreover have "split_whitespace (ascii ''aa bb cc'') = [ascii ''aa'', ascii ''bb'', ascii ''cc'']" by code_simp
  ultimately obtain cs where cs: "split_into_chunks (ascii ''aa bb cc'') 6 = Some cs" "\<forall>c \<in> set cs. chunk_ok 6 c"
    and "carries 6 [ascii ''aa'', ascii ''bb'', ascii ''cc''] (concat (map split_whitespace cs))"
    using chunks_carry_the_text [of 6 "ascii ''aa bb cc''", folded carries_def] by auto
  then have "concat (map split_whitespace cs) = [ascii ''aa'', ascii ''bb'', ascii ''cc'']"
    by (intro carries_exact [of 6]) (auto simp: ascii_def)
  with cs show ?thesis by (auto simp: chunk_ok_def)
qed

end
