(* ===== verification/Verification.thy ===== *)
theory Verification
  imports Text
begin

text \<open>
  Verification cards and challenges (verification.rs): the signed card that is shown in
  person, its URL form, and the challenge that proves possession of the signing key.
  base64, the lossy UTF-8 conversion of invalid bytes, SHA-256 and Ed25519 are parameters.
  A result is \<open>None\<close> where the code panics.
\<close>

abbreviation (input) MAX_FIELD :: nat where "MAX_FIELD \<equiv> 255"
abbreviation (input) TLV_NOISE_KEY :: byte where "TLV_NOISE_KEY \<equiv> 0x01"
abbreviation (input) TLV_NONCE :: byte where "TLV_NONCE \<equiv> 0x02"
abbreviation (input) TLV_SIGNATURE :: byte where "TLV_SIGNATURE \<equiv> 0x03"

definition CARD_CONTEXT :: text_bytes where "CARD_CONTEXT = ascii ''bitchat-verify-v1''"
definition RESPONSE_CONTEXT :: text_bytes where "RESPONSE_CONTEXT = ascii ''bitchat-verify-resp-v1''"
definition MAX_AGE_SECONDS :: int where "MAX_AGE_SECONDS = 5 * 60"

datatype verify_error = Malformed | Stale | BadSignature

record card =
  cd_version :: u32
  cd_noise_key :: text_bytes
  cd_signing_key :: text_bytes
  cd_npub :: "text_bytes option"
  cd_nickname :: text_bytes
  cd_timestamp :: int
  cd_nonce :: text_bytes
  cd_signature :: text_bytes

section \<open>The signed bytes\<close>

definition push_field :: "text_bytes \<Rightarrow> bytes" where
  "push_field v = (let n = min (length v) MAX_FIELD in of_nat n # take n v)"

definition canonical_bytes :: "(text_bytes \<Rightarrow> text_bytes) \<Rightarrow> card \<Rightarrow> bytes" where
  "canonical_bytes unicode k =
     push_field CARD_CONTEXT
     @ push_field (show_nat (unat (cd_version k)))
     @ push_field (to_lowercase unicode (cd_noise_key k))
     @ push_field (to_lowercase unicode (cd_signing_key k))
     @ push_field (case cd_npub k of Some s \<Rightarrow> s | None \<Rightarrow> [])
     @ push_field (cd_nickname k)
     @ push_field (show_int (cd_timestamp k))
     @ push_field (cd_nonce k)"

definition build ::
  "(bytes \<Rightarrow> text_bytes) \<Rightarrow> (text_bytes \<Rightarrow> text_bytes) \<Rightarrow> bytes \<Rightarrow> (bytes \<Rightarrow> bytes) \<Rightarrow> bytes \<Rightarrow> text_bytes
    \<Rightarrow> text_bytes option \<Rightarrow> int \<Rightarrow> bytes \<Rightarrow> card" where
  "build base64 unicode verifying sign noise_public_key nickname npub now nonce =
     (let k = \<lparr>cd_version = 1, cd_noise_key = hex_encode noise_public_key,
               cd_signing_key = hex_encode verifying, cd_npub = npub, cd_nickname = nickname,
               cd_timestamp = now, cd_nonce = base64 nonce, cd_signature = []\<rparr>
      in k\<lparr>cd_signature := hex_encode (sign (canonical_bytes unicode k))\<rparr>)"

section \<open>The URL\<close>

definition upper_digit :: "nat \<Rightarrow> byte" where
  "upper_digit n = (if n < 10 then of_nat (48 + n) else of_nat (55 + n))"

definition unreserved :: "byte \<Rightarrow> bool" where
  "unreserved b \<longleftrightarrow>
     (let n = unat b in
      65 \<le> n \<and> n \<le> 90 \<or> 97 \<le> n \<and> n \<le> 122 \<or> 48 \<le> n \<and> n \<le> 57
      \<or> n = 45 \<or> n = 95 \<or> n = 46 \<or> n = 126)"

definition encode_byte :: "byte \<Rightarrow> text_bytes" where
  "encode_byte b =
     (if unreserved b then [b] else [37, upper_digit (unat b div 16), upper_digit (unat b mod 16)])"

definition encode_query :: "text_bytes \<Rightarrow> text_bytes" where
  "encode_query s = concat (map encode_byte s)"

text \<open>
  \<open>u8::from_str_radix(_, 16)\<close> on a slice of two bytes, a leading plus sign included.
\<close>

definition hex_byte :: "byte \<Rightarrow> byte \<Rightarrow> byte option" where
  "hex_byte c d =
     (if c = 43 then map_option of_nat (hex_value d)
      else case (hex_value c, hex_value d) of
        (Some h, Some l) \<Rightarrow> Some (of_nat (16 * h + l))
      | _ \<Rightarrow> None)"

text \<open>
  The loop over the bytes.  The slice \<open>&value[index + 1..index + 3]\<close> panics unless both
  ends are character boundaries.
\<close>

fun decode_bytes :: "bytes \<Rightarrow> bytes option" where
  "decode_bytes [] = Some []"
| "decode_bytes (b # bs) =
     (if b = 37 \<and> length bs \<ge> 2
      then (if is_cont (bs ! 0) \<or> (length bs > 2 \<and> is_cont (bs ! 2)) then None
            else case hex_byte (bs ! 0) (bs ! 1) of
              Some v \<Rightarrow> map_option ((#) v) (decode_bytes (drop 2 bs))
            | None \<Rightarrow> map_option ((#) 37) (decode_bytes bs))
      else if b = 43 then map_option ((#) 32) (decode_bytes bs)
      else map_option ((#) b) (decode_bytes bs))"

definition decode_query :: "(bytes \<Rightarrow> text_bytes) \<Rightarrow> text_bytes \<Rightarrow> text_bytes option" where
  "decode_query lossy s =
     map_option (\<lambda>out. if utf8_valid out then out else lossy out) (decode_bytes s)"

definition to_url :: "card \<Rightarrow> text_bytes" where
  "to_url k =
     ascii ''bitchat://verify?v='' @ show_nat (unat (cd_version k))
     @ ascii ''&noise='' @ encode_query (cd_noise_key k)
     @ ascii ''&sign='' @ encode_query (cd_signing_key k)
     @ ascii ''&nick='' @ encode_query (cd_nickname k)
     @ ascii ''&ts='' @ show_int (cd_timestamp k)
     @ ascii ''&nonce='' @ encode_query (cd_nonce k)
     @ ascii ''&sig='' @ encode_query (cd_signature k)
     @ (case cd_npub k of Some npub \<Rightarrow> ascii ''&npub='' @ encode_query npub | None \<Rightarrow> [])"

text \<open>The first value of a name wins, and only that one is decoded.\<close>

fun query_fields ::
  "(bytes \<Rightarrow> text_bytes) \<Rightarrow> text_bytes list \<Rightarrow> (text_bytes \<times> text_bytes) list \<Rightarrow> (text_bytes \<times> text_bytes) list option"
where
  "query_fields lossy [] fs = Some fs"
| "query_fields lossy (pair # pairs) fs =
     (case split_once 61 pair of
        None \<Rightarrow> query_fields lossy pairs fs
      | Some (name, v) \<Rightarrow>
          if map_of fs name \<noteq> None then query_fields lossy pairs fs
          else (case decode_query lossy v of
                  None \<Rightarrow> None
                | Some d \<Rightarrow> query_fields lossy pairs ((name, d) # fs)))"

definition card_of_fields :: "(text_bytes \<times> text_bytes) list \<Rightarrow> card option" where
  "card_of_fields fs =
     (let get = (\<lambda>name. map_of fs (ascii name)) in
      do {
        v \<leftarrow> get ''v'';
        version \<leftarrow> parse_unsigned (2 ^ 32) v;
        noise \<leftarrow> get ''noise'';
        sign \<leftarrow> get ''sign'';
        nick \<leftarrow> get ''nick'';
        ts \<leftarrow> get ''ts'';
        timestamp \<leftarrow> parse_i64 ts;
        nonce \<leftarrow> get ''nonce'';
        sig \<leftarrow> get ''sig'';
        Some \<lparr>cd_version = of_nat version, cd_noise_key = noise, cd_signing_key = sign,
              cd_npub = (case get ''npub'' of Some key \<Rightarrow> if key = [] then None else Some key | None \<Rightarrow> None),
              cd_nickname = nick, cd_timestamp = timestamp, cd_nonce = nonce, cd_signature = sig\<rparr>
      })"

definition from_url :: "(bytes \<Rightarrow> text_bytes) \<Rightarrow> text_bytes \<Rightarrow> (verify_error + card) option" where
  "from_url lossy url =
     (let u = trim url; prefix = ascii ''bitchat://verify?'' in
      if \<not> starts_with u prefix then Some (Inl Malformed)
      else case query_fields lossy (split_on 38 (drop (length prefix) u)) [] of
        None \<Rightarrow> None
      | Some fs \<Rightarrow> Some (case card_of_fields fs of None \<Rightarrow> Inl Malformed | Some k \<Rightarrow> Inr k))"

section \<open>Judging a card\<close>

definition verifying_key :: "(bytes \<Rightarrow> bool) \<Rightarrow> text_bytes \<Rightarrow> verify_error + bytes" where
  "verifying_key key_ok s =
     (case hex_decode s of
        None \<Rightarrow> Inl Malformed
      | Some k \<Rightarrow> if length k = 32 \<and> key_ok k then Inr k else Inl Malformed)"

definition signature_from_hex :: "text_bytes \<Rightarrow> verify_error + bytes" where
  "signature_from_hex s =
     (case hex_decode s of
        None \<Rightarrow> Inl Malformed
      | Some g \<Rightarrow> if length g = 64 then Inr g else Inl Malformed)"

definition check_card ::
  "(text_bytes \<Rightarrow> text_bytes) \<Rightarrow> (bytes \<Rightarrow> bool) \<Rightarrow> (bytes \<Rightarrow> bytes \<Rightarrow> bytes \<Rightarrow> bool) \<Rightarrow> card \<Rightarrow> int \<Rightarrow> verify_error + unit"
where
  "check_card unicode key_ok check k now =
     (let age = i64_sub now (cd_timestamp k) in
      if \<not> (- MAX_AGE_SECONDS \<le> age \<and> age \<le> MAX_AGE_SECONDS) then Inl Stale
      else case verifying_key key_ok (cd_signing_key k) of
        Inl e \<Rightarrow> Inl e
      | Inr key \<Rightarrow>
          (case signature_from_hex (cd_signature k) of
             Inl e \<Rightarrow> Inl e
           | Inr sig \<Rightarrow> if check key (canonical_bytes unicode k) sig then Inr () else Inl BadSignature))"

definition card_fingerprint :: "(bytes \<Rightarrow> bytes) \<Rightarrow> card \<Rightarrow> verify_error + text_bytes" where
  "card_fingerprint sha256 k =
     (case hex_decode (cd_noise_key k) of
        None \<Rightarrow> Inl Malformed
      | Some key \<Rightarrow> Inr (hex_encode (sha256 key)))"

definition card_peer_id :: "(bytes \<Rightarrow> bytes) \<Rightarrow> card \<Rightarrow> verify_error + text_bytes" where
  "card_peer_id sha256 k = map_sum id (take 16) (card_fingerprint sha256 k)"

section \<open>Challenge and response\<close>

definition push_tlv :: "byte \<Rightarrow> bytes \<Rightarrow> bytes" where
  "push_tlv t v = (let n = min (length v) MAX_FIELD in t # of_nat n # take n v)"

text \<open>\<open>Reader::tlv\<close> on what is left of the body.\<close>

definition read_tlv :: "byte \<Rightarrow> bytes \<Rightarrow> (bytes \<times> bytes) option" where
  "read_tlv expected body =
     (case body of
        [] \<Rightarrow> None
      | t # rest \<Rightarrow>
          if t \<noteq> expected then None
          else (case rest of
                  [] \<Rightarrow> None
                | n # rest \<Rightarrow> read_slice (unat n) rest))"

definition challenge :: "text_bytes \<Rightarrow> bytes \<Rightarrow> bytes" where
  "challenge noise_key nonce = push_tlv TLV_NOISE_KEY noise_key @ push_tlv TLV_NONCE nonce"

definition parse_challenge :: "bytes \<Rightarrow> (text_bytes \<times> bytes) option" where
  "parse_challenge body = do {
     (key, rest) \<leftarrow> read_tlv TLV_NOISE_KEY body;
     noise_key \<leftarrow> from_utf8 key;
     (nonce, _) \<leftarrow> read_tlv TLV_NONCE rest;
     Some (noise_key, nonce)
   }"

definition response_message :: "text_bytes \<Rightarrow> bytes \<Rightarrow> bytes" where
  "response_message noise_key nonce =
     (let n = min (length noise_key) MAX_FIELD
      in RESPONSE_CONTEXT @ of_nat n # take n noise_key @ nonce)"

definition response :: "(bytes \<Rightarrow> bytes) \<Rightarrow> text_bytes \<Rightarrow> bytes \<Rightarrow> bytes" where
  "response sign noise_key nonce =
     push_tlv TLV_NOISE_KEY noise_key @ push_tlv TLV_NONCE nonce
     @ push_tlv TLV_SIGNATURE (sign (response_message noise_key nonce))"

definition parse_response :: "bytes \<Rightarrow> (text_bytes \<times> bytes \<times> bytes) option" where
  "parse_response body = do {
     (key, rest) \<leftarrow> read_tlv TLV_NOISE_KEY body;
     noise_key \<leftarrow> from_utf8 key;
     (nonce, rest) \<leftarrow> read_tlv TLV_NONCE rest;
     (signature, _) \<leftarrow> read_tlv TLV_SIGNATURE rest;
     Some (noise_key, nonce, signature)
   }"

definition verify_response ::
  "(bytes \<Rightarrow> bool) \<Rightarrow> (bytes \<Rightarrow> bytes \<Rightarrow> bytes \<Rightarrow> bool) \<Rightarrow> text_bytes \<Rightarrow> bytes \<Rightarrow> bytes \<Rightarrow> bytes \<Rightarrow> text_bytes \<Rightarrow> bool"
where
  "verify_response key_ok check noise_key expected_nonce echoed_nonce signature signing_key =
     (if echoed_nonce \<noteq> expected_nonce then False
      else case (verifying_key key_ok signing_key, signature_from_hex (hex_encode signature)) of
        (Inr key, Inr sig) \<Rightarrow> check key (response_message noise_key expected_nonce) sig
      | _ \<Rightarrow> False)"

section \<open>Percent encoding\<close>

lemma unreserved_facts:
  assumes "unreserved b"
  shows "b \<noteq> 37" "b \<noteq> 38" "b \<noteq> 43" "b \<noteq> 61" "33 \<le> unat b" "unat b < 127"
  using assms by (auto simp: unreserved_def Let_def)

lemma upper_digit_facts:
  assumes "n < 16"
  shows "hex_value (upper_digit n) = Some n" "33 \<le> unat (upper_digit n)" "unat (upper_digit n) < 127"
    "upper_digit n \<noteq> 37" "upper_digit n \<noteq> 38" "upper_digit n \<noteq> 43" "upper_digit n \<noteq> 61"
  using assms
  by (auto simp: hex_value_def upper_digit_def Let_def unat_of_nat word_unat_eq_iff simp del: of_nat_add)

lemma ascii_not_cont: "unat b < 128 \<Longrightarrow> \<not> is_cont b"
  by (simp add: is_cont_def word_le_nat_alt)

lemma encode_query_bytes:
  "c \<in> set (encode_query s) \<Longrightarrow> 33 \<le> unat c \<and> unat c < 127 \<and> c \<noteq> 38 \<and> c \<noteq> 61"
  by (auto simp: encode_query_def encode_byte_def upper_digit_facts dest: unreserved_facts split: if_splits)

lemma hex_byte_digits: "hex_byte (upper_digit (unat b div 16)) (upper_digit (unat b mod 16)) = Some b"
  by (simp add: hex_byte_def upper_digit_facts del: of_nat_add of_nat_mult)

lemma decode_encode_query: "decode_bytes (encode_query s) = Some s"
proof (induction s)
  case (Cons b s)
  show ?case
  proof (cases "unreserved b")
    case True
    then show ?thesis using Cons unreserved_facts [OF True] by (simp add: encode_query_def encode_byte_def)
  next
    case False
    obtain e where e: "e = encode_query s" by simp
    have "e = [] \<or> \<not> is_cont (e ! 0)"
      using encode_query_bytes [of "e ! 0" s] e ascii_not_cont [of "e ! 0"] by fastforce
    moreover have "\<not> is_cont (upper_digit (unat b div 16))"
      using upper_digit_facts [of "unat b div 16"] by (intro ascii_not_cont) simp
    moreover have "encode_query (b # s) = 37 # upper_digit (unat b div 16) # upper_digit (unat b mod 16) # e"
      using False e by (simp add: encode_query_def encode_byte_def)
    ultimately show ?thesis using Cons e by (simp add: hex_byte_digits)
  qed
qed (simp add: encode_query_def)

lemma decode_query_encode: "utf8_valid s \<Longrightarrow> decode_query lossy (encode_query s) = Some s"
  by (simp add: decode_query_def decode_encode_query)

lemma decode_plain: "37 \<notin> set s \<Longrightarrow> 43 \<notin> set s \<Longrightarrow> decode_bytes s = Some s"
  by (induction s) auto

section \<open>The URL form\<close>

lemma digit_bytes:
  assumes "c \<in> set (show_nat n)"
  shows "48 \<le> unat c" "unat c \<le> 57"
  using show_nat_digits [OF assms] by (auto simp: digit_value_def Let_def split: if_splits)

lemma int_bytes: "c \<in> set (show_int i) \<Longrightarrow> c = 45 \<or> 48 \<le> unat c \<and> unat c \<le> 57"
  by (auto simp: show_int_def digit_bytes split: if_splits)

lemma number_bytes:
  "c \<in> set (show_nat n) \<or> c \<in> set (show_int i) \<Longrightarrow>
   33 \<le> unat c \<and> unat c < 127 \<and> c \<noteq> 37 \<and> c \<noteq> 38 \<and> c \<noteq> 43 \<and> c \<noteq> 61"
  using digit_bytes [of c n] int_bytes [of c i] by auto

lemma utf8_graphic: "\<forall>c \<in> set s. unat c < 127 \<Longrightarrow> utf8_valid s"
  by (rule utf8_valid_ascii) (auto simp: word_le_nat_alt)

lemma decode_number:
  "decode_query lossy (show_nat n) = Some (show_nat n)" "decode_query lossy (show_int i) = Some (show_int i)"
proof -
  have *: "decode_query lossy s = Some s" if "\<forall>c \<in> set s. unat c < 127 \<and> c \<noteq> 37 \<and> c \<noteq> 43" for s
  proof -
    have "decode_bytes s = Some s" "utf8_valid s" using that by (auto intro: decode_plain utf8_graphic)
    then show ?thesis by (simp add: decode_query_def)
  qed
  show "decode_query lossy (show_nat n) = Some (show_nat n)" "decode_query lossy (show_int i) = Some (show_int i)"
    using number_bytes [of _ n i] by (auto intro!: *)
qed

lemma parse_i64_show:
  assumes "- (2 ^ 63) \<le> i" "i < 2 ^ 63"
  shows "parse_i64 (show_int i) = Some i"
proof (cases "i < 0")
  case True
  then have "parse_digits (2 ^ 63 + 1) (show_nat (nat (- i))) 0 = Some (nat (- i))"
    using assms by (intro parse_digits_show) auto
  then show ?thesis using True by (simp add: parse_i64_def show_int_def)
next
  case False
  obtain c cs where s: "show_nat (nat i) = c # cs" by (cases "show_nat (nat i)") auto
  then have "c \<noteq> 45" using digit_bytes [of c "nat i"] by auto
  moreover have "parse_unsigned (2 ^ 63) (show_nat (nat i)) = Some (nat i)"
    using assms False by (intro parse_unsigned_show) auto
  ultimately show ?thesis using False s by (simp add: parse_i64_def show_int_def)
qed

lemma graphic_trimmed:
  assumes "\<forall>c \<in> set s. 33 \<le> unat c \<and> unat c < 127"
  shows "trim s = s"
proof -
  have w: "list_all (\<lambda>w. w \<noteq> [] \<and> \<not> (33 \<le> unat (hd w) \<and> unat (hd w) < 127)
      \<and> \<not> (33 \<le> unat (last w) \<and> unat (last w) < 127)) white_chars"
    by code_simp
  have "\<not> starts_with s w \<and> \<not> starts_with (rev s) (rev w)" if "w \<in> set white_chars" for w
  proof -
    have no: "\<not> starts_with x y"
      if "y \<noteq> []" "\<not> (33 \<le> unat (hd y) \<and> unat (hd y) < 127)" "\<forall>c \<in> set x. 33 \<le> unat c \<and> unat c < 127"
      for x y :: bytes
    proof
      assume "starts_with x y"
      then have "hd y \<in> set x" using that(1) by (metis hd_in_set in_set_takeD starts_with_def)
      with that show False by blast
    qed
    from that w have "w \<noteq> []" "\<not> (33 \<le> unat (hd w) \<and> unat (hd w) < 127)"
      "\<not> (33 \<le> unat (last w) \<and> unat (last w) < 127)"
      by (auto simp: list_all_iff)
    then show ?thesis using assms no [of w s] no [of "rev w" "rev s"] by (simp add: hd_rev)
  qed
  then show ?thesis by (intro trim_trimmed) (simp add: trimmed_text_def list_all_iff)
qed

definition url_pairs :: "card \<Rightarrow> text_bytes list" where
  "url_pairs k =
     [ascii ''v'' @ 61 # show_nat (unat (cd_version k)), ascii ''noise'' @ 61 # encode_query (cd_noise_key k),
      ascii ''sign'' @ 61 # encode_query (cd_signing_key k), ascii ''nick'' @ 61 # encode_query (cd_nickname k),
      ascii ''ts'' @ 61 # show_int (cd_timestamp k), ascii ''nonce'' @ 61 # encode_query (cd_nonce k),
      ascii ''sig'' @ 61 # encode_query (cd_signature k)]
     @ (case cd_npub k of Some npub \<Rightarrow> [ascii ''npub'' @ 61 # encode_query npub] | None \<Rightarrow> [])"

lemma to_url_pairs: "to_url k = ascii ''bitchat://verify?'' @ join_with [38] (url_pairs k)"
  by (simp add: to_url_def url_pairs_def ascii_def split: option.split)

lemma url_pairs_bytes:
  "p \<in> set (url_pairs k) \<Longrightarrow> c \<in> set p \<Longrightarrow> 33 \<le> unat c \<and> unat c < 127 \<and> c \<noteq> 38"
  using encode_query_bytes [of c] number_bytes [of c "unat (cd_version k)" "cd_timestamp k"]
  by (auto simp: url_pairs_def ascii_def split: option.splits)

lemma set_join: "set (join_with sep xs) \<subseteq> set sep \<union> \<Union> (set ` set xs)"
  by (induction sep xs rule: join_with.induct) auto

lemma query_fields_cons:
  "61 \<notin> set name \<Longrightarrow> map_of fs name = None \<Longrightarrow> decode_query lossy v = Some d \<Longrightarrow>
   query_fields lossy ((name @ 61 # v) # pairs) fs = query_fields lossy pairs ((name, d) # fs)"
  by (simp add: split_once_append)

definition wf_card :: "card \<Rightarrow> bool" where
  "wf_card k \<longleftrightarrow>
     utf8_valid (cd_noise_key k) \<and> utf8_valid (cd_signing_key k) \<and> utf8_valid (cd_nickname k)
     \<and> utf8_valid (cd_nonce k) \<and> utf8_valid (cd_signature k)
     \<and> (case cd_npub k of None \<Rightarrow> True | Some s \<Rightarrow> s \<noteq> [] \<and> utf8_valid s)
     \<and> - (2 ^ 63) \<le> cd_timestamp k \<and> cd_timestamp k < 2 ^ 63"

definition card_fields :: "card \<Rightarrow> (text_bytes \<times> text_bytes) list" where
  "card_fields k =
     (case cd_npub k of Some npub \<Rightarrow> [(ascii ''npub'', npub)] | None \<Rightarrow> [])
     @ [(ascii ''sig'', cd_signature k), (ascii ''nonce'', cd_nonce k), (ascii ''ts'', show_int (cd_timestamp k)),
        (ascii ''nick'', cd_nickname k), (ascii ''sign'', cd_signing_key k), (ascii ''noise'', cd_noise_key k),
        (ascii ''v'', show_nat (unat (cd_version k)))]"

lemma field_steps:
  fixes lossy :: "bytes \<Rightarrow> text_bytes"
  assumes "decode_query lossy v = Some d"
  shows "map_of fs (ascii n) = None \<Longrightarrow> 61 \<notin> set (ascii n) \<Longrightarrow>
    query_fields lossy ((ascii n @ 61 # v) # pairs) fs = query_fields lossy pairs ((ascii n, d) # fs)"
  using query_fields_cons [OF _ _ assms] by blast

lemma ascii_inject [simp]: "ascii a = ascii b \<longleftrightarrow> a = b"
proof -
  have "unat (of_nat (of_char c :: nat) :: byte) = of_char c" for c
    by (simp add: unat_of_nat)
  then have "inj (\<lambda>c :: char. of_nat (of_char c :: nat) :: byte)"
    by (intro injI) (metis of_char_eq_iff)
  then show ?thesis by (simp add: ascii_def inj_map_eq_map)
qed

lemma field_names:
  "list_all (\<lambda>n. 61 \<notin> set (ascii n)) [''v'', ''noise'', ''sign'', ''nick'', ''ts'', ''nonce'', ''sig'', ''npub'']"
  by code_simp

lemma url_fields:
  assumes "wf_card k"
  shows "query_fields lossy (url_pairs k) [] = Some (card_fields k)"
  using assms field_names
  by (cases "cd_npub k") (simp_all add: url_pairs_def card_fields_def wf_card_def field_steps [OF decode_number(1)]
      field_steps [OF decode_number(2)] field_steps [OF decode_query_encode] del: query_fields.simps(2))

lemma card_of_url_fields: "wf_card k \<Longrightarrow> card_of_fields (card_fields k) = Some k"
proof -
  have "unat (cd_version k) < 2 ^ 32" using unsigned_less [of "cd_version k", where ?'a = nat] by simp
  then show "wf_card k \<Longrightarrow> card_of_fields (card_fields k) = Some k"
    by (cases "cd_npub k")
      (auto simp: card_of_fields_def card_fields_def wf_card_def parse_unsigned_show parse_i64_show)
qed

lemma url_read_back:
  assumes "wf_card k"
  shows "from_url lossy (to_url k) = Some (Inr k)"
proof -
  have graphic: "\<forall>c \<in> set (to_url k). 33 \<le> unat c \<and> unat c < 127"
    using set_join [of "[38]" "url_pairs k"] url_pairs_bytes [of _ k]
    by (auto simp: to_url_pairs) (fastforce simp: ascii_def)+
  have "split_on 38 (join_with [38] (url_pairs k)) = url_pairs k"
    using url_pairs_bytes [of _ k 38] by (intro split_on_join) (simp add: url_pairs_def, blast)
  then show ?thesis
    using url_fields [OF assms] card_of_url_fields [OF assms]
    by (simp add: from_url_def graphic_trimmed [OF graphic [unfolded to_url_pairs]] to_url_pairs starts_with_def Let_def)
qed

section \<open>What a signature covers\<close>

lemma push_field_length: "length (push_field v) = Suc (min (length v) 255)"
  by (simp add: push_field_def Let_def)

lemma push_field_split:
  assumes "push_field v @ xs = push_field w @ ys"
  shows "take 255 v = take 255 w \<and> xs = ys"
proof -
  have cut: "take 255 x = take (min (length x) 255) x" for x :: text_bytes by (simp add: min_def)
  have "of_nat (min (length v) 255) = (of_nat (min (length w) 255) :: byte)"
    and tails: "take (min (length v) 255) v @ xs = take (min (length w) 255) w @ ys"
    using assms by (simp_all add: push_field_def Let_def)
  moreover have "unat (of_nat (min (length x) 255) :: byte) = min (length x) 255" for x :: text_bytes
    by (rule unat_of_nat_byte_less) linarith
  ultimately have n: "min (length v) 255 = min (length w) 255" by metis
  have "take (min (length v) 255) v = take (min (length w) 255) w \<and> xs = ys"
    using tails n by (intro append_eq_append_conv [THEN iffD1]) simp_all
  then show ?thesis using cut [of v] cut [of w] by simp
qed

lemma push_field_same: "push_field v = push_field w \<Longrightarrow> take 255 v = take 255 w"
  using push_field_split [of v "[]" w "[]"] by simp

lemma show_nat_inject [simp]: "show_nat m = show_nat n \<longleftrightarrow> m = n"
proof
  assume eq: "show_nat m = show_nat n"
  have "parse_unsigned (m + n + 1) (show_nat m) = Some m" "parse_unsigned (m + n + 1) (show_nat n) = Some n"
    by (simp_all add: parse_unsigned_show)
  with eq show "m = n" by simp
qed simp

lemma show_int_inject [simp]: "show_int i = show_int j \<longleftrightarrow> i = j"
proof -
  have "45 \<notin> set (show_nat n)" for n using digit_bytes [of 45 n] by auto
  then have ne: "show_nat n \<noteq> 45 # s" "45 # s \<noteq> show_nat n" for n s by (metis list.set_intros(1))+
  show ?thesis by (cases "i < 0"; cases "j < 0") (auto simp: show_int_def ne)
qed

lemma length_show_nat: "n < 10 ^ k \<Longrightarrow> 0 < k \<Longrightarrow> length (show_nat n) \<le> k"
proof (induction n arbitrary: k rule: show_nat.induct)
  case (1 n)
  show ?case
  proof (cases "n < 10")
    case False
    with "1.prems" obtain j where j: "k = Suc j" "0 < j" by (cases k; cases "k - 1") auto
    with "1.prems"(1) have "n div 10 < 10 ^ j" by (simp add: less_mult_imp_div_less mult.commute)
    then show ?thesis using "1.IH" [OF False _ j(2)] j False by (simp add: show_nat.simps [of n])
  qed (use "1.prems" in \<open>simp add: show_nat.simps [of n]\<close>)
qed

definition same_fields :: "(text_bytes \<Rightarrow> text_bytes) \<Rightarrow> card \<Rightarrow> card \<Rightarrow> bool" where
  "same_fields unicode k q \<longleftrightarrow>
     cd_version k = cd_version q \<and> cd_timestamp k = cd_timestamp q
     \<and> take 255 (to_lowercase unicode (cd_noise_key k)) = take 255 (to_lowercase unicode (cd_noise_key q))
     \<and> take 255 (to_lowercase unicode (cd_signing_key k)) = take 255 (to_lowercase unicode (cd_signing_key q))
     \<and> take 255 (case cd_npub k of Some s \<Rightarrow> s | None \<Rightarrow> []) = take 255 (case cd_npub q of Some s \<Rightarrow> s | None \<Rightarrow> [])
     \<and> take 255 (cd_nickname k) = take 255 (cd_nickname q) \<and> take 255 (cd_nonce k) = take 255 (cd_nonce q)"

definition i64_range :: "int \<Rightarrow> bool" where
  "i64_range i \<longleftrightarrow> - (2 ^ 63) \<le> i \<and> i < 2 ^ 63"

lemma short_numbers:
  "take 255 (show_nat (unat (v :: u32))) = show_nat (unat v)"
  "i64_range i \<Longrightarrow> take 255 (show_int i) = show_int i"
proof -
  have "unat v < 10 ^ 10" using unsigned_less [of v, where ?'a = nat] by simp
  then have "length (show_nat (unat v)) \<le> 10" by (rule length_show_nat) simp
  then show "take 255 (show_nat (unat v)) = show_nat (unat v)" by simp
  assume i: "i64_range i"
  then have "nat (- i) < 10 ^ 20" "nat i < 10 ^ 20" by (auto simp: i64_range_def)
  then have "length (show_nat (nat (- i))) \<le> 20" "length (show_nat (nat i)) \<le> 20"
    by (auto intro: length_show_nat)
  then show "take 255 (show_int i) = show_int i" by (simp add: show_int_def)
qed

lemma canonical_bytes_bind:
  assumes "i64_range (cd_timestamp k)" "i64_range (cd_timestamp q)"
  shows "canonical_bytes unicode k = canonical_bytes unicode q \<longleftrightarrow> same_fields unicode k q"
proof
  assume eq: "canonical_bytes unicode k = canonical_bytes unicode q"
  have "unat (cd_version k) = unat (cd_version q) \<and> same_fields unicode (k\<lparr>cd_version := 0\<rparr>) (q\<lparr>cd_version := 0\<rparr>)"
    using eq unfolding canonical_bytes_def same_fields_def append_assoc
    by (auto dest!: push_field_split dest: push_field_same simp: short_numbers assms)
  then show "same_fields unicode k q" using word_unat_eq_iff [of "cd_version k" "cd_version q"] by (simp add: same_fields_def)
next
  have cut: "push_field v = push_field w" if "take 255 v = take 255 w" for v w
  proof -
    have "min (length v) 255 = min (length w) 255" using arg_cong [OF that, of length] by simp
    moreover have "take (min (length x) 255) x = take 255 x" for x :: text_bytes by (simp add: min_def)
    ultimately show ?thesis using that unfolding push_field_def Let_def by metis
  qed
  assume "same_fields unicode k q"
  then show "canonical_bytes unicode k = canonical_bytes unicode q"
    unfolding canonical_bytes_def same_fields_def by (simp add: cut [of "to_lowercase unicode (cd_noise_key k)"]
      cut [of "to_lowercase unicode (cd_signing_key k)"] cut [of "cd_nickname k"] cut [of "cd_nonce k"]
      cut [of "case cd_npub k of Some s \<Rightarrow> s | None \<Rightarrow> []"])
qed

lemma panicking_escape:
  "37 \<notin> set pre \<Longrightarrow> is_cont d \<Longrightarrow> decode_bytes (pre @ [37, a, c, d] @ post) = None"
  by (induction pre) auto

lemma read_push_tlv:
  "length v \<le> 255 \<Longrightarrow> read_tlv t (push_tlv t v @ rest) = Some (v, rest)"
  by (simp add: read_tlv_def push_tlv_def Let_def unat_of_nat_byte_less)

section \<open>Properties\<close>

text \<open>
  A verification card survives its URL: what \<open>to_url\<close> writes \<open>from_url\<close> reads back,
  field by field, whatever the nickname holds, and without a panic.
\<close>

theorem card_roundtrip:
  assumes "wf_card k"
  shows "from_url lossy (to_url k) = Some (Inr k)"
  using assms by (rule url_read_back)

definition sample_card :: card where
  "sample_card = \<lparr>cd_version = 1, cd_noise_key = ascii ''ab'', cd_signing_key = ascii ''cd'',
     cd_npub = None, cd_nickname = [37, 38, 0xC3, 0xA9], cd_timestamp = -5, cd_nonce = ascii ''n'',
     cd_signature = []\<rparr>"

theorem card_roundtrip_witness:
  "from_url id (to_url sample_card) = Some (Inr sample_card)"
  by (rule card_roundtrip)
    (simp add: sample_card_def wf_card_def ascii_def utf8_tail_def utf8_lead_def is_cont_def)

text \<open>
  A card's signature covers its fields: put on any card that names the same signing
  key, the signature is accepted exactly while that card is within five minutes of the
  clock, on either side, and agrees with the signed card on every field.  Text agrees up to
  its first 255 bytes and hex up to its case.  The hypothesis on \<open>check\<close> is what Ed25519
  promises of the one signature that was issued.
\<close>

theorem card_signature_covers:
  assumes "k = build base64 unicode vk sign noise nick npub ts nonce"
    and "length vk = 32" "key_ok vk" "\<And>b. length (sign b) = 64"
    and "\<And>c. check vk c (sign (canonical_bytes unicode k)) \<longleftrightarrow> c = canonical_bytes unicode k"
    and "cd_signing_key q = cd_signing_key k" "cd_signature q = cd_signature k"
    and "i64_range ts" "i64_range (cd_timestamp q)" "i64_range (now - cd_timestamp q)"
  shows "check_card unicode key_ok check q now = Inr ()
     \<longleftrightarrow> \<bar>now - cd_timestamp q\<bar> \<le> MAX_AGE_SECONDS \<and> same_fields unicode q k"
proof -
  have fields: "cd_signing_key k = hex_encode vk" "cd_timestamp k = ts"
    and sig: "cd_signature k = hex_encode (sign (canonical_bytes unicode k))"
    using assms(1) by (simp_all add: build_def Let_def canonical_bytes_def)
  have "canonical_bytes unicode q = canonical_bytes unicode k \<longleftrightarrow> same_fields unicode q k"
    using canonical_bytes_bind assms(8,9) fields(2) by simp
  moreover have "i64_sub now (cd_timestamp q) = now - cd_timestamp q"
    using assms(10) by (intro i64_sub_exact) (auto simp: i64_range_def)
  ultimately show ?thesis
    using assms(2-7) fields(1) sig
    by (auto simp: check_card_def verifying_key_def signature_from_hex_def MAX_AGE_SECONDS_def Let_def)
qed

theorem card_signature_covers_witness:
  "let k = build id id (replicate 32 1) (\<lambda>_. replicate 64 2) [3] [65] None 1000 [4];
       check = (\<lambda>_ c _. c = canonical_bytes id k)
   in check_card id (\<lambda>_. True) check k 1200 = Inr ()
      \<and> check_card id (\<lambda>_. True) check k 1301 \<noteq> Inr ()"
proof -
  let ?k = "build id id (replicate 32 1) (\<lambda>_. replicate 64 2) [3] [65] None 1000 [4]"
  have ts: "cd_timestamp ?k = 1000" by (simp add: build_def Let_def)
  have "check_card id (\<lambda>_. True) (\<lambda>_ c _. c = canonical_bytes id ?k) ?k now = Inr ()
     \<longleftrightarrow> \<bar>now - cd_timestamp ?k\<bar> \<le> MAX_AGE_SECONDS \<and> same_fields id ?k ?k"
    if "i64_range (now - 1000)" for now
    using that ts by (intro card_signature_covers [OF refl]) (simp_all add: i64_range_def)
  from this [of 1200] this [of 1301] show ?thesis
    by (simp add: ts i64_range_def MAX_AGE_SECONDS_def same_fields_def Let_def)
qed

text \<open>
  Reading somebody else's card can panic: a percent sign and one character before a
  character of two bytes makes \<open>decode_query\<close> slice the text in the middle of that
  character, so such a URL aborts the client.
\<close>

theorem card_url_panics:
  "(37 \<notin> set pre \<and> is_cont d \<longrightarrow> decode_query lossy (pre @ [37, a, c, d] @ post) = None)
   \<and> from_url lossy (ascii ''bitchat://verify?nick=%a'' @ [0xC3, 0xA9]) = None"
proof
  show "37 \<notin> set pre \<and> is_cont d \<longrightarrow> decode_query lossy (pre @ [37, a, c, d] @ post) = None"
    using panicking_escape by (simp add: decode_query_def)
  have "trim (ascii ''bitchat://verify?nick=%a'' @ [0xC3, 0xA9]) = ascii ''bitchat://verify?nick=%a'' @ [0xC3, 0xA9]"
    by (rule trim_trimmed) code_simp
  moreover have "split_on 38 (ascii ''nick=%a'' @ [0xC3, 0xA9]) = [ascii ''nick'' @ 61 # [37, 97, 0xC3, 0xA9]]"
    by code_simp
  moreover have "decode_query lossy [37, 97, 0xC3, 0xA9] = None"
    using panicking_escape [of "[]" "0xA9" 97 "0xC3" "[]"] by (simp add: decode_query_def is_cont_def)
  moreover have "ascii ''bitchat://verify?nick=%a'' = ascii ''bitchat://verify?'' @ ascii ''nick=%a''"
    "61 \<notin> set (ascii ''nick'')" by (simp_all add: ascii_def)
  ultimately show "from_url lossy (ascii ''bitchat://verify?nick=%a'' @ [0xC3, 0xA9]) = None"
    by (simp add: from_url_def starts_with_def split_once_append Let_def)
qed

theorem card_url_panics_witness:
  "decode_query id [37, 97, 0xC3, 0xA9] = None"
  using card_url_panics [of "[]" "0xA9" id 97 "0xC3" "[]"] by (simp add: is_cont_def)

text \<open>
  A challenge gets an answer that proves the key and only for that challenge: the
  challenge reads back, the response reads back to the same key and nonce with a signature
  that verifies, and it verifies for no other nonce.
\<close>

theorem challenge_answered:
  assumes "utf8_valid key" "length key \<le> 255" "length nonce \<le> 255" "\<And>b. length (sign b) = 64"
    and "length vk = 32" "key_ok vk"
    and "\<And>c. check vk c (sign (response_message key nonce)) \<longleftrightarrow> c = response_message key nonce"
  shows "parse_challenge (challenge key nonce) = Some (key, nonce)
    \<and> (\<exists>sig. parse_response (response sign key nonce) = Some (key, nonce, sig)
        \<and> (\<forall>expected. verify_response key_ok check key expected nonce sig (hex_encode vk) \<longleftrightarrow> expected = nonce))"
proof -
  have sig: "length (sign (response_message key nonce)) \<le> 255" using assms(4) by simp
  have "push_tlv TLV_SIGNATURE v = push_tlv TLV_SIGNATURE v @ []" for v by simp
  then have "parse_response (response sign key nonce) = Some (key, nonce, sign (response_message key nonce))"
    using assms(1-3) read_push_tlv [OF sig, of 3 "[]"]
    by (simp add: parse_response_def response_def read_push_tlv)
  moreover have "parse_challenge (challenge key nonce) = Some (key, nonce)"
    using assms(1-3) read_push_tlv [OF assms(3), of 2 "[]"]
    by (simp add: parse_challenge_def challenge_def read_push_tlv)
  moreover have "verify_response key_ok check key expected nonce (sign (response_message key nonce)) (hex_encode vk)
      \<longleftrightarrow> expected = nonce" for expected
    using assms(4-7) by (auto simp: verify_response_def verifying_key_def signature_from_hex_def)
  ultimately show ?thesis by blast
qed

theorem challenge_answered_witness:
  "parse_challenge (challenge [97, 98] [1, 2, 3]) = Some ([97, 98], [1, 2, 3])"
proof -
  have "utf8_valid [97, 98]" by (rule utf8_valid_ascii) simp
  then show ?thesis
    using challenge_answered [of "[97, 98]" "[1, 2, 3]" "\<lambda>_. replicate 64 0" "replicate 32 0" "\<lambda>_. True"
        "\<lambda>_ c _. c = response_message [97, 98] [1, 2, 3]"] by simp
qed

end
