(* ===== verification/Mesh_State.thy ===== *)
theory Mesh_State
  imports Chunks Fragment Carrier File_Packet Courier Favorites Rate_Limit Responder Noise_Payload
    Noise_Session Verification
begin

text \<open>
  The mesh service (mesh.rs): the peer registry, private messages, blocking and the frames
  it builds.  What it handles is in \<open>Mesh_Inbound\<close>.

  The clock, the random ephemeral key of a handshake and the message identifiers are
  arguments of the operations that read them.  Diagnostics are constructors carrying what
  their text names; a hash map is an association list or a map, a hash set of fingerprints
  a list without repetitions.
\<close>

section \<open>Identities (peer_id.rs)\<close>

definition key_fingerprint :: "(bytes \<Rightarrow> bytes) \<Rightarrow> bytes \<Rightarrow> text_bytes" where
  "key_fingerprint sha key = hex_encode (sha key)"

definition derive_peer_id :: "(bytes \<Rightarrow> bytes) \<Rightarrow> bytes \<Rightarrow> text_bytes" where
  "derive_peer_id sha key = take 16 (key_fingerprint sha key)"

text \<open>The first characters of a text.\<close>

fun take_chars :: "nat \<Rightarrow> text_bytes \<Rightarrow> text_bytes" where
  "take_chars 0 s = []"
| "take_chars (Suc n) [] = []"
| "take_chars (Suc n) (b # bs) = b # takeWhile is_cont bs @ take_chars n (dropWhile is_cont bs)"

definition short_display :: "text_bytes \<Rightarrow> text_bytes" where
  "short_display peer_id = take_chars 8 peer_id"

section \<open>State\<close>

definition MESSAGE_TTL :: byte where "MESSAGE_TTL = 7"
definition ANNOUNCE_INTERVAL :: nat where "ANNOUNCE_INTERVAL = 10 * 10 ^ 9"
definition PEER_RETENTION :: nat where "PEER_RETENTION = 60 * 10 ^ 9"
definition SEEN_LIMIT :: nat where "SEEN_LIMIT = 512"
definition ADVERTISED :: u64 where "ADVERTISED = 0"

text \<open>Outside code: the Noise primitives, the Unicode case table, DEFLATE and Ed25519.\<close>

record env =
  ev_crypto :: crypto
  ev_unicode :: "text_bytes \<Rightarrow> text_bytes"
  ev_decompress :: "bytes \<Rightarrow> nat \<Rightarrow> bytes option"
  ev_verifying :: "bytes \<Rightarrow> bytes"
  ev_sign :: "bytes \<Rightarrow> bytes \<Rightarrow> bytes"
  ev_key_ok :: "bytes \<Rightarrow> bool"
  ev_check :: "bytes \<Rightarrow> bytes \<Rightarrow> bytes \<Rightarrow> bool"

text \<open>The clocks: nanoseconds of the monotonic one, milliseconds and seconds of the other.\<close>

record clock =
  ck_instant :: nat
  ck_ms :: u64
  ck_seconds :: u64

datatype delivery_status = StatusDelivered | StatusRead

datatype diagnostic =
    UndecodableFrame nat
  | NestedFragment
  | MalformedFragment text_bytes
  | DroppedFragment text_bytes string
  | UndecodableReassembly nat text_bytes
  | FragmentProgress nat nat text_bytes
  | Received "message_type option" byte byte byte nat text_bytes bool
  | MalformedAnnounce text_bytes
  | SenderMismatch text_bytes text_bytes
  | BadAnnounceSignature text_bytes
  | NonUtf8Message text_bytes
  | BadMessageSignature text_bytes
  | UnreadableFile text_bytes
  | UnreadableEnvelope text_bytes
  | UnreadableCarrier text_bytes
  | BridgeCarrierIgnored text_bytes
  | CarrierMisaddressed text_bytes
  | HandshakeWithFailed text_bytes noise_error
  | CouldNotDecrypt text_bytes noise_error
  | UnreadablePayload text_bytes
  | MalformedPrivateMessage text_bytes
  | NoticeFromUnannounced text_bytes
  | UnreadableReceipt text_bytes
  | UnreadableChallenge text_bytes
  | ChallengeForAnother text_bytes
  | CouldNotAnswerChallenge text_bytes
  | OtherPayload noise_payload_type text_bytes nat
  | SyncRequestTravelled text_bytes byte
  | MalformedSyncRequest text_bytes
  | SyncRateLimited text_bytes
  | SyncAnswered text_bytes "message_type list" nat
  | QueuedMessageLost text_bytes

datatype mesh_event =
    PeerAppeared text_bytes text_bytes
  | Send bytes
  | Reply bytes
  | FavoriteUpdate text_bytes text_bytes text_bytes favorite_notice
  | CourierDeposit text_bytes envelope
  | CourierArrived text_bytes envelope
  | CarriedEvent text_bytes direction text_bytes text_bytes
  | DeliveryUpdate text_bytes delivery_status
  | PrivateMessageFrom text_bytes text_bytes text_bytes text_bytes
  | SessionUp text_bytes text_bytes text_bytes
  | PeerRenamed text_bytes text_bytes
  | PeerLeft text_bytes text_bytes
  | PublicMessage text_bytes text_bytes text_bytes u64
  | FileReceived text_bytes text_bytes text_bytes "text_bytes option" bytes bool
  | Notice diagnostic
  | Trace diagnostic

text \<open>What a user action is refused with.\<close>

datatype mesh_error =
    OwnPeerId | PeerBlocked | HandshakeNotStarted noise_error | DoesNotFit | CouldNotEncrypt noise_error
  | NobodyCalled text_bytes | SeveralCalled nat text_bytes "text_bytes list"
  | SeveralFavourites nat text_bytes "text_bytes list" | CannotBlockSelf | NotAnnounced text_bytes
  | AlreadyBlocked text_bytes | NotBlocked text_bytes | FileEmpty | FileTooLarge text_bytes nat
  | NotEncodable | TooManyFragments text_bytes

record mesh_peer =
  mp_id :: text_bytes
  mp_nickname :: text_bytes
  mp_noise_key :: bytes
  mp_signing_key :: bytes
  mp_fingerprint :: text_bytes
  mp_verified :: bool
  mp_capabilities :: "u64 option"
  mp_claims :: "text_bytes list"
  mp_last_seen :: nat

definition is_gateway :: "mesh_peer \<Rightarrow> bool" where
  "is_gateway p = (case mp_capabilities p of Some c \<Rightarrow> cap_has c cap_gateway | None \<Rightarrow> False)"

record mesh =
  ms_my_id :: text_bytes
  ms_nickname :: text_bytes
  ms_peers :: "(text_bytes \<times> mesh_peer) list"
  ms_noise_public :: bytes
  ms_sessions :: manager
  ms_pending :: "text_bytes \<rightharpoonup> private_message list"
  ms_favorites :: favorites
  ms_blocked :: "text_bytes list"
  ms_signing_key :: bytes
  ms_seen :: "(text_bytes \<times> u64 \<times> text_bytes) ring"
  ms_last_announce :: "nat option"
  ms_gateway_ready :: bool
  ms_assembler :: assembler
  ms_archive :: archive
  ms_limiter :: limiter
  ms_debug :: bool

definition mesh_new :: "env \<Rightarrow> bytes \<Rightarrow> bytes \<Rightarrow> text_bytes \<Rightarrow> mesh" where
  "mesh_new v identity_key noise_static nickname =
     (let noise_public = public_key (ev_crypto v) noise_static in
      \<lparr>ms_my_id = derive_peer_id (sha256 (ev_crypto v)) noise_public,
       ms_nickname = truncate_nickname nickname, ms_peers = [], ms_noise_public = noise_public,
       ms_sessions = manager_new noise_static, ms_pending = Map.empty, ms_favorites = [],
       ms_blocked = [], ms_signing_key = identity_key, ms_seen = ring_empty,
       ms_last_announce = None, ms_gateway_ready = False, ms_assembler = assembler_new,
       ms_archive = archive_new, ms_limiter = limiter_default, ms_debug = False\<rparr>)"

definition my_fingerprint :: "env \<Rightarrow> mesh \<Rightarrow> text_bytes" where
  "my_fingerprint v m = key_fingerprint (sha256 (ev_crypto v)) (ms_noise_public m)"

definition set_nickname :: "text_bytes \<Rightarrow> mesh \<Rightarrow> mesh" where
  "set_nickname nickname m = m\<lparr>ms_nickname := truncate_nickname nickname\<rparr>"

definition sender_bytes :: "mesh \<Rightarrow> bytes" where
  "sender_bytes m = peer_id_to_bytes (ms_my_id m)"

definition archive_packet :: "env \<Rightarrow> clock \<Rightarrow> packet \<Rightarrow> mesh \<Rightarrow> mesh" where
  "archive_packet v t p m =
     m\<lparr>ms_archive := snd (archive_record (sha256 (ev_crypto v)) p (ck_ms t) (ms_archive m))\<rparr>"

text \<open>
  The key of a broadcast is its sender, time and text; the separators of the formatted key
  cannot be confused because the sender is hex and the time decimal.
\<close>

definition remember_packet :: "packet \<Rightarrow> text_bytes \<Rightarrow> mesh \<Rightarrow> bool \<times> mesh" where
  "remember_packet p content m =
     (let (new, r) = pop_insert SEEN_LIMIT (sender_hex p, p_timestamp p, content) (ms_seen m)
      in (new, m\<lparr>ms_seen := r\<rparr>))"

section \<open>Public frames\<close>

definition own_sign :: "env \<Rightarrow> mesh \<Rightarrow> packet \<Rightarrow> bool \<times> packet" where
  "own_sign v m p = sign_packet (ev_sign v (ms_signing_key m)) p"

definition announce_frame :: "env \<Rightarrow> clock \<Rightarrow> mesh \<Rightarrow> bytes option \<times> mesh" where
  "announce_frame v t m =
     (let claimed = (if ms_gateway_ready m then cap_with ADVERTISED cap_gateway else ADVERTISED) in
      case announcement_encode (with_capabilities
             (announcement_new (ms_nickname m) (ms_noise_public m) (ev_verifying v (ms_signing_key m))) claimed) of
        None \<Rightarrow> (None, m)
      | Some payload \<Rightarrow>
          (let (signed, p) = own_sign v m (packet_new Announce (sender_bytes m) payload MESSAGE_TTL (ck_ms t)) in
           if \<not> signed then (None, m)
           else (encode p, archive_packet v t p (m\<lparr>ms_last_announce := Some (ck_instant t)\<rparr>))))"

definition announce_due :: "nat \<Rightarrow> mesh \<Rightarrow> bool" where
  "announce_due now m =
     (case ms_last_announce m of None \<Rightarrow> True | Some at \<Rightarrow> now - at \<ge> ANNOUNCE_INTERVAL)"

definition leave_frame :: "env \<Rightarrow> clock \<Rightarrow> mesh \<Rightarrow> bytes option" where
  "leave_frame v t m = encode (snd (own_sign v m (packet_new Leave (sender_bytes m) [] MESSAGE_TTL (ck_ms t))))"

definition public_message_frame :: "env \<Rightarrow> clock \<Rightarrow> text_bytes \<Rightarrow> mesh \<Rightarrow> bytes option \<times> mesh" where
  "public_message_frame v t piece m =
     (let (signed, p) = own_sign v m (packet_new Message (sender_bytes m) piece MESSAGE_TTL (ck_ms t)) in
      if \<not> signed then (None, m)
      else (encode p, archive_packet v t p (snd (remember_packet p piece m))))"

text \<open>Every frame reads the clocks again: \<open>tick i\<close> is what the frame of piece \<open>i\<close> reads.\<close>

fun public_pieces :: "env \<Rightarrow> (nat \<Rightarrow> clock) \<Rightarrow> text_bytes list \<Rightarrow> mesh \<Rightarrow> bytes list \<times> mesh" where
  "public_pieces v tick [] m = ([], m)"
| "public_pieces v tick (piece # pieces) m =
     (let (f, m) = public_message_frame v (tick 0) piece m;
          (fs, m) = public_pieces v (\<lambda>i. tick (Suc i)) pieces m in
      ((case f of Some f \<Rightarrow> f # fs | None \<Rightarrow> fs), m))"

definition public_message_frames ::
  "env \<Rightarrow> (nat \<Rightarrow> clock) \<Rightarrow> text_bytes \<Rightarrow> mesh \<Rightarrow> (bytes list \<times> mesh) option" where
  "public_message_frames v tick content m =
     map_option (\<lambda>pieces. public_pieces v tick pieces m) (split_for_signing content)"

definition noise_frame :: "clock \<Rightarrow> mesh \<Rightarrow> message_type \<Rightarrow> text_bytes \<Rightarrow> bytes \<Rightarrow> bytes option" where
  "noise_frame t m kind recipient payload =
     encode (with_recipient (packet_new kind (sender_bytes m) payload MESSAGE_TTL (ck_ms t))
               (peer_id_to_bytes recipient))"

section \<open>Names\<close>

definition has_encrypted_channel :: "text_bytes \<Rightarrow> mesh \<Rightarrow> bool" where
  "has_encrypted_channel peer m = has_established_session peer (ms_sessions m)"

definition peer_nickname :: "text_bytes \<Rightarrow> mesh \<Rightarrow> text_bytes" where
  "peer_nickname peer m =
     (case map_of (ms_peers m) peer of Some p \<Rightarrow> mp_nickname p | None \<Rightarrow> short_display peer)"

definition peer_id_for_nickname :: "text_bytes \<Rightarrow> mesh \<Rightarrow> mesh_error + text_bytes" where
  "peer_id_for_nickname nickname m =
     (case filter (\<lambda>p. eq_ignore_ascii_case (mp_nickname p) nickname) (map snd (ms_peers m)) of
        [] \<Rightarrow> Inl (NobodyCalled nickname)
      | [p] \<Rightarrow> Inr (mp_id p)
      | ps \<Rightarrow> Inl (SeveralCalled (length ps) nickname (map (\<lambda>p. short_display (mp_id p)) ps)))"

definition addressable_peer_id_for :: "text_bytes \<Rightarrow> mesh \<Rightarrow> mesh_error + text_bytes" where
  "addressable_peer_id_for nickname m =
     (case peer_id_for_nickname nickname m of
        Inr peer \<Rightarrow> Inr peer
      | Inl _ \<Rightarrow>
          (case by_nickname nickname (ms_favorites m) of
             [] \<Rightarrow> Inl (NobodyCalled nickname)
           | [(fp, _)] \<Rightarrow> Inr (take_chars 16 fp)
           | fs \<Rightarrow> Inl (SeveralFavourites (length fs) nickname (map (\<lambda>(fp, _). short_display fp) fs))))"

definition nicknames :: "mesh \<Rightarrow> text_bytes list" where
  "nicknames m =
     sort (map (\<lambda>(_, p). if mp_nickname p = [] then short_display (mp_id p) else mp_nickname p) (ms_peers m))"

definition verification_card ::
  "env \<Rightarrow> (bytes \<Rightarrow> text_bytes) \<Rightarrow> text_bytes option \<Rightarrow> int \<Rightarrow> bytes \<Rightarrow> mesh \<Rightarrow> card" where
  "verification_card v base64 npub now nonce m =
     build base64 (ev_unicode v) (ev_verifying v (ms_signing_key m)) (ev_sign v (ms_signing_key m))
       (ms_noise_public m) (ms_nickname m) npub now nonce"

text \<open>\<open>None\<close> is the panic of \<open>verify_fingerprint\<close>.\<close>

definition mark_verified :: "env \<Rightarrow> text_bytes \<Rightarrow> mesh \<Rightarrow> mesh option" where
  "mark_verified v fp m =
     map_option (\<lambda>s. m\<lparr>ms_sessions := s\<rparr>) (verify_fingerprint (to_lowercase (ev_unicode v) fp) (ms_sessions m))"

text \<open>A peer identifier is the beginning of a fingerprint, so either may be the longer.\<close>

definition listed :: "(text_bytes \<Rightarrow> text_bytes) \<Rightarrow> text_bytes \<Rightarrow> text_bytes list \<Rightarrow> bool" where
  "listed unicode i fps =
     (let needle = to_lowercase unicode i in list_ex (\<lambda>fp. starts_with fp needle \<or> starts_with needle fp) fps)"

definition is_verified :: "env \<Rightarrow> text_bytes \<Rightarrow> mesh \<Rightarrow> bool" where
  "is_verified v i m = listed (ev_unicode v) i (get_verified_fingerprints (ms_sessions m))"

definition load_verified :: "text_bytes list \<Rightarrow> mesh \<Rightarrow> mesh" where
  "load_verified fps m = m\<lparr>ms_sessions := load_verified_fingerprints fps (ms_sessions m)\<rparr>"

definition verified_labels :: "mesh \<Rightarrow> text_bytes list" where
  "verified_labels m =
     sort (map (\<lambda>fp. case find (\<lambda>p. mp_fingerprint p = fp) (map snd (ms_peers m)) of
                      Some p \<Rightarrow> mp_nickname p @ ascii '' (here now)''
                    | None \<Rightarrow> take_chars 16 fp)
            (get_verified_fingerprints (ms_sessions m)))"

definition nostr_address_for :: "env \<Rightarrow> text_bytes \<Rightarrow> mesh \<Rightarrow> text_bytes option" where
  "nostr_address_for v peer m =
     (case resolve (ev_unicode v) peer (ms_favorites m) of Some (_, r) \<Rightarrow> rs_nostr_key r | None \<Rightarrow> None)"

section \<open>Blocking\<close>

definition is_blocked :: "env \<Rightarrow> text_bytes \<Rightarrow> mesh \<Rightarrow> bool" where
  "is_blocked v i m = listed (ev_unicode v) i (ms_blocked m)"

definition load_blocked :: "env \<Rightarrow> text_bytes list \<Rightarrow> mesh \<Rightarrow> mesh" where
  "load_blocked v fps m = m\<lparr>ms_blocked := remdups (map (to_lowercase (ev_unicode v)) fps)\<rparr>"

definition blocked_labels :: "mesh \<Rightarrow> text_bytes list" where
  "blocked_labels m =
     sort (map (\<lambda>fp. case find (\<lambda>p. mp_fingerprint p = fp) (map snd (ms_peers m)) of
                      Some p \<Rightarrow> mp_nickname p
                    | None \<Rightarrow> take_chars 16 fp)
            (ms_blocked m))"

definition block_peer :: "text_bytes \<Rightarrow> mesh \<Rightarrow> (mesh_error + text_bytes) \<times> mesh" where
  "block_peer peer m =
     (if peer = ms_my_id m then (Inl CannotBlockSelf, m)
      else case map_of (ms_peers m) peer of
        None \<Rightarrow> (Inl (NotAnnounced (short_display peer)), m)
      | Some p \<Rightarrow>
          if mp_fingerprint p \<in> set (ms_blocked m) then (Inl (AlreadyBlocked (mp_nickname p)), m)
          else (Inr (mp_nickname p),
                m\<lparr>ms_blocked := mp_fingerprint p # ms_blocked m,
                  ms_peers := AList.delete peer (ms_peers m),
                  ms_sessions := remove_session peer (ms_sessions m)\<rparr>))"

definition unblock :: "env \<Rightarrow> text_bytes \<Rightarrow> mesh \<Rightarrow> (mesh_error + text_bytes) \<times> mesh" where
  "unblock v text m =
     (let needle = to_lowercase (ev_unicode v) text;
          by_name = map_option mp_fingerprint
            (find (\<lambda>p. eq_ignore_ascii_case (mp_nickname p) needle) (map snd (ms_peers m)));
          target = (case by_name of
                      Some fp \<Rightarrow> Some fp
                    | None \<Rightarrow> find (\<lambda>fp. starts_with fp needle) (ms_blocked m))
      in case target of
           Some fp \<Rightarrow>
             if fp \<in> set (ms_blocked m)
             then (Inr (take_chars 16 fp), m\<lparr>ms_blocked := removeAll fp (ms_blocked m)\<rparr>)
             else (Inl (NotBlocked needle), m)
         | None \<Rightarrow> (Inl (NotBlocked needle), m))"

section \<open>Private frames\<close>

definition sealed_record_frame ::
  "env \<Rightarrow> clock \<Rightarrow> text_bytes \<Rightarrow> private_message \<Rightarrow> mesh \<Rightarrow> (mesh_error + bytes list) \<times> mesh" where
  "sealed_record_frame v t peer record m =
     (case pm_encode record of
        None \<Rightarrow> (Inl DoesNotFit, m)
      | Some encoded \<Rightarrow>
          (case manager_encrypt (ev_crypto v)
                  (payload_encode \<lparr>np_kind = PrivateMessage, np_body = encoded\<rparr>) peer (ms_sessions m) of
             (Inl e, s) \<Rightarrow> (Inl (CouldNotEncrypt e), m\<lparr>ms_sessions := s\<rparr>)
           | (Inr sealed, s) \<Rightarrow>
               (let m = m\<lparr>ms_sessions := s\<rparr> in
                (Inr (case noise_frame t m NoiseEncrypted peer sealed of Some f \<Rightarrow> [f] | None \<Rightarrow> []), m))))"

fun sealed_records ::
  "env \<Rightarrow> clock \<Rightarrow> text_bytes \<Rightarrow> private_message list \<Rightarrow> mesh \<Rightarrow> (mesh_error + bytes list) \<times> mesh" where
  "sealed_records v t peer [] m = (Inr [], m)"
| "sealed_records v t peer (record # records) m =
     (case sealed_record_frame v t peer record m of
        (Inl e, m) \<Rightarrow> (Inl e, m)
      | (Inr fs, m) \<Rightarrow>
          (case sealed_records v t peer records m of
             (Inl e, m) \<Rightarrow> (Inl e, m)
           | (Inr gs, m) \<Rightarrow> (Inr (fs @ gs), m)))"

text \<open>\<open>uuid i\<close> is the identifier minted for chunk \<open>i\<close>.\<close>

definition dm_records :: "(nat \<Rightarrow> text_bytes) \<Rightarrow> text_bytes \<Rightarrow> private_message list option" where
  "dm_records uuid content =
     map_option (\<lambda>pieces. map (\<lambda>(i, piece). pm_new (uuid i) piece) (enumerate 0 pieces))
       (split_into_chunks content MAX_TLV_VALUE)"

definition dm_frames ::
  "env \<Rightarrow> clock \<Rightarrow> bytes \<Rightarrow> (nat \<Rightarrow> text_bytes) \<Rightarrow> text_bytes \<Rightarrow> text_bytes \<Rightarrow> mesh
    \<Rightarrow> ((mesh_error + text_bytes list \<times> bytes list) \<times> mesh) option" where
  "dm_frames v t ephemeral uuid peer content m =
     (if peer = ms_my_id m then Some (Inl OwnPeerId, m)
      else if is_blocked v peer m then Some (Inl PeerBlocked, m)
      else case dm_records uuid content of
        None \<Rightarrow> None
      | Some records \<Rightarrow>
          let ids = map pm_message_id records in
          Some (if has_established_session peer (ms_sessions m)
                then (case sealed_records v t peer records m of
                        (Inl e, m) \<Rightarrow> (Inl e, m)
                      | (Inr fs, m) \<Rightarrow> (Inr (ids, fs), m))
                else (case initiate_handshake (ev_crypto v) ephemeral peer (ms_sessions m) of
                        (Inl e, s) \<Rightarrow> (Inl (HandshakeNotStarted e), m\<lparr>ms_sessions := s\<rparr>)
                      | (Inr opening, s) \<Rightarrow>
                          (let m = m\<lparr>ms_sessions := s,
                                     ms_pending := (ms_pending m)(peer \<mapsto>
                                       (case ms_pending m peer of Some rs \<Rightarrow> rs | None \<Rightarrow> []) @ records)\<rparr> in
                           (Inr (ids, case noise_frame t m NoiseHandshake peer opening of
                                        Some f \<Rightarrow> [f] | None \<Rightarrow> []), m)))))"

definition favorite_frames ::
  "env \<Rightarrow> clock \<Rightarrow> bytes \<Rightarrow> (nat \<Rightarrow> text_bytes) \<Rightarrow> text_bytes \<Rightarrow> bool \<Rightarrow> text_bytes \<Rightarrow> mesh
    \<Rightarrow> ((mesh_error + text_bytes list \<times> bytes list) \<times> mesh) option" where
  "favorite_frames v t ephemeral uuid peer favorite our_nostr_key m =
     (case map_of (ms_peers m) peer of
        None \<Rightarrow> Some (Inl (NotAnnounced (short_display peer)), m)
      | Some p \<Rightarrow>
          (case dm_frames v t ephemeral uuid peer (notice_text favorite our_nostr_key) m of
             None \<Rightarrow> None
           | Some (Inl e, m) \<Rightarrow> Some (Inl e, m)
           | Some (Inr sent, m) \<Rightarrow>
               Some (Inr sent, m\<lparr>ms_favorites :=
                 set_ours (ev_unicode v) (mp_fingerprint p) (mp_nickname p) favorite (ms_favorites m)\<rparr>)))"

definition receipt_frame ::
  "env \<Rightarrow> clock \<Rightarrow> text_bytes \<Rightarrow> noise_payload_type \<Rightarrow> text_bytes \<Rightarrow> mesh \<Rightarrow> bytes option \<times> mesh" where
  "receipt_frame v t peer kind message_id m =
     (if \<not> has_established_session peer (ms_sessions m) then (None, m)
      else case manager_encrypt (ev_crypto v) (payload_encode (payload_receipt kind message_id)) peer (ms_sessions m) of
        (Inl e, s) \<Rightarrow> (None, m\<lparr>ms_sessions := s\<rparr>)
      | (Inr sealed, s) \<Rightarrow>
          (let m = m\<lparr>ms_sessions := s\<rparr> in (noise_frame t m NoiseEncrypted peer sealed, m)))"

fun read_receipt_frames ::
  "env \<Rightarrow> clock \<Rightarrow> text_bytes \<Rightarrow> text_bytes list \<Rightarrow> mesh \<Rightarrow> bytes list \<times> mesh" where
  "read_receipt_frames v t peer [] m = ([], m)"
| "read_receipt_frames v t peer (i # ids) m =
     (let (f, m) = receipt_frame v t peer ReadReceipt i m; (fs, m) = read_receipt_frames v t peer ids m in
      ((case f of Some f \<Rightarrow> f # fs | None \<Rightarrow> fs), m))"

section \<open>Couriered mail, carried events and files\<close>

definition open_mail :: "env \<Rightarrow> envelope \<Rightarrow> mesh \<Rightarrow> (private_message \<times> text_bytes) option" where
  "open_mail v e m =
     (if en_prekey e \<noteq> None then None
      else do {
        (typed, sender) \<leftarrow> open_courier (ev_crypto v) (en_ciphertext e) (ms_sessions m);
        let fp = key_fingerprint (sha256 (ev_crypto v)) sender;
        if is_blocked v fp m then None
        else do {
          payload \<leftarrow> payload_decode typed;
          if np_kind payload \<noteq> PrivateMessage then None
          else do {
            record \<leftarrow> pm_decode (np_body payload);
            Some (record, fp)
          }
        }
      })"

definition seal_for_courier ::
  "env \<Rightarrow> bytes \<Rightarrow> text_bytes \<Rightarrow> bytes \<Rightarrow> text_bytes \<Rightarrow> u64 \<Rightarrow> u64 \<Rightarrow> mesh \<Rightarrow> (envelope \<times> text_bytes) option" where
  "seal_for_courier v ephemeral uuid recipient_key content expiry now_seconds m =
     (let record = pm_new uuid content in do {
        encoded \<leftarrow> pm_encode record;
        sealed \<leftarrow> seal_courier (ev_crypto v) ephemeral
          (payload_encode \<lparr>np_kind = PrivateMessage, np_body = encoded\<rparr>) recipient_key (ms_sessions m);
        e \<leftarrow> envelope_new (recipient_tag (hmac256 (ev_crypto v)) recipient_key (epoch_day now_seconds))
          expiry sealed 1 None;
        Some (e, pm_message_id record)
      })"

definition courier_frame :: "clock \<Rightarrow> envelope \<Rightarrow> text_bytes \<Rightarrow> mesh \<Rightarrow> bytes option" where
  "courier_frame t e recipient m = do {
     payload \<leftarrow> envelope_encode e;
     encode (with_recipient (packet_new CourierEnvelope (sender_bytes m) payload MESSAGE_TTL (ck_ms t))
       (peer_id_to_bytes recipient))
   }"

definition carrier_frame :: "clock \<Rightarrow> carrier \<Rightarrow> text_bytes option \<Rightarrow> mesh \<Rightarrow> bytes option" where
  "carrier_frame t c recipient m =
     (let p = packet_new NostrCarrier (sender_bytes m) (carrier_encode c) MESSAGE_TTL (ck_ms t) in
      encode (case recipient of Some r \<Rightarrow> with_recipient p (peer_id_to_bytes r) | None \<Rightarrow> p))"

definition file_frames ::
  "env \<Rightarrow> clock \<Rightarrow> u64 \<Rightarrow> text_bytes \<Rightarrow> text_bytes option \<Rightarrow> bytes \<Rightarrow> mesh \<Rightarrow> (mesh_error + bytes list) \<times> mesh" where
  "file_frames v t stream name mime content m =
     (if content = [] then (Inl FileEmpty, m)
      else
        case file_encode \<lparr>fp_name = Some name, fp_size = Some (of_nat (length content)),
                          fp_mime = mime, fp_content = content\<rparr> of
          None \<Rightarrow> (Inl (FileTooLarge name (length content)), m)
        | Some payload \<Rightarrow>
            let p = packet_new FileTransfer (sender_bytes m) payload MESSAGE_TTL (ck_ms t);
                m = archive_packet v t p m
            in case encode p of
                 None \<Rightarrow> (Inl NotEncodable, m)
               | Some inner \<Rightarrow>
                   let pieces = split_packet stream (message_code FileTransfer) inner SLICE_BYTES in
                   if pieces = [] then (Inl (TooManyFragments name), m)
                   else (Inr (List.map_filter (\<lambda>piece.
                                encode (packet_new Fragment (sender_bytes m) piece MESSAGE_TTL (ck_ms t))) pieces), m))"

section \<open>Housekeeping\<close>

definition wipe_mesh :: "mesh \<Rightarrow> mesh" where
  "wipe_mesh m =
     m\<lparr>ms_sessions := fold remove_session (map fst (ms_peers m)) (ms_sessions m),
       ms_peers := [], ms_blocked := [], ms_favorites := favorites_clear (ms_favorites m), ms_pending := Map.empty,
       ms_seen := ring_empty, ms_archive := archive_clear (ms_archive m)\<rparr>"

definition sweep_sync_state :: "u64 \<Rightarrow> mesh \<Rightarrow> mesh" where
  "sweep_sync_state now m =
     m\<lparr>ms_archive := archive_drop_stale now (ms_archive m),
       ms_limiter := limiter_prune (unat now) (ms_limiter m)\<rparr>"

definition prune_peers :: "nat \<Rightarrow> mesh \<Rightarrow> mesh_event list \<times> mesh" where
  "prune_peers now m =
     (let gone = filter (\<lambda>(_, p). now - mp_last_seen p > PEER_RETENTION) (ms_peers m) in
      (map (\<lambda>(_, p). PeerLeft (mp_id p) (mp_nickname p)) gone,
       m\<lparr>ms_archive := fold (\<lambda>(i, _). forget_peer (peer_id_to_bytes i)) gone (ms_archive m),
         ms_peers := fold (\<lambda>(i, _). AList.delete i) gone (ms_peers m)\<rparr>))"

definition clear_peers :: "mesh \<Rightarrow> mesh" where
  "clear_peers m = m\<lparr>ms_peers := []\<rparr>"

end
