(* ===== verification/Mesh_Inbound.thy ===== *)
theory Mesh_Inbound
  imports Mesh_State
begin

text \<open>
  What the mesh service does with an inbound frame (\<open>handle_frame\<close> and below in mesh.rs):
  announces, public messages, fragments, handshakes, encrypted payloads, mail, carried
  events, files and sync requests.  The result of a dispatch is \<open>None\<close> where the assembler
  would panic; \<open>Mesh_Safety\<close> shows that it never does.
\<close>

section \<open>Compression and addressing\<close>

text \<open>
  \<open>should_compress\<close> compares a quotient of two counts, at most 256 and at least 100, with
  0.9 in double precision; in that range this is the comparison of the products.
\<close>

definition should_compress :: "bytes \<Rightarrow> bool" where
  "should_compress d \<longleftrightarrow>
     COMPRESSION_THRESHOLD \<le> length d \<and> 10 * length (remdups d) < 9 * min (length d) 256"

definition addressed_to_us :: "packet \<Rightarrow> mesh \<Rightarrow> bool" where
  "addressed_to_us p m \<longleftrightarrow> recipient_hex p = Some (ms_my_id m)"

definition verify_with :: "env \<Rightarrow> packet \<Rightarrow> bytes \<Rightarrow> bool" where
  "verify_with v p key = verify_packet (ev_key_ok v) (ev_check v) p key"

section \<open>Announces\<close>

definition announced_peer ::
  "env \<Rightarrow> clock \<Rightarrow> text_bytes \<Rightarrow> announcement \<Rightarrow> bool \<Rightarrow> mesh_peer" where
  "announced_peer v t sender a verified =
     \<lparr>mp_id = sender, mp_nickname = an_nickname a, mp_noise_key = an_noise_public_key a,
      mp_signing_key = an_signing_public_key a,
      mp_fingerprint = key_fingerprint (sha256 (ev_crypto v)) (an_noise_public_key a),
      mp_verified = verified, mp_capabilities = advertised a,
      mp_claims = (case an_direct_neighbors a of Some ns \<Rightarrow> map hex_encode ns | None \<Rightarrow> []),
      mp_last_seen = ck_instant t\<rparr>"

definition handle_announce :: "env \<Rightarrow> clock \<Rightarrow> packet \<Rightarrow> mesh \<Rightarrow> mesh_event list \<times> mesh" where
  "handle_announce v t p m =
     (let sender = sender_hex p in
      case announcement_decode (p_payload p) of
        None \<Rightarrow> ([Notice (MalformedAnnounce (short_display sender))], m)
      | Some a \<Rightarrow>
          let derived = derive_peer_id (sha256 (ev_crypto v)) (an_noise_public_key a) in
          if derived \<noteq> sender
          then ([Notice (SenderMismatch (short_display sender) (short_display derived))], m)
          else
            let verifiable = \<not> should_compress (p_payload p);
                verified = verify_with v p (an_signing_public_key a)
            in if verifiable \<and> \<not> verified
               then ([Notice (BadAnnounceSignature (short_display sender))], m)
               else
                 let m = archive_packet v t p m;
                     new = announced_peer v t sender a verified;
                     m = m\<lparr>ms_favorites := note_key (ev_unicode v) (mp_fingerprint new)
                             (an_noise_public_key a) (ms_favorites m)\<rparr>
                 in case map_of (ms_peers m) sender of
                      Some old \<Rightarrow>
                        ((if mp_nickname old \<noteq> an_nickname a
                          then [PeerRenamed sender (an_nickname a)] else []),
                         m\<lparr>ms_peers := AList.update sender
                             (old\<lparr>mp_nickname := an_nickname a, mp_verified := verified,
                                  mp_capabilities := mp_capabilities new, mp_claims := mp_claims new,
                                  mp_last_seen := ck_instant t\<rparr>) (ms_peers m)\<rparr>)
                    | None \<Rightarrow>
                        ([PeerAppeared sender (an_nickname a)],
                         m\<lparr>ms_peers := AList.update sender new (ms_peers m)\<rparr>))"

section \<open>Public messages, files and departures\<close>

definition touch :: "clock \<Rightarrow> text_bytes \<Rightarrow> mesh \<Rightarrow> mesh" where
  "touch t peer m =
     (case map_of (ms_peers m) peer of
        Some p \<Rightarrow> m\<lparr>ms_peers := AList.update peer (p\<lparr>mp_last_seen := ck_instant t\<rparr>) (ms_peers m)\<rparr>
      | None \<Rightarrow> m)"

definition handle_public_message :: "env \<Rightarrow> clock \<Rightarrow> packet \<Rightarrow> mesh \<Rightarrow> mesh_event list \<times> mesh" where
  "handle_public_message v t p m =
     (let sender = sender_hex p in
      case from_utf8 (p_payload p) of
        None \<Rightarrow> ([Notice (NonUtf8Message (short_display sender))], m)
      | Some content \<Rightarrow>
          let (new, m) = remember_packet p content m in
          if \<not> new then ([], m)
          else
            let verifiable = \<not> should_compress (p_payload p);
                shown = (\<lambda>name m. ([PublicMessage sender name content (p_timestamp p)], archive_packet v t p m))
            in case map_of (ms_peers m) sender of
                 Some peer \<Rightarrow>
                   if verifiable \<and> \<not> verify_with v p (mp_signing_key peer)
                   then ([Notice (BadMessageSignature (mp_nickname peer))], m)
                   else shown (mp_nickname peer) (touch t sender m)
               | None \<Rightarrow> shown (short_display sender @ ascii ''?'') m)"

definition handle_file :: "env \<Rightarrow> clock \<Rightarrow> packet \<Rightarrow> mesh \<Rightarrow> mesh_event list \<times> mesh" where
  "handle_file v t p m =
     (let sender = sender_hex p in
      case file_decode (p_payload p) of
        None \<Rightarrow> ([Notice (UnreadableFile (short_display sender))], m)
      | Some f \<Rightarrow>
          let m = touch t sender m;
              name = (case map_of (ms_peers m) sender of
                        Some peer \<Rightarrow> mp_nickname peer | None \<Rightarrow> short_display sender @ ascii ''?'');
              m = archive_packet v t p m
          in ([FileReceived sender name (display_name f) (fp_mime f) (fp_content f) (is_image (ev_unicode v) f)], m))"

definition handle_leave :: "text_bytes \<Rightarrow> mesh \<Rightarrow> mesh_event list \<times> mesh" where
  "handle_leave sender m =
     (case map_of (ms_peers m) sender of
        Some p \<Rightarrow> ([PeerLeft (mp_id p) (mp_nickname p)], m\<lparr>ms_peers := AList.delete sender (ms_peers m)\<rparr>)
      | None \<Rightarrow> ([], m))"

section \<open>Encrypted traffic\<close>

fun drain_records ::
  "env \<Rightarrow> clock \<Rightarrow> text_bytes \<Rightarrow> private_message list \<Rightarrow> mesh \<Rightarrow> mesh_event list \<times> mesh" where
  "drain_records v t peer [] m = ([], m)"
| "drain_records v t peer (record # records) m =
     (let (r, m) = sealed_record_frame v t peer record m;
          (events, m) = drain_records v t peer records m
      in ((case r of
             Inr frames \<Rightarrow> map Send frames
           | Inl e \<Rightarrow> [Notice (QueuedMessageLost (short_display peer))]) @ events, m))"

definition drain_pending :: "env \<Rightarrow> clock \<Rightarrow> text_bytes \<Rightarrow> mesh \<Rightarrow> mesh_event list \<times> mesh" where
  "drain_pending v t peer m =
     (let up = SessionUp peer (peer_nickname peer m)
                 (case get_peer_fingerprint peer (ms_sessions m) of Some fp \<Rightarrow> fp | None \<Rightarrow> []);
          records = (case ms_pending m peer of Some rs \<Rightarrow> rs | None \<Rightarrow> []);
          (events, m) = drain_records v t peer records (m\<lparr>ms_pending := (ms_pending m)(peer := None)\<rparr>)
      in (up # events, m))"

definition handle_noise_handshake ::
  "env \<Rightarrow> clock \<Rightarrow> bytes \<Rightarrow> packet \<Rightarrow> mesh \<Rightarrow> mesh_event list \<times> mesh" where
  "handle_noise_handshake v t ephemeral p m =
     (let sender = sender_hex p in
      if \<not> addressed_to_us p m then ([], m)
      else case handle_incoming_handshake (ev_crypto v) ephemeral sender (p_payload p) (ms_sessions m) of
        (Inl e, s) \<Rightarrow>
          ([Notice (HandshakeWithFailed (short_display sender) e)], m\<lparr>ms_sessions := remove_session sender s\<rparr>)
      | (Inr outgoing, s) \<Rightarrow>
          let m = m\<lparr>ms_sessions := s\<rparr>;
              reply = (case outgoing of
                         Some r \<Rightarrow> (case noise_frame t m NoiseHandshake sender r of Some f \<Rightarrow> [Send f] | None \<Rightarrow> [])
                       | None \<Rightarrow> [])
          in if has_established_session sender s
             then (let (events, m) = drain_pending v t sender m in (reply @ events, m))
             else (reply, m))"

text \<open>A private message: a favourite notice is acted on, anything else is shown; both are acknowledged.\<close>

definition acknowledge_message ::
  "env \<Rightarrow> clock \<Rightarrow> text_bytes \<Rightarrow> text_bytes \<Rightarrow> mesh \<Rightarrow> mesh_event list \<times> mesh" where
  "acknowledge_message v t sender message_id m =
     (let (f, m) = receipt_frame v t sender Delivered message_id m in
      ((case f of Some f \<Rightarrow> [Send f] | None \<Rightarrow> []), m))"

definition handle_private_message ::
  "env \<Rightarrow> clock \<Rightarrow> text_bytes \<Rightarrow> bytes \<Rightarrow> mesh \<Rightarrow> mesh_event list \<times> mesh" where
  "handle_private_message v t sender body m =
     (case pm_decode body of
        None \<Rightarrow> ([Trace (MalformedPrivateMessage (short_display sender))], m)
      | Some record \<Rightarrow>
          (case parse_notice (pm_content record) of
             Some notice \<Rightarrow>
               let nickname = peer_nickname sender m;
                   fp = (case map_of (ms_peers m) sender of Some p \<Rightarrow> mp_fingerprint p | None \<Rightarrow> [])
               in if fp = [] then ([Trace (NoticeFromUnannounced (short_display sender))], m)
                  else
                    let m = m\<lparr>ms_favorites := apply_notice (ev_unicode v) fp nickname notice (ms_favorites m)\<rparr>;
                        (ack, m) = acknowledge_message v t sender (pm_message_id record) m
                    in (FavoriteUpdate sender nickname fp notice # ack, m)
           | None \<Rightarrow>
               let event = PrivateMessageFrom sender (peer_nickname sender m) (pm_content record) (pm_message_id record);
                   (ack, m) = acknowledge_message v t sender (pm_message_id record) m
               in (event # ack, m)))"

definition answer_challenge ::
  "env \<Rightarrow> clock \<Rightarrow> text_bytes \<Rightarrow> bytes \<Rightarrow> mesh \<Rightarrow> mesh_event list \<times> mesh" where
  "answer_challenge v t sender body m =
     (case parse_challenge body of
        None \<Rightarrow> ([Trace (UnreadableChallenge (short_display sender))], m)
      | Some (key, nonce) \<Rightarrow>
          if to_lowercase (ev_unicode v) key \<noteq> hex_encode (ms_noise_public m)
          then ([Trace (ChallengeForAnother (short_display sender))], m)
          else
            let payload = payload_encode \<lparr>np_kind = VerifyResponse,
                                          np_body = response (ev_sign v (ms_signing_key m)) key nonce\<rparr>;
                (r, s) = manager_encrypt (ev_crypto v) payload sender (ms_sessions m);
                m = m\<lparr>ms_sessions := s\<rparr>;
                failed = [Trace (CouldNotAnswerChallenge (short_display sender))]
            in ((case r of
                   Inl e \<Rightarrow> failed
                 | Inr sealed \<Rightarrow>
                     (case noise_frame t m NoiseEncrypted sender sealed of Some f \<Rightarrow> [Send f] | None \<Rightarrow> failed)), m))"

definition handle_noise_payload ::
  "env \<Rightarrow> clock \<Rightarrow> text_bytes \<Rightarrow> noise_payload \<Rightarrow> mesh \<Rightarrow> mesh_event list \<times> mesh" where
  "handle_noise_payload v t sender payload m =
     (let kind = np_kind payload in
      if kind = PrivateMessage then handle_private_message v t sender (np_body payload) m
      else if kind = Delivered \<or> kind = ReadReceipt then
        ((case payload_message_id payload of
            None \<Rightarrow> [Trace (UnreadableReceipt (short_display sender))]
          | Some i \<Rightarrow> [DeliveryUpdate i (if kind = ReadReceipt then StatusRead else StatusDelivered)]), m)
      else if kind = VerifyChallenge then answer_challenge v t sender (np_body payload) m
      else ([Trace (OtherPayload kind (short_display sender) (length (np_body payload)))], m))"

definition handle_noise_encrypted :: "env \<Rightarrow> clock \<Rightarrow> packet \<Rightarrow> mesh \<Rightarrow> mesh_event list \<times> mesh" where
  "handle_noise_encrypted v t p m =
     (let sender = sender_hex p in
      if \<not> addressed_to_us p m then ([], m)
      else
        let (r, s) = manager_decrypt (ev_crypto v) (p_payload p) sender (ms_sessions m);
            m = m\<lparr>ms_sessions := s\<rparr>
        in case r of
             Inl e \<Rightarrow> ([Notice (CouldNotDecrypt (short_display sender) e)], m)
           | Inr plaintext \<Rightarrow>
               (case payload_decode plaintext of
                  None \<Rightarrow> ([Trace (UnreadablePayload (short_display sender))], m)
                | Some payload \<Rightarrow> handle_noise_payload v t sender payload m))"

section \<open>Mail, carried events and sync requests\<close>

definition handle_courier :: "env \<Rightarrow> clock \<Rightarrow> packet \<Rightarrow> text_bytes \<Rightarrow> mesh \<Rightarrow> mesh_event list" where
  "handle_courier v t p sender m =
     (case envelope_decode (p_payload p) of
        None \<Rightarrow> [Trace (UnreadableEnvelope (short_display sender))]
      | Some e \<Rightarrow>
          if en_tag e \<in> set (candidate_tags (hmac256 (ev_crypto v)) (ms_noise_public m) (ck_seconds t))
          then [CourierArrived sender e] else [CourierDeposit sender e])"

definition handle_carrier :: "packet \<Rightarrow> text_bytes \<Rightarrow> mesh \<Rightarrow> mesh_event list" where
  "handle_carrier p sender m =
     (case carrier_decode (p_payload p) of
        None \<Rightarrow> [Trace (UnreadableCarrier (short_display sender))]
      | Some c \<Rightarrow>
          if ca_direction c = ToBridge \<or> ca_direction c = FromBridge
          then [Trace (BridgeCarrierIgnored (short_display sender))]
          else if \<not> (if ca_direction c = ToGateway then addressed_to_us p m else is_broadcast p)
          then [Trace (CarrierMisaddressed (short_display sender))]
          else [CarriedEvent sender (ca_direction c) (ca_geohash c) (ca_event_json c)])"

definition handle_request_sync :: "env \<Rightarrow> clock \<Rightarrow> packet \<Rightarrow> mesh \<Rightarrow> mesh_event list \<times> mesh" where
  "handle_request_sync v t p m =
     (let name = short_display (sender_hex p);
          trace = (\<lambda>d. if ms_debug m then [Trace d] else [])
      in if p_ttl p \<noteq> 0 then (trace (SyncRequestTravelled name (p_ttl p)), m)
         else case request_decode (p_payload p) of
           None \<Rightarrow> ([Notice (MalformedSyncRequest name)], m)
         | Some request \<Rightarrow>
             let (ok, l) = should_respond (p_sender_id p) (unat (ck_ms t)) (ms_limiter m);
                 m = m\<lparr>ms_limiter := l\<rparr>
             in if \<not> ok then (trace (SyncRateLimited name), m)
                else
                  let replies = respond (sha256 (ev_crypto v)) (ms_archive m) request (ck_ms t) in
                  (trace (SyncAnswered name (flags_to_types (requested_types request)) (length replies))
                   @ List.map_filter (\<lambda>q. map_option Reply (encode q)) replies, m))"

section \<open>Dispatch\<close>

definition handle_typed ::
  "env \<Rightarrow> clock \<Rightarrow> bytes \<Rightarrow> packet \<Rightarrow> mesh \<Rightarrow> mesh_event list \<times> mesh" where
  "handle_typed v t ephemeral p m =
     (let sender = sender_hex p in
      case parsed_type p of
        Some Announce \<Rightarrow> handle_announce v t p m
      | Some Message \<Rightarrow> handle_public_message v t p m
      | Some Leave \<Rightarrow> handle_leave sender m
      | Some FileTransfer \<Rightarrow> handle_file v t p m
      | Some NostrCarrier \<Rightarrow> (handle_carrier p sender m, m)
      | Some CourierEnvelope \<Rightarrow> (handle_courier v t p sender m, m)
      | Some NoiseHandshake \<Rightarrow> handle_noise_handshake v t ephemeral p m
      | Some NoiseEncrypted \<Rightarrow> handle_noise_encrypted v t p m
      | Some RequestSync \<Rightarrow> handle_request_sync v t p m
      | _ \<Rightarrow> ([], m))"

definition received_trace :: "packet \<Rightarrow> mesh \<Rightarrow> mesh_event list" where
  "received_trace p m =
     (if ms_debug m
      then [Trace (Received (parsed_type p) (p_msg_type p) (p_version p) (p_ttl p) (length (p_payload p))
              (short_display (sender_hex p)) (p_signature p \<noteq> None))]
      else [])"

text \<open>A packet that came out of the assembler: what would nest a fragment is ignored.\<close>

definition handle_inner ::
  "env \<Rightarrow> clock \<Rightarrow> bytes \<Rightarrow> packet \<Rightarrow> mesh \<Rightarrow> mesh_event list \<times> mesh" where
  "handle_inner v t ephemeral p m =
     (let sender = sender_hex p; traced = received_trace p m in
      if sender = ms_my_id m \<or> is_blocked v sender m then (traced, m)
      else if parsed_type p = Some Fragment then (traced @ [Notice NestedFragment], m)
      else (let (events, m) = handle_typed v t ephemeral p m in (traced @ events, m)))"

definition handle_fragment ::
  "env \<Rightarrow> clock \<Rightarrow> bytes \<Rightarrow> packet \<Rightarrow> mesh \<Rightarrow> (mesh_event list \<times> mesh) option" where
  "handle_fragment v t ephemeral p m =
     (let name = short_display (sender_hex p) in
      case parse p of
        None \<Rightarrow> Some ([Notice (MalformedFragment name)], m)
      | Some header \<Rightarrow>
          let m = archive_packet v t p m in
          case append_fragment (ck_instant t) header (ms_assembler m) of
            None \<Rightarrow> None
          | Some (outcome, a) \<Rightarrow>
              let m = m\<lparr>ms_assembler := a\<rparr> in
              Some (case outcome of
                Pending arrived expected \<Rightarrow>
                  ((if ms_debug m then [Trace (FragmentProgress arrived expected name)] else []), m)
              | Rejected reason \<Rightarrow> ([Notice (DroppedFragment name reason)], m)
              | Complete bs \<Rightarrow>
                  (case decode (ev_decompress v) bs of
                     None \<Rightarrow> ([Notice (UndecodableReassembly (fh_total header) name)], m)
                   | Some inner \<Rightarrow> handle_inner v t ephemeral inner m)))"

text \<open>\<open>handle_packet\<close> with \<open>reassembled\<close> false; with \<open>reassembled\<close> true it is \<open>handle_inner\<close>.\<close>

definition handle_packet ::
  "env \<Rightarrow> clock \<Rightarrow> bytes \<Rightarrow> packet \<Rightarrow> mesh \<Rightarrow> (mesh_event list \<times> mesh) option" where
  "handle_packet v t ephemeral p m =
     (let sender = sender_hex p; traced = received_trace p m in
      if sender = ms_my_id m \<or> is_blocked v sender m then Some (traced, m)
      else if parsed_type p = Some Fragment
      then map_option (\<lambda>(events, m). (traced @ events, m)) (handle_fragment v t ephemeral p m)
      else (let (events, m) = handle_typed v t ephemeral p m in Some (traced @ events, m)))"

definition handle_frame ::
  "env \<Rightarrow> clock \<Rightarrow> bytes \<Rightarrow> bytes \<Rightarrow> mesh \<Rightarrow> (mesh_event list \<times> mesh) option" where
  "handle_frame v t ephemeral raw m =
     (case decode (ev_decompress v) raw of
        None \<Rightarrow> Some ([Notice (UndecodableFrame (length raw))], m)
      | Some p \<Rightarrow> handle_packet v t ephemeral p m)"

end
