(* ===== verification/Mesh_Safety.thy ===== *)
theory Mesh_Safety
  imports Mesh_Inbound
begin

text \<open>
  What holds of a mesh service whatever happens to it: the invariant, its preservation by
  every operation, and that no frame makes the service panic.
\<close>

section \<open>The invariant\<close>

text \<open>
  Every peer on file is filed under the identifier of its announced key, with that key's
  fingerprint, is somebody else and is not blocked.
\<close>

definition peer_ok :: "env \<Rightarrow> text_bytes \<Rightarrow> text_bytes list \<Rightarrow> text_bytes \<Rightarrow> mesh_peer \<Rightarrow> bool" where
  "peer_ok v me blocked i p \<longleftrightarrow>
     mp_id p = i \<and> i \<noteq> me \<and> \<not> listed (ev_unicode v) i blocked
     \<and> derive_peer_id (sha256 (ev_crypto v)) (mp_noise_key p) = i
     \<and> mp_fingerprint p = key_fingerprint (sha256 (ev_crypto v)) (mp_noise_key p)"

definition registry_ok :: "env \<Rightarrow> text_bytes \<Rightarrow> text_bytes list \<Rightarrow> (text_bytes \<times> mesh_peer) list \<Rightarrow> bool" where
  "registry_ok v me blocked ps \<longleftrightarrow>
     distinct (map fst ps) \<and> (\<forall>i p. map_of ps i = Some p \<longrightarrow> peer_ok v me blocked i p)"

definition mesh_ok :: "env \<Rightarrow> mesh \<Rightarrow> bool" where
  "mesh_ok v m \<longleftrightarrow>
     assembler_ok (ms_assembler m) \<and> ring_valid SEEN_LIMIT (ms_seen m)
     \<and> manager_ok (ev_crypto v) (ms_sessions m)
     \<and> registry_ok v (ms_my_id m) (ms_blocked m) (ms_peers m)"

text \<open>The fields the invariant does not look at.\<close>

lemma mesh_ok_frame [simp]:
  "mesh_ok v (m\<lparr>ms_archive := a\<rparr>) = mesh_ok v m" "mesh_ok v (m\<lparr>ms_favorites := f\<rparr>) = mesh_ok v m"
  "mesh_ok v (m\<lparr>ms_pending := q\<rparr>) = mesh_ok v m" "mesh_ok v (m\<lparr>ms_last_announce := l\<rparr>) = mesh_ok v m"
  "mesh_ok v (m\<lparr>ms_limiter := r\<rparr>) = mesh_ok v m" "mesh_ok v (m\<lparr>ms_nickname := n\<rparr>) = mesh_ok v m"
  "mesh_ok v (archive_packet v' t p m) = mesh_ok v m"
  by (simp_all add: mesh_ok_def archive_packet_def)

lemma mesh_ok_sessions:
  "mesh_ok v m \<Longrightarrow> manager_ok (ev_crypto v) s \<Longrightarrow> mesh_ok v (m\<lparr>ms_sessions := s\<rparr>)"
  by (simp add: mesh_ok_def)

lemma mesh_ok_assembler:
  "mesh_ok v m \<Longrightarrow> assembler_ok a \<Longrightarrow> mesh_ok v (m\<lparr>ms_assembler := a\<rparr>)"
  by (simp add: mesh_ok_def)

lemma mesh_okD:
  "mesh_ok v m \<Longrightarrow> assembler_ok (ms_assembler m)" "mesh_ok v m \<Longrightarrow> manager_ok (ev_crypto v) (ms_sessions m)"
  "mesh_ok v m \<Longrightarrow> ring_valid SEEN_LIMIT (ms_seen m)"
  "mesh_ok v m \<Longrightarrow> registry_ok v (ms_my_id m) (ms_blocked m) (ms_peers m)"
  by (simp_all add: mesh_ok_def)

lemma registry_update:
  "registry_ok v me b ps \<Longrightarrow> peer_ok v me b i p \<Longrightarrow> registry_ok v me b (AList.update i p ps)"
  by (auto simp: registry_ok_def distinct_update update_conv')

lemma registry_delete: "registry_ok v me b ps \<Longrightarrow> registry_ok v me b (AList.delete i ps)"
  by (auto simp: registry_ok_def distinct_delete delete_conv')

lemma mesh_ok_update:
  "mesh_ok v m \<Longrightarrow> peer_ok v (ms_my_id m) (ms_blocked m) i p \<Longrightarrow>
   mesh_ok v (m\<lparr>ms_peers := AList.update i p (ms_peers m)\<rparr>)"
  by (simp add: mesh_ok_def registry_update)

lemma mesh_ok_delete: "mesh_ok v m \<Longrightarrow> mesh_ok v (m\<lparr>ms_peers := AList.delete i (ms_peers m)\<rparr>)"
  by (simp add: mesh_ok_def registry_delete)

lemma mesh_ok_peer:
  "mesh_ok v m \<Longrightarrow> map_of (ms_peers m) i = Some p \<Longrightarrow> peer_ok v (ms_my_id m) (ms_blocked m) i p"
  by (simp add: mesh_ok_def registry_ok_def)

lemma mesh_new_ok: "mesh_ok v (mesh_new v k n nick)"
  by (simp add: mesh_ok_def mesh_new_def Let_def assembler_new_def assembler_ok_def registry_ok_def
      manager_new_def manager_ok_def ring_valid_empty)

section \<open>What stays the same\<close>

text \<open>Handling a frame changes neither who we are nor whom we block.\<close>

abbreviation same_policy :: "mesh \<Rightarrow> mesh \<Rightarrow> bool" where
  "same_policy m m' \<equiv> ms_my_id m' = ms_my_id m \<and> ms_blocked m' = ms_blocked m"

interpretation remembered: seen_ring "pop_insert SEEN_LIMIT" ring_order "ring_valid SEEN_LIMIT" ring_empty SEEN_LIMIT
  by (rule pop_insert_seen_ring) (simp add: SEEN_LIMIT_def)

lemma remember_ok: "mesh_ok v m \<Longrightarrow> mesh_ok v (snd (remember_packet p c m))"
  by (auto simp: mesh_ok_def remember_packet_def split_beta intro: remembered.valid_add)

lemma remember_fields:
  "ms_peers (snd (remember_packet p c m)) = ms_peers m" "same_policy m (snd (remember_packet p c m))"
  "ms_sessions (snd (remember_packet p c m)) = ms_sessions m"
  "ms_archive (snd (remember_packet p c m)) = ms_archive m"
  "ms_noise_public (snd (remember_packet p c m)) = ms_noise_public m"
  by (simp_all add: remember_packet_def split_beta)

text \<open>\<open>kept\<close>: the invariant holds afterwards and the policy is what it was.\<close>

definition kept :: "env \<Rightarrow> mesh \<Rightarrow> mesh \<Rightarrow> bool" where
  "kept v m m' \<longleftrightarrow> mesh_ok v m' \<and> same_policy m m'"

lemma kept_refl: "mesh_ok v m \<Longrightarrow> kept v m m"
  by (simp add: kept_def)

lemma kept_trans: "kept v m m' \<Longrightarrow> kept v m' m'' \<Longrightarrow> kept v m m''"
  by (simp add: kept_def)

lemma kept_ok: "kept v m m' \<Longrightarrow> mesh_ok v m'"
  by (simp add: kept_def)

lemma kept_sessions:
  "mesh_ok v m \<Longrightarrow> manager_ok (ev_crypto v) s \<Longrightarrow> kept v m (m\<lparr>ms_sessions := s\<rparr>)"
  by (simp add: kept_def mesh_ok_sessions)

lemma encrypt_manager:
  assumes "mesh_ok v m" "manager_encrypt (ev_crypto v) d peer (ms_sessions m) = (r, s)"
  shows "manager_ok (ev_crypto v) s"
  using crypt_ok(1) [OF mesh_okD(2) [OF assms(1)], of d peer] assms(2) by simp

section \<open>Sending\<close>

lemma sealed_record_kept: "mesh_ok v m \<Longrightarrow> kept v m (snd (sealed_record_frame v t peer record m))"
  by (auto simp: sealed_record_frame_def Let_def kept_refl split: option.split prod.split sum.split
      intro: kept_sessions dest: encrypt_manager)

lemma sealed_records_kept: "mesh_ok v m \<Longrightarrow> kept v m (snd (sealed_records v t peer records m))"
proof (induction records arbitrary: m)
  case (Cons x records)
  obtain r m1 where 1: "sealed_record_frame v t peer x m = (r, m1)" by force
  then have k: "kept v m m1" using sealed_record_kept [OF Cons.prems, of t peer x] by simp
  from Cons.IH [OF kept_ok [OF k]] kept_trans [OF k] 1 k show ?case
    by (auto split: sum.split prod.split)
qed (simp add: kept_refl)

lemma receipt_kept: "mesh_ok v m \<Longrightarrow> kept v m (snd (receipt_frame v t peer kind i m))"
  by (auto simp: receipt_frame_def Let_def kept_refl split: prod.split sum.split
      intro: kept_sessions dest: encrypt_manager)

lemma read_receipts_kept: "mesh_ok v m \<Longrightarrow> kept v m (snd (read_receipt_frames v t peer ids m))"
proof (induction ids arbitrary: m)
  case (Cons i ids)
  note k = receipt_kept [OF Cons.prems, of t peer ReadReceipt i]
  from kept_trans [OF k Cons.IH [OF kept_ok [OF k]]] show ?case by (simp add: split_beta)
qed (simp add: kept_refl)

lemma dm_kept:
  assumes "aead_ok (ev_crypto v)" "mesh_ok v m" "dm_frames v t e uuid peer content m = Some (r, m')"
  shows "kept v m m'"
proof -
  have init: "manager_ok (ev_crypto v) s" if "initiate_handshake (ev_crypto v) e peer (ms_sessions m) = (x, s)" for x s
    using initiate_ok [OF assms(1) mesh_okD(2) [OF assms(2)], of e peer] that by simp
  have "kept v m (m\<lparr>ms_sessions := s, ms_pending := q\<rparr>)" if "manager_ok (ev_crypto v) s" for s q
    using kept_sessions [OF assms(2) that] by (simp add: kept_def)
  with init sealed_records_kept [OF assms(2), of t peer] kept_sessions [OF assms(2)] kept_refl [OF assms(2)] assms(3)
  show ?thesis
    by (auto simp: dm_frames_def Let_def split: if_splits option.splits prod.splits sum.splits)
      (metis snd_conv)+
qed

lemma favorite_kept:
  assumes "aead_ok (ev_crypto v)" "mesh_ok v m" "favorite_frames v t e uuid peer f key m = Some (r, m')"
  shows "kept v m m'"
  using assms(3) dm_kept [OF assms(1,2)] kept_refl [OF assms(2)]
  by (fastforce simp: favorite_frames_def kept_def split: option.splits prod.splits sum.splits)

section \<open>Receiving\<close>

lemma announce_kept:
  assumes "mesh_ok v m" "sender_hex p \<noteq> ms_my_id m" "\<not> is_blocked v (sender_hex p) m"
  shows "kept v m (snd (handle_announce v t p m))"
proof (cases "announcement_decode (p_payload p)")
  case (Some a)
  let ?i = "sender_hex p"
  let ?new = "announced_peer v t ?i a (verify_with v p (an_signing_public_key a))"
  have new: "peer_ok v (ms_my_id m) (ms_blocked m) ?i ?new"
    if "derive_peer_id (sha256 (ev_crypto v)) (an_noise_public_key a) = ?i"
    using assms(2,3) that by (simp add: peer_ok_def announced_peer_def is_blocked_def)
  have old: "peer_ok v (ms_my_id m) (ms_blocked m) ?i
      (q\<lparr>mp_nickname := n, mp_verified := b, mp_capabilities := c, mp_claims := l, mp_last_seen := s\<rparr>)"
    if "map_of (ms_peers m) ?i = Some q" for q n b c l s
    using mesh_ok_peer [OF assms(1) that] by (simp add: peer_ok_def)
  have step: "kept v m (m\<lparr>ms_archive := x, ms_favorites := y, ms_peers := AList.update ?i q (ms_peers m)\<rparr>)"
    if "peer_ok v (ms_my_id m) (ms_blocked m) ?i q" for x y q
    using mesh_ok_update [OF assms(1) that] by (simp add: kept_def mesh_ok_def)
  show ?thesis
    using Some kept_refl [OF assms(1)] step new old
    by (auto simp: handle_announce_def Let_def archive_packet_def split: option.split)
qed (simp add: handle_announce_def kept_refl assms(1))

lemma touch_kept: "mesh_ok v m \<Longrightarrow> kept v m (touch t i m)"
  by (auto simp: touch_def kept_def peer_ok_def dest: mesh_ok_peer intro!: mesh_ok_update split: option.split)

lemma touch_fields:
  "ms_archive (touch t i m) = ms_archive m" "ms_sessions (touch t i m) = ms_sessions m"
  "same_policy m (touch t i m)"
  by (simp_all add: touch_def split: option.split)

lemma archive_kept: "kept v m m' \<Longrightarrow> kept v m (archive_packet v' t p m')"
  by (simp add: kept_def) (simp add: archive_packet_def)

lemma public_message_kept:
  assumes "mesh_ok v m"
  shows "kept v m (snd (handle_public_message v t p m))"
proof (cases "from_utf8 (p_payload p)")
  case (Some content)
  obtain b m1 where r: "remember_packet p content m = (b, m1)" by force
  then have k: "kept v m m1"
    using remember_ok [OF assms, of p content] remember_fields(2) [of p content m] by (simp add: kept_def)
  note kept_trans [OF k touch_kept [OF kept_ok [OF k]], of t "sender_hex p"]
  with k show ?thesis using Some r by (auto simp: handle_public_message_def Let_def archive_kept split: option.split)
qed (simp add: handle_public_message_def kept_refl assms)

lemma file_kept: "mesh_ok v m \<Longrightarrow> kept v m (snd (handle_file v t p m))"
  by (auto simp: handle_file_def Let_def kept_refl archive_kept touch_kept split: option.split)

lemma leave_kept: "mesh_ok v m \<Longrightarrow> kept v m (snd (handle_leave i m))"
  by (auto simp: handle_leave_def kept_def mesh_ok_delete split: option.split)

lemma drain_records_kept: "mesh_ok v m \<Longrightarrow> kept v m (snd (drain_records v t peer rs m))"
proof (induction rs arbitrary: m)
  case (Cons x rs)
  note k = sealed_record_kept [OF Cons.prems, of t peer x]
  from kept_trans [OF k Cons.IH [OF kept_ok [OF k]]] show ?case by (simp add: split_beta)
qed (simp add: kept_refl)

lemma drain_pending_kept: "mesh_ok v m \<Longrightarrow> kept v m (snd (drain_pending v t peer m))"
proof -
  assume ok: "mesh_ok v m"
  have "kept v m (m\<lparr>ms_pending := q\<rparr>)" for q using ok by (simp add: kept_def)
  from kept_trans [OF this drain_records_kept [OF kept_ok [OF this]]] show ?thesis
    by (simp add: drain_pending_def Let_def split_beta)
qed

lemma handshake_kept:
  assumes "aead_ok (ev_crypto v)" "mesh_ok v m"
  shows "kept v m (snd (handle_noise_handshake v t e p m))"
proof -
  let ?i = "sender_hex p"
  obtain r s where h: "handle_incoming_handshake (ev_crypto v) e ?i (p_payload p) (ms_sessions m) = (r, s)" by force
  have "manager_ok (ev_crypto v) (if isl r then remove_session ?i s else s)"
    using answer_ok [OF assms(1) mesh_okD(2) [OF assms(2)], of e ?i "p_payload p"] h
    by (simp add: answer_handshake_def split: sum.splits)
  note k = kept_sessions [OF assms(2) this]
  from k kept_trans [OF k drain_pending_kept [OF kept_ok [OF k]]] h show ?thesis
    by (cases r) (simp_all add: handle_noise_handshake_def Let_def split_beta kept_refl assms(2))
qed

lemma acknowledgement_kept: "mesh_ok v m \<Longrightarrow> kept v m (snd (acknowledge_message v t i x m))"
  by (simp add: acknowledge_message_def split_beta receipt_kept)

lemma private_message_kept: "mesh_ok v m \<Longrightarrow> kept v m (snd (handle_private_message v t i body m))"
proof -
  assume ok: "mesh_ok v m"
  have "kept v m (m\<lparr>ms_favorites := f\<rparr>)" for f using ok by (simp add: kept_def)
  from kept_trans [OF this acknowledgement_kept [OF kept_ok [OF this]]] acknowledgement_kept [OF ok] kept_refl [OF ok]
  show ?thesis by (simp add: handle_private_message_def Let_def split_beta split: option.split)
qed

lemma challenge_kept: "mesh_ok v m \<Longrightarrow> kept v m (snd (answer_challenge v t i body m))"
  by (auto simp: answer_challenge_def Let_def kept_refl split: option.split prod.split
      intro: kept_sessions dest: encrypt_manager)

lemma encrypted_kept: "mesh_ok v m \<Longrightarrow> kept v m (snd (handle_noise_encrypted v t p m))"
proof -
  assume ok: "mesh_ok v m"
  obtain r s where d: "manager_decrypt (ev_crypto v) (p_payload p) (sender_hex p) (ms_sessions m) = (r, s)" by force
  have "manager_ok (ev_crypto v) s"
    using crypt_ok(2) [OF mesh_okD(2) [OF ok], of "p_payload p" "sender_hex p"] d by simp
  note k = kept_sessions [OF ok this]
  have "kept v m (snd (handle_noise_payload v t (sender_hex p) payload (m\<lparr>ms_sessions := s\<rparr>)))" for payload
    using k kept_trans [OF k private_message_kept [OF kept_ok [OF k]]] kept_trans [OF k challenge_kept [OF kept_ok [OF k]]]
    by (simp add: handle_noise_payload_def Let_def)
  then show ?thesis using k d
    by (simp add: handle_noise_encrypted_def Let_def kept_refl ok split: sum.split option.split)
qed

lemma request_sync_kept: "mesh_ok v m \<Longrightarrow> kept v m (snd (handle_request_sync v t p m))"
  by (auto simp: handle_request_sync_def Let_def kept_def split: option.split prod.split)

lemma typed_kept:
  assumes "aead_ok (ev_crypto v)" "mesh_ok v m" "sender_hex p \<noteq> ms_my_id m" "\<not> is_blocked v (sender_hex p) m"
  shows "kept v m (snd (handle_typed v t e p m))"
  using announce_kept [OF assms(2-4)] public_message_kept [OF assms(2)] leave_kept [OF assms(2)]
    file_kept [OF assms(2)] handshake_kept [OF assms(1,2)] encrypted_kept [OF assms(2)]
    request_sync_kept [OF assms(2)] kept_refl [OF assms(2)]
  by (simp add: handle_typed_def Let_def split: option.split message_type.split)

lemma inner_kept:
  assumes "aead_ok (ev_crypto v)" "mesh_ok v m"
  shows "kept v m (snd (handle_inner v t e p m))"
  using typed_kept [OF assms, of p t e] kept_refl [OF assms(2)]
  by (simp add: handle_inner_def Let_def split_beta)

lemma fragment_kept:
  assumes "aead_ok (ev_crypto v)" "mesh_ok v m"
  shows "\<exists>r m'. handle_fragment v t e p m = Some (r, m') \<and> kept v m m'"
proof (cases "parse p")
  case (Some h)
  obtain m1 where m1: "m1 = archive_packet v t p m" by simp
  have k1: "kept v m m1" using assms(2) by (simp add: m1 archive_kept kept_refl)
  obtain r a where a: "append_fragment (ck_instant t) h (ms_assembler m1) = Some (r, a)" "assembler_ok a"
    using append_fragment_preserves [OF mesh_okD(1) [OF kept_ok [OF k1]] conjunct1 [OF parse_in_range [OF Some]]] by blast
  obtain m2 where m2: "m2 = m1\<lparr>ms_assembler := a\<rparr>" by simp
  have k2: "kept v m m2" using k1 a(2) by (simp add: m2 kept_def mesh_ok_assembler)
  have "kept v m (snd (handle_inner v t e q m2))" for q
    by (rule kept_trans [OF k2 inner_kept [OF assms(1) kept_ok [OF k2]]])
  then have completed: "kept v m (snd (case decode (ev_decompress v) bs of
      None \<Rightarrow> ([Notice (UndecodableReassembly (fh_total h) (short_display (sender_hex p)))], m2)
    | Some q \<Rightarrow> handle_inner v t e q m2))" for bs
    using k2 by (simp split: option.split)
  have "\<exists>x. handle_fragment v t e p m = Some x \<and> kept v m (snd x)"
    using Some a(1) k2 [unfolded m2] completed [unfolded m2]
    by (cases r) (simp_all add: handle_fragment_def Let_def m1 [symmetric])
  then show ?thesis by (metis prod.collapse)
qed (simp add: handle_fragment_def kept_refl assms(2))

lemma packet_kept:
  assumes "aead_ok (ev_crypto v)" "mesh_ok v m"
  shows "\<exists>r m'. handle_packet v t e p m = Some (r, m') \<and> kept v m m'"
proof -
  obtain r m' where f: "handle_fragment v t e p m = Some (r, m')" "kept v m m'"
    using fragment_kept [OF assms] by blast
  show ?thesis
    using f typed_kept [OF assms, of p t e] kept_refl [OF assms(2)]
    by (auto simp: handle_packet_def Let_def split: prod.split)
qed

lemma frame_kept:
  assumes "aead_ok (ev_crypto v)" "mesh_ok v m"
  shows "\<exists>r m'. handle_frame v t e raw m = Some (r, m') \<and> kept v m m'"
  using packet_kept [OF assms] kept_refl [OF assms(2)] by (auto simp: handle_frame_def split: option.split)

section \<open>Histories\<close>

text \<open>
  What the client asks of a mesh service once it runs.  \<open>OpVerify\<close> carries the Noise key of a
  card that checked, \<open>OpDebug\<close> turns packet tracing on or off.  \<open>mesh_step\<close> is \<open>None\<close> where
  the operation panics or does not return.
\<close>

datatype mesh_op =
    OpFrame clock bytes bytes
  | OpAnnounce clock
  | OpSay "nat \<Rightarrow> clock" text_bytes
  | OpDm clock bytes "nat \<Rightarrow> text_bytes" text_bytes text_bytes
  | OpFavorite clock bytes "nat \<Rightarrow> text_bytes" text_bytes bool text_bytes
  | OpRead clock text_bytes "text_bytes list"
  | OpFile clock u64 text_bytes "text_bytes option" bytes
  | OpBlock text_bytes
  | OpUnblock text_bytes
  | OpNickname text_bytes
  | OpSweep u64
  | OpPrune nat
  | OpVerify bytes
  | OpDebug
  | OpClear
  | OpWipe

fun mesh_step :: "env \<Rightarrow> mesh_op \<Rightarrow> mesh \<Rightarrow> mesh option" where
  "mesh_step v (OpFrame t e raw) m = map_option snd (handle_frame v t e raw m)"
| "mesh_step v (OpAnnounce t) m = Some (snd (announce_frame v t m))"
| "mesh_step v (OpSay tick content) m = map_option snd (public_message_frames v tick content m)"
| "mesh_step v (OpDm t e uuid peer content) m = map_option snd (dm_frames v t e uuid peer content m)"
| "mesh_step v (OpFavorite t e uuid peer f key) m = map_option snd (favorite_frames v t e uuid peer f key m)"
| "mesh_step v (OpRead t peer ids) m = Some (snd (read_receipt_frames v t peer ids m))"
| "mesh_step v (OpFile t stream name mime content) m = Some (snd (file_frames v t stream name mime content m))"
| "mesh_step v (OpBlock peer) m = Some (snd (block_peer peer m))"
| "mesh_step v (OpUnblock s) m = Some (snd (unblock v s m))"
| "mesh_step v (OpNickname n) m = Some (set_nickname n m)"
| "mesh_step v (OpSweep now) m = Some (sweep_sync_state now m)"
| "mesh_step v (OpPrune now) m = Some (snd (prune_peers now m))"
| "mesh_step v (OpVerify key) m = mark_verified v (key_fingerprint (sha256 (ev_crypto v)) key) m"
| "mesh_step v OpDebug m = Some (m\<lparr>ms_debug := \<not> ms_debug m\<rparr>)"
| "mesh_step v OpClear m = Some (clear_peers m)"
| "mesh_step v OpWipe m = Some (wipe_mesh m)"

abbreviation mesh_run :: "env \<Rightarrow> mesh_op list \<Rightarrow> mesh \<Rightarrow> mesh option" where
  "mesh_run v \<equiv> fold_opt (mesh_step v)"

text \<open>
  The service as the client starts it: the block list, the verified fingerprints and the
  favourites of the state file are restored before the first frame can arrive.
\<close>

definition mesh_start ::
  "env \<Rightarrow> bytes \<Rightarrow> bytes \<Rightarrow> text_bytes \<Rightarrow> text_bytes list \<Rightarrow> text_bytes list \<Rightarrow> favorites \<Rightarrow> mesh" where
  "mesh_start v identity_key noise_static nickname blocked_peers verified restored =
     (let m = mesh_new v identity_key noise_static nickname;
          m = load_blocked v blocked_peers m;
          m = load_verified verified m
      in m\<lparr>ms_favorites := favorites_load restored (ms_favorites m)\<rparr>)"

text \<open>Text that a user can type is valid UTF-8.\<close>

fun op_text_ok :: "mesh_op \<Rightarrow> bool" where
  "op_text_ok (OpSay _ content) = utf8_valid content"
| "op_text_ok (OpDm _ _ _ _ content) = utf8_valid content"
| "op_text_ok (OpFavorite _ _ _ _ _ key) = utf8_valid key"
| "op_text_ok _ = True"

lemma split_returns: "utf8_valid s \<Longrightarrow> 4 \<le> n \<Longrightarrow> \<exists>cs. split_into_chunks s n = Some cs"
  using split_ok by blast

lemma dm_returns:
  "utf8_valid content \<Longrightarrow> \<exists>r m'. dm_frames v t e uuid peer content m = Some (r, m')"
  using split_returns [of content MAX_TLV_VALUE]
  by (auto simp: dm_frames_def dm_records_def MAX_TLV_VALUE_def Let_def)

lemma notice_utf8: "utf8_valid key \<Longrightarrow> utf8_valid (notice_text f key)"
proof -
  assume "utf8_valid key"
  moreover have "utf8_valid ((if f then FAVORITED else UNFAVORITED) @ [58])"
    by (rule utf8_valid_ascii) (simp add: FAVORITED_def UNFAVORITED_def)
  ultimately show ?thesis using utf8_valid_append [of "(if f then FAVORITED else UNFAVORITED) @ [58]" key]
    by (simp add: notice_text_def)
qed

lemma favorite_returns:
  assumes "utf8_valid key"
  shows "\<exists>r m'. favorite_frames v t e uuid peer f key m = Some (r, m')"
proof -
  obtain r m' where "dm_frames v t e uuid peer (notice_text f key) m = Some (r, m')"
    using dm_returns [OF notice_utf8 [OF assms]] by blast
  then show ?thesis by (cases r) (auto simp: favorite_frames_def split: option.split)
qed

lemma pieces_kept: "mesh_ok v m \<Longrightarrow> kept v m (snd (public_pieces v tick pieces m))"
proof (induction pieces arbitrary: m tick)
  case (Cons x pieces)
  have "kept v m (snd (public_message_frame v (tick 0) x m))"
    using kept_refl [OF Cons.prems] remember_ok [OF Cons.prems] remember_fields(2)
    by (auto simp: public_message_frame_def Let_def split_beta kept_def archive_packet_def)
  from kept_trans [OF this Cons.IH [OF kept_ok [OF this]]] show ?case by (simp add: split_beta)
qed (simp add: kept_refl)

lemma map_of_fold_delete:
  "map_of (fold (\<lambda>(i, _). AList.delete i) xs ps) = (map_of ps) |` (- set (map fst xs))"
  by (induction xs arbitrary: ps) (auto simp: delete_conv' restrict_map_def fun_eq_iff)

lemma distinct_fold_delete:
  "distinct (map fst ps) \<Longrightarrow> distinct (map fst (fold (\<lambda>(i, _). AList.delete i) xs ps))"
  by (induction xs arbitrary: ps) (auto simp: distinct_delete)

lemma prune_ok: "mesh_ok v m \<Longrightarrow> mesh_ok v (snd (prune_peers now m))"
proof -
  let ?gone = "filter (\<lambda>(_, p). now - mp_last_seen p > PEER_RETENTION) (ms_peers m)"
  assume ok: "mesh_ok v m"
  have "registry_ok v (ms_my_id m) (ms_blocked m) (fold (\<lambda>(i, _). AList.delete i) ?gone (ms_peers m))"
    using mesh_okD(4) [OF ok]
    by (auto simp: registry_ok_def distinct_fold_delete map_of_fold_delete restrict_map_def split: if_splits)
  with ok show ?thesis by (simp add: mesh_ok_def prune_peers_def Let_def)
qed

text \<open>Blocking one peer does not make another one blocked: identifiers have one length.\<close>

lemma prefix_of_fingerprint:
  assumes "\<And>d. length (sha d) = 32" and "derive_peer_id sha key = i"
    and "to_lowercase u i = i"
    and "starts_with (key_fingerprint sha key') i \<or> starts_with i (key_fingerprint sha key')"
  shows "derive_peer_id sha key' = i"
proof -
  have len: "length i = 16" using assms(1,2) by (auto simp: derive_peer_id_def key_fingerprint_def)
  have "\<not> starts_with i (key_fingerprint sha key')"
  proof
    assume "starts_with i (key_fingerprint sha key')"
    then have "length (take 64 i) = 64"
      using assms(1) [of key'] by (metis key_fingerprint_def length_hex_encode mult_2 numeral_Bit0 starts_with_def)
    with len show False by simp
  qed
  then show ?thesis using assms(4) len by (simp add: starts_with_def derive_peer_id_def)
qed

lemma hex_encode_lower: "c \<in> set (hex_encode bs) \<Longrightarrow> unat c < 128 \<and> ascii_lower c = c"
proof (induction bs)
  case (Cons b bs)
  have "unat (hex_digit n) < 128 \<and> ascii_lower (hex_digit n) = hex_digit n" if "n < 16" for n
  proof -
    have "list_all (\<lambda>n. unat (hex_digit n) < 128 \<and> ascii_lower (hex_digit n) = hex_digit n) [0..<16]" by code_simp
    then show ?thesis using that by (simp add: list_all_iff)
  qed
  then show ?case using Cons by auto
qed simp

lemma to_lowercase_hex: "set i \<subseteq> set (hex_encode bs) \<Longrightarrow> to_lowercase u i = i"
  using hex_encode_lower [of _ bs] by (auto simp: to_lowercase_def list_all_iff intro!: map_idI)

lemma peer_id_lower:
  assumes "derive_peer_id sha key = i"
  shows "to_lowercase u i = i"
  using assms set_take_subset [of 16 "hex_encode (sha key)"]
  by (intro to_lowercase_hex [of _ "sha key"]) (auto simp: derive_peer_id_def key_fingerprint_def)

text \<open>A fingerprint is 64 ASCII characters, so cutting it for the log does not panic.\<close>

lemma mark_verified_returns:
  assumes "\<And>d. length (sha256 (ev_crypto v) d) = 32"
  shows "\<exists>s. mark_verified v (key_fingerprint (sha256 (ev_crypto v)) key) m = Some (m\<lparr>ms_sessions := (ms_sessions m)\<lparr>mg_verified := s\<rparr>\<rparr>)"
proof -
  let ?fp = "key_fingerprint (sha256 (ev_crypto v)) key"
  have len: "length ?fp = 64" by (simp add: key_fingerprint_def assms)
  then have "?fp ! 16 \<in> set ?fp" by simp
  then have "unat (?fp ! 16) < 128"
    using hex_encode_lower [of "?fp ! 16" "sha256 (ev_crypto v) key"] by (simp only: key_fingerprint_def)
  then have "is_char_boundary ?fp 16" using len by (simp add: is_char_boundary_def is_cont_def word_le_nat_alt)
  moreover have "to_lowercase (ev_unicode v) ?fp = ?fp"
    by (rule to_lowercase_hex [of _ "sha256 (ev_crypto v) key"]) (simp add: key_fingerprint_def)
  ultimately show ?thesis
    by (intro exI [of _ "List.insert ?fp (mg_verified (ms_sessions m))"]) (simp add: mark_verified_def verify_fingerprint_def Let_def)
qed

lemma manager_ok_verified [simp]: "manager_ok c (s\<lparr>mg_verified := fps\<rparr>) = manager_ok c s"
  by (simp add: manager_ok_def)

lemma block_ok:
  assumes "\<And>d. length (sha256 (ev_crypto v) d) = 32" and ok: "mesh_ok v m"
  shows "mesh_ok v (snd (block_peer peer m))"
proof (cases "map_of (ms_peers m) peer")
  case (Some p)
  let ?sha = "sha256 (ev_crypto v)"
  note p = mesh_ok_peer [OF ok Some]
  have "peer_ok v (ms_my_id m) (mp_fingerprint p # ms_blocked m) i q"
    if "map_of (ms_peers m) i = Some q" "i \<noteq> peer" for i q
  proof -
    note q = mesh_ok_peer [OF ok that(1)]
    then have low: "to_lowercase (ev_unicode v) i = i" by (auto simp: peer_ok_def intro: peer_id_lower)
    have fp: "mp_fingerprint p = key_fingerprint ?sha (mp_noise_key p)" "derive_peer_id ?sha (mp_noise_key p) = peer"
      and id: "derive_peer_id ?sha (mp_noise_key q) = i"
      using p q by (simp_all add: peer_ok_def)
    have "derive_peer_id ?sha (mp_noise_key p) = i"
      if "starts_with (mp_fingerprint p) i \<or> starts_with i (mp_fingerprint p)"
      by (rule prefix_of_fingerprint [OF assms(1) id low]) (use that fp(1) in simp)
    then have "\<not> (starts_with (mp_fingerprint p) i \<or> starts_with i (mp_fingerprint p))"
      using fp(2) that(2) by blast
    then show ?thesis using q low unfolding peer_ok_def listed_def Let_def by simp
  qed
  then have "registry_ok v (ms_my_id m) (mp_fingerprint p # ms_blocked m) (AList.delete peer (ms_peers m))"
    using mesh_okD(4) [OF ok] by (auto simp: registry_ok_def distinct_delete delete_conv' split: if_splits)
  then show ?thesis using Some ok
    by (auto simp: block_peer_def mesh_ok_def intro: manager_ok_remove)
qed (simp add: block_peer_def ok)

lemma unblock_ok: "mesh_ok v m \<Longrightarrow> mesh_ok v (snd (unblock v s m))"
proof -
  assume ok: "mesh_ok v m"
  have "registry_ok v (ms_my_id m) (removeAll fp (ms_blocked m)) (ms_peers m)" for fp
    using mesh_okD(4) [OF ok] by (fastforce simp: registry_ok_def peer_ok_def listed_def Let_def list_ex_iff)
  then show ?thesis using ok by (simp add: unblock_def Let_def mesh_ok_def split: option.split)
qed

lemma wipe_ok: "mesh_ok v m \<Longrightarrow> mesh_ok v (wipe_mesh m)"
proof -
  assume ok: "mesh_ok v m"
  have "manager_ok c (fold remove_session xs s)" if "manager_ok c s" for c xs s
    using that by (induction xs arbitrary: s) (simp_all add: manager_ok_remove)
  then show ?thesis using ok by (simp add: mesh_ok_def wipe_mesh_def registry_ok_def ring_valid_empty)
qed

lemma clear_ok: "mesh_ok v m \<Longrightarrow> mesh_ok v (m\<lparr>ms_peers := []\<rparr>)"
  by (simp add: mesh_ok_def registry_ok_def)

lemma mesh_start_ok: "mesh_ok v (mesh_start v k n nick blocked_peers verified restored)"
  using mesh_new_ok [of v k n nick]
  by (simp add: mesh_start_def load_blocked_def load_verified_def load_verified_fingerprints_def Let_def)
    (simp add: mesh_ok_def mesh_new_def registry_ok_def Let_def)

lemma mesh_step_ok:
  assumes "aead_ok (ev_crypto v)" "\<And>d. length (sha256 (ev_crypto v) d) = 32" "mesh_ok v m" "op_text_ok op"
  shows "\<exists>m'. mesh_step v op m = Some m' \<and> mesh_ok v m'"
proof (cases op)
  case (OpFrame t e raw)
  then show ?thesis using frame_kept [OF assms(1,3), of t e raw] by (auto simp: kept_def)
next
  case (OpAnnounce t)
  have "mesh_ok v (snd (announce_frame v t m))"
    using assms(3) by (simp add: announce_frame_def Let_def split_beta split: option.split)
  with OpAnnounce show ?thesis by simp
next
  case (OpSay tick content)
  then show ?thesis using split_returns [of content 99] pieces_kept [OF assms(3), of tick] assms(4)
    by (fastforce simp: public_message_frames_def split_for_signing_def kept_def)
next
  case (OpDm t e uuid peer content)
  then show ?thesis using dm_returns [of content v t e uuid peer m] dm_kept [OF assms(1,3)] assms(4)
    by (auto simp: kept_def)
next
  case (OpFavorite t e uuid peer f key)
  then show ?thesis using favorite_returns [of key v t e uuid peer f m] favorite_kept [OF assms(1,3)] assms(4)
    by (auto simp: kept_def)
next
  case (OpRead t peer ids)
  then show ?thesis using read_receipts_kept [OF assms(3)] by (simp add: kept_def)
next
  case (OpFile t stream name mime content)
  then show ?thesis using assms(3) by (simp add: file_frames_def Let_def split: option.split)
next
  case (OpVerify key)
  from mark_verified_returns [OF assms(2), of key m] OpVerify assms(3) show ?thesis
    by (auto simp: mesh_ok_def)
next
  case OpDebug
  then show ?thesis using assms(3) by (simp add: mesh_ok_def)
qed (use assms(2,3) block_ok unblock_ok prune_ok wipe_ok in
  \<open>simp_all add: set_nickname_def sweep_sync_state_def clear_peers_def clear_ok\<close>)

section \<open>Whom events are about\<close>

fun event_peer :: "mesh_event \<Rightarrow> text_bytes option" where
  "event_peer (PeerAppeared i _) = Some i"
| "event_peer (FavoriteUpdate i _ _ _) = Some i"
| "event_peer (CourierDeposit i _) = Some i"
| "event_peer (CourierArrived i _) = Some i"
| "event_peer (CarriedEvent i _ _ _) = Some i"
| "event_peer (PrivateMessageFrom i _ _ _) = Some i"
| "event_peer (SessionUp i _ _) = Some i"
| "event_peer (PeerRenamed i _) = Some i"
| "event_peer (PeerLeft i _) = Some i"
| "event_peer (PublicMessage i _ _ _) = Some i"
| "event_peer (FileReceived i _ _ _ _ _) = Some i"
| "event_peer _ = None"

definition about :: "text_bytes \<Rightarrow> mesh_event list \<Rightarrow> bool" where
  "about i events \<longleftrightarrow> (\<forall>ev \<in> set events. event_peer ev \<in> {None, Some i})"

lemma about_simps [simp]:
  "about i []" "about i (ev # events) \<longleftrightarrow> event_peer ev \<in> {None, Some i} \<and> about i events"
  "about i (xs @ ys) \<longleftrightarrow> about i xs \<and> about i ys" "about i (map Send fs)"
  by (auto simp: about_def)

lemma drain_records_about: "about i (fst (drain_records v t i rs m))"
  by (induction rs arbitrary: m) (simp_all add: split_beta split: sum.split)

lemma acknowledge_about: "about i (fst (acknowledge_message v t i x m))"
  by (simp add: acknowledge_message_def split_beta split: option.split)

lemma typed_about:
  assumes "mesh_ok v m"
  shows "about (sender_hex p) (fst (handle_typed v t e p m))"
proof -
  have "about i (fst (handle_leave i m))" for i
    using mesh_ok_peer [OF assms] by (auto simp: handle_leave_def peer_ok_def split: option.split)
  moreover have "about (sender_hex p) (fst (handle_announce v t p m))"
    by (simp add: handle_announce_def Let_def split: option.split)
  moreover have "about (sender_hex p) (fst (handle_public_message v t p m))"
    by (simp add: handle_public_message_def Let_def split_beta split: option.split)
  moreover have "about (sender_hex p) (fst (handle_file v t p m))"
    by (simp add: handle_file_def Let_def split: option.split)
  moreover have "about i (handle_carrier p i m)" "about i (handle_courier v t p i m)" for i
    by (simp_all add: handle_carrier_def handle_courier_def split: option.split)
  moreover have "about (sender_hex p) (fst (handle_noise_handshake v t e p m))"
    by (simp add: handle_noise_handshake_def drain_pending_def drain_records_about Let_def split_beta
        split: option.split sum.split prod.split)
  moreover have "about (sender_hex p) (fst (handle_noise_encrypted v t p m))"
    using acknowledge_about [of "sender_hex p"]
    by (simp add: handle_noise_encrypted_def handle_noise_payload_def handle_private_message_def
        answer_challenge_def Let_def split_beta split: option.split sum.split)
  moreover have "about (sender_hex p) (fst (handle_request_sync v t p m))"
    by (auto simp: handle_request_sync_def about_def Let_def split_beta List.map_filter_def split: option.split)
  ultimately show ?thesis by (simp add: handle_typed_def Let_def split: option.split message_type.split)
qed

definition silent :: "env \<Rightarrow> mesh \<Rightarrow> mesh_event list \<Rightarrow> bool" where
  "silent v m events \<longleftrightarrow>
     (\<forall>ev \<in> set events. \<forall>i. event_peer ev = Some i \<longrightarrow> i \<noteq> ms_my_id m \<and> \<not> is_blocked v i m)"

lemma silent_policy: "same_policy m m' \<Longrightarrow> silent v m' = silent v m"
  by (simp add: silent_def fun_eq_iff is_blocked_def)

lemma silent_typed:
  "mesh_ok v m \<Longrightarrow> sender_hex p \<noteq> ms_my_id m \<Longrightarrow> \<not> is_blocked v (sender_hex p) m \<Longrightarrow>
   silent v m (fst (handle_typed v t e p m))"
  using typed_about [of v m p t e] by (fastforce simp: silent_def about_def)

lemma silent_append [simp]: "silent v m (xs @ ys) \<longleftrightarrow> silent v m xs \<and> silent v m ys"
  by (auto simp: silent_def)

lemma silent_diagnostics [simp]: "silent v m []" "silent v m [Notice d]" "silent v m (received_trace p m)"
  by (simp_all add: silent_def received_trace_def)

lemma silent_inner: "mesh_ok v m \<Longrightarrow> silent v m (fst (handle_inner v t e p m))"
  using silent_typed [of v m p t e] by (simp add: handle_inner_def Let_def split_beta)

lemma silent_fragment:
  assumes "mesh_ok v m" "handle_fragment v t e p m = Some (events, m')"
  shows "silent v m events"
proof (cases "parse p")
  case (Some h)
  from assms(2) Some obtain r a where a: "append_fragment (ck_instant t) h (ms_assembler m) = Some (r, a)"
    by (auto simp: handle_fragment_def archive_packet_def Let_def split: option.splits)
  have "\<exists>r b. append_fragment (ck_instant t) h (ms_assembler m) = Some (r, b) \<and> assembler_ok b"
    by (rule append_fragment_preserves [OF mesh_okD(1) [OF assms(1)] conjunct1 [OF parse_in_range [OF Some]]])
  then have "assembler_ok a" using a by simp
  then have "mesh_ok v ((archive_packet v t p m)\<lparr>ms_assembler := a\<rparr>)"
    using assms(1) by (intro mesh_ok_assembler) simp_all
  note inner = silent_inner [OF this, of t e]
  have policy: "silent v ((archive_packet v t p m)\<lparr>ms_assembler := a\<rparr>) = silent v m"
    by (rule silent_policy) (simp add: archive_packet_def)
  have traced: "silent v m [Trace d]" for d by (simp add: silent_def)
  from inner [unfolded policy] traced assms(2) Some a show ?thesis
    by (auto simp: handle_fragment_def Let_def archive_packet_def split: option.splits append_outcome.splits
        if_splits) (metis fst_conv)+
qed (use assms(2) in \<open>auto simp: handle_fragment_def\<close>)

lemma silent_frame:
  assumes "mesh_ok v m" "handle_frame v t e raw m = Some (events, m')"
  shows "silent v m events"
proof (cases "decode (ev_decompress v) raw")
  case (Some p)
  from assms(2) Some show ?thesis
    using silent_fragment [OF assms(1), of t e p] silent_typed [OF assms(1), of p t e]
    by (auto simp: handle_frame_def handle_packet_def Let_def split_beta split: if_splits)
qed (use assms(2) in \<open>auto simp: handle_frame_def\<close>)

section \<open>Who is shown as the author of a message\<close>

definition vouched :: "env \<Rightarrow> mesh \<Rightarrow> packet \<Rightarrow> text_bytes \<Rightarrow> text_bytes \<Rightarrow> text_bytes \<Rightarrow> u64 \<Rightarrow> bool" where
  "vouched v m p i name content ts \<longleftrightarrow>
     sender_hex p = i \<and> p_payload p = content \<and> p_timestamp p = ts \<and> utf8_valid content
     \<and> (i, ts, content) \<notin> ring_set (ms_seen m)
     \<and> (case map_of (ms_peers m) i of
          Some peer \<Rightarrow> name = mp_nickname peer \<and> (should_compress content \<or> verify_with v p (mp_signing_key peer))
        | None \<Rightarrow> name = short_display i @ ascii ''?'')"

fun shows_text :: "mesh_event \<Rightarrow> bool" where
  "shows_text (PublicMessage _ _ _ _) = True"
| "shows_text _ = False"

abbreviation quiet :: "mesh_event list \<Rightarrow> bool" where
  "quiet \<equiv> list_all (\<lambda>ev. \<not> shows_text ev)"

lemma quiet_send [simp]: "quiet (map Send fs)"
  by (simp add: list_all_iff)

lemma quiet_drain: "quiet (fst (drain_records v t i rs m))"
  by (induction rs arbitrary: m) (simp_all add: split_beta split: sum.split)

lemma quiet_acknowledge: "quiet (fst (acknowledge_message v t i x m))"
  by (simp add: acknowledge_message_def split_beta split: option.split)

lemma typed_quiet:
  assumes "parsed_type p \<noteq> Some Message"
  shows "quiet (fst (handle_typed v t e p m))"
proof -
  have "quiet (fst (handle_leave i m))" for i
    by (simp add: handle_leave_def split: option.split)
  moreover have "quiet (fst (handle_announce v t p m))"
    by (simp add: handle_announce_def Let_def split: option.split)
  moreover have "quiet (fst (handle_file v t p m))"
    by (simp add: handle_file_def Let_def split: option.split)
  moreover have "quiet (handle_carrier p i m)" "quiet (handle_courier v t p i m)" for i
    by (simp_all add: handle_carrier_def handle_courier_def split: option.split)
  moreover have "quiet (fst (handle_noise_handshake v t e p m))"
    by (simp add: handle_noise_handshake_def drain_pending_def quiet_drain Let_def split_beta
        split: option.split sum.split prod.split)
  moreover have "quiet (fst (handle_noise_encrypted v t p m))"
    using quiet_acknowledge [of v t "sender_hex p"]
    by (simp add: handle_noise_encrypted_def handle_noise_payload_def handle_private_message_def
        answer_challenge_def Let_def split_beta split: option.split sum.split)
  moreover have "quiet (fst (handle_request_sync v t p m))"
    by (auto simp: handle_request_sync_def list_all_iff Let_def split_beta List.map_filter_def split: option.split)
  ultimately show ?thesis using assms by (simp add: handle_typed_def Let_def split: option.split message_type.split)
qed

lemma typed_public:
  assumes "PublicMessage i name c ts \<in> set (fst (handle_typed v t e p m))"
  shows "vouched v m p i name c ts"
proof -
  have "\<not> quiet (fst (handle_typed v t e p m))" using assms by (force simp: list_all_iff)
  then have t: "parsed_type p = Some Message" using typed_quiet by blast
  have new: "fst (pop_insert n x r) \<Longrightarrow> x \<notin> ring_set r" for n x and r :: "(text_bytes \<times> u64 \<times> text_bytes) ring"
    by (auto simp: pop_insert_def)
  from assms t show ?thesis
    by (auto simp: handle_typed_def handle_public_message_def vouched_def remember_packet_def Let_def split_beta
        dest: from_utf8_SomeD new split: option.splits if_splits)
qed

lemma vouched_fields: "ms_peers m' = ms_peers m \<Longrightarrow> ms_seen m' = ms_seen m \<Longrightarrow> vouched v m' = vouched v m"
  by (simp add: vouched_def fun_eq_iff)

lemma inner_public:
  "PublicMessage i name c ts \<in> set (fst (handle_inner v t e p m)) \<Longrightarrow> vouched v m p i name c ts"
  using typed_public [of i name c ts v t e p m]
  by (auto simp: handle_inner_def received_trace_def Let_def split_beta split: if_splits)

lemma fragment_public:
  assumes "handle_fragment v t e p m = Some (events, m')" "PublicMessage i name c ts \<in> set events"
  shows "\<exists>q. vouched v m q i name c ts"
proof -
  have "\<exists>q. vouched v m q i name c ts"
    if "PublicMessage i name c ts \<in> set (fst (handle_inner v t e q ((archive_packet v t p m)\<lparr>ms_assembler := a\<rparr>)))"
    for q a
    using inner_public [OF that] vouched_fields [of "(archive_packet v t p m)\<lparr>ms_assembler := a\<rparr>" m v]
    by (auto simp: archive_packet_def)
  with assms show ?thesis
    by (auto simp: handle_fragment_def Let_def split: option.splits append_outcome.splits if_splits) (metis fst_conv)+
qed

lemma frame_public:
  assumes "handle_frame v t e raw m = Some (events, m')" "PublicMessage i name c ts \<in> set events"
  shows "\<exists>p. vouched v m p i name c ts"
proof (cases "decode (ev_decompress v) raw")
  case (Some p)
  have "PublicMessage i name c ts \<notin> set (received_trace p m)" by (simp add: received_trace_def)
  with assms Some show ?thesis
    using fragment_public [of v t e p m] typed_public [of i name c ts v t e p m]
    by (auto simp: handle_frame_def handle_packet_def Let_def split_beta split: if_splits)
qed (use assms in \<open>auto simp: handle_frame_def\<close>)

section \<open>Properties\<close>

lemma mesh_run_ok:
  assumes "aead_ok (ev_crypto v)" "\<And>d. length (sha256 (ev_crypto v) d) = 32"
  shows "list_all op_text_ok ops \<Longrightarrow> mesh_ok v m \<Longrightarrow> \<exists>m'. mesh_run v ops m = Some m' \<and> mesh_ok v m'"
proof (induction ops arbitrary: m)
  case (Cons op ops)
  from mesh_step_ok [OF assms Cons.prems(2), of op] Cons.prems(1) obtain m1
    where "mesh_step v op m = Some m1" "mesh_ok v m1" by auto
  with Cons show ?case by simp
qed simp

text \<open>
  C7.  The mesh service survives anything that reaches it: started with whatever block
  list, verified fingerprints and favourites the state file held, whatever frames arrive
  and whatever the user does, in any order, no operation panics or fails to return, and
  afterwards the assembler is within its limits, the duplicate memory is well formed,
  every session is authenticated, and every peer on file sits under the identifier of its
  announced key with that key's fingerprint, is not us and is not blocked.
\<close>

theorem mesh_stays_well_formed:
  assumes "aead_ok (ev_crypto v)" "\<And>d. length (sha256 (ev_crypto v) d) = 32" "list_all op_text_ok ops"
  shows "\<exists>m. mesh_run v ops (mesh_start v identity_key noise_static nickname blocked_peers verified restored) = Some m
    \<and> mesh_ok v m"
  by (rule mesh_run_ok [OF assms mesh_start_ok])

text \<open>Outside code that satisfies the hypotheses.\<close>

definition demo_env :: env where
  "demo_env = \<lparr>ev_crypto = demo_crypto\<lparr>sha256 := pad32\<rparr>, ev_unicode = id, ev_decompress = (\<lambda>_ _. None),
     ev_verifying = (\<lambda>k. k), ev_sign = (\<lambda>k b. replicate 64 7), ev_key_ok = (\<lambda>_. True),
     ev_check = (\<lambda>key b s. s = replicate 64 7)\<rparr>"

lemma demo_env_ok: "aead_ok (ev_crypto demo_env)" "length (sha256 (ev_crypto demo_env) d) = 32"
  using demo_aead_ok by (simp_all add: demo_env_def aead_ok_def pad32_def)

theorem mesh_stays_well_formed_witness:
  "\<exists>m. mesh_run demo_env [OpDebug, OpFrame \<lparr>ck_instant = 0, ck_ms = 0, ck_seconds = 0\<rparr> [] [1, 2, 3], OpVerify [1], OpBlock [97], OpWipe]
     (mesh_start demo_env [1] [2] [97] [[98]] [[99]] []) = Some m \<and> mesh_ok demo_env m"
  by (rule mesh_stays_well_formed [OF demo_env_ok]) simp

definition demo_clock :: clock where
  "demo_clock = \<lparr>ck_instant = 0, ck_ms = 0, ck_seconds = 0\<rparr>"

definition demo_mesh :: mesh where
  "demo_mesh = mesh_new demo_env [1] [2] [97]"

lemma demo_message:
  "\<exists>m'. handle_frame demo_env demo_clock [] (frame_bytes sample_packet) demo_mesh
     = Some ([PublicMessage (hex_encode [1, 2, 3, 4, 5, 6, 7, 8])
                (short_display (hex_encode [1, 2, 3, 4, 5, 6, 7, 8]) @ ascii ''?'') [104, 105] 1700000000000], m')"
proof -
  have me: "ms_my_id demo_mesh \<noteq> hex_encode [1, 2, 3, 4, 5, 6, 7, 8]" by code_simp
  have id: "ms_blocked demo_mesh = []" "ms_debug demo_mesh = False" "ms_peers demo_mesh = []" "ms_seen demo_mesh = ring_empty"
    by (simp_all add: demo_mesh_def mesh_new_def Let_def)
  have fields: "sender_hex sample_packet = hex_encode [1, 2, 3, 4, 5, 6, 7, 8]" "p_payload sample_packet = [104, 105]"
    "p_timestamp sample_packet = 1700000000000" "parsed_type sample_packet = Some Message"
    by (simp_all add: sample_packet_def sender_hex_def parsed_type_def from_u8_def)
  have "utf8_valid [104, 105]" by (rule utf8_valid_ascii) simp
  then show ?thesis
    using sample_frame_decodes me id fields
    by (simp add: handle_frame_def handle_packet_def handle_typed_def handle_public_message_def received_trace_def
        is_blocked_def listed_def remember_packet_def pop_insert_def ring_empty_def demo_env_def Let_def SEEN_LIMIT_def)
qed

text \<open>
  C9.  A blocked peer is silent.  No event that a frame gives rise to reports anything of a
  blocked peer or of ourselves, fragments and what is reassembled from them included;
  notices and traces, which are diagnostics, report of no peer in this sense.  A frame whose sender is blocked, or is ourselves, changes
  nothing, and all that comes of it is the one trace line of a received frame when packet
  tracing is on.
\<close>

theorem blocked_peers_are_silent:
  assumes "mesh_ok v m" "handle_frame v t e raw m = Some (events, m')"
  shows "(\<forall>ev \<in> set events. \<forall>i. event_peer ev = Some i \<longrightarrow> i \<noteq> ms_my_id m \<and> \<not> is_blocked v i m)
    \<and> (\<forall>p. decode (ev_decompress v) raw = Some p \<longrightarrow> sender_hex p = ms_my_id m \<or> is_blocked v (sender_hex p) m
         \<longrightarrow> events = received_trace p m \<and> m' = m)"
  using silent_frame [OF assms] assms(2)
  by (auto simp: silent_def handle_frame_def handle_packet_def Let_def)

text \<open>With nobody blocked the author is reported; once blocked, the trace is all there is.\<close>

theorem blocked_peers_are_silent_witness:
  "\<not> is_blocked demo_env (hex_encode [1, 2, 3, 4, 5, 6, 7, 8]) demo_mesh \<and>
   (let m = demo_mesh\<lparr>ms_debug := True, ms_blocked := [hex_encode [1, 2, 3, 4, 5, 6, 7, 8]]\<rparr> in
    handle_frame demo_env demo_clock [] (frame_bytes sample_packet) m = Some (received_trace sample_packet m, m))"
proof -
  obtain m' where "handle_frame demo_env demo_clock [] (frame_bytes sample_packet) demo_mesh
     = Some ([PublicMessage (hex_encode [1, 2, 3, 4, 5, 6, 7, 8])
                (short_display (hex_encode [1, 2, 3, 4, 5, 6, 7, 8]) @ ascii ''?'') [104, 105] 1700000000000], m')"
    using demo_message by blast
  from blocked_peers_are_silent [OF mesh_new_ok [of demo_env "[1]" "[2]" "[97]", folded demo_mesh_def] this]
  have first: "\<not> is_blocked demo_env (hex_encode [1, 2, 3, 4, 5, 6, 7, 8]) demo_mesh" by simp
  let ?m = "demo_mesh\<lparr>ms_debug := True, ms_blocked := [hex_encode [1, 2, 3, 4, 5, 6, 7, 8]]\<rparr>"
  have ok: "mesh_ok demo_env ?m"
    using mesh_new_ok [of demo_env "[1]" "[2]" "[97]"] by (simp add: mesh_ok_def registry_ok_def demo_mesh_def mesh_new_def Let_def)
  have blocked: "is_blocked demo_env (sender_hex sample_packet) ?m"
    by (simp add: is_blocked_def listed_def sample_packet_def sender_hex_def starts_with_def
        to_lowercase_hex [of _ "[1, 2, 3, 4, 5, 6, 7, 8]"] Let_def)
  have wire: "decode (ev_decompress demo_env) (frame_bytes sample_packet) = Some sample_packet"
    using sample_frame_decodes by (simp add: demo_env_def)
  obtain events m1 where run: "handle_frame demo_env demo_clock [] (frame_bytes sample_packet) ?m = Some (events, m1)"
    using frame_kept [OF demo_env_ok(1) ok] by blast
  then have "events = received_trace sample_packet ?m \<and> m1 = ?m"
    using blocked_peers_are_silent [OF ok run] wire blocked by blast
  then show ?thesis unfolding Let_def using run first by blast
qed

text \<open>
  C8.  Public text is attributed to the peer that signed it: when a message is shown under
  a name on file, its packet carries that peer's identifier and, unless the text is one the
  protocol compresses, a signature that verifies under the key that peer announced; from
  anybody else it is shown under a name with a question mark; and it is not one of the
  messages remembered as shown already.
\<close>

theorem public_message_vouched:
  assumes "handle_frame v t e raw m = Some (events, m')" "PublicMessage i name content ts \<in> set events"
  shows "\<exists>p. vouched v m p i name content ts"
  using assms by (rule frame_public)

theorem public_message_vouched_witness:
  "\<exists>p. vouched demo_env demo_mesh p (hex_encode [1, 2, 3, 4, 5, 6, 7, 8])
     (short_display (hex_encode [1, 2, 3, 4, 5, 6, 7, 8]) @ ascii ''?'') [104, 105] 1700000000000"
proof -
  obtain m' where "handle_frame demo_env demo_clock [] (frame_bytes sample_packet) demo_mesh
     = Some ([PublicMessage (hex_encode [1, 2, 3, 4, 5, 6, 7, 8])
                (short_display (hex_encode [1, 2, 3, 4, 5, 6, 7, 8]) @ ascii ''?'') [104, 105] 1700000000000], m')"
    using demo_message by blast
  from public_message_vouched [OF this] show ?thesis by simp
qed

section \<open>A service that knows one peer\<close>

abbreviation demo_id :: text_bytes where "demo_id \<equiv> hex_encode [1, 2, 3, 4, 5, 6, 7, 8]"

definition demo_peer :: mesh_peer where
  "demo_peer = \<lparr>mp_id = demo_id, mp_nickname = [98], mp_noise_key = [1, 2, 3, 4, 5, 6, 7, 8] @ replicate 24 0,
     mp_signing_key = replicate 32 5,
     mp_fingerprint = key_fingerprint pad32 ([1, 2, 3, 4, 5, 6, 7, 8] @ replicate 24 0),
     mp_verified = True, mp_capabilities = None, mp_claims = [], mp_last_seen = 0\<rparr>"

definition acquainted :: mesh where
  "acquainted = demo_mesh\<lparr>ms_peers := [(demo_id, demo_peer)]\<rparr>"

lemma acquainted_fields:
  "ms_peers acquainted = [(demo_id, demo_peer)]" "ms_my_id acquainted = ms_my_id demo_mesh"
  "ms_blocked acquainted = []" "ms_seen acquainted = ring_empty" "ms_debug acquainted = False"
  by (simp_all add: acquainted_def demo_mesh_def mesh_new_def Let_def)

lemma acquainted_ok: "mesh_ok demo_env acquainted"
proof -
  have "peer_ok demo_env (ms_my_id demo_mesh) [] demo_id demo_peer"
  proof -
    have "ms_my_id demo_mesh \<noteq> demo_id" "derive_peer_id pad32 ([1, 2, 3, 4, 5, 6, 7, 8] @ replicate 24 0) = demo_id"
      by code_simp+
    then show ?thesis by (simp add: peer_ok_def demo_peer_def listed_def demo_env_def)
  qed
  moreover have "mesh_ok demo_env demo_mesh" unfolding demo_mesh_def by (rule mesh_new_ok)
  ultimately show ?thesis
    by (simp add: mesh_ok_def registry_ok_def acquainted_fields) (simp add: acquainted_def)
qed

lemma demo_fields:
  "sender_hex sample_packet = demo_id" "p_payload sample_packet = [104, 105]" "parsed_type sample_packet = Some Message"
  "sender_hex sample_signed = demo_id" "p_payload sample_signed = [104, 105]" "parsed_type sample_signed = Some Message"
  "p_timestamp sample_signed = p_timestamp sample_packet" "utf8_valid [104, 105]"
  "\<not> verify_with v sample_packet key"
proof -
  show "utf8_valid [104, 105]" by (rule utf8_valid_ascii) simp
qed (simp_all add: sample_packet_def sample_signed_def sender_hex_def parsed_type_def from_u8_def
    verify_with_def verify_packet_def)

end
