(* ===== verification/Mesh_Faults.thy ===== *)
theory Mesh_Faults
  imports Mesh_Safety
begin

text \<open>
  What the mesh service lets happen: consequences of the order of its checks and of the
  keys it checks against, stated of the same definitions as the guarantees.
\<close>

lemma remembered_after:
  assumes "mesh_ok v m" "remember_packet p c m = (True, m1)"
  shows "(sender_hex p, p_timestamp p, c) \<in> ring_set (ms_seen m1)"
proof -
  let ?x = "(sender_hex p, p_timestamp p, c)"
  have new: "?x \<notin> ring_set (ms_seen m)" and m1: "ms_seen m1 = snd (pop_insert SEEN_LIMIT ?x (ms_seen m))"
    using assms(2) by (auto simp: remember_packet_def pop_insert_def Let_def split: prod.splits if_splits)
  have valid: "ring_valid SEEN_LIMIT (ms_seen m)" by (rule mesh_okD(3) [OF assms(1)])
  then have "?x \<in> set (ring_order (snd (pop_insert SEEN_LIMIT ?x (ms_seen m))))"
    using remembered.add_fresh [OF valid, of ?x] new by (simp add: ring_valid_def SEEN_LIMIT_def)
  moreover have "ring_valid SEEN_LIMIT (snd (pop_insert SEEN_LIMIT ?x (ms_seen m)))"
    using remembered.valid_add [OF valid] .
  ultimately show ?thesis by (simp add: m1 ring_valid_def)
qed

lemma remember_new:
  assumes "(sender_hex p, p_timestamp p, c) \<notin> ring_set (ms_seen m)"
  shows "\<exists>m1. remember_packet p c m = (True, m1)"
proof -
  have "fst (pop_insert n x r)" if "x \<notin> ring_set r" for n x and r :: "(text_bytes \<times> u64 \<times> text_bytes) ring"
    using that by (cases "ring_order r") (simp_all add: pop_insert_def Let_def)
  from this [OF assms, of SEEN_LIMIT] show ?thesis by (simp add: remember_packet_def split_beta)
qed

text \<open>What every packet of one of our peers passes before its own handler.\<close>

lemma handle_packet_typed:
  assumes "sender_hex p \<noteq> ms_my_id m" "\<not> is_blocked v (sender_hex p) m" "parsed_type p \<noteq> Some Fragment"
  shows "handle_packet v t e p m =
    Some (received_trace p m @ fst (handle_typed v t e p m), snd (handle_typed v t e p m))"
  using assms by (simp add: handle_packet_def Let_def split_beta)

lemma peer_admitted:
  assumes "mesh_ok v m" "map_of (ms_peers m) i = Some peer"
  shows "i \<noteq> ms_my_id m" "\<not> is_blocked v i m"
  using mesh_ok_peer [OF assms] by (simp_all add: peer_ok_def is_blocked_def)

section \<open>Properties\<close>

text \<open>
  C38.  A forged copy silences the message it copies: the duplicate test comes before the
  signature test, so a packet with the sender, time and text of a message and no valid
  signature is refused, and when the genuine packet arrives afterwards it is dropped as a
  repetition and never shown.
\<close>

theorem forged_copy_silences:
  assumes "mesh_ok v m" "map_of (ms_peers m) (sender_hex p) = Some peer"
    and "parsed_type p = Some Message" "parsed_type forged = Some Message"
    and "utf8_valid (p_payload p)" "\<not> should_compress (p_payload p)"
    and "(sender_hex p, p_timestamp p, p_payload p) \<notin> ring_set (ms_seen m)"
    and "sender_hex forged = sender_hex p" "p_timestamp forged = p_timestamp p" "p_payload forged = p_payload p"
    and "\<not> verify_with v forged (mp_signing_key peer)"
  shows "\<exists>m1 m2. handle_packet v t e forged m
        = Some (received_trace forged m @ [Notice (BadMessageSignature (mp_nickname peer))], m1)
     \<and> handle_packet v t' e' p m1 = Some (received_trace p m1, m2)"
proof -
  obtain m1 where r: "remember_packet forged (p_payload p) m = (True, m1)"
    using remember_new [of forged "p_payload p" m] assms(7-10) by auto
  have same: "ms_peers m1 = ms_peers m" "same_policy m m1"
    using remember_fields(1,2) [of forged "p_payload p" m] r by simp_all
  note adm = peer_admitted [OF assms(1,2)]
  have 1: "handle_typed v t e forged m = ([Notice (BadMessageSignature (mp_nickname peer))], m1)"
    using assms r same by (simp add: handle_typed_def handle_public_message_def Let_def)
  have "(sender_hex p, p_timestamp p, p_payload p) \<in> ring_set (ms_seen m1)"
    using remembered_after [OF assms(1) r] assms(8,9) by simp
  then have "remember_packet p (p_payload p) m1 = (False, m1)"
    by (simp add: remember_packet_def pop_insert_def)
  then have 2: "handle_typed v t' e' p m1 = ([], m1)"
    using assms(3,5) by (simp add: handle_typed_def handle_public_message_def Let_def)
  have blk: "is_blocked v i m1 = is_blocked v i m" for i using same by (simp add: is_blocked_def)
  show ?thesis
    using handle_packet_typed [of forged m v t e] handle_packet_typed [of p m1 v t' e'] adm 1 2 same assms(3,4,8) blk
    by simp
qed

theorem forged_copy_silences_witness:
  "\<exists>m1 m2. handle_packet demo_env demo_clock [] sample_packet acquainted
       = Some ([Notice (BadMessageSignature [98])], m1)
     \<and> handle_packet demo_env demo_clock [] sample_signed m1 = Some (received_trace sample_signed m1, m2)"
proof -
  have known: "map_of (ms_peers acquainted) (sender_hex sample_signed) = Some demo_peer"
    by (simp add: acquainted_fields demo_fields(4))
  have quiet: "received_trace sample_packet acquainted = []" "mp_nickname demo_peer = [98]"
    by (simp_all add: received_trace_def acquainted_fields demo_peer_def)
  have "\<exists>m1 m2. handle_packet demo_env demo_clock [] sample_packet acquainted
       = Some (received_trace sample_packet acquainted @ [Notice (BadMessageSignature (mp_nickname demo_peer))], m1)
     \<and> handle_packet demo_env demo_clock [] sample_signed m1 = Some (received_trace sample_signed m1, m2)"
    by (rule forged_copy_silences [OF acquainted_ok known])
       (simp_all only: demo_fields, simp_all add: should_compress_def COMPRESSION_THRESHOLD_def acquainted_fields ring_empty_def)
  then show ?thesis by (simp only: quiet append.simps)
qed

text \<open>
  C39.  Anybody can rename a peer: the signature of an announce is checked against the key
  inside that announce and never against the one on file, so an announce that repeats a
  peer's public Noise key beside a signing key of the attacker, signed with the latter,
  replaces the peer's name and capabilities, and the peer still counts as verified.
\<close>

theorem foreign_announce_renames:
  assumes "mesh_ok v m" "map_of (ms_peers m) (sender_hex p) = Some peer"
    and "parsed_type p = Some Announce" "announcement_decode (p_payload p) = Some a"
    and "an_noise_public_key a = mp_noise_key peer" "verify_with v p (an_signing_public_key a)"
  shows "\<exists>m' new. handle_packet v t e p m = Some (received_trace p m
        @ (if an_nickname a = mp_nickname peer then [] else [PeerRenamed (sender_hex p) (an_nickname a)]), m')
     \<and> map_of (ms_peers m') (sender_hex p) = Some new \<and> mp_nickname new = an_nickname a
     \<and> mp_capabilities new = advertised a \<and> mp_verified new \<and> mp_signing_key new = mp_signing_key peer"
proof -
  have "derive_peer_id (sha256 (ev_crypto v)) (an_noise_public_key a) = sender_hex p"
    using mesh_ok_peer [OF assms(1,2)] assms(5) by (simp add: peer_ok_def)
  with assms(2-4,6) have "\<exists>m'. handle_typed v t e p m
      = ((if an_nickname a = mp_nickname peer then [] else [PeerRenamed (sender_hex p) (an_nickname a)]), m')
     \<and> map_of (ms_peers m') (sender_hex p) = Some (peer\<lparr>mp_nickname := an_nickname a, mp_verified := True,
          mp_capabilities := advertised a,
          mp_claims := (case an_direct_neighbors a of Some ns \<Rightarrow> map hex_encode ns | None \<Rightarrow> []),
          mp_last_seen := ck_instant t\<rparr>)"
    by (auto simp: handle_typed_def handle_announce_def archive_packet_def announced_peer_def Let_def update_conv')
  then obtain m' where "handle_typed v t e p m
      = ((if an_nickname a = mp_nickname peer then [] else [PeerRenamed (sender_hex p) (an_nickname a)]), m')"
    and "map_of (ms_peers m') (sender_hex p) = Some (peer\<lparr>mp_nickname := an_nickname a, mp_verified := True,
          mp_capabilities := advertised a,
          mp_claims := (case an_direct_neighbors a of Some ns \<Rightarrow> map hex_encode ns | None \<Rightarrow> []),
          mp_last_seen := ck_instant t\<rparr>)"
    by blast
  then show ?thesis
    using handle_packet_typed [OF peer_admitted [OF assms(1,2)], of t e] assms(3) by simp
qed

theorem foreign_announce_renames_witness:
  "\<exists>p m' new. handle_packet demo_env demo_clock [] p acquainted = Some ([PeerRenamed demo_id [109]], m')
     \<and> map_of (ms_peers m') demo_id = Some new \<and> mp_nickname new = [109] \<and> mp_verified new"
proof -
  let ?key = "[1, 2, 3, 4, 5, 6, 7, 8] @ replicate 24 0"
  have "utf8_valid [109]" by (rule utf8_valid_ascii) simp
  then obtain d where e: "announcement_encode (with_capabilities (announcement_new [109] ?key (replicate 32 6)) 0) = Some d"
    and d: "announcement_decode d = Some (with_capabilities (announcement_new [109] ?key (replicate 32 6)) 0)"
    using own_announcement [of "[109]" ?key "replicate 32 6" 0] by auto
  let ?a = "with_capabilities (announcement_new [109] ?key (replicate 32 6)) 0"
  obtain p where p: "p = sample_signed\<lparr>p_msg_type := 1, p_payload := d\<rparr>" by simp
  have fields: "sender_hex p = demo_id" "parsed_type p = Some Announce" "p_payload p = d" "p_signature p = Some (replicate 64 7)"
    by (simp_all add: p sample_signed_def sample_packet_def sender_hex_def parsed_type_def from_u8_def)
  have names: "an_nickname ?a = [109]" "an_noise_public_key ?a = ?key" "an_signing_public_key ?a = replicate 32 6"
    by (simp_all add: with_capabilities_def announcement_new_def truncate_nickname_def MAX_NICKNAME_BYTES_def)
  have "wf_announcement ?a"
    using \<open>utf8_valid [109]\<close> by (simp add: wf_announcement_def with_capabilities_def announcement_new_def
        truncate_nickname_def MAX_NICKNAME_BYTES_def)
  from announcement_travels [OF this] e have "length d < COMPRESSION_THRESHOLD" by auto
  then have "wf_packet p" "encodable p"
    by (simp_all add: p sample_signed_def sample_packet_def wf_packet_def encodable_def effective_route_def
        COMPRESSION_THRESHOLD_def BROADCAST_RECIPIENT_def)
  then have "signing_bytes p \<noteq> None"
    by (simp add: unsigned_facts encode_with_padding_eq)
  then obtain b where "signing_bytes p = Some b" by blast
  then have "verify_with demo_env p (an_signing_public_key ?a)"
    using fields names by (simp add: verify_with_def verify_packet_def demo_env_def)
  moreover have "map_of (ms_peers acquainted) (sender_hex p) = Some demo_peer"
    by (simp add: acquainted_fields fields)
  moreover have "mp_noise_key demo_peer = ?key" "mp_nickname demo_peer = [98]" by (simp_all add: demo_peer_def)
  ultimately show ?thesis
    using foreign_announce_renames [OF acquainted_ok, of p demo_peer ?a demo_clock "[]"] fields d names
    by (simp add: received_trace_def acquainted_fields) blast
qed

text \<open>
  A departure needs no signature: one packet with a peer's identifier removes that
  peer, and from then on a message in its name is shown without any signature check, with
  a question mark after the identifier.
\<close>

theorem forged_leave_unguards:
  assumes "mesh_ok v m" "map_of (ms_peers m) (sender_hex leave) = Some peer"
    and "parsed_type leave = Some Leave" "parsed_type p = Some Message" "sender_hex p = sender_hex leave"
    and "utf8_valid (p_payload p)" "(sender_hex p, p_timestamp p, p_payload p) \<notin> ring_set (ms_seen m)"
  shows "\<exists>m1 m2. handle_packet v t e leave m
        = Some (received_trace leave m @ [PeerLeft (sender_hex leave) (mp_nickname peer)], m1)
     \<and> handle_packet v t' e' p m1 = Some (received_trace p m1 @
          [PublicMessage (sender_hex p) (short_display (sender_hex p) @ ascii ''?'') (p_payload p) (p_timestamp p)], m2)"
proof -
  let ?m1 = "m\<lparr>ms_peers := AList.delete (sender_hex leave) (ms_peers m)\<rparr>"
  have "mp_id peer = sender_hex leave" using mesh_ok_peer [OF assms(1,2)] by (simp add: peer_ok_def)
  then have 1: "handle_typed v t e leave m = ([PeerLeft (sender_hex leave) (mp_nickname peer)], ?m1)"
    using assms(2,3) by (simp add: handle_typed_def handle_leave_def Let_def)
  obtain m2 where r: "remember_packet p (p_payload p) ?m1 = (True, m2)"
    using remember_new [of p "p_payload p" ?m1] assms(7) by auto
  then have "ms_peers m2 = ms_peers ?m1" using remember_fields(1) [of p "p_payload p" ?m1] by simp
  then have "fst (handle_typed v t' e' p ?m1) =
      [PublicMessage (sender_hex p) (short_display (sender_hex p) @ ascii ''?'') (p_payload p) (p_timestamp p)]"
    using assms(4-6) r by (simp add: handle_typed_def handle_public_message_def Let_def delete_conv')
  then show ?thesis
    using handle_packet_typed [OF peer_admitted [OF assms(1,2)], of t e] assms(3,4,5) 1
      handle_packet_typed [of p ?m1 v t' e'] peer_admitted [OF assms(1,2)]
    by (simp add: is_blocked_def)
qed

theorem forged_leave_unguards_witness:
  "\<exists>m1 m2. handle_packet demo_env demo_clock [] (sample_packet\<lparr>p_msg_type := 3\<rparr>) acquainted
       = Some ([PeerLeft demo_id [98]], m1)
     \<and> handle_packet demo_env demo_clock [] sample_packet m1 = Some (received_trace sample_packet m1 @
         [PublicMessage demo_id (short_display demo_id @ ascii ''?'') [104, 105] (p_timestamp sample_packet)], m2)"
proof -
  let ?leave = "sample_packet\<lparr>p_msg_type := 3\<rparr>"
  have "sender_hex ?leave = demo_id" "parsed_type ?leave = Some Leave"
    by (simp_all add: sample_packet_def sender_hex_def parsed_type_def from_u8_def)
  moreover have "map_of (ms_peers acquainted) demo_id = Some demo_peer" by (simp add: acquainted_fields)
  moreover have "received_trace ?leave acquainted = []" "mp_nickname demo_peer = [98]"
    by (simp_all add: received_trace_def acquainted_fields demo_peer_def)
  ultimately show ?thesis
    using forged_leave_unguards [OF acquainted_ok, of ?leave demo_peer sample_packet demo_clock "[]" demo_clock "[]"]
    by (simp only: demo_fields acquainted_fields) (simp add: ring_empty_def)
qed

text \<open>
  Files over 64 KiB cannot be sent: the transfer is built as a version 1 packet, whose
  payload length has two bytes, so every file from there up to the limit of one mebibyte
  fails to encode instead of being split.
\<close>

theorem large_files_refused:
  assumes "65536 \<le> length content" "length content \<le> MAX_PAYLOAD_BYTES"
  shows "fst (file_frames v t stream name mime content m) = Inl NotEncodable"
proof -
  let ?f = "\<lparr>fp_name = Some name, fp_size = Some (of_nat (length content)), fp_mime = mime, fp_content = content\<rparr>"
  have size: "unat (of_nat (length content) :: u64) = length content"
    using assms(2) by (simp add: unat_of_nat MAX_PAYLOAD_BYTES_def)
  have small: "\<not> (0xFFFFFFFF :: u64) < of_nat (length content)"
    using size assms(2) by (simp add: word_less_nat_alt MAX_PAYLOAD_BYTES_def)
  obtain payload where payload: "file_encode ?f = Some payload" "length content \<le> length payload"
    using assms(2) small by (simp add: file_encode_def declared_size_def Let_def)
  then have "encode (packet_new FileTransfer (sender_bytes m) payload MESSAGE_TTL (ck_ms t)) = None"
    using assms(1) by (simp add: encode_def encode_with_padding_def packet_new_def)
  moreover have "content \<noteq> []" using assms(1) by auto
  ultimately show ?thesis using payload(1) by (simp add: file_frames_def Let_def)
qed

theorem large_files_refused_witness:
  "fst (file_frames demo_env demo_clock 1 [97] None (replicate 65536 0) demo_mesh) = Inl NotEncodable"
  by (rule large_files_refused) (simp_all add: MAX_PAYLOAD_BYTES_def)

text \<open>
  C40.  A second message breaks the handshake the first one started: it is refused with
  missing keys and queued nowhere, and it replaces the ephemeral key that the opening
  message on its way committed to.
\<close>

theorem second_message_breaks_handshake:
  assumes "mg_sessions (ms_sessions m) peer = None" "peer \<noteq> ms_my_id m" "\<not> is_blocked v peer m"
    and "utf8_valid content" "utf8_valid content'"
  shows "\<exists>ids frames m1 m2 s h.
     dm_frames v t e1 uuid peer content m = Some (Inr (ids, frames), m1)
     \<and> dm_frames v t' e2 uuid' peer content' m1 = Some (Inl (HandshakeNotStarted MissingKeys), m2)
     \<and> ms_pending m2 = ms_pending m1
     \<and> mg_sessions (ms_sessions m2) peer = Some s \<and> sn_handshake s = Some h \<and> hs_local_ephemeral h = Some e2"
proof -
  obtain r1 r2 where records: "dm_records uuid content = Some r1" "dm_records uuid' content' = Some r2"
    using split_returns [OF assms(4), of MAX_TLV_VALUE] split_returns [OF assms(5), of MAX_TLV_VALUE]
    by (auto simp: dm_records_def MAX_TLV_VALUE_def)
  from initiate_fresh [OF assms(1), of "ev_crypto v" e1] obtain s1 h1 t1
    where 1: "initiate_handshake (ev_crypto v) e1 peer (ms_sessions m) = (Inr (public_key (ev_crypto v) e1), s1)"
      and t1: "mg_sessions s1 peer = Some t1" "sn_handshake t1 = Some h1" "running t1 h1" "sn_role t1 = Initiator"
        "hs_remote_ephemeral h1 = None" and state: "sn_state t1 = Handshaking"
    by blast
  from initiate_again [OF t1, of "ev_crypto v" e2] obtain h2
    where 2: "initiate_handshake (ev_crypto v) e2 peer s1
        = (Inl MissingKeys, s1\<lparr>mg_sessions := (mg_sessions s1)(peer \<mapsto> t1\<lparr>sn_handshake := Some h2\<rparr>)\<rparr>)"
      and h2: "hs_local_ephemeral h2 = Some e2" by blast
  have "\<not> has_established_session peer (ms_sessions m)" "\<not> has_established_session peer s1"
    using assms(1) t1(1) state by (simp_all add: has_established_session_def)
  then show ?thesis
    using assms(2,3) records 1 2 h2
    by (simp add: dm_frames_def Let_def is_blocked_def)
qed

theorem second_message_breaks_handshake_witness:
  "\<exists>m1 m2. dm_frames demo_env demo_clock [3] (\<lambda>_. [117]) demo_id [104] acquainted = m1
     \<and> dm_frames demo_env demo_clock [4] (\<lambda>_. [118]) demo_id [105] (snd (the m1))
         = Some (Inl (HandshakeNotStarted MissingKeys), m2)"
proof -
  have "utf8_valid [104]" "utf8_valid [105]" by (rule utf8_valid_ascii, simp)+
  moreover have "ms_my_id demo_mesh \<noteq> demo_id" by code_simp
  moreover have "mg_sessions (ms_sessions acquainted) demo_id = None"
    by (simp add: acquainted_def demo_mesh_def mesh_new_def manager_new_def Let_def)
  ultimately show ?thesis
    using second_message_breaks_handshake [of acquainted demo_id demo_env "[104]" "[105]" demo_clock "[3]" "\<lambda>_. [117]"
        demo_clock "[4]" "\<lambda>_. [118]"] peer_admitted [OF acquainted_ok, of demo_id demo_peer]
    by (auto simp: acquainted_fields)
qed

end
