(* ===== verification/Topology.thy ===== *)
theory Topology
  imports Mesh_Safety "HOL-Library.Product_Lexorder"
begin

text \<open>
  The picture of the mesh around us (topology.rs): who we hear, whom they claim to see, and
  which parts of the mesh only we join.  A \<open>BTreeSet\<close> is a sorted list without repetitions,
  a \<open>BTreeMap\<close> an association list sorted by its keys.  \<open>layout\<close> computes coordinates in
  floating point and is left out.
\<close>

section \<open>Ordered containers\<close>

abbreviation set_insert :: "'a::linorder \<Rightarrow> 'a list \<Rightarrow> 'a list" where
  "set_insert \<equiv> insort_insert"

fun map_insert :: "'k::linorder \<Rightarrow> 'v \<Rightarrow> ('k \<times> 'v) list \<Rightarrow> ('k \<times> 'v) list" where
  "map_insert k v [] = [(k, v)]"
| "map_insert k v ((j, w) # ms) =
     (if k < j then (k, v) # (j, w) # ms
      else if k = j then (k, v) # ms
      else (j, w) # map_insert k v ms)"

abbreviation keys_sorted :: "('k::linorder \<times> 'v) list \<Rightarrow> bool" where
  "keys_sorted ms \<equiv> sorted_wrt (<) (map fst ms)"

lemma map_insert_keys: "set (map fst (map_insert k v ms)) = insert k (fst ` set ms)"
  by (induction k v ms rule: map_insert.induct) auto

lemma map_insert_sorted: "keys_sorted ms \<Longrightarrow> keys_sorted (map_insert k v ms)"
proof (induction k v ms rule: map_insert.induct)
  case (2 k v j w ms)
  then show ?case using map_insert_keys [of k v ms] by auto
qed simp

lemma map_insert_lookup: "keys_sorted ms \<Longrightarrow> map_of (map_insert k v ms) = (map_of ms)(k \<mapsto> v)"
proof (induction k v ms rule: map_insert.induct)
  case (2 k v j w ms)
  have "map_of ms k = None" if "k < j"
    using 2 that by (auto simp: map_of_eq_None_iff image_iff)
  then show ?case using 2 by (auto simp: fun_eq_iff)
qed simp

section \<open>The picture\<close>

datatype reach = Ourselves | Direct | Gossiped

record node =
  nd_id :: text_bytes
  nd_label :: text_bytes
  nd_reach :: reach
  nd_hops :: nat

record edge =
  ed_from :: text_bytes
  ed_to :: text_bytes
  ed_observed :: bool

record topology =
  tp_us :: text_bytes
  tp_direct :: "text_bytes list"
  tp_claims :: "(text_bytes \<times> text_bytes list) list"
  tp_names :: "(text_bytes \<times> text_bytes) list"

definition claimed_by :: "(text_bytes \<Rightarrow> text_bytes) \<Rightarrow> text_bytes \<Rightarrow> text_bytes \<Rightarrow> text_bytes list \<Rightarrow> text_bytes list" where
  "claimed_by unicode us peer claimed =
     remove1 us (sorted_list_of_set (set
       (filter (\<lambda>i. i \<noteq> us \<and> i \<noteq> to_lowercase unicode peer) (map (to_lowercase unicode) claimed))))"

fun add_peer :: "(text_bytes \<Rightarrow> text_bytes) \<Rightarrow> text_bytes \<times> text_bytes \<times> text_bytes list \<Rightarrow> topology \<Rightarrow> topology" where
  "add_peer unicode (peer, nickname, claimed) t =
     t\<lparr>tp_direct := set_insert peer (tp_direct t),
       tp_names := (if nickname \<noteq> [] then map_insert peer nickname (tp_names t) else tp_names t),
       tp_claims := map_insert peer (claimed_by unicode (tp_us t) peer claimed) (tp_claims t)\<rparr>"

definition topology_build ::
  "(text_bytes \<Rightarrow> text_bytes) \<Rightarrow> text_bytes \<Rightarrow> (text_bytes \<times> text_bytes \<times> text_bytes list) list \<Rightarrow> topology" where
  "topology_build unicode us peers =
     fold (add_peer unicode) peers \<lparr>tp_us = us, tp_direct = [], tp_claims = [], tp_names = []\<rparr>"

definition label_for :: "topology \<Rightarrow> text_bytes \<Rightarrow> text_bytes" where
  "label_for t peer = (case map_of (tp_names t) peer of Some n \<Rightarrow> n | None \<Rightarrow> short_display peer)"

definition gossiped :: "topology \<Rightarrow> text_bytes list" where
  "gossiped t =
     sorted_list_of_set (set (filter (\<lambda>i. i \<notin> set (tp_direct t)) (concat (map snd (tp_claims t)))))"

definition topology_nodes :: "topology \<Rightarrow> node list" where
  "topology_nodes t =
     [\<lparr>nd_id = tp_us t, nd_label = ascii ''you'', nd_reach = Ourselves, nd_hops = 0\<rparr>]
     @ map (\<lambda>i. \<lparr>nd_id = i, nd_label = label_for t i, nd_reach = Direct, nd_hops = 1\<rparr>) (tp_direct t)
     @ map (\<lambda>i. \<lparr>nd_id = i, nd_label = label_for t i, nd_reach = Gossiped, nd_hops = 2\<rparr>) (gossiped t)"

definition claimed_pairs :: "topology \<Rightarrow> (text_bytes \<times> text_bytes) list" where
  "claimed_pairs t =
     concat (map (\<lambda>(peer, theirs). map (\<lambda>i. if peer < i then (peer, i) else (i, peer)) theirs) (tp_claims t))"

definition topology_edges :: "topology \<Rightarrow> edge list" where
  "topology_edges t =
     map (\<lambda>i. \<lparr>ed_from = tp_us t, ed_to = i, ed_observed = True\<rparr>) (tp_direct t)
     @ map (\<lambda>(a, b). \<lparr>ed_from = a, ed_to = b, ed_observed = False\<rparr>) (sorted_list_of_set (set (claimed_pairs t)))"

definition direct_count :: "topology \<Rightarrow> nat" where
  "direct_count t = length (tp_direct t)"

section \<open>What would be left without us\<close>

definition neighbours :: "(text_bytes \<times> text_bytes list) list \<Rightarrow> text_bytes \<Rightarrow> text_bytes list" where
  "neighbours adjacency i = (case map_of adjacency i of Some ns \<Rightarrow> ns | None \<Rightarrow> [])"

definition add_link ::
  "text_bytes \<times> text_bytes \<Rightarrow> (text_bytes \<times> text_bytes list) list \<Rightarrow> (text_bytes \<times> text_bytes list) list" where
  "add_link = (\<lambda>(a, b) adjacency.
     let adjacency = map_insert a (set_insert b (neighbours adjacency a)) adjacency
     in map_insert b (set_insert a (neighbours adjacency b)) adjacency)"

definition links :: "topology \<Rightarrow> (text_bytes \<times> text_bytes) list" where
  "links t = concat (map (\<lambda>(peer, theirs). map (Pair peer) theirs) (tp_claims t))"

definition adjacency_of :: "topology \<Rightarrow> (text_bytes \<times> text_bytes list) list" where
  "adjacency_of t = fold add_link (links t) []"

lemma neighbours_finite: "set (neighbours adjacency i) \<subseteq> \<Union> (set ` snd ` set adjacency)"
  by (cases "map_of adjacency i") (auto simp: neighbours_def dest!: map_of_SomeD intro: bexI [rotated])

text \<open>The queue of one island: the identifiers still to visit, those seen and the island so far.\<close>

function flood ::
  "(text_bytes \<times> text_bytes list) list \<Rightarrow> text_bytes list \<Rightarrow> text_bytes list \<Rightarrow> text_bytes list
    \<Rightarrow> text_bytes list \<times> text_bytes list" where
  "flood adjacency [] seen island = (seen, island)"
| "flood adjacency (current # queue) seen island =
     (if current \<in> set seen then flood adjacency queue seen island
      else
        let seen = set_insert current seen in
        flood adjacency (queue @ filter (\<lambda>n. n \<notin> set seen) (neighbours adjacency current)) seen
          (set_insert current island))"
  by pat_completeness auto

termination
proof (relation "(\<lambda>(adjacency, queue, seen, island).
    card ((set queue \<union> \<Union> (set ` snd ` set adjacency)) - set seen)) <*mlex*> measure (\<lambda>(a, q, s, i). length q)")
  let ?m = "\<lambda>(adjacency :: (text_bytes \<times> text_bytes list) list, queue, seen, island :: text_bytes list).
    card ((set queue \<union> \<Union> (set ` snd ` set adjacency)) - set seen)"
  show "wf (?m <*mlex*> measure (\<lambda>(a, q, s, i). length q))"
    by (rule wf_mlex) simp
  fix adjacency :: "(text_bytes \<times> text_bytes list) list" and current queue seen island
  show "((adjacency, queue, seen, island), (adjacency, current # queue, seen, island))
      \<in> ?m <*mlex*> measure (\<lambda>(a, q, s, i). length q)" if "current \<in> set seen"
    by (rule mlex_leq) (use that in \<open>auto intro: card_mono\<close>)
  fix x
  assume new: "current \<notin> set seen" and x: "x = set_insert current seen"
  have "(set (queue @ filter (\<lambda>n. n \<notin> set x) (neighbours adjacency current)) \<union> \<Union> (set ` snd ` set adjacency)) - set x
      \<subset> (set (current # queue) \<union> \<Union> (set ` snd ` set adjacency)) - set seen"
    using neighbours_finite [of adjacency current] new by (auto simp: x set_insort_insert)
  then have "card ((set (queue @ filter (\<lambda>n. n \<notin> set x) (neighbours adjacency current))
        \<union> \<Union> (set ` snd ` set adjacency)) - set x)
      < card ((set (current # queue) \<union> \<Union> (set ` snd ` set adjacency)) - set seen)"
    by (intro psubset_card_mono) simp_all
  then show "((adjacency, queue @ filter (\<lambda>n. n \<notin> set x) (neighbours adjacency current), x, set_insert current island),
      (adjacency, current # queue, seen, island)) \<in> ?m <*mlex*> measure (\<lambda>(a, q, s, i). length q)"
    by (intro mlex_less) simp
qed

fun islands_from ::
  "(text_bytes \<times> text_bytes list) list \<Rightarrow> text_bytes list \<Rightarrow> text_bytes list \<Rightarrow> text_bytes list list" where
  "islands_from adjacency [] seen = []"
| "islands_from adjacency (start # rest) seen =
     (if start \<in> set seen then islands_from adjacency rest seen
      else (let (seen, island) = flood adjacency [start] seen [] in
            island # islands_from adjacency rest seen))"

definition everyone :: "topology \<Rightarrow> text_bytes list" where
  "everyone t = sorted_list_of_set (set (tp_direct t) \<union> set (gossiped t))"

definition islands_without_us :: "topology \<Rightarrow> text_bytes list list" where
  "islands_without_us t = islands_from (adjacency_of t) (everyone t) []"

definition we_are_a_bridge :: "topology \<Rightarrow> bool" where
  "we_are_a_bridge t \<longleftrightarrow> length (islands_without_us t) > 1"

section \<open>Links and components\<close>

text \<open>Two peers are linked when either claims the other; a component is what links join.\<close>

definition linked :: "topology \<Rightarrow> (text_bytes \<times> text_bytes) set" where
  "linked t = {(a, b). (a, b) \<in> set (links t) \<or> (b, a) \<in> set (links t)}"

definition component :: "topology \<Rightarrow> text_bytes \<Rightarrow> text_bytes set" where
  "component t a = (linked t)\<^sup>* `` {a}"

definition steps :: "(text_bytes \<times> text_bytes list) list \<Rightarrow> (text_bytes \<times> text_bytes) set" where
  "steps adjacency = {(a, b). b \<in> set (neighbours adjacency a)}"

lemma add_link_steps:
  assumes "keys_sorted adjacency"
  shows "keys_sorted (add_link l adjacency) \<and> steps (add_link l adjacency) = steps adjacency \<union> {l, (snd l, fst l)}"
proof -
  obtain a b where l: "l = (a, b)" by (cases l)
  show ?thesis
    using assms
    by (auto simp: l add_link_def Let_def map_insert_sorted map_insert_lookup steps_def neighbours_def set_insort_insert
        split: if_splits)
qed

lemma adjacency_steps: "steps (adjacency_of t) = linked t"
proof -
  have "keys_sorted (fold add_link ls adjacency) \<and> steps (fold add_link ls adjacency)
      = steps adjacency \<union> {(a, b). (a, b) \<in> set ls \<or> (b, a) \<in> set ls}"
    if "keys_sorted adjacency" for ls adjacency
    using that
  proof (induction ls arbitrary: adjacency)
    case (Cons l ls)
    then show ?case using Cons.IH [of "add_link l adjacency"] add_link_steps [of adjacency l]
      by (cases l) auto
  qed simp
  from this [of "[]" "links t"] show ?thesis
    by (simp add: adjacency_of_def linked_def) (simp add: steps_def neighbours_def)
qed

section \<open>The search\<close>

lemma closed_reach:
  assumes "\<And>x. x \<in> S \<Longrightarrow> R `` {x} \<subseteq> S \<union> Q"
  shows "R\<^sup>* `` S \<subseteq> S \<union> R\<^sup>* `` Q"
proof -
  have "y \<in> S \<union> R\<^sup>* `` Q" if "(x, y) \<in> R\<^sup>*" "x \<in> S" for x y
    using that
  proof (induction rule: rtrancl_induct)
    case (step y z)
    then show ?case using assms [of y] by (auto intro: rtrancl_into_rtrancl)
  qed simp
  then show ?thesis by auto
qed

lemma reach_step: "R\<^sup>* `` {x} = insert x (R\<^sup>* `` (R `` {x}))"
  by (auto elim: converse_rtranclE intro: converse_rtrancl_into_rtrancl)

lemma visited_sets:
  "insert c S \<union> Q = S \<union> W \<Longrightarrow> c \<in> W \<Longrightarrow> c \<notin> S \<Longrightarrow> insert c I \<union> (Q - insert c S) = I \<union> (W - S)"
  by blast

lemma flood_reach:
  assumes "flood adjacency queue seen island = (seen', island')"
    and "\<And>x. x \<in> set seen \<Longrightarrow> steps adjacency `` {x} \<subseteq> set seen \<union> set queue"
  shows "set seen' = set seen \<union> (steps adjacency)\<^sup>* `` set queue
     \<and> set island' = set island \<union> ((steps adjacency)\<^sup>* `` set queue - set seen)"
  using assms
proof (induction adjacency queue seen island arbitrary: seen' island' rule: flood.induct)
  case (2 adjacency current queue seen island)
  let ?R = "steps adjacency"
  let ?seen = "set_insert current seen"
  let ?queue = "queue @ filter (\<lambda>n. n \<notin> set ?seen) (neighbours adjacency current)"
  have split: "?R\<^sup>* `` set (current # queue) = ?R\<^sup>* `` {current} \<union> ?R\<^sup>* `` set queue" by auto
  show ?case
  proof (cases "current \<in> set seen")
    case True
    have closed: "?R `` {x} \<subseteq> set seen \<union> set queue" if "x \<in> set seen" for x
      using "2.prems"(2) [OF that] True by auto
    have "?R\<^sup>* `` set seen \<subseteq> set seen \<union> ?R\<^sup>* `` set queue"
      by (rule closed_reach) (rule closed)
    then have "?R\<^sup>* `` {current} \<subseteq> set seen \<union> ?R\<^sup>* `` set queue" using True by auto
    then show ?thesis
      using "2.IH"(1) [OF True _ closed] "2.prems"(1) True unfolding split by auto
  next
    case False
    have R: "?R `` {current} = set (neighbours adjacency current)" by (auto simp: steps_def)
    have closed: "?R `` {x} \<subseteq> set ?seen \<union> set ?queue" if "x \<in> set ?seen" for x
      using that "2.prems"(2) [of x] R by (cases "x = current") (auto simp: set_insort_insert)
    have returns: "?R\<^sup>* `` set ?seen \<subseteq> set ?seen \<union> ?R\<^sup>* `` set ?queue"
      by (rule closed_reach) (rule closed)
    have "?R\<^sup>* `` {current} = insert current (?R\<^sup>* `` set (neighbours adjacency current))"
      using reach_step [of ?R current] R by simp
    then have "set ?seen \<union> ?R\<^sup>* `` set ?queue = set seen \<union> ?R\<^sup>* `` set (current # queue)"
      using returns by (auto simp: set_insort_insert)
    moreover have "flood adjacency ?queue ?seen (set_insert current island) = (seen', island')"
      using "2.prems"(1) False by (simp add: Let_def)
    from "2.IH"(2) [OF False refl this closed]
    have "set seen' = set ?seen \<union> ?R\<^sup>* `` set ?queue"
      "set island' = insert current (set island) \<union> (?R\<^sup>* `` set ?queue - set ?seen)"
      by (simp_all add: set_insort_insert)
    moreover have "current \<in> ?R\<^sup>* `` set (current # queue)" by auto
    ultimately show ?thesis using visited_sets False by (simp only: set_insort_insert) blast
  qed
qed simp

section \<open>The islands\<close>

lemma sym_linked: "sym (linked t)"
  by (auto simp: linked_def sym_def)

lemma component_seen:
  assumes "sym R" "\<And>x. x \<in> S \<Longrightarrow> R `` {x} \<subseteq> S" "x \<notin> S"
  shows "R\<^sup>* `` {x} - S = R\<^sup>* `` {x}"
proof -
  have "x \<in> S" if "(x, y) \<in> R\<^sup>*" "y \<in> S" for y
  proof -
    have "(y, x) \<in> R\<^sup>*" using that(1) assms(1) by (metis sym_rtrancl symD)
    then show ?thesis
      using that(2) assms(2) by (induction rule: rtrancl_induct) auto
  qed
  then show ?thesis using assms(3) by auto
qed

lemma image_classes:
  assumes "s \<notin> S" "\<And>x. x \<in> f s \<Longrightarrow> f x = f s"
  shows "f ` (insert s Y - S) = insert (f s) (f ` (Y - (S \<union> f s)))"
proof (intro equalityI subsetI)
  fix y assume "y \<in> f ` (insert s Y - S)"
  then obtain x where x: "y = f x" "x \<in> insert s Y - S" by blast
  then show "y \<in> insert (f s) (f ` (Y - (S \<union> f s)))" using assms(2) [of x] by (cases "x \<in> f s") auto
qed (use assms(1) in auto)

lemma islands_from_components:
  assumes "sym (steps adjacency)" "\<And>x. x \<in> set seen \<Longrightarrow> steps adjacency `` {x} \<subseteq> set seen"
  shows "set (map set (islands_from adjacency xs seen))
       = (\<lambda>x. (steps adjacency)\<^sup>* `` {x}) ` (set xs - set seen)
     \<and> distinct (map set (islands_from adjacency xs seen))"
  using assms
proof (induction adjacency xs seen rule: islands_from.induct)
  case (2 adjacency start rest seen)
  let ?R = "steps adjacency"
  show ?case
  proof (cases "start \<in> set seen")
    case True
    then show ?thesis using "2.IH"(1) "2.prems" by (simp add: insert_Diff_if)
  next
    case False
    obtain seen' island where f: "flood adjacency [start] seen [] = (seen', island)" by fastforce
    have S: "set seen' = set seen \<union> ?R\<^sup>* `` {start}" and I: "set island = ?R\<^sup>* `` {start}"
      using flood_reach [OF f] component_seen [OF "2.prems"(1), of "set seen" start] "2.prems"(2) False by auto
    have closed: "?R `` {x} \<subseteq> set seen'" if "x \<in> set seen'" for x
      using that "2.prems"(2) [of x] S by (auto intro: rtrancl_into_rtrancl)
    have IH: "set (map set (islands_from adjacency rest seen')) = (\<lambda>x. ?R\<^sup>* `` {x}) ` (set rest - set seen')"
      "distinct (map set (islands_from adjacency rest seen'))"
      using "2.IH"(2) [OF False f [symmetric] refl] "2.prems"(1) closed by simp_all
    have same: "?R\<^sup>* `` {x} = ?R\<^sup>* `` {start}" if "x \<in> ?R\<^sup>* `` {start}" for x
    proof -
      have "(x, start) \<in> ?R\<^sup>*" using that "2.prems"(1) by (metis Image_singleton_iff sym_rtrancl symD)
      with that show ?thesis by (auto intro: rtrancl_trans)
    qed
    have new: "?R\<^sup>* `` {x} \<noteq> ?R\<^sup>* `` {start}" if "x \<notin> set seen'" for x
      using that S by auto
    have "(\<lambda>x. ?R\<^sup>* `` {x}) ` (set (start # rest) - set seen)
        = insert (?R\<^sup>* `` {start}) ((\<lambda>x. ?R\<^sup>* `` {x}) ` (set rest - set seen'))"
      unfolding S list.set by (rule image_classes) (use False same in blast)+
    moreover have "islands_from adjacency (start # rest) seen = island # islands_from adjacency rest seen'"
      using f False by simp
    moreover have "?R\<^sup>* `` {start} \<notin> set (map set (islands_from adjacency rest seen'))"
      unfolding IH(1) using new by blast
    ultimately show ?thesis
      using I IH by (simp only: list.map list.set distinct.simps simp_thms)
  qed
qed simp

lemma islands_components:
  "set (map set (islands_without_us t)) = component t ` set (everyone t)"
  "distinct (map set (islands_without_us t))"
  using islands_from_components [of "adjacency_of t" "[]" "everyone t"] sym_linked [of t]
  by (simp_all add: adjacency_steps islands_without_us_def component_def)

lemma everyone_set: "set (everyone t) = set (tp_direct t) \<union> set (gossiped t)"
  by (simp add: everyone_def)

text \<open>What \<open>build\<close> keeps: sorted sets, and nobody claims us or itself.\<close>

definition topology_ok :: "text_bytes \<Rightarrow> text_bytes set \<Rightarrow> topology \<Rightarrow> bool" where
  "topology_ok us ids t \<longleftrightarrow>
     tp_us t = us \<and> sorted (tp_direct t) \<and> distinct (tp_direct t) \<and> set (tp_direct t) = ids
     \<and> keys_sorted (tp_claims t) \<and> fst ` set (tp_claims t) = ids
     \<and> (\<forall>(peer, theirs) \<in> set (tp_claims t). us \<notin> set theirs)"

lemma map_insert_set: "set (map_insert k v ms) \<subseteq> insert (k, v) (set ms)"
  by (induction k v ms rule: map_insert.induct) auto

lemma claimed_not_us: "us \<notin> set (claimed_by unicode us peer claimed)"
  by (simp add: claimed_by_def notin_set_remove1)

lemma add_peer_ok:
  assumes "topology_ok us ids t"
  shows "topology_ok us (insert peer ids) (add_peer unicode (peer, nickname, claimed) t)"
  using assms map_insert_set [of peer "claimed_by unicode us peer claimed" "tp_claims t"] claimed_not_us [of us unicode peer claimed]
  by (auto simp: topology_ok_def set_insort_insert sorted_insort_insert distinct_insort_insert map_insert_sorted
      map_insert_keys [unfolded set_map])

lemma build_ok: "topology_ok us (fst ` set peers) (topology_build unicode us peers)"
proof -
  have "topology_ok us (ids \<union> fst ` set peers) (fold (add_peer unicode) peers t)" if "topology_ok us ids t" for ids t
    using that
  proof (induction peers arbitrary: ids t)
    case (Cons q peers)
    obtain peer nickname claimed where q: "q = (peer, nickname, claimed)" by (cases q)
    show ?case using Cons.IH [OF add_peer_ok [OF Cons.prems, of peer unicode nickname claimed]]
      by (simp add: q)
  qed simp
  from this [of "{}" "\<lparr>tp_us = us, tp_direct = [], tp_claims = [], tp_names = []\<rparr>"] show ?thesis
    by (simp add: topology_build_def topology_ok_def)
qed

section \<open>The picture the client draws\<close>

text \<open>The main loop builds the picture from the registry (main.rs).\<close>

definition mesh_topology :: "env \<Rightarrow> mesh \<Rightarrow> topology" where
  "mesh_topology v m =
     topology_build (ev_unicode v) (ms_my_id m)
       (map (\<lambda>p. (mp_id p, mp_nickname p, mp_claims p)) (map snd (ms_peers m)))"

lemma registry_ids:
  assumes "mesh_ok v m"
  shows "mp_id ` set (map snd (ms_peers m)) = fst ` set (ms_peers m)" "ms_my_id m \<notin> fst ` set (ms_peers m)"
proof -
  have reg: "distinct (map fst (ms_peers m))" "\<And>i p. map_of (ms_peers m) i = Some p \<Longrightarrow> mp_id p = i \<and> i \<noteq> ms_my_id m"
    using mesh_okD(4) [OF assms] by (auto simp: registry_ok_def peer_ok_def)
  then have each: "mp_id p = i \<and> i \<noteq> ms_my_id m" if "(i, p) \<in> set (ms_peers m)" for i p
    using that by simp
  then show "mp_id ` set (map snd (ms_peers m)) = fst ` set (ms_peers m)"
    by (force simp: image_iff)
  show "ms_my_id m \<notin> fst ` set (ms_peers m)" using each by (metis imageE prod.collapse)
qed

lemma mesh_topology_ok:
  "mesh_ok v m \<Longrightarrow> topology_ok (ms_my_id m) (fst ` set (ms_peers m)) (mesh_topology v m)"
  using build_ok [of "ms_my_id m" "map (\<lambda>p. (mp_id p, mp_nickname p, mp_claims p)) (map snd (ms_peers m))" "ev_unicode v"]
    registry_ids(1) [of v m]
  by (simp add: mesh_topology_def image_image)

lemma us_not_gossiped: "topology_ok us ids t \<Longrightarrow> us \<notin> set (gossiped t)"
  by (fastforce simp: topology_ok_def gossiped_def)

section \<open>Properties\<close>

text \<open>
  C23.  The islands are the connected components: what the breadth-first search returns is,
  without repetition, exactly the set of components of the graph of claims among the peers
  we hear and the peers they name.
\<close>

theorem islands_are_components:
  "set (map set (islands_without_us t)) = component t ` set (everyone t)
     \<and> distinct (map set (islands_without_us t))"
  using islands_components by blast

text \<open>
  We are reported as a bridge exactly when some two peers are not connected by the
  claims alone.
\<close>

theorem bridge_iff_disconnected:
  "we_are_a_bridge t \<longleftrightarrow>
     (\<exists>a b. a \<in> set (everyone t) \<and> b \<in> set (everyone t) \<and> (a, b) \<notin> (linked t)\<^sup>*)"
proof -
  have len: "length (islands_without_us t) = card (component t ` set (everyone t))"
    using distinct_card [OF islands_components(2) [of t]] islands_components(1) [of t] by simp
  have same: "component t a = component t b \<longleftrightarrow> (a, b) \<in> (linked t)\<^sup>*" for a b
    using sym_rtrancl [OF sym_linked [of t]] by (auto simp: component_def sym_def intro: rtrancl_trans)
  have "card (component t ` set (everyone t)) \<le> 1 \<longleftrightarrow>
      (\<forall>a \<in> set (everyone t). \<forall>b \<in> set (everyone t). component t a = component t b)"
    by (auto simp: card_le_Suc0_iff_eq)
  then show ?thesis by (auto simp: we_are_a_bridge_def len same not_less [symmetric])
qed

text \<open>
  The picture of a well-formed mesh shows everybody once: ourselves first, then every
  peer on file as a direct neighbour, then the peers they name, without a repetition; and no
  claim drawn leads to us.
\<close>

theorem picture_shows_everybody_once:
  assumes "mesh_ok v m"
  shows "distinct (map nd_id (topology_nodes (mesh_topology v m)))
     \<and> nd_id (hd (topology_nodes (mesh_topology v m))) = ms_my_id m
     \<and> set (tp_direct (mesh_topology v m)) = dom (map_of (ms_peers m))
     \<and> (\<nexists>e. e \<in> set (topology_edges (mesh_topology v m)) \<and> \<not> ed_observed e
            \<and> (ed_from e = ms_my_id m \<or> ed_to e = ms_my_id m))"
proof -
  let ?t = "mesh_topology v m"
  note ok = mesh_topology_ok [OF assms]
  have direct: "distinct (tp_direct ?t)" "set (tp_direct ?t) = fst ` set (ms_peers m)" "tp_us ?t = ms_my_id m"
    using ok by (simp_all add: topology_ok_def)
  have us: "ms_my_id m \<notin> set (tp_direct ?t)" "ms_my_id m \<notin> set (gossiped ?t)"
    using direct registry_ids(2) [OF assms] us_not_gossiped [OF ok] by simp_all
  have "set (gossiped ?t) \<inter> set (tp_direct ?t) = {}" "distinct (gossiped ?t)"
    by (auto simp: gossiped_def)
  then have nodes: "distinct (map nd_id (topology_nodes ?t))"
    using us direct by (auto simp: topology_nodes_def comp_def)
  have "a \<noteq> ms_my_id m \<and> b \<noteq> ms_my_id m" if "(a, b) \<in> set (claimed_pairs ?t)" for a b
  proof -
    from that obtain peer theirs i where c: "(peer, theirs) \<in> set (tp_claims ?t)" "i \<in> set theirs"
      and ab: "(a, b) = (if peer < i then (peer, i) else (i, peer))"
      by (auto simp: claimed_pairs_def)
    have "peer \<in> fst ` set (ms_peers m)" "i \<noteq> ms_my_id m"
      using ok c by (force simp: topology_ok_def)+
    moreover from this registry_ids(2) [OF assms] have "peer \<noteq> ms_my_id m" by metis
    ultimately show ?thesis using ab by (simp split: if_splits)
  qed
  then show ?thesis
    using nodes direct by (auto simp: topology_edges_def topology_nodes_def dom_map_of_conv_image_fst)
qed

theorem picture_shows_everybody_once_witness:
  "set (tp_direct (mesh_topology demo_env acquainted)) = {demo_id}"
  using picture_shows_everybody_once [OF acquainted_ok] by (simp add: acquainted_fields)

end
