(* ===== verification/Mesh_Exchange.thy ===== *)
theory Mesh_Exchange
  imports Mesh_Faults
begin

text \<open>
  Two services talking: what one builds is what the other reports.  An announce introduces
  its sender, a public message is then shown under that name, and a private message to a
  peer without a session goes out once the handshake it started is through.
\<close>

section \<open>Frames between two services\<close>

text \<open>An identifier as \<open>derive_peer_id\<close> makes them: eight bytes in hex.\<close>

definition proper_id :: "text_bytes \<Rightarrow> bool" where
  "proper_id i \<longleftrightarrow> (\<exists>x. length x = 8 \<and> i = hex_encode x)"

lemma hex_encode_take: "take (2 * n) (hex_encode bs) = hex_encode (take n bs)"
  by (induction bs arbitrary: n) (case_tac n; simp)+

lemma derived_id_proper: "length (sha key) = 32 \<Longrightarrow> proper_id (derive_peer_id sha key)"
  using hex_encode_take [of 8 "sha key"]
  by (auto simp: proper_id_def derive_peer_id_def key_fingerprint_def intro!: exI [of _ "take 8 (sha key)"])

lemma proper_id_bytes:
  "proper_id i \<Longrightarrow> length (peer_id_to_bytes i) = 8 \<and> hex_encode (peer_id_to_bytes i) = i"
  by (auto simp: proper_id_def peer_id_to_bytes_def)

lemma encode_arrives:
  assumes "wf_packet p" "p_version p = 1" "p_route p = None" "length (p_payload p) < 65536"
  shows "\<exists>f. encode p = Some f \<and> (\<forall>d. decode d f = Some p)"
proof -
  have route: "effective_route p = []" using assms(2,3) by (simp add: effective_route_def)
  have "encodable p" using assms(2,4) route by (simp add: encodable_def)
  then obtain f where f: "encode p = Some f" by (auto simp: encode_def encode_with_padding_eq)
  have "canonical p = p" using route assms(3) by (simp add: canonical_def)
  then have "decode d f = Some p" for d
    using roundtrip [of p True f d] assms(1,4) f by (simp add: encode_def MAX_FRAMED_PAYLOAD_def)
  with f show ?thesis by blast
qed

lemma parsed_type_code [simp]: "from_u8 (message_code t) = Some t"
  by (cases t) (simp_all add: from_u8_def)

lemma noise_frame_arrives:
  assumes "proper_id (ms_my_id m)" "proper_id recipient" "length payload < 65536"
  shows "\<exists>f p. noise_frame t m kind recipient payload = Some f \<and> (\<forall>d. decode d f = Some p)
     \<and> sender_hex p = ms_my_id m \<and> recipient_hex p = Some recipient \<and> p_payload p = payload
     \<and> parsed_type p = Some kind"
proof -
  let ?p = "with_recipient (packet_new kind (sender_bytes m) payload MESSAGE_TTL (ck_ms t)) (peer_id_to_bytes recipient)"
  note ids = proper_id_bytes [OF assms(1)] proper_id_bytes [OF assms(2)]
  obtain f where "encode ?p = Some f \<and> (\<forall>d. decode d f = Some ?p)"
    using encode_arrives [of ?p] ids assms(3)
    by (auto simp: wf_packet_def with_recipient_def packet_new_def sender_bytes_def)
  moreover have "sender_hex ?p = ms_my_id m" "recipient_hex ?p = Some recipient" "p_payload ?p = payload"
    "parsed_type ?p = Some kind"
    using ids by (simp_all add: with_recipient_def packet_new_def sender_bytes_def sender_hex_def recipient_hex_def
        parsed_type_def)
  ultimately show ?thesis unfolding noise_frame_def by blast
qed

text \<open>A frame from a peer that is neither ourselves nor blocked reaches its handler.\<close>

lemma handle_frame_typed:
  assumes "decode (ev_decompress v) f = Some p" "sender_hex p \<noteq> ms_my_id m" "\<not> is_blocked v (sender_hex p) m"
    and "\<not> ms_debug m" "parsed_type p \<noteq> Some Fragment"
  shows "handle_frame v t e f m = Some (handle_typed v t e p m)"
  using handle_packet_typed [OF assms(2,3,5), of t e] assms(1,4)
  by (simp add: handle_frame_def received_trace_def)

section \<open>Signed frames\<close>

text \<open>What Ed25519 promises: a signature made with a key verifies under its public half.\<close>

definition ed_ok :: "env \<Rightarrow> bool" where
  "ed_ok v \<longleftrightarrow>
     (\<forall>k b. length (ev_sign v k b) = 64 \<and> ev_check v (ev_verifying v k) b (ev_sign v k b))
     \<and> (\<forall>k. length (ev_verifying v k) = 32 \<and> ev_key_ok v (ev_verifying v k))"

text \<open>A service under its own identifier, with a nickname it can announce.\<close>

definition self_ok :: "env \<Rightarrow> mesh \<Rightarrow> bool" where
  "self_ok v m \<longleftrightarrow>
     ms_my_id m = derive_peer_id (sha256 (ev_crypto v)) (ms_noise_public m) \<and> length (ms_noise_public m) = 32
     \<and> utf8_valid (ms_nickname m) \<and> length (ms_nickname m) \<le> MAX_NICKNAME_BYTES"

lemma mesh_new_self:
  "dh_ok (ev_crypto v) \<Longrightarrow> utf8_valid nickname \<Longrightarrow> self_ok v (mesh_new v k s nickname)"
  using truncate_nickname_length [of nickname] truncate_nickname_utf8 [of nickname]
  by (simp add: self_ok_def mesh_new_def Let_def dh_ok_def)

lemma own_frame_arrives:
  assumes "ed_ok v" "proper_id (ms_my_id m)" "length payload < 65536"
  shows "\<exists>q f. own_sign v m (packet_new kind (sender_bytes m) payload MESSAGE_TTL ts) = (True, q)
     \<and> encode q = Some f \<and> (\<forall>d. decode d f = Some q) \<and> sender_hex q = ms_my_id m \<and> p_payload q = payload
     \<and> parsed_type q = Some kind \<and> p_timestamp q = ts \<and> verify_with v q (ev_verifying v (ms_signing_key m))"
proof -
  let ?p = "packet_new kind (sender_bytes m) payload MESSAGE_TTL ts"
  note id = proper_id_bytes [OF assms(2)]
  have "encodable ?p" using assms(3) by (simp add: encodable_def packet_new_def effective_route_def)
  then obtain b where b: "signing_bytes ?p = Some b"
    by (auto simp: unsigned_facts encode_with_padding_eq)
  obtain q where q: "q = ?p\<lparr>p_signature := Some (ev_sign v (ms_signing_key m) b)\<rparr>" by simp
  have "signing_bytes q = Some b" using b by (simp add: q signing_bytes_def)
  then have "verify_with v q (ev_verifying v (ms_signing_key m))"
    using assms(1) by (simp add: verify_with_def verify_packet_def q ed_ok_def)
  moreover obtain f where "encode q = Some f \<and> (\<forall>d. decode d f = Some q)"
    using encode_arrives [of q] id assms(1,3) by (auto simp: q wf_packet_def packet_new_def sender_bytes_def ed_ok_def)
  moreover have "own_sign v m ?p = (True, q)" by (simp add: own_sign_def sign_packet_def b q)
  ultimately show ?thesis
    using id by (auto simp: q packet_new_def sender_hex_def sender_bytes_def parsed_type_def)
qed

section \<open>Introductions\<close>

lemma announce_frame_arrives:
  assumes "ed_ok v" "\<And>d. length (sha256 (ev_crypto v) d) = 32" "self_ok v m"
  shows "\<exists>f q a m'. announce_frame v t m = (Some f, m') \<and> (\<forall>d. decode d f = Some q) \<and> sender_hex q = ms_my_id m
     \<and> parsed_type q = Some Announce \<and> announcement_decode (p_payload q) = Some a
     \<and> an_nickname a = ms_nickname m \<and> an_noise_public_key a = ms_noise_public m
     \<and> an_signing_public_key a = ev_verifying v (ms_signing_key m)
     \<and> verify_with v q (ev_verifying v (ms_signing_key m))
     \<and> ms_my_id m' = ms_my_id m \<and> ms_signing_key m' = ms_signing_key m \<and> ms_nickname m' = ms_nickname m"
proof -
  let ?claimed = "if ms_gateway_ready m then cap_with ADVERTISED cap_gateway else ADVERTISED"
  let ?a = "with_capabilities (announcement_new (ms_nickname m) (ms_noise_public m) (ev_verifying v (ms_signing_key m))) ?claimed"
  have id: "proper_id (ms_my_id m)"
    using assms(2,3) derived_id_proper by (simp add: self_ok_def)
  have claimed: "?claimed < 0x1000000" by (simp add: ADVERTISED_def cap_with_def cap_gateway_def)
  have keys: "length (ev_verifying v (ms_signing_key m)) = 32" using assms(1) by (simp add: ed_ok_def)
  obtain d where d: "announcement_encode ?a = Some d" "announcement_decode d = Some ?a"
    using own_announcement [OF _ _ keys claimed, of "ms_nickname m" "ms_noise_public m"] assms(3)
    by (auto simp: self_ok_def)
  have "wf_announcement ?a"
    using assms(3) keys truncate_nickname_length [of "ms_nickname m"] truncate_nickname_utf8 [of "ms_nickname m"]
    by (simp add: wf_announcement_def with_capabilities_def announcement_new_def self_ok_def)
  from announcement_travels [OF this] d(1) have "length d < 65536" by (auto simp: COMPRESSION_THRESHOLD_def)
  from own_frame_arrives [OF assms(1) id this, of Announce "ck_ms t"] obtain q f
    where q: "own_sign v m (packet_new Announce (sender_bytes m) d MESSAGE_TTL (ck_ms t)) = (True, q)"
      "encode q = Some f" "\<forall>d. decode d f = Some q" "sender_hex q = ms_my_id m" "p_payload q = d"
      "parsed_type q = Some Announce" "verify_with v q (ev_verifying v (ms_signing_key m))" by blast
  have "an_nickname ?a = ms_nickname m"
    using assms(3) by (simp add: with_capabilities_def announcement_new_def truncate_nickname_def self_ok_def)
  moreover have "an_noise_public_key ?a = ms_noise_public m"
    "an_signing_public_key ?a = ev_verifying v (ms_signing_key m)"
    by (simp_all add: with_capabilities_def announcement_new_def)
  ultimately show ?thesis
    using d q by (simp add: announce_frame_def archive_packet_def)
qed

lemma announce_introduces:
  assumes "sender_hex q = i" "parsed_type q = Some Announce" "announcement_decode (p_payload q) = Some a"
    and "derive_peer_id (sha256 (ev_crypto v)) (an_noise_public_key a) = i"
    and "verify_with v q (an_signing_public_key a)" "map_of (ms_peers m) i = None"
  shows "\<exists>m' p. handle_typed v t e q m = ([PeerAppeared i (an_nickname a)], m') \<and> map_of (ms_peers m') i = Some p
     \<and> mp_nickname p = an_nickname a \<and> mp_signing_key p = an_signing_public_key a
     \<and> same_policy m m' \<and> ms_debug m' = ms_debug m \<and> ms_seen m' = ms_seen m"
  using assms by (simp add: handle_typed_def handle_announce_def announced_peer_def archive_packet_def Let_def update_conv')

lemma remember_twice:
  assumes "(sender_hex q, p_timestamp q, c) \<notin> ring_set (ms_seen m)" "ring_valid SEEN_LIMIT (ms_seen m)"
  shows "\<exists>m1. remember_packet q c m = (True, m1) \<and> ms_peers m1 = ms_peers m \<and> same_policy m m1
     \<and> ms_debug m1 = ms_debug m \<and> (sender_hex q, p_timestamp q, c) \<in> ring_set (ms_seen m1)"
proof -
  let ?x = "(sender_hex q, p_timestamp q, c)"
  let ?r = "snd (pop_insert SEEN_LIMIT ?x (ms_seen m))"
  have "?x \<in> set (ring_order ?r)"
    using remembered.add_fresh [OF assms(2), of ?x] assms by (simp add: ring_valid_def SEEN_LIMIT_def)
  moreover have "ring_valid SEEN_LIMIT ?r" using remembered.valid_add [OF assms(2)] .
  ultimately have "?x \<in> ring_set ?r" by (simp add: ring_valid_def)
  moreover obtain m1 where m1: "remember_packet q c m = (True, m1)" using remember_new [OF assms(1)] by blast
  then have "m1 = m\<lparr>ms_seen := ?r\<rparr>" by (simp add: remember_packet_def split_beta)
  ultimately show ?thesis using m1 by simp
qed

lemma message_shown:
  assumes "parsed_type q = Some Message" "utf8_valid (p_payload q)"
    and "map_of (ms_peers m) (sender_hex q) = Some p" "verify_with v q (mp_signing_key p)"
    and "(sender_hex q, p_timestamp q, p_payload q) \<notin> ring_set (ms_seen m)" "ring_valid SEEN_LIMIT (ms_seen m)"
  shows "\<exists>m'. handle_typed v t e q m = ([PublicMessage (sender_hex q) (mp_nickname p) (p_payload q) (p_timestamp q)], m')
     \<and> same_policy m m' \<and> ms_debug m' = ms_debug m
     \<and> (sender_hex q, p_timestamp q, p_payload q) \<in> ring_set (ms_seen m')"
proof -
  from remember_twice [OF assms(5,6)] obtain m1 where m1: "remember_packet q (p_payload q) m = (True, m1)"
    "ms_peers m1 = ms_peers m" "same_policy m m1" "ms_debug m1 = ms_debug m"
    "(sender_hex q, p_timestamp q, p_payload q) \<in> ring_set (ms_seen m1)" by blast
  then show ?thesis
    using assms(1-4)
    by (simp add: handle_typed_def handle_public_message_def touch_def archive_packet_def Let_def)
qed

lemma message_repeated:
  assumes "parsed_type q = Some Message" "utf8_valid (p_payload q)"
    and "(sender_hex q, p_timestamp q, p_payload q) \<in> ring_set (ms_seen m)"
  shows "handle_typed v t e q m = ([], m)"
  using assms by (simp add: handle_typed_def handle_public_message_def remember_packet_def pop_insert_def Let_def)

section \<open>Properties\<close>

text \<open>
  C6.  Who introduced itself is heard under its name: after a service's announce a peer
  lists it, the next public message of the service is shown there under the announced
  nickname, and a second copy of the same frame, as relays deliver it, is not shown again.
\<close>

theorem introduced_then_heard:
  assumes "ed_ok v" "\<And>d. length (sha256 (ev_crypto v) d) = 32" "self_ok v A"
    and "ms_my_id A \<noteq> ms_my_id B" "\<not> is_blocked v (ms_my_id A) B" "\<not> ms_debug B"
    and "map_of (ms_peers B) (ms_my_id A) = None" "ring_valid SEEN_LIMIT (ms_seen B)"
    and "content \<noteq> []" "length content \<le> 99" "utf8_valid content"
    and "(ms_my_id A, ck_ms (tick 0), content) \<notin> ring_set (ms_seen B)"
  shows "\<exists>f A1 B1 g A2 B2.
     announce_frame v t A = (Some f, A1)
     \<and> handle_frame v u e f B = Some ([PeerAppeared (ms_my_id A) (ms_nickname A)], B1)
     \<and> public_message_frames v tick content A1 = Some ([g], A2)
     \<and> handle_frame v u' e' g B1 = Some ([PublicMessage (ms_my_id A) (ms_nickname A) content (ck_ms (tick 0))], B2)
     \<and> handle_frame v u'' e'' g B2 = Some ([], B2)"
proof -
  from announce_frame_arrives [OF assms(1-3), of t] obtain f q a A1
    where f: "announce_frame v t A = (Some f, A1)" "\<forall>d. decode d f = Some q"
      and q: "sender_hex q = ms_my_id A" "parsed_type q = Some Announce" "announcement_decode (p_payload q) = Some a"
      and a: "an_nickname a = ms_nickname A" "an_noise_public_key a = ms_noise_public A"
        "an_signing_public_key a = ev_verifying v (ms_signing_key A)"
      and ver: "verify_with v q (ev_verifying v (ms_signing_key A))"
      and A1: "ms_my_id A1 = ms_my_id A" "ms_signing_key A1 = ms_signing_key A" "ms_nickname A1 = ms_nickname A"
    by blast
  have "derive_peer_id (sha256 (ev_crypto v)) (an_noise_public_key a) = ms_my_id A"
    using assms(3) a(2) by (simp add: self_ok_def)
  from announce_introduces [OF q this, of B u e] ver a assms(7) obtain B1 p
    where B1: "handle_typed v u e q B = ([PeerAppeared (ms_my_id A) (ms_nickname A)], B1)"
      and p: "map_of (ms_peers B1) (ms_my_id A) = Some p" "mp_nickname p = ms_nickname A"
        "mp_signing_key p = ev_verifying v (ms_signing_key A)"
      and same: "same_policy B B1" "ms_debug B1 = ms_debug B" "ms_seen B1 = ms_seen B" by auto
  have 1: "handle_frame v u e f B = Some ([PeerAppeared (ms_my_id A) (ms_nickname A)], B1)"
    using handle_frame_typed [of v f q B u e] f(2) q B1 assms(4-6) by simp
  have "proper_id (ms_my_id A1)" using assms(2,3) derived_id_proper A1(1) by (simp add: self_ok_def)
  from own_frame_arrives [OF assms(1) this, of content Message "ck_ms (tick 0)"] assms(10) obtain r g
    where g: "own_sign v A1 (packet_new Message (sender_bytes A1) content MESSAGE_TTL (ck_ms (tick 0))) = (True, r)"
      "encode r = Some g" "\<forall>d. decode d g = Some r"
      and r: "sender_hex r = ms_my_id A" "p_payload r = content" "parsed_type r = Some Message"
        "p_timestamp r = ck_ms (tick 0)" "verify_with v r (mp_signing_key p)"
    using A1 p(3) by auto
  have 2: "\<exists>A2. public_message_frames v tick content A1 = Some ([g], A2)"
    using g assms(9,10)
    by (simp add: public_message_frames_def split_for_signing_def split_into_chunks_def public_message_frame_def)
  from message_shown [of r B1 p v u' e'] r p assms(8,11,12) same obtain B2
    where B2: "handle_typed v u' e' r B1 = ([PublicMessage (ms_my_id A) (ms_nickname A) content (ck_ms (tick 0))], B2)"
      "same_policy B1 B2" "ms_debug B2 = ms_debug B1"
      "(sender_hex r, p_timestamp r, p_payload r) \<in> ring_set (ms_seen B2)" by auto
  have blk: "is_blocked v i B1 = is_blocked v i B" "is_blocked v i B2 = is_blocked v i B" for i
    using same(1) B2(2) by (simp_all add: is_blocked_def)
  have 3: "handle_frame v u' e' g B1 = Some ([PublicMessage (ms_my_id A) (ms_nickname A) content (ck_ms (tick 0))], B2)"
    using handle_frame_typed [of v g r B1 u' e'] g(3) r B2(1) same blk assms(4-6) by simp
  have "handle_frame v u'' e'' g B2 = Some ([], B2)"
    using handle_frame_typed [of v g r B2 u'' e''] message_repeated [of r B2 v u'' e''] g(3) r B2(2-4) same blk assms(4-6,11)
    by simp
  with f(1) 1 2 3 show ?thesis by blast
qed

text \<open>Two services with outside code that satisfies the hypotheses.\<close>

definition meet_env :: env where
  "meet_env = demo_env\<lparr>ev_verifying := (\<lambda>_. replicate 32 5)\<rparr>"

abbreviation (input) alice :: mesh where "alice \<equiv> mesh_new meet_env [1] [1] [97]"
abbreviation (input) bob :: mesh where "bob \<equiv> mesh_new meet_env [2] [2] [98]"

lemma meet_env_crypto: "ev_crypto meet_env = demo_crypto\<lparr>sha256 := pad32\<rparr>"
  by (simp add: meet_env_def demo_env_def)

lemma meet_env_ok:
  "ed_ok meet_env" "aead_ok (ev_crypto meet_env)" "dh_ok (ev_crypto meet_env)"
  "length (sha256 (ev_crypto meet_env) d) = 32"
  using demo_aead_ok demo_dh_ok
  by (simp_all add: ed_ok_def meet_env_crypto aead_ok_def dh_ok_def pad32_def)
    (simp_all add: meet_env_def demo_env_def)

lemma meet_ids: "ms_my_id alice \<noteq> ms_my_id bob"
  by code_simp

lemma fresh_mesh:
  "ms_peers (mesh_new v k s n) = []" "ms_seen (mesh_new v k s n) = ring_empty" "\<not> ms_debug (mesh_new v k s n)"
  "\<not> is_blocked v' i (mesh_new v k s n)" "ms_pending (mesh_new v k s n) i = None"
  "mg_sessions (ms_sessions (mesh_new v k s n)) i = None" "mg_local_static (ms_sessions (mesh_new v k s n)) = s"
  by (simp_all add: mesh_new_def Let_def is_blocked_def listed_def manager_new_def)

theorem introduced_then_heard_witness:
  "\<exists>B1 g B2. handle_frame meet_env demo_clock [] g B1
      = Some ([PublicMessage (ms_my_id alice) (ms_nickname alice) [104, 105] 0], B2)
     \<and> handle_frame meet_env demo_clock [] g B2 = Some ([], B2)"
proof -
  have words: "utf8_valid [97]" "utf8_valid [104, 105]" by (rule utf8_valid_ascii, simp)+
  have "self_ok meet_env alice" using mesh_new_self [OF meet_env_ok(3) words(1)] .
  from introduced_then_heard [OF meet_env_ok(1,4) this meet_ids fresh_mesh(4,3) _ _ _ _ words(2), where tick = "\<lambda>_. demo_clock"
      and u' = demo_clock and e' = "[]" and u'' = demo_clock and e'' = "[]"]
  obtain B1 g B2 where "handle_frame meet_env demo_clock [] g B1
      = Some ([PublicMessage (ms_my_id alice) (ms_nickname alice) [104, 105] (ck_ms demo_clock)], B2)"
    "handle_frame meet_env demo_clock [] g B2 = Some ([], B2)"
    by (simp add: fresh_mesh ring_valid_empty) (simp add: ring_empty_def, blast)
  then show ?thesis by (auto simp: demo_clock_def)
qed

end
