(* ===== verification/Mesh_Private.thy ===== *)
theory Mesh_Private
  imports Mesh_Exchange
begin

text \<open>
  A private message from one service to another it has no session with: the handshake the
  message starts, the delivery once it is through, and the receipt.
\<close>

section \<open>Addressed frames\<close>

text \<open>Two services that may hear each other.\<close>

definition may_hear :: "env \<Rightarrow> mesh \<Rightarrow> text_bytes \<Rightarrow> bool" where
  "may_hear v m peer \<longleftrightarrow> peer \<noteq> ms_my_id m \<and> \<not> is_blocked v peer m \<and> \<not> ms_debug m"

text \<open>What a frame carries, from whom and to whom.\<close>

definition carries :: "bytes \<Rightarrow> message_type \<Rightarrow> text_bytes \<Rightarrow> text_bytes \<Rightarrow> bytes \<Rightarrow> bool" where
  "carries f kind sender recipient payload \<longleftrightarrow>
     (\<exists>p. (\<forall>d. decode d f = Some p) \<and> sender_hex p = sender \<and> recipient_hex p = Some recipient
        \<and> p_payload p = payload \<and> parsed_type p = Some kind)"

lemma may_hear_update [simp]:
  "may_hear v (m\<lparr>ms_sessions := s\<rparr>) peer = may_hear v m peer"
  "may_hear v (m\<lparr>ms_pending := q\<rparr>) peer = may_hear v m peer"
  by (simp_all add: may_hear_def is_blocked_def)

lemma peer_nickname_update [simp]:
  "peer_nickname i (m\<lparr>ms_sessions := s\<rparr>) = peer_nickname i m"
  "peer_nickname i (m\<lparr>ms_pending := q\<rparr>) = peer_nickname i m"
  by (simp_all add: peer_nickname_def)

lemma noise_frame_carries:
  assumes "proper_id (ms_my_id m)" "proper_id recipient" "length payload < 65536"
  obtains f where "noise_frame t m kind recipient payload = Some f" "carries f kind (ms_my_id m) recipient payload"
  using noise_frame_arrives [OF assms, of t kind] unfolding carries_def by blast

lemma carried_handled:
  assumes "carries f kind peer me payload" "may_hear v m peer" "kind \<noteq> Fragment"
  obtains p where "handle_frame v t e f m = Some (handle_typed v t e p m)" "sender_hex p = peer"
    "recipient_hex p = Some me" "p_payload p = payload" "parsed_type p = Some kind"
proof -
  from assms(1) obtain p where p: "\<forall>d. decode d f = Some p" "sender_hex p = peer" "recipient_hex p = Some me"
    "p_payload p = payload" "parsed_type p = Some kind" unfolding carries_def by blast
  with handle_frame_typed [of v f p m t e] assms(2,3) that [of p] show thesis by (simp add: may_hear_def)
qed

section \<open>The handlers on frames that succeed\<close>

lemma handshake_answered:
  assumes "carries f NoiseHandshake peer (ms_my_id m) x" "may_hear v m peer"
    and "handle_incoming_handshake (ev_crypto v) e peer x (ms_sessions m) = (Inr (Some reply), s)"
    and "\<not> has_established_session peer s"
    and "noise_frame t (m\<lparr>ms_sessions := s\<rparr>) NoiseHandshake peer reply = Some g"
  shows "handle_frame v t e f m = Some ([Send g], m\<lparr>ms_sessions := s\<rparr>)"
proof -
  from carried_handled [OF assms(1,2), of t e] obtain p where "handle_frame v t e f m = Some (handle_typed v t e p m)"
    "sender_hex p = peer" "recipient_hex p = Some (ms_my_id m)" "p_payload p = x" "parsed_type p = Some NoiseHandshake"
    by blast
  with assms(3-5) show ?thesis
    by (simp add: handle_typed_def handle_noise_handshake_def addressed_to_us_def Let_def)
qed

text \<open>The message that completes the handshake sends what was queued for the peer.\<close>

lemma handshake_completed:
  assumes "carries f NoiseHandshake peer (ms_my_id m) x" "may_hear v m peer"
    and "handle_incoming_handshake (ev_crypto v) e peer x (ms_sessions m) = (Inr out, s)"
    and "has_established_session peer s" "drain_pending v t peer (m\<lparr>ms_sessions := s\<rparr>) = (events, m')"
  shows "handle_frame v t e f m = Some
     ((case out of Some r \<Rightarrow> (case noise_frame t (m\<lparr>ms_sessions := s\<rparr>) NoiseHandshake peer r of
                               Some g \<Rightarrow> [Send g] | None \<Rightarrow> [])
       | None \<Rightarrow> []) @ events, m')"
proof -
  from carried_handled [OF assms(1,2), of t e] obtain p where "handle_frame v t e f m = Some (handle_typed v t e p m)"
    "sender_hex p = peer" "recipient_hex p = Some (ms_my_id m)" "p_payload p = x" "parsed_type p = Some NoiseHandshake"
    by blast
  with assms(3-5) show ?thesis
    by (simp add: handle_typed_def handle_noise_handshake_def addressed_to_us_def Let_def)
qed

lemma payload_handled:
  assumes "carries f NoiseEncrypted peer (ms_my_id m) x" "may_hear v m peer"
    and "manager_decrypt (ev_crypto v) x peer (ms_sessions m) = (Inr (payload_encode q), s)"
  shows "handle_frame v t e f m = Some (handle_noise_payload v t peer q (m\<lparr>ms_sessions := s\<rparr>))"
proof -
  from carried_handled [OF assms(1,2), of t e] obtain p where "handle_frame v t e f m = Some (handle_typed v t e p m)"
    "sender_hex p = peer" "recipient_hex p = Some (ms_my_id m)" "p_payload p = x" "parsed_type p = Some NoiseEncrypted"
    by blast
  with assms(3) show ?thesis
    by (simp add: handle_typed_def handle_noise_encrypted_def addressed_to_us_def Let_def)
qed

lemma record_encodes:
  assumes "length i \<le> 255" "length content \<le> 255" "utf8_valid i" "utf8_valid content"
  obtains d where "pm_encode (pm_new i content) = Some d" "length d \<le> 514" "pm_decode d = Some (pm_new i content)"
proof -
  obtain d where d: "pm_encode (pm_new i content) = Some d"
    using assms(1,2) by (simp add: pm_encode_def pm_new_def MAX_TLV_VALUE_def)
  then have "length d \<le> 514"
    using assms(1,2) by (auto simp: pm_encode_def pm_new_def push_tlv1_def MAX_TLV_VALUE_def)
  with d pm_decode_encode [of "pm_new i content" d] assms(3,4) that show thesis by (simp add: pm_new_def)
qed

lemma message_opens_handshake:
  assumes "may_hear v m peer" "mg_sessions (ms_sessions m) peer = None" "ms_pending m peer = None"
    and "content \<noteq> []" "length content \<le> 255"
    and "initiate_handshake (ev_crypto v) e peer (ms_sessions m) = (Inr x, s)"
    and "m' = m\<lparr>ms_sessions := s, ms_pending := (ms_pending m)(peer \<mapsto> [pm_new (uuid 0) content])\<rparr>"
    and "noise_frame t m' NoiseHandshake peer x = Some f"
  shows "dm_frames v t e uuid peer content m = Some (Inr ([uuid 0], [f]), m')"
proof -
  have "dm_records uuid content = Some [pm_new (uuid 0) content]"
    using assms(4,5) by (simp add: dm_records_def split_into_chunks_def MAX_TLV_VALUE_def)
  then show ?thesis
    using assms(1-3,6-8)
    by (simp add: dm_frames_def may_hear_def has_established_session_def Let_def pm_new_def)
qed

lemma queued_record_sent:
  assumes "ms_pending m peer = Some [record]" "pm_encode record = Some d"
    and "manager_encrypt (ev_crypto v) (payload_encode \<lparr>np_kind = PrivateMessage, np_body = d\<rparr>) peer (ms_sessions m) = (Inr x, s)"
    and "m' = m\<lparr>ms_pending := (ms_pending m)(peer := None), ms_sessions := s\<rparr>"
    and "noise_frame t m' NoiseEncrypted peer x = Some g" "get_peer_fingerprint peer (ms_sessions m) = Some fp"
  shows "drain_pending v t peer m = ([SessionUp peer (peer_nickname peer m) fp, Send g], m')"
  using assms by (simp add: drain_pending_def sealed_record_frame_def Let_def)

lemma message_shown_and_acknowledged:
  assumes "pm_decode d = Some record" "parse_notice (pm_content record) = None"
    and "has_established_session peer (ms_sessions m)"
    and "manager_encrypt (ev_crypto v) (payload_encode (payload_receipt Delivered (pm_message_id record))) peer (ms_sessions m)
       = (Inr x, s)"
    and "noise_frame t (m\<lparr>ms_sessions := s\<rparr>) NoiseEncrypted peer x = Some r"
  shows "handle_noise_payload v t peer \<lparr>np_kind = PrivateMessage, np_body = d\<rparr> m
     = ([PrivateMessageFrom peer (peer_nickname peer m) (pm_content record) (pm_message_id record), Send r],
        m\<lparr>ms_sessions := s\<rparr>)"
  using assms
  by (simp add: handle_noise_payload_def handle_private_message_def acknowledge_message_def receipt_frame_def Let_def)

section \<open>Properties\<close>

text \<open>
  C5.  A private message reaches a peer there is no session with: sending it opens a
  handshake and keeps it, three frames take both services to an authenticated session, the
  message goes out with the third one, is shown to its recipient exactly as it was written,
  and the sender learns that it was delivered.
\<close>

theorem message_reaches_new_peer:
  fixes v :: env and A B :: mesh
  defines "c \<equiv> ev_crypto v" and "a \<equiv> ms_my_id A" and "b \<equiv> ms_my_id B"
  assumes "aead_ok c" "dh_ok c" "sound_key c si" "sound_key c sr" "sound_key c ei" "sound_key c er"
    and ids: "proper_id a" "proper_id b" and hear: "may_hear v A b" "may_hear v B a"
    and "mg_sessions (ms_sessions A) b = None" "mg_local_static (ms_sessions A) = si" "ms_pending A b = None"
    and "mg_sessions (ms_sessions B) a = None" "mg_local_static (ms_sessions B) = sr" "ms_pending B a = None"
    and "content \<noteq> []" "length content \<le> 255" "utf8_valid content" "parse_notice content = None"
    and "length (uuid 0) \<le> 255" "utf8_valid (uuid 0)"
  shows "\<exists>f1 A1 f2 B1 f3 g A2 B2 r B3 A3.
     dm_frames v t1 ei uuid b content A = Some (Inr ([uuid 0], [f1]), A1)
     \<and> handle_frame v t2 er f1 B = Some ([Send f2], B1)
     \<and> handle_frame v t3 ex f2 A1 = Some ([Send f3,
          SessionUp b (peer_nickname b A) (calculate_fingerprint c (public_key c sr)), Send g], A2)
     \<and> handle_frame v t4 ey f3 B1 = Some ([SessionUp a (peer_nickname a B) (calculate_fingerprint c (public_key c si))], B2)
     \<and> handle_frame v t5 ez g B2 = Some ([PrivateMessageFrom a (peer_nickname a B) content (uuid 0), Send r], B3)
     \<and> handle_frame v t6 ew r A2 = Some ([DeliveryUpdate (uuid 0) StatusDelivered], A3)"
proof -
  let ?rec = "pm_new (uuid 0) content" and ?ack = "payload_receipt Delivered (uuid 0)"
  obtain d where d: "pm_encode ?rec = Some d" "length d \<le> 514" "pm_decode d = Some ?rec"
    using record_encodes [OF assms(24,21,25,22)] .
  let ?msg = "\<lparr>np_kind = PrivateMessage, np_body = d\<rparr>"
  from xx_conversation [OF assms(4-9,14,15,17,18), of ex ey "payload_encode ?msg" "payload_encode ?ack"]
  obtain m1 S1 m2 T1 m3 S2 T2 x S3 T3 y S4 T4
    where 1: "initiate_handshake c ei b (ms_sessions A) = (Inr m1, S1)" "length m1 < 65536"
      and 2: "handle_incoming_handshake c er a m1 (ms_sessions B) = (Inr (Some m2), T1)" "\<not> has_established_session a T1"
        "length m2 < 65536"
      and 3: "handle_incoming_handshake c ex b m2 S1 = (Inr (Some m3), S2)" "has_established_session b S2" "length m3 < 65536"
        "get_peer_fingerprint b S2 = Some (calculate_fingerprint c (public_key c sr))"
      and 4: "handle_incoming_handshake c ey a m3 T1 = (Inr None, T2)" "has_established_session a T2"
        "get_peer_fingerprint a T2 = Some (calculate_fingerprint c (public_key c si))"
      and x: "manager_encrypt c (payload_encode ?msg) b S2 = (Inr x, S3)" "manager_decrypt c x a T2 = (Inr (payload_encode ?msg), T3)"
        "has_established_session a T3" "length x < 65536"
      and y: "manager_encrypt c (payload_encode ?ack) a T3 = (Inr y, T4)" "manager_decrypt c y b S3 = (Inr (payload_encode ?ack), S4)"
        "length y < 65536"
    using d(2) assms(24) by (force simp: payload_encode_def payload_receipt_def)
  let ?A1 = "A\<lparr>ms_sessions := S1, ms_pending := (ms_pending A)(b \<mapsto> [?rec])\<rparr>"
  let ?A2 = "?A1\<lparr>ms_sessions := S2, ms_pending := (ms_pending ?A1)(b := None), ms_sessions := S3\<rparr>"
  let ?B1 = "B\<lparr>ms_sessions := T1\<rparr>"
  let ?B2 = "?B1\<lparr>ms_sessions := T2, ms_pending := (ms_pending ?B1)(a := None)\<rparr>"
  have me: "ms_my_id A = a" "ms_my_id B = b" by (simp_all add: a_def b_def)
  obtain f1 where f1: "noise_frame t1 ?A1 NoiseHandshake b m1 = Some f1" "carries f1 NoiseHandshake a b m1"
    by (rule noise_frame_carries [of ?A1 b m1 t1]) (use ids me 1 in simp_all)
  obtain f2 where f2: "noise_frame t2 ?B1 NoiseHandshake a m2 = Some f2" "carries f2 NoiseHandshake b a m2"
    by (rule noise_frame_carries [of ?B1 a m2 t2]) (use ids me 2 in simp_all)
  obtain f3 where f3: "noise_frame t3 (?A1\<lparr>ms_sessions := S2\<rparr>) NoiseHandshake b m3 = Some f3" "carries f3 NoiseHandshake a b m3"
    by (rule noise_frame_carries [of "?A1\<lparr>ms_sessions := S2\<rparr>" b m3 t3]) (use ids me 3 in simp_all)
  obtain g where g: "noise_frame t3 ?A2 NoiseEncrypted b x = Some g" "carries g NoiseEncrypted a b x"
    by (rule noise_frame_carries [of ?A2 b x t3]) (use ids me x in simp_all)
  obtain r where r: "noise_frame t5 (?B2\<lparr>ms_sessions := T3, ms_sessions := T4\<rparr>) NoiseEncrypted a y = Some r"
    "carries r NoiseEncrypted b a y"
    by (rule noise_frame_carries [of "?B2\<lparr>ms_sessions := T3, ms_sessions := T4\<rparr>" a y t5]) (use ids me y in simp_all)
  have "dm_frames v t1 ei uuid b content A = Some (Inr ([uuid 0], [f1]), ?A1)"
    by (rule message_opens_handshake [where x = m1 and s = S1]) (use hear(1) assms(14,16,20,21) 1 f1(1) in \<open>simp_all add: c_def\<close>)
  moreover have "handle_frame v t2 er f1 B = Some ([Send f2], ?B1)"
    using handshake_answered [of f1 a B m1 v er m2 T1 t2 f2] f1(2) f2(1) hear(2) 2 me by (simp add: c_def)
  moreover have "drain_pending v t3 b (?A1\<lparr>ms_sessions := S2\<rparr>)
      = ([SessionUp b (peer_nickname b A) (calculate_fingerprint c (public_key c sr)), Send g], ?A2)"
    using queued_record_sent [of "?A1\<lparr>ms_sessions := S2\<rparr>" b ?rec d v x S3 ?A2 t3 g] d(1) x(1) g(1) 3(4) by (simp add: c_def)
  then have "handle_frame v t3 ex f2 ?A1 = Some ([Send f3,
      SessionUp b (peer_nickname b A) (calculate_fingerprint c (public_key c sr)), Send g], ?A2)"
    using handshake_completed [of f2 b ?A1 m2 v ex "Some m3" S2 t3] f2(2) f3(1) hear(1) 3 me by (simp add: c_def)
  moreover have "handle_frame v t4 ey f3 ?B1 = Some ([SessionUp a (peer_nickname a B) (calculate_fingerprint c (public_key c si))], ?B2)"
    using handshake_completed [of f3 a ?B1 m3 v ey None T2 t4] f3(2) hear(2) 4 me assms(19) by (simp add: c_def drain_pending_def)
  moreover have "handle_frame v t5 ez g ?B2 = Some ([PrivateMessageFrom a (peer_nickname a B) content (uuid 0), Send r],
      ?B2\<lparr>ms_sessions := T3, ms_sessions := T4\<rparr>)"
    using payload_handled [of g a ?B2 x v ?msg T3 t5 ez] g(2) hear(2) x me r(1)
      message_shown_and_acknowledged [of d ?rec a "?B2\<lparr>ms_sessions := T3\<rparr>" v y T4 t5 r] d(3) assms(23) y(1)
    by (simp add: c_def pm_new_def)
  moreover have "handle_frame v t6 ew r ?A2 = Some ([DeliveryUpdate (uuid 0) StatusDelivered], ?A2\<lparr>ms_sessions := S4\<rparr>)"
    using payload_handled [of r b ?A2 y v ?ack S4 t6 ew] r(2) hear(1) y(2) me assms(25)
    by (simp add: c_def handle_noise_payload_def payload_receipt_def payload_message_id_def)
  ultimately show ?thesis by blast
qed

theorem message_reaches_new_peer_witness:
  "\<exists>f1 B1 g r B2 B3.
     handle_frame meet_env demo_clock [2] f1 bob = Some B1
     \<and> handle_frame meet_env demo_clock [] g B2
         = Some ([PrivateMessageFrom (ms_my_id alice) (peer_nickname (ms_my_id alice) bob) [104, 105] [117], Send r], B3)"
proof -
  have sound: "sound_key (ev_crypto meet_env) [1]" "sound_key (ev_crypto meet_env) [2]"
    using demo_keys by (simp_all add: sound_key_def meet_env_crypto)
  have ids: "proper_id (ms_my_id alice)" "proper_id (ms_my_id bob)"
    using derived_id_proper meet_env_ok(4) by (simp_all add: mesh_new_def Let_def)
  have hear: "may_hear meet_env alice (ms_my_id bob)" "may_hear meet_env bob (ms_my_id alice)"
    using meet_ids by (simp_all add: may_hear_def fresh_mesh)
  have words: "utf8_valid [104, 105]" "utf8_valid [117]" by (rule utf8_valid_ascii, simp)+
  have plain: "parse_notice [104, 105] = None" by code_simp
  from message_reaches_new_peer [OF meet_env_ok(2,3) sound sound ids hear fresh_mesh(6,7,5) fresh_mesh(6,7,5) _ _ words(1) plain,
      where uuid = "\<lambda>_. [117]" and ?t2.0 = demo_clock and ?t5.0 = demo_clock and ez = "[]"] words(2)
  show ?thesis by simp blast
qed

end
