(* ===== verification/Discovery.thy ===== *)
theory Discovery
  imports Text "HOL-Library.List_Lexorder" "HOL-Library.Product_Lexorder" "HOL-Library.Multiset"
begin

text \<open>
  Choosing which advertiser to connect to (discovery.rs): the log of failed addresses and
  the ranking of candidates.  Instants are natural numbers of nanoseconds; the hash map of
  failures is a map.  \<open>sort_by\<close> is a stable sort, modelled by the library's \<open>sort_key\<close> on
  the key that the comparison of the code orders by.
\<close>

definition FAILURE_COOLDOWN :: nat where "FAILURE_COOLDOWN = 60 * 10 ^ 9"

record candidate =
  cn_address :: text_bytes
  cn_rssi :: "16 word option"
  cn_name :: "text_bytes option"

definition candidate_label :: "candidate \<Rightarrow> text_bytes" where
  "candidate_label c =
     (let name = (case cn_name c of Some n \<Rightarrow> n | None \<Rightarrow> ascii ''unnamed'') in
      case cn_rssi c of
        Some rssi \<Rightarrow> name @ ascii '' ['' @ cn_address c @ ascii ''] '' @ show_int (sint rssi) @ ascii '' dBm''
      | None \<Rightarrow> name @ ascii '' ['' @ cn_address c @ ascii ''] no signal'')"

type_synonym failure_log = "text_bytes \<rightharpoonup> nat"

definition failure_record :: "nat \<Rightarrow> text_bytes \<Rightarrow> failure_log \<Rightarrow> failure_log" where
  "failure_record now address f = f(address \<mapsto> now)"

definition is_cooling :: "nat \<Rightarrow> text_bytes \<Rightarrow> failure_log \<Rightarrow> bool" where
  "is_cooling now address f = (case f address of Some at \<Rightarrow> now - at < FAILURE_COOLDOWN | None \<Rightarrow> False)"

definition failure_forget :: "text_bytes \<Rightarrow> failure_log \<Rightarrow> failure_log" where
  "failure_forget address f = f(address := None)"

definition failure_prune :: "nat \<Rightarrow> failure_log \<Rightarrow> failure_log" where
  "failure_prune now f = (\<lambda>a. case f a of
     Some at \<Rightarrow> if now - at < FAILURE_COOLDOWN then Some at else None | None \<Rightarrow> None)"

definition worth_dialling :: "candidate \<Rightarrow> nat \<Rightarrow> bool" where
  "worth_dialling c links_held \<longleftrightarrow> links_held = 0 \<or> cn_rssi c \<noteq> None"

text \<open>The comparison of \<open>rank\<close>: its clauses in their order.\<close>

datatype ordering = Less | Equal | Greater

definition cmp :: "'a::linorder \<Rightarrow> 'a \<Rightarrow> ordering" where
  "cmp a b = (if a < b then Less else if a = b then Equal else Greater)"

definition then_cmp :: "ordering \<Rightarrow> ordering \<Rightarrow> ordering" where
  "then_cmp a b = (case a of Equal \<Rightarrow> b | _ \<Rightarrow> a)"

definition rssi_or_min :: "candidate \<Rightarrow> int" where
  "rssi_or_min c = (case cn_rssi c of Some r \<Rightarrow> sint r | None \<Rightarrow> - 32768)"

definition candidate_cmp :: "nat \<Rightarrow> failure_log \<Rightarrow> candidate \<Rightarrow> candidate \<Rightarrow> ordering" where
  "candidate_cmp now f a b =
     then_cmp (then_cmp (then_cmp
       (cmp (is_cooling now (cn_address a) f) (is_cooling now (cn_address b) f))
       (cmp (cn_rssi b \<noteq> None) (cn_rssi a \<noteq> None)))
       (cmp (rssi_or_min b) (rssi_or_min a)))
       (cmp (cn_address a) (cn_address b))"

definition rank_key :: "nat \<Rightarrow> failure_log \<Rightarrow> candidate \<Rightarrow> bool \<times> bool \<times> int \<times> text_bytes" where
  "rank_key now f c = (is_cooling now (cn_address c) f, cn_rssi c = None, - rssi_or_min c, cn_address c)"

definition rank :: "candidate list \<Rightarrow> nat \<Rightarrow> failure_log \<Rightarrow> candidate list" where
  "rank candidates now f = sort_key (rank_key now f) candidates"

section \<open>The key is the comparison\<close>

lemma candidate_cmp_key: "candidate_cmp now f a b = cmp (rank_key now f a) (rank_key now f b)"
proof -
  have less: "cmp (rssi_or_min b) (rssi_or_min a) = cmp (- rssi_or_min a) (- rssi_or_min b)"
    "cmp (cn_rssi b \<noteq> None) (cn_rssi a \<noteq> None) = cmp (cn_rssi a = None) (cn_rssi b = None)"
    by (auto simp: cmp_def)
  have pair: "cmp (x, p) (y, q) = then_cmp (cmp x y) (cmp p q)"
    for x y :: "'c::linorder" and p q :: "'d::linorder"
    by (auto simp: cmp_def then_cmp_def less_le)
  have assoc: "then_cmp (then_cmp x y) z = then_cmp x (then_cmp y z)" for x y z
    by (cases x; cases y) (simp_all add: then_cmp_def)
  show ?thesis
    by (simp only: candidate_cmp_def rank_key_def less pair assoc)
qed

section \<open>Properties\<close>

text \<open>
  Ranking is a stable sort: it neither loses nor invents a candidate, no candidate
  stands before one that the comparison puts first, and candidates the comparison does not
  tell apart keep their order; so a peer whose connection just failed comes after all
  others, and among those a peer that was heard comes before a cached one.
\<close>

theorem rank_sorts:
  "mset (rank cs now f) = mset cs
   \<and> sorted_wrt (\<lambda>a b. candidate_cmp now f a b \<noteq> Greater) (rank cs now f)
   \<and> filter (\<lambda>c. candidate_cmp now f x c = Equal) (rank cs now f) = filter (\<lambda>c. candidate_cmp now f x c = Equal) cs
   \<and> sorted_wrt (\<lambda>a b. \<not> (is_cooling now (cn_address a) f \<and> \<not> is_cooling now (cn_address b) f)) (rank cs now f)"
proof -
  let ?k = "rank_key now f"
  have sorted: "sorted_wrt (\<lambda>a b. ?k a \<le> ?k b) (rank cs now f)"
    using sorted_sort_key [of ?k cs] by (simp add: rank_def sorted_map)
  have order: "candidate_cmp now f a b \<noteq> Greater \<longleftrightarrow> ?k a \<le> ?k b" for a b
    by (auto simp: candidate_cmp_key cmp_def)
  have equal: "candidate_cmp now f x c = Equal \<longleftrightarrow> ?k c = ?k x" for c
    by (auto simp: candidate_cmp_key cmp_def)
  have stable: "filter (\<lambda>c. ?k c = ?k x) (sort_key ?k cs) = filter (\<lambda>c. ?k c = ?k x) cs"
    by (rule sort_key_stable)
  have cooling: "?k a \<le> ?k b \<Longrightarrow> \<not> (is_cooling now (cn_address a) f \<and> \<not> is_cooling now (cn_address b) f)" for a b
    by (auto simp: rank_key_def)
  show ?thesis
    using sorted sorted_wrt_mono_rel [OF _ sorted] cooling stable by (simp add: order equal rank_def)
qed

end
