(* ===== verification/Config.thy ===== *)
theory Config
  imports Text
begin

text \<open>
  The configuration file (config.rs): one \<open>key = value\<close> per line.  A warning is a
  constructor with the line number and what its text quotes; the path of the file and
  reading it are left out (\<open>load_from\<close> gets the contents, or \<open>None\<close> when there is no file).
\<close>

datatype config_warning =
    ExpectedKeyValue nat
  | NicknameEmpty nat
  | WantsBoolean nat text_bytes
  | UnknownSetting nat text_bytes

record config =
  cf_nickname :: "text_bytes option"
  cf_mouse_capture :: bool
  cf_warnings :: "config_warning list"

definition config_default :: config where
  "config_default = \<lparr>cf_nickname = None, cf_mouse_capture = True, cf_warnings = []\<rparr>"

definition warn :: "config_warning \<Rightarrow> config \<Rightarrow> config" where
  "warn w c = c\<lparr>cf_warnings := cf_warnings c @ [w]\<rparr>"

definition parse_config_line :: "nat \<Rightarrow> text_bytes \<Rightarrow> config \<Rightarrow> config" where
  "parse_config_line number raw c =
     (let line = trim raw in
      if line = [] \<or> starts_with line [35] then c
      else case split_once 61 line of
        None \<Rightarrow> warn (ExpectedKeyValue (number + 1)) c
      | Some (key, v) \<Rightarrow>
          (let key = trim key; v = trim v in
           if key = ascii ''nickname'' then
             (if v = [] then warn (NicknameEmpty (number + 1)) c else c\<lparr>cf_nickname := Some v\<rparr>)
           else if key = ascii ''mouse_capture'' then
             (if v = ascii ''true'' then c\<lparr>cf_mouse_capture := True\<rparr>
              else if v = ascii ''false'' then c\<lparr>cf_mouse_capture := False\<rparr>
              else warn (WantsBoolean (number + 1) v) c)
           else warn (UnknownSetting (number + 1) key) c))"

definition parse_config :: "text_bytes \<Rightarrow> config" where
  "parse_config contents =
     fold (\<lambda>(number, raw) c. parse_config_line number raw c) (enumerate 0 (text_lines contents)) config_default"

definition load_from :: "text_bytes option \<Rightarrow> config" where
  "load_from file = (case file of None \<Rightarrow> config_default | Some contents \<Rightarrow> parse_config contents)"

section \<open>What a line does\<close>

text \<open>A line is skipped, is a setting, or is warned about.\<close>

datatype line_meaning = Skipped | SetNickname text_bytes | SetMouse bool | Warned config_warning

definition line_means :: "nat \<Rightarrow> text_bytes \<Rightarrow> line_meaning" where
  "line_means number raw =
     (let line = trim raw in
      if line = [] \<or> starts_with line [35] then Skipped
      else case split_once 61 line of
        None \<Rightarrow> Warned (ExpectedKeyValue (number + 1))
      | Some (key, v) \<Rightarrow>
          if trim key = ascii ''nickname''
          then (if trim v = [] then Warned (NicknameEmpty (number + 1)) else SetNickname (trim v))
          else if trim key = ascii ''mouse_capture''
          then (if trim v = ascii ''true'' then SetMouse True
                else if trim v = ascii ''false'' then SetMouse False
                else Warned (WantsBoolean (number + 1) (trim v)))
          else Warned (UnknownSetting (number + 1) (trim key)))"

fun nickname_of :: "line_meaning \<Rightarrow> text_bytes option" where
  "nickname_of (SetNickname n) = Some n" | "nickname_of _ = None"

fun mouse_of :: "line_meaning \<Rightarrow> bool option" where
  "mouse_of (SetMouse b) = Some b" | "mouse_of _ = None"

fun warning_of :: "line_meaning \<Rightarrow> config_warning option" where
  "warning_of (Warned w) = Some w" | "warning_of _ = None"

definition last_some :: "'a option list \<Rightarrow> 'a option" where
  "last_some xs = fold (\<lambda>x a. case x of None \<Rightarrow> a | Some y \<Rightarrow> Some y) xs None"

lemma last_some_snoc: "last_some (xs @ [x]) = (case x of None \<Rightarrow> last_some xs | Some y \<Rightarrow> Some y)"
  by (simp add: last_some_def split: option.split)

lemma parse_config_line_means:
  "parse_config_line number raw c =
     (case line_means number raw of
        Skipped \<Rightarrow> c | SetNickname n \<Rightarrow> c\<lparr>cf_nickname := Some n\<rparr>
      | SetMouse b \<Rightarrow> c\<lparr>cf_mouse_capture := b\<rparr> | Warned w \<Rightarrow> warn w c)"
  by (simp add: parse_config_line_def line_means_def Let_def split: option.split)

lemma fold_lines:
  "fold (\<lambda>(number, raw) c. parse_config_line number raw c) ls config_default =
     \<lparr>cf_nickname = last_some (map (\<lambda>(i, l). nickname_of (line_means i l)) ls),
      cf_mouse_capture = (case last_some (map (\<lambda>(i, l). mouse_of (line_means i l)) ls) of Some b \<Rightarrow> b | None \<Rightarrow> True),
      cf_warnings = List.map_filter (\<lambda>(i, l). warning_of (line_means i l)) ls\<rparr>"
proof (induction ls rule: rev_induct)
  case (snoc l ls)
  obtain i raw where l: "l = (i, raw)" by (cases l)
  show ?case
    using snoc
    by (cases "line_means i raw")
      (simp_all add: l parse_config_line_means last_some_snoc warn_def List.map_filter_def)
qed (simp add: config_default_def last_some_def List.map_filter_def)

section \<open>Properties\<close>

text \<open>
  No line of the file goes unnoticed: the result is the last nickname and the last
  mouse setting of the file, or the default where there is none, and one warning, in order
  and with its line number, for every line that is neither blank, a comment nor a setting.
\<close>

theorem config_accounts_for_every_line:
  "parse_config contents =
     (let ls = enumerate 0 (text_lines contents) in
      \<lparr>cf_nickname = last_some (map (\<lambda>(i, l). nickname_of (line_means i l)) ls),
       cf_mouse_capture = (case last_some (map (\<lambda>(i, l). mouse_of (line_means i l)) ls) of Some b \<Rightarrow> b | None \<Rightarrow> True),
       cf_warnings = List.map_filter (\<lambda>(i, l). warning_of (line_means i l)) ls\<rparr>)"
  by (simp only: parse_config_def fold_lines Let_def)

end
