(* ===== verification/Media.thy ===== *)
theory Media
  imports Chunks
begin

text \<open>
  Images people link or send (media.rs), the viewer that shows them (tui/viewer.rs) and the
  steps of the main loop that fetch them (main.rs).  A decoded image is any value; fetching,
  decoding and the case table of the standard library are parameters.
\<close>

section \<open>Finding links\<close>

definition contains_text :: "text_bytes \<Rightarrow> text_bytes \<Rightarrow> bool" where
  "contains_text s p \<longleftrightarrow> list_ex (\<lambda>k. starts_with (drop k s) p) [0..<Suc (length s)]"

fun position :: "('a \<Rightarrow> bool) \<Rightarrow> 'a list \<Rightarrow> nat option" where
  "position P [] = None"
| "position P (x # xs) = (if P x then Some 0 else map_option Suc (position P xs))"

lemma position_SomeD: "position P xs = Some i \<Longrightarrow> i < length xs \<and> P (xs ! i)"
  by (induction xs arbitrary: i) (auto split: if_splits)

lemma position_ex: "x \<in> set xs \<Longrightarrow> P x \<Longrightarrow> \<exists>i. position P xs = Some i"
  by (induction xs) auto

definition MAX_IMAGE_BYTES :: nat where "MAX_IMAGE_BYTES = 8 * 1024 * 1024"
definition CACHE_CAPACITY :: nat where "CACHE_CAPACITY = 8"

definition IMAGE_EXTENSIONS :: "string list" where
  "IMAGE_EXTENSIONS = [''png'', ''jpg'', ''jpeg'', ''gif'', ''webp'', ''bmp'', ''avif'']"

record image_link =
  il_url :: text_bytes
  il_sender :: text_bytes
  il_conversation :: text_bytes

definition is_image_url :: "(text_bytes \<Rightarrow> text_bytes) \<Rightarrow> text_bytes \<Rightarrow> bool" where
  "is_image_url unicode candidate =
     (let lowered = to_lowercase unicode candidate in
      if \<not> (starts_with lowered (ascii ''http://'') \<or> starts_with lowered (ascii ''https://'')) then False
      else let path = takeWhile (\<lambda>c. c \<noteq> 63 \<and> c \<noteq> 35) lowered in
        list_ex (\<lambda>extension. ends_with path (46 # ascii extension)) IMAGE_EXTENSIONS
        \<or> contains_text path (ascii ''/api/media/'') \<or> contains_text path (ascii ''/media/'')
        \<or> contains_text path (ascii ''/blossom/''))"

text \<open>The marks around a link: angle, round and square brackets, quotes, comma and semicolon.\<close>

definition trim_marks :: "text_bytes \<Rightarrow> text_bytes" where
  "trim_marks s =
     (let mark = (\<lambda>c. c \<in> set [60, 62, 40, 41, 91, 93, 34, 39, 44, 59]) in
      rev (dropWhile mark (rev (dropWhile mark s))))"

definition extract_image_urls :: "(text_bytes \<Rightarrow> text_bytes) \<Rightarrow> text_bytes \<Rightarrow> text_bytes list" where
  "extract_image_urls unicode content = filter (is_image_url unicode) (map trim_marks (split_whitespace content))"

definition MESH_SCHEME :: text_bytes where "MESH_SCHEME = ascii ''mesh:''"

definition mesh_key :: "text_bytes \<Rightarrow> text_bytes \<Rightarrow> text_bytes" where
  "mesh_key sender name = MESH_SCHEME @ sender @ [47] @ name"

definition is_mesh_key :: "text_bytes \<Rightarrow> bool" where
  "is_mesh_key url \<longleftrightarrow> starts_with url MESH_SCHEME"

text \<open>The pieces of a text before and after the first occurrence of another.\<close>

definition occurrence :: "text_bytes \<Rightarrow> text_bytes \<Rightarrow> nat option" where
  "occurrence p s = find (\<lambda>k. starts_with (drop k s) p) [0..<Suc (length s)]"

definition before_text :: "text_bytes \<Rightarrow> text_bytes \<Rightarrow> text_bytes" where
  "before_text p s = (case occurrence p s of Some k \<Rightarrow> take k s | None \<Rightarrow> s)"

definition after_text :: "text_bytes \<Rightarrow> text_bytes \<Rightarrow> text_bytes option" where
  "after_text p s = map_option (\<lambda>k. drop (k + length p) s) (occurrence p s)"

definition host_of :: "text_bytes \<Rightarrow> text_bytes" where
  "host_of url =
     (if is_mesh_key url
      then ascii ''bluetooth mesh '' @ [0xC2, 0xB7, 32] @ drop (length MESH_SCHEME) url
      else case after_text (ascii ''://'') url of
        Some rest \<Rightarrow> hd (split_on 47 (before_text (ascii ''://'') rest))
      | None \<Rightarrow> url)"

datatype fetch_error =
    Network text_bytes
  | TooLarge nat
  | NotAnImage text_bytes
  | Decode text_bytes

text \<open>The answer of a server: its content type, where it gave a readable one, and its body, or why reading broke off.\<close>

definition fetch_image ::
  "(text_bytes \<Rightarrow> text_bytes + text_bytes option \<times> (text_bytes + bytes)) \<Rightarrow> (bytes \<Rightarrow> text_bytes + 'i)
    \<Rightarrow> text_bytes \<Rightarrow> fetch_error + 'i" where
  "fetch_image get decoder url =
     (case get url of
        Inl detail \<Rightarrow> Inl (Network detail)
      | Inr (header, reader) \<Rightarrow>
          (let content_type = (case header of Some t \<Rightarrow> t | None \<Rightarrow> []) in
           if content_type \<noteq> [] \<and> \<not> starts_with content_type (ascii ''image/'') then Inl (NotAnImage content_type)
           else case reader of
             Inl detail \<Rightarrow> Inl (Network detail)
           | Inr sent \<Rightarrow>
               (let body = take (MAX_IMAGE_BYTES + 1) sent in
                if length body > MAX_IMAGE_BYTES then Inl (TooLarge (length body))
                else case decoder body of Inl detail \<Rightarrow> Inl (Decode detail) | Inr img \<Rightarrow> Inr img)))"

section \<open>The cache\<close>

record 'i image_cache =
  ic_entries :: "text_bytes \<rightharpoonup> 'i"
  ic_order :: "text_bytes list"

definition cache_new :: "'i image_cache" where
  "cache_new = \<lparr>ic_entries = Map.empty, ic_order = []\<rparr>"

definition cache_clear :: "'i image_cache \<Rightarrow> 'i image_cache" where
  "cache_clear c = c\<lparr>ic_entries := Map.empty, ic_order := []\<rparr>"

definition touch_image :: "text_bytes \<Rightarrow> 'i image_cache \<Rightarrow> 'i image_cache" where
  "touch_image url c = c\<lparr>ic_order := filter (\<lambda>u. u \<noteq> url) (ic_order c) @ [url]\<rparr>"

definition cache_get :: "text_bytes \<Rightarrow> 'i image_cache \<Rightarrow> 'i option \<times> 'i image_cache" where
  "cache_get url c =
     (let c = (if ic_entries c url \<noteq> None then touch_image url c else c) in (ic_entries c url, c))"

function evict :: "'i image_cache \<Rightarrow> 'i image_cache" where
  "evict c =
     (if length (ic_order c) > CACHE_CAPACITY
      then case ic_order c of
        oldest # order \<Rightarrow> evict (c\<lparr>ic_order := order, ic_entries := (ic_entries c)(oldest := None)\<rparr>)
      | [] \<Rightarrow> c
      else c)"
  by pat_completeness auto
termination by (relation "measure (\<lambda>c. length (ic_order c))") auto

declare evict.simps [simp del]

definition cache_insert :: "text_bytes \<Rightarrow> 'i \<Rightarrow> 'i image_cache \<Rightarrow> 'i image_cache" where
  "cache_insert url img c = evict (touch_image url (c\<lparr>ic_entries := (ic_entries c)(url \<mapsto> img)\<rparr>))"

definition cache_len :: "'i image_cache \<Rightarrow> nat" where
  "cache_len c = card (dom (ic_entries c))"

section \<open>The viewer\<close>

datatype load_state = LoadIdle | Loading | Ready | LoadFailed text_bytes

record viewer =
  vw_open :: bool
  vw_links :: "image_link list"
  vw_index :: nat
  vw_state :: load_state
  vw_pending :: "text_bytes option"

definition viewer_new :: viewer where
  "viewer_new = \<lparr>vw_open = False, vw_links = [], vw_index = 0, vw_state = LoadIdle, vw_pending = None\<rparr>"

definition remember_link :: "image_link \<Rightarrow> viewer \<Rightarrow> viewer" where
  "remember_link link v =
     (if list_ex (\<lambda>existing. il_url existing = il_url link) (vw_links v) then v
      else v\<lparr>vw_links := vw_links v @ [link]\<rparr>)"

definition links_in :: "text_bytes \<Rightarrow> viewer \<Rightarrow> image_link list" where
  "links_in conversation v = filter (\<lambda>link. il_conversation link = conversation) (vw_links v)"

definition count_in :: "text_bytes \<Rightarrow> viewer \<Rightarrow> nat" where
  "count_in conversation v = length (links_in conversation v)"

definition current_link :: "viewer \<Rightarrow> image_link option" where
  "current_link v = (if vw_index v < length (vw_links v) then Some (vw_links v ! vw_index v) else None)"

definition request_current :: "viewer \<Rightarrow> viewer" where
  "request_current v =
     (case current_link v of
        None \<Rightarrow> v
      | Some link \<Rightarrow> v\<lparr>vw_state := Loading, vw_pending := Some (il_url link)\<rparr>)"

definition open_in :: "text_bytes \<Rightarrow> nat option \<Rightarrow> viewer \<Rightarrow> bool \<times> viewer" where
  "open_in conversation from_newest v =
     (let urls = map il_url (links_in conversation v) in
      if urls = [] then (False, v)
      else
        let offset = min (max (case from_newest of Some n \<Rightarrow> n | None \<Rightarrow> 1) 1) (length urls);
            target = urls ! (length urls - offset);
            index = (case position (\<lambda>link. il_url link = target) (vw_links v) of Some i \<Rightarrow> i | None \<Rightarrow> 0)
        in (True, request_current (v\<lparr>vw_index := index, vw_open := True\<rparr>)))"

definition close_viewer :: "viewer \<Rightarrow> viewer" where
  "close_viewer v = v\<lparr>vw_open := False, vw_pending := None\<rparr>"

definition step_viewer :: "text_bytes \<Rightarrow> int \<Rightarrow> viewer \<Rightarrow> viewer" where
  "step_viewer conversation delta v =
     (let urls = map il_url (links_in conversation v) in
      if urls = [] then v
      else
        let current = (case Option.bind (current_link v) (\<lambda>link. position (\<lambda>url. url = il_url link) urls) of
                         Some i \<Rightarrow> i | None \<Rightarrow> 0);
            next_one = nat ((int current + delta) mod int (length urls))
        in case position (\<lambda>link. il_url link = urls ! next_one) (vw_links v) of
             Some i \<Rightarrow> request_current (v\<lparr>vw_index := i\<rparr>)
           | None \<Rightarrow> v)"

definition position_in :: "text_bytes \<Rightarrow> viewer \<Rightarrow> nat \<times> nat" where
  "position_in conversation v =
     (let urls = links_in conversation v in
      ((case Option.bind (current_link v) (\<lambda>link. position (\<lambda>other. il_url other = il_url link) urls) of
          Some i \<Rightarrow> i + 1 | None \<Rightarrow> 0),
       length urls))"

definition finish_fetch :: "text_bytes \<Rightarrow> text_bytes + unit \<Rightarrow> viewer \<Rightarrow> viewer" where
  "finish_fetch url outcome v =
     (if map_option il_url (current_link v) \<noteq> Some url then v
      else v\<lparr>vw_state := (case outcome of Inr _ \<Rightarrow> Ready | Inl reason \<Rightarrow> LoadFailed reason)\<rparr>)"

definition mark_ready :: "viewer \<Rightarrow> viewer" where
  "mark_ready v = v\<lparr>vw_state := Ready, vw_pending := None\<rparr>"

section \<open>The main loop\<close>

text \<open>The address handed to a worker, where the viewer wants an image that is not cached.\<close>

definition serve_viewer :: "'i image_cache \<Rightarrow> viewer \<Rightarrow> text_bytes option \<times> 'i image_cache \<times> viewer" where
  "serve_viewer c v =
     (case vw_pending v of
        None \<Rightarrow> (None, c, v)
      | Some url \<Rightarrow>
          (let v = v\<lparr>vw_pending := None\<rparr>; (hit, c) = cache_get url c in
           if hit \<noteq> None then (None, c, mark_ready v) else (Some url, c, v)))"

definition image_arrived :: "text_bytes \<Rightarrow> text_bytes + 'i \<Rightarrow> 'i image_cache \<times> viewer \<Rightarrow> 'i image_cache \<times> viewer" where
  "image_arrived url outcome = (\<lambda>(c, v).
     case outcome of
       Inr img \<Rightarrow> (cache_insert url img c, finish_fetch url (Inr ()) v)
     | Inl reason \<Rightarrow> (c, finish_fetch url (Inl reason) v))"

text \<open>A picture that came over the mesh and decoded.\<close>

definition picture_received :: "text_bytes \<Rightarrow> text_bytes \<Rightarrow> 'i \<Rightarrow> 'i image_cache \<times> viewer \<Rightarrow> 'i image_cache \<times> viewer" where
  "picture_received sender name img = (\<lambda>(c, v).
     let key = mesh_key sender name in
     (cache_insert key img c,
      remember_link \<lparr>il_url = key, il_sender = sender, il_conversation = ascii ''#public''\<rparr> v))"

text \<open>A line of chat: the links in it are noted.\<close>

definition note_links ::
  "(text_bytes \<Rightarrow> text_bytes) \<Rightarrow> text_bytes \<Rightarrow> text_bytes \<Rightarrow> text_bytes \<Rightarrow> viewer \<Rightarrow> viewer" where
  "note_links unicode sender conversation content =
     fold (\<lambda>url. remember_link \<lparr>il_url = url, il_sender = sender, il_conversation = conversation\<rparr>)
       (extract_image_urls unicode content)"

section \<open>The cache as a recency list\<close>

text \<open>What the cache means: the images it holds, the one used last at the end.\<close>

definition recency :: "'i image_cache \<Rightarrow> (text_bytes \<times> 'i) list" where
  "recency c = map (\<lambda>url. (url, the (ic_entries c url))) (ic_order c)"

definition lru_get :: "text_bytes \<Rightarrow> (text_bytes \<times> 'i) list \<Rightarrow> 'i option \<times> (text_bytes \<times> 'i) list" where
  "lru_get url l =
     (map_of l url,
      case map_of l url of None \<Rightarrow> l | Some i \<Rightarrow> filter (\<lambda>e. fst e \<noteq> url) l @ [(url, i)])"

definition lru_insert :: "text_bytes \<Rightarrow> 'i \<Rightarrow> (text_bytes \<times> 'i) list \<Rightarrow> (text_bytes \<times> 'i) list" where
  "lru_insert url i l =
     (let l = filter (\<lambda>e. fst e \<noteq> url) l @ [(url, i)] in drop (length l - CACHE_CAPACITY) l)"

definition entries_ok :: "'i image_cache \<Rightarrow> bool" where
  "entries_ok c \<longleftrightarrow> distinct (ic_order c) \<and> set (ic_order c) = dom (ic_entries c)"

lemma recency_lookup: "entries_ok c \<Longrightarrow> map_of (recency c) url = ic_entries c url"
  by (auto simp: entries_ok_def recency_def map_of_map_restrict [unfolded comp_def] restrict_map_def map_of_map_keys dom_def
      map_of_eq_None_iff split: option.splits)

lemma touch_ok: "entries_ok c \<Longrightarrow> url \<in> dom (ic_entries c) \<Longrightarrow> entries_ok (touch_image url c)"
  by (auto simp: entries_ok_def touch_image_def)

lemma recency_touch:
  "recency (touch_image url c) = filter (\<lambda>e. fst e \<noteq> url) (recency c) @ [(url, the (ic_entries c url))]"
  by (simp add: recency_def touch_image_def filter_map comp_def)

lemma evict_recency:
  "entries_ok c \<Longrightarrow> entries_ok (evict c) \<and> recency (evict c) = drop (length (ic_order c) - CACHE_CAPACITY) (recency c)
     \<and> length (ic_order (evict c)) \<le> CACHE_CAPACITY"
proof (induction c rule: evict.induct)
  case (1 c)
  show ?case
  proof (cases "length (ic_order c) > CACHE_CAPACITY")
    case True
    then obtain oldest order where o: "ic_order c = oldest # order" by (cases "ic_order c") auto
    let ?c = "c\<lparr>ic_order := order, ic_entries := (ic_entries c)(oldest := None)\<rparr>"
    have ok: "entries_ok ?c" using "1.prems" by (auto simp: entries_ok_def o)
    have "recency ?c = tl (recency c)"
      using "1.prems" by (auto simp: recency_def o entries_ok_def)
    moreover have "length order + 1 - CACHE_CAPACITY = Suc (length order - CACHE_CAPACITY)" using True o by simp
    ultimately show ?thesis
      using "1.IH" [OF True o ok] True by (simp add: evict.simps [of c] o drop_Suc)
  qed (simp add: evict.simps [of c] "1.prems")
qed

lemma insert_recency:
  assumes "entries_ok c"
  shows "entries_ok (cache_insert url i c) \<and> recency (cache_insert url i c) = lru_insert url i (recency c)
     \<and> length (ic_order (cache_insert url i c)) \<le> CACHE_CAPACITY"
proof -
  let ?c = "touch_image url (c\<lparr>ic_entries := (ic_entries c)(url \<mapsto> i)\<rparr>)"
  have ok: "entries_ok ?c" using assms by (auto simp: entries_ok_def touch_image_def)
  have "recency ?c = filter (\<lambda>e. fst e \<noteq> url) (recency c) @ [(url, i)]"
    by (auto simp: recency_def touch_image_def filter_map comp_def)
  moreover have "length (ic_order ?c) = length (recency ?c)" by (simp add: recency_def)
  ultimately show ?thesis
    using evict_recency [OF ok] by (simp add: cache_insert_def lru_insert_def Let_def)
qed

lemma filter_other_length: "x \<in> set xs \<Longrightarrow> distinct xs \<Longrightarrow> length (filter (\<lambda>y. y \<noteq> x) xs) + 1 = length xs"
  by (induction xs) (auto intro!: arg_cong [where f = length] filter_True)

lemma get_recency:
  assumes "entries_ok c"
  shows "entries_ok (snd (cache_get url c)) \<and> fst (cache_get url c) = map_of (recency c) url
     \<and> recency (snd (cache_get url c)) = snd (lru_get url (recency c))
     \<and> length (ic_order (snd (cache_get url c))) = length (ic_order c)"
proof (cases "ic_entries c url")
  case (Some i)
  then have "url \<in> set (ic_order c)" "distinct (ic_order c)" using assms by (auto simp: entries_ok_def)
  then have "length (filter (\<lambda>u. u \<noteq> url) (ic_order c)) + 1 = length (ic_order c)"
    by (rule filter_other_length)
  moreover have "length (ic_order (touch_image url c)) = length (filter (\<lambda>u. u \<noteq> url) (ic_order c)) + 1"
    by (simp add: touch_image_def)
  moreover have "cache_get url c = (Some i, touch_image url c)" using Some by (simp add: cache_get_def touch_image_def)
  ultimately show ?thesis
    using touch_ok [OF assms, of url] Some by (simp add: recency_lookup [OF assms] lru_get_def recency_touch domI)
qed (use assms in \<open>simp add: cache_get_def recency_lookup [OF assms] lru_get_def\<close>)

datatype 'i cache_op = CacheGet text_bytes | CacheInsert text_bytes 'i | CacheClear

fun cache_run :: "'i cache_op list \<Rightarrow> 'i image_cache \<Rightarrow> 'i option list \<times> 'i image_cache" where
  "cache_run [] c = ([], c)"
| "cache_run (CacheGet url # ops) c =
     (let (hit, c) = cache_get url c; (hits, c) = cache_run ops c in (hit # hits, c))"
| "cache_run (CacheInsert url i # ops) c = cache_run ops (cache_insert url i c)"
| "cache_run (CacheClear # ops) c = cache_run ops (cache_clear c)"

fun lru_run :: "'i cache_op list \<Rightarrow> (text_bytes \<times> 'i) list \<Rightarrow> 'i option list \<times> (text_bytes \<times> 'i) list" where
  "lru_run [] l = ([], l)"
| "lru_run (CacheGet url # ops) l =
     (let (hit, l) = lru_get url l; (hits, l) = lru_run ops l in (hit # hits, l))"
| "lru_run (CacheInsert url i # ops) l = lru_run ops (lru_insert url i l)"
| "lru_run (CacheClear # ops) l = lru_run ops []"

lemma cache_run_recency:
  assumes "entries_ok c" "length (ic_order c) \<le> CACHE_CAPACITY"
  shows "fst (cache_run ops c) = fst (lru_run ops (recency c))
     \<and> recency (snd (cache_run ops c)) = snd (lru_run ops (recency c))
     \<and> entries_ok (snd (cache_run ops c)) \<and> length (ic_order (snd (cache_run ops c))) \<le> CACHE_CAPACITY"
  using assms
proof (induction ops c rule: cache_run.induct)
  case (2 url ops c)
  obtain hit c' where g: "cache_get url c = (hit, c')" by (cases "cache_get url c")
  have "entries_ok c'" "length (ic_order c') \<le> CACHE_CAPACITY" "lru_get url (recency c) = (hit, recency c')"
    using get_recency [OF "2.prems"(1), of url] "2.prems"(2) g
    by (simp_all add: prod_eq_iff) (simp add: lru_get_def)
  then show ?case using "2.IH" [of "(hit, c')" hit c'] g by (simp add: split_beta Let_def)
next
  case (3 url i ops c)
  then show ?case using insert_recency [OF "3.prems"(1), of url i] by simp
next
  case (4 ops c)
  have "entries_ok (cache_clear c)" "recency (cache_clear c) = []" "ic_order (cache_clear c) = []"
    by (simp_all add: cache_clear_def entries_ok_def recency_def)
  then show ?case using "4.IH" by simp
qed simp

section \<open>What the viewer asks for\<close>

definition links_distinct :: "viewer \<Rightarrow> bool" where
  "links_distinct v \<longleftrightarrow> distinct (map il_url (vw_links v))"

lemma remember_link_urls:
  "il_url ` set (vw_links (remember_link link v)) = insert (il_url link) (il_url ` set (vw_links v))"
  by (auto simp: remember_link_def list_ex_iff intro: rev_image_eqI)

lemma remember_link_distinct: "links_distinct v \<Longrightarrow> links_distinct (remember_link link v)"
  by (auto simp: links_distinct_def remember_link_def list_ex_iff)

lemma note_links_facts:
  "il_url ` set (vw_links (note_links unicode s conv t v))
     = il_url ` set (vw_links v) \<union> set (extract_image_urls unicode t)
   \<and> vw_pending (note_links unicode s conv t v) = vw_pending v
   \<and> vw_index (note_links unicode s conv t v) = vw_index v
   \<and> (links_distinct v \<longrightarrow> links_distinct (note_links unicode s conv t v))"
proof -
  have "il_url ` set (vw_links (fold (\<lambda>url. remember_link \<lparr>il_url = url, il_sender = s, il_conversation = conv\<rparr>) us v))
      = il_url ` set (vw_links v) \<union> set us
    \<and> vw_pending (fold (\<lambda>url. remember_link \<lparr>il_url = url, il_sender = s, il_conversation = conv\<rparr>) us v) = vw_pending v
    \<and> vw_index (fold (\<lambda>url. remember_link \<lparr>il_url = url, il_sender = s, il_conversation = conv\<rparr>) us v) = vw_index v
    \<and> (links_distinct v
       \<longrightarrow> links_distinct (fold (\<lambda>url. remember_link \<lparr>il_url = url, il_sender = s, il_conversation = conv\<rparr>) us v))" for us
  proof (induction us arbitrary: v)
    case (Cons u us)
    let ?l = "\<lparr>il_url = u, il_sender = s, il_conversation = conv\<rparr>"
    have "vw_pending (remember_link ?l v) = vw_pending v" "vw_index (remember_link ?l v) = vw_index v"
      by (simp_all add: remember_link_def)
    then show ?case
      using Cons.IH [of "remember_link ?l v"] remember_link_urls [of ?l v] remember_link_distinct [of v ?l] by auto
  qed simp
  then show ?thesis by (simp add: note_links_def)
qed

lemma request_current_facts:
  "vw_links (request_current v) = vw_links v" "vw_index (request_current v) = vw_index v"
  "vw_pending (request_current v) = Some u \<Longrightarrow> vw_pending v = Some u \<or> u \<in> il_url ` set (vw_links v)"
  by (auto simp: request_current_def current_link_def split: if_splits)

lemma open_in_facts:
  "vw_links (snd (open_in conv n v)) = vw_links v"
  "vw_pending (snd (open_in conv n v)) = Some u \<Longrightarrow> vw_pending v = Some u \<or> u \<in> il_url ` set (vw_links v)"
  by (auto simp: open_in_def Let_def request_current_facts dest: request_current_facts(3) split: if_splits)

lemma step_viewer_facts:
  "vw_links (step_viewer conv d v) = vw_links v"
  "vw_pending (step_viewer conv d v) = Some u \<Longrightarrow> vw_pending v = Some u \<or> u \<in> il_url ` set (vw_links v)"
  by (auto simp: step_viewer_def Let_def request_current_facts dest: request_current_facts(3)
      split: if_splits option.splits)

text \<open>What is opened is an image of the conversation it was asked for in.\<close>

lemma same_url:
  assumes "links_distinct v" "l \<in> set (vw_links v)" "position (\<lambda>k. il_url k = il_url l) (vw_links v) = Some i"
  shows "i < length (vw_links v) \<and> vw_links v ! i = l"
proof -
  have i: "i < length (vw_links v)" "il_url (vw_links v ! i) = il_url l" using position_SomeD [OF assms(3)] by auto
  then show ?thesis using assms(1,2) by (auto simp: links_distinct_def distinct_map dest: inj_onD)
qed

lemma opens_in_conversation:
  assumes "links_distinct v" "open_in conv n v = (True, v')"
  shows "\<exists>l. current_link v' = Some l \<and> il_conversation l = conv \<and> vw_pending v' = Some (il_url l)"
proof -
  let ?ls = "links_in conv v"
  let ?k = "min (max (case n of Some n \<Rightarrow> n | None \<Rightarrow> 1) 1) (length ?ls)"
  have ne: "?ls \<noteq> []" using assms(2) by (auto simp: open_in_def Let_def)
  then have k: "length ?ls - ?k < length ?ls" by (cases ?ls) auto
  let ?l = "?ls ! (length ?ls - ?k)"
  have l: "?l \<in> set (vw_links v)" "il_conversation ?l = conv"
    using nth_mem [OF k] by (auto simp: links_in_def)
  obtain i where i: "position (\<lambda>j. il_url j = il_url ?l) (vw_links v) = Some i"
    using position_ex [OF l(1), of "\<lambda>j. il_url j = il_url ?l"] by auto
  have "v' = request_current (v\<lparr>vw_index := i, vw_open := True\<rparr>)"
    using assms(2) ne k i by (simp add: open_in_def Let_def)
  then show ?thesis
    using same_url [OF assms(1) l(1) i] l(2) by (auto simp: request_current_def current_link_def)
qed

section \<open>The gallery at work\<close>

datatype 'i gallery_event =
    LinePosted text_bytes text_bytes text_bytes
  | PictureReceived text_bytes text_bytes 'i
  | OpenedAt text_bytes "nat option"
  | Stepped text_bytes int
  | Closed
  | Tick
  | FetchEnded text_bytes "text_bytes + 'i"

fun gallery_step ::
  "(text_bytes \<Rightarrow> text_bytes) \<Rightarrow> 'i gallery_event \<Rightarrow> 'i image_cache \<times> viewer
    \<Rightarrow> text_bytes list \<times> 'i image_cache \<times> viewer" where
  "gallery_step unicode (LinePosted sender conv content) (c, v) = ([], c, note_links unicode sender conv content v)"
| "gallery_step unicode (PictureReceived sender name i) g = ([], picture_received sender name i g)"
| "gallery_step unicode (OpenedAt conv n) (c, v) = ([], c, snd (open_in conv n v))"
| "gallery_step unicode (Stepped conv d) (c, v) = ([], c, step_viewer conv d v)"
| "gallery_step unicode Closed (c, v) = ([], c, close_viewer v)"
| "gallery_step unicode Tick (c, v) =
     (let (url, c, v) = serve_viewer c v in ((case url of Some u \<Rightarrow> [u] | None \<Rightarrow> []), c, v))"
| "gallery_step unicode (FetchEnded url outcome) g = ([], image_arrived url outcome g)"

fun gallery_run ::
  "(text_bytes \<Rightarrow> text_bytes) \<Rightarrow> 'i gallery_event list \<Rightarrow> 'i image_cache \<times> viewer
    \<Rightarrow> text_bytes list \<times> 'i image_cache \<times> viewer" where
  "gallery_run unicode [] g = ([], g)"
| "gallery_run unicode (e # es) g =
     (let (fs, g) = gallery_step unicode e g; (fs', g) = gallery_run unicode es g in (fs @ fs', g))"

fun asks :: "'i gallery_event \<Rightarrow> bool" where
  "asks (OpenedAt conv n) = True"
| "asks (Stepped conv d) = True"
| "asks e = False"

fun offers :: "(text_bytes \<Rightarrow> text_bytes) \<Rightarrow> 'i gallery_event \<Rightarrow> text_bytes set" where
  "offers unicode (LinePosted sender conv content) = set (extract_image_urls unicode content)"
| "offers unicode (PictureReceived sender name i) = {mesh_key sender name}"
| "offers unicode e = {}"

definition wanted :: "viewer \<Rightarrow> nat" where
  "wanted v = (if vw_pending v = None then 0 else 1)"

definition known_urls :: "viewer \<Rightarrow> text_bytes set" where
  "known_urls v = il_url ` set (vw_links v) \<union> set_option (vw_pending v)"

lemma gallery_step_facts:
  assumes "gallery_step unicode e (c, v) = (fs, c', v')"
  shows "length fs + wanted v' \<le> wanted v + (if asks e then 1 else 0)
     \<and> set fs \<subseteq> known_urls v \<and> known_urls v' \<subseteq> known_urls v \<union> offers unicode e"
proof (cases e)
  case (OpenedAt conv n)
  then show ?thesis using assms open_in_facts [of conv n v]
    by (cases "vw_pending (snd (open_in conv n v))") (auto simp: wanted_def known_urls_def)
next
  case (Stepped conv d)
  then show ?thesis using assms step_viewer_facts [of conv d v]
    by (cases "vw_pending (step_viewer conv d v)") (auto simp: wanted_def known_urls_def)
next
  case (LinePosted s conv t)
  then show ?thesis using assms note_links_facts [of unicode s conv t v] by (auto simp: wanted_def known_urls_def)
next
  case (PictureReceived s n i)
  let ?l = "\<lparr>il_url = mesh_key s n, il_sender = s, il_conversation = ascii ''#public''\<rparr>"
  have "vw_pending (remember_link ?l v) = vw_pending v" by (simp add: remember_link_def)
  then show ?thesis using assms PictureReceived remember_link_urls [of ?l v]
    by (auto simp: picture_received_def wanted_def known_urls_def Let_def)
next
  case (FetchEnded url outcome)
  then show ?thesis using assms
    by (cases outcome) (auto simp: image_arrived_def finish_fetch_def wanted_def known_urls_def split: if_splits)
qed (use assms in \<open>auto simp: close_viewer_def serve_viewer_def mark_ready_def wanted_def known_urls_def Let_def
    split: option.splits prod.splits if_splits\<close>)

lemma gallery_run_facts:
  assumes "gallery_run unicode es (c, v) = (fs, c', v')"
  shows "length fs + wanted v' \<le> wanted v + length (filter asks es)
     \<and> set fs \<subseteq> known_urls v \<union> \<Union> (offers unicode ` set es)"
  using assms
proof (induction es arbitrary: c v fs)
  case (Cons e es)
  obtain f1 c1 v1 where 1: "gallery_step unicode e (c, v) = (f1, c1, v1)" by (metis prod_cases3)
  obtain f2 where 2: "gallery_run unicode es (c1, v1) = (f2, c', v')" and fs: "fs = f1 @ f2"
    using Cons.prems 1 by (auto split: prod.splits)
  show ?case using Cons.IH [OF 2] gallery_step_facts [OF 1] by (auto simp: fs split: if_splits)
qed simp

section \<open>Properties\<close>

text \<open>
  C25.  The cache is a recency list of at most eight images: whatever is looked up, inserted
  or cleared, it answers as the list does, holds what the list holds, and drops the image
  that went longest without use.
\<close>

theorem cache_is_recency_list:
  "fst (cache_run ops cache_new) = fst (lru_run ops [])
   \<and> recency (snd (cache_run ops cache_new)) = snd (lru_run ops [])
   \<and> dom (ic_entries (snd (cache_run ops cache_new))) = fst ` set (snd (lru_run ops []))
   \<and> cache_len (snd (cache_run ops cache_new)) \<le> CACHE_CAPACITY"
proof -
  let ?c = "snd (cache_run ops cache_new)"
  have "entries_ok (cache_new :: 'a image_cache)" "ic_order (cache_new :: 'a image_cache) = []"
    "recency (cache_new :: 'a image_cache) = []"
    by (simp_all add: cache_new_def entries_ok_def recency_def)
  then have run: "fst (cache_run ops cache_new) = fst (lru_run ops [])" "recency ?c = snd (lru_run ops [])"
    "entries_ok ?c" "length (ic_order ?c) \<le> CACHE_CAPACITY"
    using cache_run_recency [of cache_new ops] by simp_all
  have "dom (ic_entries ?c) = set (ic_order ?c)" "fst ` set (recency ?c) = set (ic_order ?c)"
    using run(3) by (simp_all add: entries_ok_def recency_def image_image)
  moreover have "card (set (ic_order ?c)) \<le> CACHE_CAPACITY"
    using run(4) card_length [of "ic_order ?c"] by linarith
  ultimately show ?thesis using run by (simp add: cache_len_def)
qed

text \<open>
  C24.  Nothing is fetched that the user did not ask for: however lines, pictures and fetch
  results arrive, there are never more fetches than times the user opened the viewer or
  moved in it, and every address fetched is one that a line contained or a picture was
  filed under.
\<close>

theorem nothing_fetched_unasked:
  "length (fst (gallery_run unicode es (cache_new, viewer_new))) \<le> length (filter asks es)
   \<and> set (fst (gallery_run unicode es (cache_new, viewer_new))) \<subseteq> \<Union> (offers unicode ` set es)"
proof -
  obtain fs c v where r: "gallery_run unicode es (cache_new, viewer_new) = (fs, c, v)" by (metis prod_cases3)
  have "wanted viewer_new = 0" "known_urls viewer_new = {}"
    by (simp_all add: viewer_new_def wanted_def known_urls_def)
  then show ?thesis using gallery_run_facts [OF r] by (simp add: r)
qed

text \<open>
  A link already noted in one conversation is not offered in another: a later line with
  the same address leaves the images of its conversation as they were.
\<close>

theorem repeated_link_not_offered:
  assumes "set (extract_image_urls unicode content) \<subseteq> il_url ` set (vw_links v)"
  shows "note_links unicode sender conv content v = v"
proof -
  have "fold (\<lambda>url. remember_link \<lparr>il_url = url, il_sender = sender, il_conversation = conv\<rparr>) us v = v"
    if "set us \<subseteq> il_url ` set (vw_links v)" for us
    using that by (induction us) (force simp: remember_link_def list_ex_iff)+
  then show ?thesis using assms by (simp add: note_links_def)
qed

definition noted_elsewhere :: viewer where
  "noted_elsewhere =
     note_links (\<lambda>s. s) (ascii ''bob'') (ascii ''#public'') (ascii ''see http://h/a.png'') viewer_new"

theorem repeated_link_not_offered_witness:
  "note_links (\<lambda>s. s) (ascii ''ann'') (ascii ''dm:ann'') (ascii ''http://h/a.png'') noted_elsewhere = noted_elsewhere
   \<and> count_in (ascii ''#public'') noted_elsewhere = 1 \<and> count_in (ascii ''dm:ann'') noted_elsewhere = 0"
proof -
  have "set (extract_image_urls (\<lambda>s. s) (ascii ''http://h/a.png'')) \<subseteq> il_url ` set (vw_links noted_elsewhere)"
    by code_simp
  moreover have "count_in (ascii ''#public'') noted_elsewhere = 1 \<and> count_in (ascii ''dm:ann'') noted_elsewhere = 0"
    by code_simp
  ultimately show ?thesis using repeated_link_not_offered by blast
qed

text \<open>A picture that came over the mesh and has left the cache is handed to the network when it is opened.\<close>

definition nine_pictures :: "unit gallery_event list" where
  "nine_pictures = map (\<lambda>k. PictureReceived (ascii ''bob'') [k] ()) [49, 50, 51, 52, 53, 54, 55, 56, 57]"

lemma displaced_picture_fetched:
  "fst (gallery_run (\<lambda>s. s) (nine_pictures @ [OpenedAt (ascii ''#public'') (Some 9), Tick]) (cache_new, viewer_new))
     = [mesh_key (ascii ''bob'') [49]]"
  by code_simp

end
