(* ===== verification/Messages.thy ===== *)
theory Messages
  imports Media Mesh_State "HOL-Library.Multiset"
begin

text \<open>
  The lines of a conversation and how they land in its log (the first part of tui/app.rs):
  believable times, the order of the log and the gate that tells news from a flood.  One
  reading of the clocks serves one operation; the clock stands after 1970.
\<close>

section \<open>Clocks and lines\<close>

text \<open>Nanoseconds of the monotonic clock and seconds since the epoch.\<close>

record moment =
  mo_instant :: nat
  mo_epoch :: nat

definition sat_sub :: "int \<Rightarrow> int \<Rightarrow> int" where
  "sat_sub a b = max (- (2 ^ 63)) (min (2 ^ 63 - 1) (a - b))"

instantiation delivery_status :: linorder
begin

definition less_eq_delivery_status :: "delivery_status \<Rightarrow> delivery_status \<Rightarrow> bool" where
  "less_eq_delivery_status a b \<longleftrightarrow> a = StatusDelivered \<or> b = StatusRead"

definition less_delivery_status :: "delivery_status \<Rightarrow> delivery_status \<Rightarrow> bool" where
  "less_delivery_status a b \<longleftrightarrow> a = StatusDelivered \<and> b = StatusRead"

instance
proof
  fix a b c :: delivery_status
  show "a < b \<longleftrightarrow> a \<le> b \<and> \<not> b \<le> a" "a \<le> a" "a \<le> b \<Longrightarrow> b \<le> a \<Longrightarrow> a = b" "a \<le> b \<or> b \<le> a"
    by (cases a; cases b; simp add: less_eq_delivery_status_def less_delivery_status_def)+
  show "a \<le> b \<Longrightarrow> b \<le> c \<Longrightarrow> a \<le> c"
    by (cases a; cases b; cases c; simp add: less_eq_delivery_status_def)
qed

end

record incoming_line =
  in_channel :: text_bytes
  in_sender :: text_bytes
  in_epoch :: int
  in_content :: text_bytes

record message =
  me_sender :: text_bytes
  me_timestamp :: text_bytes
  me_content :: text_bytes
  me_is_self :: bool
  me_epoch :: int
  me_id :: "text_bytes option"
  me_delivery :: "delivery_status option"
  me_arrived :: "nat option"

text \<open>\<open>local_time\<close> writes a time as the zone of the user shows it, where the calendar reaches.\<close>

type_synonym local_time = "int \<Rightarrow> text_bytes option"

definition show_time :: "local_time \<Rightarrow> moment \<Rightarrow> int \<Rightarrow> text_bytes" where
  "show_time local t epoch =
     (case local epoch of
        Some s \<Rightarrow> s
      | None \<Rightarrow> (case local (int (mo_epoch t)) of Some s \<Rightarrow> s | None \<Rightarrow> []))"

definition message_now :: "local_time \<Rightarrow> moment \<Rightarrow> text_bytes \<Rightarrow> text_bytes \<Rightarrow> bool \<Rightarrow> message" where
  "message_now local t sender content is_self =
     \<lparr>me_sender = sender, me_timestamp = show_time local t (int (mo_epoch t)), me_content = content,
      me_is_self = is_self, me_epoch = int (mo_epoch t), me_id = None, me_delivery = None,
      me_arrived = Some (mo_instant t)\<rparr>"

section \<open>The gate\<close>

definition BURST_WINDOW :: nat where "BURST_WINDOW = 400 * 10 ^ 6"
definition BURST_LIMIT :: nat where "BURST_LIMIT = 4"
definition LIVE_HORIZON :: int where "LIVE_HORIZON = 120"

definition is_current :: "moment \<Rightarrow> int \<Rightarrow> bool" where
  "is_current t epoch \<longleftrightarrow> sat_sub (int (mo_epoch t)) epoch \<le> LIVE_HORIZON"

definition believable_epoch :: "moment \<Rightarrow> int \<Rightarrow> int" where
  "believable_epoch t epoch = (if epoch < 0 then 0 else if epoch > int (mo_epoch t) then int (mo_epoch t) else epoch)"

type_synonym arrival_gate = "nat list"

definition admit :: "moment \<Rightarrow> arrival_gate \<Rightarrow> nat option \<times> arrival_gate" where
  "admit t gate =
     (let now = mo_instant t;
          recent = dropWhile (\<lambda>at. now - at \<ge> BURST_WINDOW) gate @ [now]
      in (if length recent \<le> BURST_LIMIT then Some now else None, recent))"

text \<open>From the newest line backwards, the lines that still glow go dark.\<close>

fun darken :: "message list \<Rightarrow> message list" where
  "darken [] = []"
| "darken (earlier # rest) =
     (if me_arrived earlier = None then earlier # rest else earlier\<lparr>me_arrived := None\<rparr> # darken rest)"

definition apply_admission :: "message list \<Rightarrow> message \<Rightarrow> nat option \<Rightarrow> message list \<times> message" where
  "apply_admission messages m admitted =
     (let m = m\<lparr>me_arrived := admitted\<rparr> in
      if admitted \<noteq> None then (messages, m) else (rev (darken (rev messages)), m))"

section \<open>The log\<close>

definition rposition :: "('a \<Rightarrow> bool) \<Rightarrow> 'a list \<Rightarrow> nat option" where
  "rposition P xs = map_option (\<lambda>i. length xs - 1 - i) (position P (rev xs))"

definition insert_in_time_order :: "moment \<Rightarrow> message list \<Rightarrow> message \<Rightarrow> nat option \<Rightarrow> message list" where
  "insert_in_time_order t messages m admitted =
     (let at = (case rposition (\<lambda>existing. me_epoch existing \<le> me_epoch m) messages of
                  Some index \<Rightarrow> index + 1 | None \<Rightarrow> 0);
          (messages, m) = (if is_current t (me_epoch m) then apply_admission messages m admitted
                           else (messages, m\<lparr>me_arrived := None\<rparr>))
      in take at messages @ m # drop at messages)"

definition push_arrival :: "message list \<Rightarrow> message \<Rightarrow> nat option \<Rightarrow> message list" where
  "push_arrival messages m admitted =
     (let (messages, m) = apply_admission messages m admitted in messages @ [m])"

section \<open>What the log keeps\<close>

text \<open>A line but for its glow.\<close>

definition unlit :: "message \<Rightarrow> message" where
  "unlit m = m\<lparr>me_arrived := None\<rparr>"

definition in_time_order :: "message list \<Rightarrow> bool" where
  "in_time_order ms \<longleftrightarrow> sorted (map me_epoch ms)"

lemma epoch_unlit [simp]: "me_epoch (unlit m) = me_epoch m"
  by (simp add: unlit_def)

lemma darken_unlit: "map unlit (darken ms) = map unlit ms"
  by (induction ms) (auto simp: unlit_def)

lemma admission_unlit:
  "map unlit (fst (apply_admission ms m a)) = map unlit ms" "unlit (snd (apply_admission ms m a)) = unlit m"
  by (auto simp: apply_admission_def Let_def rev_map [symmetric] darken_unlit) (auto simp: unlit_def)

lemma epoch_comp_unlit [simp]: "me_epoch \<circ> unlit = me_epoch"
  by (simp add: fun_eq_iff)

lemma map_epoch_unlit: "map me_epoch ms = map me_epoch (map unlit ms)"
  by simp

lemma rposition_le:
  assumes "sorted (map f xs)"
  shows "(case rposition (\<lambda>x. f x \<le> k) xs of Some i \<Rightarrow> i + 1 | None \<Rightarrow> 0) = length (filter (\<lambda>x. f x \<le> k) xs)"
  using assms
proof (induction xs rule: rev_induct)
  case (snoc x xs)
  show ?case
  proof (cases "f x \<le> k")
    case True
    then have "\<forall>y \<in> set xs. f y \<le> k" using snoc.prems by (force simp: sorted_append)
    then show ?thesis using True by (simp add: rposition_def)
  next
    case False
    then have "rposition (\<lambda>x. f x \<le> k) (xs @ [x]) = rposition (\<lambda>x. f x \<le> k) xs"
      by (auto simp: rposition_def map_option_case split: option.splits dest: position_SomeD)
    then show ?thesis using snoc False by (simp add: sorted_append)
  qed
qed (simp add: rposition_def)

lemma sorted_split:
  fixes f :: "'a \<Rightarrow> int"
  assumes "sorted (map f xs)"
  shows "take (length (filter (\<lambda>x. f x \<le> k) xs)) xs = filter (\<lambda>x. f x \<le> k) xs"
    and "drop (length (filter (\<lambda>x. f x \<le> k) xs)) xs = filter (\<lambda>x. f x > k) xs"
proof -
  have "filter (\<lambda>x. f x \<le> k) xs @ filter (\<lambda>x. f x > k) xs = xs"
    using assms
  proof (induction xs)
    case (Cons x xs)
    have "filter (\<lambda>y. f y \<le> k) xs = []" if "\<not> f x \<le> k"
      using that Cons.prems by (auto simp: filter_empty_conv)
    with Cons show ?case by (cases "f x \<le> k") auto
  qed simp
  then show "take (length (filter (\<lambda>x. f x \<le> k) xs)) xs = filter (\<lambda>x. f x \<le> k) xs"
    and "drop (length (filter (\<lambda>x. f x \<le> k) xs)) xs = filter (\<lambda>x. f x > k) xs"
    by (metis append_eq_conv_conj)+
qed

text \<open>Into a log in time order a line goes after everything that is not newer.\<close>

lemma insert_places:
  assumes "in_time_order ms"
  shows "map unlit (insert_in_time_order t ms m a)
       = filter (\<lambda>x. me_epoch x \<le> me_epoch m) (map unlit ms) @ unlit m # filter (\<lambda>x. me_epoch x > me_epoch m) (map unlit ms)"
proof -
  obtain ms' m' where p: "(if is_current t (me_epoch m) then apply_admission ms m a else (ms, m\<lparr>me_arrived := None\<rparr>)) = (ms', m')"
    by fastforce
  have u: "map unlit ms' = map unlit ms" "unlit m' = unlit m"
    using p admission_unlit [of ms m a] by (auto split: if_splits simp: unlit_def)
  let ?n = "length (filter (\<lambda>x. me_epoch x \<le> me_epoch m) ms)"
  have n: "?n = length (filter (\<lambda>x. me_epoch x \<le> me_epoch m) (map unlit ms))" by (simp add: filter_map comp_def)
  have s: "sorted (map me_epoch (map unlit ms))" using assms by (simp add: in_time_order_def)
  have "map unlit (insert_in_time_order t ms m a) = take ?n (map unlit ms') @ unlit m' # drop ?n (map unlit ms')"
    using assms p rposition_le [of me_epoch ms "me_epoch m"]
    by (simp add: insert_in_time_order_def in_time_order_def Let_def take_map drop_map)
  then show ?thesis using sorted_split [OF s, of "me_epoch m"] by (simp only: u n)
qed

lemma insert_in_order: "in_time_order ms \<Longrightarrow> in_time_order (insert_in_time_order t ms m a)"
  unfolding in_time_order_def map_epoch_unlit [of "insert_in_time_order t ms m a"]
  by (subst insert_places)
    (auto simp: in_time_order_def sorted_append sorted_wrt_filter filter_map comp_def sorted_map)

lemma push_unlit: "map unlit (push_arrival ms m a) = map unlit ms @ [unlit m]"
  using admission_unlit [of ms m a] by (cases "apply_admission ms m a") (simp add: push_arrival_def)

lemma push_in_order:
  "in_time_order ms \<Longrightarrow> \<forall>x \<in> set ms. me_epoch x \<le> me_epoch m \<Longrightarrow> in_time_order (push_arrival ms m a)"
  unfolding in_time_order_def map_epoch_unlit [of "push_arrival ms m a"]
  by (auto simp: push_unlit sorted_append)

section \<open>How many lines glow\<close>

text \<open>A run of the gate: the instants it announced, and what it remembers.\<close>

fun gate_run :: "moment list \<Rightarrow> arrival_gate \<Rightarrow> nat list \<times> arrival_gate" where
  "gate_run [] gate = ([], gate)"
| "gate_run (t # ts) gate =
     (let (lit, gate) = admit t gate; (rest, gate) = gate_run ts gate in
      ((case lit of Some at \<Rightarrow> [at] | None \<Rightarrow> []) @ rest, gate))"

text \<open>What the gate remembers is the end of the arrivals, and what it forgot lies a window back.\<close>

definition remembers :: "nat list \<Rightarrow> arrival_gate \<Rightarrow> bool" where
  "remembers past gate \<longleftrightarrow>
     sorted past \<and> (\<exists>old. past = old @ gate \<and> (\<forall>x \<in> set old. BURST_WINDOW \<le> last past - x))"

lemma admit_remembers:
  assumes "remembers past gate" "past = [] \<or> last past \<le> mo_instant t" "admit t gate = (lit, gate')"
  shows "remembers (past @ [mo_instant t]) gate'
     \<and> length (filter (\<lambda>x. mo_instant t < x + BURST_WINDOW) (past @ [mo_instant t])) \<le> length gate'
     \<and> lit = (if length gate' \<le> BURST_LIMIT then Some (mo_instant t) else None)"
proof -
  let ?t = "mo_instant t"
  let ?drop = "\<lambda>at. ?t - at \<ge> BURST_WINDOW"
  obtain old where o: "past = old @ gate" "\<forall>x \<in> set old. BURST_WINDOW \<le> last past - x" "sorted past"
    using assms(1) by (auto simp: remembers_def)
  have g: "gate' = dropWhile ?drop gate @ [?t]" "lit = (if length gate' \<le> BURST_LIMIT then Some ?t else None)"
    using assms(3) by (auto simp: admit_def Let_def)
  let ?old = "old @ takeWhile ?drop gate"
  have split: "past @ [?t] = ?old @ gate'" by (simp add: o(1) g(1))
  have le: "x \<le> ?t" if "x \<in> set past" for x
  proof -
    have "past \<noteq> []" using that by auto
    moreover have "x \<le> last past" using that o(3) by (induction past) auto
    ultimately show ?thesis using assms(2) by auto
  qed
  have far: "BURST_WINDOW \<le> ?t - x" if "x \<in> set ?old" for x
  proof (cases "x \<in> set old")
    case True
    then show ?thesis using o(1,2) assms(2) by fastforce
  next
    case False
    then show ?thesis using that set_takeWhileD [of x ?drop gate] by auto
  qed
  have "remembers (past @ [?t]) gate'"
    unfolding remembers_def
  proof (intro conjI exI [of _ ?old])
    show "sorted (past @ [?t])" using o(3) le by (auto simp: sorted_append)
    show "\<forall>x \<in> set ?old. BURST_WINDOW \<le> last (past @ [?t]) - x" using far by simp
  qed (rule split)
  moreover have "filter (\<lambda>x. ?t < x + BURST_WINDOW) ?old = []"
    using far by (fastforce simp: filter_empty_conv BURST_WINDOW_def)
  then have "filter (\<lambda>x. ?t < x + BURST_WINDOW) (past @ [?t]) = filter (\<lambda>x. ?t < x + BURST_WINDOW) gate'"
    by (simp only: split filter_append append_Nil)
  ultimately show ?thesis using g(2) by simp
qed

definition window_of :: "nat \<Rightarrow> nat \<Rightarrow> bool" where
  "window_of w x \<longleftrightarrow> w \<le> x \<and> x < w + BURST_WINDOW"

lemma filter_length_mono: "(\<And>x. x \<in> set xs \<Longrightarrow> P x \<Longrightarrow> Q x) \<Longrightarrow> length (filter P xs) \<le> length (filter Q xs)"
  by (induction xs) auto

lemma gate_run_bounded:
  assumes "remembers past gate" "sorted (past @ map mo_instant ts)"
    and "\<And>P. length (filter P h) \<le> length (filter P past)"
    and "\<And>w. length (filter (window_of w) h) \<le> BURST_LIMIT"
  shows "length (filter (window_of w) (h @ fst (gate_run ts gate))) \<le> BURST_LIMIT"
  using assms
proof (induction ts arbitrary: past gate h)
  case (Cons t ts)
  obtain lit gate' where a: "admit t gate = (lit, gate')" by (cases "admit t gate")
  let ?t = "mo_instant t"
  let ?lit = "case lit of Some at \<Rightarrow> [at] | None \<Rightarrow> []"
  have last: "past = [] \<or> last past \<le> ?t" using Cons.prems(2) by (cases "past = []") (auto simp: sorted_append)
  have g: "remembers (past @ [?t]) gate'"
    "length (filter (\<lambda>x. ?t < x + BURST_WINDOW) (past @ [?t])) \<le> length gate'"
    "lit = (if length gate' \<le> BURST_LIMIT then Some ?t else None)"
    using admit_remembers [OF Cons.prems(1) last a] by auto
  have "length (filter (window_of w) ((h @ ?lit) @ fst (gate_run ts gate'))) \<le> BURST_LIMIT"
  proof (rule Cons.IH [OF g(1)])
    show "sorted ((past @ [?t]) @ map mo_instant ts)" using Cons.prems(2) by simp
    show count: "length (filter P (h @ ?lit)) \<le> length (filter P (past @ [?t]))" for P
      using Cons.prems(3) [of P] g(3) by simp
    show "length (filter (window_of w) (h @ ?lit)) \<le> BURST_LIMIT" for w
    proof (cases "length gate' \<le> BURST_LIMIT \<and> window_of w ?t")
      case True
      have "length (filter (window_of w) (h @ ?lit)) \<le> length (filter (window_of w) (past @ [?t]))"
        by (rule count)
      also have "\<dots> \<le> length (filter (\<lambda>x. ?t < x + BURST_WINDOW) (past @ [?t]))"
        by (rule filter_length_mono) (use True in \<open>auto simp: window_of_def\<close>)
      finally show ?thesis using g(2) True by linarith
    next
      case False
      then have "filter (window_of w) ?lit = []" using g(3) by auto
      then show ?thesis using Cons.prems(4) [of w] by simp
    qed
  qed
  then show ?case using a by (simp add: split_beta Let_def)
qed simp

section \<open>Properties\<close>

text \<open>
  A flood never lights the pane: whatever lines land, and however fast, no window of
  400 milliseconds holds more than four of the arrivals the gate announced.
\<close>

theorem few_lines_glow:
  assumes "sorted (map mo_instant ts)"
  shows "length (filter (\<lambda>at. w \<le> at \<and> at < w + BURST_WINDOW) (fst (gate_run ts []))) \<le> BURST_LIMIT"
  using gate_run_bounded [of "[]" "[]" ts "[]" w] assms by (simp add: remembers_def window_of_def [abs_def])

definition burst :: "moment list" where
  "burst = map (\<lambda>k. \<lparr>mo_instant = 10 ^ 9 + k * 10 ^ 8, mo_epoch = 1700000000\<rparr>) [0..<7]"

theorem few_lines_glow_witness:
  "length (filter (\<lambda>at. 10 ^ 9 \<le> at \<and> at < 10 ^ 9 + BURST_WINDOW) (fst (gate_run burst []))) \<le> BURST_LIMIT
   \<and> length (fst (gate_run burst [])) = 7"
proof -
  have "sorted (map mo_instant burst)" "length (fst (gate_run burst [])) = 7"
    by (simp_all add: burst_def upt_rec [of _ 7] admit_def BURST_WINDOW_def BURST_LIMIT_def Let_def)
  then show ?thesis using few_lines_glow by blast
qed

end
