(* ===== verification/Search.thy ===== *)
theory Search
  imports Messages
begin

text \<open>
  Finding a line in the scrollback (tui/search.rs), and the part of the log on screen
  (tui/widgets/main_panel.rs).  A typed character is its UTF-8 text.
\<close>

section \<open>The search\<close>

definition search_matches :: "(text_bytes \<Rightarrow> text_bytes) \<Rightarrow> message \<Rightarrow> text_bytes \<Rightarrow> bool" where
  "search_matches unicode m needle \<longleftrightarrow>
     contains_text (to_lowercase unicode (me_content m)) needle
     \<or> contains_text (to_lowercase unicode (me_sender m)) needle"

record search =
  se_prompt_open :: bool
  se_query :: text_bytes
  se_hits :: "nat list"
  se_selected :: nat
  se_scroll_before :: nat

definition search_default :: search where
  "search_default = \<lparr>se_prompt_open = False, se_query = [], se_hits = [], se_selected = 0, se_scroll_before = 0\<rparr>"

definition search_open :: "nat \<Rightarrow> search \<Rightarrow> search" where
  "search_open scroll s =
     s\<lparr>se_prompt_open := True, se_query := [], se_hits := [], se_selected := 0, se_scroll_before := scroll\<rparr>"

definition search_cancel :: "search \<Rightarrow> nat \<times> search" where
  "search_cancel s =
     (se_scroll_before s, s\<lparr>se_prompt_open := False, se_query := [], se_hits := [], se_selected := 0\<rparr>)"

definition search_forget :: "search \<Rightarrow> search" where
  "search_forget s = s\<lparr>se_prompt_open := False, se_query := [], se_hits := [], se_selected := 0\<rparr>"

definition search_push :: "text_bytes \<Rightarrow> search \<Rightarrow> search" where
  "search_push character s = s\<lparr>se_query := se_query s @ character\<rparr>"

text \<open>\<open>String::pop\<close> removes the last character, not the last byte.\<close>

definition pop_char :: "text_bytes \<Rightarrow> text_bytes" where
  "pop_char s = take (boundary_below s (length s - 1)) s"

definition search_backspace :: "search \<Rightarrow> search" where
  "search_backspace s = s\<lparr>se_query := pop_char (se_query s)\<rparr>"

definition search_run :: "(text_bytes \<Rightarrow> text_bytes) \<Rightarrow> message list \<Rightarrow> search \<Rightarrow> search" where
  "search_run unicode messages s =
     (let s = s\<lparr>se_hits := [], se_selected := 0\<rparr> in
      if se_query s = [] then s
      else
        let needle = to_lowercase unicode (se_query s);
            hits = map fst (filter (\<lambda>(index, m). search_matches unicode m needle) (enumerate 0 messages))
        in s\<lparr>se_hits := hits, se_selected := length hits - 1\<rparr>)"

definition search_commit :: "search \<Rightarrow> search" where
  "search_commit s = s\<lparr>se_prompt_open := False\<rparr>"

definition search_previous :: "search \<Rightarrow> search" where
  "search_previous s =
     (if se_hits s = [] then s
      else s\<lparr>se_selected := (if se_selected s = 0 then length (se_hits s) - 1 else se_selected s - 1)\<rparr>)"

definition search_next :: "search \<Rightarrow> search" where
  "search_next s =
     (if se_hits s = [] then s
      else s\<lparr>se_selected := (if se_selected s + 1 \<ge> length (se_hits s) then 0 else se_selected s + 1)\<rparr>)"

definition search_current :: "search \<Rightarrow> nat option" where
  "search_current s = (if se_selected s < length (se_hits s) then Some (se_hits s ! se_selected s) else None)"

definition is_walking :: "search \<Rightarrow> bool" where
  "is_walking s \<longleftrightarrow> \<not> se_prompt_open s \<and> se_hits s \<noteq> []"

definition hit_count :: "search \<Rightarrow> nat" where
  "hit_count s = length (se_hits s)"

definition search_status :: "search \<Rightarrow> text_bytes" where
  "search_status s =
     (if se_query s = [] then []
      else if se_hits s = [] then ascii ''no matches''
      else show_nat (se_selected s + 1) @ ascii '' of '' @ show_nat (length (se_hits s)))"

definition scroll_for :: "nat \<Rightarrow> nat \<Rightarrow> nat \<Rightarrow> nat" where
  "scroll_for message_index total_messages viewport_height =
     (let max_scroll = total_messages - viewport_height in
      min (total_messages - (message_index + 1)) max_scroll)"

text \<open>The rows of the log on screen: from the first index to before the second.\<close>

definition visible_range :: "nat \<Rightarrow> nat \<Rightarrow> nat \<Rightarrow> nat \<times> nat" where
  "visible_range total_messages msg_scroll messages_height =
     (let bottom = total_messages - msg_scroll in (bottom - messages_height, bottom))"

section \<open>Hits\<close>

definition matching :: "(text_bytes \<Rightarrow> text_bytes) \<Rightarrow> message list \<Rightarrow> text_bytes \<Rightarrow> nat set" where
  "matching unicode ms query =
     {i. query \<noteq> [] \<and> i < length ms \<and> search_matches unicode (ms ! i) (to_lowercase unicode query)}"

lemma hits_index: "map fst (filter (\<lambda>(i, m). P m) (enumerate n ms)) = map ((+) n) (filter (\<lambda>i. P (ms ! i)) [0..<length ms])"
proof (induction ms arbitrary: n)
  case (Cons m ms)
  have "filter (\<lambda>i. P ((m # ms) ! i)) [0..<length (m # ms)]
      = (if P m then [0] else []) @ map Suc (filter (\<lambda>i. P (ms ! i)) [0..<length ms])"
    by (simp add: upt_conv_Cons map_Suc_upt [symmetric] filter_map comp_def del: upt_Suc)
  then show ?case using Cons.IH [of "Suc n"] by (simp add: comp_def)
qed simp

lemma run_hits:
  "se_hits (search_run unicode ms s)
     = filter (\<lambda>i. se_query s \<noteq> [] \<and> search_matches unicode (ms ! i) (to_lowercase unicode (se_query s))) [0..<length ms]"
  "se_selected (search_run unicode ms s) = length (se_hits (search_run unicode ms s)) - 1"
  "se_query (search_run unicode ms s) = se_query s"
  by (simp_all add: search_run_def Let_def hits_index map_idI)

lemma run_hits_set: "set (se_hits (search_run unicode ms s)) = matching unicode ms (se_query s)"
  by (auto simp: run_hits matching_def)

section \<open>Walking\<close>

lemma previous_fields:
  "se_hits (search_previous s) = se_hits s"
  "se_hits s \<noteq> [] \<Longrightarrow> se_selected (search_previous s)
     = (if se_selected s = 0 then length (se_hits s) - 1 else se_selected s - 1)"
  by (simp_all add: search_previous_def)

lemma previous_hits: "se_hits ((search_previous ^^ k) s) = se_hits s"
  by (induction k) (simp_all add: previous_fields)

lemma previous_down:
  "se_selected s < length (se_hits s) \<Longrightarrow> k \<le> se_selected s
     \<Longrightarrow> se_selected ((search_previous ^^ k) s) = se_selected s - k"
proof (induction k)
  case (Suc k)
  then have "se_hits ((search_previous ^^ k) s) \<noteq> []" by (auto simp: previous_hits)
  with Suc show ?case by (simp add: previous_fields)
qed simp

lemma previous_wraps:
  assumes "se_selected s < length (se_hits s)" "k < length (se_hits s)"
  shows "se_selected ((search_previous ^^ (k + Suc (se_selected s))) s) = length (se_hits s) - 1 - k"
proof -
  let ?s = "(search_previous ^^ se_selected s) s"
  have 0: "se_selected ?s = 0" "se_hits ?s = se_hits s" "se_hits s \<noteq> []"
    using assms previous_down [of s "se_selected s"] by (auto simp: previous_hits)
  then have top: "se_selected (search_previous ?s) = length (se_hits s) - 1" "se_hits (search_previous ?s) = se_hits s"
    by (simp_all add: previous_fields)
  have "se_selected ((search_previous ^^ k) (search_previous ?s)) = length (se_hits s) - 1 - k"
    using previous_down [of "search_previous ?s" k] top assms by simp
  then show ?thesis by (simp add: funpow_add funpow_swap1)
qed

lemma previous_reaches:
  assumes "se_selected s < length (se_hits s)" "i < length (se_hits s)"
  shows "\<exists>k. se_selected ((search_previous ^^ k) s) = i"
proof (cases "i \<le> se_selected s")
  case True
  then show ?thesis using previous_down [of s "se_selected s - i"] assms by (intro exI [of _ "se_selected s - i"]) simp
next
  case False
  then show ?thesis using previous_wraps [OF assms(1), of "length (se_hits s) - 1 - i"] assms(2)
    by (intro exI [of _ "length (se_hits s) - 1 - i + Suc (se_selected s)"]) simp
qed

lemma sorted_le_last: "sorted xs \<Longrightarrow> x \<in> set xs \<Longrightarrow> x \<le> last xs"
  by (induction xs) auto

lemma next_undoes_previous:
  assumes "se_selected s < length (se_hits s)"
  shows "search_next (search_previous s) = s"
  using assms by (cases s) (auto simp: search_next_def search_previous_def)

section \<open>Properties\<close>

text \<open>
  C26.  A search finds the lines it is asked for, no others, and the walk misses none: it
  starts at the newest line that holds the query, stepping back reaches every one of them,
  and stepping forward takes a step back again.
\<close>

theorem search_walks_every_match:
  "set (se_hits (search_run unicode ms s)) = matching unicode ms (se_query s)
   \<and> (case search_current (search_run unicode ms s) of
        None \<Rightarrow> matching unicode ms (se_query s) = {}
      | Some i \<Rightarrow> i = Max (matching unicode ms (se_query s)))
   \<and> Option.these (range (\<lambda>k. search_current ((search_previous ^^ k) (search_run unicode ms s))))
       = matching unicode ms (se_query s)
   \<and> search_next (search_previous (search_run unicode ms s)) = search_run unicode ms s"
proof -
  let ?s = "search_run unicode ms s" and ?M = "matching unicode ms (se_query s)"
  have hits: "set (se_hits ?s) = ?M" by (rule run_hits_set)
  have sorted: "sorted (se_hits ?s)" by (simp add: run_hits sorted_wrt_filter)
  show ?thesis
  proof (cases "se_hits ?s = []")
    case True
    then have "search_current ((search_previous ^^ k) ?s) = None" for k by (simp add: search_current_def previous_hits)
    then have "range (\<lambda>k. search_current ((search_previous ^^ k) ?s)) = {None}" by auto
    moreover have "search_current ?s = None" using True by (simp add: search_current_def)
    ultimately show ?thesis using True hits
      by (auto simp: Option.these_def search_next_def search_previous_def)
  next
    case False
    have sel: "se_selected ?s < length (se_hits ?s)" using False by (simp add: run_hits(2))
    have now: "search_current ?s = Some (last (se_hits ?s))"
      using False by (simp add: search_current_def run_hits(2) last_conv_nth)
    have "last (se_hits ?s) = Max ?M"
      using False hits sorted_le_last [OF sorted] by (intro Max_eqI [symmetric]) (auto simp: hits [symmetric])
    moreover have "Option.these (range (\<lambda>k. search_current ((search_previous ^^ k) ?s))) = ?M"
    proof (intro equalityI subsetI)
      fix i assume "i \<in> Option.these (range (\<lambda>k. search_current ((search_previous ^^ k) ?s)))"
      then obtain k where "search_current ((search_previous ^^ k) ?s) = Some i" by (auto simp: Option.these_def)
      then have "i \<in> set (se_hits ((search_previous ^^ k) ?s))" by (auto simp: search_current_def split: if_splits)
      then show "i \<in> ?M" by (simp only: previous_hits hits)
    next
      fix i assume "i \<in> ?M"
      then obtain j where j: "j < length (se_hits ?s)" "se_hits ?s ! j = i" using hits by (metis in_set_conv_nth)
      then obtain k where "se_selected ((search_previous ^^ k) ?s) = j" using previous_reaches [OF sel] by blast
      then have "search_current ((search_previous ^^ k) ?s) = Some i"
        using j by (simp add: search_current_def previous_hits)
      then show "i \<in> Option.these (range (\<lambda>k. search_current ((search_previous ^^ k) ?s)))"
        unfolding in_these_eq by (intro range_eqI [of "Some i" _ k]) simp
    qed
    ultimately show ?thesis using hits now next_undoes_previous [OF sel] by simp
  qed
qed

text \<open>
  The line that was found is on screen: whatever the height of the log, the scroll
  position chosen for a match shows it, and is one the keys could reach.
\<close>

theorem match_is_visible:
  assumes "i < n" "0 < height"
  shows "case visible_range n (scroll_for i n height) height of
      (first, after) \<Rightarrow> first \<le> i \<and> i < after \<and> after \<le> n \<and> scroll_for i n height \<le> n - height"
  using assms by (auto simp: visible_range_def scroll_for_def Let_def)

theorem match_is_visible_witness:
  "case visible_range 40 (scroll_for 3 40 10) 10 of
      (first, after) \<Rightarrow> first \<le> 3 \<and> 3 < after \<and> after \<le> 40 \<and> scroll_for 3 40 10 \<le> 40 - 10"
  by (rule match_is_visible) simp_all

end
