(* ===== verification/Geohash.thy ===== *)
theory Geohash
  imports Text Complex_Main "HOL-Library.Multiset" "HOL-Library.List_Lexorder" "HOL-Library.Product_Lexorder"
begin

unbundle bit_operations_syntax

text \<open>
  Geohashes and the choice of relays (geohash.rs).  Degrees are rationals: a bound of a cell
  is a whole multiple of 45 / 2 ^ 30 while the text has at most twelve characters
  (\<open>bounds_are_exact\<close>), so the binary floating point arithmetic of the code computes these
  midpoints exactly.  Distances on the sphere are not exact there and are a parameter.
\<close>

section \<open>Names\<close>

definition BASE32 :: "byte list" where
  "BASE32 = ascii ''0123456789bcdefghjkmnpqrstuvwxyz''"

datatype channel_level = Building | Block | Neighborhood | City | Province | Region

fun level_precision :: "channel_level \<Rightarrow> nat" where
  "level_precision Building = 8"
| "level_precision Block = 7"
| "level_precision Neighborhood = 6"
| "level_precision City = 5"
| "level_precision Province = 4"
| "level_precision Region = 2"

fun level_label :: "channel_level \<Rightarrow> string" where
  "level_label Building = ''building''"
| "level_label Block = ''block''"
| "level_label Neighborhood = ''neighborhood''"
| "level_label City = ''city''"
| "level_label Province = ''province''"
| "level_label Region = ''region''"

definition all_levels :: "channel_level list" where
  "all_levels = [Building, Block, Neighborhood, City, Province, Region]"

definition level_name :: "nat \<Rightarrow> string option" where
  "level_name precision = map_option level_label (find (\<lambda>l. level_precision l = precision) all_levels)"

text \<open>The number of characters of a text: its bytes but for the continuations.\<close>

definition char_count :: "text_bytes \<Rightarrow> nat" where
  "char_count s = length (filter (\<lambda>c. \<not> is_cont c) s)"

definition geohash_valid :: "(text_bytes \<Rightarrow> text_bytes) \<Rightarrow> text_bytes \<Rightarrow> bool" where
  "geohash_valid unicode geohash =
     (if \<not> (1 \<le> char_count geohash \<and> char_count geohash \<le> 12) then False
      else list_all (\<lambda>c. c \<in> set BASE32) (to_lowercase unicode geohash))"

definition normalize :: "(text_bytes \<Rightarrow> text_bytes) \<Rightarrow> text_bytes \<Rightarrow> text_bytes" where
  "normalize unicode input = to_lowercase unicode (dropWhile (\<lambda>c. c = 35) (trim input))"

definition channel_name :: "text_bytes \<Rightarrow> text_bytes" where
  "channel_name geohash = 35 # geohash"

definition geohash_from_channel :: "(text_bytes \<Rightarrow> text_bytes) \<Rightarrow> text_bytes \<Rightarrow> text_bytes option" where
  "geohash_from_channel unicode channel =
     (let candidate = normalize unicode channel in
      if candidate = ascii ''public'' \<or> candidate = [] then None
      else if geohash_valid unicode candidate then Some candidate else None)"

definition geohash_children :: "text_bytes \<Rightarrow> text_bytes list" where
  "geohash_children prefix = map (\<lambda>c. prefix @ [c]) BASE32"

section \<open>Cells\<close>

type_synonym interval = "rat \<times> rat"

definition halve :: "bool \<Rightarrow> interval \<Rightarrow> interval" where
  "halve upper = (\<lambda>(lo, hi). let mid = (lo + hi) / 2 in if upper then (mid, hi) else (lo, mid))"

record bbox =
  bb_lat :: interval
  bb_lon :: interval

definition world :: bbox where
  "world = \<lparr>bb_lat = (-90, 90), bb_lon = (-180, 180)\<rparr>"

definition bbox_center :: "bbox \<Rightarrow> rat \<times> rat" where
  "bbox_center b = ((fst (bb_lat b) + snd (bb_lat b)) / 2, (fst (bb_lon b) + snd (bb_lon b)) / 2)"

definition bbox_width :: "bbox \<Rightarrow> rat" where "bbox_width b = snd (bb_lon b) - fst (bb_lon b)"

definition bbox_height :: "bbox \<Rightarrow> rat" where "bbox_height b = snd (bb_lat b) - fst (bb_lat b)"

text \<open>One bit of a geohash: longitude and latitude take turns.\<close>

definition refine_bit :: "bool \<Rightarrow> bool \<times> bbox \<Rightarrow> bool \<times> bbox" where
  "refine_bit v = (\<lambda>(is_even, b).
     (\<not> is_even,
      if is_even then b\<lparr>bb_lon := halve v (bb_lon b)\<rparr> else b\<lparr>bb_lat := halve v (bb_lat b)\<rparr>))"

definition index_bits :: "nat \<Rightarrow> bool list" where
  "index_bits i = map (\<lambda>k. drop_bit k i AND 1 = 1) [4, 3, 2, 1, 0]"

definition base32_index :: "byte \<Rightarrow> nat option" where
  "base32_index c = find (\<lambda>i. BASE32 ! i = c) [0..<32]"

definition refine_char :: "byte \<Rightarrow> bool \<times> bbox \<Rightarrow> bool \<times> bbox" where
  "refine_char c s = (case base32_index c of None \<Rightarrow> s | Some i \<Rightarrow> fold refine_bit (index_bits i) s)"

definition geohash_bbox :: "(text_bytes \<Rightarrow> text_bytes) \<Rightarrow> text_bytes \<Rightarrow> bbox" where
  "geohash_bbox unicode geohash = snd (fold refine_char (to_lowercase unicode geohash) (True, world))"

definition decode_center :: "(text_bytes \<Rightarrow> text_bytes) \<Rightarrow> text_bytes \<Rightarrow> rat \<times> rat" where
  "decode_center unicode geohash = bbox_center (geohash_bbox unicode geohash)"

section \<open>Encoding\<close>

record encoder =
  ec_lat :: interval
  ec_lon :: interval
  ec_even :: bool
  ec_bit :: nat
  ec_ch :: nat
  ec_out :: text_bytes

definition encode_step :: "rat \<Rightarrow> rat \<Rightarrow> encoder \<Rightarrow> encoder" where
  "encode_step lat lon e =
     (let e = (if ec_even e
               then let mid = (fst (ec_lon e) + snd (ec_lon e)) / 2 in
                 if lon \<ge> mid then e\<lparr>ec_ch := ec_ch e OR 2 ^ (4 - ec_bit e), ec_lon := (mid, snd (ec_lon e))\<rparr>
                 else e\<lparr>ec_lon := (fst (ec_lon e), mid)\<rparr>
               else let mid = (fst (ec_lat e) + snd (ec_lat e)) / 2 in
                 if lat \<ge> mid then e\<lparr>ec_ch := ec_ch e OR 2 ^ (4 - ec_bit e), ec_lat := (mid, snd (ec_lat e))\<rparr>
                 else e\<lparr>ec_lat := (fst (ec_lat e), mid)\<rparr>);
          e = e\<lparr>ec_even := \<not> ec_even e\<rparr>
      in if ec_bit e < 4 then e\<lparr>ec_bit := ec_bit e + 1\<rparr>
         else e\<lparr>ec_out := ec_out e @ [BASE32 ! ec_ch e], ec_bit := 0, ec_ch := 0\<rparr>)"

definition clamp :: "rat \<Rightarrow> rat \<Rightarrow> rat \<Rightarrow> rat" where
  "clamp lo hi x = (if x < lo then lo else if x > hi then hi else x)"

definition encode_start :: encoder where
  "encode_start =
     \<lparr>ec_lat = (-90, 90), ec_lon = (-180, 180), ec_even = True, ec_bit = 0, ec_ch = 0, ec_out = []\<rparr>"

text \<open>The loop runs while the text is short of the precision: five steps for each character.\<close>

function encode_loop :: "rat \<Rightarrow> rat \<Rightarrow> nat \<Rightarrow> encoder \<Rightarrow> encoder" where
  "encode_loop lat lon precision e =
     (if length (ec_out e) < precision then encode_loop lat lon precision (encode_step lat lon e) else e)"
  by pat_completeness auto
termination
  by (relation "(\<lambda>(lat, lon, p, e). p - length (ec_out e)) <*mlex*> measure (\<lambda>(lat, lon, p, e). 4 - ec_bit e)")
    (auto simp: wf_mlex encode_step_def Let_def mlex_prod_def)

declare encode_loop.simps [simp del]

definition geohash_encode :: "rat \<Rightarrow> rat \<Rightarrow> nat \<Rightarrow> text_bytes" where
  "geohash_encode latitude longitude precision =
     (if precision = 0 then []
      else ec_out (encode_loop (clamp (-90) 90 latitude) (clamp (-180) 180 longitude) precision encode_start))"

section \<open>Relays\<close>

record relay_entry =
  re_host :: text_bytes
  re_lat :: rat
  re_lon :: rat

definition closest_relays_to ::
  "(rat \<times> rat \<Rightarrow> rat \<times> rat \<Rightarrow> real) \<Rightarrow> relay_entry list \<Rightarrow> rat \<times> rat \<Rightarrow> nat \<Rightarrow> text_bytes list" where
  "closest_relays_to distance directory point number =
     (if number = 0 then []
      else map (\<lambda>entry. ascii ''wss://'' @ re_host entry)
        (take number (sort_key (\<lambda>entry. (distance point (re_lat entry, re_lon entry), re_host entry)) directory)))"

definition closest_relays ::
  "(text_bytes \<Rightarrow> text_bytes) \<Rightarrow> (rat \<times> rat \<Rightarrow> rat \<times> rat \<Rightarrow> real) \<Rightarrow> relay_entry list \<Rightarrow> text_bytes \<Rightarrow> nat
    \<Rightarrow> text_bytes list" where
  "closest_relays unicode distance directory geohash number =
     closest_relays_to distance directory (decode_center unicode geohash) number"

section \<open>The alphabet\<close>

lemma base32_facts:
  "\<forall>i \<in> {..<32}. base32_index (BASE32 ! i) = Some i" "length BASE32 = 32"
  "list_all (\<lambda>c. unat c < 128 \<and> ascii_lower c = c) BASE32"
proof -
  have "list_all (\<lambda>i. base32_index (BASE32 ! i) = Some i) [0..<32]" by code_simp
  then show "\<forall>i \<in> {..<32}. base32_index (BASE32 ! i) = Some i" by (simp add: list_all_iff)
  show "length BASE32 = 32" "list_all (\<lambda>c. unat c < 128 \<and> ascii_lower c = c) BASE32" by code_simp+
qed

lemma base32_char: "c \<in> set BASE32 \<Longrightarrow> \<exists>i < 32. BASE32 ! i = c \<and> base32_index c = Some i"
  using base32_facts(1,2) by (metis in_set_conv_nth lessThan_iff)

lemma base32_lowercase: "set s \<subseteq> set BASE32 \<Longrightarrow> to_lowercase unicode s = s"
proof -
  assume "set s \<subseteq> set BASE32"
  then have "unat c < 128 \<and> ascii_lower c = c" if "c \<in> set s" for c
    using base32_facts(3) that by (auto simp: list_all_iff)
  then show ?thesis by (auto simp: to_lowercase_def list_all_iff intro: map_idI)
qed

fun bits_value :: "bool list \<Rightarrow> nat \<Rightarrow> nat" where
  "bits_value [] n = n"
| "bits_value (v # vs) n = bits_value vs (if v then n OR 2 ^ length vs else n)"

lemma length_index_bits: "length (index_bits i) = 5"
  by (simp add: index_bits_def)

lemma bits_of_index: "i < 32 \<Longrightarrow> bits_value (index_bits i) 0 = i"
proof -
  have "list_all (\<lambda>i. bits_value (index_bits i) 0 = i) [0..<32]" by code_simp
  then show "i < 32 \<Longrightarrow> ?thesis" by (simp add: list_all_iff)
qed

lemma index_of_bits:
  assumes "length vs = 5"
  shows "index_bits (bits_value vs 0) = vs" "bits_value vs 0 < 32"
proof -
  have "list_all (\<lambda>vs. index_bits (bits_value vs 0) = vs \<and> bits_value vs 0 < 32) (List.n_lists 5 [True, False])"
    by code_simp
  moreover have "vs \<in> set (List.n_lists 5 [True, False])" using assms by (auto simp: set_n_lists)
  ultimately show "index_bits (bits_value vs 0) = vs" "bits_value vs 0 < 32" by (auto simp: list_all_iff)
qed

section \<open>Halving\<close>

definition strictly_in :: "rat \<Rightarrow> interval \<Rightarrow> bool" where
  "strictly_in x iv \<longleftrightarrow> fst iv < x \<and> x < snd iv"

definition strictly_inside :: "rat \<times> rat \<Rightarrow> bbox \<Rightarrow> bool" where
  "strictly_inside p b \<longleftrightarrow> strictly_in (fst p) (bb_lat b) \<and> strictly_in (snd p) (bb_lon b)"

definition inside :: "rat \<times> rat \<Rightarrow> bbox \<Rightarrow> bool" where
  "inside p b \<longleftrightarrow> fst (bb_lat b) \<le> fst p \<and> fst p \<le> snd (bb_lat b) \<and> fst (bb_lon b) \<le> snd p \<and> snd p \<le> snd (bb_lon b)"

lemma halve_strict:
  "strictly_in x (halve v iv) \<Longrightarrow> strictly_in x iv \<and> v = (x \<ge> (fst iv + snd iv) / 2)"
  by (cases iv) (auto simp: strictly_in_def halve_def Let_def split: if_splits)

text \<open>The bit the encoder reads off a point, and the bits of several steps.\<close>

definition next_bit :: "rat \<times> rat \<Rightarrow> bool \<times> bbox \<Rightarrow> bool" where
  "next_bit p = (\<lambda>(is_even, b).
     if is_even then snd p \<ge> (fst (bb_lon b) + snd (bb_lon b)) / 2
     else fst p \<ge> (fst (bb_lat b) + snd (bb_lat b)) / 2)"

fun point_bits :: "nat \<Rightarrow> rat \<times> rat \<Rightarrow> bool \<times> bbox \<Rightarrow> bool list" where
  "point_bits 0 p s = []"
| "point_bits (Suc n) p s = next_bit p s # point_bits n p (refine_bit (next_bit p s) s)"

lemma length_point_bits [simp]: "length (point_bits n p s) = n"
  by (induction n arbitrary: s) simp_all

lemma refine_strict:
  "strictly_inside p (snd (refine_bit v s)) \<Longrightarrow> strictly_inside p (snd s) \<and> v = next_bit p s"
  by (cases s) (auto simp: strictly_inside_def refine_bit_def next_bit_def dest: halve_strict split: if_splits)

lemma refined_bits:
  "strictly_inside p (snd (fold refine_bit vs s)) \<Longrightarrow> strictly_inside p (snd s) \<and> point_bits (length vs) p s = vs"
proof (induction vs arbitrary: s)
  case (Cons v vs)
  have IH: "strictly_inside p (snd (refine_bit v s))" "point_bits (length vs) p (refine_bit v s) = vs"
    using Cons.IH [of "refine_bit v s"] Cons.prems by simp_all
  then show ?case using refine_strict [OF IH(1)] by simp
qed simp

lemma refine_inside: "inside p (snd s) \<Longrightarrow> inside p (snd (refine_bit (next_bit p s) s))"
  by (cases s) (auto simp: inside_def refine_bit_def next_bit_def halve_def Let_def split_beta)

lemma point_bits_inside: "inside p (snd s) \<Longrightarrow> inside p (snd (fold refine_bit (point_bits n p s) s))"
  by (induction n arbitrary: s) (simp_all add: refine_inside)

section \<open>The encoder follows the bits\<close>

definition view :: "encoder \<Rightarrow> bool \<times> bbox" where
  "view e = (ec_even e, \<lparr>bb_lat = ec_lat e, bb_lon = ec_lon e\<rparr>)"

lemma encode_step_view:
  "view (encode_step lat lon e) = refine_bit (next_bit (lat, lon) (view e)) (view e)"
  by (cases "ec_lat e"; cases "ec_lon e")
    (simp add: view_def encode_step_def refine_bit_def next_bit_def halve_def Let_def)

lemma encode_step_bits:
  assumes "n = (if next_bit (lat, lon) (view e) then ec_ch e OR 2 ^ (4 - ec_bit e) else ec_ch e)"
  shows "ec_bit e < 4 \<Longrightarrow> ec_bit (encode_step lat lon e) = ec_bit e + 1
      \<and> ec_ch (encode_step lat lon e) = n \<and> ec_out (encode_step lat lon e) = ec_out e"
    and "\<not> ec_bit e < 4 \<Longrightarrow> ec_bit (encode_step lat lon e) = 0
      \<and> ec_ch (encode_step lat lon e) = 0 \<and> ec_out (encode_step lat lon e) = ec_out e @ [BASE32 ! n]"
  by (auto simp: assms view_def encode_step_def next_bit_def Let_def)

text \<open>What is left of a character after some of its bits.\<close>

lemma encode_rest:
  assumes "ec_bit e + k = 5" "0 < k" "length (ec_out e) < precision"
  shows "\<exists>e'. encode_loop lat lon precision e = encode_loop lat lon precision e'
      \<and> view e' = fold refine_bit (point_bits k (lat, lon) (view e)) (view e)
      \<and> ec_bit e' = 0 \<and> ec_ch e' = 0
      \<and> ec_out e' = ec_out e @ [BASE32 ! bits_value (point_bits k (lat, lon) (view e)) (ec_ch e)]"
  using assms
proof (induction k arbitrary: e)
  case (Suc k)
  let ?e = "encode_step lat lon e" and ?v = "next_bit (lat, lon) (view e)"
  have loop: "encode_loop lat lon precision e = encode_loop lat lon precision ?e"
    using Suc.prems(3) by (simp add: encode_loop.simps [of _ _ _ e])
  have view: "view ?e = refine_bit ?v (view e)" by (rule encode_step_view)
  have k: "4 - ec_bit e = k" using Suc.prems(1) by simp
  show ?case
  proof (cases "k = 0")
    case True
    then show ?thesis using loop view k encode_step_bits(2) [OF refl, of e lat lon] Suc.prems(1)
      by (intro exI [of _ ?e]) simp
  next
    case False
    then have bits: "ec_bit ?e = ec_bit e + 1" "ec_out ?e = ec_out e"
      "ec_ch ?e = (if ?v then ec_ch e OR 2 ^ k else ec_ch e)"
      using encode_step_bits(1) [OF refl, of e lat lon] Suc.prems(1) k by auto
    then obtain e' where "encode_loop lat lon precision ?e = encode_loop lat lon precision e'"
      "view e' = fold refine_bit (point_bits k (lat, lon) (refine_bit ?v (view e))) (refine_bit ?v (view e))"
      "ec_bit e' = 0" "ec_ch e' = 0"
      "ec_out e' = ec_out e @ [BASE32 ! bits_value (point_bits k (lat, lon) (refine_bit ?v (view e))) (ec_ch ?e)]"
      using Suc.IH [of ?e] False Suc.prems by (auto simp: view)
    then show ?thesis using loop bits(3) by (intro exI [of _ e']) simp
  qed
qed simp

definition next_char :: "rat \<times> rat \<Rightarrow> bool \<times> bbox \<Rightarrow> byte" where
  "next_char p s = BASE32 ! bits_value (point_bits 5 p s) 0"

lemma next_char_facts:
  "next_char p s \<in> set BASE32" "refine_char (next_char p s) s = fold refine_bit (point_bits 5 p s) s"
  using index_of_bits [of "point_bits 5 p s"] base32_facts(1,2) by (simp_all add: next_char_def refine_char_def)

lemma encode_char:
  assumes "ec_bit e = 0" "ec_ch e = 0" "length (ec_out e) < precision"
  shows "\<exists>e'. encode_loop lat lon precision e = encode_loop lat lon precision e' \<and> ec_bit e' = 0 \<and> ec_ch e' = 0
     \<and> ec_out e' = ec_out e @ [next_char (lat, lon) (view e)]
     \<and> view e' = refine_char (next_char (lat, lon) (view e)) (view e)"
  using encode_rest [of e 5 precision lat lon] assms next_char_facts(2) [of "(lat, lon)" "view e"]
  by (simp add: next_char_def) blast

lemma encode_loop_done: "\<not> length (ec_out e) < precision \<Longrightarrow> encode_loop lat lon precision e = e"
  by (simp add: encode_loop.simps [of _ _ _ e])

lemma encode_contains:
  assumes "ec_bit e = 0" "ec_ch e = 0" "inside (lat, lon) (snd (view e))"
  shows "\<exists>cs. ec_out (encode_loop lat lon (length (ec_out e) + n) e) = ec_out e @ cs
     \<and> length cs = n \<and> set cs \<subseteq> set BASE32 \<and> inside (lat, lon) (snd (fold refine_char cs (view e)))"
  using assms
proof (induction n arbitrary: e)
  case 0
  then show ?case by (simp add: encode_loop_done)
next
  case (Suc n)
  let ?c = "next_char (lat, lon) (view e)"
  obtain e' where e': "encode_loop lat lon (length (ec_out e) + Suc n) e = encode_loop lat lon (length (ec_out e) + Suc n) e'"
    "ec_bit e' = 0" "ec_ch e' = 0" "ec_out e' = ec_out e @ [?c]" "view e' = refine_char ?c (view e)"
    using encode_char [OF Suc.prems(1,2), of "length (ec_out e) + Suc n" lat lon] by auto
  have "inside (lat, lon) (snd (view e'))" using point_bits_inside [OF Suc.prems(3)] e'(5) next_char_facts(2) by simp
  from Suc.IH [OF e'(2,3) this] obtain cs where
    "ec_out (encode_loop lat lon (length (ec_out e') + n) e') = ec_out e' @ cs" "length cs = n" "set cs \<subseteq> set BASE32"
    "inside (lat, lon) (snd (fold refine_char cs (view e')))" by blast
  then show ?case using e' next_char_facts(1) [of "(lat, lon)" "view e"] by (intro exI [of _ "?c # cs"]) simp
qed

lemma refined_chars: "strictly_inside p (snd (fold refine_char h s)) \<Longrightarrow> strictly_inside p (snd s)"
proof (induction h arbitrary: s)
  case (Cons c h)
  then have "strictly_inside p (snd (refine_char c s))" by simp
  then show ?case using refined_bits by (cases "base32_index c") (auto simp: refine_char_def)
qed simp

lemma encode_follows:
  assumes "ec_bit e = 0" "ec_ch e = 0" "set g \<subseteq> set BASE32" "strictly_inside (lat, lon) (snd (fold refine_char g (view e)))"
  shows "ec_out (encode_loop lat lon (length (ec_out e) + length g) e) = ec_out e @ g"
  using assms
proof (induction g arbitrary: e)
  case Nil
  then show ?case by (simp add: encode_loop_done)
next
  case (Cons c g)
  let ?n = "length (ec_out e) + length (c # g)"
  obtain i where i: "i < 32" "BASE32 ! i = c" "base32_index c = Some i" using Cons.prems(3) base32_char by auto
  have c: "refine_char c (view e) = fold refine_bit (index_bits i) (view e)" by (simp add: refine_char_def i(3))
  have deep: "strictly_inside (lat, lon) (snd (fold refine_char g (refine_char c (view e))))" using Cons.prems(4) by simp
  have "strictly_inside (lat, lon) (snd (fold refine_bit (index_bits i) (view e)))"
    using refined_chars [OF deep] by (simp only: c)
  then have "point_bits (length (index_bits i)) (lat, lon) (view e) = index_bits i" by (rule refined_bits [THEN conjunct2])
  then have bits: "point_bits 5 (lat, lon) (view e) = index_bits i" by (simp only: length_index_bits)
  have nc: "next_char (lat, lon) (view e) = c" using bits_of_index [OF i(1)] by (simp add: next_char_def bits i(2))
  obtain e' where e': "encode_loop lat lon ?n e = encode_loop lat lon ?n e'"
    "ec_bit e' = 0" "ec_ch e' = 0" "ec_out e' = ec_out e @ [c]" "view e' = refine_char c (view e)"
    using encode_char [OF Cons.prems(1,2), of ?n lat lon] unfolding nc by auto
  have "ec_out (encode_loop lat lon (length (ec_out e') + length g) e') = ec_out e' @ g"
    by (rule Cons.IH [OF e'(2,3)]) (use Cons.prems(3) deep e'(5) in simp_all)
  then show ?case using e'(1,4) by simp
qed

section \<open>Exact bounds\<close>

text \<open>The bounds of an interval halved \<open>n\<close> times.\<close>

definition on_grid :: "int \<Rightarrow> nat \<Rightarrow> interval \<Rightarrow> bool" where
  "on_grid d n iv \<longleftrightarrow> (\<exists>k. fst iv = 90 * of_int k / 2 ^ n \<and> snd iv = 90 * of_int (k + d) / 2 ^ n)"

lemma halve_grid: "on_grid d n iv \<Longrightarrow> on_grid d (Suc n) (halve v iv)"
proof -
  assume "on_grid d n iv"
  then obtain k where k: "fst iv = 90 * of_int k / 2 ^ n" "snd iv = 90 * of_int (k + d) / 2 ^ n"
    by (auto simp: on_grid_def)
  have mid: "(fst iv + snd iv) / 2 = 90 * of_int (2 * k + d) / 2 ^ Suc n" by (simp add: k field_simps)
  show ?thesis
  proof (cases v)
    case True
    then show ?thesis using mid k unfolding on_grid_def halve_def split_beta Let_def
      by (intro exI [of _ "2 * k + d"]) (simp add: field_simps)
  next
    case False
    then show ?thesis using mid k unfolding on_grid_def halve_def split_beta Let_def
      by (intro exI [of _ "2 * k"]) (simp add: field_simps)
  qed
qed

definition exact_box :: "nat \<Rightarrow> bool \<times> bbox \<Rightarrow> bool" where
  "exact_box n = (\<lambda>(is_even, b).
     is_even = even n \<and> on_grid 4 ((n + 1) div 2) (bb_lon b) \<and> on_grid 2 (n div 2) (bb_lat b))"

lemma refine_exact: "exact_box n s \<Longrightarrow> exact_box (Suc n) (refine_bit v s)"
  by (cases s; cases "even n") (auto simp: exact_box_def refine_bit_def dest: halve_grid elim: evenE oddE)

lemma fold_exact: "exact_box n s \<Longrightarrow> exact_box (n + length vs) (fold refine_bit vs s)"
proof (induction vs arbitrary: n s)
  case (Cons v vs)
  then show ?case using Cons.IH [OF refine_exact [OF Cons.prems]] by simp
qed simp

lemma world_exact: "exact_box 0 (True, world)"
  by (auto simp: exact_box_def world_def on_grid_def intro: exI [of _ "-1"] exI [of _ "-2"])

lemma chars_exact:
  "exact_box n s \<Longrightarrow> set g \<subseteq> set BASE32 \<Longrightarrow> exact_box (n + 5 * length g) (fold refine_char g s)"
proof (induction g arbitrary: n s)
  case (Cons c g)
  obtain i where i: "base32_index c = Some i" using Cons.prems(2) base32_char by auto
  have "exact_box (n + 5) (refine_char c s)"
    using fold_exact [OF Cons.prems(1), of "index_bits i"] by (simp add: refine_char_def i length_index_bits)
  then show ?case using Cons.IH [of "n + 5" "refine_char c s"] Cons.prems(2) by (simp add: algebra_simps)
qed simp

text \<open>All bounds and midpoints of a cell of at most twelve characters have a small numerator over \<open>2 ^ 31\<close>.\<close>

lemma bounds_are_exact:
  assumes "set g \<subseteq> set BASE32" "length g \<le> 12"
  shows "\<exists>k l. fst (decode_center unicode g) = 90 * of_int k / 2 ^ 31 \<and> snd (decode_center unicode g) = 90 * of_int l / 2 ^ 31"
proof -
  let ?b = "geohash_bbox unicode g" and ?n = "5 * length g"
  have whole: "\<exists>k. (fst iv + snd iv) / 2 = 90 * of_int k / 2 ^ 31" if grid: "on_grid d n iv" "n \<le> 30" for iv d n
  proof -
    obtain k where k: "fst iv = 90 * of_int k / 2 ^ n" "snd iv = 90 * of_int (k + d) / 2 ^ n"
      using grid(1) by (auto simp: on_grid_def)
    have "(2 :: rat) ^ 31 = 2 ^ (30 - n) * 2 ^ n * 2" using grid(2) by (simp flip: power_add power_Suc2)
    then have "(fst iv + snd iv) / 2 = 90 * of_int ((2 * k + d) * 2 ^ (30 - n)) / 2 ^ 31"
      by (simp add: k field_simps)
    then show ?thesis by blast
  qed
  have "exact_box ?n (fold refine_char g (True, world))" using chars_exact [OF world_exact assms(1)] by simp
  then have "on_grid 4 ((?n + 1) div 2) (bb_lon ?b)" "on_grid 2 (?n div 2) (bb_lat ?b)"
    by (auto simp: exact_box_def geohash_bbox_def base32_lowercase [OF assms(1)] split: prod.splits)
  moreover have "(?n + 1) div 2 \<le> 30" "?n div 2 \<le> 30" using assms(2) by auto
  ultimately show ?thesis using whole by (simp add: decode_center_def bbox_center_def)
qed

lemma grid_center: "on_grid d n iv \<Longrightarrow> 0 < d \<Longrightarrow> strictly_in ((fst iv + snd iv) / 2) iv"
proof -
  assume "on_grid d n iv" "0 < d"
  then have "fst iv < snd iv" by (auto simp: on_grid_def divide_strict_right_mono)
  then show ?thesis by (simp add: strictly_in_def)
qed

lemma exact_proper: "exact_box n s \<Longrightarrow> strictly_inside (bbox_center (snd s)) (snd s)"
  by (cases s) (auto simp: exact_box_def strictly_inside_def bbox_center_def intro: grid_center)

lemma clamp_world: "inside (clamp (-90) 90 lat, clamp (-180) 180 lon) world"
  by (simp add: inside_def world_def clamp_def)

lemma strict_clamp: "strictly_inside (lat, lon) world \<Longrightarrow> clamp (-90) 90 lat = lat \<and> clamp (-180) 180 lon = lon"
  by (simp add: strictly_inside_def strictly_in_def world_def clamp_def)

lemma encode_start_facts:
  "view encode_start = (True, world)" "ec_bit encode_start = 0" "ec_ch encode_start = 0" "ec_out encode_start = []"
  by (simp_all add: encode_start_def view_def world_def)

section \<open>Properties\<close>

text \<open>
  A point lies in the cell it is given: encoding any position, moved into range, to any
  number of characters gives a text of that length over the alphabet whose cell holds the
  position.
\<close>

theorem cell_holds_point:
  "length (geohash_encode lat lon n) = n \<and> set (geohash_encode lat lon n) \<subseteq> set BASE32
   \<and> inside (clamp (-90) 90 lat, clamp (-180) 180 lon) (geohash_bbox unicode (geohash_encode lat lon n))"
proof (cases "n = 0")
  case True
  then show ?thesis by (simp add: geohash_encode_def geohash_bbox_def to_lowercase_def clamp_world)
next
  case False
  let ?lat = "clamp (-90) 90 lat" and ?lon = "clamp (-180) 180 lon"
  have "inside (?lat, ?lon) (snd (view encode_start))" using clamp_world by (simp add: encode_start_facts)
  from encode_contains [OF encode_start_facts(2,3) this, of n] obtain cs where cs:
    "ec_out (encode_loop ?lat ?lon n encode_start) = cs" "length cs = n" "set cs \<subseteq> set BASE32"
    "inside (?lat, ?lon) (snd (fold refine_char cs (True, world)))"
    by (auto simp: encode_start_facts)
  then show ?thesis using False by (simp add: geohash_encode_def geohash_bbox_def base32_lowercase)
qed

text \<open>
  C31.  A geohash is the geohash of its centre: decoding it to the middle of its cell and
  encoding that to as many characters gives it back.
\<close>

theorem geohash_roundtrip:
  assumes "set g \<subseteq> set BASE32"
  shows "geohash_encode (fst (decode_center unicode g)) (snd (decode_center unicode g)) (length g) = g"
proof (cases "g = []")
  case False
  let ?s = "fold refine_char g (True, world)"
  obtain lat lon where c: "decode_center unicode g = (lat, lon)" by fastforce
  have deep: "strictly_inside (lat, lon) (snd ?s)"
    using exact_proper [OF chars_exact [OF world_exact assms]] c
    by (simp add: decode_center_def geohash_bbox_def base32_lowercase [OF assms])
  then have "clamp (-90) 90 lat = lat" "clamp (-180) 180 lon = lon"
    using strict_clamp refined_chars [OF deep] by simp_all
  then show ?thesis
    using encode_follows [of encode_start g lat lon] assms deep False
    by (simp add: geohash_encode_def c encode_start_facts)
qed (simp add: geohash_encode_def)

definition san_francisco :: text_bytes where "san_francisco = ascii ''9q8yy''"

theorem geohash_roundtrip_witness:
  "geohash_encode (fst (decode_center (\<lambda>s. s) san_francisco)) (snd (decode_center (\<lambda>s. s) san_francisco))
     (length san_francisco) = san_francisco
   \<and> length san_francisco = 5"
proof -
  have "set san_francisco \<subseteq> set BASE32" "length san_francisco = 5" by code_simp+
  then show ?thesis using geohash_roundtrip by blast
qed

text \<open>
  C36.  Every client picks the same relays: whatever order the directory lists its hosts in,
  the choice for a geohash is the same, and it has at most the number asked for.
\<close>

theorem same_relays_everywhere:
  assumes "distinct (map re_host directory)" "mset directory' = mset directory"
  shows "closest_relays unicode distance directory' geohash n = closest_relays unicode distance directory geohash n
     \<and> length (closest_relays unicode distance directory geohash n) \<le> n"
proof -
  let ?k = "\<lambda>entry. (distance (decode_center unicode geohash) (re_lat entry, re_lon entry), re_host entry)"
  have sorted: "map ?k (sort_key ?k d) = sort (map ?k directory)" if "mset d = mset directory" for d
    using that by (intro properties_for_sort [symmetric]) simp_all
  moreover have "inj_on ?k (set directory)"
    using assms(1) by (auto simp: distinct_map inj_on_def)
  moreover have "set directory' = set directory" using assms(2) by (metis set_mset_mset)
  ultimately have "sort_key ?k directory' = sort_key ?k directory"
    using sorted [OF assms(2)] sorted [OF refl] inj_on_map_eq_map [of ?k "sort_key ?k directory'" "sort_key ?k directory"]
    by simp
  then show ?thesis by (simp add: closest_relays_def closest_relays_to_def)
qed

definition two_relays :: "relay_entry list" where
  "two_relays = [\<lparr>re_host = ascii ''a.example'', re_lat = 1, re_lon = 2\<rparr>, \<lparr>re_host = ascii ''b.example'', re_lat = 3, re_lon = 4\<rparr>]"

theorem same_relays_everywhere_witness:
  "closest_relays (\<lambda>s. s) (\<lambda>p q. 0) (rev two_relays) san_francisco 1 = closest_relays (\<lambda>s. s) (\<lambda>p q. 0) two_relays san_francisco 1
   \<and> length (closest_relays (\<lambda>s. s) (\<lambda>p q. 0) two_relays san_francisco 1) \<le> 1"
  by (rule same_relays_everywhere) (simp_all add: two_relays_def ascii_def)

end
