(* ===== verification/Conversations.thy ===== *)
theory Conversations
  imports Search Geohash "HOL-Library.AList"
begin

text \<open>
  What the user sees (tui/app.rs) and the steps of the main loop that keep it (main.rs).
  The fields that only place things on the screen are left out: the input box, the popup,
  the emoji strip, the map and the status band.  The private logs are an association list
  whose order is the iteration order of the hash map; the other maps are never iterated.
  Stripping terminal escapes and writing the local time are parameters.
\<close>

section \<open>State\<close>

datatype tui_phase = Connecting | Connected | PhaseError text_bytes

datatype focus_area = Sidebar | MainPanel | InputBox

record sidebar =
  sb_expanded :: "bool list"
  sb_public :: "bool option"
  sb_channel :: "nat option"
  sb_people :: "nat option"
  sb_blocked :: "nat option"

definition sidebar_new :: sidebar where
  "sidebar_new =
     \<lparr>sb_expanded = [True, True, True, True, True], sb_public = Some True, sb_channel = None,
      sb_people = None, sb_blocked = None\<rparr>"

definition toggle_expand :: "nat \<Rightarrow> sidebar \<Rightarrow> sidebar" where
  "toggle_expand i b =
     (if i < length (sb_expanded b) then b\<lparr>sb_expanded := (sb_expanded b)[i := \<not> sb_expanded b ! i]\<rparr> else b)"

record 'i app =
  ap_phase :: tui_phase
  ap_focus :: focus_area
  ap_flat :: nat
  ap_scroll :: nat
  ap_viewport :: nat
  ap_nickname :: text_bytes
  ap_connected :: bool
  ap_channels :: "text_bytes list"
  ap_people :: "text_bytes list"
  ap_blocked :: "text_bytes list"
  ap_channel_log :: "text_bytes \<rightharpoonup> message list"
  ap_dm_log :: "(text_bytes \<times> message list) list"
  ap_sidebar :: sidebar
  ap_popup :: "text_bytes list"
  ap_conv :: "(text_bytes option \<times> text_bytes option) option"
  ap_channel_switch :: "text_bytes option"
  ap_dm_switch :: "(text_bytes \<times> text_bytes) option"
  ap_new_nickname :: "text_bytes option"
  ap_retry :: bool
  ap_unread :: "text_bytes \<rightharpoonup> nat"
  ap_last_read :: "text_bytes \<rightharpoonup> nat"
  ap_search :: search
  ap_viewer :: viewer
  ap_images :: "'i image_cache"
  ap_dimensions :: "text_bytes \<rightharpoonup> nat \<times> nat"
  ap_map_open :: bool
  ap_joined :: "text_bytes set"
  ap_gate :: arrival_gate
  ap_receipts :: "text_bytes set"

definition MAX_POPUP_MESSAGES :: nat where "MAX_POPUP_MESSAGES = 4"

definition PUBLIC :: text_bytes where "PUBLIC = ascii ''#public''"

definition dm_key :: "text_bytes \<Rightarrow> text_bytes" where "dm_key who = ascii ''dm:'' @ who"

definition chan_messages :: "'i app \<Rightarrow> text_bytes \<Rightarrow> message list" where
  "chan_messages a ch = (case ap_channel_log a ch of Some ms \<Rightarrow> ms | None \<Rightarrow> [])"

definition dm_messages :: "'i app \<Rightarrow> text_bytes \<Rightarrow> message list" where
  "dm_messages a who = (case map_of (ap_dm_log a) who of Some ms \<Rightarrow> ms | None \<Rightarrow> [])"

section \<open>Which conversation is on screen\<close>

definition selected :: "nat option \<Rightarrow> text_bytes list \<Rightarrow> text_bytes option" where
  "selected i xs = (case i of Some i \<Rightarrow> if i < length xs then Some (xs ! i) else None | None \<Rightarrow> None)"

definition public_selected :: "'i app \<Rightarrow> bool" where
  "public_selected a = (case sb_public (ap_sidebar a) of Some b \<Rightarrow> b | None \<Rightarrow> False)"

definition get_selected_channel_name :: "'i app \<Rightarrow> text_bytes" where
  "get_selected_channel_name a =
     (if public_selected a then PUBLIC
      else case selected (sb_channel (ap_sidebar a)) (ap_channels a) of Some ch \<Rightarrow> ch | None \<Rightarrow> PUBLIC)"

definition get_current_messages :: "'i app \<Rightarrow> message list \<times> text_bytes option \<times> text_bytes option" where
  "get_current_messages a =
     (case selected (sb_people (ap_sidebar a)) (ap_people a) of
        Some user \<Rightarrow> (dm_messages a user, Some user, None)
      | None \<Rightarrow> (let ch = get_selected_channel_name a in (chan_messages a ch, None, Some ch)))"

definition update_current_conversation :: "'i app \<Rightarrow> 'i app" where
  "update_current_conversation a =
     (let a = a\<lparr>ap_search := search_forget (ap_search a)\<rparr> in
      case selected (sb_people (ap_sidebar a)) (ap_people a) of
        Some user \<Rightarrow> a\<lparr>ap_conv := Some (Some user, None)\<rparr>
      | None \<Rightarrow>
          if public_selected a then a\<lparr>ap_conv := Some (None, Some PUBLIC)\<rparr>
          else case selected (sb_channel (ap_sidebar a)) (ap_channels a) of
            Some channel \<Rightarrow> a\<lparr>ap_conv := Some (None, Some channel)\<rparr>
          | None \<Rightarrow> a\<lparr>ap_conv := Some (None, Some PUBLIC)\<rparr>)"

definition app_new :: "text_bytes \<Rightarrow> 'i app" where
  "app_new nickname = update_current_conversation
     \<lparr>ap_phase = Connecting, ap_focus = InputBox, ap_flat = 0, ap_scroll = 0, ap_viewport = 10,
      ap_nickname = nickname, ap_connected = False, ap_channels = [], ap_people = [], ap_blocked = [],
      ap_channel_log = [PUBLIC \<mapsto> []], ap_dm_log = [], ap_sidebar = sidebar_new, ap_popup = [],
      ap_conv = Some (None, Some PUBLIC), ap_channel_switch = None, ap_dm_switch = None,
      ap_new_nickname = None, ap_retry = False, ap_unread = Map.empty, ap_last_read = Map.empty,
      ap_search = search_default, ap_viewer = viewer_new, ap_images = cache_new, ap_dimensions = Map.empty,
      ap_map_open = False, ap_joined = {}, ap_gate = [], ap_receipts = {}\<rparr>"

text \<open>The row of the sidebar that stands for the selection; without one the row stays.\<close>

fun flat_position :: "'i app \<Rightarrow> nat list \<Rightarrow> nat \<Rightarrow> nat option" where
  "flat_position a [] flat = None"
| "flat_position a (section # sections) flat =
     (let flat = flat + 1; b = ap_sidebar a in
      if sb_expanded b ! section then
        let cnt = [1, length (ap_channels a), length (ap_people a), length (ap_blocked a), 2] ! section;
            is_current = [public_selected a, sb_channel b \<noteq> None, sb_people b \<noteq> None, False, False] ! section;
            item = [0, case sb_channel b of Some i \<Rightarrow> i | None \<Rightarrow> 0,
                    case sb_people b of Some i \<Rightarrow> i | None \<Rightarrow> 0, 0, 0] ! section
        in if is_current then Some (flat + item) else flat_position a sections (flat + cnt)
      else flat_position a sections flat)"

definition update_sidebar_flat_selection :: "'i app \<Rightarrow> 'i app" where
  "update_sidebar_flat_selection a =
     (case flat_position a [0, 1, 2, 3, 4] 0 of Some i \<Rightarrow> a\<lparr>ap_flat := i\<rparr> | None \<Rightarrow> a)"

section \<open>Unread lines\<close>

definition current_key :: "'i app \<Rightarrow> text_bytes option" where
  "current_key a =
     (case get_current_messages a of
        (ms, Some who, ch) \<Rightarrow> Some (dm_key who)
      | (ms, None, Some ch) \<Rightarrow> Some ch
      | (ms, None, None) \<Rightarrow> None)"

definition mark_current_conversation_as_read :: "'i app \<Rightarrow> 'i app" where
  "mark_current_conversation_as_read a =
     (case current_key a of
        None \<Rightarrow> a
      | Some key \<Rightarrow> a\<lparr>ap_last_read := (ap_last_read a)(key \<mapsto> length (fst (get_current_messages a))),
                       ap_unread := (ap_unread a)(key := None)\<rparr>)"

definition get_unread_count :: "'i app \<Rightarrow> text_bytes \<Rightarrow> nat" where
  "get_unread_count a key = (case ap_unread a key of Some n \<Rightarrow> n | None \<Rightarrow> 0)"

definition add_unread_message :: "text_bytes \<Rightarrow> 'i app \<Rightarrow> 'i app" where
  "add_unread_message key a =
     (case current_key a of
        None \<Rightarrow> a
      | Some current \<Rightarrow>
          if current = key then a else a\<lparr>ap_unread := (ap_unread a)(key \<mapsto> get_unread_count a key + 1)\<rparr>)"

definition get_section_unread_count :: "'i app \<Rightarrow> nat \<Rightarrow> nat" where
  "get_section_unread_count a section =
     (if section = 0 then (if get_unread_count a PUBLIC > 0 then 1 else 0)
      else if section = 1 then sum_list (map (get_unread_count a) (ap_channels a))
      else if section = 2 then sum_list (map (\<lambda>person. get_unread_count a (dm_key person)) (ap_people a))
      else 0)"

section \<open>Lines\<close>

definition scroll_to_bottom :: "'i app \<Rightarrow> 'i app" where
  "scroll_to_bottom a = a\<lparr>ap_scroll := 0\<rparr>"

definition active_conversation :: "'i app \<Rightarrow> text_bytes" where
  "active_conversation a =
     (case ap_conv a of
        Some (Some user, ch) \<Rightarrow> dm_key user
      | Some (None, Some channel) \<Rightarrow> channel
      | _ \<Rightarrow> PUBLIC)"

definition note_image_link :: "(text_bytes \<Rightarrow> text_bytes) \<Rightarrow> text_bytes \<Rightarrow> text_bytes \<Rightarrow> text_bytes \<Rightarrow> 'i app \<Rightarrow> 'i app" where
  "note_image_link unicode sender conversation content a =
     a\<lparr>ap_viewer := note_links unicode sender conversation content (ap_viewer a)\<rparr>"

definition push_channel :: "text_bytes \<Rightarrow> message \<Rightarrow> nat option \<Rightarrow> 'i app \<Rightarrow> 'i app" where
  "push_channel ch m admitted a =
     a\<lparr>ap_channel_log := (ap_channel_log a)(ch \<mapsto> push_arrival (chan_messages a ch) m admitted)\<rparr>"

definition push_dm :: "text_bytes \<Rightarrow> message \<Rightarrow> nat option \<Rightarrow> 'i app \<Rightarrow> 'i app" where
  "push_dm who m admitted a = a\<lparr>ap_dm_log := AList.update who (push_arrival (dm_messages a who) m admitted) (ap_dm_log a)\<rparr>"

definition admit_line :: "moment \<Rightarrow> 'i app \<Rightarrow> nat option \<times> 'i app" where
  "admit_line t a = (let (lit, gate) = admit t (ap_gate a) in (lit, a\<lparr>ap_gate := gate\<rparr>))"

definition add_channel_line ::
  "(text_bytes \<Rightarrow> text_bytes) \<Rightarrow> local_time \<Rightarrow> moment \<Rightarrow> incoming_line \<Rightarrow> 'i app \<Rightarrow> 'i app" where
  "add_channel_line unicode local t line a =
     (let channel = in_channel line;
          epoch = believable_epoch t (in_epoch line);
          a = note_image_link unicode (in_sender line) channel (in_content line) a;
          m = \<lparr>me_sender = in_sender line, me_timestamp = show_time local t epoch, me_content = in_content line,
               me_is_self = False, me_epoch = epoch, me_id = None, me_delivery = None, me_arrived = Some (mo_instant t)\<rparr>;
          (lit, a) = admit_line t a;
          a = a\<lparr>ap_channel_log := (ap_channel_log a)(channel \<mapsto> insert_in_time_order t (chan_messages a channel) m lit)\<rparr>;
          (dm_target, channel_name) = (case ap_conv a of Some c \<Rightarrow> c | None \<Rightarrow> (None, None));
          a = (if channel = PUBLIC
               then (if \<not> public_selected a then add_unread_message PUBLIC a else a)
               else if channel_name \<noteq> Some channel \<or> dm_target \<noteq> None then add_unread_message channel a
               else a)
      in scroll_to_bottom a)"

definition add_dm_received ::
  "local_time \<Rightarrow> moment \<Rightarrow> text_bytes \<Rightarrow> text_bytes \<Rightarrow> text_bytes \<Rightarrow> int \<Rightarrow> 'i app \<Rightarrow> 'i app" where
  "add_dm_received local t sender message_id content sent_at a =
     (let sent_at = believable_epoch t sent_at;
          m = \<lparr>me_sender = sender, me_timestamp = show_time local t sent_at, me_content = content, me_is_self = False,
               me_epoch = sent_at, me_id = (if message_id \<noteq> [] then Some message_id else None), me_delivery = None,
               me_arrived = Some (mo_instant t)\<rparr>;
          (lit, a) = admit_line t a;
          a = push_dm sender m lit a;
          a = (if fst (snd (get_current_messages a)) \<noteq> Some sender then add_unread_message (dm_key sender) a else a)
      in scroll_to_bottom a)"

definition add_dm_sent ::
  "local_time \<Rightarrow> moment \<Rightarrow> text_bytes \<Rightarrow> text_bytes \<Rightarrow> text_bytes \<Rightarrow> 'i app \<Rightarrow> 'i app" where
  "add_dm_sent local t to_whom message_id content a =
     (let m = (message_now local t (ap_nickname a) content True)
                \<lparr>me_id := (if message_id \<noteq> [] then Some message_id else None)\<rparr>;
          (lit, a) = admit_line t a
      in scroll_to_bottom (push_dm to_whom m lit a))"

text \<open>A line of the client's own, shown in the conversation on screen.\<close>

definition push_current :: "message \<Rightarrow> nat option \<Rightarrow> 'i app \<Rightarrow> 'i app" where
  "push_current m lit a =
     (case (case ap_conv a of Some c \<Rightarrow> c | None \<Rightarrow> (None, None)) of
        (Some who, ch) \<Rightarrow> push_dm who m lit a
      | (None, Some channel) \<Rightarrow> push_channel channel m lit a
      | (None, None) \<Rightarrow> push_channel (get_selected_channel_name a) m lit a)"

definition add_notice_line :: "local_time \<Rightarrow> moment \<Rightarrow> text_bytes \<Rightarrow> 'i app \<Rightarrow> 'i app" where
  "add_notice_line local t line a =
     (let line = trim line in
      if line = [] then a
      else
        let m = message_now local t (ascii ''system'') line False; (lit, a) = admit_line t a
        in push_current m lit a)"

definition add_notice :: "local_time \<Rightarrow> moment \<Rightarrow> text_bytes \<Rightarrow> 'i app \<Rightarrow> 'i app" where
  "add_notice local t s a = scroll_to_bottom (fold (add_notice_line local t) (split_on 10 s) a)"

definition add_sent_message ::
  "(text_bytes \<Rightarrow> text_bytes) \<Rightarrow> local_time \<Rightarrow> moment \<Rightarrow> text_bytes \<Rightarrow> 'i app \<Rightarrow> 'i app" where
  "add_sent_message unicode local t s a =
     (let a = note_image_link unicode (ap_nickname a) (active_conversation a) s a;
          m = message_now local t (ap_nickname a) s True;
          a = (case (case ap_conv a of Some c \<Rightarrow> c | None \<Rightarrow> (None, None)) of
                 (None, None) \<Rightarrow> a
               | _ \<Rightarrow> let (lit, a) = admit_line t a in push_current m lit a)
      in scroll_to_bottom a)"

section \<open>Connection and switching\<close>

definition transition_to_connected :: "local_time \<Rightarrow> moment \<Rightarrow> 'i app \<Rightarrow> 'i app" where
  "transition_to_connected local t a =
     (let a = a\<lparr>ap_phase := Connected, ap_connected := True\<rparr>;
          final = map (\<lambda>content. message_now local t (ascii ''system'') content False) (ap_popup a);
          a = a\<lparr>ap_popup := []\<rparr>
      in a\<lparr>ap_channel_log := (ap_channel_log a)(PUBLIC \<mapsto> chan_messages a PUBLIC @ final)\<rparr>)"

definition clean_text :: "(text_bytes \<Rightarrow> bytes) \<Rightarrow> text_bytes \<Rightarrow> text_bytes" where
  "clean_text strip s = (case from_utf8 (strip s) of Some c \<Rightarrow> c | None \<Rightarrow> [])"

definition transition_to_error :: "(text_bytes \<Rightarrow> bytes) \<Rightarrow> text_bytes \<Rightarrow> 'i app \<Rightarrow> 'i app" where
  "transition_to_error strip e a = a\<lparr>ap_phase := PhaseError (clean_text strip e)\<rparr>"

definition add_popup_message :: "(text_bytes \<Rightarrow> bytes) \<Rightarrow> text_bytes \<Rightarrow> 'i app \<Rightarrow> 'i app" where
  "add_popup_message strip m a =
     (let trimmed = trim (clean_text strip m) in
      if trimmed = [] then a
      else let ms = ap_popup a @ [trimmed] in a\<lparr>ap_popup := drop (length ms - MAX_POPUP_MESSAGES) ms\<rparr>)"

definition trigger_connection_retry :: "'i app \<Rightarrow> 'i app" where
  "trigger_connection_retry a = a\<lparr>ap_retry := True, ap_phase := Connecting, ap_connected := False, ap_popup := []\<rparr>"

definition show_conversation :: "'i app \<Rightarrow> 'i app" where
  "show_conversation a =
     mark_current_conversation_as_read (update_sidebar_flat_selection (update_current_conversation a))"

definition join_channel :: "text_bytes \<Rightarrow> 'i app \<Rightarrow> 'i app" where
  "join_channel channel a =
     (if channel = PUBLIC then a
      else
        let a = (if channel \<in> set (ap_channels a) then a else a\<lparr>ap_channels := ap_channels a @ [channel]\<rparr>);
            a = a\<lparr>ap_sidebar := (ap_sidebar a)\<lparr>sb_public := None\<rparr>\<rparr>;
            a = (case position (\<lambda>c. c = channel) (ap_channels a) of
                   None \<Rightarrow> a
                 | Some i \<Rightarrow>
                     (show_conversation (a\<lparr>ap_sidebar := (ap_sidebar a)\<lparr>sb_channel := Some i\<rparr>\<rparr>))
                       \<lparr>ap_channel_switch := Some channel\<rparr>)
        in a\<lparr>ap_channel_log := (ap_channel_log a)(channel \<mapsto> chan_messages a channel)\<rparr>)"

definition switch_to_channel :: "text_bytes \<Rightarrow> 'i app \<Rightarrow> 'i app" where
  "switch_to_channel channel a =
     (case position (\<lambda>c. c = channel) (ap_channels a) of
        None \<Rightarrow> a
      | Some i \<Rightarrow>
          (show_conversation
            (a\<lparr>ap_sidebar := (ap_sidebar a)\<lparr>sb_public := None, sb_people := None, sb_channel := Some i\<rparr>\<rparr>))
              \<lparr>ap_channel_switch := Some channel\<rparr>)"

definition switch_to_public :: "'i app \<Rightarrow> 'i app" where
  "switch_to_public a =
     (show_conversation
       (a\<lparr>ap_sidebar := (ap_sidebar a)\<lparr>sb_public := Some True, sb_channel := None, sb_people := None\<rparr>\<rparr>))
         \<lparr>ap_channel_switch := Some PUBLIC\<rparr>"

definition switch_to_dm :: "text_bytes \<Rightarrow> 'i app \<Rightarrow> 'i app" where
  "switch_to_dm who a =
     (let a = a\<lparr>ap_sidebar := (ap_sidebar a)\<lparr>sb_public := None, sb_channel := None\<rparr>\<rparr> in
      case position (\<lambda>p. p = who) (ap_people a) of
        None \<Rightarrow> a
      | Some i \<Rightarrow>
          (show_conversation (a\<lparr>ap_sidebar := (ap_sidebar a)\<lparr>sb_people := Some i\<rparr>\<rparr>))\<lparr>ap_dm_switch := Some (who, [])\<rparr>)"

section \<open>Clearing\<close>

definition clear_channel :: "text_bytes \<Rightarrow> 'i app \<Rightarrow> 'i app" where
  "clear_channel ch a =
     (if ap_channel_log a ch \<noteq> None then a\<lparr>ap_channel_log := (ap_channel_log a)(ch \<mapsto> [])\<rparr> else a)"

definition clear_current_conversation :: "'i app \<Rightarrow> 'i app" where
  "clear_current_conversation a =
     (let a = (case (case ap_conv a of Some c \<Rightarrow> c | None \<Rightarrow> (None, None)) of
                 (Some who, ch) \<Rightarrow> if map_of (ap_dm_log a) who \<noteq> None then a\<lparr>ap_dm_log := AList.update who [] (ap_dm_log a)\<rparr> else a
               | (None, Some channel) \<Rightarrow> clear_channel channel a
               | (None, None) \<Rightarrow> clear_channel (get_selected_channel_name a) a)
      in a\<lparr>ap_scroll := 0\<rparr>)"

definition wipe_app :: "'i app \<Rightarrow> 'i app" where
  "wipe_app a =
     a\<lparr>ap_channel_log := [PUBLIC \<mapsto> []], ap_dm_log := [], ap_popup := [], ap_people := [], ap_blocked := [],
       ap_channels := [], ap_joined := {}, ap_images := cache_clear (ap_images a), ap_receipts := {},
       ap_dimensions := Map.empty, ap_viewer := (ap_viewer a)\<lparr>vw_open := False\<rparr>, ap_map_open := False\<rparr>"

section \<open>Receipts\<close>

text \<open>The first private line with the identifier, in the order of the map, is marked.\<close>

fun mark_first :: "text_bytes \<Rightarrow> delivery_status \<Rightarrow> message list \<Rightarrow> message list option" where
  "mark_first i st [] = None"
| "mark_first i st (m # ms) =
     (if me_id m = Some i
      then Some ((if (case me_delivery m of None \<Rightarrow> True | Some current \<Rightarrow> st > current)
                  then m\<lparr>me_delivery := Some st\<rparr> else m) # ms)
      else map_option ((#) m) (mark_first i st ms))"

fun mark_in_logs :: "text_bytes \<Rightarrow> delivery_status \<Rightarrow> (text_bytes \<times> message list) list \<Rightarrow> (text_bytes \<times> message list) list" where
  "mark_in_logs i st [] = []"
| "mark_in_logs i st ((who, ms) # logs) =
     (case mark_first i st ms of
        Some ms \<Rightarrow> (who, ms) # logs
      | None \<Rightarrow> (who, ms) # mark_in_logs i st logs)"

definition mark_delivery :: "text_bytes \<Rightarrow> delivery_status \<Rightarrow> 'i app \<Rightarrow> 'i app" where
  "mark_delivery i st a = a\<lparr>ap_dm_log := mark_in_logs i st (ap_dm_log a)\<rparr>"

definition take_unreceipted_from :: "text_bytes \<Rightarrow> 'i app \<Rightarrow> text_bytes list \<times> 'i app" where
  "take_unreceipted_from peer a =
     (case map_of (ap_dm_log a) peer of
        None \<Rightarrow> ([], a)
      | Some ms \<Rightarrow>
          (let fresh = filter (\<lambda>i. i \<notin> ap_receipts a) (List.map_filter me_id (filter (\<lambda>m. \<not> me_is_self m) ms))
           in (fresh, a\<lparr>ap_receipts := ap_receipts a \<union> set fresh\<rparr>)))"

definition update_blocked_list :: "text_bytes list \<Rightarrow> 'i app \<Rightarrow> 'i app" where
  "update_blocked_list names a = a\<lparr>ap_blocked := names\<rparr>"

definition update_nickname :: "text_bytes \<Rightarrow> 'i app \<Rightarrow> 'i app" where
  "update_nickname name a = a\<lparr>ap_nickname := name, ap_new_nickname := Some name\<rparr>"

section \<open>Keys and the main loop\<close>

definition current_total :: "'i app \<Rightarrow> nat" where
  "current_total a = length (fst (get_current_messages a))"

definition jump_to_current_match :: "'i app \<Rightarrow> 'i app" where
  "jump_to_current_match a =
     (case search_current (ap_search a) of
        None \<Rightarrow> a
      | Some index \<Rightarrow> a\<lparr>ap_scroll := scroll_for index (current_total a) (ap_viewport a)\<rparr>)"

definition rerun_search :: "(text_bytes \<Rightarrow> text_bytes) \<Rightarrow> 'i app \<Rightarrow> 'i app" where
  "rerun_search unicode a = a\<lparr>ap_search := search_run unicode (fst (get_current_messages a)) (ap_search a)\<rparr>"

text \<open>The keys of the search prompt and of the log; a character key is its text.\<close>

datatype log_key = KeyEsc | KeyEnter | KeyBackspace | KeyChar text_bytes | KeyUp | KeyDown | PageUp | PageDown | KeyHome | KeyEnd | KeyTab

fun handle_search_events :: "(text_bytes \<Rightarrow> text_bytes) \<Rightarrow> log_key \<Rightarrow> 'i app \<Rightarrow> 'i app" where
  "handle_search_events unicode KeyEsc a =
     (let (scroll, s) = search_cancel (ap_search a) in a\<lparr>ap_search := s, ap_scroll := scroll\<rparr>)"
| "handle_search_events unicode KeyEnter a = jump_to_current_match (a\<lparr>ap_search := search_commit (ap_search a)\<rparr>)"
| "handle_search_events unicode KeyBackspace a = rerun_search unicode (a\<lparr>ap_search := search_backspace (ap_search a)\<rparr>)"
| "handle_search_events unicode (KeyChar c) a = rerun_search unicode (a\<lparr>ap_search := search_push c (ap_search a)\<rparr>)"
| "handle_search_events unicode _ a = a"

definition handle_main_panel_events :: "log_key \<Rightarrow> 'i app \<Rightarrow> 'i app" where
  "handle_main_panel_events key a =
     (let height = ap_viewport a; max_scroll = current_total a - height in
      if is_walking (ap_search a) \<and> key = KeyChar (ascii ''n'')
      then jump_to_current_match (a\<lparr>ap_search := search_next (ap_search a)\<rparr>)
      else if is_walking (ap_search a) \<and> key = KeyChar (ascii ''N'')
      then jump_to_current_match (a\<lparr>ap_search := search_previous (ap_search a)\<rparr>)
      else if is_walking (ap_search a) \<and> key = KeyEsc
      then (let (scroll, s) = search_cancel (ap_search a) in a\<lparr>ap_search := s, ap_scroll := scroll\<rparr>)
      else case key of
        KeyChar c \<Rightarrow> if c = ascii ''/'' then a\<lparr>ap_search := search_open (ap_scroll a) (ap_search a)\<rparr> else a
      | KeyTab \<Rightarrow> a\<lparr>ap_focus := InputBox\<rparr>
      | KeyUp \<Rightarrow> a\<lparr>ap_scroll := min (ap_scroll a + 1) max_scroll\<rparr>
      | KeyDown \<Rightarrow> a\<lparr>ap_scroll := ap_scroll a - 1\<rparr>
      | PageUp \<Rightarrow> a\<lparr>ap_scroll := min (ap_scroll a + height) max_scroll\<rparr>
      | PageDown \<Rightarrow> a\<lparr>ap_scroll := ap_scroll a - height\<rparr>
      | KeyHome \<Rightarrow> a\<lparr>ap_scroll := max_scroll\<rparr>
      | KeyEnd \<Rightarrow> scroll_to_bottom a
      | _ \<Rightarrow> a)"

text \<open>
  Enter in the input box: the text goes to the main loop, unless its queue is full, and
  where it is no command it is shown at once.  The result is the text that is left.
\<close>

definition enter_line ::
  "(text_bytes \<Rightarrow> text_bytes) \<Rightarrow> local_time \<Rightarrow> moment \<Rightarrow> bool \<Rightarrow> text_bytes \<Rightarrow> 'i app \<Rightarrow> text_bytes option \<times> text_bytes \<times> 'i app" where
  "enter_line unicode local t queue_accepts input a =
     (if input \<noteq> [] \<and> queue_accepts
      then (Some input, [], if starts_with input [47] then a else add_sent_message unicode local t input a)
      else (None, input, a))"

text \<open>Where the main loop sends a line that is no command.\<close>

datatype line_route = ToLocation text_bytes | NotSent | ToEverybody

definition route_line :: "(text_bytes \<Rightarrow> text_bytes) \<Rightarrow> 'i app \<Rightarrow> line_route" where
  "route_line unicode a =
     (case Option.bind (Option.bind (ap_conv a) snd) (geohash_from_channel unicode) of
        Some geohash \<Rightarrow> ToLocation geohash
      | None \<Rightarrow> if \<not> ap_connected a then NotSent else ToEverybody)"

text \<open>The list of people, from the location channel on screen or from the mesh.\<close>

definition sync_people ::
  "(text_bytes \<Rightarrow> text_bytes) \<Rightarrow> (text_bytes \<Rightarrow> text_bytes list) \<Rightarrow> text_bytes list \<Rightarrow> 'i app \<Rightarrow> 'i app" where
  "sync_people unicode participants mesh_names a =
     (let people = (case Option.bind (Option.bind (ap_conv a) snd) (geohash_from_channel unicode) of
                      Some geohash \<Rightarrow> participants geohash | None \<Rightarrow> mesh_names) in
      if people = ap_people a then a
      else
        let chosen = selected (sb_people (ap_sidebar a)) (ap_people a);
            a = a\<lparr>ap_people := people\<rparr>;
            i = Option.bind chosen (\<lambda>name. position (\<lambda>candidate. candidate = name) people)
        in update_sidebar_flat_selection (a\<lparr>ap_sidebar := (ap_sidebar a)\<lparr>sb_people := i\<rparr>\<rparr>))"

section \<open>What the operations leave alone\<close>

lemma conversation_keeps [simp]:
  "ap_channel_log (update_current_conversation a) = ap_channel_log a" "ap_dm_log (update_current_conversation a) = ap_dm_log a"
  "ap_receipts (update_current_conversation a) = ap_receipts a"
  by (auto simp: update_current_conversation_def Let_def split: option.splits)

lemma flat_keeps [simp]:
  "ap_channel_log (update_sidebar_flat_selection a) = ap_channel_log a" "ap_dm_log (update_sidebar_flat_selection a) = ap_dm_log a"
  "ap_receipts (update_sidebar_flat_selection a) = ap_receipts a"
  by (auto simp: update_sidebar_flat_selection_def split: option.splits)

lemma read_keeps [simp]:
  "ap_channel_log (mark_current_conversation_as_read a) = ap_channel_log a" "ap_dm_log (mark_current_conversation_as_read a) = ap_dm_log a"
  "ap_receipts (mark_current_conversation_as_read a) = ap_receipts a"
  by (auto simp: mark_current_conversation_as_read_def split: option.splits)

lemma unread_keeps [simp]:
  "ap_channel_log (add_unread_message k a) = ap_channel_log a" "ap_dm_log (add_unread_message k a) = ap_dm_log a"
  "ap_receipts (add_unread_message k a) = ap_receipts a"
  by (auto simp: add_unread_message_def split: option.splits)

lemma scroll_keeps [simp]:
  "ap_channel_log (scroll_to_bottom a) = ap_channel_log a" "ap_dm_log (scroll_to_bottom a) = ap_dm_log a"
  "ap_receipts (scroll_to_bottom a) = ap_receipts a"
  by (simp_all add: scroll_to_bottom_def)

lemma note_keeps [simp]:
  "ap_channel_log (note_image_link u s c t a) = ap_channel_log a" "ap_dm_log (note_image_link u s c t a) = ap_dm_log a"
  "ap_receipts (note_image_link u s c t a) = ap_receipts a" "ap_conv (note_image_link u s c t a) = ap_conv a"
  "ap_nickname (note_image_link u s c t a) = ap_nickname a"
  by (simp_all add: note_image_link_def)

lemma admit_keeps [simp]:
  "ap_channel_log (snd (admit_line t a)) = ap_channel_log a" "ap_dm_log (snd (admit_line t a)) = ap_dm_log a"
  "ap_receipts (snd (admit_line t a)) = ap_receipts a" "ap_conv (snd (admit_line t a)) = ap_conv a"
  by (simp_all add: admit_line_def split: prod.splits)

lemma push_dm_keeps [simp]:
  "ap_channel_log (push_dm w m l a) = ap_channel_log a" "ap_receipts (push_dm w m l a) = ap_receipts a"
  by (simp_all add: push_dm_def)

lemma push_channel_keeps [simp]:
  "ap_dm_log (push_channel w m l a) = ap_dm_log a" "ap_receipts (push_channel w m l a) = ap_receipts a"
  by (simp_all add: push_channel_def)

lemma show_keeps [simp]:
  "ap_channel_log (show_conversation a) = ap_channel_log a" "ap_dm_log (show_conversation a) = ap_dm_log a"
  "ap_receipts (show_conversation a) = ap_receipts a"
  by (simp_all add: show_conversation_def)

section \<open>Logs in the order of time\<close>

definition log_ok :: "nat \<Rightarrow> message list \<Rightarrow> bool" where
  "log_ok now ms \<longleftrightarrow> in_time_order ms \<and> me_epoch ` set ms \<subseteq> {0..int now}"

definition logs_ok :: "nat \<Rightarrow> 'i app \<Rightarrow> bool" where
  "logs_ok now a \<longleftrightarrow> (\<forall>ch ms. ap_channel_log a ch = Some ms \<longrightarrow> log_ok now ms)"

lemma log_ok_Nil [simp]: "log_ok now []"
  by (simp add: log_ok_def in_time_order_def)

lemma logs_okI:
  assumes "logs_ok now a" "log_ok now ms" "ap_channel_log a' = (ap_channel_log a)(ch \<mapsto> ms)"
  shows "logs_ok now a'"
  using assms by (auto simp: logs_ok_def split: if_splits)

lemma logs_ok_cong: "ap_channel_log a' = ap_channel_log a \<Longrightarrow> logs_ok now a' = logs_ok now a"
  by (simp add: logs_ok_def)

lemma logs_ok_later: "logs_ok now a \<Longrightarrow> now \<le> now' \<Longrightarrow> logs_ok now' a"
  by (fastforce simp: logs_ok_def log_ok_def)

lemma chan_messages_ok: "logs_ok now a \<Longrightarrow> log_ok now (chan_messages a ch)"
  by (auto simp: logs_ok_def chan_messages_def split: option.splits)

lemma epochs_unlit: "me_epoch ` set ms = me_epoch ` set (map unlit ms)"
  by (simp add: image_image)

lemma push_epochs: "me_epoch ` set (push_arrival ms m lit) = insert (me_epoch m) (me_epoch ` set ms)"
  unfolding epochs_unlit [of "push_arrival ms m lit"] push_unlit by (simp add: image_image)

lemma insert_epochs:
  "in_time_order ms \<Longrightarrow> me_epoch ` set (insert_in_time_order t ms m lit) = insert (me_epoch m) (me_epoch ` set ms)"
  unfolding epochs_unlit [of "insert_in_time_order t ms m lit"] insert_places
  by (simp add: filter_map comp_def image_Un image_image) (auto simp: image_iff not_le, metis not_le)

lemma push_ok:
  assumes "log_ok now ms" "me_epoch m = int now"
  shows "log_ok now (push_arrival ms m lit)"
proof -
  have "\<forall>x \<in> set ms. me_epoch x \<le> me_epoch m" using assms by (auto simp: log_ok_def)
  then show ?thesis using push_in_order [of ms m lit] assms by (simp add: log_ok_def push_epochs)
qed

lemma insert_ok:
  assumes "log_ok now ms" "0 \<le> me_epoch m" "me_epoch m \<le> int now"
  shows "log_ok now (insert_in_time_order t ms m lit)"
  using assms insert_in_order [of ms t m lit] insert_epochs [of ms t m lit] by (simp add: log_ok_def)

lemma append_ok:
  assumes "log_ok now ms" "\<forall>m \<in> set ns. me_epoch m = int now"
  shows "log_ok now (ms @ ns)"
proof -
  have "sorted (map me_epoch ns)" using assms(2) by (induction ns) auto
  then show ?thesis using assms by (auto simp: log_ok_def in_time_order_def sorted_append)
qed

lemma believable_range: "0 \<le> believable_epoch t e" "believable_epoch t e \<le> int (mo_epoch t)"
  by (simp_all add: believable_epoch_def)

lemma push_channel_ok: "logs_ok now a \<Longrightarrow> me_epoch m = int now \<Longrightarrow> logs_ok now (push_channel ch m lit a)"
  by (rule logs_okI [where a = a]) (auto simp: push_channel_def intro: push_ok chan_messages_ok)

lemma push_current_ok: "logs_ok now a \<Longrightarrow> me_epoch m = int now \<Longrightarrow> logs_ok now (push_current m lit a)"
  by (auto simp: push_current_def push_channel_ok logs_ok_cong [of "push_dm _ _ _ _"] split: option.splits prod.splits)

lemma admit_ok: "admit_line t a = (lit, a') \<Longrightarrow> logs_ok now a \<Longrightarrow> logs_ok now a'"
  using admit_keeps(1) [of t a] by (simp add: logs_ok_def)

lemma message_now_epoch [simp]: "me_epoch (message_now local t s c b) = int (mo_epoch t)"
  by (simp add: message_now_def)

section \<open>The conversations at work\<close>

datatype app_event =
    EvLine incoming_line
  | EvPrivate text_bytes text_bytes text_bytes int
  | EvPrivateSent text_bytes text_bytes text_bytes
  | EvNotice text_bytes
  | EvEnter text_bytes bool
  | EvConnected
  | EvPopup text_bytes
  | EvError text_bytes
  | EvRetry
  | EvJoin text_bytes
  | EvChannel text_bytes
  | EvPublic
  | EvDm text_bytes
  | EvClear
  | EvWipe
  | EvDelivery text_bytes delivery_status
  | EvReceipts text_bytes
  | EvPeople "text_bytes list"
  | EvSearchKey log_key
  | EvLogKey log_key

record surroundings =
  su_unicode :: "text_bytes \<Rightarrow> text_bytes"
  su_local :: local_time
  su_strip :: "text_bytes \<Rightarrow> bytes"
  su_participants :: "text_bytes \<Rightarrow> text_bytes list"

fun app_do :: "surroundings \<Rightarrow> moment \<Rightarrow> app_event \<Rightarrow> 'i app \<Rightarrow> 'i app" where
  "app_do u t (EvLine l) a = add_channel_line (su_unicode u) (su_local u) t l a"
| "app_do u t (EvPrivate s i c sent) a = add_dm_received (su_local u) t s i c sent a"
| "app_do u t (EvPrivateSent to_whom i c) a = add_dm_sent (su_local u) t to_whom i c a"
| "app_do u t (EvNotice s) a = add_notice (su_local u) t s a"
| "app_do u t (EvEnter s accepts) a = snd (snd (enter_line (su_unicode u) (su_local u) t accepts s a))"
| "app_do u t EvConnected a = transition_to_connected (su_local u) t a"
| "app_do u t (EvPopup s) a = add_popup_message (su_strip u) s a"
| "app_do u t (EvError s) a = transition_to_error (su_strip u) s a"
| "app_do u t EvRetry a = trigger_connection_retry a"
| "app_do u t (EvJoin ch) a = join_channel ch a"
| "app_do u t (EvChannel ch) a = switch_to_channel ch a"
| "app_do u t EvPublic a = switch_to_public a"
| "app_do u t (EvDm who) a = switch_to_dm who a"
| "app_do u t EvClear a = clear_current_conversation a"
| "app_do u t EvWipe a = wipe_app a"
| "app_do u t (EvDelivery i st) a = mark_delivery i st a"
| "app_do u t (EvReceipts peer) a = snd (take_unreceipted_from peer a)"
| "app_do u t (EvPeople names) a = sync_people (su_unicode u) (su_participants u) names a"
| "app_do u t (EvSearchKey k) a = handle_search_events (su_unicode u) k a"
| "app_do u t (EvLogKey k) a = handle_main_panel_events k a"

definition app_run :: "surroundings \<Rightarrow> (moment \<times> app_event) list \<Rightarrow> 'i app \<Rightarrow> 'i app" where
  "app_run u = fold (\<lambda>(t, e). app_do u t e)"

lemma search_keys_keep [simp]:
  "ap_channel_log (handle_search_events uc k a) = ap_channel_log a" "ap_dm_log (handle_search_events uc k a) = ap_dm_log a"
  "ap_receipts (handle_search_events uc k a) = ap_receipts a"
  by (cases k; simp add: jump_to_current_match_def rerun_search_def split: option.splits prod.splits)+

lemma log_keys_keep [simp]:
  "ap_channel_log (handle_main_panel_events k a) = ap_channel_log a" "ap_dm_log (handle_main_panel_events k a) = ap_dm_log a"
  "ap_receipts (handle_main_panel_events k a) = ap_receipts a"
  by (simp_all add: handle_main_panel_events_def jump_to_current_match_def scroll_to_bottom_def Let_def
      split: option.splits prod.splits log_key.splits)

lemma people_keep [simp]:
  "ap_channel_log (sync_people uc ps ns a) = ap_channel_log a" "ap_dm_log (sync_people uc ps ns a) = ap_dm_log a"
  "ap_receipts (sync_people uc ps ns a) = ap_receipts a"
  by (simp_all add: sync_people_def Let_def)

lemma receipts_keep [simp]:
  "ap_channel_log (snd (take_unreceipted_from p a)) = ap_channel_log a" "ap_dm_log (snd (take_unreceipted_from p a)) = ap_dm_log a"
  by (simp_all add: take_unreceipted_from_def Let_def split: option.splits)

lemma switches_keep [simp]:
  "ap_channel_log (switch_to_channel ch a) = ap_channel_log a" "ap_channel_log (switch_to_public a) = ap_channel_log a"
  "ap_channel_log (switch_to_dm w a) = ap_channel_log a"
  by (simp_all add: switch_to_channel_def switch_to_public_def switch_to_dm_def Let_def split: option.splits)

lemma quiet_keep [simp]:
  "ap_channel_log (add_dm_received l t s i c sent a) = ap_channel_log a" "ap_channel_log (add_dm_sent l t w i c a) = ap_channel_log a"
  "ap_channel_log (add_popup_message st s a) = ap_channel_log a" "ap_channel_log (transition_to_error st s a) = ap_channel_log a"
  "ap_channel_log (trigger_connection_retry a) = ap_channel_log a" "ap_channel_log (mark_delivery i d a) = ap_channel_log a"
  by (simp_all add: add_dm_received_def add_dm_sent_def add_popup_message_def transition_to_error_def
      trigger_connection_retry_def mark_delivery_def split_beta Let_def)

lemma notice_ok: "logs_ok (mo_epoch t) a \<Longrightarrow> logs_ok (mo_epoch t) (add_notice l t s a)"
proof -
  have line: "logs_ok (mo_epoch t) (add_notice_line l t x b)" if "logs_ok (mo_epoch t) b" for x and b :: "'a app"
    using that by (auto simp: add_notice_line_def Let_def split_beta intro!: push_current_ok)
      (simp add: logs_ok_def)
  have "logs_ok (mo_epoch t) (fold (add_notice_line l t) xs b)" if "logs_ok (mo_epoch t) b" for xs and b :: "'a app"
    using that by (induction xs arbitrary: b) (simp_all add: line)
  then show "logs_ok (mo_epoch t) a \<Longrightarrow> ?thesis" by (simp add: add_notice_def logs_ok_cong [of "scroll_to_bottom _"])
qed

definition line_message :: "local_time \<Rightarrow> moment \<Rightarrow> incoming_line \<Rightarrow> message" where
  "line_message local t line =
     (let epoch = believable_epoch t (in_epoch line) in
      \<lparr>me_sender = in_sender line, me_timestamp = show_time local t epoch, me_content = in_content line,
       me_is_self = False, me_epoch = epoch, me_id = None, me_delivery = None, me_arrived = Some (mo_instant t)\<rparr>)"

lemma line_log:
  "ap_channel_log (add_channel_line uc l t line a) = (ap_channel_log a)(in_channel line \<mapsto>
     insert_in_time_order t (chan_messages a (in_channel line)) (line_message l t line) (fst (admit t (ap_gate a))))"
  by (auto simp: add_channel_line_def line_message_def Let_def split_beta admit_line_def note_image_link_def chan_messages_def)

lemma line_ok: "logs_ok (mo_epoch t) a \<Longrightarrow> logs_ok (mo_epoch t) (add_channel_line uc l t line a)"
  by (rule logs_okI [OF _ _ line_log], assumption, rule insert_ok [OF chan_messages_ok])
    (simp_all add: line_message_def Let_def believable_range)

lemma typed_ok: "logs_ok (mo_epoch t) a \<Longrightarrow> logs_ok (mo_epoch t) (add_sent_message uc l t s a)"
proof -
  let ?b = "note_image_link uc (ap_nickname a) (active_conversation a) s a"
  assume "logs_ok (mo_epoch t) a"
  then have b: "logs_ok (mo_epoch t) ?b" by (simp add: logs_ok_cong [of ?b])
  then have "logs_ok (mo_epoch t) (snd (admit_line t ?b))" by (simp add: logs_ok_def)
  then show ?thesis using b
    by (auto simp: add_sent_message_def Let_def split_beta logs_ok_cong [of "scroll_to_bottom _"]
        intro!: push_current_ok split: option.splits)
qed

lemma connected_ok: "logs_ok (mo_epoch t) a \<Longrightarrow> logs_ok (mo_epoch t) (transition_to_connected l t a)"
  by (rule logs_okI [where a = a], assumption, rule append_ok [OF chan_messages_ok])
    (auto simp: transition_to_connected_def Let_def chan_messages_def)

lemma join_ok: "logs_ok now a \<Longrightarrow> logs_ok now (join_channel ch a)"
proof (cases "ch = PUBLIC")
  case False
  assume ok: "logs_ok now a"
  have "ap_channel_log (join_channel ch a) = (ap_channel_log a)(ch \<mapsto> chan_messages a ch)"
    using False by (auto simp: join_channel_def Let_def chan_messages_def split: option.splits)
  then show ?thesis by (rule logs_okI [OF ok chan_messages_ok [OF ok]])
qed (simp add: join_channel_def)

lemma clear_log_ok: "logs_ok now a \<Longrightarrow> logs_ok now (clear_current_conversation a)"
  by (auto simp: clear_current_conversation_def clear_channel_def logs_ok_def Let_def split: option.splits prod.splits)

lemma app_do_ok:
  assumes ok: "logs_ok (mo_epoch t) a"
  shows "logs_ok (mo_epoch t) (app_do u t e a)"
proof -
  have keep: "logs_ok (mo_epoch t) a'" if "ap_channel_log a' = ap_channel_log a" for a' :: "'a app"
    using ok that by (simp add: logs_ok_def)
  show ?thesis
  proof (cases e)
    case (EvEnter s accepts)
    then show ?thesis by (auto simp: enter_line_def typed_ok ok)
  next
    case EvWipe
    then show ?thesis by (auto simp: wipe_app_def logs_ok_def split: if_splits)
  qed (simp_all add: line_ok notice_ok connected_ok join_ok clear_log_ok ok keep)
qed

lemma app_run_ok:
  assumes "logs_ok now a" "sorted (now # map (mo_epoch \<circ> fst) es)"
  shows "logs_ok (last (now # map (mo_epoch \<circ> fst) es)) (app_run u es a)"
  using assms
proof (induction es arbitrary: a now)
  case Nil
  then show ?case by (auto simp: app_run_def)
next
  case (Cons te es)
  obtain t e where te: "te = (t, e)" by (cases te)
  have "logs_ok (mo_epoch t) (app_do u t e a)"
    using Cons.prems by (intro app_do_ok logs_ok_later [OF Cons.prems(1)]) (simp add: te)
  from Cons.IH [OF this] show ?case using Cons.prems(2) by (simp add: te app_run_def)
qed

section \<open>Private logs only grow\<close>

definition fixed_part :: "message \<Rightarrow> message" where
  "fixed_part m = m\<lparr>me_arrived := None, me_delivery := None\<rparr>"

definition delivery_rank :: "message \<Rightarrow> nat" where
  "delivery_rank m = (case me_delivery m of None \<Rightarrow> 0 | Some StatusDelivered \<Rightarrow> 1 | Some StatusRead \<Rightarrow> 2)"

definition same_line :: "message \<Rightarrow> message \<Rightarrow> bool" where
  "same_line m m' \<longleftrightarrow> fixed_part m' = fixed_part m \<and> delivery_rank m \<le> delivery_rank m'"

definition grows :: "message list \<Rightarrow> message list \<Rightarrow> bool" where
  "grows old new \<longleftrightarrow> (\<exists>ms ns. new = ms @ ns \<and> list_all2 same_line old ms)"

lemma same_line_refl [simp]: "same_line m m"
  by (simp add: same_line_def)

lemma same_line_trans: "same_line a b \<Longrightarrow> same_line b c \<Longrightarrow> same_line a c"
  by (simp add: same_line_def)

lemma grows_refl [simp]: "grows ms ms"
  unfolding grows_def by (intro exI [of _ ms] exI [of _ "[]"]) (simp add: list_all2_same)

lemma grows_same: "list_all2 same_line old new \<Longrightarrow> grows old new"
  unfolding grows_def by (intro exI [of _ new] exI [of _ "[]"]) simp

lemma grows_trans:
  assumes "grows a b" "grows b c"
  shows "grows a c"
proof -
  obtain ms ns where b: "b = ms @ ns" "list_all2 same_line a ms" using assms(1) by (auto simp: grows_def)
  obtain ms' ns' where c: "c = ms' @ ns'" "list_all2 same_line b ms'" using assms(2) by (auto simp: grows_def)
  obtain us vs where u: "ms' = us @ vs" "list_all2 same_line ms us"
    using c(2) by (auto simp: b(1) list_all2_append1)
  have "list_all2 same_line a us" by (rule list_all2_trans [OF _ b(2) u(2)]) (rule same_line_trans)
  then show ?thesis unfolding grows_def by (intro exI [of _ us] exI [of _ "vs @ ns'"]) (simp add: c(1) u(1))
qed

lemma unlit_same: "map unlit new = map unlit old \<Longrightarrow> list_all2 same_line old new"
proof (induction old arbitrary: new)
  case (Cons m old)
  then obtain m' new' where n: "new = m' # new'" "unlit m' = unlit m" "map unlit new' = map unlit old" by auto
  have "same_line m m'" using n(2) by (cases m; cases m') (simp add: unlit_def same_line_def fixed_part_def delivery_rank_def)
  then show ?case using Cons.IH n by simp
qed simp

lemma push_grows: "grows ms (push_arrival ms m lit)"
proof -
  obtain ms' m' where a: "apply_admission ms m lit = (ms', m')" by fastforce
  have "list_all2 same_line ms ms'" using admission_unlit(1) [of ms m lit] a by (intro unlit_same) simp
  then show ?thesis unfolding grows_def by (intro exI [of _ ms'] exI [of _ "[m']"]) (simp add: push_arrival_def a)
qed

lemma mark_first_same: "mark_first i st ms = Some ms' \<Longrightarrow> list_all2 same_line ms ms'"
proof (induction ms arbitrary: ms')
  case (Cons m ms)
  show ?case
  proof (cases "me_id m = Some i")
    case True
    have "same_line m (m\<lparr>me_delivery := Some st\<rparr>)" if "case me_delivery m of None \<Rightarrow> True | Some c \<Rightarrow> c < st"
      using that by (cases st) (auto simp: same_line_def fixed_part_def delivery_rank_def less_delivery_status_def split: option.splits)
    then show ?thesis using True Cons.prems by (auto simp: list_all2_same split: if_splits)
  next
    case False
    then show ?thesis using Cons by auto
  qed
qed simp

lemma mark_in_logs_grows:
  "grows (case map_of logs w of Some ms \<Rightarrow> ms | None \<Rightarrow> [])
         (case map_of (mark_in_logs i st logs) w of Some ms \<Rightarrow> ms | None \<Rightarrow> [])"
proof (induction i st logs rule: mark_in_logs.induct)
  case (2 i st who ms logs)
  then show ?case by (auto intro: grows_same mark_first_same split: option.splits)
qed simp

lemma dm_messages_cong: "ap_dm_log a' = ap_dm_log a \<Longrightarrow> dm_messages a' w = dm_messages a w"
  by (simp add: dm_messages_def)

lemma dm_messages_keep [simp]:
  "dm_messages (scroll_to_bottom a) w = dm_messages a w" "dm_messages (add_unread_message k a) w = dm_messages a w"
  "dm_messages (note_image_link uc s c t a) w = dm_messages a w" "dm_messages (push_channel ch m lit a) w = dm_messages a w"
  "dm_messages (snd (admit_line tm a)) w = dm_messages a w"
  by (rule dm_messages_cong, simp)+

lemma push_dm_messages:
  "dm_messages (push_dm who m lit a) w = (if w = who then push_arrival (dm_messages a who) m lit else dm_messages a w)"
  by (simp add: dm_messages_def push_dm_def update_conv')

lemma push_dm_grows: "grows (dm_messages a w) (dm_messages (push_dm who m lit a) w)"
  by (simp add: push_dm_messages push_grows)

lemma push_current_grows: "grows (dm_messages a w) (dm_messages (push_current m lit a) w)"
  by (auto simp: push_current_def push_dm_grows split: option.splits)

lemma notice_grows: "grows (dm_messages a w) (dm_messages (add_notice l t s a) w)"
proof -
  have line: "grows (dm_messages b w) (dm_messages (add_notice_line l t x b) w)" for x and b :: "'a app"
    using push_current_grows [of "snd (admit_line t b)" w]
    by (simp add: add_notice_line_def Let_def split_beta)
  have "grows (dm_messages b w) (dm_messages (fold (add_notice_line l t) xs b) w)" for xs and b :: "'a app"
  proof (induction xs arbitrary: b)
    case (Cons x xs)
    show ?case using grows_trans [OF line Cons.IH] by simp
  qed simp
  then show ?thesis by (simp add: add_notice_def)
qed

lemma received_grows: "grows (dm_messages a w) (dm_messages (add_dm_received l t s i c sent a) w)"
  using push_dm_grows [of "snd (admit_line t a)" w]
  by (simp add: add_dm_received_def Let_def split_beta)

lemma sent_grows: "grows (dm_messages a w) (dm_messages (add_dm_sent l t to_whom i c a) w)"
  using push_dm_grows [of "snd (admit_line t a)" w]
  by (simp add: add_dm_sent_def Let_def split_beta)

lemma typed_grows: "grows (dm_messages a w) (dm_messages (add_sent_message uc l t s a) w)"
proof -
  let ?b = "note_image_link uc (ap_nickname a) (active_conversation a) s a"
  show ?thesis
    using push_current_grows [of "snd (admit_line t ?b)" w]
    by (simp add: add_sent_message_def Let_def split_beta split: option.split prod.split)
qed

lemma other_dm_logs [simp]:
  "ap_dm_log (add_channel_line uc l t line a) = ap_dm_log a" "ap_dm_log (transition_to_connected l t a) = ap_dm_log a"
  "ap_dm_log (add_popup_message st s a) = ap_dm_log a" "ap_dm_log (transition_to_error st s a) = ap_dm_log a"
  "ap_dm_log (trigger_connection_retry a) = ap_dm_log a" "ap_dm_log (join_channel ch a) = ap_dm_log a"
  "ap_dm_log (switch_to_channel ch a) = ap_dm_log a" "ap_dm_log (switch_to_public a) = ap_dm_log a"
  "ap_dm_log (switch_to_dm who a) = ap_dm_log a"
  by (simp_all add: add_channel_line_def transition_to_connected_def add_popup_message_def transition_to_error_def
      trigger_connection_retry_def join_channel_def switch_to_channel_def switch_to_public_def switch_to_dm_def
      split_beta Let_def split: option.splits)

lemma app_do_grows:
  assumes "e \<noteq> EvClear" "e \<noteq> EvWipe"
  shows "grows (dm_messages a w) (dm_messages (app_do u t e a) w)"
proof -
  have keep: "grows (dm_messages a w) (dm_messages a' w)" if "ap_dm_log a' = ap_dm_log a" for a' :: "'a app"
    using that by (simp add: dm_messages_def)
  show ?thesis
  proof (cases e)
    case (EvEnter s accepts)
    then show ?thesis by (auto simp: enter_line_def typed_grows)
  next
    case (EvDelivery i st)
    then show ?thesis using mark_in_logs_grows [of "ap_dm_log a" w i st] by (simp add: mark_delivery_def dm_messages_def)
  qed (use assms in \<open>simp_all add: received_grows sent_grows notice_grows keep\<close>)
qed

section \<open>Receipts\<close>

lemma pushes_receipts [simp]: "ap_receipts (push_current m lit a) = ap_receipts a"
  by (simp add: push_current_def split: option.splits prod.splits)

lemma lines_receipts [simp]:
  "ap_receipts (add_notice_line l t s a) = ap_receipts a" "ap_receipts (add_channel_line uc l t line a) = ap_receipts a"
  "ap_receipts (add_dm_received l t s i c sent a) = ap_receipts a" "ap_receipts (add_dm_sent l t who i c a) = ap_receipts a"
  by (simp_all add: add_notice_line_def add_channel_line_def add_dm_received_def add_dm_sent_def Let_def split_beta)

lemma typed_receipts [simp]: "ap_receipts (add_sent_message uc l t s a) = ap_receipts a"
  by (simp add: add_sent_message_def Let_def split_beta split: option.split prod.split)

lemma quiet_receipts [simp]:
  "ap_receipts (transition_to_connected l t a) = ap_receipts a" "ap_receipts (add_popup_message st s a) = ap_receipts a"
  "ap_receipts (transition_to_error st s a) = ap_receipts a" "ap_receipts (trigger_connection_retry a) = ap_receipts a"
  "ap_receipts (mark_delivery i d a) = ap_receipts a"
  by (simp_all add: transition_to_connected_def add_popup_message_def transition_to_error_def trigger_connection_retry_def
      mark_delivery_def Let_def)

lemma switches_receipts [simp]:
  "ap_receipts (switch_to_channel ch a) = ap_receipts a" "ap_receipts (switch_to_public a) = ap_receipts a"
  "ap_receipts (switch_to_dm who a) = ap_receipts a"
  by (simp_all add: switch_to_channel_def switch_to_public_def switch_to_dm_def Let_def split: option.split)

lemma join_receipts [simp]: "ap_receipts (join_channel ch a) = ap_receipts a"
  by (simp add: join_channel_def Let_def split: option.split)

lemma clear_receipts [simp]: "ap_receipts (clear_current_conversation a) = ap_receipts a"
  by (simp add: clear_current_conversation_def clear_channel_def Let_def split: option.split prod.split)

lemma app_do_receipts: "e \<noteq> EvWipe \<Longrightarrow> ap_receipts a \<subseteq> ap_receipts (app_do u t e a)"
proof (cases e)
  case (EvNotice s)
  have "ap_receipts (fold (add_notice_line (su_local u) t) xs b) = ap_receipts b" for xs and b :: "'a app"
    by (induction xs arbitrary: b) simp_all
  then show ?thesis using EvNotice by (simp add: add_notice_def)
next
  case (EvEnter s accepts)
  then show ?thesis by (simp add: enter_line_def)
next
  case (EvReceipts peer)
  then show ?thesis by (auto simp: take_unreceipted_from_def Let_def split: option.splits)
qed (simp_all)

lemma app_run_receipts: "EvWipe \<notin> snd ` set es \<Longrightarrow> ap_receipts a \<subseteq> ap_receipts (app_run u es a)"
proof (induction es arbitrary: a)
  case (Cons te es)
  obtain t e where te: "te = (t, e)" by (cases te)
  have "ap_receipts a \<subseteq> ap_receipts (app_do u t e a)" using Cons.prems by (intro app_do_receipts) (auto simp: te)
  then show ?case using Cons.IH [of "app_do u t e a"] Cons.prems by (auto simp: te app_run_def)
qed (simp add: app_run_def)

lemma take_facts:
  "set (fst (take_unreceipted_from p a)) \<inter> ap_receipts a = {}"
  "set (fst (take_unreceipted_from p a)) \<subseteq> ap_receipts (snd (take_unreceipted_from p a))"
  by (auto simp: take_unreceipted_from_def Let_def split: option.splits)

section \<open>What does not fit together\<close>

lemma flat_conv [simp]:
  "ap_conv (update_sidebar_flat_selection a) = ap_conv a" "ap_connected (update_sidebar_flat_selection a) = ap_connected a"
  by (simp_all add: update_sidebar_flat_selection_def split: option.split)

lemma read_conv [simp]:
  "ap_conv (mark_current_conversation_as_read a) = ap_conv a"
  "ap_connected (mark_current_conversation_as_read a) = ap_connected a"
  by (simp_all add: mark_current_conversation_as_read_def split: option.split)

lemma show_conv:
  "selected (sb_people (ap_sidebar a)) (ap_people a) = Some user \<Longrightarrow>
     ap_conv (show_conversation a) = Some (Some user, None) \<and> ap_connected (show_conversation a) = ap_connected a"
  by (simp add: show_conversation_def update_current_conversation_def Let_def)

text \<open>Joining a location channel from a private conversation leaves the private conversation current.\<close>

lemma joining_keeps_private:
  assumes "selected (sb_people (ap_sidebar a)) (ap_people a) = Some user" "ch \<noteq> PUBLIC"
  shows "ap_conv (join_channel ch a) = Some (Some user, None)"
proof -
  obtain i where "position (\<lambda>c. c = ch) (ap_channels a @ (if ch \<in> set (ap_channels a) then [] else [ch])) = Some i"
    using position_ex [of ch "ap_channels a @ (if ch \<in> set (ap_channels a) then [] else [ch])" "\<lambda>c. c = ch"]
    by (cases "ch \<in> set (ap_channels a)") auto
  then show ?thesis
    using assms
    by (cases "ch \<in> set (ap_channels a)") (simp_all add: join_channel_def Let_def show_conv)
qed

text \<open>A wipe keeps the links of the viewer, the unread counts and what is being searched for.\<close>

lemma wipe_keeps:
  "vw_links (ap_viewer (wipe_app a)) = vw_links (ap_viewer a)" "ap_unread (wipe_app a) = ap_unread a"
  "ap_search (wipe_app a) = ap_search a" "ap_conv (wipe_app a) = ap_conv a"
  by (simp_all add: wipe_app_def)

text \<open>A late line moves the others down while the matches of a search keep their numbers.\<close>

lemma late_line_moves_matches:
  assumes "in_time_order (chan_messages a (in_channel line))"
    and "\<forall>m \<in> set (chan_messages a (in_channel line)). believable_epoch t (in_epoch line) < me_epoch m"
  shows "\<exists>m. map unlit (chan_messages (add_channel_line uc l t line a) (in_channel line))
       = m # map unlit (chan_messages a (in_channel line))"
    and "ap_search (add_channel_line uc l t line a) = ap_search a"
proof -
  let ?ch = "in_channel line"
  let ?m = "line_message l t line" and ?lit = "fst (admit t (ap_gate a))"
  have epoch: "me_epoch ?m = believable_epoch t (in_epoch line)" by (simp add: line_message_def Let_def)
  have "filter (\<lambda>x. me_epoch x \<le> me_epoch ?m) (map unlit (chan_messages a ?ch)) = []"
    "filter (\<lambda>x. me_epoch x > me_epoch ?m) (map unlit (chan_messages a ?ch)) = map unlit (chan_messages a ?ch)"
    using assms(2) by (auto simp: epoch filter_empty_conv filter_id_conv not_le)
  then show "\<exists>m. map unlit (chan_messages (add_channel_line uc l t line a) ?ch) = m # map unlit (chan_messages a ?ch)"
    using insert_places [OF assms(1), of t ?m ?lit] by (simp add: chan_messages_def line_log)
  show "ap_search (add_channel_line uc l t line a) = ap_search a"
    by (auto simp: add_channel_line_def Let_def split_beta admit_line_def note_image_link_def add_unread_message_def
        scroll_to_bottom_def split: option.splits)
qed

section \<open>Properties\<close>

text \<open>
  C27.  Every channel's log is in the order of time and no line in it is stamped later than
  the clock: whatever arrives with whatever time, whatever the user does, as long as the
  clock does not run backwards.
\<close>

theorem logs_in_time_order:
  assumes "sorted (map (mo_epoch \<circ> fst) es)"
  shows "log_ok (last (0 # map (mo_epoch \<circ> fst) es)) (chan_messages (app_run u es (app_new nickname)) ch)"
proof (rule chan_messages_ok, rule app_run_ok)
  show "logs_ok 0 (app_new nickname)" by (simp add: app_new_def) (simp add: logs_ok_def)
qed (use assms in simp)

definition demo_surroundings :: surroundings where
  "demo_surroundings =
     \<lparr>su_unicode = (\<lambda>s. s), su_local = (\<lambda>e. None), su_strip = (\<lambda>s. s), su_participants = (\<lambda>g. [])\<rparr>"

definition demo_moment :: "nat \<Rightarrow> moment" where
  "demo_moment n = \<lparr>mo_instant = n, mo_epoch = n\<rparr>"

definition demo_line :: "int \<Rightarrow> app_event" where
  "demo_line e = EvLine \<lparr>in_channel = PUBLIC, in_sender = ascii ''bob'', in_epoch = e, in_content = ascii ''hi''\<rparr>"

theorem logs_in_time_order_witness:
  "log_ok 9 (chan_messages (app_run demo_surroundings
     [(demo_moment 7, demo_line 100), (demo_moment 9, demo_line 3)] (app_new [97] :: unit app)) PUBLIC)"
  using logs_in_time_order [of "[(demo_moment 7, demo_line 100), (demo_moment 9, demo_line 3)]"]
  by (simp add: demo_moment_def)

text \<open>
  C28.  Nothing said in private is lost or taken back: as long as nobody clears a conversation
  and nobody wipes everything, a private log keeps every line with its text, sender, time
  and identifier, new lines come after it, and how far a message got is never set back.
\<close>

theorem private_history_grows:
  assumes "EvClear \<notin> snd ` set es" "EvWipe \<notin> snd ` set es"
  shows "grows (dm_messages a who) (dm_messages (app_run u es a) who)"
  using assms
proof (induction es arbitrary: a)
  case (Cons te es)
  obtain t e where te: "te = (t, e)" by (cases te)
  have "grows (dm_messages a who) (dm_messages (app_do u t e a) who)"
    using Cons.prems by (intro app_do_grows) (auto simp: te)
  from grows_trans [OF this Cons.IH] show ?case using Cons.prems by (simp add: te app_run_def)
qed (simp add: app_run_def)

definition demo_private :: "(moment \<times> app_event) list" where
  "demo_private = [(demo_moment 1, EvPrivateSent (ascii ''bob'') (ascii ''id'') (ascii ''hi'')),
     (demo_moment 2, EvDelivery (ascii ''id'') StatusRead), (demo_moment 3, EvDelivery (ascii ''id'') StatusDelivered)]"

theorem private_history_grows_witness:
  "grows (dm_messages (app_new [97] :: unit app) (ascii ''bob''))
     (dm_messages (app_run demo_surroundings demo_private (app_new [97] :: unit app)) (ascii ''bob''))"
  by (rule private_history_grows) (simp_all add: demo_private_def)

text \<open>
  A message is acknowledged as read at most once: an identifier handed out for a receipt
  is not handed out again, for whichever peer, until everything is wiped.
\<close>

theorem one_receipt_each:
  assumes "EvWipe \<notin> snd ` set es"
  shows "set (fst (take_unreceipted_from p a))
     \<inter> set (fst (take_unreceipted_from q (app_run u es (snd (take_unreceipted_from p a))))) = {}"
  using take_facts app_run_receipts [OF assms, of "snd (take_unreceipted_from p a)" u] by blast

theorem one_receipt_each_witness:
  "set (fst (take_unreceipted_from [98] (app_new [97] :: unit app)))
     \<inter> set (fst (take_unreceipted_from [98]
         (app_run demo_surroundings demo_private (snd (take_unreceipted_from [98] (app_new [97] :: unit app)))))) = {}"
  by (rule one_receipt_each) (simp add: demo_private_def)

text \<open>
  C29.  A line typed in a private conversation is not private: after choosing a peer in the
  sidebar, a line that is no command is filed in the conversation with that peer, and the
  main loop broadcasts it to everybody.
\<close>

theorem private_line_goes_public:
  assumes "who \<in> set (ap_people a)" "ap_connected a" "s \<noteq> []" "\<not> starts_with s [47]"
  shows "case enter_line uc l t True s (switch_to_dm who a) of
     (handed_over, rest, a') \<Rightarrow> handed_over = Some s \<and> route_line uc a' = ToEverybody
       \<and> length (dm_messages a' who) = length (dm_messages a who) + 1"
proof -
  let ?a = "switch_to_dm who a"
  obtain i where i: "position (\<lambda>p. p = who) (ap_people a) = Some i" using position_ex [OF assms(1), where P = "\<lambda>p. p = who"] by auto
  have "selected (Some i) (ap_people a) = Some who" using position_SomeD [OF i] by (simp add: selected_def)
  then have conv: "ap_conv ?a = Some (Some who, None)" and conn: "ap_connected ?a = ap_connected a"
    by (simp_all add: switch_to_dm_def i show_conv)
  let ?b = "note_image_link uc (ap_nickname ?a) (active_conversation ?a) s ?a"
  let ?c = "snd (admit_line t ?b)"
  have sent: "add_sent_message uc l t s ?a = scroll_to_bottom (push_dm who (message_now l t (ap_nickname ?a) s True) (fst (admit_line t ?b)) ?c)"
    using conv by (simp add: add_sent_message_def Let_def split_beta push_current_def)
  have "length (push_arrival ms m lit) = length ms + 1" for ms m lit
    using arg_cong [OF push_unlit, of length] by simp
  then have "length (dm_messages (add_sent_message uc l t s ?a) who) = length (dm_messages a who) + 1"
    by (simp add: sent push_dm_messages dm_messages_cong [of ?a a])
  moreover have "route_line uc (add_sent_message uc l t s ?a) = ToEverybody"
    using conv conn assms(2)
    by (simp add: sent route_line_def scroll_to_bottom_def push_dm_def admit_line_def note_image_link_def split_beta)
  ultimately show ?thesis using assms(3,4) by (simp add: enter_line_def)
qed

definition demo_app :: "unit app" where
  "demo_app = (app_new [97])\<lparr>ap_people := [ascii ''bob''], ap_connected := True\<rparr>"

theorem private_line_goes_public_witness:
  "case enter_line (\<lambda>s. s) (\<lambda>e. None) (demo_moment 5) True (ascii ''secret'') (switch_to_dm (ascii ''bob'') demo_app) of
     (handed_over, rest, a') \<Rightarrow> handed_over = Some (ascii ''secret'') \<and> route_line (\<lambda>s. s) a' = ToEverybody
       \<and> length (dm_messages a' (ascii ''bob'')) = length (dm_messages demo_app (ascii ''bob'')) + 1"
  by (rule private_line_goes_public) (simp_all add: demo_app_def starts_with_def ascii_def)

end
