(* ===== verification/Nostr_Event.thy ===== *)
theory Nostr_Event
  imports Text
begin

text \<open>
  Events of the relay network (nostr/event.rs): their canonical form, their identity,
  signing, verification and the tags of a location channel.  SHA-256, the JSON of the
  canonical array and the BIP-340 signatures of \<open>secp256k1\<close> are the fields of
  \<open>nostr_lib\<close>; a keypair is its secret key, and the randomness a signature takes is an
  argument.
\<close>

section \<open>Definitions\<close>

definition KIND_EPHEMERAL :: u32 where "KIND_EPHEMERAL = 20000"
definition KIND_PRESENCE :: u32 where "KIND_PRESENCE = 20001"

type_synonym tags = "text_bytes list list"

record event =
  ev_id :: text_bytes
  ev_pubkey :: text_bytes
  ev_created_at :: int
  ev_kind :: u32
  ev_tags :: tags
  ev_content :: text_bytes
  ev_sig :: text_bytes

record nostr_lib =
  nl_sha256 :: "bytes \<Rightarrow> bytes"
  nl_id_json :: "text_bytes \<times> int \<times> u32 \<times> tags \<times> text_bytes \<Rightarrow> text_bytes"
  nl_public :: "bytes \<Rightarrow> bytes"
  nl_key_ok :: "bytes \<Rightarrow> bool"
  nl_sign :: "bytes \<Rightarrow> bytes \<Rightarrow> bytes \<Rightarrow> bytes"
  nl_verify :: "bytes \<Rightarrow> bytes \<Rightarrow> bytes \<Rightarrow> bool"

definition serialize_for_id ::
  "'x nostr_lib_scheme \<Rightarrow> text_bytes \<Rightarrow> int \<Rightarrow> u32 \<Rightarrow> tags \<Rightarrow> text_bytes \<Rightarrow> text_bytes"
where
  "serialize_for_id nl pubkey created_at kind tags content = nl_id_json nl (pubkey, created_at, kind, tags, content)"

definition compute_id ::
  "'x nostr_lib_scheme \<Rightarrow> text_bytes \<Rightarrow> int \<Rightarrow> u32 \<Rightarrow> tags \<Rightarrow> text_bytes \<Rightarrow> bytes"
where
  "compute_id nl pubkey created_at kind tags content =
     nl_sha256 nl (serialize_for_id nl pubkey created_at kind tags content)"

definition signed_event ::
  "'x nostr_lib_scheme \<Rightarrow> bytes \<Rightarrow> bytes \<Rightarrow> int \<Rightarrow> u32 \<Rightarrow> tags \<Rightarrow> text_bytes \<Rightarrow> event"
where
  "signed_event nl aux keypair created_at kind tags content =
     (let pubkey = hex_encode (nl_public nl keypair);
          i = compute_id nl pubkey created_at kind tags content
      in \<lparr>ev_id = hex_encode i, ev_pubkey = pubkey, ev_created_at = created_at, ev_kind = kind,
          ev_tags = tags, ev_content = content, ev_sig = hex_encode (nl_sign nl aux keypair i)\<rparr>)"

definition verify_event :: "'x nostr_lib_scheme \<Rightarrow> event \<Rightarrow> bool" where
  "verify_event nl e =
     (let expected = compute_id nl (ev_pubkey e) (ev_created_at e) (ev_kind e) (ev_tags e) (ev_content e) in
      if hex_encode expected \<noteq> ev_id e then False
      else case (hex_decode (ev_pubkey e), hex_decode (ev_sig e)) of
        (Some pubkey, Some sig) \<Rightarrow>
          if length pubkey \<noteq> 32 \<or> length sig \<noteq> 64 then False
          else if \<not> nl_key_ok nl pubkey then False
          else nl_verify nl pubkey expected sig
      | _ \<Rightarrow> False)"

definition tag_value :: "text_bytes \<Rightarrow> event \<Rightarrow> text_bytes option" where
  "tag_value name e =
     (case find (\<lambda>tag. tag \<noteq> [] \<and> hd tag = name) (ev_tags e) of
        None \<Rightarrow> None
      | Some tag \<Rightarrow> if 1 < length tag then Some (tag ! 1) else None)"

definition event_geohash :: "event \<Rightarrow> text_bytes option" where
  "event_geohash = tag_value (ascii ''g'')"

definition event_nickname :: "event \<Rightarrow> text_bytes option" where
  "event_nickname = tag_value (ascii ''n'')"

definition is_teleported :: "event \<Rightarrow> bool" where
  "is_teleported e =
     list_ex (\<lambda>tag. tag \<noteq> [] \<and> hd tag = ascii ''t'' \<and> 1 < length tag \<and> tag ! 1 = ascii ''teleport'') (ev_tags e)"

definition geohash_tags :: "text_bytes \<Rightarrow> text_bytes option \<Rightarrow> bool \<Rightarrow> tags" where
  "geohash_tags geohash nickname teleported =
     [[ascii ''g'', geohash]]
     @ (case map_option trim nickname of
          None \<Rightarrow> []
        | Some n \<Rightarrow> if n = [] then [] else [[ascii ''n'', n]])
     @ (if teleported then [[ascii ''t'', ascii ''teleport'']] else [])"

section \<open>Documented behaviour of the libraries\<close>

text \<open>
  Public keys have 32 bytes and are accepted, signatures have 64 bytes and verify under
  the key of their signer.
\<close>

definition key_laws :: "'x nostr_lib_scheme \<Rightarrow> bool" where
  "key_laws nl \<longleftrightarrow> (\<forall>sk. length (nl_public nl sk) = 32 \<and> nl_key_ok nl (nl_public nl sk))"

definition signing_laws :: "'x nostr_lib_scheme \<Rightarrow> bool" where
  "signing_laws nl \<longleftrightarrow> key_laws nl \<and> (\<forall>aux sk m. length (nl_sign nl aux sk m) = 64 \<and> nl_verify nl (nl_public nl sk) m (nl_sign nl aux sk m))"

section \<open>Signing and verifying\<close>

lemma signed_event_fields [simp]:
  "ev_pubkey (signed_event nl aux sk c k ts x) = hex_encode (nl_public nl sk)"
  "ev_created_at (signed_event nl aux sk c k ts x) = c"
  "ev_kind (signed_event nl aux sk c k ts x) = k"
  "ev_tags (signed_event nl aux sk c k ts x) = ts"
  "ev_content (signed_event nl aux sk c k ts x) = x"
  by (simp_all add: signed_event_def Let_def)

lemma signed_event_verifies [simp]:
  "signing_laws nl \<Longrightarrow> verify_event nl (signed_event nl aux sk c k ts x)"
  by (simp add: signed_event_def verify_event_def signing_laws_def key_laws_def Let_def)

lemma verify_eventD:
  assumes "verify_event nl e"
  shows "\<exists>pk sig. hex_decode (ev_pubkey e) = Some pk \<and> length pk = 32 \<and> nl_key_ok nl pk
    \<and> hex_decode (ev_sig e) = Some sig
    \<and> nl_verify nl pk (compute_id nl (ev_pubkey e) (ev_created_at e) (ev_kind e) (ev_tags e) (ev_content e)) sig"
  using assms by (auto simp: verify_event_def Let_def split: option.splits if_split_asm)

lemma verified_id:
  "verify_event nl e \<Longrightarrow>
     ev_id e = hex_encode (compute_id nl (ev_pubkey e) (ev_created_at e) (ev_kind e) (ev_tags e) (ev_content e))"
  by (auto simp: verify_event_def Let_def split: if_split_asm)

text \<open>The name and the place of a message are read back from its tags.\<close>

lemma geohash_tags_read [simp]:
  "event_geohash (signed_event nl aux sk c k (geohash_tags g n tp @ extra) x) = Some g"
  by (simp add: event_geohash_def tag_value_def geohash_tags_def ascii_def)

lemma geohash_tags_nickname:
  "event_nickname (signed_event nl aux sk c k (geohash_tags g (Some n) tp) x) =
     (if trim n = [] then None else Some (trim n))"
  by (simp add: event_nickname_def tag_value_def geohash_tags_def ascii_def)

lemma geohash_tags_teleported:
  "is_teleported (signed_event nl aux sk c k (geohash_tags g n tp) x) = tp"
  by (auto simp: is_teleported_def geohash_tags_def ascii_def split: option.split)

end
