(* ===== verification/Pow.thy ===== *)
theory Pow
  imports Nostr_Event
begin

text \<open>
  Proof of work (nostr/pow.rs): the leading zero bits of an identity, the search for a
  nonce and the stepping down of the commitment when time runs out.  The clock is a
  predicate on the number of times it was consulted: \<open>past n\<close> says whether the deadline
  has passed at the \<open>n\<close>-th look at it.  The nonce is a number: the 64 bits of the source
  are not used up in the two seconds a search may take.
\<close>

section \<open>Definitions\<close>

definition TARGET_BITS :: u32 where "TARGET_BITS = 8"

definition leading_zeros :: "byte \<Rightarrow> nat" where
  "leading_zeros b = length (takeWhile (\<lambda>i. \<not> bit b i) [7, 6, 5, 4, 3, 2, 1, 0])"

fun leading_zero_bits :: "bytes \<Rightarrow> nat" where
  "leading_zero_bits [] = 0"
| "leading_zero_bits (b # bs) = (if b = 0 then 8 + leading_zero_bits bs else leading_zeros b)"

definition nonce_tags :: "tags \<Rightarrow> nat \<Rightarrow> nat \<Rightarrow> tags" where
  "nonce_tags base_tags nonce difficulty =
     base_tags @ [[ascii ''nonce'', show_nat nonce, show_nat difficulty]]"

text \<open>
  \<open>mine_attempt\<close>: the tags or \<open>None\<close> for a search cut short, with the number of looks at
  the clock so far.  That the loop does not end is the outer \<open>None\<close>.
\<close>

partial_function (option) mine_attempt ::
  "(tags \<Rightarrow> bytes) \<Rightarrow> (nat \<Rightarrow> bool) \<Rightarrow> tags \<Rightarrow> nat \<Rightarrow> nat \<Rightarrow> nat \<Rightarrow> (tags option \<times> nat) option"
where
  "mine_attempt ident past base_tags target_bits looks nonce =
     (let tags = nonce_tags base_tags nonce target_bits in
      if leading_zero_bits (ident tags) \<ge> target_bits then Some (Some tags, looks)
      else if (nonce + 1) mod 256 = 0
      then (if past looks then Some (None, looks + 1)
            else mine_attempt ident past base_tags target_bits (looks + 1) (nonce + 1))
      else mine_attempt ident past base_tags target_bits looks (nonce + 1))"

partial_function (option) mine_from ::
  "(tags \<Rightarrow> bytes) \<Rightarrow> (nat \<Rightarrow> bool) \<Rightarrow> tags \<Rightarrow> nat \<Rightarrow> nat \<Rightarrow> tags option"
where
  "mine_from ident past base_tags looks bits =
     do {
       (found, looks) \<leftarrow> mine_attempt ident past base_tags bits looks 0;
       case found of
         Some tags \<Rightarrow> Some tags
       | None \<Rightarrow> if bits = 0 then Some base_tags else mine_from ident past base_tags looks (bits div 2)
     }"

declare mine_attempt.simps [simp del] mine_from.simps [simp del]

definition mine ::
  "'x nostr_lib_scheme \<Rightarrow> (nat \<Rightarrow> bool) \<Rightarrow> text_bytes \<Rightarrow> int \<Rightarrow> u32 \<Rightarrow> tags \<Rightarrow> text_bytes \<Rightarrow> u32 \<Rightarrow> tags option"
where
  "mine nl past pubkey created_at kind base_tags content target_bits =
     mine_from (\<lambda>tags. compute_id nl pubkey created_at kind tags content) past base_tags 0
       (min (unat target_bits) 256)"

section \<open>The search ends with an honest claim\<close>

lemma mine_attempt_stops:
  assumes "\<And>n. L \<le> n \<Longrightarrow> past n"
  shows "\<exists>r l. mine_attempt ident past ts b looks nonce = Some (r, l)"
proof -
  have "\<exists>r l. mine_attempt ident past ts b looks nonce = Some (r, l)"
    if "d = 256 * (L - looks) + (256 - nonce mod 256)" for d looks nonce
    using that
  proof (induction d arbitrary: looks nonce rule: less_induct)
    case (less d)
    show ?case
    proof (cases "leading_zero_bits (ident (nonce_tags ts nonce b)) \<ge> b")
      case True
      then show ?thesis by (subst mine_attempt.simps) (simp add: Let_def)
    next
      case low: False
      show ?thesis
      proof (cases "(nonce + 1) mod 256 = 0")
        case True
        show ?thesis
        proof (cases "past looks")
          case True
          with low \<open>(nonce + 1) mod 256 = 0\<close> show ?thesis by (subst mine_attempt.simps) (simp add: Let_def)
        next
          case False
          have "looks < L"
          proof (rule ccontr)
            assume "\<not> looks < L"
            then have "L \<le> looks" by simp
            then have "past looks" by (rule assms)
            with False show False by simp
          qed
          moreover have "nonce mod 256 = 255" using True mod_Suc [of nonce 256] by (simp split: if_split_asm)
          ultimately have "256 * (L - (looks + 1)) + (256 - (nonce + 1) mod 256) < d"
            using less.prems True by (simp add: algebra_simps)
          then have "\<exists>r l. mine_attempt ident past ts b (looks + 1) (nonce + 1) = Some (r, l)"
            by (rule less.IH [OF _ refl])
          then show ?thesis using low True False by (subst mine_attempt.simps) (simp add: Let_def)
        qed
      next
        case False
        then have "(nonce + 1) mod 256 = nonce mod 256 + 1" using mod_Suc [of nonce 256] by (simp split: if_split_asm)
        moreover have "nonce mod 256 < 256" by simp
        ultimately have "256 * (L - looks) + (256 - (nonce + 1) mod 256) < d"
          using less.prems by linarith
        then have "\<exists>r l. mine_attempt ident past ts b looks (nonce + 1) = Some (r, l)"
          by (rule less.IH [OF _ refl])
        then show ?thesis using low False by (subst mine_attempt.simps) (simp add: Let_def)
      qed
    qed
  qed
  then show ?thesis by simp
qed

definition honest :: "(tags \<Rightarrow> bytes) \<Rightarrow> tags \<Rightarrow> nat \<Rightarrow> tags \<Rightarrow> bool" where
  "honest ident base_tags bits tags \<longleftrightarrow>
     (\<exists>nonce d. d \<le> bits \<and> tags = nonce_tags base_tags nonce d \<and> d \<le> leading_zero_bits (ident tags))"

lemma honest_found:
  "b \<le> leading_zero_bits (ident (nonce_tags ts n b)) \<Longrightarrow> honest ident ts b (nonce_tags ts n b)"
  unfolding honest_def by blast

lemma mine_attempt_zero: "mine_attempt ident past ts 0 looks nonce = Some (Some (nonce_tags ts nonce 0), looks)"
  by (subst mine_attempt.simps) (simp add: Let_def)

lemma mine_attempt_honest:
  "mine_attempt ident past ts b looks nonce = Some (Some tags, l) \<Longrightarrow> honest ident ts b tags"
proof -
  have "fst r = Some tags \<longrightarrow> honest ident ts b tags"
    if "mine_attempt ident past ts b looks nonce = Some r" for r tags looks nonce
    by (rule mine_attempt.raw_induct [where P = "\<lambda>i _ t c _ _ r. fst r = Some tags \<longrightarrow> honest i t c tags", OF _ that])
      (auto simp: Let_def honest_found split: if_split_asm)
  then show "mine_attempt ident past ts b looks nonce = Some (Some tags, l) \<Longrightarrow> honest ident ts b tags" by fastforce
qed

lemma honest_mono: "honest ident ts b tags \<Longrightarrow> b \<le> b' \<Longrightarrow> honest ident ts b' tags"
  unfolding honest_def using le_trans by metis

lemma mine_from_honest:
  assumes "\<And>n. L \<le> n \<Longrightarrow> past n"
  shows "\<exists>tags. mine_from ident past ts looks b = Some tags \<and> honest ident ts b tags"
proof (induction b arbitrary: looks rule: less_induct)
  case (less b)
  obtain r l where a: "mine_attempt ident past ts b looks 0 = Some (r, l)"
    using mine_attempt_stops [where past = past and L = L, OF assms] by metis
  show ?case
  proof (cases r)
    case (Some tags)
    with a mine_attempt_honest show ?thesis by (subst mine_from.simps) auto
  next
    case None
    then have "b \<noteq> 0" using a mine_attempt_zero [of ident past ts looks 0] by (metis option.distinct(1) option.inject prod.inject)
    then obtain tags where "mine_from ident past ts l (b div 2) = Some tags" "honest ident ts (b div 2) tags"
      using less.IH [of "b div 2" l] by auto
    then show ?thesis using a None \<open>b \<noteq> 0\<close> honest_mono [of ident ts "b div 2" tags b] by (subst mine_from.simps) auto
  qed
qed

text \<open>Whatever the clock does, what is mined begins with the tags given.\<close>

lemma mine_extends:
  assumes "mine nl past pubkey created_at kind base_tags content target_bits = Some tags"
  shows "\<exists>extra. tags = base_tags @ extra"
proof -
  have "\<exists>extra. tags = ts @ extra" if "mine_from ident past ts looks b = Some tags" for ident past ts looks b tags
  proof (rule mine_from.raw_induct [where P = "\<lambda>_ _ ts _ _ tags. \<exists>extra. tags = ts @ extra", OF _ that])
    fix rec ident past ts looks b tags
    assume IH: "\<And>ident past ts looks b tags. rec ident past ts looks b = Some tags \<Longrightarrow> \<exists>extra. tags = ts @ extra"
      and body: "Option.bind (mine_attempt ident past ts b looks 0)
        (\<lambda>(found, looks). case found of None \<Rightarrow> if b = 0 then Some ts else rec ident past ts looks (b div 2)
           | Some tags \<Rightarrow> Some tags) = Some tags"
    then obtain r l where a: "mine_attempt ident past ts b looks 0 = Some (r, l)"
      by (auto simp: bind_eq_Some_conv)
    show "\<exists>extra. tags = ts @ extra"
    proof (cases r)
      case (Some t)
      then show ?thesis using body a mine_attempt_honest [of ident past ts b looks 0 t l]
        by (auto simp: honest_def nonce_tags_def)
    next
      case None
      then show ?thesis using body a IH by (auto split: if_split_asm)
    qed
  qed
  then show ?thesis using assms by (simp add: mine_def)
qed

text \<open>
  C32.  Mining ends, whatever identities the hash gives, as long as the clock moves on, and
  what it returns is an honest claim: the tags given with one nonce tag behind them, whose
  difficulty is at most the one asked for (and at most 256) and is met by the identity of
  the event with exactly these tags.  An event is never sent without a claim.
\<close>

theorem mining_ends_honestly:
  assumes "\<And>n. looks \<le> n \<Longrightarrow> past n"
  shows "\<exists>tags nonce d. mine nl past pubkey created_at kind base_tags content target_bits = Some tags
    \<and> tags = base_tags @ [[ascii ''nonce'', show_nat nonce, show_nat d]]
    \<and> d \<le> unat target_bits \<and> d \<le> 256
    \<and> d \<le> leading_zero_bits (compute_id nl pubkey created_at kind tags content)"
  using mine_from_honest [where past = past and L = looks and looks = 0 and b = "min (unat target_bits) 256"
      and ts = base_tags and ident = "\<lambda>tags. compute_id nl pubkey created_at kind tags content", OF assms]
  by (auto simp: mine_def honest_def nonce_tags_def)

definition sample_nostr :: nostr_lib where
  "sample_nostr = \<lparr>nl_sha256 = (\<lambda>m. 0x0F # m), nl_id_json = (\<lambda>_. []), nl_public = (\<lambda>_. replicate 32 1),
     nl_key_ok = (\<lambda>_. True), nl_sign = (\<lambda>_ _ _. replicate 64 1), nl_verify = (\<lambda>_ _ _. True)\<rparr>"

theorem mining_ends_honestly_witness:
  "\<exists>tags nonce d. mine sample_nostr (\<lambda>n. 3 \<le> n) [97] 5 KIND_EPHEMERAL [[ascii ''g'', [98]]] [99] TARGET_BITS = Some tags
    \<and> tags = [[ascii ''g'', [98]]] @ [[ascii ''nonce'', show_nat nonce, show_nat d]]
    \<and> d \<le> unat TARGET_BITS \<and> d \<le> 256
    \<and> d \<le> leading_zero_bits (compute_id sample_nostr [97] 5 KIND_EPHEMERAL tags [99])"
  by (rule mining_ends_honestly [where looks = 3]) simp

end
