(* ===== verification/Envelope.thy ===== *)
theory Envelope
  imports Nostr_Event "HOL-Library.Countable"
begin

text \<open>
  The sealed envelope of private mail over relays (nostr/envelope.rs): the two candidate
  secrets of a parity-free key, the content string, and the three layers of rumor, seal
  and gift wrap.  The curve, HKDF, the AEAD, base64 and the JSON of events and rumors are
  the fields of \<open>envelope_lib\<close>.  Secret keys and the x-only public keys are byte lists.
\<close>

section \<open>Definitions\<close>

definition MAX_ENVELOPE_BYTES :: nat where "MAX_ENVELOPE_BYTES = 64 * 1024"
definition CONTENT_PREFIX :: text_bytes where "CONTENT_PREFIX = ascii ''v2:''"
definition HKDF_INFO :: bytes where "HKDF_INFO = ascii ''nip44-v2''"
definition NONCE_BYTES :: nat where "NONCE_BYTES = 24"
definition POLY_TAG_BYTES :: nat where "POLY_TAG_BYTES = 16"

definition KIND_RUMOR :: u32 where "KIND_RUMOR = 14"
definition KIND_SEAL :: u32 where "KIND_SEAL = 13"
definition KIND_GIFT_WRAP :: u32 where "KIND_GIFT_WRAP = 1059"
definition TIMESTAMP_JITTER_SECS :: int where "TIMESTAMP_JITTER_SECS = 900"

datatype envelope_error = BadKey | BadFraming | TooLarge | Undecryptable | Unauthenticated

record rumor =
  ru_kind :: u32
  ru_created_at :: int
  ru_tags :: tags
  ru_content :: text_bytes
  ru_pubkey :: text_bytes
  ru_id :: text_bytes
  ru_sig :: "text_bytes option"

record opened =
  op_content :: text_bytes
  op_sender :: text_bytes
  op_created_at :: int

text \<open>
  \<open>el_point secret public odd\<close> is the shared point (64 bytes) of a secret and the public
  key lifted to the given parity; an AEAD call may fail.
\<close>

record envelope_lib = nostr_lib +
  el_point :: "bytes \<Rightarrow> bytes \<Rightarrow> bool \<Rightarrow> bytes"
  el_hkdf :: "bytes \<Rightarrow> bytes \<Rightarrow> bytes"
  el_seal :: "bytes \<Rightarrow> bytes \<Rightarrow> bytes \<Rightarrow> bytes option"
  el_open :: "bytes \<Rightarrow> bytes \<Rightarrow> bytes \<Rightarrow> bytes option"
  el_b64 :: "bytes \<Rightarrow> text_bytes"
  el_unb64 :: "text_bytes \<Rightarrow> bytes option"
  el_event_json :: "event \<Rightarrow> text_bytes"
  el_event_of :: "text_bytes \<Rightarrow> event option"
  el_rumor_json :: "rumor \<Rightarrow> text_bytes"
  el_rumor_of :: "text_bytes \<Rightarrow> rumor option"

definition shared_secrets :: "'x envelope_lib_scheme \<Rightarrow> bytes \<Rightarrow> bytes \<Rightarrow> bytes list" where
  "shared_secrets el secret public =
     map (\<lambda>parity. let point = el_point el secret public parity in
            (if point ! 63 AND 1 = 0 then 0x02 else 0x03) # take 32 point)
       [False, True]"

definition sealing_secret :: "'x envelope_lib_scheme \<Rightarrow> bytes \<Rightarrow> bytes \<Rightarrow> bytes" where
  "sealing_secret el secret public = shared_secrets el secret public ! 0"

definition symmetric_key :: "'x envelope_lib_scheme \<Rightarrow> bytes \<Rightarrow> bytes" where
  "symmetric_key el shared = el_hkdf el shared HKDF_INFO"

definition envelope_encrypt ::
  "'x envelope_lib_scheme \<Rightarrow> text_bytes \<Rightarrow> bytes \<Rightarrow> bytes \<Rightarrow> bytes \<Rightarrow> envelope_error + text_bytes" where
  "envelope_encrypt el plaintext recipient sender_secret nonce24 =
     (case el_seal el (symmetric_key el (sealing_secret el sender_secret recipient)) nonce24 plaintext of
        None \<Rightarrow> Inl Undecryptable
      | Some sealed \<Rightarrow> Inr (CONTENT_PREFIX @ el_b64 el (nonce24 @ sealed)))"

text \<open>The loop over the candidate keys: the first that authenticates decides.\<close>

fun try_keys :: "'x envelope_lib_scheme \<Rightarrow> bytes \<Rightarrow> bytes \<Rightarrow> bytes list \<Rightarrow> envelope_error + text_bytes" where
  "try_keys el nonce24 sealed [] = Inl Undecryptable"
| "try_keys el nonce24 sealed (shared # more_secrets) =
     (case el_open el (symmetric_key el shared) nonce24 sealed of
        Some plaintext \<Rightarrow> (case from_utf8 plaintext of None \<Rightarrow> Inl Undecryptable | Some t \<Rightarrow> Inr t)
      | None \<Rightarrow> try_keys el nonce24 sealed more_secrets)"

definition envelope_decrypt ::
  "'x envelope_lib_scheme \<Rightarrow> text_bytes \<Rightarrow> bytes \<Rightarrow> bytes \<Rightarrow> envelope_error + text_bytes" where
  "envelope_decrypt el content recipient_secret sender =
     (if length content > MAX_ENVELOPE_BYTES then Inl TooLarge
      else if \<not> starts_with content CONTENT_PREFIX then Inl BadFraming
      else case el_unb64 el (drop (length CONTENT_PREFIX) content) of
        None \<Rightarrow> Inl BadFraming
      | Some combined \<Rightarrow>
          if length combined < NONCE_BYTES + POLY_TAG_BYTES then Inl BadFraming
          else try_keys el (take NONCE_BYTES combined) (drop NONCE_BYTES combined)
                 (shared_secrets el recipient_secret sender))"

definition published_timestamp :: "int \<Rightarrow> int \<Rightarrow> int" where
  "published_timestamp now jitter =
     (let span = 2 * TIMESTAMP_JITTER_SECS + 1 in now + jitter mod span - TIMESTAMP_JITTER_SECS)"

definition address_tags :: "bytes \<Rightarrow> tags" where
  "address_tags key = [[ascii ''p'', hex_encode key]]"

definition seal_message ::
  "'x envelope_lib_scheme \<Rightarrow> bytes \<times> bytes \<Rightarrow> text_bytes \<Rightarrow> bytes \<Rightarrow> bytes \<Rightarrow> bytes \<Rightarrow> int \<Rightarrow> int
     \<Rightarrow> bytes \<times> bytes \<Rightarrow> envelope_error + event" where
  "seal_message el aux content recipient sender ephemeral sent_at published_at nonces =
     (let rumor = \<lparr>ru_kind = KIND_RUMOR, ru_created_at = sent_at, ru_tags = [], ru_content = content,
            ru_pubkey = hex_encode (nl_public el sender), ru_id = [], ru_sig = None\<rparr>
      in case envelope_encrypt el (el_rumor_json el rumor) recipient sender (fst nonces) of
           Inl e \<Rightarrow> Inl e
         | Inr sealed \<Rightarrow>
             let seal = signed_event el (fst aux) sender published_at KIND_SEAL [] sealed in
             (case envelope_encrypt el (el_event_json el seal) recipient ephemeral (snd nonces) of
                Inl e \<Rightarrow> Inl e
              | Inr wrapped \<Rightarrow>
                  Inr (signed_event el (snd aux) ephemeral published_at KIND_GIFT_WRAP
                         (address_tags recipient) wrapped)))"

definition parse_xonly :: "'x nostr_lib_scheme \<Rightarrow> text_bytes \<Rightarrow> envelope_error + bytes" where
  "parse_xonly el s =
     (case hex_decode s of
        None \<Rightarrow> Inl BadKey
      | Some b \<Rightarrow> if length b = 32 \<and> nl_key_ok el b then Inr b else Inl BadKey)"

definition decrypt_from ::
  "'x envelope_lib_scheme \<Rightarrow> event \<Rightarrow> bytes \<Rightarrow> envelope_error + text_bytes" where
  "decrypt_from el e our_secret =
     (case parse_xonly el (ev_pubkey e) of
        Inl err \<Rightarrow> Inl err
      | Inr sender \<Rightarrow> envelope_decrypt el (ev_content e) our_secret sender)"

definition open_message ::
  "'x envelope_lib_scheme \<Rightarrow> event \<Rightarrow> bytes \<Rightarrow> bytes \<Rightarrow> envelope_error + opened" where
  "open_message el wrap our_secret our_pubkey =
     (if ev_kind wrap \<noteq> KIND_GIFT_WRAP \<or> ev_tags wrap \<noteq> address_tags our_pubkey \<or> \<not> verify_event el wrap
      then Inl BadFraming
      else case decrypt_from el wrap our_secret of
        Inl err \<Rightarrow> Inl err
      | Inr seal_json \<Rightarrow>
      (case el_event_of el seal_json of
        None \<Rightarrow> Inl BadFraming
      | Some seal \<Rightarrow>
          if ev_kind seal \<noteq> KIND_SEAL \<or> ev_tags seal \<noteq> [] \<or> \<not> verify_event el seal then Inl Unauthenticated
          else case decrypt_from el seal our_secret of
            Inl err \<Rightarrow> Inl err
          | Inr rumor_json \<Rightarrow>
          (case el_rumor_of el rumor_json of
            None \<Rightarrow> Inl BadFraming
          | Some rumor \<Rightarrow>
              if ru_kind rumor \<noteq> KIND_RUMOR \<or> ru_sig rumor \<noteq> None \<or> ru_pubkey rumor \<noteq> ev_pubkey seal
              then Inl Unauthenticated
              else if ru_tags rumor = [] \<or> ru_tags rumor = address_tags our_pubkey
              then Inr \<lparr>op_content = ru_content rumor, op_sender = ev_pubkey seal, op_created_at = ru_created_at rumor\<rparr>
              else Inl Unauthenticated)))"

section \<open>Documented behaviour of the libraries\<close>

text \<open>
  One of the two secrets a reader tries is the one the letter was sealed with; the AEAD
  opens under its own key and under no other; base64 and JSON read back what they wrote,
  are text, and are no shorter than what they carry.
\<close>

definition event_text :: "event \<Rightarrow> bool" where
  "event_text e \<longleftrightarrow> utf8_valid (ev_id e) \<and> utf8_valid (ev_pubkey e) \<and> utf8_valid (ev_content e)
     \<and> utf8_valid (ev_sig e) \<and> (\<forall>tag \<in> set (ev_tags e). \<forall>t \<in> set tag. utf8_valid t)"

definition rumor_text :: "rumor \<Rightarrow> bool" where
  "rumor_text r \<longleftrightarrow> utf8_valid (ru_content r) \<and> utf8_valid (ru_pubkey r) \<and> utf8_valid (ru_id r)
     \<and> (\<forall>t \<in> set_option (ru_sig r). utf8_valid t) \<and> (\<forall>tag \<in> set (ru_tags r). \<forall>t \<in> set tag. utf8_valid t)"

definition sealing_laws :: "'x envelope_lib_scheme \<Rightarrow> bool" where
  "sealing_laws el \<longleftrightarrow>
     (\<forall>s r. sealing_secret el s (nl_public el r) \<in> set (shared_secrets el r (nl_public el s)))
     \<and> (\<forall>k n m c. el_seal el k n m = Some c \<longrightarrow>
          length m + POLY_TAG_BYTES \<le> length c \<and> el_open el k n c = Some m
          \<and> (\<forall>k'. k' \<noteq> k \<longrightarrow> el_open el k' n c = None))"

definition text_laws :: "'x envelope_lib_scheme \<Rightarrow> bool" where
  "text_laws el \<longleftrightarrow>
     (\<forall>b. el_unb64 el (el_b64 el b) = Some b \<and> utf8_valid (el_b64 el b) \<and> length b \<le> length (el_b64 el b))
     \<and> (\<forall>e. el_event_of el (el_event_json el e) = Some e \<and> length (ev_content e) \<le> length (el_event_json el e)
          \<and> (event_text e \<longrightarrow> utf8_valid (el_event_json el e)))
     \<and> (\<forall>r. el_rumor_of el (el_rumor_json el r) = Some r \<and> (rumor_text r \<longrightarrow> utf8_valid (el_rumor_json el r)))"

section \<open>One layer\<close>

lemma encrypt_InrD:
  assumes "envelope_encrypt el m public s n = Inr x"
  shows "\<exists>c. el_seal el (symmetric_key el (sealing_secret el s public)) n m = Some c
    \<and> x = CONTENT_PREFIX @ el_b64 el (n @ c)"
  using assms by (auto simp: envelope_encrypt_def split: option.splits)

lemma decrypt_sealed:
  assumes "sealing_laws el" and "text_laws el" and "length n = NONCE_BYTES"
    and "envelope_encrypt el m public s n = Inr x" and "length x \<le> MAX_ENVELOPE_BYTES"
  shows "\<exists>c. el_seal el (symmetric_key el (sealing_secret el s public)) n m = Some c
    \<and> envelope_decrypt el x r sender = try_keys el n c (shared_secrets el r sender)"
proof -
  obtain c where c: "el_seal el (symmetric_key el (sealing_secret el s public)) n m = Some c"
    and x: "x = CONTENT_PREFIX @ el_b64 el (n @ c)"
    using encrypt_InrD [OF assms(4)] by blast
  have "length m + POLY_TAG_BYTES \<le> length c" using assms(1) c by (simp add: sealing_laws_def)
  then have "envelope_decrypt el x r sender = try_keys el n c (shared_secrets el r sender)"
    using assms(2,3,5) by (simp add: x envelope_decrypt_def starts_with_def text_laws_def)
  with c show ?thesis by blast
qed

lemma try_keys_opens:
  assumes "sealing_laws el" and "el_seal el (symmetric_key el k) n m = Some c" and "k \<in> set ks" and "utf8_valid m"
  shows "try_keys el n c ks = Inr m"
  using assms(3)
proof (induction ks)
  case (Cons k' ks)
  show ?case
  proof (cases "symmetric_key el k' = symmetric_key el k")
    case True
    then show ?thesis using assms by (simp add: sealing_laws_def from_utf8_def)
  next
    case False
    then have "el_open el (symmetric_key el k') n c = None" using assms(1,2) by (simp add: sealing_laws_def)
    with False Cons show ?thesis by auto
  qed
qed simp

lemma layer_opens:
  assumes "sealing_laws el" and "text_laws el" and "length n = NONCE_BYTES" and "utf8_valid m"
    and "envelope_encrypt el m (nl_public el r) s n = Inr x" and "length x \<le> MAX_ENVELOPE_BYTES"
  shows "envelope_decrypt el x r (nl_public el s) = Inr m"
proof -
  obtain c where "el_seal el (symmetric_key el (sealing_secret el s (nl_public el r))) n m = Some c"
    and d: "envelope_decrypt el x r (nl_public el s) = try_keys el n c (shared_secrets el r (nl_public el s))"
    using decrypt_sealed [OF assms(1-3,5,6)] by blast
  moreover have "sealing_secret el s (nl_public el r) \<in> set (shared_secrets el r (nl_public el s))"
    using assms(1) by (simp add: sealing_laws_def)
  ultimately show ?thesis using try_keys_opens [OF assms(1) _ _ assms(4)] by simp
qed

lemma layer_grows:
  assumes "sealing_laws el" and "text_laws el" and "envelope_encrypt el m public s n = Inr x"
  shows "length m \<le> length x"
proof -
  obtain c where "el_seal el (symmetric_key el (sealing_secret el s public)) n m = Some c"
    and x: "x = CONTENT_PREFIX @ el_b64 el (n @ c)"
    using encrypt_InrD [OF assms(3)] by blast
  then have "length m + POLY_TAG_BYTES \<le> length c" using assms(1) by (simp add: sealing_laws_def)
  moreover have "length (n @ c) \<le> length (el_b64 el (n @ c))" using assms(2) by (simp only: text_laws_def)
  ultimately show ?thesis by (simp add: x)
qed

lemma layer_text:
  assumes "text_laws el" and "envelope_encrypt el m public s n = Inr x"
  shows "utf8_valid x"
proof -
  obtain c where x: "x = CONTENT_PREFIX @ el_b64 el (n @ c)" using encrypt_InrD [OF assms(2)] by blast
  have "utf8_valid CONTENT_PREFIX" by (rule utf8_valid_ascii) (simp add: CONTENT_PREFIX_def ascii_def)
  moreover have "utf8_valid (el_b64 el (n @ c))" using assms(1) by (simp add: text_laws_def)
  ultimately show ?thesis by (simp add: x utf8_valid_append)
qed

lemma parse_own_key [simp]:
  "key_laws el \<Longrightarrow> parse_xonly el (hex_encode (nl_public el s)) = Inr (nl_public el s)"
  by (simp add: parse_xonly_def key_laws_def)

section \<open>Three layers\<close>

lemma seal_message_InrD:
  assumes "seal_message el aux content public s ephemeral sent_at published_at nonces = Inr wrap"
  shows "\<exists>x y. envelope_encrypt el (el_rumor_json el \<lparr>ru_kind = KIND_RUMOR, ru_created_at = sent_at, ru_tags = [],
            ru_content = content, ru_pubkey = hex_encode (nl_public el s), ru_id = [], ru_sig = None\<rparr>) public s (fst nonces) = Inr x
     \<and> envelope_encrypt el (el_event_json el (signed_event el (fst aux) s published_at KIND_SEAL [] x)) public ephemeral (snd nonces) = Inr y
     \<and> wrap = signed_event el (snd aux) ephemeral published_at KIND_GIFT_WRAP (address_tags public) y"
  using assms by (auto simp: seal_message_def Let_def split: sum.splits)

lemma signed_event_text:
  "utf8_valid x \<Longrightarrow> ts = [] \<Longrightarrow> event_text (signed_event el aux s c k ts x)"
  by (simp add: event_text_def signed_event_def Let_def)

lemma verified_letter_opens:
  assumes "key_laws el" and "sealing_laws el" and "text_laws el"
    and "length n1 = NONCE_BYTES" and "length n2 = NONCE_BYTES" and "utf8_valid content"
    and "seal_message el aux content (nl_public el reader) writer ephemeral sent_at published_at (n1, n2) = Inr wrap"
    and "length (ev_content wrap) \<le> MAX_ENVELOPE_BYTES" and "verify_event el wrap"
    and seal: "\<And>x. envelope_encrypt el (el_rumor_json el \<lparr>ru_kind = KIND_RUMOR, ru_created_at = sent_at, ru_tags = [],
      ru_content = content, ru_pubkey = hex_encode (nl_public el writer), ru_id = [], ru_sig = None\<rparr>)
        (nl_public el reader) writer n1 = Inr x
      \<Longrightarrow> verify_event el (signed_event el (fst aux) writer published_at KIND_SEAL [] x)"
  shows "open_message el wrap reader (nl_public el reader) =
    Inr \<lparr>op_content = content, op_sender = hex_encode (nl_public el writer), op_created_at = sent_at\<rparr>"
proof -
  let ?ru = "\<lparr>ru_kind = KIND_RUMOR, ru_created_at = sent_at, ru_tags = [], ru_content = content,
    ru_pubkey = hex_encode (nl_public el writer), ru_id = [], ru_sig = None\<rparr>"
  obtain x y where x: "envelope_encrypt el (el_rumor_json el ?ru) (nl_public el reader) writer n1 = Inr x"
    and y: "envelope_encrypt el (el_event_json el (signed_event el (fst aux) writer published_at KIND_SEAL [] x))
              (nl_public el reader) ephemeral n2 = Inr y"
    and wrap: "wrap = signed_event el (snd aux) ephemeral published_at KIND_GIFT_WRAP (address_tags (nl_public el reader)) y"
    using seal_message_InrD [OF assms(7)] by auto
  let ?seal = "signed_event el (fst aux) writer published_at KIND_SEAL [] x"
  have size: "length x \<le> length (el_event_json el ?seal)"
    using assms(3) by (metis signed_event_fields(5) text_laws_def)
  have y_size: "length y \<le> MAX_ENVELOPE_BYTES" using assms(8) by (simp add: wrap)
  then have x_size: "length x \<le> MAX_ENVELOPE_BYTES" using layer_grows [OF assms(2,3) y] size by simp
  have "event_text ?seal" using layer_text [OF assms(3) x] by (rule signed_event_text) simp
  then have "utf8_valid (el_event_json el ?seal)" using assms(3) by (simp add: text_laws_def)
  from layer_opens [OF assms(2,3,5) this y y_size]
  have "decrypt_from el wrap reader = Inr (el_event_json el ?seal)" by (simp add: decrypt_from_def wrap assms(1))
  moreover have "utf8_valid (el_rumor_json el ?ru)" using assms(3,6) by (simp add: text_laws_def rumor_text_def)
  from layer_opens [OF assms(2,3,4) this x x_size]
  have "decrypt_from el ?seal reader = Inr (el_rumor_json el ?ru)" by (simp add: decrypt_from_def assms(1))
  moreover have "el_event_of el (el_event_json el ?seal) = Some ?seal" "el_rumor_of el (el_rumor_json el ?ru) = Some ?ru"
    using assms(3) by (simp_all add: text_laws_def)
  ultimately show ?thesis using assms(9) seal [OF x] by (simp add: open_message_def wrap)
qed

text \<open>
  C3.  A letter sealed to somebody opens at its reader, with the words, the time it was
  written and the address of who wrote it, whatever the parities of the keys are and
  whatever times the outer layers claim; the size of the wrap is the only limit.
\<close>

theorem sealed_letter_opens:
  assumes "signing_laws el" and "sealing_laws el" and "text_laws el"
    and "length n1 = NONCE_BYTES" and "length n2 = NONCE_BYTES" and "utf8_valid content"
    and "seal_message el aux content (nl_public el reader) writer ephemeral sent_at published_at (n1, n2) = Inr wrap"
    and "length (ev_content wrap) \<le> MAX_ENVELOPE_BYTES"
  shows "open_message el wrap reader (nl_public el reader) =
    Inr \<lparr>op_content = content, op_sender = hex_encode (nl_public el writer), op_created_at = sent_at\<rparr>"
proof -
  have "key_laws el" using assms(1) by (simp add: signing_laws_def)
  moreover have "verify_event el wrap" using seal_message_InrD [OF assms(7)] assms(1) by auto
  ultimately show ?thesis using assms by (intro verified_letter_opens [OF _ assms(2-8)]) simp_all
qed

text \<open>
  The time a relay sees is within a quarter of an hour of the real one, whatever random
  number is drawn.
\<close>

theorem published_timestamp_near:
  "\<bar>published_timestamp now jitter - now\<bar> \<le> TIMESTAMP_JITTER_SECS"
  using pos_mod_bound [of 1801 jitter] pos_mod_sign [of 1801 jitter]
  by (simp add: published_timestamp_def TIMESTAMP_JITTER_SECS_def Let_def abs_le_iff)

section \<open>A library with the documented behaviour\<close>

text \<open>
  Keys are padded to their length, points are sums, the AEAD writes its key before the
  message, base64 is hex, and JSON counts in unary, except for one rumor and one event.
\<close>

definition toy_public :: "bytes \<Rightarrow> bytes" where
  "toy_public sk = take 32 (sk @ replicate 32 0)"

definition toy_point :: "bytes \<Rightarrow> bytes \<Rightarrow> bool \<Rightarrow> bytes" where
  "toy_point s public parity = map2 (+) (toy_public s) public @ replicate 32 0"

definition toy_head :: "bytes \<Rightarrow> bytes" where
  "toy_head k = replicate 16 0 @ concat (map (\<lambda>b. [1, b]) k) @ [0]"

definition toy_seal :: "bytes \<Rightarrow> bytes \<Rightarrow> bytes \<Rightarrow> bytes option" where
  "toy_seal k n m = Some (toy_head k @ m)"

definition toy_open :: "bytes \<Rightarrow> bytes \<Rightarrow> bytes \<Rightarrow> bytes option" where
  "toy_open k n c = (if take (length (toy_head k)) c = toy_head k then Some (drop (length (toy_head k)) c) else None)"

definition toy_json :: "('a :: countable) \<Rightarrow> ('a \<Rightarrow> bool) \<Rightarrow> bytes \<Rightarrow> bytes" where
  "toy_json x short content = (if short x then content @ [3] else content @ 2 # replicate (to_nat x) 1)"

definition toy_of :: "bytes \<Rightarrow> 'a :: countable \<Rightarrow> 'a" where
  "toy_of t x = (if t \<noteq> [] \<and> last t = 3 then x else from_nat (length (takeWhile (\<lambda>b. b = 1) (rev t))))"

definition event_tuple :: "event \<Rightarrow> text_bytes \<times> text_bytes \<times> int \<times> u32 \<times> tags \<times> text_bytes \<times> text_bytes" where
  "event_tuple e = (ev_id e, ev_pubkey e, ev_created_at e, ev_kind e, ev_tags e, ev_content e, ev_sig e)"

fun tuple_event :: "text_bytes \<times> text_bytes \<times> int \<times> u32 \<times> tags \<times> text_bytes \<times> text_bytes \<Rightarrow> event" where
  "tuple_event (i, p, c, k, t, x, g) =
     \<lparr>ev_id = i, ev_pubkey = p, ev_created_at = c, ev_kind = k, ev_tags = t, ev_content = x, ev_sig = g\<rparr>"

definition rumor_tuple :: "rumor \<Rightarrow> u32 \<times> int \<times> tags \<times> text_bytes \<times> text_bytes \<times> text_bytes \<times> text_bytes option" where
  "rumor_tuple r = (ru_kind r, ru_created_at r, ru_tags r, ru_content r, ru_pubkey r, ru_id r, ru_sig r)"

fun tuple_rumor :: "u32 \<times> int \<times> tags \<times> text_bytes \<times> text_bytes \<times> text_bytes \<times> text_bytes option \<Rightarrow> rumor" where
  "tuple_rumor (k, c, t, x, p, i, g) =
     \<lparr>ru_kind = k, ru_created_at = c, ru_tags = t, ru_content = x, ru_pubkey = p, ru_id = i, ru_sig = g\<rparr>"

lemma tuple_inverse [simp]: "tuple_event (event_tuple e) = e" "tuple_rumor (rumor_tuple r) = r"
  by (simp_all add: event_tuple_def rumor_tuple_def)

lemma toy_of_json: "(short x \<Longrightarrow> x = y) \<Longrightarrow> toy_of (toy_json x short content) y = x"
proof -
  have ones: "takeWhile (\<lambda>b. b = 1) (replicate n 1 @ 2 # r) = replicate n 1" for n and r :: bytes
    by (induction n) simp_all
  have "last (content @ 2 # replicate n 1) \<noteq> 3" for n
    by (cases n) (simp_all add: last_append)
  then show "(short x \<Longrightarrow> x = y) \<Longrightarrow> toy_of (toy_json x short content) y = x"
    by (auto simp: toy_of_def toy_json_def ones)
qed

lemma toy_public_length [simp]: "length (toy_public sk) = 32"
  by (simp add: toy_public_def)

lemma toy_head_inject: "toy_head k @ xs = toy_head k' @ ys \<Longrightarrow> k = k'"
proof -
  have prefix_free: "concat (map (\<lambda>b. [1, b]) k) @ 0 # xs = concat (map (\<lambda>b. [1, b]) k') @ 0 # ys \<Longrightarrow> k = k'"
    for k k' :: bytes
  proof (induction k arbitrary: k')
    case Nil
    then show ?case by (cases k') auto
  next
    case (Cons b k)
    show ?case
    proof (cases k')
      case Nil
      with Cons.prems show ?thesis by simp
    next
      case (Cons b' j)
      with Cons.prems have "b = b'" "concat (map (\<lambda>b. [1, b]) k) @ 0 # xs = concat (map (\<lambda>b. [1, b]) j) @ 0 # ys" by simp_all
      with Cons Cons.IH show ?thesis by blast
    qed
  qed
  assume "toy_head k @ xs = toy_head k' @ ys"
  then have "concat (map (\<lambda>b. [1, b]) k) @ 0 # xs = concat (map (\<lambda>b. [1, b]) k') @ 0 # ys"
    unfolding toy_head_def by simp
  then show "k = k'" by (rule prefix_free)
qed

lemma toy_aead:
  assumes "toy_seal k n m = Some c"
  shows "length m + 16 \<le> length c" "toy_open k n c = Some m" "k' \<noteq> k \<Longrightarrow> toy_open k' n c = None"
proof -
  have c: "c = toy_head k @ m" using assms by (simp add: toy_seal_def)
  then show "length m + 16 \<le> length c" "toy_open k n c = Some m" by (simp_all add: toy_open_def toy_head_def)
  show "toy_open k' n c = None" if "k' \<noteq> k"
  proof (rule ccontr)
    assume "toy_open k' n c \<noteq> None"
    then have "c = toy_head k' @ drop (length (toy_head k')) c"
      by (metis append_take_drop_id toy_open_def)
    with c that toy_head_inject show False by metis
  qed
qed

definition toy_letter :: rumor where
  "toy_letter = \<lparr>ru_kind = KIND_RUMOR, ru_created_at = 1000, ru_tags = [], ru_content = ascii ''hi'',
     ru_pubkey = hex_encode (toy_public [7]), ru_id = [], ru_sig = None\<rparr>"

definition toy_rumor_json :: "rumor \<Rightarrow> text_bytes" where
  "toy_rumor_json r = toy_json (rumor_tuple r) (\<lambda>t. t = rumor_tuple toy_letter) (filter (\<lambda>b. b = 1) (ru_id r))"

definition toy_nostr :: "(bytes \<Rightarrow> bytes \<Rightarrow> bytes \<Rightarrow> bool) \<Rightarrow> nostr_lib" where
  "toy_nostr v = \<lparr>nl_sha256 = id, nl_id_json = (\<lambda>t. replicate (to_nat t) 1), nl_public = toy_public,
     nl_key_ok = (\<lambda>k. True), nl_sign = (\<lambda>aux sk m. replicate 64 0), nl_verify = v\<rparr>"

text \<open>The words of user 7 to user 9, sealed.\<close>

definition toy_sealed :: text_bytes where
  "toy_sealed = CONTENT_PREFIX
     @ hex_encode (replicate 24 5 @ toy_head (2 # map2 (+) (toy_public [7]) (toy_public [9])) @ toy_rumor_json toy_letter)"

definition toy_seal_event :: event where
  "toy_seal_event = signed_event (toy_nostr (\<lambda>_ _ _. True)) [] [7] 1200 KIND_SEAL [] toy_sealed"

definition toy_event_json :: "event \<Rightarrow> text_bytes" where
  "toy_event_json e = toy_json (event_tuple e) (\<lambda>t. t = event_tuple toy_seal_event) (ev_content e)"

definition toy_lib :: "(bytes \<Rightarrow> bytes \<Rightarrow> bytes \<Rightarrow> bool) \<Rightarrow> envelope_lib" where
  "toy_lib v = nostr_lib.extend (toy_nostr v)
     \<lparr>el_point = toy_point, el_hkdf = (\<lambda>k info. k), el_seal = toy_seal, el_open = toy_open,
      el_b64 = hex_encode, el_unb64 = hex_decode,
      el_event_json = toy_event_json, el_event_of = (\<lambda>t. Some (tuple_event (toy_of t (event_tuple toy_seal_event)))),
      el_rumor_json = toy_rumor_json, el_rumor_of = (\<lambda>t. Some (tuple_rumor (toy_of t (rumor_tuple toy_letter))))\<rparr>"

lemma toy_fields [simp]:
  "nl_public (toy_lib v) = toy_public" "nl_key_ok (toy_lib v) k" "nl_sign (toy_lib v) a sk m = replicate 64 0"
  "nl_verify (toy_lib v) = v" "el_seal (toy_lib v) = toy_seal" "el_open (toy_lib v) = toy_open"
  "el_b64 (toy_lib v) = hex_encode" "el_unb64 (toy_lib v) = hex_decode"
  "el_event_json (toy_lib v) = toy_event_json" "el_rumor_json (toy_lib v) = toy_rumor_json"
  "nl_sha256 (toy_lib v) = id" "nl_id_json (toy_lib v) = (\<lambda>t. replicate (to_nat t) 1)"
  "symmetric_key (toy_lib v) = (\<lambda>k. k)"
  by (simp_all add: toy_lib_def toy_nostr_def nostr_lib.defs symmetric_key_def fun_eq_iff)

lemma toy_secrets [simp]:
  assumes "length public = 32"
  shows "sealing_secret (toy_lib v) s public = 2 # map2 (+) (toy_public s) public"
    "shared_secrets (toy_lib v) s public = [2 # map2 (+) (toy_public s) public, 2 # map2 (+) (toy_public s) public]"
proof -
  have "el_point (toy_lib v) = toy_point" by (simp add: toy_lib_def nostr_lib.defs)
  then show "shared_secrets (toy_lib v) s public = [2 # map2 (+) (toy_public s) public, 2 # map2 (+) (toy_public s) public]"
    using assms by (simp add: shared_secrets_def toy_point_def nth_append Let_def)
  then show "sealing_secret (toy_lib v) s public = 2 # map2 (+) (toy_public s) public"
    by (simp add: sealing_secret_def)
qed

lemma map2_add_commute: "length xs = length (ys :: bytes) \<Longrightarrow> map2 (+) xs ys = map2 (+) ys xs"
  by (induction xs ys rule: list_induct2) (auto simp: add.commute)

lemma toy_sealing_laws: "sealing_laws (toy_lib v)"
  using toy_aead by (fastforce simp: sealing_laws_def POLY_TAG_BYTES_def map2_add_commute)

lemma utf8_valid_ones [simp]: "utf8_valid (replicate n 1)"
  by (rule utf8_valid_ascii) simp

lemma toy_text_laws: "text_laws (toy_lib v)"
proof -
  have "toy_of (toy_event_json e) (event_tuple toy_seal_event) = event_tuple e" for e
    unfolding toy_event_json_def by (rule toy_of_json) simp
  moreover have "toy_of (toy_rumor_json r) (rumor_tuple toy_letter) = rumor_tuple r" for r
    unfolding toy_rumor_json_def by (rule toy_of_json) simp
  moreover have "utf8_valid (toy_rumor_json r)" for r
    by (rule utf8_valid_ascii) (auto simp: toy_rumor_json_def toy_json_def)
  moreover have "utf8_valid (toy_event_json e)" if "event_text e" for e
  proof -
    have "utf8_valid [3]" "utf8_valid (2 # replicate n 1)" for n by (rule utf8_valid_ascii; simp)+
    with that show ?thesis by (auto simp: toy_event_json_def toy_json_def event_text_def intro: utf8_valid_append)
  qed
  moreover have "length (ev_content e) \<le> length (toy_event_json e)" for e
    by (simp add: toy_event_json_def toy_json_def)
  ultimately show ?thesis by (simp add: text_laws_def) (simp add: toy_lib_def nostr_lib.defs)
qed

text \<open>User 7 writes to user 9; the wrap is made by the throwaway key 8.\<close>

lemma toy_encrypt:
  assumes "length public = 32"
  shows "envelope_encrypt (toy_lib v) m public s n =
     Inr (CONTENT_PREFIX @ hex_encode (n @ toy_head (2 # map2 (+) (toy_public s) public) @ m))"
  using assms by (simp add: envelope_encrypt_def toy_seal_def)

definition toy_wrapped :: text_bytes where
  "toy_wrapped = CONTENT_PREFIX
     @ hex_encode (replicate 24 6 @ toy_head (2 # map2 (+) (toy_public [8]) (toy_public [9])) @ toy_event_json toy_seal_event)"

definition toy_wrap :: event where
  "toy_wrap = signed_event (toy_nostr (\<lambda>_ _ _. True)) [] [8] 1200 KIND_GIFT_WRAP (address_tags (toy_public [9])) toy_wrapped"

lemma toy_id:
  "compute_id (toy_lib v) p c k ts x = replicate (to_nat (p, c, k, ts, x)) 1"
  "compute_id (toy_nostr v) p c k ts x = replicate (to_nat (p, c, k, ts, x)) 1"
  by (simp_all add: compute_id_def serialize_for_id_def) (simp add: toy_nostr_def)

lemma toy_signed [simp]: "signed_event (toy_lib v) a s c k ts x = signed_event (toy_nostr (\<lambda>_ _ _. True)) a s c k ts x"
  by (simp add: signed_event_def compute_id_def serialize_for_id_def toy_nostr_def)

lemma toy_seal_message:
  "seal_message (toy_lib v) ([], []) (ascii ''hi'') (toy_public [9]) [7] [8] 1000 1200 (replicate 24 5, replicate 24 6) = Inr toy_wrap"
  by (simp add: seal_message_def toy_encrypt toy_wrap_def toy_wrapped_def toy_seal_event_def toy_sealed_def toy_letter_def Let_def)

lemma toy_sizes: "length (toy_head k) = 17 + 2 * length k" "length CONTENT_PREFIX = 3"
  "length (toy_rumor_json toy_letter) = 1" "length (toy_event_json toy_seal_event) = length toy_sealed + 1"
proof -
  have "length (concat (map (\<lambda>b. [1, b]) k)) = 2 * length k" by (induction k) simp_all
  then show "length (toy_head k) = 17 + 2 * length k" by (simp add: toy_head_def)
  show "length (toy_event_json toy_seal_event) = length toy_sealed + 1"
    by (simp add: toy_event_json_def toy_json_def toy_seal_event_def)
qed (simp_all add: CONTENT_PREFIX_def ascii_def toy_rumor_json_def toy_json_def toy_letter_def)

lemma toy_wrap_size: "length (ev_content toy_wrap) \<le> MAX_ENVELOPE_BYTES"
  by (simp add: toy_wrap_def toy_wrapped_def toy_sealed_def toy_sizes MAX_ENVELOPE_BYTES_def)

theorem sealed_letter_opens_witness:
  "open_message (toy_lib (\<lambda>_ _ _. True)) toy_wrap [9] (toy_public [9]) =
     Inr \<lparr>op_content = ascii ''hi'', op_sender = hex_encode (toy_public [7]), op_created_at = 1000\<rparr>"
proof -
  have "signing_laws (toy_lib (\<lambda>_ _ _. True))" by (simp add: signing_laws_def key_laws_def)
  moreover have "utf8_valid (ascii ''hi'')" by (rule utf8_valid_ascii) (simp add: ascii_def)
  ultimately show ?thesis
    using sealed_letter_opens [of "toy_lib (\<lambda>_ _ _. True)" "replicate 24 5" "replicate 24 6" "ascii ''hi''" "([], [])" "[9]" "[7]" "[8]"
        1000 1200 toy_wrap] toy_sealing_laws toy_text_laws toy_seal_message toy_wrap_size
    by (simp add: NONCE_BYTES_def)
qed

end
