(* ===== verification/Embedded.thy ===== *)
theory Embedded
  imports Envelope Noise_Payload Protocol
begin

text \<open>
  Mesh packets inside letters (nostr/embedded.rs) and the two spellings of an address
  (nostr/npub.rs).  base64 is the one of \<open>envelope_lib\<close>, bech32 encoding and decoding are
  parameters, and so is the decompressor of packets.
\<close>

section \<open>Definitions\<close>

definition PREFIX :: text_bytes where "PREFIX = ascii ''bitchat1:''"
definition EMBEDDED_TTL :: byte where "EMBEDDED_TTL = 7"
definition MAX_PACKET_BYTES :: nat where "MAX_PACKET_BYTES = 64 * 1024"

definition embedded_encode :: "'x envelope_lib_scheme \<Rightarrow> packet \<Rightarrow> text_bytes option" where
  "embedded_encode el p = map_option (\<lambda>bytes. PREFIX @ el_b64 el bytes) (encode p)"

definition embedded_frame :: "noise_payload \<Rightarrow> text_bytes \<Rightarrow> text_bytes \<Rightarrow> u64 \<Rightarrow> packet" where
  "embedded_frame payload sender_peer_id recipient_peer_id now =
     with_recipient
       (packet_new NoiseEncrypted (peer_id_to_bytes sender_peer_id) (payload_encode payload) EMBEDDED_TTL now)
       (peer_id_to_bytes recipient_peer_id)"

definition embedded_private_message ::
  "'x envelope_lib_scheme \<Rightarrow> text_bytes \<Rightarrow> text_bytes \<Rightarrow> text_bytes \<Rightarrow> text_bytes \<Rightarrow> u64 \<Rightarrow> text_bytes option"
where
  "embedded_private_message el message_id content sender_peer_id recipient_peer_id now =
     do {
       body \<leftarrow> pm_encode \<lparr>pm_message_id = message_id, pm_content = content\<rparr>;
       embedded_encode el
         (embedded_frame \<lparr>np_kind = PrivateMessage, np_body = body\<rparr> sender_peer_id recipient_peer_id now)
     }"

definition embedded_receipt ::
  "'x envelope_lib_scheme \<Rightarrow> noise_payload_type \<Rightarrow> text_bytes \<Rightarrow> text_bytes \<Rightarrow> text_bytes \<Rightarrow> u64 \<Rightarrow> text_bytes option"
where
  "embedded_receipt el kind message_id sender_peer_id recipient_peer_id now =
     (if kind \<noteq> Delivered \<and> kind \<noteq> ReadReceipt then None
      else embedded_encode el (embedded_frame (payload_receipt kind message_id) sender_peer_id recipient_peer_id now))"

definition embedded_decode ::
  "'x envelope_lib_scheme \<Rightarrow> (bytes \<Rightarrow> nat \<Rightarrow> bytes option) \<Rightarrow> text_bytes \<Rightarrow> packet option" where
  "embedded_decode el decompress content =
     (if \<not> starts_with content PREFIX then None
      else let encoded = drop (length PREFIX) content;
               max_encoded = (MAX_PACKET_BYTES + 2) div 3 * 4
        in if length encoded > max_encoded then None
           else case el_unb64 el encoded of
             None \<Rightarrow> None
           | Some bytes \<Rightarrow> if length bytes > MAX_PACKET_BYTES then None else decode decompress bytes)"

definition embedded_payload :: "packet \<Rightarrow> noise_payload option" where
  "embedded_payload p =
     (if parsed_type p \<noteq> Some NoiseEncrypted then None
      else case payload_decode (p_payload p) of
        None \<Rightarrow> None
      | Some payload \<Rightarrow>
          if np_kind payload = PrivateMessage \<or> np_kind payload = Delivered \<or> np_kind payload = ReadReceipt
          then Some payload else None)"

definition HRP :: text_bytes where "HRP = ascii ''npub''"

definition address_from_hex :: "text_bytes \<Rightarrow> bytes option" where
  "address_from_hex address =
     (if length address \<noteq> 64 then None
      else case hex_decode address of None \<Rightarrow> None | Some k \<Rightarrow> if length k = 32 then Some k else None)"

definition address_from_npub :: "(text_bytes \<Rightarrow> (text_bytes \<times> bytes) option) \<Rightarrow> text_bytes \<Rightarrow> bytes option" where
  "address_from_npub unbech address =
     (case unbech address of
        None \<Rightarrow> None
      | Some (hrp, data) \<Rightarrow> if hrp \<noteq> HRP then None else if length data = 32 then Some data else None)"

definition address_to_bytes :: "(text_bytes \<Rightarrow> (text_bytes \<times> bytes) option) \<Rightarrow> text_bytes \<Rightarrow> bytes option" where
  "address_to_bytes unbech address =
     (let address = trim address in
      case address_from_hex address of
        Some k \<Rightarrow> Some k
      | None \<Rightarrow> address_from_npub unbech address)"

definition npub_from_bytes :: "(text_bytes \<Rightarrow> bytes \<Rightarrow> text_bytes option) \<Rightarrow> bytes \<Rightarrow> text_bytes option" where
  "npub_from_bytes bech key = bech HRP key"

section \<open>What was framed is read back\<close>

text \<open>base64 takes four characters for three bytes, so less than twice the space.\<close>

definition compact_laws :: "'x envelope_lib_scheme \<Rightarrow> bool" where
  "compact_laws el \<longleftrightarrow> (\<forall>b. length (el_b64 el b) \<le> 2 * length b)"

lemma length_peer_id_to_bytes [simp]: "length (peer_id_to_bytes i) = 8"
  by (simp add: peer_id_to_bytes_def Let_def split: option.split)

lemma embedded_frame_facts:
  "wf_packet (embedded_frame payload me them now)" "canonical (embedded_frame payload me them now) = embedded_frame payload me them now"
  "p_payload (embedded_frame payload me them now) = payload_encode payload"
  "parsed_type (embedded_frame payload me them now) = Some NoiseEncrypted"
  "length (frame_bytes (embedded_frame payload me them now)) = 30 + length (payload_encode payload)"
  "encodable (embedded_frame payload me them now) = (length (payload_encode payload) \<le> 65535)"
  by (simp_all add: embedded_frame_def with_recipient_def packet_new_def wf_packet_def canonical_eq_iff
      effective_route_def parsed_type_def frame_bytes_def encodable_def from_u8_def)

lemma length_pad: "length (pad d n) \<le> length d + 255"
  by (auto simp: pad_def Let_def)

lemma embedded_travels:
  assumes "text_laws el" and "compact_laws el" and "length (np_body payload) \<le> 1000"
  shows "\<exists>text. embedded_encode el (embedded_frame payload me them now) = Some text
    \<and> utf8_valid text
    \<and> embedded_decode el decompress text = Some (embedded_frame payload me them now)"
proof -
  let ?p = "embedded_frame payload me them now"
  have size: "length (payload_encode payload) \<le> 1001" using assms(3) by (simp add: payload_encode_def)
  then have "encodable ?p" by (simp add: embedded_frame_facts)
  then obtain d where d: "encode ?p = Some d" "d = pad (frame_bytes ?p) (optimal_block_size (length (frame_bytes ?p)))"
    by (simp add: encode_def encode_with_padding_eq)
  have "length d \<le> length (frame_bytes ?p) + 255" unfolding d(2) by (rule length_pad)
  then have n: "length d \<le> 1286" using size embedded_frame_facts(5) [of payload me them now] by linarith
  have "decode decompress d = Some ?p"
    using roundtrip [OF embedded_frame_facts(1) _ d(1) [unfolded encode_def]] size
    by (simp add: embedded_frame_facts MAX_FRAMED_PAYLOAD_def)
  moreover have "length (el_b64 el d) \<le> 2572" using le_trans [OF spec [OF assms(2) [unfolded compact_laws_def], of d], of 2572] n by simp
  moreover have "utf8_valid PREFIX" by (rule utf8_valid_ascii) (simp add: PREFIX_def ascii_def)
  ultimately show ?thesis using d(1) n assms(1)
    by (simp add: embedded_encode_def embedded_decode_def starts_with_def text_laws_def utf8_valid_append MAX_PACKET_BYTES_def Let_def)
qed

lemma embedded_payload_frame:
  "np_kind payload \<in> {PrivateMessage, Delivered, ReadReceipt} \<Longrightarrow>
     embedded_payload (embedded_frame payload me them now) = Some payload"
  by (auto simp: embedded_payload_def embedded_frame_facts)

end
