(* ===== verification/Geo.thy ===== *)
theory Geo
  imports Geohash Pow Embedded "HOL-Library.AList"
begin

text \<open>
  Location channels (geo.rs) and the identities used in them (nostr/identity.rs): one key
  per channel derived from the device's seed, the relays of a channel, who was heard in
  it, and the beacons that announce presence.  Keys, the hash functions, the distance and
  the directory of relays are fields of \<open>geo_lib\<close>.  Times are milliseconds of the
  monotonic clock; the channels are listed in the order the hash map yields them.
\<close>

section \<open>Identities\<close>

record geo_lib = envelope_lib +
  gl_hmac :: "bytes \<Rightarrow> bytes \<Rightarrow> bytes"
  gl_scalar_ok :: "bytes \<Rightarrow> bool"
  gl_unicode :: "text_bytes \<Rightarrow> text_bytes"
  gl_distance :: "rat \<times> rat \<Rightarrow> rat \<times> rat \<Rightarrow> real"
  gl_directory :: "relay_entry list"
  gl_unbech :: "text_bytes \<Rightarrow> (text_bytes \<times> bytes) option"
  gl_bech :: "text_bytes \<Rightarrow> bytes \<Rightarrow> text_bytes option"

definition MAIN_IDENTITY_LABEL :: text_bytes where
  "MAIN_IDENTITY_LABEL = ascii ''bitmancer-main-identity''"

record identity_store =
  is_seed :: bytes
  is_cache :: "text_bytes \<rightharpoonup> bytes"

definition identity_new :: "bytes \<Rightarrow> identity_store" where
  "identity_new seed = \<lparr>is_seed = seed, is_cache = Map.empty\<rparr>"

text \<open>\<open>derive\<close>; the \<open>expect\<close> on the last resort is \<open>None\<close>.\<close>

definition derive_key :: "'x geo_lib_scheme \<Rightarrow> bytes \<Rightarrow> text_bytes \<Rightarrow> bytes option" where
  "derive_key gl seed geohash =
     (case find (gl_scalar_ok gl) (map (\<lambda>iteration. gl_hmac gl seed (geohash @ be32 iteration)) [0..<10]) of
        Some secret \<Rightarrow> Some secret
      | None \<Rightarrow>
          let fallback = nl_sha256 gl (seed @ geohash) in
          if gl_scalar_ok gl fallback then Some fallback else None)"

definition keypair_for :: "'x geo_lib_scheme \<Rightarrow> text_bytes \<Rightarrow> identity_store \<Rightarrow> (bytes \<times> identity_store) option" where
  "keypair_for gl geohash s =
     (case is_cache s geohash of
        Some cached \<Rightarrow> Some (cached, s)
      | None \<Rightarrow> (case derive_key gl (is_seed s) geohash of
                   None \<Rightarrow> None
                 | Some key \<Rightarrow> Some (key, s\<lparr>is_cache := (is_cache s)(geohash \<mapsto> key)\<rparr>)))"

definition pubkey_hex :: "'x geo_lib_scheme \<Rightarrow> text_bytes \<Rightarrow> identity_store \<Rightarrow> (text_bytes \<times> identity_store) option" where
  "pubkey_hex gl geohash s =
     map_option (\<lambda>(key, s). (hex_encode (nl_public gl key), s)) (keypair_for gl geohash s)"

definition identity_clear :: "identity_store \<Rightarrow> identity_store" where
  "identity_clear s = s\<lparr>is_cache := Map.empty\<rparr>"

section \<open>Channels\<close>

definition RELAYS_PER_CHANNEL :: nat where "RELAYS_PER_CHANNEL = 5"
definition PRESENCE_MIN :: nat where "PRESENCE_MIN = 40"
definition PRESENCE_MAX :: nat where "PRESENCE_MAX = 80"
definition PARTICIPANT_TTL :: nat where "PARTICIPANT_TTL = 300000"
definition PRESENCE_PRECISIONS :: "nat list" where "PRESENCE_PRECISIONS = [2, 4, 5]"

record participant =
  pt_pubkey :: text_bytes
  pt_nickname :: "text_bytes option"
  pt_last_seen :: nat

text \<open>
  The address is a verified one, hexadecimal, so the cut falls between characters
  (\<open>verified_key_cuts\<close>).
\<close>

definition short_pubkey :: "text_bytes \<Rightarrow> text_bytes" where
  "short_pubkey pubkey = ascii ''anon'' @ take 4 pubkey"

definition display_name :: "participant \<Rightarrow> text_bytes" where
  "display_name p = (case pt_nickname p of Some n \<Rightarrow> n | None \<Rightarrow> ascii ''anon'' @ take 4 (pt_pubkey p))"

record channel =
  ch_geohash :: text_bytes
  ch_relays :: "text_bytes list"
  ch_participants :: "(text_bytes \<times> participant) list"
  ch_next_presence :: nat

record geo_service =
  gs_identities :: identity_store
  gs_channels :: "(text_bytes \<times> channel) list"
  gs_nickname :: text_bytes
  gs_presence_tick :: u64

definition geo_new :: "bytes \<Rightarrow> text_bytes \<Rightarrow> geo_service" where
  "geo_new device_seed nickname =
     \<lparr>gs_identities = identity_new device_seed, gs_channels = [], gs_nickname = nickname, gs_presence_tick = 0\<rparr>"

definition geo_keypair_for :: "'x geo_lib_scheme \<Rightarrow> text_bytes \<Rightarrow> geo_service \<Rightarrow> (bytes \<times> geo_service) option" where
  "geo_keypair_for gl label g =
     map_option (\<lambda>(key, s). (key, g\<lparr>gs_identities := s\<rparr>)) (keypair_for gl label (gs_identities g))"

definition main_nostr_keypair :: "'x geo_lib_scheme \<Rightarrow> geo_service \<Rightarrow> (bytes \<times> geo_service) option" where
  "main_nostr_keypair gl g = geo_keypair_for gl MAIN_IDENTITY_LABEL g"

definition main_nostr_pubkey :: "'x geo_lib_scheme \<Rightarrow> geo_service \<Rightarrow> (text_bytes \<times> geo_service) option" where
  "main_nostr_pubkey gl g =
     map_option (\<lambda>(pubkey, s). (pubkey, g\<lparr>gs_identities := s\<rparr>)) (pubkey_hex gl MAIN_IDENTITY_LABEL (gs_identities g))"

definition main_nostr_npub :: "'x geo_lib_scheme \<Rightarrow> geo_service \<Rightarrow> (text_bytes \<times> geo_service) option" where
  "main_nostr_npub gl g =
     map_option
       (\<lambda>(hex, g).
          (case Option.bind (address_to_bytes (gl_unbech gl) hex) (npub_from_bytes (gl_bech gl)) of
             Some npub \<Rightarrow> npub
           | None \<Rightarrow> hex, g))
       (main_nostr_pubkey gl g)"

definition geo_set_nickname :: "text_bytes \<Rightarrow> geo_service \<Rightarrow> geo_service" where
  "geo_set_nickname nickname g = g\<lparr>gs_nickname := nickname\<rparr>"

definition is_joined :: "text_bytes \<Rightarrow> geo_service \<Rightarrow> bool" where
  "is_joined geohash g \<longleftrightarrow> map_of (gs_channels g) geohash \<noteq> None"

definition joined :: "geo_service \<Rightarrow> text_bytes list" where
  "joined g = sort (map fst (gs_channels g))"

definition geo_join ::
  "'x geo_lib_scheme \<Rightarrow> nat \<Rightarrow> text_bytes \<Rightarrow> geo_service \<Rightarrow> text_bytes list option \<times> geo_service" where
  "geo_join gl now geohash g =
     (if is_joined geohash g then (None, g)
      else let relays = closest_relays (gl_unicode gl) (gl_distance gl) (gl_directory gl) geohash RELAYS_PER_CHANNEL in
        (Some relays,
         g\<lparr>gs_channels := AList.update geohash
              \<lparr>ch_geohash = geohash, ch_relays = relays, ch_participants = [], ch_next_presence = now\<rparr>
              (gs_channels g)\<rparr>))"

definition geo_leave :: "text_bytes \<Rightarrow> geo_service \<Rightarrow> bool \<times> geo_service" where
  "geo_leave geohash g = (is_joined geohash g, g\<lparr>gs_channels := AList.delete geohash (gs_channels g)\<rparr>)"

definition relays_for :: "text_bytes \<Rightarrow> geo_service \<Rightarrow> text_bytes list" where
  "relays_for geohash g = (case map_of (gs_channels g) geohash of Some c \<Rightarrow> ch_relays c | None \<Rightarrow> [])"

definition pubkey_for :: "'x geo_lib_scheme \<Rightarrow> text_bytes \<Rightarrow> geo_service \<Rightarrow> (text_bytes \<times> geo_service) option" where
  "pubkey_for gl geohash g =
     map_option (\<lambda>(pubkey, s). (pubkey, g\<lparr>gs_identities := s\<rparr>)) (pubkey_hex gl geohash (gs_identities g))"

text \<open>\<open>created_at\<close> is the reading of \<open>now_seconds\<close>, \<open>past\<close> the clock of the miner.\<close>

definition message_event ::
  "'x geo_lib_scheme \<Rightarrow> bytes \<Rightarrow> (nat \<Rightarrow> bool) \<Rightarrow> int \<Rightarrow> text_bytes \<Rightarrow> text_bytes \<Rightarrow> geo_service
     \<Rightarrow> (event \<times> geo_service) option" where
  "message_event gl aux past created_at geohash content g =
     do {
       (keypair, g) \<leftarrow> geo_keypair_for gl geohash g;
       tags \<leftarrow> mine gl past (hex_encode (nl_public gl keypair)) created_at KIND_EPHEMERAL
                 (geohash_tags geohash (Some (gs_nickname g)) False) content TARGET_BITS;
       Some (signed_event gl aux keypair created_at KIND_EPHEMERAL tags content, g)
     }"

definition presence_event ::
  "'x geo_lib_scheme \<Rightarrow> bytes \<Rightarrow> int \<Rightarrow> text_bytes \<Rightarrow> geo_service \<Rightarrow> (event \<times> geo_service) option" where
  "presence_event gl aux created_at geohash g =
     map_option (\<lambda>(keypair, g). (signed_event gl aux keypair created_at KIND_PRESENCE [[ascii ''g'', geohash]] [], g))
       (geo_keypair_for gl geohash g)"

definition is_due :: "nat \<Rightarrow> channel \<Rightarrow> bool" where
  "is_due now c \<longleftrightarrow> now \<ge> ch_next_presence c \<and> char_count (ch_geohash c) \<in> set PRESENCE_PRECISIONS"

definition beacon ::
  "'x geo_lib_scheme \<Rightarrow> bytes \<Rightarrow> int \<Rightarrow> nat \<Rightarrow> text_bytes \<Rightarrow> geo_service \<Rightarrow> ((text_bytes \<times> event) \<times> geo_service) option"
where
  "beacon gl aux created_at now geohash g =
     (let tick = gs_presence_tick g + 1;
          spread = PRESENCE_MAX - PRESENCE_MIN;
          jitter = unat tick mod (spread + 1);
          g = g\<lparr>gs_presence_tick := tick,
                gs_channels := AList.map_entry geohash
                  (\<lambda>c. c\<lparr>ch_next_presence := now + (PRESENCE_MIN + jitter) * 1000\<rparr>) (gs_channels g)\<rparr>
      in map_option (\<lambda>(e, g). ((geohash, e), g)) (presence_event gl aux created_at geohash g))"

fun beacons ::
  "'x geo_lib_scheme \<Rightarrow> bytes \<Rightarrow> int \<Rightarrow> nat \<Rightarrow> text_bytes list \<Rightarrow> geo_service
     \<Rightarrow> ((text_bytes \<times> event) list \<times> geo_service) option"
where
  "beacons gl aux created_at now [] g = Some ([], g)"
| "beacons gl aux created_at now (geohash # due) g =
     do {
       (b, g) \<leftarrow> beacon gl aux created_at now geohash g;
       (bs, g) \<leftarrow> beacons gl aux created_at now due g;
       Some (b # bs, g)
     }"

definition due_presence ::
  "'x geo_lib_scheme \<Rightarrow> bytes \<Rightarrow> int \<Rightarrow> nat \<Rightarrow> geo_service \<Rightarrow> ((text_bytes \<times> event) list \<times> geo_service) option"
where
  "due_presence gl aux created_at now g =
     beacons gl aux created_at now (map ch_geohash (filter (is_due now) (map snd (gs_channels g)))) g"

definition note_participant ::
  "nat \<Rightarrow> text_bytes \<Rightarrow> text_bytes option \<Rightarrow> (text_bytes \<times> participant) list \<Rightarrow> text_bytes \<times> (text_bytes \<times> participant) list"
where
  "note_participant now pubkey nickname ps =
     (let p = (case map_of ps pubkey of
                 Some p \<Rightarrow> p
               | None \<Rightarrow> \<lparr>pt_pubkey = pubkey, pt_nickname = None, pt_last_seen = now\<rparr>);
          p = (if nickname \<noteq> None then p\<lparr>pt_nickname := nickname\<rparr> else p);
          p = p\<lparr>pt_last_seen := now\<rparr>
      in (display_name p, AList.update pubkey p ps))"

definition note_activity ::
  "nat \<Rightarrow> text_bytes \<Rightarrow> text_bytes \<Rightarrow> text_bytes option \<Rightarrow> geo_service \<Rightarrow> text_bytes \<times> geo_service" where
  "note_activity now geohash pubkey nickname g =
     (case map_of (gs_channels g) geohash of
        None \<Rightarrow> (case nickname of Some n \<Rightarrow> n | None \<Rightarrow> short_pubkey pubkey, g)
      | Some c \<Rightarrow>
          let (name, ps) = note_participant now pubkey nickname (ch_participants c) in
          (name, g\<lparr>gs_channels := AList.map_entry geohash (\<lambda>c. c\<lparr>ch_participants := ps\<rparr>) (gs_channels g)\<rparr>))"

definition participants :: "text_bytes \<Rightarrow> geo_service \<Rightarrow> participant list" where
  "participants geohash g =
     sort_key display_name
       (case map_of (gs_channels g) geohash of Some c \<Rightarrow> map snd (ch_participants c) | None \<Rightarrow> [])"

definition participant_count :: "text_bytes \<Rightarrow> geo_service \<Rightarrow> nat" where
  "participant_count geohash g =
     (case map_of (gs_channels g) geohash of Some c \<Rightarrow> length (ch_participants c) | None \<Rightarrow> 0)"

definition prune_participants :: "nat \<Rightarrow> geo_service \<Rightarrow> geo_service" where
  "prune_participants now g =
     g\<lparr>gs_channels := map (\<lambda>(k, c). (k, c\<lparr>ch_participants :=
          filter (\<lambda>(_, p). now - pt_last_seen p < PARTICIPANT_TTL) (ch_participants c)\<rparr>)) (gs_channels g)\<rparr>"

section \<open>Runs\<close>

datatype geo_op =
    JoinChannel text_bytes | LeaveChannel text_bytes | Say bytes "nat \<Rightarrow> bool" int text_bytes text_bytes
  | Beacons bytes int | Heard text_bytes text_bytes "text_bytes option" | AskKey text_bytes | Prune | Rename text_bytes

text \<open>What an operation publishes, each event with its channel.\<close>

fun geo_do ::
  "'x geo_lib_scheme \<Rightarrow> nat \<Rightarrow> geo_op \<Rightarrow> geo_service \<Rightarrow> ((text_bytes \<times> event) list \<times> geo_service) option" where
  "geo_do gl now (JoinChannel h) g = Some ([], snd (geo_join gl now h g))"
| "geo_do gl now (LeaveChannel h) g = Some ([], snd (geo_leave h g))"
| "geo_do gl now (Say aux past sent h x) g = map_option (\<lambda>(e, g). ([(h, e)], g)) (message_event gl aux past sent h x g)"
| "geo_do gl now (Beacons aux sent) g = due_presence gl aux sent now g"
| "geo_do gl now (Heard h pubkey nickname) g = Some ([], snd (note_activity now h pubkey nickname g))"
| "geo_do gl now (AskKey h) g = map_option (\<lambda>(_, g). ([], g)) (pubkey_for gl h g)"
| "geo_do gl now Prune g = Some ([], prune_participants now g)"
| "geo_do gl now (Rename n) g = Some ([], geo_set_nickname n g)"

fun geo_run ::
  "'x geo_lib_scheme \<Rightarrow> (nat \<times> geo_op) list \<Rightarrow> geo_service \<Rightarrow> ((text_bytes \<times> event) list \<times> geo_service) option" where
  "geo_run gl [] g = Some ([], g)"
| "geo_run gl ((now, op) # ops) g =
     do {
       (es, g) \<leftarrow> geo_do gl now op g;
       (es', g) \<leftarrow> geo_run gl ops g;
       Some (es @ es', g)
     }"

definition geo_ok :: "'x geo_lib_scheme \<Rightarrow> bytes \<Rightarrow> geo_service \<Rightarrow> bool" where
  "geo_ok gl seed g \<longleftrightarrow>
     is_seed (gs_identities g) = seed
     \<and> (\<forall>h k. is_cache (gs_identities g) h = Some k \<longrightarrow> derive_key gl seed h = Some k)
     \<and> distinct (map fst (gs_channels g)) \<and> (\<forall>(h, c) \<in> set (gs_channels g). ch_geohash c = h)"

text \<open>An event is published by the identity of its channel.\<close>

definition from_channel :: "'x geo_lib_scheme \<Rightarrow> bytes \<Rightarrow> text_bytes \<Rightarrow> event \<Rightarrow> bool" where
  "from_channel gl seed h e \<longleftrightarrow>
     (\<exists>k. derive_key gl seed h = Some k \<and> ev_pubkey e = hex_encode (nl_public gl k)) \<and> event_geohash e = Some h"

lemma geo_ok_new [simp]: "geo_ok gl seed (geo_new seed nickname)"
  by (simp add: geo_ok_def geo_new_def identity_new_def)

lemma keypair_for_derived:
  assumes "geo_ok gl seed g" and "geo_keypair_for gl h g = Some (k, g')"
  shows "derive_key gl seed h = Some k" "geo_ok gl seed g'" "gs_channels g' = gs_channels g"
  using assms by (auto simp: geo_keypair_for_def keypair_for_def geo_ok_def split: option.splits if_split_asm)

text \<open>The cache never changes an answer.\<close>

lemma keypair_for_answer:
  "geo_ok gl seed g \<Longrightarrow> map_option fst (geo_keypair_for gl h g) = derive_key gl seed h"
  by (auto simp: geo_keypair_for_def keypair_for_def geo_ok_def option.map_comp comp_def split: option.splits)

text \<open>A verified address is hexadecimal: cutting it after four bytes never splits a character.\<close>

lemma hex_decode_ascii: "hex_decode s = Some b \<Longrightarrow> c \<in> set s \<Longrightarrow> c < 0x80"
proof (induction s arbitrary: b rule: hex_decode.induct)
  case (3 a b s)
  have "x < 0x80" if "hex_value x = Some n" for x n
    using that by (auto simp: hex_value_def word_less_nat_alt word_le_nat_alt Let_def split: if_split_asm)
  with 3 show ?case by (auto split: option.splits)
qed simp_all

lemma verified_key_cuts:
  assumes "verify_event nl e"
  shows "is_char_boundary (ev_pubkey e) (min 4 (length (ev_pubkey e)))"
proof -
  obtain pk where "hex_decode (ev_pubkey e) = Some pk" using verify_eventD [OF assms] by blast
  then have "\<forall>c \<in> set (ev_pubkey e). c < 0x80" using hex_decode_ascii by blast
  then have "ev_pubkey e ! 4 < 0x80" if "4 < length (ev_pubkey e)" using that by simp
  then show ?thesis
    by (cases "4 < length (ev_pubkey e)")
      (auto simp: is_char_boundary_def is_cont_def word_less_nat_alt word_le_nat_alt min_def)
qed

section \<open>Every operation keeps the service in order\<close>

lemma entry_channels:
  assumes "\<forall>(h, c) \<in> set cs. ch_geohash c = h" and "\<And>c. ch_geohash (f c) = ch_geohash c"
  shows "\<forall>(h, c) \<in> set (AList.map_entry k f cs). ch_geohash c = h"
  using assms by (induction cs) (auto)

lemma entry_keys [simp]: "map fst (AList.map_entry k f cs) = map fst cs"
  by (induction cs) auto

lemma beacon_ok:
  assumes "geo_ok gl seed g" and "beacon gl aux sent now h g = Some ((h', e), g')"
  shows "geo_ok gl seed g'" "h' = h" "from_channel gl seed h e" "ev_kind e = KIND_PRESENCE"
    "ev_tags e = [[ascii ''g'', h]]" "ev_content e = []"
    "\<exists>n \<ge> now + 40000. gs_channels g' = AList.map_entry h (\<lambda>c. c\<lparr>ch_next_presence := n\<rparr>) (gs_channels g)"
proof -
  obtain n where n_def: "n = now + (PRESENCE_MIN + unat (gs_presence_tick g + 1) mod (PRESENCE_MAX - PRESENCE_MIN + 1)) * 1000"
    by blast
  let ?g = "g\<lparr>gs_presence_tick := gs_presence_tick g + 1,
     gs_channels := AList.map_entry h (\<lambda>c. c\<lparr>ch_next_presence := n\<rparr>) (gs_channels g)\<rparr>"
  have "map_option (\<lambda>(e, g). ((h, e), g)) (presence_event gl aux sent h ?g) = Some ((h', e), g')"
    using assms(2) unfolding beacon_def Let_def n_def .
  then have "h' = h" and p: "presence_event gl aux sent h ?g = Some (e, g')"
    by (auto simp only: map_option_eq_Some prod.case prod.inject split: prod.splits)
  moreover obtain k where "geo_keypair_for gl h ?g = Some (k, g')"
    and "e = signed_event gl aux k sent KIND_PRESENCE [[ascii ''g'', h]] []"
    using p unfolding presence_event_def by (auto simp only: map_option_eq_Some prod.case prod.inject split: prod.splits)
  ultimately obtain k g'' where k: "geo_keypair_for gl h ?g = Some (k, g'')" and e: "h' = h" "g' = g''"
    "e = signed_event gl aux k sent KIND_PRESENCE [[ascii ''g'', h]] []"
    by blast
  have "\<forall>(h', c) \<in> set (AList.map_entry h (\<lambda>c. c\<lparr>ch_next_presence := n\<rparr>) (gs_channels g)). ch_geohash c = h'"
    using assms(1) by (intro entry_channels) (simp_all add: geo_ok_def)
  then have ok: "geo_ok gl seed ?g" using assms(1) by (simp add: geo_ok_def)
  note facts = keypair_for_derived [OF ok k]
  show "geo_ok gl seed g'" "h' = h" "ev_kind e = KIND_PRESENCE" "ev_tags e = [[ascii ''g'', h]]" "ev_content e = []"
    using facts e by simp_all
  show "from_channel gl seed h e"
    using facts(1) by (simp add: from_channel_def e event_geohash_def tag_value_def ascii_def)
  show "\<exists>n \<ge> now + 40000. gs_channels g' = AList.map_entry h (\<lambda>c. c\<lparr>ch_next_presence := n\<rparr>) (gs_channels g)"
    using facts(3) e(2) by (intro exI [of _ n]) (simp add: n_def PRESENCE_MIN_def)
qed

text \<open>The next beacon of a channel is not due before a time.\<close>

definition quiet_until :: "nat \<Rightarrow> text_bytes \<Rightarrow> geo_service \<Rightarrow> bool" where
  "quiet_until T h g \<longleftrightarrow> (\<exists>c. map_of (gs_channels g) h = Some c \<and> T \<le> ch_next_presence c)"

lemma beacon_quiet:
  assumes "geo_ok gl seed g" and "beacon gl aux sent now h g = Some (b, g')"
    and "quiet_until T k g" and "k = h \<Longrightarrow> T \<le> now + 40000"
  shows "quiet_until T k g'"
proof -
  obtain h' e where b: "b = (h', e)" by (cases b)
  obtain n where "n \<ge> now + 40000"
    and "gs_channels g' = AList.map_entry h (\<lambda>c. c\<lparr>ch_next_presence := n\<rparr>) (gs_channels g)"
    using beacon_ok(7) [OF assms(1) assms(2) [unfolded b]] by blast
  then show ?thesis using assms(3,4) by (auto simp: quiet_until_def map_of_map_entry)
qed

lemma beacon_silences:
  assumes "geo_ok gl seed g" and "beacon gl aux sent now h g = Some (b, g')" and "is_joined h g"
  shows "quiet_until (now + 40000) h g'"
proof -
  obtain h' e where b: "b = (h', e)" by (cases b)
  obtain n where "n \<ge> now + 40000"
    and "gs_channels g' = AList.map_entry h (\<lambda>c. c\<lparr>ch_next_presence := n\<rparr>) (gs_channels g)"
    using beacon_ok(7) [OF assms(1) assms(2) [unfolded b]] by blast
  then show ?thesis using assms(3) by (auto simp: quiet_until_def is_joined_def map_of_map_entry)
qed

lemma beacon_joined:
  assumes "geo_ok gl seed g" and "beacon gl aux sent now h g = Some (b, g')"
  shows "is_joined k g' = is_joined k g"
proof -
  obtain h' e where b: "b = (h', e)" by (cases b)
  show ?thesis using beacon_ok(7) [OF assms(1) assms(2) [unfolded b]]
    by (auto simp: is_joined_def map_of_map_entry split: option.splits if_split_asm)
qed

definition is_beacon :: "'x geo_lib_scheme \<Rightarrow> bytes \<Rightarrow> text_bytes \<Rightarrow> event \<Rightarrow> bool" where
  "is_beacon gl seed h e \<longleftrightarrow> from_channel gl seed h e \<and> ev_kind e = KIND_PRESENCE
     \<and> ev_tags e = [[ascii ''g'', h]] \<and> ev_content e = []"

lemma beacons_ok:
  assumes "geo_ok gl seed g" and "beacons gl aux sent now due g = Some (bs, g')"
  shows "geo_ok gl seed g' \<and> map fst bs = due \<and> (\<forall>(h, e) \<in> set bs. is_beacon gl seed h e)
    \<and> (\<forall>k. is_joined k g' = is_joined k g)
    \<and> (\<forall>T k. quiet_until T k g \<longrightarrow> (k \<in> set due \<longrightarrow> T \<le> now + 40000) \<longrightarrow> quiet_until T k g')
    \<and> (\<forall>k \<in> set due. is_joined k g \<longrightarrow> quiet_until (now + 40000) k g')"
  using assms
proof (induction due arbitrary: g bs)
  case Nil
  then show ?case by simp
next
  case (Cons h due)
  then obtain b bs' g1 where b: "beacon gl aux sent now h g = Some (b, g1)"
    and rest: "beacons gl aux sent now due g1 = Some (bs', g')" and bs: "bs = b # bs'"
    by (auto simp: bind_eq_Some_conv)
  obtain h' e where he: "b = (h', e)" by (cases b)
  note one = beacon_ok [OF Cons.prems(1) b [unfolded he]]
  note IH = Cons.IH [OF one(1) rest]
  have quiet: "quiet_until T k g1" if "quiet_until T k g" "k = h \<longrightarrow> T \<le> now + 40000" for T k
    using beacon_quiet [OF Cons.prems(1) b that(1)] that(2) by blast
  have here: "quiet_until (now + 40000) h g'" if "is_joined h g"
    using beacon_silences [OF Cons.prems(1) b that] IH by simp
  have same: "is_joined k g1 = is_joined k g" for k by (rule beacon_joined [OF Cons.prems(1) b])
  have "is_beacon gl seed h e" using one by (simp add: is_beacon_def)
  then show ?case using IH one(2) bs he quiet here same by auto
qed

lemma due_listed:
  assumes "geo_ok gl seed g" and "h \<in> set (map ch_geohash (filter (is_due now) (map snd (gs_channels g))))"
  shows "\<exists>c. map_of (gs_channels g) h = Some c \<and> is_due now c \<and> ch_geohash c = h"
proof -
  obtain k c where c: "(k, c) \<in> set (gs_channels g)" "is_due now c" "ch_geohash c = h" using assms(2) by auto
  then have "k = h" "distinct (map fst (gs_channels g))" using assms(1) by (auto simp: geo_ok_def)
  with c show ?thesis by (auto simp: map_of_eq_Some_iff)
qed

lemma due_presence_ok:
  assumes "geo_ok gl seed g" and "due_presence gl aux sent now g = Some (bs, g')"
  shows "geo_ok gl seed g'"
    and "(h, e) \<in> set bs \<Longrightarrow> is_beacon gl seed h e \<and> char_count h \<in> {2, 4, 5}
           \<and> quiet_until (now + 40000) h g' \<and> \<not> (\<exists>T > now. quiet_until T h g)"
    and "quiet_until T k g \<Longrightarrow> quiet_until T k g'"
proof -
  note facts = beacons_ok [OF assms(1) assms(2) [unfolded due_presence_def]]
  show "geo_ok gl seed g'" using facts by blast
  show "quiet_until T k g'" if "quiet_until T k g"
    using facts that due_listed [OF assms(1), of k now] by (fastforce simp: quiet_until_def is_due_def)
  assume he: "(h, e) \<in> set bs"
  then have "h \<in> set (map ch_geohash (filter (is_due now) (map snd (gs_channels g))))"
    using facts by (metis fst_conv image_eqI set_map)
  from due_listed [OF assms(1) this] this obtain c where "map_of (gs_channels g) h = Some c" "is_due now c" "ch_geohash c = h"
    by blast
  then show "is_beacon gl seed h e \<and> char_count h \<in> {2, 4, 5}
      \<and> quiet_until (now + 40000) h g' \<and> \<not> (\<exists>T > now. quiet_until T h g)"
    using facts he \<open>h \<in> set _\<close> by (auto simp: is_due_def PRESENCE_PRECISIONS_def quiet_until_def is_joined_def)
qed

lemma from_channel_say:
  assumes "geo_ok gl seed g" and "message_event gl aux past sent h x g = Some (e, g')"
  shows "from_channel gl seed h e" "ev_kind e = KIND_EPHEMERAL" "geo_ok gl seed g'" "gs_channels g' = gs_channels g"
proof -
  obtain k tags where k: "geo_keypair_for gl h g = Some (k, g')"
    and tags: "mine gl past (hex_encode (nl_public gl k)) sent KIND_EPHEMERAL (geohash_tags h (Some (gs_nickname g')) False) x TARGET_BITS = Some tags"
    and e: "e = signed_event gl aux k sent KIND_EPHEMERAL tags x"
    using assms(2) by (auto simp: message_event_def bind_eq_Some_conv)
  obtain extra where "tags = geohash_tags h (Some (gs_nickname g')) False @ extra" using mine_extends [OF tags] by blast
  then show "from_channel gl seed h e" "ev_kind e = KIND_EPHEMERAL" "geo_ok gl seed g'" "gs_channels g' = gs_channels g"
    using keypair_for_derived [OF assms(1) k] by (simp_all add: from_channel_def e)
qed

lemma geo_join_ok:
  assumes "geo_ok gl seed g"
  shows "geo_ok gl seed (snd (geo_join gl now h g))" "quiet_until T k g \<Longrightarrow> quiet_until T k (snd (geo_join gl now h g))"
proof -
  show "quiet_until T k (snd (geo_join gl now h g))" if "quiet_until T k g"
    using that by (auto simp: geo_join_def quiet_until_def is_joined_def Let_def update_conv')
  have put: "\<forall>(k, c) \<in> set (AList.update h v cs). ch_geohash c = k"
    if "\<forall>(k, c) \<in> set cs. ch_geohash c = k" "ch_geohash v = h" for v cs
    using that by (induction cs) auto
  show "geo_ok gl seed (snd (geo_join gl now h g))"
  proof (cases "is_joined h g")
    case True
    then show ?thesis using assms by (simp add: geo_join_def)
  next
    case False
    from assms have "\<forall>(k, c) \<in> set (gs_channels g). ch_geohash c = k" by (simp add: geo_ok_def)
    with False assms show ?thesis
      by (simp add: geo_ok_def geo_join_def Let_def distinct_update) (rule put; simp)
  qed
qed

lemma geo_leave_ok:
  assumes "geo_ok gl seed g"
  shows "geo_ok gl seed (snd (geo_leave h g))" "k \<noteq> h \<Longrightarrow> quiet_until T k g \<Longrightarrow> quiet_until T k (snd (geo_leave h g))"
  using assms by (auto simp: geo_ok_def geo_leave_def quiet_until_def distinct_delete AList.delete_conv' AList.delete_eq distinct_map_filter)

lemma note_activity_ok:
  assumes "geo_ok gl seed g"
  shows "geo_ok gl seed (snd (note_activity now h pubkey nickname g))"
    "quiet_until T k g \<Longrightarrow> quiet_until T k (snd (note_activity now h pubkey nickname g))"
proof -
  have "\<forall>(k, c) \<in> set (AList.map_entry h (\<lambda>c. c\<lparr>ch_participants := ps\<rparr>) (gs_channels g)). ch_geohash c = k" for ps
    using assms by (intro entry_channels) (simp_all add: geo_ok_def)
  then show "geo_ok gl seed (snd (note_activity now h pubkey nickname g))"
    using assms by (simp add: note_activity_def geo_ok_def split_beta Let_def split: option.split)
  show "quiet_until T k g \<Longrightarrow> quiet_until T k (snd (note_activity now h pubkey nickname g))"
    by (auto simp: note_activity_def quiet_until_def split_beta Let_def map_of_map_entry split: option.split)
qed

lemma prune_participants_ok:
  assumes "geo_ok gl seed g"
  shows "geo_ok gl seed (prune_participants now g)" "quiet_until T k g \<Longrightarrow> quiet_until T k (prune_participants now g)"
proof -
  show "geo_ok gl seed (prune_participants now g)"
    using assms by (auto simp: geo_ok_def prune_participants_def comp_def split_def)
  show "quiet_until T k g \<Longrightarrow> quiet_until T k (prune_participants now g)"
    by (auto simp: quiet_until_def prune_participants_def map_of_map)
qed

lemma geo_do_ok:
  assumes "geo_ok gl seed g" and "geo_do gl now op g = Some (es, g')"
  shows "geo_ok gl seed g'" and "quiet_until T k g \<Longrightarrow> op \<noteq> LeaveChannel k \<Longrightarrow> quiet_until T k g'"
    and "(h, e) \<in> set es \<Longrightarrow> from_channel gl seed h e
           \<and> (ev_kind e = KIND_PRESENCE \<longrightarrow> is_beacon gl seed h e \<and> char_count h \<in> {2, 4, 5})"
proof -
  have "geo_ok gl seed g' \<and> (\<forall>T k. quiet_until T k g \<longrightarrow> op \<noteq> LeaveChannel k \<longrightarrow> quiet_until T k g')
    \<and> (\<forall>(h, e) \<in> set es. from_channel gl seed h e
           \<and> (ev_kind e = KIND_PRESENCE \<longrightarrow> is_beacon gl seed h e \<and> char_count h \<in> {2, 4, 5}))"
  proof (cases op)
    case (Say aux past sent h x)
    then obtain e where e: "message_event gl aux past sent h x g = Some (e, g')" "es = [(h, e)]" using assms(2) by auto
    show ?thesis using from_channel_say [OF assms(1) e(1)] e(2)
      by (auto simp: quiet_until_def KIND_EPHEMERAL_def KIND_PRESENCE_def)
  next
    case (Beacons aux sent)
    then have d: "due_presence gl aux sent now g = Some (es, g')" using assms(2) by simp
    show ?thesis using due_presence_ok [OF assms(1) d] by (auto simp: is_beacon_def)
  next
    case (LeaveChannel h)
    then show ?thesis using assms geo_leave_ok [OF assms(1)] by auto
  next
    case (AskKey h)
    then obtain k where "geo_keypair_for gl h g = Some (k, g')" "es = []"
      using assms(2) by (auto simp: pubkey_for_def pubkey_hex_def geo_keypair_for_def)
    then show ?thesis using keypair_for_derived [OF assms(1)] by (auto simp: quiet_until_def)
  next
    case (Rename n)
    then show ?thesis using assms by (auto simp: geo_set_nickname_def geo_ok_def quiet_until_def)
  qed (use assms geo_join_ok geo_leave_ok note_activity_ok prune_participants_ok in \<open>auto\<close>)
  then show "geo_ok gl seed g'" "quiet_until T k g \<Longrightarrow> op \<noteq> LeaveChannel k \<Longrightarrow> quiet_until T k g'"
    "(h, e) \<in> set es \<Longrightarrow> from_channel gl seed h e
           \<and> (ev_kind e = KIND_PRESENCE \<longrightarrow> is_beacon gl seed h e \<and> char_count h \<in> {2, 4, 5})"
    by blast+
qed

lemma geo_run_ok:
  assumes "geo_ok gl seed g" and "geo_run gl ops g = Some (es, g')"
  shows "geo_ok gl seed g' \<and> (\<forall>T k. quiet_until T k g \<longrightarrow> LeaveChannel k \<notin> snd ` set ops \<longrightarrow> quiet_until T k g')
    \<and> (\<forall>(h, e) \<in> set es. from_channel gl seed h e
           \<and> (ev_kind e = KIND_PRESENCE \<longrightarrow> is_beacon gl seed h e \<and> char_count h \<in> {2, 4, 5}))"
  using assms
proof (induction ops arbitrary: g es)
  case Nil
  then show ?case by simp
next
  case (Cons o1 ops)
  obtain now op where o1: "o1 = (now, op)" by (cases o1)
  obtain es1 g1 es2 where d: "geo_do gl now op g = Some (es1, g1)" and r: "geo_run gl ops g1 = Some (es2, g')"
    and es: "es = es1 @ es2"
    using Cons.prems(2) o1 by (auto simp: bind_eq_Some_conv)
  note one = geo_do_ok [OF Cons.prems(1) d]
  show ?case using Cons.IH [OF one(1) r] one es o1 by fastforce
qed

section \<open>Properties\<close>

text \<open>The label of the long-lived identity is no location channel.\<close>

lemma main_label_no_channel: "\<not> geohash_valid unicode MAIN_IDENTITY_LABEL"
proof -
  have "char_count MAIN_IDENTITY_LABEL = 23" by (simp add: MAIN_IDENTITY_LABEL_def ascii_def char_count_def is_cont_def word_le_nat_alt)
  then show ?thesis by (simp add: geohash_valid_def)
qed

text \<open>
  Every event a session publishes for a channel is signed with the key derived from the
  seed and that channel alone, and names the channel.
\<close>

lemma channel_events_signed:
  assumes "geo_run gl ops (geo_new seed nickname) = Some (es, g)" and "(h, e) \<in> set es"
  shows "\<exists>k. derive_key gl seed h = Some k \<and> ev_pubkey e = hex_encode (nl_public gl k) \<and> event_geohash e = Some h"
  using geo_run_ok [OF geo_ok_new assms(1)] assms(2) by (auto simp: from_channel_def)

text \<open>
  C35.  Presence is announced coarsely and rarely.  Whatever happened before and between,
  a beacon is only sent for a channel of two, four or five characters (region, province or
  city), carries no words and no name, and is followed by none for the same channel within
  forty seconds, unless the channel is left in between.
\<close>

theorem presence_coarse_and_rare:
  assumes "geo_run gl ops (geo_new seed nickname) = Some (es, g)"
    and "due_presence gl aux sent t g = Some (bs, g1)" and "(h, e) \<in> set bs"
    and "geo_run gl ops' g1 = Some (es', g2)" and "LeaveChannel h \<notin> snd ` set ops'"
    and "due_presence gl aux' sent' t' g2 = Some (bs', g3)" and "(h, e') \<in> set bs'"
  shows "char_count h \<in> {2, 4, 5} \<and> ev_tags e = [[ascii ''g'', h]] \<and> ev_content e = [] \<and> t + 40000 \<le> t'"
proof -
  have ok: "geo_ok gl seed g" using geo_run_ok [OF geo_ok_new assms(1)] by blast
  note first = due_presence_ok [OF ok assms(2)]
  note between = geo_run_ok [OF first(1) assms(4)]
  have "quiet_until (t + 40000) h g2" using between first(2) [OF assms(3)] assms(5) by blast
  moreover have "geo_ok gl seed g2" using between by blast
  note second = due_presence_ok(2) [OF this assms(6,7)]
  ultimately have "\<not> t' < t + 40000" by blast
  then show ?thesis using first(2) [OF assms(3)] by (simp add: is_beacon_def)
qed

definition toy_geo_lib :: geo_lib where
  "toy_geo_lib = envelope_lib.extend (toy_lib (\<lambda>_ _ _. True))
     \<lparr>gl_hmac = (\<lambda>seed m. m), gl_scalar_ok = (\<lambda>_. True), gl_unicode = id, gl_distance = (\<lambda>_ _. 0),
      gl_directory = [], gl_unbech = (\<lambda>_. None), gl_bech = (\<lambda>_ _. None)\<rparr>"

lemma toy_geo_fields:
  "gl_hmac toy_geo_lib = (\<lambda>seed m. m)" "gl_scalar_ok toy_geo_lib = (\<lambda>_. True)"
  "nl_public toy_geo_lib = toy_public" "nl_key_ok toy_geo_lib k" "nl_sign toy_geo_lib a sk m = replicate 64 0"
  "nl_verify toy_geo_lib pk m s"
  by (simp_all add: toy_geo_lib_def toy_lib_def toy_nostr_def envelope_lib.defs nostr_lib.defs)

lemma toy_derive: "derive_key toy_geo_lib seed h = Some (h @ be32 0)"
proof -
  have "find (\<lambda>_. True) (map f [0..<10]) = Some (f 0)" for f :: "nat \<Rightarrow> bytes" by (simp add: upt_conv_Cons)
  then show ?thesis by (simp add: derive_key_def toy_geo_fields)
qed

lemma toy_keypair_for:
  "is_cache s = Map.empty \<Longrightarrow> keypair_for toy_geo_lib h s = Some (h @ be32 0, s\<lparr>is_cache := [h \<mapsto> h @ be32 0]\<rparr>)"
  by (simp add: keypair_for_def toy_derive)

definition toy_channel :: text_bytes where "toy_channel = ascii ''9q''"

lemma toy_join: "geo_join toy_geo_lib now toy_channel (geo_new seed n) =
   (Some [], (geo_new seed n)\<lparr>gs_channels := [(toy_channel, \<lparr>ch_geohash = toy_channel, ch_relays = [], ch_participants = [], ch_next_presence = now\<rparr>)]\<rparr>)"
proof -
  have "gl_directory toy_geo_lib = []" by (simp add: toy_geo_lib_def envelope_lib.defs)
  then show ?thesis
    by (simp add: geo_join_def geo_new_def is_joined_def closest_relays_def closest_relays_to_def Let_def)
qed

lemma toy_char_count: "char_count toy_channel = 2"
  by (simp add: toy_channel_def ascii_def char_count_def is_cont_def word_le_nat_alt)

lemma toy_due:
  assumes "gs_channels g = [(toy_channel, c)]" and "ch_geohash c = toy_channel" and "ch_next_presence c \<le> now"
    and "is_cache (gs_identities g) \<subseteq>\<^sub>m [toy_channel \<mapsto> toy_channel @ be32 0]"
  shows "\<exists>e c' g'. due_presence toy_geo_lib aux sent now g = Some ([(toy_channel, e)], g')
    \<and> gs_channels g' = [(toy_channel, c')] \<and> ch_geohash c' = toy_channel
    \<and> ch_next_presence c' \<le> now + 80000
    \<and> is_cache (gs_identities g') \<subseteq>\<^sub>m [toy_channel \<mapsto> toy_channel @ be32 0]"
proof -
  have cache: "is_cache (gs_identities g) toy_channel \<in> {None, Some (toy_channel @ be32 0)}"
    using assms(4) by (cases "is_cache (gs_identities g) toy_channel") (force simp: map_le_def dom_def)+
  have "is_due now c" using assms(2,3) by (simp add: is_due_def toy_char_count PRESENCE_PRECISIONS_def)
  moreover have "unat (gs_presence_tick g + 1) mod 41 \<le> 40" by (simp add: less_Suc_eq_le [symmetric])
  ultimately show ?thesis using assms cache
    by (auto simp: due_presence_def beacon_def presence_event_def geo_keypair_for_def keypair_for_def toy_derive
        PRESENCE_MIN_def PRESENCE_MAX_def Let_def map_le_def)
qed

text \<open>Joined at five, announced at six, and again at ninety seconds.\<close>

theorem presence_coarse_and_rare_witness:
  "\<exists>e g g1 e' g3. geo_run toy_geo_lib [(5, JoinChannel toy_channel)] (geo_new [1] [97]) = Some ([], g)
     \<and> due_presence toy_geo_lib [] 100 6 g = Some ([(toy_channel, e)], g1)
     \<and> due_presence toy_geo_lib [] 190 90000 g1 = Some ([(toy_channel, e')], g3)
     \<and> char_count toy_channel \<in> {2, 4, 5} \<and> 6 + 40000 \<le> (90000 :: nat)"
proof -
  let ?c = "\<lparr>ch_geohash = toy_channel, ch_relays = [], ch_participants = [], ch_next_presence = 5\<rparr>"
  let ?g = "(geo_new [1] [97])\<lparr>gs_channels := [(toy_channel, ?c)]\<rparr>"
  have run: "geo_run toy_geo_lib [(5, JoinChannel toy_channel)] (geo_new [1] [97]) = Some ([], ?g)"
    by (simp add: toy_join)
  obtain e c g1 where one: "due_presence toy_geo_lib [] 100 6 ?g = Some ([(toy_channel, e)], g1)"
    and c: "gs_channels g1 = [(toy_channel, c)]" "ch_geohash c = toy_channel" "ch_next_presence c \<le> 6 + 80000"
      "is_cache (gs_identities g1) \<subseteq>\<^sub>m [toy_channel \<mapsto> toy_channel @ be32 0]"
    using toy_due [where g = ?g and c = ?c and now = 6 and aux = "[]" and sent = 100]
    by (auto simp: geo_new_def identity_new_def)
  obtain e' g3 where two: "due_presence toy_geo_lib [] 190 90000 g1 = Some ([(toy_channel, e')], g3)"
    using toy_due [OF c(1,2) _ c(4), where now = 90000 and aux = "[]" and sent = 190] c(3) by auto
  have "char_count toy_channel \<in> {2, 4, 5} \<and> 6 + 40000 \<le> (90000 :: nat)"
    using presence_coarse_and_rare [OF run one _ _ _ two, where h = toy_channel and e = e and e' = e' and ops' = "[]" and es' = "[]"]
    by simp
  then show ?thesis using run one two by blast
qed

end
