(* ===== verification/Nostr_Client.thy ===== *)
theory Nostr_Client
  imports Envelope Seen "HOL-Library.AList" "HOL-Library.Multiset"
begin

text \<open>
  The relay pool (nostr/client.rs, nostr/relay.rs): filters and wire messages, the
  supervisor that owns subscriptions, checks what relays serve, collapses copies, buffers
  stored history and replays it in order, and the waits of a relay's socket.  JSON is a
  parameter, through the values \<open>serde_json\<close> parses a text to.  Receivers of events stay
  open; outbound queues are the lists of relays a frame is offered to.
\<close>

section \<open>The wire\<close>

record filter_query =
  fq_kinds :: "u32 list option"
  fq_since :: "int option"
  fq_limit :: "nat option"
  fq_geohashes :: "text_bytes list option"
  fq_pubkeys :: "text_bytes list option"

text \<open>The clock is the seconds since the epoch, \<open>None\<close> before it.\<close>

definition since_lookback :: "int option \<Rightarrow> int \<Rightarrow> int option" where
  "since_lookback now lookback_seconds = map_option (\<lambda>now. now - lookback_seconds) now"

definition filter_geohashes :: "text_bytes list \<Rightarrow> int option \<Rightarrow> nat \<Rightarrow> filter_query" where
  "filter_geohashes cells since limit =
     \<lparr>fq_kinds = Some [KIND_EPHEMERAL, KIND_PRESENCE], fq_since = since, fq_limit = Some limit,
      fq_geohashes = Some cells, fq_pubkeys = None\<rparr>"

definition geohash_ephemeral :: "text_bytes \<Rightarrow> int option \<Rightarrow> nat \<Rightarrow> filter_query" where
  "geohash_ephemeral geohash since limit = filter_geohashes [geohash] since limit"

definition gift_wraps :: "text_bytes \<Rightarrow> int option \<Rightarrow> nat \<Rightarrow> filter_query" where
  "gift_wraps pubkey since limit =
     \<lparr>fq_kinds = Some [KIND_GIFT_WRAP], fq_since = since, fq_limit = Some limit,
      fq_geohashes = None, fq_pubkeys = Some [pubkey]\<rparr>"

datatype json_value =
  JNull | JBool bool | JNumber | JString text_bytes | JArray "json_value list" | JObject "(text_bytes \<times> json_value) list"

definition as_str :: "json_value \<Rightarrow> text_bytes option" where
  "as_str v = (case v of JString s \<Rightarrow> Some s | _ \<Rightarrow> None)"

definition as_bool :: "json_value \<Rightarrow> bool option" where
  "as_bool v = (case v of JBool b \<Rightarrow> Some b | _ \<Rightarrow> None)"

definition item :: "nat \<Rightarrow> 'a list \<Rightarrow> 'a option" where
  "item i xs = (if i < length xs then Some (xs ! i) else None)"

datatype relay_message =
    RelayEvent text_bytes event | EndOfStoredEvents text_bytes | RelayOk text_bytes bool text_bytes
  | RelayNotice text_bytes | RelayOther text_bytes

definition or_default :: "'a \<Rightarrow> 'a option \<Rightarrow> 'a" where
  "or_default d x = (case x of None \<Rightarrow> d | Some y \<Rightarrow> y)"

definition parse_relay_message ::
  "(text_bytes \<Rightarrow> json_value option) \<Rightarrow> (json_value \<Rightarrow> event option) \<Rightarrow> text_bytes \<Rightarrow> relay_message option" where
  "parse_relay_message from_str event_of text =
     do {
       v \<leftarrow> from_str text;
       array \<leftarrow> (case v of JArray vs \<Rightarrow> Some vs | _ \<Rightarrow> None);
       kind \<leftarrow> Option.bind (item 0 array) as_str;
       (if kind = ascii ''EVENT'' then do {
          subscription \<leftarrow> Option.bind (item 1 array) as_str;
          event \<leftarrow> Option.bind (item 2 array) event_of;
          Some (RelayEvent subscription event)
        }
        else if kind = ascii ''EOSE'' then map_option EndOfStoredEvents (Option.bind (item 1 array) as_str)
        else if kind = ascii ''OK'' then do {
          i \<leftarrow> item 1 array;
          accepted \<leftarrow> item 2 array;
          Some (RelayOk (or_default [] (as_str i)) (or_default False (as_bool accepted))
                  (or_default [] (Option.bind (item 3 array) as_str)))
        }
        else if kind = ascii ''NOTICE'' then map_option (\<lambda>v. RelayNotice (or_default [] (as_str v))) (item 1 array)
        else Some (RelayOther text))
     }"

section \<open>Events and commands\<close>

definition RECONNECT_BACKOFF_START :: nat where "RECONNECT_BACKOFF_START = 2000"
definition RECONNECT_BACKOFF_MAX :: nat where "RECONNECT_BACKOFF_MAX = 300000"
definition STABLE_CONNECTION :: nat where "STABLE_CONNECTION = 30000"
definition CHANNEL_LOOKBACK_SECONDS :: int where "CHANNEL_LOOKBACK_SECONDS = 3600"
definition CHANNEL_LIMIT :: nat where "CHANNEL_LIMIT = 200"
definition SAMPLE_LOOKBACK_SECONDS :: int where "SAMPLE_LOOKBACK_SECONDS = 300"
definition SAMPLE_LIMIT :: nat where "SAMPLE_LIMIT = 100"
definition DM_LOOKBACK_SECONDS :: int where "DM_LOOKBACK_SECONDS = 86400"
definition DM_LIMIT :: nat where "DM_LIMIT = 100"
definition SEEN_LIMIT :: nat where "SEEN_LIMIT = 4096"
definition BACKLOG_WINDOW :: nat where "BACKLOG_WINDOW = 3000"
definition SAMPLER_KEY :: text_bytes where "SAMPLER_KEY = 1 # ascii ''sampler''"
definition DM_KEY :: text_bytes where "DM_KEY = 1 # ascii ''dm''"

definition DM_RELAYS :: "text_bytes list" where
  "DM_RELAYS = map ascii [''wss://relay.damus.io'', ''wss://nos.lol'', ''wss://relay.primal.net'', ''wss://offchain.pub'']"

datatype geo_event =
    RelayConnected text_bytes text_bytes
  | RelayFailed text_bytes string
  | GeoMessage text_bytes text_bytes "text_bytes option" text_bytes int bool
  | GeoPresence text_bytes text_bytes int
  | HistoryEnd text_bytes
  | Activity text_bytes text_bytes bool
  | Carryable text_bytes text_bytes
  | PrivateEnvelope event

datatype command =
    Subscribe text_bytes "text_bytes list" | Unsubscribe text_bytes | PublishEvent text_bytes event
  | Sample "text_bytes list" "text_bytes list" | StopSampling
  | SubscribeDirect text_bytes "text_bytes list" | SetCarrying bool

datatype watch = Cells "text_bytes list" int nat | DirectMessages text_bytes

definition watch_filter :: "int option \<Rightarrow> watch \<Rightarrow> filter_query" where
  "watch_filter now w =
     (case w of
        Cells cells lookback limit \<Rightarrow> filter_geohashes cells (since_lookback now lookback) limit
      | DirectMessages pubkey \<Rightarrow> gift_wraps pubkey (since_lookback now DM_LOOKBACK_SECONDS) DM_LIMIT)"

definition subscription_prefix :: "watch \<Rightarrow> text_bytes" where
  "subscription_prefix w = (case w of Cells _ _ _ \<Rightarrow> ascii ''geo'' | DirectMessages _ \<Rightarrow> ascii ''dm'')"

text \<open>The scalars of a key are its characters; only ASCII letters and digits are kept.\<close>

definition is_ascii_alphanumeric :: "byte \<Rightarrow> bool" where
  "is_ascii_alphanumeric c \<longleftrightarrow> (48 \<le> c \<and> c \<le> 57) \<or> (65 \<le> c \<and> c \<le> 90) \<or> (97 \<le> c \<and> c \<le> 122)"

definition sanitize_subscription_id :: "text_bytes \<Rightarrow> text_bytes" where
  "sanitize_subscription_id key =
     map (\<lambda>c. if is_ascii_alphanumeric c then c else 45) (filter (\<lambda>c. \<not> is_cont c) key)"

section \<open>The supervisor\<close>

record backlog =
  bl_buffered :: "(int \<times> geo_event) list"
  bl_deadline :: nat
  bl_pending_relays :: "text_bytes set"

record client =
  cl_subscriptions :: "text_bytes \<rightharpoonup> text_bytes list"
  cl_seen :: "text_bytes ring"
  cl_backlogs :: "(text_bytes \<times> backlog) list"
  cl_sampler_cells :: "text_bytes set"
  cl_carrying :: bool

definition client_new :: client where
  "client_new = \<lparr>cl_subscriptions = Map.empty, cl_seen = ring_empty, cl_backlogs = [],
     cl_sampler_cells = {}, cl_carrying = False\<rparr>"

text \<open>What the supervisor does: starts a socket, offers a frame to one, or hands an event up.\<close>

datatype client_act = Spawn text_bytes text_bytes watch | Transmit text_bytes event | Emit geo_event

definition client_remember :: "text_bytes \<Rightarrow> text_bytes ring \<Rightarrow> bool \<times> text_bytes ring" where
  "client_remember = pop_insert SEEN_LIMIT"

definition handle_command :: "nat \<Rightarrow> command \<Rightarrow> client \<Rightarrow> client_act list \<times> client" where
  "handle_command now cmd c =
     (case cmd of
        Subscribe geohash relays \<Rightarrow>
          (map (\<lambda>relay. Spawn relay geohash (Cells [geohash] CHANNEL_LOOKBACK_SECONDS CHANNEL_LIMIT)) relays,
           c\<lparr>cl_subscriptions := (cl_subscriptions c)(geohash \<mapsto> relays),
             cl_backlogs := AList.update geohash
               \<lparr>bl_buffered = [], bl_deadline = now + BACKLOG_WINDOW, bl_pending_relays = set relays\<rparr>
               (cl_backlogs c)\<rparr>)
      | Unsubscribe geohash \<Rightarrow>
          ([], c\<lparr>cl_subscriptions := (cl_subscriptions c)(geohash := None),
                cl_backlogs := AList.delete geohash (cl_backlogs c)\<rparr>)
      | Sample cells relays \<Rightarrow>
          (map (\<lambda>relay. Spawn relay SAMPLER_KEY (Cells cells SAMPLE_LOOKBACK_SECONDS SAMPLE_LIMIT)) relays,
           c\<lparr>cl_subscriptions := (cl_subscriptions c)(SAMPLER_KEY \<mapsto> relays),
             cl_backlogs := AList.delete SAMPLER_KEY (cl_backlogs c), cl_sampler_cells := set cells\<rparr>)
      | SubscribeDirect pubkey relays \<Rightarrow>
          (map (\<lambda>relay. Spawn relay DM_KEY (DirectMessages pubkey)) relays,
           c\<lparr>cl_subscriptions := (cl_subscriptions c)(DM_KEY \<mapsto> relays)\<rparr>)
      | SetCarrying wanted \<Rightarrow> ([], c\<lparr>cl_carrying := wanted\<rparr>)
      | StopSampling \<Rightarrow>
          ([], c\<lparr>cl_subscriptions := (cl_subscriptions c)(SAMPLER_KEY := None),
                cl_backlogs := AList.delete SAMPLER_KEY (cl_backlogs c), cl_sampler_cells := {}\<rparr>)
      | PublishEvent geohash e \<Rightarrow>
          (case cl_subscriptions c geohash of
             None \<Rightarrow> ([], c)
           | Some relays \<Rightarrow> (map (\<lambda>relay. Transmit relay e) relays, c)))"

definition is_chat :: "geo_event \<Rightarrow> bool" where
  "is_chat e \<longleftrightarrow> (case e of GeoMessage _ _ _ _ _ _ \<Rightarrow> True | _ \<Rightarrow> False)"

definition flush_backlog :: "text_bytes \<Rightarrow> client \<Rightarrow> geo_event list \<times> client" where
  "flush_backlog geohash c =
     (case map_of (cl_backlogs c) geohash of
        None \<Rightarrow> ([], c)
      | Some b \<Rightarrow>
          let buffered = sort_key fst (bl_buffered b);
              replayed_chat = list_ex (\<lambda>(_, e). is_chat e) buffered
          in (map snd buffered @ (if replayed_chat \<and> geohash \<noteq> SAMPLER_KEY then [HistoryEnd geohash] else []),
              c\<lparr>cl_backlogs := AList.delete geohash (cl_backlogs c)\<rparr>))"

fun flush_all :: "text_bytes list \<Rightarrow> client \<Rightarrow> geo_event list \<times> client" where
  "flush_all [] c = ([], c)"
| "flush_all (g # gs) c = (let (es, c) = flush_backlog g c; (es', c) = flush_all gs c in (es @ es', c))"

definition client_tick :: "nat \<Rightarrow> client \<Rightarrow> geo_event list \<times> client" where
  "client_tick now c = flush_all (map fst (filter (\<lambda>(_, b). now \<ge> bl_deadline b) (cl_backlogs c))) c"

definition handle_eose :: "text_bytes \<Rightarrow> text_bytes \<Rightarrow> client \<Rightarrow> geo_event list \<times> client" where
  "handle_eose key relay c =
     (case map_of (cl_backlogs c) key of
        None \<Rightarrow> ([], c)
      | Some b \<Rightarrow>
          let b = b\<lparr>bl_pending_relays := bl_pending_relays b - {relay}\<rparr>;
              c = c\<lparr>cl_backlogs := AList.update key b (cl_backlogs c)\<rparr>
          in if bl_pending_relays b = {} then flush_backlog key c else ([], c))"

definition content_key :: "event \<Rightarrow> text_bytes" where
  "content_key e = ev_pubkey e @ 124 # show_int (ev_created_at e) @ 124 # ev_content e"

definition first_sight :: "event \<Rightarrow> client \<Rightarrow> bool \<times> client" where
  "first_sight e c =
     (if ev_kind e = KIND_EPHEMERAL
      then let (fresh_id, seen) = client_remember (ev_id e) (cl_seen c);
               (fresh_content, seen) = client_remember (content_key e) seen
           in (fresh_id \<and> fresh_content, c\<lparr>cl_seen := seen\<rparr>)
      else (True, c))"

definition geo_out :: "text_bytes \<Rightarrow> event \<Rightarrow> geo_event option" where
  "geo_out geohash e =
     (if ev_kind e = KIND_EPHEMERAL
      then Some (GeoMessage geohash (ev_pubkey e) (event_nickname e) (ev_content e) (ev_created_at e) (is_teleported e))
      else if ev_kind e = KIND_PRESENCE then Some (GeoPresence geohash (ev_pubkey e) (ev_created_at e))
      else None)"

definition handle_geo_event ::
  "'x envelope_lib_scheme \<Rightarrow> text_bytes \<Rightarrow> event \<Rightarrow> client \<Rightarrow> geo_event list \<times> client" where
  "handle_geo_event el key e c =
     (case event_geohash e of
        None \<Rightarrow> ([], c)
      | Some cell \<Rightarrow>
          if (key = SAMPLER_KEY \<and> cell \<notin> cl_sampler_cells c) \<or> (key \<noteq> SAMPLER_KEY \<and> cell \<noteq> key) then ([], c)
          else
            let (fresh, c) = first_sight e c in
            if \<not> fresh then ([], c)
            else if key = SAMPLER_KEY then ([Activity cell (ev_pubkey e) (ev_kind e = KIND_EPHEMERAL)], c)
            else
              let carried = (if cl_carrying c \<and> ev_kind e = KIND_EPHEMERAL \<and> map_of (cl_backlogs c) key = None
                             then [Carryable key (el_event_json el e)] else []) in
              case geo_out key e of
                None \<Rightarrow> (carried, c)
              | Some out \<Rightarrow>
                  (case map_of (cl_backlogs c) key of
                     Some b \<Rightarrow>
                       (carried, c\<lparr>cl_backlogs := AList.update key
                          (b\<lparr>bl_buffered := bl_buffered b @ [(ev_created_at e, out)]\<rparr>) (cl_backlogs c)\<rparr>)
                   | None \<Rightarrow> (carried @ [out], c)))"

definition handle_inbound ::
  "'x envelope_lib_scheme \<Rightarrow> text_bytes \<Rightarrow> text_bytes \<Rightarrow> relay_message \<Rightarrow> client \<Rightarrow> geo_event list \<times> client" where
  "handle_inbound el key relay message c =
     (case message of
        EndOfStoredEvents _ \<Rightarrow> handle_eose key relay c
      | RelayEvent _ e \<Rightarrow>
          if \<not> verify_event el e then ([], c)
          else if key = DM_KEY then
            (if ev_kind e \<noteq> KIND_GIFT_WRAP then ([], c)
             else let (fresh, seen) = client_remember (ev_id e) (cl_seen c); c = c\<lparr>cl_seen := seen\<rparr>
                  in if \<not> fresh then ([], c) else ([PrivateEnvelope e], c))
          else handle_geo_event el key e c
      | _ \<Rightarrow> ([], c))"

section \<open>Runs\<close>

datatype client_input = Cmd command | Inbound text_bytes text_bytes relay_message | Tick

fun client_do ::
  "'x envelope_lib_scheme \<Rightarrow> nat \<Rightarrow> client_input \<Rightarrow> client \<Rightarrow> client_act list \<times> client" where
  "client_do el now (Cmd cmd) c = handle_command now cmd c"
| "client_do el now (Inbound key relay m) c = (let (es, c) = handle_inbound el key relay m c in (map Emit es, c))"
| "client_do el now Tick c = (let (es, c) = client_tick now c in (map Emit es, c))"

fun client_run ::
  "'x envelope_lib_scheme \<Rightarrow> (nat \<times> client_input) list \<Rightarrow> client \<Rightarrow> client_act list \<times> client" where
  "client_run el [] c = ([], c)"
| "client_run el ((now, i) # is) c =
     (let (a, c) = client_do el now i c; (as, c) = client_run el is c in (a @ as, c))"

section \<open>One socket\<close>

text \<open>
  How an attempt ended: no connection, a request that could not be written, or a socket
  that was open for a time and then lost.  What follows is the wait before the next
  attempt (\<open>None\<close> when the task ends), what is reported, and the next backoff.
\<close>

datatype attempt = NotConnected string | RequestFailed | Dropped nat

definition socket_lost ::
  "text_bytes \<Rightarrow> attempt \<Rightarrow> bool \<Rightarrow> nat \<Rightarrow> nat option \<times> geo_event list \<times> nat" where
  "socket_lost url a closed backoff =
     (case a of
        RequestFailed \<Rightarrow> (Some 0, [], backoff)
      | NotConnected reason \<Rightarrow>
          (if closed then None else Some backoff, [RelayFailed url reason], min (backoff * 2) RECONNECT_BACKOFF_MAX)
      | Dropped lasted \<Rightarrow>
          let backoff' = (if lasted \<ge> STABLE_CONNECTION then RECONNECT_BACKOFF_START else backoff);
              report = (if lasted \<ge> STABLE_CONNECTION then []
                        else if \<not> closed then [RelayFailed url ''dropped the connection''] else [])
          in (if closed then None else Some backoff', report, min (backoff' * 2) RECONNECT_BACKOFF_MAX))"

interpretation relayed: seen_ring client_remember ring_order "ring_valid SEEN_LIMIT" ring_empty SEEN_LIMIT
  unfolding client_remember_def by (rule pop_insert_seen_ring) (simp add: SEEN_LIMIT_def)

section \<open>What is handed up was verified\<close>

text \<open>
  \<open>genuine el S out\<close>: the event handed up is the reading of a served event of \<open>S\<close> that
  verifies, has the right kind and is tagged with the channel it is shown in.
\<close>

definition genuine :: "'x envelope_lib_scheme \<Rightarrow> event set \<Rightarrow> geo_event \<Rightarrow> bool" where
  "genuine el S out \<longleftrightarrow>
     (case out of
        GeoMessage g p n x t tp \<Rightarrow> \<exists>e \<in> S. verify_event el e \<and> event_geohash e = Some g \<and> ev_kind e = KIND_EPHEMERAL
          \<and> p = ev_pubkey e \<and> n = event_nickname e \<and> x = ev_content e \<and> t = ev_created_at e \<and> tp = is_teleported e
      | GeoPresence g p t \<Rightarrow> \<exists>e \<in> S. verify_event el e \<and> event_geohash e = Some g \<and> ev_kind e = KIND_PRESENCE
          \<and> p = ev_pubkey e \<and> t = ev_created_at e
      | Carryable g j \<Rightarrow> \<exists>e \<in> S. verify_event el e \<and> event_geohash e = Some g \<and> j = el_event_json el e
      | Activity g p b \<Rightarrow> \<exists>e \<in> S. verify_event el e \<and> event_geohash e = Some g \<and> p = ev_pubkey e
      | PrivateEnvelope e \<Rightarrow> e \<in> S \<and> verify_event el e \<and> ev_kind e = KIND_GIFT_WRAP
      | _ \<Rightarrow> True)"

definition client_genuine :: "'x envelope_lib_scheme \<Rightarrow> event set \<Rightarrow> client \<Rightarrow> bool" where
  "client_genuine el S c \<longleftrightarrow> (\<forall>(k, b) \<in> set (cl_backlogs c). \<forall>(t, out) \<in> set (bl_buffered b). genuine el S out)"

definition served :: "client_input \<Rightarrow> event set" where
  "served i = (case i of Inbound _ _ (RelayEvent _ e) \<Rightarrow> {e} | _ \<Rightarrow> {})"

lemma set_update_sub: "set (AList.update k v xs) \<subseteq> insert (k, v) (set xs)"
  by (induction xs) auto

lemma set_delete_sub: "set (AList.delete k xs) \<subseteq> set xs"
  by (auto simp: AList.delete_eq)

lemma genuine_update:
  assumes "client_genuine el S c" and "\<And>t out. (t, out) \<in> set (bl_buffered b) \<Longrightarrow> genuine el S out"
  shows "client_genuine el S (c\<lparr>cl_backlogs := AList.update k b (cl_backlogs c)\<rparr>)"
  using assms set_update_sub [of k b "cl_backlogs c"] by (fastforce simp: client_genuine_def)

lemma genuine_delete:
  assumes "client_genuine el S c"
  shows "client_genuine el S (c\<lparr>cl_backlogs := AList.delete k (cl_backlogs c)\<rparr>)"
  using assms set_delete_sub [of k "cl_backlogs c"] by (fastforce simp: client_genuine_def)

lemma genuine_lookup:
  "client_genuine el S c \<Longrightarrow> map_of (cl_backlogs c) k = Some b \<Longrightarrow> (t, out) \<in> set (bl_buffered b) \<Longrightarrow> genuine el S out"
  unfolding client_genuine_def by (drule map_of_SomeD) fastforce

lemma genuine_keep:
  "client_genuine el S (c\<lparr>cl_seen := s\<rparr>) = client_genuine el S c"
  "client_genuine el S (c\<lparr>cl_carrying := w\<rparr>) = client_genuine el S c"
  "client_genuine el S (c\<lparr>cl_subscriptions := m\<rparr>) = client_genuine el S c"
  "client_genuine el S (c\<lparr>cl_sampler_cells := cells\<rparr>) = client_genuine el S c"
  by (simp_all add: client_genuine_def)

lemma flush_genuine:
  assumes "client_genuine el S c"
  shows "client_genuine el S (snd (flush_backlog g c))" "out \<in> set (fst (flush_backlog g c)) \<Longrightarrow> genuine el S out"
proof -
  show "client_genuine el S (snd (flush_backlog g c))"
    using assms genuine_delete [OF assms] by (simp add: flush_backlog_def Let_def split: option.split)
  show "out \<in> set (fst (flush_backlog g c)) \<Longrightarrow> genuine el S out"
    using genuine_lookup [OF assms] by (auto simp: flush_backlog_def Let_def genuine_def [of _ _ "HistoryEnd g"] split: option.splits if_split_asm)
qed

lemma flush_all_genuine:
  "client_genuine el S c \<Longrightarrow> client_genuine el S (snd (flush_all gs c)) \<and> (\<forall>out \<in> set (fst (flush_all gs c)). genuine el S out)"
proof (induction gs arbitrary: c)
  case (Cons g gs)
  show ?case using Cons.IH [OF flush_genuine(1) [OF Cons.prems]] flush_genuine(2) [OF Cons.prems] by (auto simp: split_beta)
qed simp

lemma eose_genuine:
  assumes "client_genuine el S c"
  shows "client_genuine el S (snd (handle_eose k r c)) \<and> (\<forall>out \<in> set (fst (handle_eose k r c)). genuine el S out)"
proof (cases "map_of (cl_backlogs c) k")
  case None
  then show ?thesis using assms by (simp add: handle_eose_def)
next
  case (Some b)
  let ?b = "b\<lparr>bl_pending_relays := bl_pending_relays b - {r}\<rparr>"
  have "client_genuine el S (c\<lparr>cl_backlogs := AList.update k ?b (cl_backlogs c)\<rparr>)"
    using genuine_lookup [OF assms Some] by (intro genuine_update [OF assms]) auto
  from flush_genuine [OF this] this Some show ?thesis by (auto simp: handle_eose_def Let_def)
qed

lemma sight_keeps [simp]: "cl_backlogs (snd (first_sight e c)) = cl_backlogs c"
  "cl_sampler_cells (snd (first_sight e c)) = cl_sampler_cells c" "cl_carrying (snd (first_sight e c)) = cl_carrying c"
  by (simp_all add: first_sight_def split_beta Let_def)

lemma genuine_same: "cl_backlogs c' = cl_backlogs c \<Longrightarrow> client_genuine el S c' = client_genuine el S c"
  by (simp add: client_genuine_def)

lemma geo_event_genuine:
  assumes "client_genuine el S c" and "e \<in> S" and "verify_event el e"
  shows "client_genuine el S (snd (handle_geo_event el k e c)) \<and> (\<forall>out \<in> set (fst (handle_geo_event el k e c)). genuine el S out)"
proof (cases "event_geohash e")
  case None
  then show ?thesis using assms(1) by (simp add: handle_geo_event_def)
next
  case (Some cell)
  let ?c = "snd (first_sight e c)"
  have here: "client_genuine el S ?c" by (rule genuine_same [THEN iffD2, OF _ assms(1)]) simp
  have out: "genuine el S out" if "geo_out k e = Some out" "cell = k" for out
    using that assms(2,3) Some by (auto simp: geo_out_def genuine_def split: if_split_asm)
  have "genuine el S (Activity cell (ev_pubkey e) v)" "cell = k \<Longrightarrow> genuine el S (Carryable k (el_event_json el e))" for v
    using assms(2,3) Some by (auto simp: genuine_def)
  moreover have "client_genuine el S (?c\<lparr>cl_backlogs := AList.update k
      (b\<lparr>bl_buffered := bl_buffered b @ [(ev_created_at e, out)]\<rparr>) (cl_backlogs ?c)\<rparr>)"
    if "geo_out k e = Some out" "cell = k" "map_of (cl_backlogs ?c) k = Some b" for out b
    using genuine_lookup [OF here that(3)] out that(1,2) by (intro genuine_update [OF here]) auto
  ultimately show ?thesis using here out assms(1) Some
    by (auto simp: handle_geo_event_def split_beta Let_def split: option.split)
qed

lemma inbound_genuine:
  assumes "client_genuine el S c" and "served (Inbound k r m) \<subseteq> S"
  shows "client_genuine el S (snd (handle_inbound el k r m c)) \<and> (\<forall>out \<in> set (fst (handle_inbound el k r m c)). genuine el S out)"
proof (cases m)
  case (RelayEvent s e)
  then have "e \<in> S" using assms(2) by (simp add: served_def)
  show ?thesis
  proof (cases "verify_event el e \<and> k \<noteq> DM_KEY")
    case True
    then show ?thesis using geo_event_genuine [OF assms(1) \<open>e \<in> S\<close>] RelayEvent by (simp add: handle_inbound_def)
  next
    case False
    moreover have "genuine el S (PrivateEnvelope e)" if "verify_event el e" "ev_kind e = KIND_GIFT_WRAP"
      using that \<open>e \<in> S\<close> by (simp add: genuine_def)
    ultimately show ?thesis using assms(1) RelayEvent
      by (auto simp: handle_inbound_def split_beta Let_def genuine_keep)
  qed
qed (use assms(1) eose_genuine [OF assms(1)] in \<open>auto simp: handle_inbound_def\<close>)

lemma command_genuine:
  assumes "client_genuine el S c"
  shows "client_genuine el S (snd (handle_command now cmd c)) \<and> Emit out \<notin> set (fst (handle_command now cmd c))"
proof -
  have fresh: "client_genuine el S c'" if "cl_backlogs c' = AList.update g b (cl_backlogs c)" "bl_buffered b = []" for c' g b
    using genuine_same [of c' "c\<lparr>cl_backlogs := AList.update g b (cl_backlogs c)\<rparr>" el S]
      genuine_update [OF assms, of b g] that by simp
  have gone: "client_genuine el S c'" if "cl_backlogs c' = AList.delete g (cl_backlogs c)" for c' g
    using genuine_same [of c' "c\<lparr>cl_backlogs := AList.delete g (cl_backlogs c)\<rparr>" el S] genuine_delete [OF assms, of g] that by simp
  have same: "client_genuine el S c'" if "cl_backlogs c' = cl_backlogs c" for c'
    by (rule genuine_same [OF that, THEN iffD2, OF assms])
  have "client_genuine el S (snd (handle_command now cmd c))"
    by (cases cmd) (auto simp: handle_command_def split: option.split intro: fresh gone same assms)
  moreover have "Emit out \<notin> set (fst (handle_command now cmd c))"
    by (auto simp: handle_command_def split: command.split option.split)
  ultimately show ?thesis by blast
qed

lemma do_genuine:
  assumes "client_genuine el S c" and "served i \<subseteq> S"
  shows "client_genuine el S (snd (client_do el now i c)) \<and> (\<forall>out. Emit out \<in> set (fst (client_do el now i c)) \<longrightarrow> genuine el S out)"
proof (cases i)
  case (Cmd cmd)
  then show ?thesis using command_genuine [OF assms(1)] by auto
next
  case (Inbound k r m)
  then show ?thesis using inbound_genuine [OF assms(1) assms(2) [unfolded Inbound]] by (auto simp: split_beta)
next
  case Tick
  then show ?thesis using flush_all_genuine [OF assms(1)] by (auto simp: split_beta client_tick_def)
qed

lemma run_genuine:
  assumes "client_genuine el S c" and "\<forall>(t, i) \<in> set is. served i \<subseteq> S"
  shows "client_genuine el S (snd (client_run el is c)) \<and> (\<forall>out. Emit out \<in> set (fst (client_run el is c)) \<longrightarrow> genuine el S out)"
  using assms
proof (induction "is" arbitrary: c)
  case (Cons ti "is")
  obtain t i where ti: "ti = (t, i)" by (cases ti)
  have one: "client_genuine el S (snd (client_do el t i c))"
    "\<And>out. Emit out \<in> set (fst (client_do el t i c)) \<Longrightarrow> genuine el S out"
    using do_genuine [OF Cons.prems(1), of i t] Cons.prems(2) ti by auto
  show ?case using Cons.IH [OF one(1)] Cons.prems(2) one(2) ti by (auto simp: split_beta)
qed simp

lemma client_genuine_new [simp]: "client_genuine el S client_new"
  by (simp add: client_genuine_def client_new_def)

section \<open>Nothing is shown twice\<close>

text \<open>The identity of a chat line: who wrote it, when, and the words.\<close>

definition line_key :: "geo_event \<Rightarrow> text_bytes option" where
  "line_key out =
     (case out of GeoMessage g p n x t tp \<Rightarrow> Some (p @ 124 # show_int t @ 124 # x) | _ \<Rightarrow> None)"

definition line_keys :: "geo_event list \<Rightarrow> text_bytes multiset" where
  "line_keys outs = mset (List.map_filter line_key outs)"

definition held_keys :: "(text_bytes \<times> backlog) list \<Rightarrow> text_bytes multiset" where
  "held_keys bs = sum_list (map (\<lambda>(_, b). line_keys (map snd (bl_buffered b))) bs)"

lemma map_filter_append: "List.map_filter f (xs @ ys) = List.map_filter f xs @ List.map_filter f ys"
  by (induction xs) (simp_all add: List.map_filter_simps split: option.split)

lemma line_keys_simps [simp]:
  "line_keys [] = {#}" "line_keys (xs @ ys) = line_keys xs + line_keys ys"
  "line_keys (HistoryEnd g # xs) = line_keys xs"
  by (simp_all add: line_keys_def map_filter_append List.map_filter_simps line_key_def)

lemma line_keys_mset: "mset xs = mset ys \<Longrightarrow> line_keys xs = line_keys ys"
proof -
  have "line_keys xs = image_mset (the \<circ> line_key) (filter_mset (\<lambda>x. line_key x \<noteq> None) (mset xs))" for xs
    unfolding line_keys_def List.map_filter_def by simp
  then show "mset xs = mset ys \<Longrightarrow> ?thesis" by simp
qed

lemma held_update:
  "distinct (map fst bs) \<Longrightarrow>
     held_keys (AList.update k b bs) + (case map_of bs k of None \<Rightarrow> {#} | Some b \<Rightarrow> line_keys (map snd (bl_buffered b)))
     = held_keys bs + line_keys (map snd (bl_buffered b))"
  by (induction bs) (auto simp: held_keys_def add_ac)

lemma held_delete:
  "distinct (map fst bs) \<Longrightarrow>
     held_keys (AList.delete k bs) + (case map_of bs k of None \<Rightarrow> {#} | Some b \<Rightarrow> line_keys (map snd (bl_buffered b)))
     = held_keys bs"
proof (induction bs)
  case (Cons kb bs)
  obtain k' b where kb: "kb = (k', b)" by (cases kb)
  show ?case
  proof (cases "k' = k")
    case True
    then have "map_of bs k = None" using Cons.prems kb by (simp add: map_of_eq_None_iff)
    then have "AList.delete k bs = bs" by (simp add: AList.delete_eq map_of_eq_None_iff) (induction bs, auto)
    then show ?thesis using True kb by (simp add: held_keys_def)
  next
    case False
    then show ?thesis using Cons kb by (simp add: held_keys_def add_ac)
  qed
qed (simp add: held_keys_def)

definition backlogs_ok :: "client \<Rightarrow> bool" where
  "backlogs_ok c \<longleftrightarrow> distinct (map fst (cl_backlogs c))"

text \<open>
  Over a stretch with at most \<open>n\<close> insertions into the memory: every line shown or held is
  there once and is among the last \<open>n\<close> entries.
\<close>

definition recent :: "nat \<Rightarrow> 'a ring \<Rightarrow> 'a set" where
  "recent n r = set (take n (rev (ring_order r)))"

lemma recent_0 [simp]: "recent 0 r = {}"
  by (simp add: recent_def)

lemma recent_mono: "n \<le> m \<Longrightarrow> recent n r \<subseteq> recent m r"
  by (simp add: recent_def set_take_subset_set_take)

lemma recent_ring: "ring_valid SEEN_LIMIT r \<Longrightarrow> recent n r \<subseteq> ring_set r"
  using set_take_subset [of n "rev (ring_order r)"] by (simp add: recent_def ring_valid_def)

definition unique_lines :: "nat \<Rightarrow> text_bytes multiset \<Rightarrow> client \<Rightarrow> bool" where
  "unique_lines n shown c \<longleftrightarrow>
     backlogs_ok c \<and> ring_valid SEEN_LIMIT (cl_seen c)
     \<and> (\<forall>k. count (shown + held_keys (cl_backlogs c)) k \<le> 1)
     \<and> set_mset (shown + held_keys (cl_backlogs c)) \<subseteq> recent n (cl_seen c)"

lemma remember_room:
  assumes "ring_valid SEEN_LIMIT r" and "n < SEEN_LIMIT"
  shows "ring_valid SEEN_LIMIT (snd (client_remember x r))"
    "recent n r \<subseteq> recent (n + 1) (snd (client_remember x r))"
    "fst (client_remember x r) \<longleftrightarrow> x \<notin> ring_set r"
    "fst (client_remember x r) \<Longrightarrow> x \<in> recent (n + 1) (snd (client_remember x r))"
proof -
  show "ring_valid SEEN_LIMIT (snd (client_remember x r))" by (rule relayed.valid_add [OF assms(1)])
  have split: "x \<in> ring_set r \<and> client_remember x r = (False, r)
    \<or> x \<notin> ring_set r \<and> fst (client_remember x r) \<and> ring_order (snd (client_remember x r)) = ring_order r @ [x]
    \<or> x \<notin> ring_set r \<and> fst (client_remember x r) \<and> length (ring_order r) = SEEN_LIMIT
        \<and> ring_order (snd (client_remember x r)) = tl (ring_order r) @ [x]"
    using assms(1) by (cases "ring_order r") (auto simp: client_remember_def pop_insert_def ring_valid_def SEEN_LIMIT_def Let_def)
  have tl: "take n (rev (tl xs)) = take n (rev xs)" if "length xs = SEEN_LIMIT" for xs :: "text_bytes list"
    using assms(2) that by (cases xs) auto
  show "recent n r \<subseteq> recent (n + 1) (snd (client_remember x r))"
    using split tl recent_mono [of n "n + 1" r] by (auto simp: recent_def)
  show "fst (client_remember x r) \<longleftrightarrow> x \<notin> ring_set r" using split by auto
  show "fst (client_remember x r) \<Longrightarrow> x \<in> recent (n + 1) (snd (client_remember x r))"
    using split by (auto simp: recent_def)
qed

lemma unique_shrink:
  assumes "unique_lines n shown c" and "backlogs_ok c'" and "cl_seen c' = cl_seen c"
    and "keys + held_keys (cl_backlogs c') \<subseteq># held_keys (cl_backlogs c)"
  shows "unique_lines n (shown + keys) c'"
proof -
  have sub: "shown + keys + held_keys (cl_backlogs c') \<subseteq># shown + held_keys (cl_backlogs c)"
    using assms(4) by (simp add: add.assoc)
  have "count (shown + keys + held_keys (cl_backlogs c')) k \<le> 1" for k
  proof -
    have "count (shown + keys + held_keys (cl_backlogs c')) k \<le> count (shown + held_keys (cl_backlogs c)) k"
      by (rule mset_subset_eq_count [OF sub])
    also have "\<dots> \<le> 1" using assms(1) by (simp only: unique_lines_def)
    finally show ?thesis .
  qed
  moreover have "set_mset (shown + keys + held_keys (cl_backlogs c')) \<subseteq> recent n (cl_seen c)"
    using set_mset_mono [OF sub] assms(1) unfolding unique_lines_def by blast
  ultimately show ?thesis using assms(1-3) by (simp add: unique_lines_def)
qed

lemma unique_grow:
  assumes "unique_lines n shown c" and "backlogs_ok c'" and "keys + held_keys (cl_backlogs c') = held_keys (cl_backlogs c) + {#k#}"
    and "k \<notin> recent n (cl_seen c)" and "ring_valid SEEN_LIMIT (cl_seen c')"
    and "insert k (recent n (cl_seen c)) \<subseteq> recent (n + m) (cl_seen c')"
  shows "unique_lines (n + m) (shown + keys) c'"
proof -
  let ?t = "shown + held_keys (cl_backlogs c)"
  have t: "shown + keys + held_keys (cl_backlogs c') = ?t + {#k#}" using assms(3) by (simp add: add.assoc)
  have "k \<notin># ?t" using assms(1,4) by (auto simp: unique_lines_def)
  then have "count (?t + {#k#}) j \<le> 1" for j
    using assms(1) by (cases "j = k") (auto simp: unique_lines_def not_in_iff)
  then show ?thesis using assms unfolding unique_lines_def t by auto
qed

lemma unique_seen:
  assumes "unique_lines n shown c" and "cl_backlogs c' = cl_backlogs c"
    and "ring_valid SEEN_LIMIT (cl_seen c')" and "recent n (cl_seen c) \<subseteq> recent (n + m) (cl_seen c')"
  shows "unique_lines (n + m) shown c'"
  using assms by (auto simp: unique_lines_def backlogs_ok_def)

lemma unique_more: "unique_lines n shown c \<Longrightarrow> n \<le> m \<Longrightarrow> unique_lines m shown c"
  using recent_mono [of n m "cl_seen c"] by (auto simp: unique_lines_def)

lemma flush_unique:
  assumes "unique_lines n shown c"
  shows "unique_lines n (shown + line_keys (fst (flush_backlog g c))) (snd (flush_backlog g c))"
proof (cases "map_of (cl_backlogs c) g")
  case None
  then show ?thesis using assms by (simp add: flush_backlog_def)
next
  case (Some b)
  have "backlogs_ok c" using assms by (simp add: unique_lines_def)
  then have d: "distinct (map fst (cl_backlogs c))" by (simp add: backlogs_ok_def)
  let ?h = "if list_ex (\<lambda>(_, e). is_chat e) (sort_key fst (bl_buffered b)) \<and> g \<noteq> SAMPLER_KEY then [HistoryEnd g] else []"
  have "line_keys (map snd (sort_key fst (bl_buffered b)) @ ?h) = line_keys (map snd (bl_buffered b))"
    using line_keys_mset [of "map snd (sort_key fst (bl_buffered b))" "map snd (bl_buffered b)"] by simp
  then show ?thesis
    using Some held_delete [OF d, of g] d
    by (intro unique_shrink [OF assms]) (auto simp: flush_backlog_def Let_def backlogs_ok_def add.commute AList.distinct_delete)
qed

lemma flush_all_unique:
  "unique_lines n shown c \<Longrightarrow> unique_lines n (shown + line_keys (fst (flush_all gs c))) (snd (flush_all gs c))"
proof (induction gs arbitrary: c shown)
  case (Cons g gs)
  from Cons.IH [OF flush_unique [OF Cons.prems]] show ?case by (simp add: split_beta add.assoc)
qed simp

lemma eose_unique:
  assumes "unique_lines n shown c"
  shows "unique_lines n (shown + line_keys (fst (handle_eose k r c))) (snd (handle_eose k r c))"
proof (cases "map_of (cl_backlogs c) k")
  case None
  then show ?thesis using assms by (simp add: handle_eose_def)
next
  case (Some b)
  let ?b = "b\<lparr>bl_pending_relays := bl_pending_relays b - {r}\<rparr>"
  have "backlogs_ok c" using assms by (simp add: unique_lines_def)
  then have d: "distinct (map fst (cl_backlogs c))" by (simp add: backlogs_ok_def)
  have "unique_lines n (shown + {#}) (c\<lparr>cl_backlogs := AList.update k ?b (cl_backlogs c)\<rparr>)"
    using Some held_update [OF d, of k ?b] d
    by (intro unique_shrink [OF assms]) (simp_all add: backlogs_ok_def distinct_update)
  then have here: "unique_lines n shown (c\<lparr>cl_backlogs := AList.update k ?b (cl_backlogs c)\<rparr>)" by simp
  from flush_unique [OF this] this Some show ?thesis by (auto simp: handle_eose_def Let_def)
qed

lemma sight_unique:
  assumes "unique_lines n shown c" and "n + 2 \<le> SEEN_LIMIT"
  shows "unique_lines (n + 2) shown (snd (first_sight e c))"
    and "fst (first_sight e c) \<Longrightarrow> ev_kind e = KIND_EPHEMERAL \<Longrightarrow>
      content_key e \<notin> recent n (cl_seen c) \<and> content_key e \<in> recent (n + 2) (cl_seen (snd (first_sight e c)))"
    and "ring_valid SEEN_LIMIT (cl_seen (snd (first_sight e c)))"
    and "recent n (cl_seen c) \<subseteq> recent (n + 2) (cl_seen (snd (first_sight e c)))"
proof -
  let ?r = "cl_seen c" and ?r1 = "snd (client_remember (ev_id e) (cl_seen c))"
  let ?r2 = "snd (client_remember (content_key e) ?r1)"
  have r: "ring_valid SEEN_LIMIT ?r" using assms by (simp add: unique_lines_def)
  have room: "n < SEEN_LIMIT" "n + 1 < SEEN_LIMIT" using assms(2) by simp_all
  note one = remember_room [OF r room(1), of "ev_id e"]
  note two = remember_room [OF one(1) room(2), of "content_key e", unfolded add.assoc one_add_one]
  have seen: "cl_seen (snd (first_sight e c)) = (if ev_kind e = KIND_EPHEMERAL then ?r2 else ?r)"
    "fst (first_sight e c) \<longleftrightarrow> (ev_kind e = KIND_EPHEMERAL \<longrightarrow> fst (client_remember (ev_id e) ?r) \<and> fst (client_remember (content_key e) ?r1))"
    by (simp_all add: first_sight_def split_beta Let_def)
  show valid: "ring_valid SEEN_LIMIT (cl_seen (snd (first_sight e c)))"
    unfolding seen using two(1) r by simp
  have kept: "recent n ?r \<subseteq> recent (n + 2) ?r2" using one(2) two(2) by blast
  show sub: "recent n ?r \<subseteq> recent (n + 2) (cl_seen (snd (first_sight e c)))"
    unfolding seen using kept recent_mono [of n "n + 2" ?r] by simp
  show "unique_lines (n + 2) shown (snd (first_sight e c))"
    by (rule unique_seen [OF assms(1) _ valid sub]) simp
  assume new: "fst (first_sight e c)" "ev_kind e = KIND_EPHEMERAL"
  then have "content_key e \<notin> ring_set ?r1" using two(3) seen(2) by simp
  then have "content_key e \<notin> recent n ?r" using one(2) recent_ring [OF one(1), of "n + 1"] by blast
  moreover have "content_key e \<in> recent (n + 2) ?r2" using two(4) seen(2) new by simp
  ultimately show "content_key e \<notin> recent n ?r \<and> content_key e \<in> recent (n + 2) (cl_seen (snd (first_sight e c)))"
    using new(2) unfolding seen(1) by simp
qed

lemma geo_out_keys:
  "geo_out g e = Some out \<Longrightarrow> line_keys [out] = (if ev_kind e = KIND_EPHEMERAL then {#content_key e#} else {#})"
  "line_keys [Carryable g j] = {#}" "line_keys [Activity g p v] = {#}" "line_keys [PrivateEnvelope e] = {#}"
  by (auto simp: geo_out_def line_keys_def line_key_def content_key_def List.map_filter_simps split: if_split_asm)

lemma kinds_differ: "KIND_EPHEMERAL \<noteq> KIND_PRESENCE"
  by (simp add: KIND_EPHEMERAL_def KIND_PRESENCE_def)

lemma geo_event_unique:
  assumes u: "unique_lines n shown c" and room: "n + 2 \<le> SEEN_LIMIT"
  shows "unique_lines (n + 2) (shown + line_keys (fst (handle_geo_event el k e c))) (snd (handle_geo_event el k e c))"
proof (cases "event_geohash e")
  case None
  then show ?thesis using unique_more [OF u] by (simp add: handle_geo_event_def)
next
  case (Some cell)
  let ?c = "snd (first_sight e c)"
  note s = sight_unique [OF u room, of e]
  let ?carried = "if cl_carrying ?c \<and> ev_kind e = KIND_EPHEMERAL \<and> map_of (cl_backlogs ?c) k = None
    then [Carryable k (el_event_json el e)] else []"
  have carried: "line_keys ?carried = {#}" by (simp add: geo_out_keys)
  consider (other) "(k = SAMPLER_KEY \<and> cell \<notin> cl_sampler_cells c) \<or> (k \<noteq> SAMPLER_KEY \<and> cell \<noteq> k)"
    | (stale) "\<not> ((k = SAMPLER_KEY \<and> cell \<notin> cl_sampler_cells c) \<or> (k \<noteq> SAMPLER_KEY \<and> cell \<noteq> k))" "\<not> fst (first_sight e c)"
    | (sample) "k = SAMPLER_KEY" "cell \<in> cl_sampler_cells c" "fst (first_sight e c)"
    | (mute) "k \<noteq> SAMPLER_KEY" "cell = k" "fst (first_sight e c)" "geo_out k e = None"
    | (shown) out where "k \<noteq> SAMPLER_KEY" "cell = k" "fst (first_sight e c)" "geo_out k e = Some out" "map_of (cl_backlogs c) k = None"
    | (held) out b where "k \<noteq> SAMPLER_KEY" "cell = k" "fst (first_sight e c)" "geo_out k e = Some out" "map_of (cl_backlogs c) k = Some b"
    by fastforce
  then show ?thesis
  proof cases
    case other
    then show ?thesis using unique_more [OF u] Some by (simp add: handle_geo_event_def)
  next
    case stale
    then show ?thesis using s(1) Some by (cases "k = SAMPLER_KEY") (simp_all add: handle_geo_event_def split_beta)
  next
    case sample
    then show ?thesis using s(1) Some by (simp add: handle_geo_event_def split_beta geo_out_keys)
  next
    case mute
    then show ?thesis using s(1) Some carried by (simp add: handle_geo_event_def split_beta Let_def)
  next
    case shown
    have h: "handle_geo_event el k e c = (?carried @ [out], ?c)"
      using shown Some by (simp add: handle_geo_event_def split_beta Let_def)
    show ?thesis
    proof (cases "ev_kind e = KIND_EPHEMERAL")
      case True
      have "unique_lines (n + 2) (shown + {#content_key e#}) ?c"
        by (rule unique_grow [OF u _ _ _ s(3)]) (use s(1,2,4) shown(3) True in \<open>auto simp: unique_lines_def\<close>)
      then show ?thesis using True geo_out_keys(1) [OF shown(4)] carried by (simp add: h)
    next
      case False
      then show ?thesis using s(1) geo_out_keys(1) [OF shown(4)] carried by (simp add: h)
    qed
  next
    case held
    let ?b = "b\<lparr>bl_buffered := bl_buffered b @ [(ev_created_at e, out)]\<rparr>"
    let ?c' = "?c\<lparr>cl_backlogs := AList.update k ?b (cl_backlogs c)\<rparr>"
    have h: "handle_geo_event el k e c = ([], ?c')"
      using held Some by (simp add: handle_geo_event_def split_beta Let_def)
    have d: "distinct (map fst (cl_backlogs c))" using u by (simp add: unique_lines_def backlogs_ok_def)
    have keys: "held_keys (cl_backlogs ?c') = held_keys (cl_backlogs c) + line_keys [out]"
      using held_update [OF d, of k ?b] held(5) by (simp add: add.commute add.left_commute)
    have ok: "backlogs_ok ?c'" using d by (simp add: backlogs_ok_def distinct_update)
    show ?thesis
    proof (cases "ev_kind e = KIND_EPHEMERAL")
      case True
      have "unique_lines (n + 2) (shown + {#}) ?c'"
        by (rule unique_grow [OF u ok, where k = "content_key e"])
          (use s(2-4) held(3) True keys geo_out_keys(1) [OF held(4)] in simp_all)
      then show ?thesis by (simp add: h)
    next
      case False
      have "unique_lines (n + 2) (shown + {#}) ?c'"
        by (rule unique_shrink [OF s(1) ok]) (use False keys geo_out_keys(1) [OF held(4)] in simp_all)
      then show ?thesis by (simp add: h)
    qed
  qed
qed

text \<open>What an input takes of the memory: two entries at most for an event, nothing for the rest.\<close>

fun entries :: "client_input \<Rightarrow> nat" where
  "entries (Inbound _ _ (RelayEvent _ _)) = 2"
| "entries _ = 0"

lemma inbound_unique:
  assumes "unique_lines n shown c" and "n + entries (Inbound k r m) \<le> SEEN_LIMIT"
  shows "unique_lines (n + entries (Inbound k r m)) (shown + line_keys (fst (handle_inbound el k r m c))) (snd (handle_inbound el k r m c))"
proof (cases m)
  case (RelayEvent s e)
  then have room: "n + 2 \<le> SEEN_LIMIT" using assms(2) by simp
  show ?thesis
  proof (cases "verify_event el e \<and> k \<noteq> DM_KEY")
    case True
    then show ?thesis using geo_event_unique [OF assms(1) room] RelayEvent by (simp add: handle_inbound_def)
  next
    case False
    have r: "ring_valid SEEN_LIMIT (cl_seen c)" "n < SEEN_LIMIT"
      using assms(1) room by (auto simp: unique_lines_def)
    note one = remember_room [OF r, of "ev_id e"]
    have "recent (n + 1) x \<subseteq> recent (n + 2) x" for x :: "text_bytes ring" by (rule recent_mono) simp
    then have "unique_lines (n + 2) shown (c\<lparr>cl_seen := snd (client_remember (ev_id e) (cl_seen c))\<rparr>)"
      by (intro unique_seen [OF assms(1)]) (use one(1,2) in auto)
    then show ?thesis using False RelayEvent unique_more [OF assms(1)]
      by (auto simp: handle_inbound_def split_beta Let_def geo_out_keys)
  qed
qed (use assms(1) eose_unique [OF assms(1)] in \<open>simp_all add: handle_inbound_def\<close>)

lemma command_unique:
  assumes "unique_lines n shown c"
  shows "unique_lines n shown (snd (handle_command now cmd c))"
proof -
  have "backlogs_ok c" using assms by (simp add: unique_lines_def)
  then have d: "distinct (map fst (cl_backlogs c))" by (simp add: backlogs_ok_def)
  have by_sub: "unique_lines n shown c'"
    if "backlogs_ok c'" "cl_seen c' = cl_seen c" "held_keys (cl_backlogs c') \<subseteq># held_keys (cl_backlogs c)" for c'
    using unique_shrink [OF assms that(1,2), of "{#}"] that(3) by simp
  have fresh: "unique_lines n shown c'"
    if "cl_backlogs c' = AList.update g b (cl_backlogs c)" "bl_buffered b = []" "cl_seen c' = cl_seen c" for c' g b
    using held_update [OF d, of g b] that d mset_subset_eq_add_left
    by (intro by_sub) (auto simp: backlogs_ok_def distinct_update dest: sym)
  have gone: "unique_lines n shown c'" if "cl_backlogs c' = AList.delete g (cl_backlogs c)" "cl_seen c' = cl_seen c" for c' g
  proof (rule by_sub)
    show "held_keys (cl_backlogs c') \<subseteq># held_keys (cl_backlogs c)"
      unfolding that(1) by (subst held_delete [OF d, of g, symmetric]) (rule mset_subset_eq_add_left)
  qed (use that d in \<open>simp_all add: backlogs_ok_def AList.distinct_delete\<close>)
  have same: "unique_lines n shown c'" if "cl_backlogs c' = cl_backlogs c" "cl_seen c' = cl_seen c" for c'
    using that d by (intro by_sub) (simp_all add: backlogs_ok_def)
  show ?thesis
    by (cases cmd) (auto simp: handle_command_def split: option.split intro: fresh gone same assms)
qed

definition emitted :: "client_act list \<Rightarrow> geo_event list" where
  "emitted as = List.map_filter (\<lambda>a. case a of Emit out \<Rightarrow> Some out | _ \<Rightarrow> None) as"

lemma emitted_simps [simp]: "emitted (xs @ ys) = emitted xs @ emitted ys" "emitted (map Emit outs) = outs" "emitted [] = []"
  by (simp_all add: emitted_def map_filter_append) (induction outs; simp add: List.map_filter_simps)

lemma command_emits: "emitted (fst (handle_command now cmd c)) = []"
proof -
  have "emitted (map (\<lambda>r. Spawn r g w) rs) = []" "emitted (map (\<lambda>r. Transmit r e) rs) = []" for g w e rs
    by (induction rs) (simp_all add: emitted_def List.map_filter_simps)
  then show ?thesis by (simp add: handle_command_def split: command.split option.split)
qed

lemma do_unique:
  assumes "unique_lines n shown c" and "n + entries i \<le> SEEN_LIMIT"
  shows "unique_lines (n + entries i) (shown + line_keys (emitted (fst (client_do el now i c)))) (snd (client_do el now i c))"
proof (cases i)
  case (Cmd cmd)
  then show ?thesis using command_unique [OF assms(1)] by (simp add: command_emits)
next
  case (Inbound k r m)
  then show ?thesis using inbound_unique [OF assms(1)] assms(2) by (simp add: split_beta)
next
  case Tick
  then show ?thesis using flush_all_unique [OF assms(1)] by (simp add: split_beta client_tick_def)
qed

abbreviation memory_used :: "(nat \<times> client_input) list \<Rightarrow> nat" where
  "memory_used is \<equiv> sum_list (map (\<lambda>(t, i). entries i) is)"

lemma run_unique:
  assumes "unique_lines n shown c" and "n + memory_used is \<le> SEEN_LIMIT"
  shows "unique_lines (n + memory_used is) (shown + line_keys (emitted (fst (client_run el is c)))) (snd (client_run el is c))"
  using assms
proof (induction "is" arbitrary: n shown c)
  case (Cons ti "is")
  obtain t i where ti: "ti = (t, i)" by (cases ti)
  have room: "n + entries i \<le> SEEN_LIMIT" "(n + entries i) + memory_used is \<le> SEEN_LIMIT"
    using Cons.prems(2) by (simp_all add: ti)
  from Cons.IH [OF do_unique [OF Cons.prems(1) room(1), of el t] room(2)] show ?case
    by (simp add: ti split_beta add.assoc)
qed simp

text \<open>What holds of the memory and the backlogs after any run, however long.\<close>

definition client_sound :: "client \<Rightarrow> bool" where
  "client_sound c \<longleftrightarrow> backlogs_ok c \<and> ring_valid SEEN_LIMIT (cl_seen c)"

lemma client_sound_seen: "client_sound c \<Longrightarrow> client_sound (c\<lparr>cl_seen := snd (client_remember x (cl_seen c))\<rparr>)"
  by (simp add: client_sound_def backlogs_ok_def relayed.valid_add)

lemma sight_sound: "client_sound c \<Longrightarrow> client_sound (snd (first_sight e c))"
  using client_sound_seen [of c "ev_id e"] relayed.valid_add
  by (auto simp: first_sight_def client_sound_def backlogs_ok_def split_beta Let_def)

lemma flush_sound: "client_sound c \<Longrightarrow> client_sound (snd (flush_backlog g c))"
  by (auto simp: flush_backlog_def client_sound_def backlogs_ok_def AList.distinct_delete Let_def split: option.split)

lemma flush_all_sound: "client_sound c \<Longrightarrow> client_sound (snd (flush_all gs c))"
  by (induction gs arbitrary: c) (simp_all add: flush_sound split_beta)

lemma client_sound_update: "client_sound c \<Longrightarrow> client_sound (c\<lparr>cl_backlogs := AList.update k b (cl_backlogs c)\<rparr>)"
  by (simp add: client_sound_def backlogs_ok_def distinct_update)

lemma inbound_sound:
  assumes "client_sound c"
  shows "client_sound (snd (handle_inbound el k r m c))"
proof -
  have "client_sound (snd (handle_eose k r c))"
    using assms flush_sound [OF client_sound_update [OF assms]] client_sound_update [OF assms]
    by (simp add: handle_eose_def Let_def split: option.split)
  moreover have "client_sound (snd (handle_geo_event el k e c))" for e
    using assms sight_sound [OF assms, of e] client_sound_update [OF sight_sound [OF assms, of e]]
    by (simp add: handle_geo_event_def split_beta Let_def split: option.split)
  ultimately show ?thesis
    using assms client_sound_seen [OF assms] by (simp add: handle_inbound_def split_beta Let_def split: relay_message.split)
qed

lemma run_sound: "client_sound c \<Longrightarrow> client_sound (snd (client_run el is c))"
proof (induction "is" arbitrary: c)
  case (Cons ti "is")
  obtain t i where ti: "ti = (t, i)" by (cases ti)
  have "client_sound (snd (handle_command t cmd c))" for cmd
    using Cons.prems
    by (cases cmd) (auto simp: handle_command_def client_sound_def backlogs_ok_def distinct_update AList.distinct_delete split: option.split)
  then have "client_sound (snd (client_do el t i c))"
    using inbound_sound [OF Cons.prems] flush_all_sound [OF Cons.prems] by (cases i) (simp_all add: split_beta client_tick_def)
  then show ?case using Cons.IH by (simp add: ti split_beta)
qed simp

lemma client_sound_new: "client_sound client_new"
  by (simp add: client_sound_def client_new_def backlogs_ok_def)

text \<open>
  C33.  What relays serve is shown once and only when it is genuine.  In any run of the
  pool every line, presence, carried event and letter handed up is a served event that
  verifies and, on a location channel, is tagged with that channel.  And in every stretch
  of a run that starts while no channel is replaying its history and in which relays
  serve at most 2048 events (an event takes at most two of the 4096 entries of the memory;
  commands, ticks and other relay messages take none), no two lines handed up have the
  same author, time and words, whichever relays serve them, in whatever order copies,
  history and live messages come.  Beyond that the memory may have forgotten a line.
\<close>

theorem chat_genuine_and_once:
  assumes "client_run el before client_new = (as, c)" and "cl_backlogs c = []"
    and "client_run el stretch c = (as', c')" and "memory_used stretch \<le> SEEN_LIMIT"
  shows "(\<forall>out. Emit out \<in> set (as @ as') \<longrightarrow> genuine el (\<Union>(t, i) \<in> set (before @ stretch). served i) out)
    \<and> distinct (List.map_filter line_key (emitted as'))"
proof -
  have split: "client_run el (xs @ ys) d = (let (a, d1) = client_run el xs d; (b, d2) = client_run el ys d1 in (a @ b, d2))" for xs ys d
    by (induction xs arbitrary: d) (auto simp: split_beta Let_def)
  have "\<forall>out. Emit out \<in> set (as @ as') \<longrightarrow> genuine el (\<Union>(t, i) \<in> set (before @ stretch). served i) out"
    using run_genuine [OF client_genuine_new, of "before @ stretch" "\<Union>(t, i) \<in> set (before @ stretch). served i" el]
      split [of before stretch client_new] assms(1,3) by auto
  moreover have "client_sound c" using run_sound [OF client_sound_new, of el before] assms(1) by simp
  then have "unique_lines 0 {#} c"
    using assms(2) by (simp add: unique_lines_def client_sound_def held_keys_def)
  from run_unique [OF this, of stretch el] have "unique_lines (memory_used stretch) (line_keys (emitted as')) c'"
    using assms(3,4) by simp
  then have "count (line_keys (emitted as')) k \<le> 1" for k
    unfolding unique_lines_def using add_leD1 by (metis count_union)
  then have "distinct (List.map_filter line_key (emitted as'))"
    by (auto simp: line_keys_def distinct_count_atmost_1 le_Suc_eq count_eq_zero_iff)
  ultimately show ?thesis by blast
qed

text \<open>A message served by two relays during the replay of history.\<close>

definition quiet_lib :: envelope_lib where
  "quiet_lib = toy_lib (\<lambda>_ _ _. True)"

definition toy_place :: text_bytes where "toy_place = ascii ''u4''"

definition toy_chat :: event where
  "toy_chat = signed_event quiet_lib [] [7] 900 KIND_EPHEMERAL (geohash_tags toy_place (Some (ascii ''ann'')) False) (ascii ''hi'')"

definition two_copies :: "(nat \<times> client_input) list" where
  "two_copies = [(0, Cmd (Subscribe toy_place [[1], [2]])), (5, Inbound toy_place [1] (RelayEvent [] toy_chat)),
     (6, Inbound toy_place [2] (RelayEvent [] toy_chat)), (3000, Tick)]"

lemma toy_chat_facts: "verify_event quiet_lib toy_chat" "event_geohash toy_chat = Some toy_place"
  "ev_kind toy_chat = KIND_EPHEMERAL" "ev_pubkey toy_chat = hex_encode (toy_public [7])"
  "ev_created_at toy_chat = 900" "ev_content toy_chat = ascii ''hi''"
proof -
  have "signing_laws quiet_lib" by (simp add: signing_laws_def key_laws_def quiet_lib_def)
  then show "verify_event quiet_lib toy_chat" unfolding toy_chat_def by (rule signed_event_verifies)
  show "event_geohash toy_chat = Some toy_place"
    using geohash_tags_read [of quiet_lib "[]" "[7]" 900 KIND_EPHEMERAL toy_place "Some (ascii ''ann'')" False "[]"] by (simp add: toy_chat_def)
  show "ev_kind toy_chat = KIND_EPHEMERAL" "ev_pubkey toy_chat = hex_encode (toy_public [7])"
    "ev_created_at toy_chat = 900" "ev_content toy_chat = ascii ''hi''"
    unfolding toy_chat_def signed_event_fields by (simp_all add: quiet_lib_def)
qed

theorem chat_genuine_and_once_witness:
  "\<exists>as c. client_run quiet_lib two_copies client_new = (as, c)
     \<and> (\<forall>out. Emit out \<in> set as \<longrightarrow> genuine quiet_lib (\<Union>(t, i) \<in> set two_copies. served i) out)
     \<and> distinct (List.map_filter line_key (emitted as))"
proof -
  obtain as c where run: "client_run quiet_lib two_copies client_new = (as, c)" by (cases "client_run quiet_lib two_copies client_new")
  have "memory_used two_copies \<le> SEEN_LIMIT" by (simp add: two_copies_def SEEN_LIMIT_def)
  moreover have "client_run quiet_lib [] client_new = ([], client_new)" "cl_backlogs client_new = []"
    by (simp_all add: client_new_def)
  ultimately show ?thesis using chat_genuine_and_once [of quiet_lib "[]" "[]" client_new two_copies as c] run by simp
qed

section \<open>What the map's sampler takes from a channel\<close>

lemma remembered_stale:
  assumes "ring_valid SEEN_LIMIT (cl_seen c)" and "ev_kind e = KIND_EPHEMERAL" and "fst (first_sight e c)"
  shows "\<not> fst (first_sight e (snd (first_sight e c)))"
proof -
  have "fst (client_remember (ev_id e) (cl_seen c))"
    using assms(2,3) by (simp add: first_sight_def split_beta Let_def)
  then have "\<not> fst (client_remember (ev_id e) (snd (client_remember (content_key e) (snd (client_remember (ev_id e) (cl_seen c))))))"
    using relayed.refused_in_window [OF assms(1), of "ev_id e" "[content_key e]"]
    by (simp add: add_all_Cons SEEN_LIMIT_def)
  then show ?thesis using assms(2) by (simp add: first_sight_def split_beta Let_def)
qed

text \<open>
  C30.  A message the map's sampler sees first is lost to the channel.  While the map is
  open over a joined channel, a line that one of the sampler's relays serves before the
  channel's own do is counted for the map, and every copy the channel's relays serve next
  is dropped as a repetition: the line is neither handed up nor kept for the replay.
\<close>

theorem sampled_line_lost:
  assumes "ring_valid SEEN_LIMIT (cl_seen c)" and "verify_event el e" and "ev_kind e = KIND_EPHEMERAL"
    and "event_geohash e = Some g" and "g \<noteq> SAMPLER_KEY" and "g \<noteq> DM_KEY" and "g \<in> cl_sampler_cells c"
    and "ev_id e \<notin> ring_set (cl_seen c)" and "content_key e \<notin> ring_set (snd (client_remember (ev_id e) (cl_seen c)) )"
  shows "let (outs, c1) = handle_inbound el SAMPLER_KEY relay (RelayEvent s e) c;
             (outs', c2) = handle_inbound el g relay' (RelayEvent s' e) c1
         in outs = [Activity g (ev_pubkey e) True] \<and> outs' = [] \<and> cl_backlogs c2 = cl_backlogs c"
proof -
  have "ring_set (cl_seen c) = set (ring_order (cl_seen c))" using assms(1) by (simp add: ring_valid_def)
  moreover have v: "ring_valid SEEN_LIMIT (snd (client_remember (ev_id e) (cl_seen c)))" by (rule relayed.valid_add [OF assms(1)])
  then have "ring_set (snd (client_remember (ev_id e) (cl_seen c))) = set (ring_order (snd (client_remember (ev_id e) (cl_seen c))))"
    by (simp add: ring_valid_def)
  ultimately have fresh: "fst (first_sight e c)"
    using relayed.add_iff [OF assms(1)] relayed.add_iff [OF v] assms(3,8,9) by (simp add: first_sight_def split_beta Let_def)
  have stale: "\<not> fst (first_sight e (snd (first_sight e c)))" by (rule remembered_stale [OF assms(1,3) fresh])
  have "SAMPLER_KEY \<noteq> DM_KEY" by (simp add: SAMPLER_KEY_def DM_KEY_def ascii_def)
  then have "handle_inbound el SAMPLER_KEY relay (RelayEvent s e) c = ([Activity g (ev_pubkey e) True], snd (first_sight e c))"
    using assms fresh by (simp add: handle_inbound_def handle_geo_event_def split_beta)
  moreover have "handle_inbound el g relay' (RelayEvent s' e) (snd (first_sight e c)) = ([], snd (first_sight e (snd (first_sight e c))))"
    using assms stale by (simp add: handle_inbound_def handle_geo_event_def split_beta)
  ultimately show ?thesis by simp
qed

text \<open>Joined, then the map is opened over the channel; the sampler is served first.\<close>

theorem sampled_line_lost_witness:
  "emitted (fst (client_run quiet_lib [(0, Cmd (Subscribe toy_place [[1]])), (1, Cmd (Sample [toy_place] [[2]])),
      (5, Inbound SAMPLER_KEY [2] (RelayEvent [] toy_chat)), (6, Inbound toy_place [1] (RelayEvent [] toy_chat)), (3000, Tick)] client_new))
   = [Activity toy_place (hex_encode (toy_public [7])) True]"
proof -
  let ?c = "snd (handle_command 1 (Sample [toy_place] [[2]]) (snd (handle_command 0 (Subscribe toy_place [[1]]) client_new)))"
  let ?s = "handle_inbound quiet_lib SAMPLER_KEY [2] (RelayEvent [] toy_chat) ?c"
  let ?g = "handle_inbound quiet_lib toy_place [1] (RelayEvent [] toy_chat) (snd ?s)"
  have names: "toy_place \<noteq> SAMPLER_KEY" "toy_place \<noteq> DM_KEY" by (simp_all add: toy_place_def SAMPLER_KEY_def DM_KEY_def ascii_def)
  have seen: "cl_seen ?c = ring_empty" "cl_sampler_cells ?c = {toy_place}"
    and logs: "cl_backlogs ?c = [(toy_place, \<lparr>bl_buffered = [], bl_deadline = BACKLOG_WINDOW, bl_pending_relays = {[1]}\<rparr>)]"
    using names by (simp_all add: handle_command_def client_new_def)
  have ids: "content_key toy_chat \<noteq> ev_id toy_chat"
  proof
    assume "content_key toy_chat = ev_id toy_chat"
    moreover have "124 \<in> set (content_key toy_chat)" by (simp add: content_key_def)
    moreover have "hex_digit n \<noteq> 124" if "n < 16" for n
      using hex_value_hex_digit [OF that] by (auto simp: hex_value_def)
    then have "124 \<notin> set (hex_encode b)" for b
      by (induction b) (auto simp: unat_nibbles dest!: sym [of 124])
    ultimately show False by (simp add: toy_chat_def signed_event_def Let_def)
  qed
  have "let (outs, c1) = handle_inbound quiet_lib SAMPLER_KEY [2] (RelayEvent [] toy_chat) ?c;
             (outs', c2) = handle_inbound quiet_lib toy_place [1] (RelayEvent [] toy_chat) c1
         in outs = [Activity toy_place (ev_pubkey toy_chat) True] \<and> outs' = [] \<and> cl_backlogs c2 = cl_backlogs ?c"
    by (rule sampled_line_lost)
      (use names toy_chat_facts seen ids in \<open>auto simp: ring_empty_def ring_valid_def client_remember_def pop_insert_def SEEN_LIMIT_def\<close>)
  then have "fst ?s = [Activity toy_place (ev_pubkey toy_chat) True]" "fst ?g = []" "cl_backlogs (snd ?g) = cl_backlogs ?c"
    by (simp_all add: split_beta Let_def)
  then show ?thesis using logs toy_chat_facts(4)
    by (simp add: split_beta command_emits client_tick_def flush_backlog_def BACKLOG_WINDOW_def Let_def)
      (simp add: emitted_def List.map_filter_simps)
qed

text \<open>
  An event for a channel that is not subscribed goes nowhere: what a gateway accepts from
  a neighbour for such a channel is not published.
\<close>

lemma unsubscribed_publish_dropped:
  "cl_subscriptions c geohash = None \<Longrightarrow> handle_command now (PublishEvent geohash e) c = ([], c)"
  by (simp add: handle_command_def)

text \<open>
  A relay that takes connections and refuses the request is dialled again at once, even
  for a subscription that is gone; every other loss waits at least two seconds.
\<close>

lemma request_failure_redials_at_once: "socket_lost url RequestFailed closed backoff = (Some 0, [], backoff)"
  by (simp add: socket_lost_def)

lemma other_losses_wait:
  "a \<noteq> RequestFailed \<Longrightarrow> RECONNECT_BACKOFF_START \<le> backoff \<Longrightarrow> backoff \<le> RECONNECT_BACKOFF_MAX \<Longrightarrow>
     (case socket_lost url a closed backoff of (wait, reports, backoff') \<Rightarrow>
        (\<forall>w. wait = Some w \<longrightarrow> RECONNECT_BACKOFF_START \<le> w \<and> w \<le> RECONNECT_BACKOFF_MAX)
        \<and> RECONNECT_BACKOFF_START \<le> backoff' \<and> backoff' \<le> RECONNECT_BACKOFF_MAX)"
  by (auto simp: socket_lost_def RECONNECT_BACKOFF_START_def RECONNECT_BACKOFF_MAX_def Let_def split: attempt.split)

end
