(* ===== verification/Private_Mail.thy ===== *)
theory Private_Mail
  imports Relay Mesh_Private Conversations Geo Nostr_Client Gateway Relay_Health Outbox Processed Mailbox
begin

text \<open>
  How the main loop (main.rs) moves messages: private mail over relays, mail left with
  couriers, the shelf, the gateway, and what reaches the screen.  A result is \<open>None\<close> where
  deriving the device's own key panics.  One reading of each clock serves one operation;
  randomness is drawn beforehand in a \<open>draw\<close>.  The wording of errors and diagnostics and
  the decoder of pictures are the fields of \<open>wording\<close>.
\<close>

section \<open>Sealing and sending over relays\<close>

record draw =
  dw_ephemeral :: bytes
  dw_aux :: "bytes \<times> bytes"
  dw_jitter :: int
  dw_nonces :: "bytes \<times> bytes"
  dw_uuid :: text_bytes
  dw_ms :: u64

record 'i wording =
  wd_error :: "mesh_error \<Rightarrow> text_bytes"
  wd_diagnostic :: "diagnostic \<Rightarrow> text_bytes"
  wd_kib :: "nat \<Rightarrow> text_bytes"
  wd_decode :: "bytes \<Rightarrow> text_bytes + 'i \<times> nat \<times> nat"

definition EM_DASH :: text_bytes where "EM_DASH = [0xE2, 0x80, 0x94]"

definition seal_for ::
  "'x geo_lib_scheme \<Rightarrow> moment \<Rightarrow> draw \<Rightarrow> text_bytes \<Rightarrow> text_bytes \<Rightarrow> bytes \<Rightarrow> event option" where
  "seal_for gl t d content recipient_text sender =
     do {
       recipient \<leftarrow> hex_decode recipient_text;
       if length recipient \<noteq> 32 \<or> \<not> nl_key_ok gl recipient \<or> \<not> gl_scalar_ok gl (dw_ephemeral d) then None
       else
         let now = int (mo_epoch t) in
         (case seal_message gl (dw_aux d) content recipient sender (dw_ephemeral d) now
                 (published_timestamp now (dw_jitter d)) (dw_nonces d) of
            Inl _ \<Rightarrow> None
          | Inr e \<Rightarrow> Some e)
     }"

definition send_over_nostr ::
  "'x geo_lib_scheme \<Rightarrow> moment \<Rightarrow> draw \<Rightarrow> text_bytes \<Rightarrow> text_bytes \<Rightarrow> text_bytes \<Rightarrow> mesh \<Rightarrow> geo_service
     \<Rightarrow> ((event \<times> text_bytes) option \<times> geo_service) option" where
  "send_over_nostr gl t d their_address their_peer_id content m g =
     (case address_to_bytes (gl_unbech gl) their_address of
        None \<Rightarrow> Some (None, g)
      | Some recipient \<Rightarrow>
          (case embedded_private_message gl (dw_uuid d) content (ms_my_id m) their_peer_id (dw_ms d) of
             None \<Rightarrow> Some (None, g)
           | Some framed \<Rightarrow>
               map_option
                 (\<lambda>(key, g). (map_option (\<lambda>e. (e, dw_uuid d)) (seal_for gl t d framed (hex_encode recipient) key), g))
                 (main_nostr_keypair gl g)))"

section \<open>Opening what relays serve\<close>

text \<open>The conversation a letter belongs to and the name it is shown under; \<open>None\<close> from a blocked sender.\<close>

definition private_thread :: "env \<Rightarrow> text_bytes \<Rightarrow> mesh \<Rightarrow> (text_bytes \<times> text_bytes) option" where
  "private_thread v sender m =
     (case fingerprint_for_nostr_key sender (ms_favorites m) of
        Some fp \<Rightarrow>
          if is_blocked v fp m then None
          else Some (take_chars 16 fp,
                 case map_of (ms_favorites m) fp of
                   Some r \<Rightarrow> if rs_nickname r \<noteq> [] then rs_nickname r else short_display fp
                 | None \<Rightarrow> short_display fp)
      | None \<Rightarrow> Some (sender, ascii ''nostr:'' @ take 8 sender))"

definition act_on_payload ::
  "'x geo_lib_scheme \<Rightarrow> local_time \<Rightarrow> moment \<Rightarrow> draw \<Rightarrow> bytes \<Rightarrow> text_bytes \<Rightarrow> opened \<Rightarrow> text_bytes \<Rightarrow> text_bytes
     \<Rightarrow> noise_payload \<Rightarrow> 'i app \<Rightarrow> event option \<times> 'i app" where
  "act_on_payload gl local t d key my_id opened conversation display payload a =
     (case np_kind payload of
        PrivateMessage \<Rightarrow>
          (case pm_decode (np_body payload) of
             None \<Rightarrow> (None, a)
           | Some record \<Rightarrow>
               (Option.bind (embedded_receipt gl Delivered (pm_message_id record) my_id conversation (dw_ms d))
                  (\<lambda>content. seal_for gl t d content (op_sender opened) key),
                add_dm_received local t display (pm_message_id record) (pm_content record) (op_created_at opened) a))
      | Delivered \<Rightarrow>
          (None, case payload_message_id payload of Some i \<Rightarrow> mark_delivery i StatusDelivered a | None \<Rightarrow> a)
      | ReadReceipt \<Rightarrow>
          (None, case payload_message_id payload of Some i \<Rightarrow> mark_delivery i StatusRead a | None \<Rightarrow> a)
      | _ \<Rightarrow> (None, a))"

definition open_private_envelope ::
  "'x geo_lib_scheme \<Rightarrow> env \<Rightarrow> local_time \<Rightarrow> moment \<Rightarrow> draw \<Rightarrow> event \<Rightarrow> mesh \<Rightarrow> 'i app \<Rightarrow> geo_service \<Rightarrow> processed
     \<Rightarrow> (event option \<times> 'i app \<times> geo_service \<times> processed) option" where
  "open_private_envelope gl v local t d wrap m a g seen =
     (let (fresh, seen) = remember (ev_id wrap) seen in
      if \<not> fresh then Some (None, a, g, seen)
      else case main_nostr_keypair gl g of
        None \<Rightarrow> None
      | Some (key, g) \<Rightarrow>
          Some (case open_message gl wrap key (nl_public gl key) of
            Inl _ \<Rightarrow> (None, a, g, seen)
          | Inr opened \<Rightarrow>
              (case Option.bind (embedded_decode gl (ev_decompress v) (op_content opened)) embedded_payload of
                 None \<Rightarrow> (None, a, g, seen)
               | Some payload \<Rightarrow>
                   (case private_thread v (op_sender opened) m of
                      None \<Rightarrow> (None, a, g, seen)
                    | Some (conversation, display) \<Rightarrow>
                        let (reply, a) =
                          act_on_payload gl local t d key (ms_my_id m) opened conversation display payload a
                        in (reply, a, g, seen)))))"

section \<open>Couriers and the shelf\<close>

definition post_to_couriers ::
  "env \<Rightarrow> local_time \<Rightarrow> moment \<Rightarrow> clock \<Rightarrow> bytes \<Rightarrow> text_bytes \<Rightarrow> text_bytes \<Rightarrow> text_bytes \<Rightarrow> mesh \<Rightarrow> 'i app
     \<Rightarrow> (bytes list \<times> 'i app) option" where
  "post_to_couriers v local t ck ephemeral uuid addressee content m a =
     do {
       (_, relationship) \<leftarrow> resolve (ev_unicode v) addressee (ms_favorites m);
       recipient_key \<leftarrow> rs_noise_key relationship;
       let nickname = (if rs_nickname relationship = [] then short_display addressee else rs_nickname relationship);
       let couriers = filter (\<lambda>peer. peer \<noteq> addressee) (map fst (ms_peers m));
       if couriers = [] then None
       else do {
         let now_seconds = ck_seconds ck;
         let expiry_ms = (now_seconds + MAX_LIFETIME_SECONDS) * 1000;
         (e, message_id) \<leftarrow> seal_for_courier v ephemeral uuid recipient_key content expiry_ms now_seconds m;
         let frames = List.map_filter (\<lambda>peer. courier_frame ck e peer m) couriers;
         if frames = [] then None
         else Some (frames,
           add_notice local t
             (nickname @ ascii '' is not here and has no internet address. Left with '' @ show_nat (length frames)
              @ ascii '' nearby peer(s) to carry '' @ EM_DASH
              @ ascii '' it reaches them only if one of them sees them within a day, and nothing will tell you either way.'')
             (add_dm_sent local t nickname message_id content a))
       }
     }"

definition shelve ::
  "env \<Rightarrow> local_time \<Rightarrow> moment \<Rightarrow> clock \<Rightarrow> text_bytes \<Rightarrow> envelope \<Rightarrow> mesh \<Rightarrow> mailbox \<Rightarrow> 'i app \<Rightarrow> mailbox \<times> 'i app" where
  "shelve v local t ck depositor e m post a =
     (let friends = (case resolve (ev_unicode v) depositor (ms_favorites m) of
                       Some (_, r) \<Rightarrow> mutual r | None \<Rightarrow> False);
          signed = (case map_of (ms_peers m) depositor of Some p \<Rightarrow> mp_verified p | None \<Rightarrow> False)
      in if \<not> friends \<and> \<not> signed then (post, a)
         else case Mailbox.accept (sha256 (ev_crypto v)) e depositor (if friends then Favourite else Verified) (ck_ms ck) post of
           (Accepted, post) \<Rightarrow>
             (post, add_notice local t
                (ascii ''holding sealed mail for someone, left by '' @ short_display depositor @ ascii '' (''
                 @ show_nat (length (mb_held post)) @ ascii '' on the shelf)'') a)
         | (AlreadyHeld, post) \<Rightarrow> (post, a)
         | (Refused why, post) \<Rightarrow>
             (post, add_notice local t
                (ascii ''turned away mail from '' @ short_display depositor @ ascii '': '' @ ascii why) a))"

definition hand_over ::
  "env \<Rightarrow> local_time \<Rightarrow> moment \<Rightarrow> clock \<Rightarrow> text_bytes \<Rightarrow> mesh \<Rightarrow> mailbox \<Rightarrow> 'i app \<Rightarrow> bytes list \<times> mailbox \<times> 'i app" where
  "hand_over v local t ck peer_id m post a =
     (if mb_held post = [] then ([], post, a)
      else case map_of (ms_peers m) peer_id of
        None \<Rightarrow> ([], post, a)
      | Some peer \<Rightarrow>
          let tags = candidate_tags (hmac256 (ev_crypto v)) (mp_noise_key peer) (ck_seconds ck);
              (theirs, post) = collect tags post
          in if theirs = [] then ([], post, a)
             else (List.map_filter (\<lambda>e. courier_frame ck e peer_id m) theirs, post,
                   add_notice local t
                     (ascii ''handed '' @ show_nat (length theirs) @ ascii '' waiting message(s) to '' @ mp_nickname peer) a))"

text \<open>Maintenance of the shelf: what expired goes, and every known peer is offered its mail.\<close>

fun hand_over_all ::
  "env \<Rightarrow> local_time \<Rightarrow> moment \<Rightarrow> clock \<Rightarrow> text_bytes list \<Rightarrow> mesh \<Rightarrow> mailbox \<Rightarrow> 'i app \<Rightarrow> bytes list \<times> mailbox \<times> 'i app" where
  "hand_over_all v local t ck [] m post a = ([], post, a)"
| "hand_over_all v local t ck (peer # peers) m post a =
     (let (fs, post, a) = hand_over v local t ck peer m post a;
          (gs, post, a) = hand_over_all v local t ck peers m post a
      in (fs @ gs, post, a))"

definition mail_round ::
  "env \<Rightarrow> local_time \<Rightarrow> moment \<Rightarrow> clock \<Rightarrow> mesh \<Rightarrow> mailbox \<Rightarrow> 'i app \<Rightarrow> bytes list \<times> mailbox \<times> 'i app" where
  "mail_round v local t ck m post a =
     (if mb_enabled post
      then hand_over_all v local t ck (map fst (ms_peers m)) m (snd (prune (ck_ms ck) post)) a
      else ([], post, a))"

text \<open>Couriered mail for us: the memory of inner identifiers decides whether it is new.\<close>

definition courier_arrived ::
  "env \<Rightarrow> local_time \<Rightarrow> moment \<Rightarrow> text_bytes \<Rightarrow> envelope \<Rightarrow> mesh \<Rightarrow> processed \<Rightarrow> 'i app \<Rightarrow> processed \<times> 'i app" where
  "courier_arrived v local t courier e m opened_mail a =
     (case open_mail v e m of
        None \<Rightarrow> (opened_mail, a)
      | Some (record, fp) \<Rightarrow>
          let (fresh, opened_mail) = remember (pm_message_id record) opened_mail in
          if \<not> fresh then (opened_mail, a)
          else
            let sender = (case resolve (ev_unicode v) fp (ms_favorites m) of
                            Some (_, r) \<Rightarrow> if rs_nickname r \<noteq> [] then rs_nickname r else short_display fp
                          | None \<Rightarrow> short_display fp)
            in (opened_mail,
                add_notice local t
                  (ascii ''that message was carried here by '' @ short_display courier @ ascii '' while '' @ sender
                   @ ascii '' was away.'')
                  (add_dm_received local t sender (pm_message_id record) (pm_content record) (int (mo_epoch t)) a)))"

section \<open>Which way a private message goes\<close>

text \<open>\<open>SendDirectMessage\<close>: the frames for the mesh, the events for the relays, and what is left behind.\<close>

definition send_direct ::
  "'x geo_lib_scheme \<Rightarrow> env \<Rightarrow> 'i wording \<Rightarrow> local_time \<Rightarrow> moment \<Rightarrow> clock \<Rightarrow> draw \<Rightarrow> (nat \<Rightarrow> text_bytes)
     \<Rightarrow> text_bytes \<Rightarrow> text_bytes \<Rightarrow> mesh \<Rightarrow> 'i app \<Rightarrow> geo_service
     \<Rightarrow> (bytes list \<times> event list \<times> mesh \<times> 'i app \<times> geo_service) option" where
  "send_direct gl v wd local t ck d uuid addressee content m a g =
     (let present = map_of (ms_peers m) addressee \<noteq> None;
          address = nostr_address_for v addressee m;
          posted = (if \<not> present \<and> address = None
                    then post_to_couriers v local t ck (dw_ephemeral d) (dw_uuid d) addressee content m a else None)
      in case posted of
        Some (frames, a) \<Rightarrow> Some (frames, [], m, a, g)
      | None \<Rightarrow>
          (case (choose_route present address, address) of
             (RouteNostr, Some address) \<Rightarrow>
               (case send_over_nostr gl t d address addressee content m g of
                  None \<Rightarrow> None
                | Some (Some (e, message_id), g) \<Rightarrow>
                    let who = (case resolve (ev_unicode v) addressee (ms_favorites m) of
                                 Some (_, r) \<Rightarrow> if rs_nickname r \<noteq> [] then rs_nickname r else addressee
                               | None \<Rightarrow> addressee)
                    in Some ([], [e], m,
                         add_notice local t (who @ ascii '' is out of range; sent over the internet.'')
                           (add_dm_sent local t who message_id content a), g)
                | Some (None, g) \<Rightarrow>
                    Some ([], [], m,
                      add_notice local t
                        (ascii ''could not address that peer over the internet; their stored address is unreadable.'') a, g))
           | _ \<Rightarrow>
               (case dm_frames v ck (dw_ephemeral d) uuid addressee content m of
                  None \<Rightarrow> None
                | Some (Inl reason, m) \<Rightarrow> Some ([], [], m, add_notice local t (wd_error wd reason) a, g)
                | Some (Inr (ids, frames), m) \<Rightarrow>
                    let who = (case map_of (ms_peers m) addressee of Some p \<Rightarrow> mp_nickname p | None \<Rightarrow> addressee);
                        message_id = (case ids of [] \<Rightarrow> [] | i # _ \<Rightarrow> i);
                        a = add_dm_sent local t who message_id content a;
                        a = (if \<not> has_encrypted_channel addressee m
                             then add_notice local t
                               (ascii ''opening an encrypted channel with '' @ who
                                @ ascii ''; the message sends once it is up.'') a
                             else a)
                    in Some (frames, [], m, a, g))))"

section \<open>The gateway at work\<close>

definition carry_uplink ::
  "'x envelope_lib_scheme \<Rightarrow> local_time \<Rightarrow> moment \<Rightarrow> text_bytes \<Rightarrow> direction \<Rightarrow> text_bytes \<Rightarrow> text_bytes \<Rightarrow> bool
     \<Rightarrow> gateway \<Rightarrow> 'i app \<Rightarrow> event option \<times> gateway \<times> 'i app" where
  "carry_uplink el local t depositor direction geohash event_json relays_up gw a =
     (case el_event_of el event_json of
        None \<Rightarrow> (None, gw, a)
      | Some e \<Rightarrow>
          if \<not> verify_event el e
          then (None, gw, add_notice local t
                 (ascii ''refused an unsigned carried event from '' @ short_display depositor) a)
          else case direction of
            FromGateway \<Rightarrow> (None, note_carried_on_mesh (ev_id e) gw, a)
          | ToGateway \<Rightarrow>
              (case accept_uplink depositor geohash (ev_id e) event_json (ev_created_at e) (int (mo_epoch t)) relays_up gw of
                 (Publish, gw) \<Rightarrow> (Some e, gw, a)
               | (Queued, gw) \<Rightarrow>
                   (None, gw, add_notice local t
                      (ascii ''holding a message for #'' @ geohash @ ascii '' until the relays answer (''
                       @ show_nat (length (gw_held gw)) @ ascii '' waiting)'') a)
               | (UplinkRefused _, gw) \<Rightarrow> (None, gw, a))
          | _ \<Rightarrow> (None, gw, a))"

definition carry_downlink ::
  "'x envelope_lib_scheme \<Rightarrow> moment \<Rightarrow> clock \<Rightarrow> text_bytes \<Rightarrow> text_bytes \<Rightarrow> mesh \<Rightarrow> gateway \<times> nat \<Rightarrow> bytes option \<times> gateway \<times> nat"
where
  "carry_downlink el t ck geohash event_json m = (\<lambda>(gw, carried_out).
     case carrier_new FromGateway geohash event_json of
       None \<Rightarrow> (None, gw, carried_out)
     | Some carried \<Rightarrow>
         (case el_event_of el (ca_event_json carried) of
            None \<Rightarrow> (None, gw, carried_out)
          | Some e \<Rightarrow>
              (case accept_downlink (ev_id e) (int (mo_epoch t)) gw of
                 (Broadcast, gw) \<Rightarrow>
                   (case carrier_frame ck carried None m of
                      Some f \<Rightarrow> (Some f, gw, carried_out + 1)
                    | None \<Rightarrow> (None, gw, carried_out))
               | (DownlinkRefused _, gw) \<Rightarrow> (None, gw, carried_out))))"

text \<open>The maintenance of the offer to carry: the frame of a new announce, and what was held.\<close>

definition keep_offer ::
  "env \<Rightarrow> local_time \<Rightarrow> moment \<Rightarrow> clock \<Rightarrow> bool \<Rightarrow> gateway \<Rightarrow> mesh \<Rightarrow> 'i app \<Rightarrow> bytes option \<times> mesh \<times> 'i app" where
  "keep_offer v local t ck relays_up gw m a =
     (let offering = gw_enabled gw \<and> relays_up in
      if offering = ms_gateway_ready m then (None, m, a)
      else
        let (frame, m) = announce_frame v ck (m\<lparr>ms_gateway_ready := offering\<rparr>)
        in (frame, m, add_notice local t
              (if offering then ascii ''relays are answering; now advertising as a gateway.''
               else ascii ''no relay is answering; withdrew the gateway offer.'') a))"

definition release_held ::
  "'x envelope_lib_scheme \<Rightarrow> local_time \<Rightarrow> moment \<Rightarrow> bool \<Rightarrow> gateway \<times> nat \<Rightarrow> 'i app
     \<Rightarrow> (text_bytes \<times> event) list \<times> (gateway \<times> nat) \<times> 'i app" where
  "release_held el local t relays_up = (\<lambda>(gw, carried_out) a.
     if gw_enabled gw \<and> relays_up \<and> gw_held gw \<noteq> [] then
       let (waiting, gw) = take_held gw;
           a = add_notice local t
                 (ascii ''relays are back; sending '' @ show_nat (length waiting) @ ascii '' held message(s).'') a;
           sent = List.map_filter (\<lambda>h. map_option (Pair (he_geohash h)) (el_event_of el (he_event_json h))) waiting
       in (sent, (gw, carried_out + length sent), a)
     else ([], (gw, carried_out), a))"

section \<open>What reaches the screen\<close>

text \<open>Events of the relays; the map's sampler is not modelled, so \<open>Activity\<close> changes nothing here.\<close>

definition LIVE_LINE :: text_bytes where
  "LIVE_LINE = concat (replicate 3 [0xE2, 0x94, 0x80]) @ ascii '' live '' @ concat (replicate 3 [0xE2, 0x94, 0x80])"

definition apply_geo_event ::
  "'x geo_lib_scheme \<Rightarrow> local_time \<Rightarrow> moment \<Rightarrow> nat \<Rightarrow> geo_event \<Rightarrow> 'i app \<Rightarrow> geo_service \<Rightarrow> relay_health
     \<Rightarrow> ('i app \<times> geo_service \<times> relay_health) option" where
  "apply_geo_event gl local t now e a g h =
     (case e of
        RelayConnected _ relay \<Rightarrow>
          (let (n, h) = recovered relay h in
           Some (if n = BackUp then add_notice local t (relay @ ascii '' is answering again.'') a else a, g, h))
      | RelayFailed relay reason \<Rightarrow>
          (let (n, h) = fell_over relay h in
           Some (case n of
                   Down \<Rightarrow> add_notice local t (relay @ ascii '' unreachable ('' @ ascii reason @ ascii '')'') a
                 | Unstable \<Rightarrow> add_notice local t (relay @ ascii '' keeps dropping; no longer reporting it.'') a
                 | _ \<Rightarrow> a, g, h))
      | GeoMessage geohash pubkey nickname content created_at teleported \<Rightarrow>
          (case pubkey_for gl geohash g of
             None \<Rightarrow> None
           | Some (our_key, g) \<Rightarrow>
               Some (if pubkey = our_key then (a, g, h)
               else
                 let (sender, g) = note_activity now geohash pubkey nickname g;
                     sender = (if teleported then sender @ ascii ''*'' else sender)
                 in (add_channel_line (gl_unicode gl) local t
                       \<lparr>in_channel = channel_name geohash, in_sender = sender, in_epoch = created_at, in_content = content\<rparr> a,
                     g, h)))
      | GeoPresence geohash pubkey _ \<Rightarrow> Some (a, snd (note_activity now geohash pubkey None g), h)
      | HistoryEnd geohash \<Rightarrow>
          Some (add_channel_line (gl_unicode gl) local t
                  \<lparr>in_channel = channel_name geohash, in_sender = ascii ''system'', in_epoch = int (mo_epoch t),
                   in_content = LIVE_LINE\<rparr> a, g, h)
      | _ \<Rightarrow> Some (a, g, h))"

text \<open>Events of the mesh; \<open>last_notice\<close> is the last diagnostic shown.\<close>

definition file_received ::
  "'i wording \<Rightarrow> (text_bytes \<Rightarrow> text_bytes) \<Rightarrow> local_time \<Rightarrow> moment \<Rightarrow> text_bytes \<Rightarrow> text_bytes \<Rightarrow> bytes \<Rightarrow> bool
     \<Rightarrow> 'i app \<Rightarrow> 'i app" where
  "file_received wd unicode local t sender name content image_kind a =
     (let size = wd_kib wd (length content) in
      if \<not> image_kind
      then add_notice local t
             (sender @ ascii '' sent '' @ name @ ascii '' ('' @ size @ ascii '') over the mesh - only images can be shown.'') a
      else case wd_decode wd content of
        Inl problem \<Rightarrow>
          add_notice local t (sender @ ascii '' sent '' @ name @ ascii '' but it would not decode: '' @ problem) a
      | Inr (picture, width, height) \<Rightarrow>
          let (images, viewer) = picture_received sender name picture (ap_images a, ap_viewer a);
              a = a\<lparr>ap_dimensions := (ap_dimensions a)(mesh_key sender name \<mapsto> (width, height)),
                    ap_images := images, ap_viewer := viewer\<rparr>
          in add_channel_line unicode local t
               \<lparr>in_channel = PUBLIC, in_sender = sender, in_epoch = int (mo_epoch t),
                in_content = [0xE2, 0x96, 0xA3] @ ascii '' sent '' @ name @ ascii '' ('' @ size @ ascii '') - /img to view''\<rparr> a)"

definition apply_mesh_event ::
  "'i wording \<Rightarrow> (text_bytes \<Rightarrow> text_bytes) \<Rightarrow> local_time \<Rightarrow> moment \<Rightarrow> mesh_event \<Rightarrow> 'i app \<Rightarrow> text_bytes
     \<Rightarrow> 'i app \<times> text_bytes" where
  "apply_mesh_event wd unicode local t e a last_notice =
     (case e of
        FavoriteUpdate _ nickname _ notice \<Rightarrow>
          (add_notice local t
             (nickname @ ascii '' '' @ (if fn_is_favorite notice then ascii ''favourited you'' else ascii ''unfavourited you'')
              @ ascii ''.'' @ (if fn_nostr_key notice \<noteq> None then ascii '' You can now reach them off-mesh.'' else [])) a, last_notice)
      | DeliveryUpdate message_id status \<Rightarrow> (mark_delivery message_id status a, last_notice)
      | PrivateMessageFrom _ sender content message_id \<Rightarrow>
          (add_dm_received local t sender message_id content (int (mo_epoch t)) a, last_notice)
      | SessionUp _ nickname fp \<Rightarrow>
          (add_notice local t
             (ascii ''encrypted channel with '' @ nickname @ ascii '' is up ('' @ take_chars 16 fp @ ascii '')'') a, last_notice)
      | PeerAppeared _ nickname \<Rightarrow> (add_notice local t (nickname @ ascii '' connected'') a, last_notice)
      | PeerRenamed _ nickname \<Rightarrow> (add_notice local t (ascii ''a peer is now known as '' @ nickname) a, last_notice)
      | PeerLeft _ nickname \<Rightarrow> (add_notice local t (nickname @ ascii '' disconnected'') a, last_notice)
      | PublicMessage _ sender content timestamp_ms \<Rightarrow>
          (add_channel_line unicode local t
             \<lparr>in_channel = PUBLIC, in_sender = sender, in_epoch = sint (timestamp_ms div 1000), in_content = content\<rparr> a, last_notice)
      | FileReceived _ sender name _ content image_kind \<Rightarrow> (file_received wd unicode local t sender name content image_kind a, last_notice)
      | Notice text \<Rightarrow>
          (if last_notice \<noteq> wd_diagnostic wd text
           then (add_notice local t (wd_diagnostic wd text) a, wd_diagnostic wd text) else (a, last_notice))
      | Trace text \<Rightarrow> (add_notice local t (wd_diagnostic wd text) a, last_notice)
      | _ \<Rightarrow> (a, last_notice))"

section \<open>A frame from the radio\<close>

text \<open>What the main loop keeps beside the mesh service: the screen, the shelf, the gateway, opened mail, the last diagnostic.\<close>

record 'i desk =
  dk_app :: "'i app"
  dk_post :: mailbox
  dk_gateway :: gateway
  dk_opened :: processed
  dk_notice :: text_bytes

datatype outbound = ToAll bytes | ToOnly text_bytes bytes | ToAllBut text_bytes bytes

definition dispatch ::
  "'x geo_lib_scheme \<Rightarrow> env \<Rightarrow> 'i wording \<Rightarrow> local_time \<Rightarrow> moment \<Rightarrow> clock \<Rightarrow> bool \<Rightarrow> text_bytes \<Rightarrow> mesh \<Rightarrow> mesh_event
     \<Rightarrow> 'i desk \<Rightarrow> outbound list \<times> (text_bytes \<times> event) list \<times> 'i desk" where
  "dispatch gl v wd local t ck relays_up link m e k =
     (case e of
        Send outgoing \<Rightarrow> ([ToAll outgoing], [], k)
      | Reply outgoing \<Rightarrow> ([ToOnly link outgoing], [], k)
      | CarriedEvent depositor direction geohash event_json \<Rightarrow>
          (let (published, gw, a) =
             carry_uplink gl local t depositor direction geohash event_json relays_up (dk_gateway k) (dk_app k)
           in ([], case published of Some e \<Rightarrow> [(geohash, e)] | None \<Rightarrow> [], k\<lparr>dk_gateway := gw, dk_app := a\<rparr>))
      | CourierDeposit depositor envelope \<Rightarrow>
          (let (post, a) = shelve v local t ck depositor envelope m (dk_post k) (dk_app k)
           in ([], [], k\<lparr>dk_post := post, dk_app := a\<rparr>))
      | CourierArrived courier envelope \<Rightarrow>
          (let (opened_mail, a) = courier_arrived v local t courier envelope m (dk_opened k) (dk_app k)
           in ([], [], k\<lparr>dk_opened := opened_mail, dk_app := a\<rparr>))
      | other \<Rightarrow>
          (let (a, last_notice) = apply_mesh_event wd (ev_unicode v) local t other (dk_app k) (dk_notice k)
           in ([], [], k\<lparr>dk_app := a, dk_notice := last_notice\<rparr>)))"

fun dispatch_all ::
  "'x geo_lib_scheme \<Rightarrow> env \<Rightarrow> 'i wording \<Rightarrow> local_time \<Rightarrow> moment \<Rightarrow> clock \<Rightarrow> bool \<Rightarrow> text_bytes \<Rightarrow> mesh
     \<Rightarrow> mesh_event list \<Rightarrow> 'i desk \<Rightarrow> outbound list \<times> (text_bytes \<times> event) list \<times> 'i desk" where
  "dispatch_all gl v wd local t ck relays_up link m [] k = ([], [], k)"
| "dispatch_all gl v wd local t ck relays_up link m (e # es) k =
     (let (out, published, k) = dispatch gl v wd local t ck relays_up link m e k;
          (more_out, more_published, k) = dispatch_all gl v wd local t ck relays_up link m es k
      in (out @ more_out, published @ more_published, k))"

text \<open>\<open>hash\<close> identifies packets for the ring of forwarded ones; \<open>ex\<close> is the ephemeral key of an answered handshake.\<close>

definition frame_arrived ::
  "'x geo_lib_scheme \<Rightarrow> env \<Rightarrow> 'i wording \<Rightarrow> local_time \<Rightarrow> (identity \<Rightarrow> u64) \<Rightarrow> moment \<Rightarrow> clock \<Rightarrow> bytes \<Rightarrow> bool
     \<Rightarrow> text_bytes \<Rightarrow> bytes \<Rightarrow> text_bytes list \<Rightarrow> mesh \<times> u64 ring \<times> 'i desk
     \<Rightarrow> (outbound list \<times> (text_bytes \<times> event) list \<times> mesh \<times> u64 ring \<times> 'i desk) option" where
  "frame_arrived gl v wd local hash t ck ex relays_up link raw links = (\<lambda>(m, forwarded, k).
     let (onward, forwarded) = relay_plan (ev_decompress v) hash (ms_my_id m) raw link links forwarded in
     case handle_frame v ck ex raw m of
       None \<Rightarrow> None
     | Some (events, m) \<Rightarrow>
         let (out, published, k) = dispatch_all gl v wd local t ck relays_up link m events k
         in Some (out @ (case onward of Some f \<Rightarrow> [ToAllBut link f] | None \<Rightarrow> []), published, m, forwarded, k))"

end
