(* ===== verification/Mail_Delivery.thy ===== *)
theory Mail_Delivery
  imports Private_Mail
begin

text \<open>
  A letter left with couriers: how it is sealed and posted, what a courier makes of it,
  how the shelf hands it over, and that the reader is shown it once.
\<close>

section \<open>A letter left with couriers\<close>





















end
