(* ===== verification/Internet_Mail.thy ===== *)
theory Internet_Mail
  imports Private_Mail
begin

text \<open>
  Private mail over relays: a letter sealed by one client is shown by the other, its
  receipt comes back, and under which name it is shown.
\<close>

section \<open>What was sealed is opened\<close>

lemma seal_for_SomeD:
  assumes "seal_for gl t d content (hex_encode key) writer = Some wrap"
  shows "seal_message gl (dw_aux d) content key writer (dw_ephemeral d) (int (mo_epoch t))
      (published_timestamp (int (mo_epoch t)) (dw_jitter d)) (dw_nonces d) = Inr wrap"
  using assms by (auto simp: seal_for_def Let_def split: if_split_asm sum.splits)

lemma posted_letter_opens:
  assumes "signing_laws gl" "sealing_laws gl" "text_laws gl"
    and "length (fst (dw_nonces d)) = NONCE_BYTES" "length (snd (dw_nonces d)) = NONCE_BYTES" "utf8_valid content"
    and sealed: "seal_for gl t d content (hex_encode (nl_public gl reader)) writer = Some wrap"
    and "length (ev_content wrap) \<le> MAX_ENVELOPE_BYTES"
  shows "open_message gl wrap reader (nl_public gl reader) =
    Inr \<lparr>op_content = content, op_sender = hex_encode (nl_public gl writer), op_created_at = int (mo_epoch t)\<rparr>"
proof -
  let ?n = "(fst (dw_nonces d), snd (dw_nonces d))"
  have m: "seal_message gl (dw_aux d) content (nl_public gl reader) writer (dw_ephemeral d) (int (mo_epoch t))
      (published_timestamp (int (mo_epoch t)) (dw_jitter d)) ?n = Inr wrap"
    using seal_for_SomeD [OF sealed] by simp
  have "key_laws gl" using assms(1) by (simp add: signing_laws_def)
  moreover have "verify_event gl wrap" using seal_message_InrD [OF m] assms(1) by auto
  ultimately show ?thesis using assms by (intro verified_letter_opens [OF _ assms(2-6) m]) simp_all
qed

lemma letter_acted_on:
  assumes "open_message gl wrap key (nl_public gl key) = Inr letter"
    and "main_nostr_keypair gl g = Some (key, g')" "ev_id wrap \<notin> ring_set (pe_ring seen)"
    and "embedded_decode gl (ev_decompress v) (op_content letter) = Some p" "embedded_payload p = Some payload"
    and "private_thread v (op_sender letter) m = Some (conversation, display)"
  shows "\<exists>seen'. open_private_envelope gl v local t d wrap m a g seen =
    (let (reply, a') = act_on_payload gl local t d key (ms_my_id m) letter conversation display payload a
     in Some (reply, a', g', seen'))"
  using assms by (auto simp: open_private_envelope_def remember_def split: prod.split)

text \<open>The receipt for a message; \<open>None\<close> where it cannot be framed or sealed.\<close>

definition sealed_receipt ::
  "'x geo_lib_scheme \<Rightarrow> moment \<Rightarrow> draw \<Rightarrow> text_bytes \<Rightarrow> text_bytes \<Rightarrow> text_bytes \<Rightarrow> text_bytes \<Rightarrow> bytes \<Rightarrow> event option" where
  "sealed_receipt gl t d i me conversation writer key =
     Option.bind (embedded_receipt gl Delivered i me conversation (dw_ms d)) (\<lambda>content. seal_for gl t d content writer key)"

lemma record_shown:
  assumes "np_kind payload = PrivateMessage" "pm_decode (np_body payload) = Some record"
  shows "act_on_payload gl local t d key me letter conversation display payload a =
      (sealed_receipt gl t d (pm_message_id record) me conversation (op_sender letter) key,
       add_dm_received local t display (pm_message_id record) (pm_content record) (op_created_at letter) a)"
  using assms by (simp add: act_on_payload_def sealed_receipt_def)

lemma send_over_nostr_SomeD:
  assumes "send_over_nostr gl t d address peer content m g = Some (Some (wrap, i), g')"
  obtains recipient framed key where "address_to_bytes (gl_unbech gl) address = Some recipient"
    "embedded_private_message gl (dw_uuid d) content (ms_my_id m) peer (dw_ms d) = Some framed"
    "main_nostr_keypair gl g = Some (key, g')" "i = dw_uuid d"
    "seal_for gl t d framed (hex_encode recipient) key = Some wrap"
  using assms by (auto simp: send_over_nostr_def split: option.splits)

text \<open>The text of a framed message and of a receipt arrive as they were framed.\<close>

lemma framed_message_arrives:
  assumes "text_laws gl" "compact_laws gl" "utf8_valid i" "utf8_valid content"
    and "embedded_private_message gl i content me them now = Some framed"
  obtains p body where "utf8_valid framed" "embedded_decode gl decompress framed = Some p"
    "embedded_payload p = Some \<lparr>np_kind = PrivateMessage, np_body = body\<rparr>"
    "pm_decode body = Some \<lparr>pm_message_id = i, pm_content = content\<rparr>"
proof -
  from assms(5) obtain body where body: "pm_encode \<lparr>pm_message_id = i, pm_content = content\<rparr> = Some body"
    "embedded_encode gl (embedded_frame \<lparr>np_kind = PrivateMessage, np_body = body\<rparr> me them now) = Some framed"
    by (auto simp: embedded_private_message_def bind_eq_Some_conv)
  then have "length body \<le> 514"
    by (auto simp: pm_encode_def push_tlv1_def MAX_TLV_VALUE_def split: if_split_asm)
  with embedded_travels [OF assms(1,2), of "\<lparr>np_kind = PrivateMessage, np_body = body\<rparr>" me them now decompress] body(2)
  have "utf8_valid framed" "embedded_decode gl decompress framed = Some (embedded_frame \<lparr>np_kind = PrivateMessage, np_body = body\<rparr> me them now)"
    by simp_all
  moreover have "pm_decode body = Some \<lparr>pm_message_id = i, pm_content = content\<rparr>"
    using pm_decode_encode [of "\<lparr>pm_message_id = i, pm_content = content\<rparr>" body] body(1) assms(3,4) by simp
  ultimately show thesis using that embedded_payload_frame [of "\<lparr>np_kind = PrivateMessage, np_body = body\<rparr>"] by simp
qed




lemma message_letter_shown:
  assumes laws: "signing_laws gl" "sealing_laws gl" "text_laws gl" "compact_laws gl"
    and sent: "send_over_nostr gl t d address peer content A g = Some (Some (wrap, i), g')"
    and address: "address_to_bytes (gl_unbech gl) address = Some (nl_public gl reader)"
    and keys: "main_nostr_keypair gl g = Some (writer, g')" "main_nostr_keypair gl h = Some (reader, h')"
    and nonces: "length (fst (dw_nonces d)) = NONCE_BYTES" "length (snd (dw_nonces d)) = NONCE_BYTES"
    and words: "utf8_valid content" "utf8_valid (dw_uuid d)" and size: "length (ev_content wrap) \<le> MAX_ENVELOPE_BYTES"
    and new: "ev_id wrap \<notin> ring_set (pe_ring seen)"
    and thread: "private_thread v (hex_encode (nl_public gl writer)) B = Some (conversation, display)"
  shows "\<exists>seen'. open_private_envelope gl v local t' d' wrap B app h seen =
       Some (sealed_receipt gl t' d' i (ms_my_id B) conversation (hex_encode (nl_public gl writer)) reader,
             add_dm_received local t' display i content (int (mo_epoch t)) app, h', seen')"
proof -
  obtain framed where framed: "embedded_private_message gl (dw_uuid d) content (ms_my_id A) peer (dw_ms d) = Some framed"
    and i: "i = dw_uuid d" and wrap: "seal_for gl t d framed (hex_encode (nl_public gl reader)) writer = Some wrap"
    using send_over_nostr_SomeD [OF sent] address keys(1) by auto
  obtain p body where p: "utf8_valid framed" "embedded_decode gl (ev_decompress v) framed = Some p"
    "embedded_payload p = Some \<lparr>np_kind = PrivateMessage, np_body = body\<rparr>"
    "pm_decode body = Some \<lparr>pm_message_id = dw_uuid d, pm_content = content\<rparr>"
    using framed_message_arrives [OF laws(3,4) words(2,1) framed] by blast
  let ?letter = "\<lparr>op_content = framed, op_sender = hex_encode (nl_public gl writer), op_created_at = int (mo_epoch t)\<rparr>"
  have "open_message gl wrap reader (nl_public gl reader) = Inr ?letter"
    by (rule posted_letter_opens [OF laws(1-3) nonces p(1) wrap size])
  from letter_acted_on [OF this keys(2) new, of v p _ B conversation display local t' d' app] p(2,3) thread
  obtain seen' where opened: "open_private_envelope gl v local t' d' wrap B app h seen =
    (let (reply, a') = act_on_payload gl local t' d' reader (ms_my_id B) ?letter conversation display
         \<lparr>np_kind = PrivateMessage, np_body = body\<rparr> app in Some (reply, a', h', seen'))"
    by auto
  moreover have "act_on_payload gl local t' d' reader (ms_my_id B) ?letter conversation display
        \<lparr>np_kind = PrivateMessage, np_body = body\<rparr> app
      = (sealed_receipt gl t' d' i (ms_my_id B) conversation (hex_encode (nl_public gl writer)) reader,
         add_dm_received local t' display i content (int (mo_epoch t)) app)"
    using record_shown [of "\<lparr>np_kind = PrivateMessage, np_body = body\<rparr>" "\<lparr>pm_message_id = dw_uuid d, pm_content = content\<rparr>"
        gl local t' d' reader "ms_my_id B" ?letter conversation display app] p(4) i by simp
  ultimately show ?thesis by simp
qed

section \<open>Properties\<close>


text \<open>
  Mail of a favourite is not recognised, and a block does not stop it.  Clients hand
  out their address in bech32, and a letter names its writer in hexadecimal; while every
  address on file is a bech32 one, a letter is shown under a name made of the writer's key
  although the very address on file stands for that key, and also when the peer it belongs
  to is blocked.
\<close>

theorem favourites_mail_unrecognised:
  assumes laws: "signing_laws gl" "sealing_laws gl" "text_laws gl" "compact_laws gl"
    and bech: "\<And>k x. gl_bech gl HRP k = Some x \<Longrightarrow> length x = 63"
    and sent: "send_over_nostr gl t d address peer content A g = Some (Some (wrap, i), g')"
    and address: "address_to_bytes (gl_unbech gl) address = Some (nl_public gl reader)"
    and keys: "main_nostr_keypair gl g = Some (writer, g')" "main_nostr_keypair gl h = Some (reader, h')"
    and nonces: "length (fst (dw_nonces d)) = NONCE_BYTES" "length (snd (dw_nonces d)) = NONCE_BYTES"
    and words: "utf8_valid content" "utf8_valid (dw_uuid d)" and size: "length (ev_content wrap) \<le> MAX_ENVELOPE_BYTES"
    and new: "ev_id wrap \<notin> ring_set (pe_ring seen)"
    and friend: "(fp, r) \<in> set (ms_favorites B)" "rs_nostr_key r = Some npub"
      "address_to_bytes (gl_unbech gl) npub = Some (nl_public gl writer)" "is_blocked v fp B"
    and filed: "\<And>f s x. (f, s) \<in> set (ms_favorites B) \<Longrightarrow> rs_nostr_key s = Some x \<Longrightarrow> \<exists>k. npub_from_bytes (gl_bech gl) k = Some x"
  shows "\<exists>reply seen'. open_private_envelope gl v local t' d' wrap B app h seen =
     Some (reply, add_dm_received local t' (ascii ''nostr:'' @ take 8 (hex_encode (nl_public gl writer))) i content
                    (int (mo_epoch t)) app, h', seen')"
proof -
  have "length (hex_encode (nl_public gl writer)) = 64" using laws(1) by (simp add: signing_laws_def key_laws_def)
  moreover have "length x = 63" if "(f, s) \<in> set (ms_favorites B)" "rs_nostr_key s = Some x" for f s x
    using filed [OF that] bech by (auto simp: npub_from_bytes_def)
  ultimately have "fingerprint_for_nostr_key (hex_encode (nl_public gl writer)) (ms_favorites B) = None"
    by (fastforce simp: fingerprint_for_nostr_key_def find_None_iff)
  then have "private_thread v (hex_encode (nl_public gl writer)) B
      = Some (hex_encode (nl_public gl writer), ascii ''nostr:'' @ take 8 (hex_encode (nl_public gl writer)))"
    by (simp add: private_thread_def)
  then show ?thesis
    using message_letter_shown [OF laws sent address keys nonces words size new, of v B] by metis
qed

section \<open>Two clients\<close>

text \<open>
  User 7 writes to user 9 under the throwaway key 8, with the libraries of \<open>toy_lib\<close>
  made short for this one letter; the address \<open>x\<close> stands for user 9, any other for user 7.
\<close>

definition post_key :: "byte \<Rightarrow> bytes" where "post_key n = n # MAIN_IDENTITY_LABEL @ be32 0"

definition post_words :: text_bytes where
  "post_words = the (embedded_private_message (toy_lib (\<lambda>_ _ _. True)) [117] [104, 105] (ms_my_id demo_mesh) [] 0)"

definition post_letter :: rumor where
  "post_letter = \<lparr>ru_kind = KIND_RUMOR, ru_created_at = 1000, ru_tags = [], ru_content = post_words,
     ru_pubkey = hex_encode (toy_public (post_key 7)), ru_id = [], ru_sig = None\<rparr>"

definition post_rumor_json :: "rumor \<Rightarrow> text_bytes" where
  "post_rumor_json r = toy_json (rumor_tuple r) (\<lambda>t. t = rumor_tuple post_letter) (filter (\<lambda>b. b = 1) (ru_id r))"

definition post_sealed :: text_bytes where
  "post_sealed = CONTENT_PREFIX
     @ hex_encode (replicate 24 5 @ toy_head (2 # map2 (+) (toy_public (post_key 7)) (toy_public (post_key 9))) @ post_rumor_json post_letter)"

definition post_seal_event :: event where
  "post_seal_event = signed_event (toy_nostr (\<lambda>_ _ _. True)) [] (post_key 7) 1000 KIND_SEAL [] post_sealed"

definition post_event_json :: "event \<Rightarrow> text_bytes" where
  "post_event_json e = toy_json (event_tuple e) (\<lambda>t. t = event_tuple post_seal_event) (ev_content e)"

definition post_lib :: geo_lib where
  "post_lib = \<lparr>nl_sha256 = id, nl_id_json = (\<lambda>t. replicate (to_nat t) 1), nl_public = toy_public, nl_key_ok = (\<lambda>k. True),
     nl_sign = (\<lambda>aux sk m. replicate 64 0), nl_verify = (\<lambda>_ _ _. True), el_point = toy_point, el_hkdf = (\<lambda>k info. k),
     el_seal = toy_seal, el_open = toy_open, el_b64 = hex_encode, el_unb64 = hex_decode,
     el_event_json = post_event_json, el_event_of = (\<lambda>t. Some (tuple_event (toy_of t (event_tuple post_seal_event)))),
     el_rumor_json = post_rumor_json, el_rumor_of = (\<lambda>t. Some (tuple_rumor (toy_of t (rumor_tuple post_letter)))),
     gl_hmac = (@), gl_scalar_ok = (\<lambda>_. True), gl_unicode = id, gl_distance = (\<lambda>_ _. 0), gl_directory = [],
     gl_unbech = (\<lambda>x. Some (HRP, toy_public (post_key (if x = [120] then 9 else 7)))), gl_bech = (\<lambda>_ _. Some (replicate 63 121))\<rparr>"

definition post_wrap :: event where
  "post_wrap = signed_event (toy_nostr (\<lambda>_ _ _. True)) [] [8] 1000 KIND_GIFT_WRAP (address_tags (toy_public (post_key 9)))
     (CONTENT_PREFIX @ hex_encode (replicate 24 6 @ toy_head (2 # map2 (+) (toy_public [8]) (toy_public (post_key 9)))
        @ post_event_json post_seal_event))"

definition post_draw :: draw where
  "post_draw = \<lparr>dw_ephemeral = [8], dw_aux = ([], []), dw_jitter = 900, dw_nonces = (replicate 24 5, replicate 24 6),
     dw_uuid = [117], dw_ms = 0\<rparr>"

lemma post_same:
  "shared_secrets post_lib = shared_secrets (toy_lib (\<lambda>_ _ _. True))" "symmetric_key post_lib = (\<lambda>k. k)"
  "sealing_secret post_lib = sealing_secret (toy_lib (\<lambda>_ _ _. True))"
  by (simp_all add: fun_eq_iff shared_secrets_def sealing_secret_def symmetric_key_def post_lib_def)
    (simp_all add: toy_lib_def nostr_lib.defs)

lemma post_laws:
  "signing_laws post_lib" "sealing_laws post_lib" "text_laws post_lib" "compact_laws post_lib"
proof -
  show "signing_laws post_lib" by (simp add: signing_laws_def key_laws_def post_lib_def)
  show "compact_laws post_lib" by (simp add: compact_laws_def post_lib_def)
  show "sealing_laws post_lib"
    using toy_sealing_laws [of "\<lambda>_ _ _. True"] unfolding sealing_laws_def post_same by (simp add: post_lib_def)
  have "toy_of (post_event_json e) (event_tuple post_seal_event) = event_tuple e" for e
    unfolding post_event_json_def by (rule toy_of_json) simp
  moreover have "toy_of (post_rumor_json r) (rumor_tuple post_letter) = rumor_tuple r" for r
    unfolding post_rumor_json_def by (rule toy_of_json) simp
  moreover have "utf8_valid (post_rumor_json r)" for r
    by (rule utf8_valid_ascii) (auto simp: post_rumor_json_def toy_json_def)
  moreover have "utf8_valid (post_event_json e)" if "event_text e" for e
  proof -
    have "utf8_valid [3]" "utf8_valid (2 # replicate n 1)" for n by (rule utf8_valid_ascii; simp)+
    with that show ?thesis by (auto simp: post_event_json_def toy_json_def event_text_def intro: utf8_valid_append)
  qed
  moreover have "length (ev_content e) \<le> length (post_event_json e)" for e
    by (simp add: post_event_json_def toy_json_def)
  moreover have "utf8_valid (hex_encode b)" "length b \<le> length (hex_encode b)" for b
    by (simp_all add: utf8_valid_hex_encode)
  ultimately show "text_laws post_lib" by (simp add: text_laws_def post_lib_def)
qed

lemma post_encrypt:
  assumes "length public = 32"
  shows "envelope_encrypt post_lib m public s n =
     Inr (CONTENT_PREFIX @ hex_encode (n @ toy_head (2 # map2 (+) (toy_public s) public) @ m))"
  using assms by (simp add: envelope_encrypt_def post_same toy_seal_def) (simp add: post_lib_def toy_seal_def)

lemma post_signed: "signed_event post_lib a s c k ts x = signed_event (toy_nostr (\<lambda>_ _ _. True)) a s c k ts x"
  by (simp add: signed_event_def compute_id_def serialize_for_id_def toy_nostr_def post_lib_def)

lemma post_keypair:
  "main_nostr_keypair post_lib (geo_new [n] w) = Some (post_key n, (geo_new [n] w)
     \<lparr>gs_identities := \<lparr>is_seed = [n], is_cache = [MAIN_IDENTITY_LABEL \<mapsto> post_key n]\<rparr>\<rparr>)"
proof -
  have "find (\<lambda>_. True) (map f [0..<10]) = Some (f 0)" for f :: "nat \<Rightarrow> bytes" by (simp add: upt_conv_Cons)
  then show ?thesis
    by (simp add: main_nostr_keypair_def geo_keypair_for_def keypair_for_def derive_key_def geo_new_def identity_new_def
        post_lib_def post_key_def)
qed

lemma post_words_framed:
  "embedded_private_message post_lib [117] [104, 105] (ms_my_id demo_mesh) [] 0 = Some post_words"
proof -
  have "embedded_encode post_lib = embedded_encode (toy_lib (\<lambda>_ _ _. True))"
    by (simp add: fun_eq_iff embedded_encode_def post_lib_def)
  then have same: "embedded_private_message post_lib = embedded_private_message (toy_lib (\<lambda>_ _ _. True))"
    by (simp add: fun_eq_iff embedded_private_message_def)
  obtain body where body: "pm_encode \<lparr>pm_message_id = [117], pm_content = [104, 105]\<rparr> = Some body" "length body \<le> 1000"
    by (auto simp: pm_encode_def MAX_TLV_VALUE_def push_tlv1_def)
  from embedded_travels [OF post_laws(3,4), of "\<lparr>np_kind = PrivateMessage, np_body = body\<rparr>" "ms_my_id demo_mesh" "[]" 0] body
  have "\<exists>w. embedded_private_message post_lib [117] [104, 105] (ms_my_id demo_mesh) [] 0 = Some w"
    by (auto simp: embedded_private_message_def)
  then show ?thesis by (auto simp: post_words_def same)
qed

lemma post_address:
  "address_to_bytes (gl_unbech post_lib) [120] = Some (toy_public (post_key 9))"
  "address_to_bytes (gl_unbech post_lib) (replicate 63 121) = Some (toy_public (post_key 7))"
proof -
  have "trim [120] = [120]" "trim (replicate 63 121) = replicate 63 121" by code_simp+
  then show "address_to_bytes (gl_unbech post_lib) [120] = Some (toy_public (post_key 9))"
    "address_to_bytes (gl_unbech post_lib) (replicate 63 121) = Some (toy_public (post_key 7))"
    by (simp_all add: address_to_bytes_def address_from_hex_def address_from_npub_def post_lib_def Let_def
        numeral_eq_Suc)
qed

lemma post_sent:
  "\<exists>g. main_nostr_keypair post_lib (geo_new [7] []) = Some (post_key 7, g)
     \<and> send_over_nostr post_lib \<lparr>mo_instant = 0, mo_epoch = 1000\<rparr> post_draw [120] [] [104, 105] demo_mesh (geo_new [7] [])
       = Some (Some (post_wrap, [117]), g)"
proof -
  have "published_timestamp 1000 900 = 1000" by (simp add: published_timestamp_def TIMESTAMP_JITTER_SECS_def)
  then have "seal_for post_lib \<lparr>mo_instant = 0, mo_epoch = 1000\<rparr> post_draw post_words (hex_encode (toy_public (post_key 9))) (post_key 7)
      = Some post_wrap"
    by (simp add: seal_for_def seal_message_def post_encrypt post_signed post_draw_def Let_def)
      (simp add: post_lib_def post_wrap_def post_seal_event_def post_sealed_def post_letter_def)
  then show ?thesis
    using post_words_framed by (simp add: send_over_nostr_def post_address(1) post_keypair post_draw_def)
qed

lemma post_wrap_size: "length (ev_content post_wrap) \<le> MAX_ENVELOPE_BYTES"
proof -
  have "length (post_rumor_json post_letter) = 1" "length (post_event_json post_seal_event) = length post_sealed + 1"
    by (simp_all add: post_rumor_json_def toy_json_def post_letter_def post_event_json_def post_seal_event_def)
  then show ?thesis by (simp add: post_wrap_def post_sealed_def toy_sizes MAX_ENVELOPE_BYTES_def)
qed

lemma post_public: "nl_public post_lib = toy_public" "gl_bech post_lib = (\<lambda>_ _. Some (replicate 63 121))"
  by (simp_all add: post_lib_def)

lemma post_nonces: "length (fst (dw_nonces post_draw)) = NONCE_BYTES" "length (snd (dw_nonces post_draw)) = NONCE_BYTES"
  by (simp_all add: post_draw_def NONCE_BYTES_def)

lemma post_utf8: "utf8_valid [104, 105]" "utf8_valid (dw_uuid post_draw)"
  by (rule utf8_valid_ascii, simp add: post_draw_def)+

lemma post_new: "ev_id post_wrap \<notin> ring_set (pe_ring (processed_open False None))"
  by (simp add: processed_open_def ring_empty_def)

text \<open>A client that has user 7 on file, under the address user 7 hands out, and blocked.\<close>

definition post_reader :: mesh where
  "post_reader = demo_mesh\<lparr>ms_favorites := [([102], relationship_default\<lparr>rs_nostr_key := Some (replicate 63 121)\<rparr>)],
     ms_blocked := [[102]]\<rparr>"


theorem favourites_mail_unrecognised_witness:
  "is_blocked demo_env [102] post_reader \<and> (\<exists>reply h' seen'.
     open_private_envelope post_lib demo_env (\<lambda>_. None) \<lparr>mo_instant = 5, mo_epoch = 1005\<rparr> post_draw post_wrap post_reader
         (app_new [97] :: unit app) (geo_new [9] []) (processed_open False None)
       = Some (reply, add_dm_received (\<lambda>_. None) \<lparr>mo_instant = 5, mo_epoch = 1005\<rparr>
           (ascii ''nostr:'' @ take 8 (hex_encode (toy_public (post_key 7)))) [117] [104, 105] 1000 (app_new [97]), h', seen'))"
proof -
  obtain g' where g: "main_nostr_keypair post_lib (geo_new [7] []) = Some (post_key 7, g')"
    "send_over_nostr post_lib \<lparr>mo_instant = 0, mo_epoch = 1000\<rparr> post_draw [120] [] [104, 105] demo_mesh (geo_new [7] [])
       = Some (Some (post_wrap, [117]), g')"
    using post_sent by blast
  have friend: "([102], relationship_default\<lparr>rs_nostr_key := Some (replicate 63 121)\<rparr>) \<in> set (ms_favorites post_reader)"
    by (simp add: post_reader_def)
  have blocked: "is_blocked demo_env [102] post_reader"
    by (simp add: post_reader_def is_blocked_def listed_def to_lowercase_def ascii_lower_def starts_with_def Let_def)
  have filed: "\<exists>k. npub_from_bytes (gl_bech post_lib) k = Some x"
    if "(f, s) \<in> set (ms_favorites post_reader)" "rs_nostr_key s = Some x" for f s x
    using that by (simp add: post_reader_def npub_from_bytes_def post_public relationship_default_def)
  have bech: "length x = 63" if "gl_bech post_lib HRP k = Some x" for k x using that by (auto simp: post_public)
  have addresses: "address_to_bytes (gl_unbech post_lib) [120] = Some (nl_public post_lib (post_key 9))"
    "address_to_bytes (gl_unbech post_lib) (replicate 63 121) = Some (nl_public post_lib (post_key 7))"
    by (simp_all add: post_address post_public)
  let ?h = "(geo_new [9] [])\<lparr>gs_identities := \<lparr>is_seed = [9], is_cache = [MAIN_IDENTITY_LABEL \<mapsto> post_key 9]\<rparr>\<rparr>"
  have "\<exists>reply seen'. open_private_envelope post_lib demo_env (\<lambda>_. None) \<lparr>mo_instant = 5, mo_epoch = 1005\<rparr> post_draw post_wrap post_reader
         (app_new [97] :: unit app) (geo_new [9] []) (processed_open False None)
       = Some (reply, add_dm_received (\<lambda>_. None) \<lparr>mo_instant = 5, mo_epoch = 1005\<rparr>
           (ascii ''nostr:'' @ take 8 (hex_encode (nl_public post_lib (post_key 7)))) [117] [104, 105]
           (int (mo_epoch \<lparr>mo_instant = 0, mo_epoch = 1000\<rparr>)) (app_new [97]), ?h, seen')"
    by (rule favourites_mail_unrecognised [OF post_laws bech g(2) addresses(1) g(1) post_keypair post_nonces post_utf8 post_wrap_size post_new
          friend _ addresses(2) blocked filed]) simp_all
  then show ?thesis using blocked by (simp add: post_public) blast
qed

end
