(* ===== verification/Persistence.thy ===== *)
theory Persistence
  imports Favorites Processed Envelope
begin

text \<open>
  What survives a restart (persistence.rs, and its use in main.rs): the state file with the
  identity it mints, and the favourites.  The file is its text, \<open>None\<close> when there is none;
  the JSON of \<open>serde_json\<close> is a pair of parameters.  Hash sets are lists without
  repetitions, hash maps association lists, in the order they are iterated.
\<close>

section \<open>The state file\<close>

record app_state =
  as_nickname :: "text_bytes option"
  as_blocked_peers :: "text_bytes list"
  as_joined_channels :: "text_bytes list"
  as_favorites :: "text_bytes list"
  as_nostr_keys :: "(text_bytes \<times> text_bytes) list"
  as_nicknames :: "(text_bytes \<times> text_bytes) list"
  as_favorited_us :: "text_bytes list"
  as_noise_keys :: "(text_bytes \<times> text_bytes) list"
  as_verified :: "text_bytes list"
  as_identity_key :: "bytes option"
  as_noise_static_key :: "bytes option"
  as_device_seed :: "bytes option"

definition app_state_new :: app_state where
  "app_state_new =
     \<lparr>as_nickname = None, as_blocked_peers = [], as_joined_channels = [], as_favorites = [], as_nostr_keys = [],
      as_nicknames = [], as_favorited_us = [], as_noise_keys = [], as_verified = [], as_identity_key = None,
      as_noise_static_key = None, as_device_seed = None\<rparr>"

text \<open>\<open>writable\<close> says whether writing the file succeeds; the answer is whether it did.\<close>

definition save_state_at :: "(app_state \<Rightarrow> text_bytes) \<Rightarrow> bool \<Rightarrow> app_state \<Rightarrow> text_bytes option \<Rightarrow> bool \<times> text_bytes option" where
  "save_state_at to_json writable st disk = (if writable then (True, Some (to_json st)) else (False, disk))"

text \<open>What is missing is drawn and saved on the spot; \<open>minted\<close> are the two keys and the seed drawn.\<close>

definition mint_missing ::
  "(app_state \<Rightarrow> text_bytes) \<Rightarrow> bool \<Rightarrow> (app_state \<Rightarrow> bytes option) \<Rightarrow> (app_state \<Rightarrow> app_state)
     \<Rightarrow> app_state \<times> text_bytes option \<Rightarrow> app_state \<times> text_bytes option" where
  "mint_missing to_json writable stored mint = (\<lambda>(st, disk).
     if stored st = None then (mint st, snd (save_state_at to_json writable (mint st) disk)) else (st, disk))"

definition load_state_at ::
  "(text_bytes \<Rightarrow> app_state option) \<Rightarrow> (app_state \<Rightarrow> text_bytes) \<Rightarrow> bool \<Rightarrow> bytes \<times> bytes \<times> bytes
     \<Rightarrow> text_bytes option \<Rightarrow> app_state \<times> text_bytes option" where
  "load_state_at of_json to_json writable minted disk =
     (let (signing_key, noise_key, seed) = minted;
          st = (case disk of
                  None \<Rightarrow> app_state_new
                | Some contents \<Rightarrow> (case of_json contents of Some st \<Rightarrow> st | None \<Rightarrow> app_state_new));
          loaded = (st, disk);
          loaded = mint_missing to_json writable as_identity_key (\<lambda>st. st\<lparr>as_identity_key := Some signing_key\<rparr>) loaded;
          loaded = mint_missing to_json writable as_noise_static_key (\<lambda>st. st\<lparr>as_noise_static_key := Some noise_key\<rparr>) loaded
      in mint_missing to_json writable as_device_seed (\<lambda>st. st\<lparr>as_device_seed := Some seed\<rparr>) loaded)"

text \<open>The identity of the client before it was renamed is copied once.\<close>

definition migrate_legacy_state_if_needed ::
  "bool \<Rightarrow> text_bytes option \<Rightarrow> text_bytes option \<Rightarrow> text_bytes option" where
  "migrate_legacy_state_if_needed writable legacy current =
     (case current of
        Some _ \<Rightarrow> current
      | None \<Rightarrow> (case legacy of Some contents \<Rightarrow> if writable then Some contents else None | None \<Rightarrow> None))"

definition load_state ::
  "(text_bytes \<Rightarrow> app_state option) \<Rightarrow> (app_state \<Rightarrow> text_bytes) \<Rightarrow> bool \<Rightarrow> bytes \<times> bytes \<times> bytes
     \<Rightarrow> text_bytes option \<Rightarrow> text_bytes option \<Rightarrow> app_state \<times> text_bytes option" where
  "load_state of_json to_json writable minted legacy current =
     load_state_at of_json to_json writable minted (migrate_legacy_state_if_needed writable legacy current)"

text \<open>\<open>Some\<close> whether there was a file, \<open>None\<close> where overwriting or removing it fails.\<close>

definition wipe_state_at :: "bool \<Rightarrow> text_bytes option \<Rightarrow> bool option \<times> text_bytes option" where
  "wipe_state_at writable disk =
     (case disk of None \<Rightarrow> (Some False, None)
      | Some _ \<Rightarrow> if writable then (Some True, None) else (None, disk))"

section \<open>Starting\<close>

definition start_nickname :: "app_state \<Rightarrow> text_bytes option \<Rightarrow> text_bytes" where
  "start_nickname st configured =
     (case as_nickname st of
        Some n \<Rightarrow> n
      | None \<Rightarrow> (case configured of Some n \<Rightarrow> n | None \<Rightarrow> ascii ''anonymous''))"

definition fixed_key :: "bytes option \<Rightarrow> bytes option" where
  "fixed_key stored = (case stored of Some k \<Rightarrow> if length k = 32 then Some k else None | None \<Rightarrow> None)"

text \<open>The three keys the client starts with, \<open>None\<close> where it refuses to start.\<close>

definition start_keys :: "app_state \<Rightarrow> (bytes \<times> bytes \<times> bytes) option" where
  "start_keys st = do {
     identity_key \<leftarrow> fixed_key (as_identity_key st);
     noise_static_key \<leftarrow> fixed_key (as_noise_static_key st);
     device_seed \<leftarrow> fixed_key (as_device_seed st);
     Some (identity_key, noise_static_key, device_seed)
   }"

definition restore_favorites :: "app_state \<Rightarrow> favorites" where
  "restore_favorites st =
     map (\<lambda>fp. (fp,
        \<lparr>rs_we_favorited = fp \<in> set (as_favorites st), rs_they_favorited = fp \<in> set (as_favorited_us st),
         rs_nostr_key = map_of (as_nostr_keys st) fp,
         rs_nickname = (case map_of (as_nicknames st) fp of Some n \<Rightarrow> n | None \<Rightarrow> []),
         rs_noise_key = Option.bind (map_of (as_noise_keys st) fp) hex_decode\<rparr>))
       (remdups (as_favorites st @ as_favorited_us st @ map fst (as_nostr_keys st)))"

text \<open>The table as it is written into the state, before the state is saved.\<close>

definition save_favorites :: "favorites \<Rightarrow> app_state \<Rightarrow> app_state" where
  "save_favorites fav st =
     st\<lparr>as_favorites := map fst (filter (\<lambda>(_, r). rs_we_favorited r) fav),
        as_favorited_us := map fst (filter (\<lambda>(_, r). rs_they_favorited r) fav),
        as_nostr_keys := List.map_filter (\<lambda>(fp, r). map_option (Pair fp) (rs_nostr_key r)) fav,
        as_nicknames := map (\<lambda>(fp, r). (fp, rs_nickname r)) (filter (\<lambda>(_, r). rs_nickname r \<noteq> []) fav),
        as_noise_keys := List.map_filter (\<lambda>(fp, r). map_option (\<lambda>k. (fp, hex_encode k)) (rs_noise_key r)) fav\<rparr>"

section \<open>Favourites\<close>

lemma map_of_map_filter:
  "distinct (map fst xs) \<Longrightarrow>
     map_of (List.map_filter (\<lambda>(k, r). map_option (\<lambda>v. (k, g v)) (f r)) xs) k = map_option g (Option.bind (map_of xs k) f)"
proof (induction xs)
  case (Cons x xs)
  obtain j r where x: "x = (j, r)" by fastforce
  have none: "map_of xs j = None" using Cons.prems x by (simp add: map_of_eq_None_iff)
  show ?case using Cons none by (cases "f r") (auto simp: x map_filter_simps)
qed (simp add: map_filter_simps)

lemma keys_map_filter:
  "fst ` set (List.map_filter (\<lambda>(k, r). map_option (\<lambda>v. (k, g v)) (f r)) xs) = fst ` {(k, r) \<in> set xs. f r \<noteq> None}"
  by (force simp: List.map_filter_def)

lemma map_of_filter_nickname:
  "distinct (map fst xs) \<Longrightarrow>
     map_of (map (\<lambda>(k, r). (k, rs_nickname r)) (filter (\<lambda>(_, r). rs_nickname r \<noteq> []) xs)) k
       = (case map_of xs k of Some r \<Rightarrow> if rs_nickname r \<noteq> [] then Some (rs_nickname r) else None | None \<Rightarrow> None)"
proof (induction xs)
  case (Cons x xs)
  obtain j r where x: "x = (j, r)" by fastforce
  have "map_of xs j = None" using Cons.prems x by (simp add: map_of_eq_None_iff)
  then show ?case using Cons by (auto simp: x)
qed simp

lemma in_filtered_keys:
  "distinct (map fst xs) \<Longrightarrow> k \<in> fst ` {(k, r) \<in> set xs. P r} \<longleftrightarrow> (\<exists>r. map_of xs k = Some r \<and> P r)"
  by (force simp: map_of_eq_Some_iff)

section \<open>The identity\<close>

definition stored_state :: "(text_bytes \<Rightarrow> app_state option) \<Rightarrow> text_bytes option \<Rightarrow> app_state" where
  "stored_state of_json disk =
     (case disk of None \<Rightarrow> app_state_new
      | Some contents \<Rightarrow> (case of_json contents of Some st \<Rightarrow> st | None \<Rightarrow> app_state_new))"

definition complete :: "app_state \<Rightarrow> bool" where
  "complete st \<longleftrightarrow> as_identity_key st \<noteq> None \<and> as_noise_static_key st \<noteq> None \<and> as_device_seed st \<noteq> None"

lemma mint_missing_stored [simp]:
  "fst (mint_missing to_json writable stored mint l) = (if stored (fst l) = None then mint (fst l) else fst l)"
  by (simp add: mint_missing_def split_beta)

lemma load_complete: "complete (fst (load_state_at of_json to_json writable minted disk))"
  by (simp add: load_state_at_def complete_def Let_def split_beta del: not_None_eq)

text \<open>Either nothing was drawn, or the state is on the disk as it is.\<close>

definition written :: "(app_state \<Rightarrow> text_bytes) \<Rightarrow> app_state \<times> text_bytes option \<Rightarrow> app_state \<times> text_bytes option \<Rightarrow> bool" where
  "written to_json start l \<longleftrightarrow> snd l = Some (to_json (fst l)) \<or> l = start"

lemma mint_missing_written:
  "written to_json start l \<Longrightarrow> written to_json start (mint_missing to_json True stored mint l)"
  by (cases l) (auto simp: written_def mint_missing_def save_state_at_def)

lemma load_written:
  "snd (load_state_at of_json to_json True minted disk) = Some (to_json (fst (load_state_at of_json to_json True minted disk)))
   \<or> snd (load_state_at of_json to_json True minted disk) = disk
     \<and> fst (load_state_at of_json to_json True minted disk) = stored_state of_json disk"
proof -
  have "written to_json (stored_state of_json disk, disk) (load_state_at of_json to_json True minted disk)"
    unfolding load_state_at_def Let_def split_beta stored_state_def [symmetric]
    by (intro mint_missing_written) (simp add: written_def)
  then show ?thesis by (auto simp: written_def)
qed

lemma mint_present: "stored st \<noteq> None \<Longrightarrow> mint_missing to_json writable stored mint (st, disk) = (st, disk)"
  by (simp only: mint_missing_def prod.case if_False)

lemma load_again:
  "complete (stored_state of_json disk) \<Longrightarrow> load_state_at of_json to_json writable minted disk = (stored_state of_json disk, disk)"
  unfolding load_state_at_def Let_def split_beta stored_state_def [symmetric] complete_def
  by (elim conjE) (simp only: mint_present not_False_eq_True)

text \<open>A way to write states, for the examples.\<close>

definition demo_print :: "app_state \<Rightarrow> text_bytes" where
  "demo_print st = replicate (to_nat
     (as_nickname st, as_blocked_peers st, as_joined_channels st, as_favorites st, as_nostr_keys st, as_nicknames st,
      as_favorited_us st, as_noise_keys st, as_verified st, as_identity_key st, as_noise_static_key st, as_device_seed st)) 1"

definition demo_parse :: "text_bytes \<Rightarrow> app_state option" where
  "demo_parse text = (case from_nat (length text) of (n, b, j, f, a, i, u, k, v, x, y, z) \<Rightarrow> Some
     \<lparr>as_nickname = n, as_blocked_peers = b, as_joined_channels = j, as_favorites = f, as_nostr_keys = a, as_nicknames = i,
      as_favorited_us = u, as_noise_keys = k, as_verified = v, as_identity_key = x, as_noise_static_key = y, as_device_seed = z\<rparr>)"

section \<open>Properties\<close>

text \<open>
  Favourites survive a restart unchanged: what was saved is restored with both halves
  of the relationship, the address, the nickname and the key, and nothing else is; an entry
  that is neither a favourite nor has an address is dropped.
\<close>

theorem favourites_survive_restart:
  assumes "distinct (map fst fav)"
  shows "map_of (restore_favorites (save_favorites fav st)) fp =
    (case map_of fav fp of
       Some r \<Rightarrow> if rs_we_favorited r \<or> rs_they_favorited r \<or> rs_nostr_key r \<noteq> None then Some r else None
     | None \<Rightarrow> None)"
proof -
  let ?s = "save_favorites fav st"
  let ?keys = "as_favorites ?s @ as_favorited_us ?s @ map fst (as_nostr_keys ?s)"
  have map_keys: "map_of (map (\<lambda>k. (k, h k)) ks) k = (if k \<in> set ks then Some (h k) else None)" for h :: "text_bytes \<Rightarrow> relationship" and ks k
    by (induction ks) auto
  have we: "k \<in> set (as_favorites ?s) \<longleftrightarrow> (\<exists>r. map_of fav k = Some r \<and> rs_we_favorited r)"
    and they: "k \<in> set (as_favorited_us ?s) \<longleftrightarrow> (\<exists>r. map_of fav k = Some r \<and> rs_they_favorited r)" for k
    using in_filtered_keys [OF assms, of k] by (simp_all add: save_favorites_def image_iff)
  have key: "k \<in> set (map fst (as_nostr_keys ?s)) \<longleftrightarrow> (\<exists>r. map_of fav k = Some r \<and> rs_nostr_key r \<noteq> None)" for k
    using keys_map_filter [of "\<lambda>v. v" rs_nostr_key fav] in_filtered_keys [OF assms, of k "\<lambda>r. rs_nostr_key r \<noteq> None"]
    by (simp add: save_favorites_def)
  have "map_of (as_nostr_keys ?s) k = Option.bind (map_of fav k) rs_nostr_key"
    "Option.bind (map_of (as_noise_keys ?s) k) hex_decode = Option.bind (map_of fav k) rs_noise_key"
    "map_of (as_nicknames ?s) k = (case map_of fav k of Some r \<Rightarrow> if rs_nickname r \<noteq> [] then Some (rs_nickname r) else None | None \<Rightarrow> None)"
    for k
    using map_of_map_filter [OF assms, of "\<lambda>v. v" rs_nostr_key k] map_of_map_filter [OF assms, of hex_encode rs_noise_key k]
      map_of_filter_nickname [OF assms, of k]
    by (auto simp: save_favorites_def option.map_ident split: option.split bind_splits)
  then show ?thesis
    using we [of fp] they [of fp] key [of fp] by (auto simp: restore_favorites_def map_keys split: option.splits)
qed

theorem favourites_survive_restart_witness:
  "map_of (restore_favorites (save_favorites [([1], relationship_default\<lparr>rs_nostr_key := Some [9]\<rparr>), ([2], relationship_default)]
     app_state_new)) [1] = Some (relationship_default\<lparr>rs_nostr_key := Some [9]\<rparr>)"
  using favourites_survive_restart
    [of "[([1], relationship_default\<lparr>rs_nostr_key := Some [9]\<rparr>), ([2], relationship_default)]" app_state_new "[1]"]
  by simp

text \<open>
  The identity is minted once: a second start, whatever it would have drawn, begins
  with the state of the first, provided the file could be written and is read back.
\<close>

theorem identity_minted_once:
  assumes "\<And>st. of_json (to_json st) = Some st" and "load_state_at of_json to_json True minted disk = (st, disk')"
  shows "load_state_at of_json to_json True minted' disk' = (st, disk')
    \<and> as_identity_key st \<noteq> None \<and> as_noise_static_key st \<noteq> None \<and> as_device_seed st \<noteq> None"
proof -
  have keys: "complete st" using load_complete [of of_json to_json True minted disk] assms(2) by simp
  have "disk' = Some (to_json st) \<or> disk' = disk \<and> st = stored_state of_json disk"
    using load_written [of of_json to_json minted disk] assms(2) by simp
  then have "stored_state of_json disk' = st"
    using assms(1) by (auto simp: stored_state_def)
  then show ?thesis using load_again [of of_json disk'] keys by (simp add: complete_def)
qed

theorem identity_minted_once_witness:
  "fst (load_state_at demo_parse demo_print True ([4], [5], [6])
       (snd (load_state_at demo_parse demo_print True ([1], [2], [3]) None)))
     = fst (load_state_at demo_parse demo_print True ([1], [2], [3]) None)"
proof -
  have reads: "\<And>st. demo_parse (demo_print st) = Some st"
    by (simp add: demo_parse_def demo_print_def)
  obtain st written where first: "load_state_at demo_parse demo_print True ([1], [2], [3]) None = (st, written)"
    by fastforce
  show ?thesis
    using identity_minted_once [OF reads first, of "([4], [5], [6])"] first by simp
qed

definition demo_json :: "app_state \<Rightarrow> text_bytes" where
  "demo_json st = (if st = app_state_new\<lparr>as_identity_key := Some [1], as_noise_static_key := Some [2], as_device_seed := Some [3]\<rparr>
     then [7] else [8])"

text \<open>
  A state file that cannot be parsed is overwritten at once with an identity just
  minted: nothing of what it held is left.
\<close>

theorem unreadable_state_overwritten:
  assumes "of_json contents = None"
  shows "load_state_at of_json to_json True (signing_key, noise_key, seed) (Some contents) =
    (let st = app_state_new\<lparr>as_identity_key := Some signing_key, as_noise_static_key := Some noise_key, as_device_seed := Some seed\<rparr>
     in (st, Some (to_json st)))"
  using assms by (simp add: load_state_at_def mint_missing_def save_state_at_def app_state_new_def Let_def)

theorem unreadable_state_overwritten_witness:
  "snd (load_state_at (\<lambda>_. None) demo_json True ([1], [2], [3]) (Some [123])) = Some [7]"
  using unreadable_state_overwritten [of "\<lambda>_. None" "[123]" demo_json "[1]" "[2]" "[3]"] by (simp add: demo_json_def Let_def)

section \<open>Two memories of one file\<close>

text \<open>
  The client opens the file of opened mail twice, for relay envelopes and for couriered
  mail (main.rs).  Each memory writes the whole file from its own ring, so what the first
  recorded is gone when the second records something, and a restart takes it for new.
\<close>

theorem second_memory_overwrites:
  assumes "distinct xs" "length xs < CAPACITY" "x \<notin> set xs" "x \<noteq> y" "y \<notin> set xs"
    and opened: "p = processed_open True (Some xs)" "q = processed_open True (Some xs)"
    and first: "remember x p = (True, p')" and second: "remember y (q\<lparr>pe_file := pe_file p'\<rparr>) = (True, q')"
  shows "pe_file p' = Some (xs @ [x]) \<and> pe_file q' = Some (xs @ [y]) \<and> fst (remember x (processed_open True (pe_file q')))"
proof -
  have ring: "pe_ring p = \<lparr>ring_set = set xs, ring_order = xs\<rparr>" "pe_ring q = \<lparr>ring_set = set xs, ring_order = xs\<rparr>"
    using rebuild [OF assms(1)] assms(2) opened by (simp_all add: processed_open_def)
  have path: "pe_path p" "pe_path q" using opened by (simp_all add: processed_open_def)
  have p': "pe_file p' = Some (xs @ [x])"
    using first ring path assms(2,3) by (auto simp: remember_def processed_insert_def processed_save_def)
  have q': "pe_file q' = Some (xs @ [y])"
    using second ring path assms(2,5) by (auto simp: remember_def processed_insert_def processed_save_def)
  have "pe_ring (processed_open True (Some (xs @ [y]))) = \<lparr>ring_set = set (xs @ [y]), ring_order = xs @ [y]\<rparr>"
    using rebuild [of "xs @ [y]"] assms(1,2,5) by (simp add: processed_open_def)
  then show ?thesis using p' q' assms(3,4) by (simp add: remember_def)
qed

theorem second_memory_overwrites_witness:
  "fst (remember [1] (processed_open True (pe_file (snd (remember [2]
      ((processed_open True (Some []))\<lparr>pe_file := pe_file (snd (remember [1] (processed_open True (Some []))))\<rparr>))))))"
proof -
  let ?p = "processed_open True (Some [])"
  let ?p' = "snd (remember [1] ?p)" and ?q = "?p\<lparr>pe_file := pe_file (snd (remember [1] ?p))\<rparr>"
  have "remember [1] ?p = (True, ?p')" "remember [2] ?q = (True, snd (remember [2] ?q))"
    by (simp_all add: remember_def processed_open_def ring_empty_def)
  then have "pe_file ?p' = Some ([] @ [[1]]) \<and> pe_file (snd (remember [2] ?q)) = Some ([] @ [[2]])
    \<and> fst (remember [1] (processed_open True (pe_file (snd (remember [2] ?q)))))"
    by (intro second_memory_overwrites [OF _ _ _ _ _ refl refl]) (simp_all add: CAPACITY_def)
  then show ?thesis by blast
qed

end
