(* ===== verification/Spec2Isabelle.thy ===== *)
theory Spec2Isabelle
  imports Tlv Relay Fragment Announce Noise_Payload Carrier File_Packet Mailbox Rate_Limit Gateway Processed
    Relay_Health Outbox Favorites Gcs Type_Flags Sync_Request Responder Noise_Session Chunks Verification Mesh_Faults
    Topology Mesh_Private Discovery Config Conversations Geo Nostr_Client Mail_Delivery Internet_Mail Persistence
begin

text \<open>
  A verification library for bitmancer, a terminal client of the BitChat mesh written in
  Rust.  Every definition is a function, record or datatype translated from the code; the
  theorems are about these definitions.

  \<^bold>\<open>The program.\<close>  A client hears radio frames from its neighbours and events from internet
  relays.  A frame is first offered to the relay policy (\<open>relay_plan\<close> in main.rs), which
  may pass it on with one hop less, and then handled by the mesh service (mesh.rs): it is
  decoded (protocol.rs), reassembled if it is a fragment (fragment.rs), checked against the
  block list and the keys on file (announce.rs), and acted on: announces fill the registry
  of peers, messages are shown, Noise frames drive the encrypted sessions
  (noise_protocol.rs, noise_session.rs), sync requests are answered from an archive of
  public traffic (sync/), sealed letters are kept for others or opened (courier.rs,
  mailbox.rs), and events are carried between the mesh and the relays (gateway.rs,
  nostr/carrier.rs).  Relays are talked to by a pool with one supervisor
  (nostr/client.rs); location channels have a key of their own each (geo.rs,
  nostr/identity.rs), and private mail travels over relays in three sealed layers
  (nostr/envelope.rs) with a mesh packet inside (nostr/embedded.rs).  The mesh service and
  the pool answer with events, which the main loop (main.rs) turns into lines on the
  screen (tui/app.rs), frames for the radio and events for the relays.  The identity, the
  favourites and the block list live in a state file (persistence.rs).

  \<^bold>\<open>Where what is modelled.\<close>
  \<^item> Shared: \<open>Prelude\<close> (bytes, integers of fixed width, slices that can fail, UTF-8, hex),
    \<open>Text\<close> (string functions of the standard library), \<open>Tlv\<close> (the record codecs of all
    payloads), \<open>Bits\<close> (bit streams), \<open>Seen\<close> (bounded memories of what was seen) and
    \<open>Budget\<close> (sliding windows).  \<open>Tlv\<close>, \<open>Seen\<close>, \<open>Budget\<close> and \<open>Noise_Cipher\<close> state contracts
    as locales (\<open>tlv_codec\<close>, \<open>seen_ring\<close>, \<open>window_budget\<close>, \<open>replay_filter\<close>); each is
    interpreted on the functions of every component that provides it.
  \<^item> The wire: \<open>Protocol\<close> (protocol.rs, compression.rs), \<open>Relay\<close> (relay.rs), \<open>Fragment\<close>
    (fragment.rs), \<open>Announce\<close> (announce.rs), \<open>Noise_Payload\<close>, \<open>Carrier\<close>, \<open>File_Packet\<close>,
    \<open>Courier\<close>, \<open>Verification\<close> (the files of these names), \<open>Chunks\<close> (the splitting of
    text in mesh.rs).
  \<^item> Sync: \<open>Gcs\<close>, \<open>Type_Flags\<close>, \<open>Sync_Request\<close>, \<open>Archive\<close>, \<open>Rate_Limit\<close>, \<open>Responder\<close> (sync/).
  \<^item> Noise: \<open>Noise_Cipher\<close> and \<open>Noise_Handshake\<close> (noise_protocol.rs), \<open>Noise_Session\<close>
    (noise_session.rs).
  \<^item> The mesh service (mesh.rs): \<open>Mesh_State\<close> has the state and what the user may do with it,
    \<open>Mesh_Inbound\<close> the handling of a frame, \<open>Mesh_Safety\<close> start-up, runs and their invariant,
    \<open>Mesh_Exchange\<close> and \<open>Mesh_Private\<close> two and three services talking, \<open>Mesh_Faults\<close> what goes
    wrong; \<open>Topology\<close> (topology.rs) reads its registry, \<open>Discovery\<close> (discovery.rs) decides
    whom to dial, \<open>Favorites\<close> (favorites.rs) and \<open>Outbox\<close> (outbox.rs) are its tables.
  \<^item> Mail and gateway: \<open>Mailbox\<close> (mailbox.rs), \<open>Gateway\<close> (gateway.rs), \<open>Processed\<close>
    (nostr/processed.rs), \<open>Relay_Health\<close> (nostr/health.rs).
  \<^item> Relays: \<open>Nostr_Event\<close>, \<open>Pow\<close>, \<open>Envelope\<close>, \<open>Embedded\<close> (with nostr/npub.rs), \<open>Nostr_Client\<close>
    (nostr/client.rs, nostr/relay.rs), \<open>Geohash\<close> (geohash.rs), \<open>Geo\<close> (geo.rs,
    nostr/identity.rs).
  \<^item> The screen: \<open>Messages\<close> and \<open>Conversations\<close> (tui/app.rs, tui/event.rs), \<open>Media\<close> (media.rs,
    tui/viewer.rs), \<open>Search\<close> (tui/search.rs), \<open>Config\<close> (config.rs).
  \<^item> The main loop (main.rs): \<open>Private_Mail\<close> has the routes of private mail, the shelf, the
    gateway at work, what reaches the screen and the arrival of a frame (\<open>frame_arrived\<close>);
    \<open>Mail_Delivery\<close> and \<open>Internet_Mail\<close> follow a letter by courier and over relays from its
    writer to its reader; \<open>Persistence\<close> has the state file and what start-up restores.

  \<^bold>\<open>How the code is rendered.\<close>  A struct is a record, an enum a datatype, a method a function
  from the state to its result and the new state; a result that can be an error is a sum
  or an option, and where the code panics or may not return the model says \<open>None\<close>.
  Integers are words where they can wrap, and natural numbers or integers where the code
  only compares, saturates or counts far below their width.  Text is a list of bytes, as
  in Rust.  A hash map is a map, or an association list where its iteration order can be
  seen; a theorem then holds for every order.  One reading of each clock serves one
  operation and is an argument; so are random keys, identifiers and nonces.  The task
  structure is not modelled: one operation of a component is one step, and a run is any
  sequence of steps.  Geographic bounds are rationals, which the binary floating point of
  the code represents exactly at these sizes (\<open>bounds_are_exact\<close>).  What the code gets
  from other crates is a parameter: SHA-256, HMAC, X25519, ChaCha20-Poly1305, Ed25519 and
  BIP-340 signatures, DEFLATE, JSON, base64, bech32, Unicode case.  Their documented
  behaviour is a named hypothesis (\<open>aead_ok\<close>, \<open>dh_ok\<close>, \<open>signing_laws\<close>, \<open>sealing_laws\<close>,
  \<open>text_laws\<close>, \<open>compact_laws\<close>); each is met by a concrete instance in the witnesses.  No
  hypothesis says that a hash has no collisions or that a signature cannot be forged.

  \<^bold>\<open>What is shown.\<close>
  \<^item> Codecs: packets, letters, receipts, requests, announces and files survive the wire;
    what a decoder accepts is well formed and can be encoded again; geohashes name their
    cell; text is cut into chunks without losing a word.
  \<^item> Bounds: the assembler, the rings, the shelf, the archive, the budgets, the image cache
    and the arrival gate stay within their limits in every run, and a flooded frame is
    relayed a bounded number of hops.
  \<^item> Invariants of runs: the mesh service never panics and keeps its registry, sessions and
    memories well formed; logs stay in the order of time; private logs only grow; a frame
    is accepted by a cipher once; a message is relayed once while it is remembered.
  \<^item> Communication: the XX handshake agrees, sessions are authenticated, two clients talk,
    an announced peer is heard under its name, a private message to a new peer arrives and
    is acknowledged, a letter reaches its reader by courier and over relays.
  \<^item> Policy: blocked peers are silent, public text is vouched for, nothing is fetched
    unasked, relays are believed only when events verify, presence is coarse and rare.
  \<^item> Faults: some theorems state what the code does wrong, on the same definitions: forged
    copies silence a message, an announce under another key renames a peer, a second
    message breaks a handshake, a private line can go public, the map's sampler takes a
    line from its channel, a favourite's mail is not recognised, two memories overwrite
    each other's file.

  \<^bold>\<open>Bounds and termination.\<close>  Loops are structural recursion or have a measure; \<open>hard_split\<close>,
  which does not end when a chunk has no room for a character, is a partial function and
  is shown to end with room for four bytes.  No definition takes fuel.  A chain of hops of
  a flooded frame is an inductive relation, of length six at most, as every hop lowers the
  hop limit.  Mining is bounded by the clock, a predicate on the number of looks at it that
  becomes true.  Theorems that depend on a bounded memory name its size: 512 publications for the gateway, 2048 events for the
  relay pool, the capacity of the ring for relayed and opened messages.

  \<^bold>\<open>Not modelled.\<close>  Bluetooth (transport.rs), sockets, files beyond their contents, the
  terminal and all drawing (tui/ui.rs, theme.rs, tui.rs and the widgets), the map's
  picture (tui/map.rs) and the layout of the mesh view, which compute in floating point,
  the emoji table, the escape sequences for pictures, the wording of slash commands
  (commands.rs) and of most diagnostics, and logging.
\<close>

end
